(* ===== verification/Prelude.thy ===== *)
theory Prelude
  imports Main "HOL-Library.Word"
begin

unbundle bit_operations_syntax

text \<open>
  What every component of the development shares: the names of the machine integer types,
  the collections of lemmas that carry the component proofs, and generic facts on words,
  lists and intervals.
  The C types are the 32-bit ARM and VPU ones: \<open>unsigned\<close>, \<open>unsigned long\<close> and
  \<open>size_t\<close> are 32 bits wide.
\<close>

section \<open>Machine integers\<close>

type_synonym u8 = "8 word"
type_synonym u16 = "16 word"
type_synonym u32 = "32 word"
type_synonym u64 = "64 word"

section \<open>Collections\<close>

text \<open>
  \<open>reg_defs\<close>: the register addresses and bit constants of the Broadcom headers;
  \<open>keeps_intros\<close>: the rules that push an invariant through an action;
  \<open>run_simps\<close>: equations that execute an action on a bus.
\<close>

named_theorems reg_defs "register addresses and bit constants"
named_theorems keeps_intros "invariant rules for bus actions"
named_theorems run_simps "execution of bus actions"

section \<open>Words\<close>

lemma bit_and_word: "bit (a AND b :: 'a::len word) n \<longleftrightarrow> bit a n \<and> bit b n"
  by (simp add: bit_simps)

lemma bit_or_word: "bit (a OR b :: 'a::len word) n \<longleftrightarrow> bit a n \<or> bit b n"
  by (simp add: bit_simps)

lemma unat_mask_less: "unat (w AND mask n :: 'a::len word) < 2 ^ n"
proof -
  have "unat (w AND mask n) = take_bit n (unat w)"
    by (simp add: flip: take_bit_eq_mask unsigned_take_bit_eq)
  then show ?thesis by simp
qed

lemma unat_and_le1: "unat (a AND b :: 'a::len word) \<le> unat a"
  by (metis and.commute word_and_le1 word_le_nat_alt)

lemma unat_and_le2: "unat (a AND b :: 'a::len word) \<le> unat b"
  by (metis word_and_le1 word_le_nat_alt)

lemma unat_drop_bit_div: "unat (drop_bit n w :: 'a::len word) = unat w div 2 ^ n"
proof -
  have "unat (drop_bit n w) = drop_bit n (unat w)"
    by (rule unat_drop_bit_eq)
  then show ?thesis by (simp only: drop_bit_nat_def)
qed

lemma unat_push_bit_small:
  "unat w * 2 ^ n < 2 ^ LENGTH('a) \<Longrightarrow> unat (push_bit n (w :: 'a::len word)) = unat w * 2 ^ n"
proof -
  assume small: "unat w * 2 ^ n < 2 ^ LENGTH('a)"
  have "unat (push_bit n w) = take_bit LENGTH('a) (push_bit n (unat w))"
    by (rule unsigned_push_bit_eq)
  also have "\<dots> = take_bit LENGTH('a) (unat w * 2 ^ n)"
    by (simp only: push_bit_nat_def)
  also have "\<dots> = unat w * 2 ^ n"
    using small by (rule take_bit_nat_eq_self)
  finally show ?thesis .
qed

lemma unat_add_small:
  "unat a + unat b < 2 ^ LENGTH('a) \<Longrightarrow> unat (a + b :: 'a::len word) = unat a + unat b"
  by (simp add: unat_word_ariths)

lemma unat_of_nat_small: "n < 2 ^ LENGTH('a) \<Longrightarrow> unat (of_nat n :: 'a::len word) = n"
  by (simp add: unat_of_nat)

lemma unat_ucast_up:
  "LENGTH('a) \<le> LENGTH('b) \<Longrightarrow> unat (ucast (w :: 'a::len word) :: 'b::len word) = unat w"
  by (simp add: unsigned_ucast_eq take_bit_nat_eq_self order.strict_trans2 [OF unsigned_less])

lemma unat_ucast_mod: "unat (ucast (w :: 'a::len word) :: 'b::len word) = unat w mod 2 ^ LENGTH('b)"
  by (simp add: unsigned_ucast_eq take_bit_eq_mod)

text \<open>
  A bit field of width \<open>n\<close> at position \<open>s\<close>, overwritten by masking and or-ing: the field
  reads back as written, and fields that do not overlap it are untouched.
\<close>

definition put_field :: "nat \<Rightarrow> nat \<Rightarrow> 'a::len word \<Rightarrow> 'a word \<Rightarrow> 'a word" where
  "put_field s n c v = (v AND NOT (push_bit s (mask n))) OR push_bit s c"

definition get_field :: "nat \<Rightarrow> nat \<Rightarrow> 'a::len word \<Rightarrow> 'a word" where
  "get_field s n v = drop_bit s v AND mask n"

lemma bit_get_field:
  "bit (get_field s n v :: 'a::len word) i \<longleftrightarrow> i < n \<and> bit v (s + i)"
  by (auto simp: get_field_def bit_simps dest: bit_imp_le_length)

lemma get_put_field:
  fixes c v :: "'a::len word"
  assumes "c AND mask n = c" and "s + n \<le> LENGTH('a)"
  shows "get_field s n (put_field s n c v) = c"
proof (rule bit_word_eqI)
  fix i
  assume "i < LENGTH('a)"
  have "bit c i \<Longrightarrow> i < n"
    using assms(1) by (metis bit_and_iff bit_mask_iff)
  then show "bit (get_field s n (put_field s n c v)) i = bit c i"
    using assms(2) by (auto simp: bit_get_field put_field_def bit_simps)
qed

lemma get_put_field_other:
  fixes c v :: "'a::len word"
  assumes "c AND mask n = c" and "s' + n' \<le> s \<or> s + n \<le> s'"
  shows "get_field s' n' (put_field s n c v) = get_field s' n' v"
proof (rule bit_word_eqI)
  fix i
  assume "i < LENGTH('a)"
  have c: "bit c j \<Longrightarrow> j < n" for j
    using assms(1) by (metis bit_and_iff bit_mask_iff)
  show "bit (get_field s' n' (put_field s n c v)) i = bit (get_field s' n' v) i"
    using assms(2) by (auto simp: bit_get_field put_field_def bit_simps dest: c bit_imp_le_length)
qed

section \<open>Lists\<close>

lemma nth_update_eq_map:
  "i < length xs \<Longrightarrow> xs[i := v] ! j = (if i = j then v else xs ! j)"
  by (simp add: nth_list_update)

lemma foldl_length:
  assumes "\<And>x y. f (g x y) = f x"
  shows "f (foldl g x ys) = f x"
  by (induction ys arbitrary: x) (simp_all add: assms)

end
