(* ===== verification/Regs.thy ===== *)
theory Regs
  imports Prelude
begin

text \<open>
  Register addresses and bit constants, by their names and values in the Broadcom headers
  under \<^verbatim>\<open>src/common/broadcom/bcm2708_chip\<close> and in \<^verbatim>\<open>src/common/hardware.h\<close>.
  A register macro \<^verbatim>\<open>HW_REGISTER_RW(x)\<close> dereferences a volatile word at \<open>x\<close>; the model
  keeps the address and leaves the access to the operations of the bus (theory
  \<^verbatim>\<open>Bus\<close>). The addresses are the VideoCore bus addresses; the ARM side of the program
  reaches the same registers at \<open>VC4_TO_ARM_PERIPH\<close> of them.
\<close>

section \<open>Clock manager, PLLs and power manager passwords and registers\<close>

definition A2W_PASSWORD :: u32 where [reg_defs]: "A2W_PASSWORD = 0x5a000000"
definition A2W_PLLA_CTRL :: u32 where [reg_defs]: "A2W_PLLA_CTRL = 0x7e102100"
definition A2W_PLLA_FRAC :: u32 where [reg_defs]: "A2W_PLLA_FRAC = 0x7e102200"
definition A2W_PLLA_FRAC_MASK :: u32 where [reg_defs]: "A2W_PLLA_FRAC_MASK = 0xfffff"
definition A2W_PLLB_ANA0 :: u32 where [reg_defs]: "A2W_PLLB_ANA0 = 0x7e1020f0"
definition A2W_PLLB_ANA1 :: u32 where [reg_defs]: "A2W_PLLB_ANA1 = 0x7e1020f4"
definition A2W_PLLB_ANA2 :: u32 where [reg_defs]: "A2W_PLLB_ANA2 = 0x7e1020f8"
definition A2W_PLLB_ANA3 :: u32 where [reg_defs]: "A2W_PLLB_ANA3 = 0x7e1020fc"
definition A2W_PLLB_ANA_KAIP :: u32 where [reg_defs]: "A2W_PLLB_ANA_KAIP = 0x7e1023f0"
definition A2W_PLLB_ANA_MULTI :: u32 where [reg_defs]: "A2W_PLLB_ANA_MULTI = 0x7e102ff0"
definition A2W_PLLB_ARM :: u32 where [reg_defs]: "A2W_PLLB_ARM = 0x7e1023e0"
definition A2W_PLLB_CTRL :: u32 where [reg_defs]: "A2W_PLLB_CTRL = 0x7e1021e0"
definition A2W_PLLB_DIG0 :: u32 where [reg_defs]: "A2W_PLLB_DIG0 = 0x7e1020e0"
definition A2W_PLLB_FRAC :: u32 where [reg_defs]: "A2W_PLLB_FRAC = 0x7e1022e0"
definition A2W_PLLB_FRAC_MASK :: u32 where [reg_defs]: "A2W_PLLB_FRAC_MASK = 0xfffff"
definition A2W_PLLC_ANA0 :: u32 where [reg_defs]: "A2W_PLLC_ANA0 = 0x7e102030"
definition A2W_PLLC_ANA1 :: u32 where [reg_defs]: "A2W_PLLC_ANA1 = 0x7e102034"
definition A2W_PLLC_ANA2 :: u32 where [reg_defs]: "A2W_PLLC_ANA2 = 0x7e102038"
definition A2W_PLLC_ANA3 :: u32 where [reg_defs]: "A2W_PLLC_ANA3 = 0x7e10203c"
definition A2W_PLLC_CORE0 :: u32 where [reg_defs]: "A2W_PLLC_CORE0 = 0x7e102620"
definition A2W_PLLC_CORE0_DIV_SET :: u32 where [reg_defs]: "A2W_PLLC_CORE0_DIV_SET = 0xff"
definition A2W_PLLC_CTRL :: u32 where [reg_defs]: "A2W_PLLC_CTRL = 0x7e102120"
definition A2W_PLLC_CTRL_NDIV_SET :: u32 where [reg_defs]: "A2W_PLLC_CTRL_NDIV_SET = 0x3ff"
definition A2W_PLLC_CTRL_PDIV_LSB :: nat where [reg_defs]: "A2W_PLLC_CTRL_PDIV_LSB = 12"
definition A2W_PLLC_CTRL_PDIV_SET :: u32 where [reg_defs]: "A2W_PLLC_CTRL_PDIV_SET = 0x7000"
definition A2W_PLLC_CTRL_PRSTN_SET :: u32 where [reg_defs]: "A2W_PLLC_CTRL_PRSTN_SET = 0x20000"
definition A2W_PLLC_DIG0 :: u32 where [reg_defs]: "A2W_PLLC_DIG0 = 0x7e102020"
definition A2W_PLLC_DIG1 :: u32 where [reg_defs]: "A2W_PLLC_DIG1 = 0x7e102024"
definition A2W_PLLC_DIG2 :: u32 where [reg_defs]: "A2W_PLLC_DIG2 = 0x7e102028"
definition A2W_PLLC_DIG3 :: u32 where [reg_defs]: "A2W_PLLC_DIG3 = 0x7e10202c"
definition A2W_PLLC_FRAC :: u32 where [reg_defs]: "A2W_PLLC_FRAC = 0x7e102220"
definition A2W_PLLC_FRAC_MASK :: u32 where [reg_defs]: "A2W_PLLC_FRAC_MASK = 0xfffff"
definition A2W_PLLC_PER :: u32 where [reg_defs]: "A2W_PLLC_PER = 0x7e102520"
definition A2W_PLLC_PER_DIV_SET :: u32 where [reg_defs]: "A2W_PLLC_PER_DIV_SET = 0xff"
definition A2W_PLLD_CTRL :: u32 where [reg_defs]: "A2W_PLLD_CTRL = 0x7e102140"
definition A2W_PLLD_FRAC :: u32 where [reg_defs]: "A2W_PLLD_FRAC = 0x7e102240"
definition A2W_PLLD_FRAC_MASK :: u32 where [reg_defs]: "A2W_PLLD_FRAC_MASK = 0xfffff"
definition A2W_PLLH_CTRL :: u32 where [reg_defs]: "A2W_PLLH_CTRL = 0x7e102160"
definition A2W_PLLH_FRAC :: u32 where [reg_defs]: "A2W_PLLH_FRAC = 0x7e102260"
definition A2W_PLLH_FRAC_MASK :: u32 where [reg_defs]: "A2W_PLLH_FRAC_MASK = 0xfffff"
definition A2W_SMPS_LDO0 :: u32 where [reg_defs]: "A2W_SMPS_LDO0 = 0x7e1020d0"
definition A2W_SMPS_LDO1 :: u32 where [reg_defs]: "A2W_SMPS_LDO1 = 0x7e1020d4"
definition A2W_XOSC_CTRL :: u32 where [reg_defs]: "A2W_XOSC_CTRL = 0x7e102190"
definition A2W_XOSC_CTRL_DDREN_SET :: u32 where [reg_defs]: "A2W_XOSC_CTRL_DDREN_SET = 0x10"
definition A2W_XOSC_CTRL_PLLAEN_SET :: u32 where [reg_defs]: "A2W_XOSC_CTRL_PLLAEN_SET = 0x40"
definition A2W_XOSC_CTRL_PLLBEN_SET :: u32 where [reg_defs]: "A2W_XOSC_CTRL_PLLBEN_SET = 0x80"
definition A2W_XOSC_CTRL_PLLCEN_SET :: u32 where [reg_defs]: "A2W_XOSC_CTRL_PLLCEN_SET = 1"
definition A2W_XOSC_CTRL_PLLDEN_SET :: u32 where [reg_defs]: "A2W_XOSC_CTRL_PLLDEN_SET = 0x20"
definition CM_ARMCTL :: u32 where [reg_defs]: "CM_ARMCTL = 0x7e1011b0"
definition CM_ARMCTL_ENAB_SET :: u32 where [reg_defs]: "CM_ARMCTL_ENAB_SET = 0x10"
definition CM_GP0CTL :: u32 where [reg_defs]: "CM_GP0CTL = 0x7e101070"
definition CM_GP0CTL_BUSY_SET :: u32 where [reg_defs]: "CM_GP0CTL_BUSY_SET = 0x80"
definition CM_GP0CTL_ENAB_CLR :: u32 where [reg_defs]: "CM_GP0CTL_ENAB_CLR = 0xffffffef"
definition CM_GP0CTL_ENAB_SET :: u32 where [reg_defs]: "CM_GP0CTL_ENAB_SET = 0x10"
definition CM_GP1CTL :: u32 where [reg_defs]: "CM_GP1CTL = 0x7e101078"
definition CM_GP1DIV :: u32 where [reg_defs]: "CM_GP1DIV = 0x7e10107c"
definition CM_OSCCOUNT :: u32 where [reg_defs]: "CM_OSCCOUNT = 0x7e101100"
definition CM_PASSWORD :: u32 where [reg_defs]: "CM_PASSWORD = 0x5a000000"
definition CM_PERIICTL :: u32 where [reg_defs]: "CM_PERIICTL = 0x7e101020"
definition CM_PERIICTL_GATE_SET :: u32 where [reg_defs]: "CM_PERIICTL_GATE_SET = 0x40"
definition CM_PERIIDIV :: u32 where [reg_defs]: "CM_PERIIDIV = 0x7e101024"
definition CM_PLLB :: u32 where [reg_defs]: "CM_PLLB = 0x7e101170"
definition CM_PLLB_ANARST_SET :: u32 where [reg_defs]: "CM_PLLB_ANARST_SET = 0x100"
definition CM_PLLB_DIGRST_SET :: u32 where [reg_defs]: "CM_PLLB_DIGRST_SET = 0x200"
definition CM_PLLB_HOLDARM_SET :: u32 where [reg_defs]: "CM_PLLB_HOLDARM_SET = 2"
definition CM_PLLB_LOADARM_SET :: u32 where [reg_defs]: "CM_PLLB_LOADARM_SET = 1"
definition CM_PLLC :: u32 where [reg_defs]: "CM_PLLC = 0x7e101108"
definition CM_PLLC_DIGRST_SET :: u32 where [reg_defs]: "CM_PLLC_DIGRST_SET = 0x200"
definition CM_PLLC_HOLDCORE0_SET :: u32 where [reg_defs]: "CM_PLLC_HOLDCORE0_SET = 2"
definition CM_PLLC_HOLDCORE1_SET :: u32 where [reg_defs]: "CM_PLLC_HOLDCORE1_SET = 8"
definition CM_PLLC_HOLDCORE2_SET :: u32 where [reg_defs]: "CM_PLLC_HOLDCORE2_SET = 0x20"
definition CM_PLLC_HOLDPER_SET :: u32 where [reg_defs]: "CM_PLLC_HOLDPER_SET = 0x80"
definition CM_PLLC_LOADCORE0_SET :: u32 where [reg_defs]: "CM_PLLC_LOADCORE0_SET = 1"
definition CM_SDCCTL :: u32 where [reg_defs]: "CM_SDCCTL = 0x7e1011a8"
definition CM_SDCCTL_ACCPT_SET :: u32 where [reg_defs]: "CM_SDCCTL_ACCPT_SET = 0x10000"
definition CM_SDCCTL_BUSY_SET :: u32 where [reg_defs]: "CM_SDCCTL_BUSY_SET = 0x80"
definition CM_SDCCTL_CTRL_CLR :: u32 where [reg_defs]: "CM_SDCCTL_CTRL_CLR = 0xffff0fff"
definition CM_SDCCTL_CTRL_LSB :: nat where [reg_defs]: "CM_SDCCTL_CTRL_LSB = 12"
definition CM_SDCCTL_CTRL_SET :: u32 where [reg_defs]: "CM_SDCCTL_CTRL_SET = 0xf000"
definition CM_SDCCTL_ENAB_SET :: u32 where [reg_defs]: "CM_SDCCTL_ENAB_SET = 0x10"
definition CM_SDCCTL_SRC_CLR :: u32 where [reg_defs]: "CM_SDCCTL_SRC_CLR = 0xfffffff0"
definition CM_SDCCTL_UPDATE_CLR :: u32 where [reg_defs]: "CM_SDCCTL_UPDATE_CLR = 0xfffdffff"
definition CM_SDCCTL_UPDATE_SET :: u32 where [reg_defs]: "CM_SDCCTL_UPDATE_SET = 0x20000"
definition CM_SDCDIV :: u32 where [reg_defs]: "CM_SDCDIV = 0x7e1011ac"
definition CM_SDCDIV_DIV_LSB :: nat where [reg_defs]: "CM_SDCDIV_DIV_LSB = 12"
definition CM_SRC_OSC :: u32 where [reg_defs]: "CM_SRC_OSC = 1"
definition CM_SRC_PLLC_CORE0 :: u32 where [reg_defs]: "CM_SRC_PLLC_CORE0 = 5"
definition CM_TIMERCTL :: u32 where [reg_defs]: "CM_TIMERCTL = 0x7e1010e8"
definition CM_TIMERDIV :: u32 where [reg_defs]: "CM_TIMERDIV = 0x7e1010ec"
definition CM_TSENSCTL :: u32 where [reg_defs]: "CM_TSENSCTL = 0x7e1010e0"
definition CM_TSENSCTL_BUSY_SET :: u32 where [reg_defs]: "CM_TSENSCTL_BUSY_SET = 0x80"
definition CM_TSENSCTL_ENAB_CLR :: u32 where [reg_defs]: "CM_TSENSCTL_ENAB_CLR = 0xffffffef"
definition CM_TSENSCTL_ENAB_SET :: u32 where [reg_defs]: "CM_TSENSCTL_ENAB_SET = 0x10"
definition CM_TSENSDIV :: u32 where [reg_defs]: "CM_TSENSDIV = 0x7e1010e4"
definition CM_UARTCTL :: u32 where [reg_defs]: "CM_UARTCTL = 0x7e1010f0"
definition CM_UARTCTL_ENAB_SET :: u32 where [reg_defs]: "CM_UARTCTL_ENAB_SET = 0x10"
definition CM_UARTCTL_FRAC_SET :: u32 where [reg_defs]: "CM_UARTCTL_FRAC_SET = 0x200"
definition CM_UARTDIV :: u32 where [reg_defs]: "CM_UARTDIV = 0x7e1010f4"
definition CM_VPUCTL :: u32 where [reg_defs]: "CM_VPUCTL = 0x7e101008"
definition CM_VPUCTL_FRAC_SET :: u32 where [reg_defs]: "CM_VPUCTL_FRAC_SET = 0x200"
definition CM_VPUCTL_GATE_SET :: u32 where [reg_defs]: "CM_VPUCTL_GATE_SET = 0x40"
definition CM_VPUDIV :: u32 where [reg_defs]: "CM_VPUDIV = 0x7e10100c"
definition PM_GNRIC_CFG_LSB :: nat where [reg_defs]: "PM_GNRIC_CFG_LSB = 16"
definition PM_GNRIC_CFG_SET :: u32 where [reg_defs]: "PM_GNRIC_CFG_SET = 0x7f0000"
definition PM_GNRIC_ISFUNC_SET :: u32 where [reg_defs]: "PM_GNRIC_ISFUNC_SET = 0x20"
definition PM_GNRIC_ISPOW_SET :: u32 where [reg_defs]: "PM_GNRIC_ISPOW_SET = 4"
definition PM_GNRIC_MEMREP_SET :: u32 where [reg_defs]: "PM_GNRIC_MEMREP_SET = 8"
definition PM_GNRIC_MRDONE_SET :: u32 where [reg_defs]: "PM_GNRIC_MRDONE_SET = 0x10"
definition PM_GNRIC_POWOK_SET :: u32 where [reg_defs]: "PM_GNRIC_POWOK_SET = 2"
definition PM_GNRIC_POWUP_SET :: u32 where [reg_defs]: "PM_GNRIC_POWUP_SET = 1"
definition PM_IMAGE :: u32 where [reg_defs]: "PM_IMAGE = 0x7e100108"
definition PM_IMAGE_H264RSTN_SET :: u32 where [reg_defs]: "PM_IMAGE_H264RSTN_SET = 0x80"
definition PM_IMAGE_ISPRSTN_SET :: u32 where [reg_defs]: "PM_IMAGE_ISPRSTN_SET = 0x100"
definition PM_IMAGE_PERIRSTN_SET :: u32 where [reg_defs]: "PM_IMAGE_PERIRSTN_SET = 0x40"
definition PM_PASSWORD :: u32 where [reg_defs]: "PM_PASSWORD = 0x5a000000"
definition PM_PROC :: u32 where [reg_defs]: "PM_PROC = 0x7e100110"
definition PM_PROC_ARMRSTN_CLR :: u32 where [reg_defs]: "PM_PROC_ARMRSTN_CLR = 0xffffffbf"
definition PM_SMPS :: u32 where [reg_defs]: "PM_SMPS = 0x7e10006c"
definition PM_USB :: u32 where [reg_defs]: "PM_USB = 0x7e10005c"
definition PM_USB_CTRLEN_SET :: u32 where [reg_defs]: "PM_USB_CTRLEN_SET = 1"
definition A2W_XOSC_CTRL_USBEN_SET :: u32 where [reg_defs]: "A2W_XOSC_CTRL_USBEN_SET = 4"
definition A2W_XOSC_CTRL_USBOK_SET :: u32 where [reg_defs]: "A2W_XOSC_CTRL_USBOK_SET = 0x4000"
definition CM_TDCLKEN :: u32 where [reg_defs]: "CM_TDCLKEN = 0x7e101144"
definition CM_TDCLKEN_USBDFT_SET :: u32 where [reg_defs]: "CM_TDCLKEN_USBDFT_SET = 0x800"
definition PM_WDOG :: u32 where [reg_defs]: "PM_WDOG = 0x7e100024"
definition PM_WDOG_MASK :: u32 where [reg_defs]: "PM_WDOG_MASK = 0xfffff"
definition PM_RSTC :: u32 where [reg_defs]: "PM_RSTC = 0x7e10001c"
definition PM_RSTC_WRCFG_CLR :: u32 where [reg_defs]: "PM_RSTC_WRCFG_CLR = 0xffffffcf"
definition CM_GP0DIV :: u32 where [reg_defs]: "CM_GP0DIV = 0x7e101074"

section \<open>SDRAM controller and its PHYs\<close>

definition APHY_CSR_ADDR_PAD_DRV_SLEW_CTRL :: u32 where [reg_defs]: "APHY_CSR_ADDR_PAD_DRV_SLEW_CTRL = 0x7ee06068"
definition APHY_CSR_ADDR_PVT_COMP_CTRL :: u32 where [reg_defs]: "APHY_CSR_ADDR_PVT_COMP_CTRL = 0x7ee06070"
definition APHY_CSR_ADDR_PVT_COMP_STATUS :: u32 where [reg_defs]: "APHY_CSR_ADDR_PVT_COMP_STATUS = 0x7ee06078"
definition APHY_CSR_DDR_PLL_GLOBAL_RESET :: u32 where [reg_defs]: "APHY_CSR_DDR_PLL_GLOBAL_RESET = 0x7ee06024"
definition APHY_CSR_DDR_PLL_LOCK_STATUS :: u32 where [reg_defs]: "APHY_CSR_DDR_PLL_LOCK_STATUS = 0x7ee06048"
definition APHY_CSR_DDR_PLL_MDIV_VALUE :: u32 where [reg_defs]: "APHY_CSR_DDR_PLL_MDIV_VALUE = 0x7ee06034"
definition APHY_CSR_DDR_PLL_POST_DIV_RESET :: u32 where [reg_defs]: "APHY_CSR_DDR_PLL_POST_DIV_RESET = 0x7ee06028"
definition APHY_CSR_DDR_PLL_PWRDWN :: u32 where [reg_defs]: "APHY_CSR_DDR_PLL_PWRDWN = 0x7ee06058"
definition APHY_CSR_DDR_PLL_VCO_FREQ_CNTRL0 :: u32 where [reg_defs]: "APHY_CSR_DDR_PLL_VCO_FREQ_CNTRL0 = 0x7ee0602c"
definition APHY_CSR_DDR_PLL_VCO_FREQ_CNTRL1 :: u32 where [reg_defs]: "APHY_CSR_DDR_PLL_VCO_FREQ_CNTRL1 = 0x7ee06030"
definition APHY_CSR_GLBL_ADDR_DLL_RESET :: u32 where [reg_defs]: "APHY_CSR_GLBL_ADDR_DLL_RESET = 0x7ee06004"
definition APHY_CSR_GLBL_ADR_DLL_LOCK_STAT :: u32 where [reg_defs]: "APHY_CSR_GLBL_ADR_DLL_LOCK_STAT = 0x7ee06020"
definition APHY_CSR_PHY_BIST_CNTRL_SPR :: u32 where [reg_defs]: "APHY_CSR_PHY_BIST_CNTRL_SPR = 0x7ee06080"
definition DPHY_CSR_BOOT_READ_DQS_GATE_CTRL :: u32 where [reg_defs]: "DPHY_CSR_BOOT_READ_DQS_GATE_CTRL = 0x7ee07040"
definition DPHY_CSR_DQ_PAD_DRV_SLEW_CTRL :: u32 where [reg_defs]: "DPHY_CSR_DQ_PAD_DRV_SLEW_CTRL = 0x7ee0704c"
definition DPHY_CSR_DQ_PAD_MISC_CTRL :: u32 where [reg_defs]: "DPHY_CSR_DQ_PAD_MISC_CTRL = 0x7ee07050"
definition DPHY_CSR_DQ_PHY_MISC_CTRL :: u32 where [reg_defs]: "DPHY_CSR_DQ_PHY_MISC_CTRL = 0x7ee07048"
definition DPHY_CSR_DQ_PVT_COMP_CTRL :: u32 where [reg_defs]: "DPHY_CSR_DQ_PVT_COMP_CTRL = 0x7ee07054"
definition DPHY_CSR_DQ_PVT_COMP_STATUS :: u32 where [reg_defs]: "DPHY_CSR_DQ_PVT_COMP_STATUS = 0x7ee0705c"
definition DPHY_CSR_GLBL_DQ_DLL_RESET :: u32 where [reg_defs]: "DPHY_CSR_GLBL_DQ_DLL_RESET = 0x7ee07004"
definition DPHY_CSR_GLBL_MSTR_DLL_LOCK_STAT :: u32 where [reg_defs]: "DPHY_CSR_GLBL_MSTR_DLL_LOCK_STAT = 0x7ee07018"
definition LPDDR2_MR_CALIBRATION :: u32 where [reg_defs]: "LPDDR2_MR_CALIBRATION = 0xa"
definition LPDDR2_MR_DEVICE_FEATURE_2 :: u32 where [reg_defs]: "LPDDR2_MR_DEVICE_FEATURE_2 = 2"
definition LPDDR2_MR_IO_CONFIG :: u32 where [reg_defs]: "LPDDR2_MR_IO_CONFIG = 3"
definition LPDDR2_MR_MANUFACTURER_ID :: u32 where [reg_defs]: "LPDDR2_MR_MANUFACTURER_ID = 5"
definition LPDDR2_MR_METRICS :: u32 where [reg_defs]: "LPDDR2_MR_METRICS = 8"
definition SD_CS :: u32 where [reg_defs]: "SD_CS = 0x7ee00000"
definition SD_CS_ASHDN_T_LSB :: nat where [reg_defs]: "SD_CS_ASHDN_T_LSB = 19"
definition SD_CS_DEL_KEEP_SET :: u32 where [reg_defs]: "SD_CS_DEL_KEEP_SET = 0x40000"
definition SD_CS_DPD_SET :: u32 where [reg_defs]: "SD_CS_DPD_SET = 4"
definition SD_CS_EN_SET :: u32 where [reg_defs]: "SD_CS_EN_SET = 2"
definition SD_CS_RESTRT_SET :: u32 where [reg_defs]: "SD_CS_RESTRT_SET = 1"
definition SD_CS_SDUP_SET :: u32 where [reg_defs]: "SD_CS_SDUP_SET = 0x8000"
definition SD_CS_STATEN_SET :: u32 where [reg_defs]: "SD_CS_STATEN_SET = 0x40"
definition SD_CS_STBY_SET :: u32 where [reg_defs]: "SD_CS_STBY_SET = 8"
definition SD_CS_STOP_SET :: u32 where [reg_defs]: "SD_CS_STOP_SET = 0x80"
definition SD_MR :: u32 where [reg_defs]: "SD_MR = 0x7ee00090"
definition SD_MRT :: u32 where [reg_defs]: "SD_MRT = 0x7ee00064"
definition SD_MRT_T_MRW_LSB :: nat where [reg_defs]: "SD_MRT_T_MRW_LSB = 0"
definition SD_MR_DONE_SET :: u32 where [reg_defs]: "SD_MR_DONE_SET = 0x80000000"
definition SD_MR_HI_Z_SET :: u32 where [reg_defs]: "SD_MR_HI_Z_SET = 0x20000000"
definition SD_MR_RDATA_LSB :: nat where [reg_defs]: "SD_MR_RDATA_LSB = 16"
definition SD_MR_RDATA_SET :: u32 where [reg_defs]: "SD_MR_RDATA_SET = 0xff0000"
definition SD_MR_RW_SET :: u32 where [reg_defs]: "SD_MR_RW_SET = 0x10000000"
definition SD_MR_TIMEOUT_SET :: u32 where [reg_defs]: "SD_MR_TIMEOUT_SET = 0x40000000"
definition SD_PHYC :: u32 where [reg_defs]: "SD_PHYC = 0x7ee00060"
definition SD_PHYC_PHYRST_SET :: u32 where [reg_defs]: "SD_PHYC_PHYRST_SET = 1"
definition SD_PT1 :: u32 where [reg_defs]: "SD_PT1 = 0x7ee00014"
definition SD_PT1_T_INIT1_LSB :: nat where [reg_defs]: "SD_PT1_T_INIT1_LSB = 0"
definition SD_PT1_T_INIT3_LSB :: nat where [reg_defs]: "SD_PT1_T_INIT3_LSB = 8"
definition SD_PT2 :: u32 where [reg_defs]: "SD_PT2 = 0x7ee00010"
definition SD_PT2_T_INIT5_LSB :: nat where [reg_defs]: "SD_PT2_T_INIT5_LSB = 0"
definition SD_SA :: u32 where [reg_defs]: "SD_SA = 0x7ee00004"
definition SD_SA_CLKSTOP_SET :: u32 where [reg_defs]: "SD_SA_CLKSTOP_SET = 0x80"
definition SD_SA_PGEHLDE_SET :: u32 where [reg_defs]: "SD_SA_PGEHLDE_SET = 0x100"
definition SD_SA_POWSAVE_SET :: u32 where [reg_defs]: "SD_SA_POWSAVE_SET = 1"
definition SD_SA_RFSH_T_LSB :: nat where [reg_defs]: "SD_SA_RFSH_T_LSB = 16"
definition SD_SB :: u32 where [reg_defs]: "SD_SB = 0x7ee00008"
definition SD_SB_BANKLOW_LSB :: nat where [reg_defs]: "SD_SB_BANKLOW_LSB = 5"
definition SD_SB_COLBITS_LSB :: nat where [reg_defs]: "SD_SB_COLBITS_LSB = 0"
definition SD_SB_EIGHTBANK_SET :: u32 where [reg_defs]: "SD_SB_EIGHTBANK_SET = 0x10"
definition SD_SB_REORDER_SET :: u32 where [reg_defs]: "SD_SB_REORDER_SET = 0x80"
definition SD_SB_ROWBITS_LSB :: nat where [reg_defs]: "SD_SB_ROWBITS_LSB = 2"
definition SD_SC :: u32 where [reg_defs]: "SD_SC = 0x7ee0000c"
definition SD_SC_T_RFC_LSB :: nat where [reg_defs]: "SD_SC_T_RFC_LSB = 24"
definition SD_SC_T_RRD_LSB :: nat where [reg_defs]: "SD_SC_T_RRD_LSB = 20"
definition SD_SC_T_WR_LSB :: nat where [reg_defs]: "SD_SC_T_WR_LSB = 8"
definition SD_SC_T_WTR_LSB :: nat where [reg_defs]: "SD_SC_T_WTR_LSB = 4"
definition SD_SC_WL_LSB :: nat where [reg_defs]: "SD_SC_WL_LSB = 0"
definition SD_SD :: u32 where [reg_defs]: "SD_SD = 0x7ee00094"
definition SD_SD_T_RAS_LSB :: nat where [reg_defs]: "SD_SD_T_RAS_LSB = 8"
definition SD_SD_T_RCD_LSB :: nat where [reg_defs]: "SD_SD_T_RCD_LSB = 0"
definition SD_SD_T_RC_LSB :: nat where [reg_defs]: "SD_SD_T_RC_LSB = 20"
definition SD_SD_T_RPab_LSB :: nat where [reg_defs]: "SD_SD_T_RPab_LSB = 28"
definition SD_SD_T_RPpb_LSB :: nat where [reg_defs]: "SD_SD_T_RPpb_LSB = 4"
definition SD_SD_T_XP_LSB :: nat where [reg_defs]: "SD_SD_T_XP_LSB = 16"
definition SD_SE :: u32 where [reg_defs]: "SD_SE = 0x7ee00098"
definition SD_SE_RL_EN_LSB :: nat where [reg_defs]: "SD_SE_RL_EN_LSB = 28"
definition SD_SE_RL_LSB :: nat where [reg_defs]: "SD_SE_RL_LSB = 20"
definition SD_SE_T_FAW_LSB :: nat where [reg_defs]: "SD_SE_T_FAW_LSB = 12"
definition SD_SE_T_RTP_LSB :: nat where [reg_defs]: "SD_SE_T_RTP_LSB = 8"
definition SD_SE_T_XSR_LSB :: nat where [reg_defs]: "SD_SE_T_XSR_LSB = 0"
definition SD_IDL :: u32 where [reg_defs]: "SD_IDL = 0x7ee00018"
definition SD_CYC :: u32 where [reg_defs]: "SD_CYC = 0x7ee00030"

section \<open>GPIO\<close>

definition GP_CLR0 :: u32 where [reg_defs]: "GP_CLR0 = 0x7e200028"
definition GP_FSEL0 :: u32 where [reg_defs]: "GP_FSEL0 = 0x7e200000"
definition GP_LEV0 :: u32 where [reg_defs]: "GP_LEV0 = 0x7e200034"
definition GP_PUD :: u32 where [reg_defs]: "GP_PUD = 0x7e200094"
definition GP_PUDCLK1 :: u32 where [reg_defs]: "GP_PUDCLK1 = 0x7e20009c"
definition GP_PUDCLK1_PUDCLKn32_SET :: u32 where [reg_defs]: "GP_PUDCLK1_PUDCLKn32_SET = 0xffffffff"
definition GP_PUDCLK2 :: u32 where [reg_defs]: "GP_PUDCLK2 = 0x7e2000a0"
definition GP_PUDCLK2_PUDCLKn64_SET :: u32 where [reg_defs]: "GP_PUDCLK2_PUDCLKn64_SET = 0x3f"
definition GP_SET0 :: u32 where [reg_defs]: "GP_SET0 = 0x7e20001c"

section \<open>Interrupt controllers and system timer\<close>

definition IC0_BASE :: u32 where [reg_defs]: "IC0_BASE = 0x7e002000"
definition IC0_S :: u32 where [reg_defs]: "IC0_S = 0x7e002004"
definition IC0_VADDR :: u32 where [reg_defs]: "IC0_VADDR = 0x7e002030"
definition IC1_BASE :: u32 where [reg_defs]: "IC1_BASE = 0x7e002800"
definition IC1_VADDR :: u32 where [reg_defs]: "IC1_VADDR = 0x7e002830"
definition INTERRUPT_TIMER0 :: u32 where [reg_defs]: "INTERRUPT_TIMER0 = 0x40"
definition INTERRUPT_ARM :: u32 where [reg_defs]: "INTERRUPT_ARM = 0x5e"
definition ST_C0 :: u32 where [reg_defs]: "ST_C0 = 0x7e00300c"
definition ST_CLO :: u32 where [reg_defs]: "ST_CLO = 0x7e003004"
definition ST_CS :: u32 where [reg_defs]: "ST_CS = 0x7e003000"
definition IC0_C :: u32 where [reg_defs]: "IC0_C = 0x7e002000"
definition IC0_SRC0 :: u32 where [reg_defs]: "IC0_SRC0 = 0x7e002008"
definition IC0_SRC1 :: u32 where [reg_defs]: "IC0_SRC1 = 0x7e00200c"
definition IC1_C :: u32 where [reg_defs]: "IC1_C = 0x7e002800"
definition IC1_S :: u32 where [reg_defs]: "IC1_S = 0x7e002804"
definition IC1_SRC0 :: u32 where [reg_defs]: "IC1_SRC0 = 0x7e002808"
definition IC1_SRC1 :: u32 where [reg_defs]: "IC1_SRC1 = 0x7e00280c"

section \<open>ARM control block\<close>

definition ARM_0_MAIL1_STA :: u32 where [reg_defs]: "ARM_0_MAIL1_STA = 0x7e00b8b8"
definition ARM_0_MAIL1_WRT :: u32 where [reg_defs]: "ARM_0_MAIL1_WRT = 0x7e00b8a0"
definition ARM_1_MAIL0_WRT :: u32 where [reg_defs]: "ARM_1_MAIL0_WRT = 0x7e00b980"
definition ARM_1_MAIL1_CNF :: u32 where [reg_defs]: "ARM_1_MAIL1_CNF = 0x7e00b9bc"
definition ARM_1_MAIL1_RD :: u32 where [reg_defs]: "ARM_1_MAIL1_RD = 0x7e00b9a0"
definition ARM_C0_APROTMSK :: u32 where [reg_defs]: "ARM_C0_APROTMSK = 0xf000"
definition ARM_C0_APROTPASS :: u32 where [reg_defs]: "ARM_C0_APROTPASS = 0xa000"
definition ARM_C0_BRESP1 :: u32 where [reg_defs]: "ARM_C0_BRESP1 = 4"
definition ARM_C0_BRESP2 :: u32 where [reg_defs]: "ARM_C0_BRESP2 = 8"
definition ARM_C0_FULLPERI :: u32 where [reg_defs]: "ARM_C0_FULLPERI = 0x40"
definition ARM_C0_SIZ1G :: u32 where [reg_defs]: "ARM_C0_SIZ1G = 3"
definition ARM_C1_PERSON :: u32 where [reg_defs]: "ARM_C1_PERSON = 0x100"
definition ARM_C1_REQSTOP :: u32 where [reg_defs]: "ARM_C1_REQSTOP = 0x200"
definition ARM_CONTROL0 :: u32 where [reg_defs]: "ARM_CONTROL0 = 0x7e00b000"
definition ARM_CONTROL1 :: u32 where [reg_defs]: "ARM_CONTROL1 = 0x7e00b440"
definition ARM_ID :: u32 where [reg_defs]: "ARM_ID = 0x7e00b44c"
definition ARM_IDVAL :: u32 where [reg_defs]: "ARM_IDVAL = 0x364d5241"
definition ARM_IE_MAIL :: u32 where [reg_defs]: "ARM_IE_MAIL = 2"
definition ARM_IRQ_ENBL3 :: u32 where [reg_defs]: "ARM_IRQ_ENBL3 = 0x7e00b218"
definition ARM_MC_IHAVEDATAIRQEN :: u32 where [reg_defs]: "ARM_MC_IHAVEDATAIRQEN = 1"
definition ARM_MS_FULL :: u32 where [reg_defs]: "ARM_MS_FULL = 0x80000000"
definition ARM_PERIPH_BASE :: u32 where [reg_defs]: "ARM_PERIPH_BASE = 0x3f000000"
definition ARM_TRANSLATE :: u32 where [reg_defs]: "ARM_TRANSLATE = 0x7e00b100"
definition VC4_PERIPH_BASE :: u32 where [reg_defs]: "VC4_PERIPH_BASE = 0x7e000000"

section \<open>SD host\<close>

definition SH_ARG :: u32 where [reg_defs]: "SH_ARG = 0x7e202004"
definition SH_CDIV :: u32 where [reg_defs]: "SH_CDIV = 0x7e20200c"
definition SH_CMD :: u32 where [reg_defs]: "SH_CMD = 0x7e202000"
definition SH_CMD_BUSY_CMD_SET :: u32 where [reg_defs]: "SH_CMD_BUSY_CMD_SET = 0x800"
definition SH_CMD_COMMAND_SET :: u32 where [reg_defs]: "SH_CMD_COMMAND_SET = 0x3f"
definition SH_CMD_FAIL_FLAG_SET :: u32 where [reg_defs]: "SH_CMD_FAIL_FLAG_SET = 0x4000"
definition SH_CMD_LONG_RESPONSE_SET :: u32 where [reg_defs]: "SH_CMD_LONG_RESPONSE_SET = 0x200"
definition SH_CMD_NEW_FLAG_SET :: u32 where [reg_defs]: "SH_CMD_NEW_FLAG_SET = 0x8000"
definition SH_CMD_NO_RESPONSE_SET :: u32 where [reg_defs]: "SH_CMD_NO_RESPONSE_SET = 0x400"
definition SH_CMD_READ_CMD_SET :: u32 where [reg_defs]: "SH_CMD_READ_CMD_SET = 0x40"
definition SH_DATA :: u32 where [reg_defs]: "SH_DATA = 0x7e202040"
definition SH_EDM :: u32 where [reg_defs]: "SH_EDM = 0x7e202034"
definition SH_HBCT :: u32 where [reg_defs]: "SH_HBCT = 0x7e20203c"
definition SH_HBLC :: u32 where [reg_defs]: "SH_HBLC = 0x7e202050"
definition SH_HCFG :: u32 where [reg_defs]: "SH_HCFG = 0x7e202038"
definition SH_HCFG_SLOW_CARD_SET :: u32 where [reg_defs]: "SH_HCFG_SLOW_CARD_SET = 8"
definition SH_HCFG_WIDE_EXT_BUS_SET :: u32 where [reg_defs]: "SH_HCFG_WIDE_EXT_BUS_SET = 4"
definition SH_HCFG_WIDE_INT_BUS_SET :: u32 where [reg_defs]: "SH_HCFG_WIDE_INT_BUS_SET = 2"
definition SH_HSTS :: u32 where [reg_defs]: "SH_HSTS = 0x7e202020"
definition SH_HSTS_DATA_FLAG_SET :: u32 where [reg_defs]: "SH_HSTS_DATA_FLAG_SET = 1"
definition SH_RSP0 :: u32 where [reg_defs]: "SH_RSP0 = 0x7e202010"
definition SH_RSP1 :: u32 where [reg_defs]: "SH_RSP1 = 0x7e202014"
definition SH_RSP2 :: u32 where [reg_defs]: "SH_RSP2 = 0x7e202018"
definition SH_RSP3 :: u32 where [reg_defs]: "SH_RSP3 = 0x7e20201c"
definition SH_TOUT :: u32 where [reg_defs]: "SH_TOUT = 0x7e202008"
definition SH_VDD :: u32 where [reg_defs]: "SH_VDD = 0x7e202030"
definition SH_VDD_POWER_ON_SET :: u32 where [reg_defs]: "SH_VDD_POWER_ON_SET = 1"

section \<open>Temperature sensor and UART\<close>

definition TS_TSENSCTL :: u32 where [reg_defs]: "TS_TSENSCTL = 0x7e212000"
definition TS_TSENSSTAT :: u32 where [reg_defs]: "TS_TSENSSTAT = 0x7e212004"
definition UART_MSR :: u32 where [reg_defs]: "UART_MSR = 0x7e201018"
definition UART_RBRTHRDLL :: u32 where [reg_defs]: "UART_RBRTHRDLL = 0x7e201000"

section \<open>One-time programmable fuses\<close>

definition OTP_CONFIG_REG :: u32 where [reg_defs]: "OTP_CONFIG_REG = 0x7e20f004"
definition OTP_CTRL_LO_REG :: u32 where [reg_defs]: "OTP_CTRL_LO_REG = 0x7e20f008"
definition OTP_CTRL_HI_REG :: u32 where [reg_defs]: "OTP_CTRL_HI_REG = 0x7e20f00c"
definition OTP_STATUS_REG :: u32 where [reg_defs]: "OTP_STATUS_REG = 0x7e20f010"
definition OTP_DATA_REG :: u32 where [reg_defs]: "OTP_DATA_REG = 0x7e20f018"
definition OTP_ADDR_REG :: u32 where [reg_defs]: "OTP_ADDR_REG = 0x7e20f01c"

section \<open>USB\<close>

definition USB_GMDIOCSR :: u32 where [reg_defs]: "USB_GMDIOCSR = 0x7e980080"
definition USB_GMDIOGEN :: u32 where [reg_defs]: "USB_GMDIOGEN = 0x7e980084"
definition USB_MDIO_CSR :: u32 where [reg_defs]: "USB_MDIO_CSR = 0x7e980080"
definition USB_GVBUSDRV :: u32 where [reg_defs]: "USB_GVBUSDRV = 0x7e980088"

end
