(* ===== verification/Bus.thy ===== *)
theory Bus
  imports Regs
begin

unbundle bit_operations_syntax

text \<open>
  Volatile device access. A \<open>bus\<close> holds the hardware as an environment that answers a read
  from the history of all accesses made so far, so every deterministic device (and, over all
  environments, every device) is an instance. Code that touches registers is an action:
  a function from the bus to a value, or the way the code stopped (\<^verbatim>\<open>panic\<close> of
  \<^verbatim>\<open>src/common/panic.c\<close>, which prints and hangs the CPU, or a polling loop whose condition
  did not come true), and the bus after it.
  A polling loop \<^verbatim>\<open>for (;;) if (REG & BIT) break;\<close> is bounded by the field \<open>patience\<close> of
  the bus; \<open>poll_enough\<close> and \<open>poll_mono\<close> say how much is enough and that more never
  changes a result.
  Console output is abstracted; a register that a log statement reads as an argument is
  still read.
\<close>

section \<open>Events, buses and actions\<close>

datatype ev = Rd u32 u32 | Wr u32 u32

datatype halt = Panic string | Hang

record bus =
  env :: "ev list \<Rightarrow> u32 \<Rightarrow> u32"
  hist :: "ev list"  \<comment> \<open>latest event first\<close>
  patience :: nat

type_synonym 'a act = "bus \<Rightarrow> (halt + 'a) \<times> bus"

definition ret :: "'a \<Rightarrow> 'a act" where
  "ret x = (\<lambda>b. (Inr x, b))"

definition panic :: "string \<Rightarrow> 'a act" where
  "panic msg = (\<lambda>b. (Inl (Panic msg), b))"

definition bind :: "'a act \<Rightarrow> ('a \<Rightarrow> 'b act) \<Rightarrow> 'b act" where
  "bind m f = (\<lambda>b. case m b of (Inl e, b') \<Rightarrow> (Inl e, b') | (Inr x, b') \<Rightarrow> f x b')"

fun steps :: "unit act list \<Rightarrow> unit act" where
  "steps [] = ret ()"
| "steps (m # ms) = bind m (\<lambda>_. steps ms)"

definition rd :: "u32 \<Rightarrow> u32 act" where
  "rd a = (\<lambda>b. let v = env b (hist b) a in (Inr v, b\<lparr>hist := Rd a v # hist b\<rparr>))"

definition wr :: "u32 \<Rightarrow> u32 \<Rightarrow> unit act" where
  "wr a v = (\<lambda>b. (Inr (), b\<lparr>hist := Wr a v # hist b\<rparr>))"

definition rmw :: "u32 \<Rightarrow> (u32 \<Rightarrow> u32) \<Rightarrow> unit act" where
  "rmw a f = bind (rd a) (\<lambda>v. wr a (f v))"

definition peek :: "u32 \<Rightarrow> unit act" where
  "peek a = bind (rd a) (\<lambda>_. ret ())"

text \<open>The log line of a driver, \<^verbatim>\<open>IODevice::driverLog\<close>, prints the microsecond counter it reads.\<close>

definition driverLog :: "unit act" where
  "driverLog = peek ST_CLO"

fun poll_loop :: "nat \<Rightarrow> u32 \<Rightarrow> (u32 \<Rightarrow> bool) \<Rightarrow> u32 act" where
  "poll_loop 0 a p = (\<lambda>b. (Inl Hang, b))"
| "poll_loop (Suc n) a p = bind (rd a) (\<lambda>v. if p v then ret v else poll_loop n a p)"

definition poll :: "u32 \<Rightarrow> (u32 \<Rightarrow> bool) \<Rightarrow> u32 act" where
  "poll a p = (\<lambda>b. poll_loop (patience b) a p b)"

definition await :: "u32 \<Rightarrow> (u32 \<Rightarrow> bool) \<Rightarrow> unit act" where
  "await a p = bind (poll a p) (\<lambda>_. ret ())"

definition whenever :: "bool \<Rightarrow> unit act \<Rightarrow> unit act" where
  "whenever c m = (if c then m else ret ())"

text \<open>A run of register assignments.\<close>

definition writes :: "(u32 \<times> u32) list \<Rightarrow> unit act" where
  "writes ws = steps (map (\<lambda>(a, v). wr a v) ws)"

text \<open>The \<open>i\<close>-th word of a register array.\<close>

definition reg_at :: "u32 \<Rightarrow> nat \<Rightarrow> u32" where
  "reg_at base i = base + of_nat (4 * i)"

lemma unat_reg_at:
  assumes "unat base + 4 * i < 2 ^ 32"
  shows "unat (reg_at base i) = unat base + 4 * i"
proof -
  have "unat (of_nat (4 * i) :: u32) = 4 * i"
    using assms by (intro unat_of_nat_small) simp
  with assms show ?thesis
    unfolding reg_at_def by (subst unat_add_small) simp_all
qed

lemma reg_at_inj:
  assumes "i < 2 ^ 16" and "j < 2 ^ 16"
  shows "reg_at base i = reg_at base j \<longleftrightarrow> i = j"
proof -
  have "reg_at base i = reg_at base j \<longleftrightarrow> (of_nat (4 * i) :: u32) = of_nat (4 * j)"
    by (simp add: reg_at_def)
  also have "\<dots> \<longleftrightarrow> 4 * i = 4 * j"
    using assms by (subst word_of_nat_eq_iff) (simp add: take_bit_nat_eq_self)
  finally show ?thesis by simp
qed

section \<open>Executing actions\<close>

lemma bind_simps [run_simps]:
  "bind (ret x) f = f x"
  "bind (panic s) f = panic s"
  by (simp_all add: bind_def ret_def panic_def fun_eq_iff)

lemma bind_run:
  "m b = (Inr x, b') \<Longrightarrow> bind m f b = f x b'"
  "m b = (Inl e, b') \<Longrightarrow> bind m f b = (Inl e, b')"
  by (simp_all add: bind_def)

lemma bind_assoc: "bind (bind m f) g = bind m (\<lambda>x. bind (f x) g)"
  by (auto simp: bind_def fun_eq_iff split: prod.splits sum.splits)

lemma bind_Inr:
  "bind m f b = (Inr y, b'') \<longleftrightarrow> (\<exists>x b'. m b = (Inr x, b') \<and> f x b' = (Inr y, b''))"
  by (auto simp: bind_def split: prod.splits sum.splits)

lemma rd_run [run_simps]:
  "rd a b = (Inr (env b (hist b) a), b\<lparr>hist := Rd a (env b (hist b) a) # hist b\<rparr>)"
  by (simp add: rd_def Let_def)

lemma wr_run [run_simps]: "wr a v b = (Inr (), b\<lparr>hist := Wr a v # hist b\<rparr>)"
  by (simp add: wr_def)

lemma ret_run [run_simps]: "ret x b = (Inr x, b)"
  by (simp add: ret_def)

lemma panic_run [run_simps]: "panic s b = (Inl (Panic s), b)"
  by (simp add: panic_def)

lemma steps_append: "steps (xs @ ys) = bind (steps xs) (\<lambda>_. steps ys)"
  by (induction xs) (simp_all add: bind_simps bind_assoc)

section \<open>Runs that complete\<close>

text \<open>
  \<open>runs P m Q\<close>: from every bus that satisfies \<open>P\<close> the action returns (it neither panics
  nor hangs), and its result and the bus after it satisfy \<open>Q\<close>.
\<close>

definition runs :: "(bus \<Rightarrow> bool) \<Rightarrow> 'a act \<Rightarrow> ('a \<Rightarrow> bus \<Rightarrow> bool) \<Rightarrow> bool" where
  "runs P m Q \<longleftrightarrow> (\<forall>b. P b \<longrightarrow> (\<exists>x b'. m b = (Inr x, b') \<and> Q x b'))"

lemma runsI: "(\<And>b. P b \<Longrightarrow> \<exists>x b'. m b = (Inr x, b') \<and> Q x b') \<Longrightarrow> runs P m Q"
  by (simp add: runs_def)

lemma runsD: "runs P m Q \<Longrightarrow> P b \<Longrightarrow> \<exists>x b'. m b = (Inr x, b') \<and> Q x b'"
  by (simp add: runs_def)

lemma runs_ret: "(\<And>b. P b \<Longrightarrow> Q x b) \<Longrightarrow> runs P (ret x) Q"
  by (simp add: runs_def ret_run)

lemma runs_bind:
  assumes "runs P m R" and "\<And>x. runs (R x) (f x) Q"
  shows "runs P (bind m f) Q"
proof (rule runsI)
  fix b
  assume "P b"
  then obtain x b1 where "m b = (Inr x, b1)" and "R x b1"
    using runsD [OF assms(1)] by blast
  with runsD [OF assms(2), of x b1] show "\<exists>y b'. bind m f b = (Inr y, b') \<and> Q y b'"
    by (auto simp: bind_run)
qed

lemma runs_bind_value:
  assumes "runs P m (\<lambda>x b. x = v \<and> R b)" and "runs R (f v) Q"
  shows "runs P (bind m f) Q"
  using assms(1) by (rule runs_bind) (use assms(2) in \<open>auto simp: runs_def\<close>)

lemma runs_steps_Nil: "runs P (steps []) (\<lambda>_. P)"
  by (simp add: runs_ret)

lemma runs_steps_Cons:
  "runs P m (\<lambda>_. R) \<Longrightarrow> runs R (steps ms) Q \<Longrightarrow> runs P (steps (m # ms)) Q"
  by (simp add: runs_bind)

lemma runs_pre: "runs P m Q \<Longrightarrow> (\<And>b. P' b \<Longrightarrow> P b) \<Longrightarrow> runs P' m Q"
  unfolding runs_def by blast

lemma runs_post: "runs P m Q \<Longrightarrow> (\<And>x b. Q x b \<Longrightarrow> Q' x b) \<Longrightarrow> runs P m Q'"
  unfolding runs_def by blast

text \<open>Facts about earlier results, existential states and fuel taken from the bus.\<close>

lemma runs_conj: "(A \<Longrightarrow> runs P m Q) \<Longrightarrow> runs (\<lambda>b. A \<and> P b) m Q"
  by (auto simp: runs_def)

lemma runs_ex: "(\<And>k. runs (P k) m Q) \<Longrightarrow> runs (\<lambda>b. \<exists>k. P k b) m Q"
  by (auto simp: runs_def)

lemma runs_by_patience: "(\<And>n. runs P (m n) Q) \<Longrightarrow> runs P (\<lambda>b. m (patience b) b) Q"
  by (simp add: runs_def)

lemma runs_False [simp]: "runs (\<lambda>b. False) m Q"
  by (simp add: runs_def)

text \<open>\<open>gives m Q\<close>: whatever \<open>m\<close> returns satisfies \<open>Q\<close>.\<close>

definition gives :: "'a act \<Rightarrow> ('a \<Rightarrow> bool) \<Rightarrow> bool" where
  "gives m Q \<longleftrightarrow> (\<forall>b x b'. m b = (Inr x, b') \<longrightarrow> Q x)"

lemma gives_ret: "Q x \<Longrightarrow> gives (ret x) Q"
  by (simp add: gives_def ret_run)

lemma gives_panic: "gives (panic s) Q"
  by (simp add: gives_def panic_run)

lemma gives_any: "gives m (\<lambda>_. True)"
  by (simp add: gives_def)

lemma gives_bind: "gives m R \<Longrightarrow> (\<And>x. R x \<Longrightarrow> gives (f x) Q) \<Longrightarrow> gives (bind m f) Q"
  unfolding gives_def bind_Inr by blast

lemma gives_bind_any: "(\<And>x. gives (f x) Q) \<Longrightarrow> gives (bind m f) Q"
  unfolding gives_def bind_Inr by blast

lemma gives_post: "gives m Q \<Longrightarrow> (\<And>x. Q x \<Longrightarrow> Q' x) \<Longrightarrow> gives m Q'"
  unfolding gives_def by blast

lemma gives_if: "(c \<Longrightarrow> gives m Q) \<Longrightarrow> (\<not> c \<Longrightarrow> gives n Q) \<Longrightarrow> gives (if c then m else n) Q"
  by simp

section \<open>Every action only extends the history\<close>

definition grows :: "'a act \<Rightarrow> bool" where
  "grows m \<longleftrightarrow> (\<forall>b. \<exists>es. snd (m b) = b\<lparr>hist := es @ hist b\<rparr>)"

lemma grows_ret [keeps_intros]: "grows (ret x)"
  unfolding grows_def by (auto simp: ret_run intro: exI [of _ "[]"])

lemma grows_panic [keeps_intros]: "grows (panic s)"
  unfolding grows_def by (auto simp: panic_run intro: exI [of _ "[]"])

lemma grows_bind [keeps_intros]:
  assumes "grows m" and "\<And>x. grows (f x)"
  shows "grows (bind m f)"
proof (unfold grows_def, intro allI)
  fix b
  obtain es where es: "snd (m b) = b\<lparr>hist := es @ hist b\<rparr>"
    using assms(1) unfolding grows_def by blast
  show "\<exists>es. snd (bind m f b) = b\<lparr>hist := es @ hist b\<rparr>"
  proof (cases "fst (m b)")
    case (Inl e)
    with es show ?thesis by (cases "m b") (auto simp: bind_def)
  next
    case (Inr x)
    obtain fs where "snd (f x (snd (m b))) = (snd (m b))\<lparr>hist := fs @ hist (snd (m b))\<rparr>"
      using assms(2) unfolding grows_def by blast
    with Inr es show ?thesis
      by (cases "m b") (auto simp: bind_def intro: exI [of _ "fs @ es"])
  qed
qed

lemma grows_rd [keeps_intros]: "grows (rd a)"
  unfolding grows_def rd_run by (auto intro: exI [of _ "[x]" for x])

lemma grows_wr [keeps_intros]: "grows (wr a v)"
  unfolding grows_def wr_run by (auto intro: exI [of _ "[x]" for x])

lemma grows_poll_loop: "grows (poll_loop n a p)"
proof (induction n)
  case 0
  then show ?case unfolding grows_def by (auto intro: exI [of _ "[]"])
next
  case (Suc n)
  then show ?case by (auto intro!: grows_bind grows_rd grows_ret)
qed

lemma grows_poll [keeps_intros]: "grows (poll a p)"
  using grows_poll_loop unfolding grows_def poll_def by blast

lemma grows_env: "grows m \<Longrightarrow> env (snd (m b)) = env b"
  unfolding grows_def by (metis bus.select_convs(1) bus.surjective bus.update_convs(2))

lemma grows_patience: "grows m \<Longrightarrow> patience (snd (m b)) = patience b"
  unfolding grows_def by (metis bus.select_convs(3) bus.surjective bus.update_convs(2))

lemma grows_run: "grows m \<Longrightarrow> m b = (r, b') \<Longrightarrow> \<exists>es. hist b' = es @ hist b"
  unfolding grows_def by (metis bus.select_convs(2) bus.surjective bus.update_convs(2) snd_conv)

lemma grows_hist: "grows m \<Longrightarrow> \<exists>es. hist (snd (m b)) = es @ hist b"
  unfolding grows_def by (metis bus.select_convs(2) bus.surjective bus.update_convs(2))


lemma grows_rmw [keeps_intros]: "grows (rmw a f)"
  unfolding rmw_def by (intro grows_bind grows_rd grows_wr)

lemma grows_peek [keeps_intros]: "grows (peek a)"
  unfolding peek_def by (intro grows_bind grows_rd grows_ret)

lemma grows_driverLog [keeps_intros]: "grows driverLog"
  unfolding driverLog_def by (rule grows_peek)

lemma grows_await [keeps_intros]: "grows (await a p)"
  unfolding await_def by (intro grows_bind grows_poll grows_ret)

lemma grows_whenever [keeps_intros]: "grows m \<Longrightarrow> grows (whenever c m)"
  by (simp add: whenever_def grows_ret)

lemma grows_steps [keeps_intros]: "list_all grows ms \<Longrightarrow> grows (steps ms)"
  by (induction ms) (auto intro: grows_bind grows_ret)

lemma grows_writes [keeps_intros]: "grows (writes ws)"
  unfolding writes_def by (rule grows_steps) (auto simp: list_all_iff intro: grows_wr)

lemma grows_if [keeps_intros]: "grows m \<Longrightarrow> grows n \<Longrightarrow> grows (if c then m else n)"
  by simp

section \<open>Invariants of the access history\<close>

text \<open>
  \<open>keeps W m\<close>: when every read answers as \<open>ok\<close> allows, every write that \<open>m\<close> makes, on
  every path and also when it panics or hangs, satisfies \<open>W\<close>.
\<close>

definition answers :: "(u32 \<Rightarrow> u32 \<Rightarrow> bool) \<Rightarrow> bus \<Rightarrow> bool" where
  "answers ok b \<longleftrightarrow> (\<forall>h a. ok a (env b h a))"

definition writes_ok :: "(u32 \<Rightarrow> u32 \<Rightarrow> bool) \<Rightarrow> ev list \<Rightarrow> bool" where
  "writes_ok W es \<longleftrightarrow> list_all (\<lambda>e. case e of Wr a v \<Rightarrow> W a v | Rd a v \<Rightarrow> True) es"

definition keeps :: "(u32 \<Rightarrow> u32 \<Rightarrow> bool) \<Rightarrow> (u32 \<Rightarrow> u32 \<Rightarrow> bool) \<Rightarrow> 'a act \<Rightarrow> bool" where
  "keeps ok W m \<longleftrightarrow>
     (\<forall>b. answers ok b \<longrightarrow> writes_ok W (hist b) \<longrightarrow>
       answers ok (snd (m b)) \<and> writes_ok W (hist (snd (m b))))"

lemma answers_hist [simp]: "answers ok (b\<lparr>hist := h\<rparr>) = answers ok b"
  by (simp add: answers_def)

lemma writes_ok_simps [simp]:
  "writes_ok W []"
  "writes_ok W (Wr a v # es) \<longleftrightarrow> W a v \<and> writes_ok W es"
  "writes_ok W (Rd a v # es) \<longleftrightarrow> writes_ok W es"
  by (simp_all add: writes_ok_def)

lemma writes_okD: "writes_ok W es \<Longrightarrow> Wr a v \<in> set es \<Longrightarrow> W a v"
  by (auto simp: writes_ok_def list_all_iff split: ev.splits)

lemma keeps_ret [keeps_intros]: "keeps ok W (ret x)"
  by (simp add: keeps_def ret_run)

lemma keeps_panic [keeps_intros]: "keeps ok W (panic s)"
  by (simp add: keeps_def panic_run)

lemma keeps_bind [keeps_intros]:
  assumes "keeps ok W m" and "\<And>x. keeps ok W (f x)"
  shows "keeps ok W (bind m f)"
  unfolding keeps_def
proof (intro allI impI)
  fix b
  assume b: "answers ok b" "writes_ok W (hist b)"
  obtain r b' where m: "m b = (r, b')" by (cases "m b")
  with assms(1) b have b': "answers ok b'" "writes_ok W (hist b')"
    unfolding keeps_def by (metis snd_conv)+
  show "answers ok (snd (bind m f b)) \<and> writes_ok W (hist (snd (bind m f b)))"
  proof (cases r)
    case (Inl e)
    with m b' show ?thesis by (simp add: bind_def)
  next
    case (Inr x)
    with m b' assms(2) [of x] show ?thesis by (simp add: bind_def keeps_def)
  qed
qed

lemma keeps_rd [keeps_intros]: "keeps ok W (rd a)"
  by (simp add: keeps_def rd_run)

lemma keeps_wr [keeps_intros]: "W a v \<Longrightarrow> keeps ok W (wr a v)"
  by (simp add: keeps_def wr_run)

text \<open>What a read returns is an answer of the environment.\<close>

lemma keeps_rd_bind [keeps_intros]:
  assumes "\<And>v. ok a v \<Longrightarrow> keeps ok W (f v)"
  shows "keeps ok W (bind (rd a) f)"
  using assms unfolding keeps_def bind_def by (simp add: rd_run answers_def)

lemma keeps_poll_loop: "keeps ok W (poll_loop n a p)"
proof (induction n)
  case 0
  then show ?case by (simp add: keeps_def)
next
  case (Suc n)
  then show ?case by (auto intro!: keeps_bind keeps_rd keeps_ret)
qed

lemma keeps_poll [keeps_intros]: "keeps ok W (poll a p)"
  using keeps_poll_loop unfolding keeps_def poll_def by blast

lemma keeps_rmw [keeps_intros]: "(\<And>v. ok a v \<Longrightarrow> W a (f v)) \<Longrightarrow> keeps ok W (rmw a f)"
  unfolding rmw_def by (intro keeps_rd_bind keeps_wr)

lemma keeps_peek [keeps_intros]: "keeps ok W (peek a)"
  unfolding peek_def by (intro keeps_rd_bind keeps_ret)

lemma keeps_driverLog [keeps_intros]: "keeps ok W driverLog"
  unfolding driverLog_def by (rule keeps_peek)

lemma keeps_await [keeps_intros]: "keeps ok W (await a p)"
  unfolding await_def by (intro keeps_bind keeps_poll keeps_ret)

lemma keeps_whenever [keeps_intros]: "(c \<Longrightarrow> keeps ok W m) \<Longrightarrow> keeps ok W (whenever c m)"
  by (simp add: whenever_def keeps_ret)

lemma keeps_steps_Nil [keeps_intros]: "keeps ok W (steps [])"
  by (simp add: keeps_ret)

lemma keeps_steps_Cons [keeps_intros]:
  "keeps ok W m \<Longrightarrow> keeps ok W (steps ms) \<Longrightarrow> keeps ok W (steps (m # ms))"
  by (simp add: keeps_bind)

lemma keeps_steps_all: "(\<And>m. m \<in> set ms \<Longrightarrow> keeps ok W m) \<Longrightarrow> keeps ok W (steps ms)"
  by (induction ms) (auto intro: keeps_bind keeps_ret)

lemma keeps_writes [keeps_intros]:
  "list_all (\<lambda>(a, v). W a v) ws \<Longrightarrow> keeps ok W (writes ws)"
  unfolding writes_def
  by (rule keeps_steps_all) (auto simp: list_all_iff intro: keeps_wr)

lemma keeps_if [keeps_intros]:
  "(c \<Longrightarrow> keeps ok W m) \<Longrightarrow> (\<not> c \<Longrightarrow> keeps ok W n) \<Longrightarrow> keeps ok W (if c then m else n)"
  by simp

lemma keepsD:
  assumes "keeps ok W m" and "answers ok b" and "hist b = []"
    and "Wr a v \<in> set (hist (snd (m b)))"
  shows "W a v"
  using assms unfolding keeps_def by (metis writes_okD writes_ok_simps(1))

text \<open>
  \<open>yields ok W m R\<close>: \<open>m\<close> keeps the invariant and, when it returns, its result satisfies
  \<open>R\<close>; for code that carries the value of a register from one step to the next.
\<close>

definition yields :: "(u32 \<Rightarrow> u32 \<Rightarrow> bool) \<Rightarrow> (u32 \<Rightarrow> u32 \<Rightarrow> bool) \<Rightarrow> 'a act \<Rightarrow> ('a \<Rightarrow> bool) \<Rightarrow> bool" where
  "yields ok W m R \<longleftrightarrow> keeps ok W m \<and>
     (\<forall>b x b'. answers ok b \<longrightarrow> writes_ok W (hist b) \<longrightarrow> m b = (Inr x, b') \<longrightarrow> R x)"

lemma yields_ret: "R x \<Longrightarrow> yields ok W (ret x) R"
  by (simp add: yields_def keeps_ret ret_run)

lemma yields_rd: "yields ok W (rd a) (ok a)"
  by (auto simp: yields_def keeps_rd rd_run answers_def)

lemma yields_any: "keeps ok W m \<Longrightarrow> yields ok W m (\<lambda>_. True)"
  by (simp add: yields_def)

lemma keeps_bind_yields:
  assumes "yields ok W m R" and "\<And>x. R x \<Longrightarrow> keeps ok W (f x)"
  shows "keeps ok W (bind m f)"
  unfolding keeps_def
proof (intro allI impI)
  fix b
  assume b: "answers ok b" "writes_ok W (hist b)"
  obtain r b' where m: "m b = (r, b')" by (cases "m b")
  with assms(1) b have b': "answers ok b'" "writes_ok W (hist b')"
    unfolding yields_def keeps_def by (metis snd_conv)+
  show "answers ok (snd (bind m f b)) \<and> writes_ok W (hist (snd (bind m f b)))"
  proof (cases r)
    case (Inl e)
    with m b' show ?thesis by (simp add: bind_def)
  next
    case (Inr x)
    with assms(1) m b have "R x" unfolding yields_def by blast
    with Inr m b' assms(2) [of x] show ?thesis by (simp add: bind_def keeps_def)
  qed
qed

lemma yields_bind:
  assumes "yields ok W m R" and "\<And>x. R x \<Longrightarrow> yields ok W (f x) S"
  shows "yields ok W (bind m f) S"
  unfolding yields_def
proof (intro conjI allI impI)
  show "keeps ok W (bind m f)"
    using assms by (intro keeps_bind_yields [OF assms(1)]) (auto simp: yields_def)
  fix b x b'
  assume b: "answers ok b" "writes_ok W (hist b)" and "bind m f b = (Inr x, b')"
  then obtain y b1 where m: "m b = (Inr y, b1)" and f: "f y b1 = (Inr x, b')"
    by (auto simp: bind_Inr)
  have "keeps ok W m" "R y"
    using assms(1) b m unfolding yields_def by blast+
  then have "answers ok b1" "writes_ok W (hist b1)"
    using b m unfolding keeps_def by (metis snd_conv)+
  with assms(2) [OF \<open>R y\<close>] f show "S x" unfolding yields_def by blast
qed

section \<open>Polling\<close>

text \<open>A poll that returns read a value that satisfies its condition, as its last access.\<close>

lemma poll_loop_returns:
  "poll_loop n a p b = (Inr v, b') \<Longrightarrow> p v \<and> (\<exists>es. hist b' = Rd a v # es @ hist b)"
proof (induction n arbitrary: b)
  case 0
  then show ?case by simp
next
  case (Suc n)
  define v0 where "v0 = env b (hist b) a"
  show ?case
  proof (cases "p v0")
    case True
    with Suc.prems show ?thesis
      by (auto simp: bind_def rd_run ret_run v0_def intro: exI [of _ "[]"])
  next
    case False
    with Suc.prems have "poll_loop n a p (b\<lparr>hist := Rd a v0 # hist b\<rparr>) = (Inr v, b')"
      by (simp add: bind_def rd_run v0_def)
    from Suc.IH [OF this] obtain es where "p v" and "hist b' = Rd a v # es @ Rd a v0 # hist b"
      by auto
    then show ?thesis by (auto intro: exI [of _ "es @ [Rd a v0]"])
  qed
qed

lemma poll_returns:
  "poll a p b = (Inr v, b') \<Longrightarrow> p v \<and> (\<exists>es. hist b' = Rd a v # es @ hist b)"
  unfolding poll_def by (rule poll_loop_returns)

text \<open>A poll stops when the condition holds within its first \<open>patience\<close> reads.\<close>

fun nth_answer :: "nat \<Rightarrow> u32 \<Rightarrow> bus \<Rightarrow> u32" where
  "nth_answer 0 a b = env b (hist b) a"
| "nth_answer (Suc k) a b = nth_answer k a (snd (rd a b))"

lemma poll_loop_enough:
  "p (nth_answer k a b) \<Longrightarrow> k < n \<Longrightarrow> \<exists>v b'. poll_loop n a p b = (Inr v, b')"
proof (induction k arbitrary: b n)
  case 0
  then show ?case by (cases n) (auto simp: bind_def rd_run ret_run)
next
  case (Suc k)
  then obtain m where m: "n = Suc m" and "k < m"
    by (cases n) auto
  with Suc.prems Suc.IH [of "snd (rd a b)" m] show ?case
    by (auto simp: bind_def rd_run ret_run)
qed

lemma poll_enough:
  "p (nth_answer k a b) \<Longrightarrow> k < patience b \<Longrightarrow> \<exists>v b'. poll a p b = (Inr v, b')"
  unfolding poll_def by (rule poll_loop_enough)

lemma poll_loop_mono:
  "poll_loop n a p b = (Inr v, b') \<Longrightarrow> n \<le> m \<Longrightarrow> poll_loop m a p b = (Inr v, b')"
proof (induction n arbitrary: b m)
  case 0
  then show ?case by simp
next
  case (Suc n)
  then obtain k where "m = Suc k" and "n \<le> k"
    by (cases m) auto
  with Suc show ?case
    by (auto simp: bind_def rd_run ret_run split: if_splits)
qed

lemma await_returns:
  "await a p b = (Inr u, b') \<Longrightarrow> \<exists>v es. p v \<and> hist b' = Rd a v # es @ hist b"
  unfolding await_def bind_Inr by (auto simp: ret_run dest!: poll_returns)

section \<open>The delay loop\<close>

text \<open>
  \<^verbatim>\<open>src/common/udelay.c\<close>: read the microsecond counter, then spin until it has advanced
  by more than the argument. The subtraction is the 32-bit one, so the wrap of the counter
  does not matter.
\<close>

definition udelay :: "u32 \<Rightarrow> unit act" where
  "udelay t = bind (rd ST_CLO) (\<lambda>tv. await ST_CLO (\<lambda>now. now - tv > t))"

lemma grows_udelay [keeps_intros]: "grows (udelay t)"
  unfolding udelay_def by (intro grows_bind grows_rd grows_await)

lemma keeps_udelay [keeps_intros]: "keeps ok W (udelay t)"
  unfolding udelay_def by (intro keeps_rd_bind keeps_await)


section \<open>Registers that hold what is written\<close>

text \<open>
  The environment of storage registers: a read returns the last value written to the
  address, or the initial one. The clock manager, the PLL wrapper and the power manager
  take a write only when its top byte is the password \<open>0x5A\<close>, and keep the low 24 bits
  of it. The components state what they leave in such registers against this environment.
\<close>

definition protected :: "u32 \<Rightarrow> bool" where
  "protected a \<longleftrightarrow> 0x7e100000 \<le> a \<and> a < 0x7e103000"

definition has_password :: "u32 \<Rightarrow> bool" where
  "has_password v \<longleftrightarrow> drop_bit 24 v = 0x5a"

definition latch :: "u32 \<Rightarrow> u32 \<Rightarrow> u32 \<Rightarrow> u32" where
  "latch a old v =
     (if protected a then if has_password v then v AND 0xffffff else old else v)"

fun store_env :: "(u32 \<Rightarrow> u32) \<Rightarrow> ev list \<Rightarrow> u32 \<Rightarrow> u32" where
  "store_env m [] a = m a"
| "store_env m (Wr x v # h) a =
     (if x = a then latch a (store_env m h a) v else store_env m h a)"
| "store_env m (Rd x v # h) a = store_env m h a"

definition storage :: "(u32 \<Rightarrow> u32) \<Rightarrow> bus \<Rightarrow> bool" where
  "storage m b \<longleftrightarrow> (\<exists>m0. env b = store_env m0 \<and> store_env m0 (hist b) = m)"

lemma latch_unprotected [simp]: "\<not> protected a \<Longrightarrow> latch a old v = v"
  by (simp add: latch_def)

lemma storage_rd:
  "storage m b \<Longrightarrow> \<exists>b'. rd a b = (Inr (m a), b') \<and> storage m b'"
  by (auto simp: storage_def rd_run fun_eq_iff)

lemma storage_wr:
  "storage m b \<Longrightarrow> \<exists>b'. wr a v b = (Inr (), b') \<and> storage (m(a := latch a (m a) v)) b'"
  by (auto simp: storage_def wr_run fun_eq_iff)

lemma storage_rmw:
  assumes "storage m b"
  shows "\<exists>b'. rmw a f b = (Inr (), b') \<and> storage (m(a := latch a (m a) (f (m a)))) b'"
proof -
  obtain b1 where b1: "rd a b = (Inr (m a), b1)" "storage m b1"
    using storage_rd [OF assms] by blast
  with storage_wr [OF b1(2), of a "f (m a)"] show ?thesis
    by (auto simp: rmw_def bind_run)
qed

text \<open>
  After a run of assignments a register holds the last value assigned to it; every write to
  a protected register is taken when it carries the password.
\<close>

definition cpr_write :: "u32 \<Rightarrow> u32 \<Rightarrow> bool" where
  "cpr_write a v \<longleftrightarrow> (protected a \<longrightarrow> has_password v)"

definition written :: "(u32 \<times> u32) list \<Rightarrow> (u32 \<Rightarrow> u32) \<Rightarrow> u32 \<Rightarrow> u32" where
  "written ws m a = (case map_of (rev ws) a of None \<Rightarrow> m a | Some v \<Rightarrow> latch a 0 v)"

lemma storage_writes:
  "storage m b \<Longrightarrow> list_all (\<lambda>(a, v). cpr_write a v) ws \<Longrightarrow>
     \<exists>b'. writes ws b = (Inr (), b') \<and> storage (written ws m) b'"
proof (induction ws arbitrary: m b)
  case Nil
  then show ?case by (auto simp: writes_def ret_run written_def)
next
  case (Cons w ws)
  obtain a v where w: "w = (a, v)" by (cases w)
  obtain b1 where b1: "wr a v b = (Inr (), b1)" and m1: "storage (m(a := latch a (m a) v)) b1"
    using storage_wr [OF Cons.prems(1)] by blast
  have old: "latch a (m a) v = latch a 0 v"
    using Cons.prems(2) by (simp add: w latch_def cpr_write_def)
  have eq: "written ws (m(a := latch a (m a) v)) = written (w # ws) m"
    by (auto simp: written_def w fun_eq_iff map_add_def old split: option.splits)
  have "list_all (\<lambda>(a, v). cpr_write a v) ws"
    using Cons.prems(2) by simp
  from Cons.IH [OF m1 this] obtain b' where b': "writes ws b1 = (Inr (), b')"
    and "storage (written (w # ws) m) b'"
    unfolding eq by blast
  moreover have "writes (w # ws) b = (Inr (), b')"
    using b1 b' by (simp add: writes_def w bind_run)
  ultimately show ?case by blast
qed

lemma written_distinct:
  assumes "distinct (map fst ws)" and "(a, v) \<in> set ws"
  shows "written ws m a = latch a 0 v"
proof -
  have "map_of (rev ws) a = Some v"
    using assms by (intro map_of_is_SomeI) (simp_all add: rev_map [symmetric])
  then show ?thesis by (simp add: written_def)
qed

lemma storage_start: "storage m \<lparr>env = store_env m, hist = [], patience = n\<rparr>"
  by (auto simp: storage_def fun_eq_iff)

text \<open>
  \<open>spares a act\<close>: on storage registers \<open>act\<close> completes and leaves register \<open>a\<close> as it was.
\<close>

definition spares :: "u32 \<Rightarrow> unit act \<Rightarrow> bool" where
  "spares a act \<longleftrightarrow>
     (\<forall>m b. storage m b \<longrightarrow> (\<exists>m' b'. act b = (Inr (), b') \<and> storage m' b' \<and> m' a = m a))"

lemma spares_ret [keeps_intros]: "spares a (ret ())"
  unfolding spares_def ret_run by blast

lemma spares_wr [keeps_intros]:
  assumes "x \<noteq> a \<or> latch x 0 v = 0 \<and> protected x \<and> \<not> has_password v"
  shows "spares a (wr x v)"
  unfolding spares_def
proof (intro allI impI)
  fix m b
  assume "storage m b"
  from storage_wr [OF this, of x v] assms
  show "\<exists>m' b'. wr x v b = (Inr (), b') \<and> storage m' b' \<and> m' a = m a"
    by (auto simp: latch_def intro!: exI [of _ "m(x := latch x (m x) v)"])
qed

lemma spares_rmw [keeps_intros]:
  assumes "x \<noteq> a"
  shows "spares a (rmw x f)"
  unfolding spares_def
proof (intro allI impI)
  fix m b
  assume "storage m b"
  from storage_rmw [OF this, of x f] assms
  show "\<exists>m' b'. rmw x f b = (Inr (), b') \<and> storage m' b' \<and> m' a = m a"
    by (auto intro!: exI [of _ "m(x := latch x (m x) (f (m x)))"])
qed

lemma spares_bind [keeps_intros]:
  assumes "spares a m" and "spares a n"
  shows "spares a (bind m (\<lambda>_. n))"
  unfolding spares_def
proof (intro allI impI)
  fix s b
  assume "storage s b"
  then obtain s1 b1 where "m b = (Inr (), b1)" "storage s1 b1" "s1 a = s a"
    using assms(1) unfolding spares_def by blast
  moreover from this obtain s2 b2 where "n b1 = (Inr (), b2)" "storage s2 b2" "s2 a = s1 a"
    using assms(2) unfolding spares_def by blast
  ultimately show "\<exists>m' b'. bind m (\<lambda>_. n) b = (Inr (), b') \<and> storage m' b' \<and> m' a = s a"
    by (auto simp: bind_run)
qed

lemma spares_rd_bind [keeps_intros]:
  assumes "\<And>v. spares a (f v)"
  shows "spares a (bind (rd x) f)"
  unfolding spares_def
proof (intro allI impI)
  fix s b
  assume "storage s b"
  then obtain b1 where "rd x b = (Inr (s x), b1)" and "storage s b1"
    using storage_rd by blast
  with assms [of "s x"]
  show "\<exists>m' b'. bind (rd x) f b = (Inr (), b') \<and> storage m' b' \<and> m' a = s a"
    by (auto simp: bind_run spares_def)
qed

lemma spares_whenever [keeps_intros]: "(c \<Longrightarrow> spares a m) \<Longrightarrow> spares a (whenever c m)"
  by (simp add: whenever_def spares_ret)

lemma spares_steps_Nil [keeps_intros]: "spares a (steps [])"
  by (simp add: spares_ret)

lemma spares_steps_Cons [keeps_intros]:
  "spares a m \<Longrightarrow> spares a (steps ms) \<Longrightarrow> spares a (steps (m # ms))"
  by (simp add: spares_bind)

section \<open>Password protection\<close>

text \<open>
  The invariant of the boot path: every write to a protected register carries the
  password. It is kept by \<open>PASSWORD | value\<close> when the value has an empty top byte, which
  holds for what these registers return on a read.
\<close>

definition cpr_answer :: "u32 \<Rightarrow> u32 \<Rightarrow> bool" where
  "cpr_answer a v \<longleftrightarrow> (protected a \<longrightarrow> drop_bit 24 v = 0)"

lemma has_password_or:
  "has_password a \<Longrightarrow> has_password b \<or> drop_bit 24 b = 0 \<Longrightarrow> has_password (a OR b)"
  "has_password b \<Longrightarrow> has_password a \<or> drop_bit 24 a = 0 \<Longrightarrow> has_password (a OR b)"
  by (auto simp: has_password_def drop_bit_or)

lemma has_password_and: "has_password a \<Longrightarrow> drop_bit 24 b = 0xff \<Longrightarrow> has_password (a AND b)"
  by (simp add: has_password_def drop_bit_and)

lemma top_empty_or: "drop_bit 24 a = 0 \<Longrightarrow> drop_bit 24 b = 0 \<Longrightarrow> drop_bit 24 (a OR b :: u32) = 0"
  by (simp add: drop_bit_or)

lemma top_empty_and:
  "drop_bit 24 a = 0 \<Longrightarrow> drop_bit 24 (a AND b :: u32) = 0"
  "drop_bit 24 b = 0 \<Longrightarrow> drop_bit 24 (a AND b :: u32) = 0"
  by (simp_all add: drop_bit_and)

text \<open>An unprotected register takes any value; a closed address decides by evaluation.\<close>

lemma cpr_write_unprotected: "\<not> protected a \<Longrightarrow> cpr_write a v"
  by (simp add: cpr_write_def)

lemma cpr_write_password: "has_password v \<Longrightarrow> cpr_write a v"
  by (simp add: cpr_write_def)

lemmas cpr_simps = cpr_write_def cpr_answer_def protected_def has_password_def

end
