(* ===== verification/Clocks.thy ===== *)
theory Clocks
  imports Bus
begin

unbundle bit_operations_syntax

text \<open>
  Clocks and PLLs of the VPU firmware: the frequency readers of \<^verbatim>\<open>src/firmware/pll_read.c\<close>,
  the move of the VPU to PLLC in \<^verbatim>\<open>src/firmware/romstage.c\<close>, and the VCO and divider objects
  of \<^verbatim>\<open>src/firmware/drivers/BCM2708ClockDomains.cc\<close>. The global \<open>xtal_freq\<close> is a parameter;
  a division by zero stops the VPU (its handler hangs), so it is a \<open>panic\<close>.
\<close>

section \<open>Frequency readers (pll_read.c)\<close>

definition udiv :: "u32 \<Rightarrow> u32 \<Rightarrow> u32 act" where
  "udiv n d = (if d = 0 then panic ''division by zero'' else ret (n div d))"

text \<open>
  The argument \<open>ctrl\<close> is not used: the multiplier and the divider are read from
  \<open>A2W_PLLC_CTRL\<close>, whichever PLL is asked for.
\<close>

definition compute_pll_freq :: "u32 \<Rightarrow> u32 \<Rightarrow> u32 \<Rightarrow> u32 act" where
  "compute_pll_freq xtal_freq ctrl frac =
     bind (rd A2W_PLLC_CTRL) (\<lambda>c1. bind (rd A2W_PLLC_CTRL) (\<lambda>c2.
       let ndiv = c1 AND A2W_PLLC_CTRL_NDIV_SET;
           pdiv = drop_bit A2W_PLLC_CTRL_PDIV_LSB (c2 AND A2W_PLLC_CTRL_PDIV_SET);
           mult1 = ucast (push_bit 20 ndiv OR frac) * ucast pdiv :: u64;
           freq = ucast (drop_bit 20 (ucast xtal_freq * mult1)) :: u32
       in ret freq))"

definition pll_of :: "u32 \<Rightarrow> u32 \<Rightarrow> u32 \<Rightarrow> u32 \<Rightarrow> u32 act" where
  "pll_of xtal_freq ctrl_reg frac_reg frac_mask =
     bind (rd ctrl_reg) (\<lambda>ctrl. bind (rd frac_reg) (\<lambda>frac.
       compute_pll_freq xtal_freq ctrl (frac AND frac_mask)))"

definition plla :: "u32 \<Rightarrow> u32 act" where
  "plla xtal_freq = pll_of xtal_freq A2W_PLLA_CTRL A2W_PLLA_FRAC A2W_PLLA_FRAC_MASK"

definition pllb :: "u32 \<Rightarrow> u32 act" where
  "pllb xtal_freq = pll_of xtal_freq A2W_PLLB_CTRL A2W_PLLB_FRAC A2W_PLLB_FRAC_MASK"

definition pllc :: "u32 \<Rightarrow> u32 act" where
  "pllc xtal_freq = pll_of xtal_freq A2W_PLLC_CTRL A2W_PLLC_FRAC A2W_PLLC_FRAC_MASK"

definition plld :: "u32 \<Rightarrow> u32 act" where
  "plld xtal_freq = pll_of xtal_freq A2W_PLLD_CTRL A2W_PLLD_FRAC A2W_PLLD_FRAC_MASK"

definition pllh :: "u32 \<Rightarrow> u32 act" where
  "pllh xtal_freq = pll_of xtal_freq A2W_PLLH_CTRL A2W_PLLH_FRAC A2W_PLLH_FRAC_MASK"

definition pllc_core0 :: "u32 \<Rightarrow> u32 act" where
  "pllc_core0 xtal_freq =
     bind (rd A2W_PLLC_CORE0) (\<lambda>ctrl.
       let d = ctrl AND A2W_PLLC_CORE0_DIV_SET
       in bind (pllc xtal_freq) (\<lambda>pllc_freq. udiv pllc_freq d))"

definition clk_get_input_freq :: "u32 \<Rightarrow> u32 \<Rightarrow> u32 act" where
  "clk_get_input_freq xtal_freq ctlreg =
     bind (rd ctlreg) (\<lambda>ctl.
       if ctl AND 0xf = 1 then ret xtal_freq
       else if ctl AND 0xf = 5 then pllc_core0 xtal_freq
       else ret 0)"

definition clk_get_freq :: "u32 \<Rightarrow> u32 \<Rightarrow> u32 \<Rightarrow> u32 act" where
  "clk_get_freq xtal_freq divreg ctlreg =
     bind (rd divreg) (\<lambda>d.
       if d = 0 then ret 0
       else bind (clk_get_input_freq xtal_freq ctlreg) (\<lambda>input_freq.
         ret (ucast (push_bit 12 (ucast input_freq :: u64) div ucast d))))"

definition get_vpu_per_freq :: "u32 \<Rightarrow> u32 act" where
  "get_vpu_per_freq xtal_freq = clk_get_freq xtal_freq CM_VPUDIV CM_VPUCTL"

definition get_uart_base_freq :: "u32 \<Rightarrow> u32 act" where
  "get_uart_base_freq xtal_freq = clk_get_freq xtal_freq CM_UARTDIV CM_UARTCTL"

section \<open>Moving the VPU to PLLC (romstage.c)\<close>

definition hold_all :: u32 where
  "hold_all = CM_PASSWORD OR CM_PLLC_DIGRST_SET OR CM_PLLC_HOLDPER_SET OR CM_PLLC_HOLDCORE2_SET
     OR CM_PLLC_HOLDCORE1_SET OR CM_PLLC_HOLDCORE0_SET"

definition pllc_setup :: "(u32 \<times> u32) list" where
  "pllc_setup =
     [(A2W_PLLC_FRAC, A2W_PASSWORD OR 87380),
      (A2W_PLLC_CTRL, A2W_PASSWORD OR 52 OR 0x1000),
      (A2W_PLLC_ANA3, A2W_PASSWORD OR 0x100),
      (A2W_PLLC_ANA2, A2W_PASSWORD OR 0x0),
      (A2W_PLLC_ANA1, A2W_PASSWORD OR 0x144000),
      (A2W_PLLC_ANA0, A2W_PASSWORD OR 0x0),
      (CM_PLLC, CM_PASSWORD OR CM_PLLC_DIGRST_SET),
      (CM_PLLC, hold_all),
      (A2W_PLLC_DIG3, A2W_PASSWORD OR 0x0),
      (A2W_PLLC_DIG2, A2W_PASSWORD OR 0x400000),
      (A2W_PLLC_DIG1, A2W_PASSWORD OR 0x5),
      (A2W_PLLC_DIG0, A2W_PASSWORD OR 52 OR 0x555000),
      (A2W_PLLC_CTRL, A2W_PASSWORD OR 52 OR 0x1000 OR A2W_PLLC_CTRL_PRSTN_SET),
      (A2W_PLLC_DIG3, A2W_PASSWORD OR 0x42),
      (A2W_PLLC_DIG2, A2W_PASSWORD OR 0x500401),
      (A2W_PLLC_DIG1, A2W_PASSWORD OR 0x4005),
      (A2W_PLLC_DIG0, A2W_PASSWORD OR 52 OR 0x555000),
      (A2W_PLLC_CORE0, A2W_PASSWORD OR 2),
      (CM_PLLC, hold_all OR CM_PLLC_LOADCORE0_SET),
      (CM_PLLC, hold_all),
      (CM_PLLC, CM_PASSWORD OR CM_PLLC_DIGRST_SET OR CM_PLLC_HOLDCORE2_SET
        OR CM_PLLC_HOLDCORE1_SET),
      (CM_VPUCTL, CM_PASSWORD OR CM_VPUCTL_FRAC_SET OR CM_SRC_OSC OR CM_VPUCTL_GATE_SET),
      (CM_VPUDIV, CM_PASSWORD OR push_bit 12 4),
      (CM_VPUCTL, CM_PASSWORD OR CM_SRC_PLLC_CORE0 OR CM_VPUCTL_GATE_SET),
      (CM_VPUCTL, CM_PASSWORD OR CM_SRC_PLLC_CORE0 OR CM_VPUCTL_GATE_SET OR 0x10),
      (CM_TIMERDIV, CM_PASSWORD OR push_bit 12 19 OR 819),
      (CM_TIMERCTL, CM_PASSWORD OR CM_SRC_OSC OR 0x10)]"

definition switch_vpu_to_pllc :: "unit act" where
  "switch_vpu_to_pllc =
     bind (rmw A2W_XOSC_CTRL (\<lambda>v. v OR (A2W_PASSWORD OR A2W_XOSC_CTRL_PLLCEN_SET)))
       (\<lambda>_. writes pllc_setup)"

section \<open>VCO and divider objects (BCM2708ClockDomains.cc)\<close>

record vco =
  dig_reg :: u32
  ana_reg :: u32
  ctrl_reg :: u32
  cmPllCtrl :: u32
  frac_reg :: u32
  prediv_mask :: u32
  ana0_mask :: u32
  ana0_set :: u32
  ana1_mask :: u32
  ana1_set :: u32
  ana3_mask :: u32
  ana3_set :: u32
  reference_enable :: u32

definition setDigValues :: "vco \<Rightarrow> unit act" where
  "setDigValues p = bind driverLog (\<lambda>_.
     bind (rd (reg_at (dig_reg p) 0)) (\<lambda>dig0. bind (rd (reg_at (dig_reg p) 1)) (\<lambda>dig1.
     bind (rd (reg_at (dig_reg p) 2)) (\<lambda>dig2. bind (rd (reg_at (dig_reg p) 3)) (\<lambda>dig3.
       steps
         [wr (cmPllCtrl p) (CM_PASSWORD OR 0xAA),
          wr (reg_at (dig_reg p) 3) (A2W_PASSWORD OR dig3),
          wr (reg_at (dig_reg p) 2) (A2W_PASSWORD OR (dig2 AND 0xFFEFFBFE)),
          wr (reg_at (dig_reg p) 1) (A2W_PASSWORD OR (dig1 AND NOT (push_bit 14 1))),
          wr (reg_at (dig_reg p) 0) (A2W_PASSWORD OR dig0),
          rmw (ctrl_reg p) (\<lambda>v. A2W_PASSWORD OR 0x20000 OR v),
          wr (reg_at (dig_reg p) 3) (A2W_PASSWORD OR (dig3 OR 0x42)),
          wr (reg_at (dig_reg p) 2) (A2W_PASSWORD OR dig2),
          wr (reg_at (dig_reg p) 1) (A2W_PASSWORD OR dig1),
          wr (reg_at (dig_reg p) 0) (A2W_PASSWORD OR dig0)])))))"

definition write_ana :: "vco \<Rightarrow> u32 list \<Rightarrow> unit act" where
  "write_ana p ana = steps (map (\<lambda>i. wr (reg_at (ana_reg p) i) (A2W_PASSWORD OR ana ! i)) [3, 2, 1, 0])"

text \<open>
  Which analogue settings are written, and whether before the multiplier: a pure function
  of the current ones.
\<close>

definition ana_plan :: "vco \<Rightarrow> u32 list \<Rightarrow> bool \<Rightarrow> u32 list \<times> bool" where
  "ana_plan p ana halve =
     (let was_using_prediv = ana ! 1 AND prediv_mask p \<noteq> 0;
          a0 = (ana ! 0 AND NOT (ana0_mask p)) OR ana0_set p;
          a1 = (ana ! 1 AND NOT (ana1_mask p)) OR ana1_set p;
          a3 = (ana ! 3 AND NOT (ana3_mask p)) OR ana3_set p
      in if was_using_prediv \<and> \<not> halve then ([a0, a1 AND NOT (prediv_mask p), ana ! 2, a3], True)
         else if \<not> was_using_prediv \<and> halve then ([a0, a1 OR prediv_mask p, ana ! 2, a3], False)
         else ([a0, a1, ana ! 2, a3], True))"

definition vco_configure :: "vco \<Rightarrow> u32 \<Rightarrow> u32 \<Rightarrow> u32 \<Rightarrow> bool \<Rightarrow> unit act" where
  "vco_configure p ndiv frac pdiv halve =
     bind (rd (reg_at (ana_reg p) 3)) (\<lambda>v3. bind (rd (reg_at (ana_reg p) 2)) (\<lambda>v2.
     bind (rd (reg_at (ana_reg p) 1)) (\<lambda>v1. bind (rd (reg_at (ana_reg p) 0)) (\<lambda>v0.
       let (ana, do_early_ana_setup) = ana_plan p [v0, v1, v2, v3] halve
       in steps
         [rmw A2W_XOSC_CTRL (\<lambda>v. v OR (A2W_PASSWORD OR reference_enable p)),
          whenever do_early_ana_setup (write_ana p ana),
          wr (frac_reg p) frac,
          rmw (ctrl_reg p) (\<lambda>a2w_ctl. A2W_PASSWORD OR
            (((a2w_ctl AND NOT (A2W_PLLC_CTRL_NDIV_SET OR A2W_PLLC_CTRL_PDIV_SET)) OR ndiv)
             OR push_bit A2W_PLLC_CTRL_PDIV_LSB pdiv)),
          whenever (\<not> do_early_ana_setup) (write_ana p ana)]))))"

record pll_divider =
  a2w_reg :: u32
  cm_reg :: u32
  channel :: u8

definition divider_configure :: "pll_divider \<Rightarrow> u32 \<Rightarrow> unit act" where
  "divider_configure d divisor =
     (let load = push_bit (unat (channel d) * 2) 1 :: u32
      in bind (rmw (a2w_reg d) (\<lambda>a2w. A2W_PASSWORD OR
           ((a2w AND NOT A2W_PLLC_PER_DIV_SET) OR (divisor AND A2W_PLLC_PER_DIV_SET)))) (\<lambda>_.
         bind (rd (cm_reg d)) (\<lambda>cm. steps
           [wr (cm_reg d) (CM_PASSWORD OR cm OR load),
            wr (cm_reg d) (CM_PASSWORD OR (cm AND NOT load))])))"

definition pllc_per :: pll_divider where
  "pllc_per = \<lparr>a2w_reg = A2W_PLLC_PER, cm_reg = CM_PLLC, channel = 3\<rparr>"

text \<open>
  PLLB is the only VCO object created (\<^verbatim>\<open>BCM2708PLLB::init\<close>); it is static, so what \<open>init\<close>
  leaves unset, the fractional register and the analogue masks among them, is zero.
\<close>

definition PLLB :: vco where
  "PLLB = \<lparr>dig_reg = A2W_PLLB_DIG0, ana_reg = A2W_PLLB_ANA0, ctrl_reg = A2W_PLLB_CTRL,
     cmPllCtrl = CM_PLLB, frac_reg = 0, prediv_mask = 0, ana0_mask = 0, ana0_set = 0,
     ana1_mask = 0, ana1_set = 0, ana3_mask = 0, ana3_set = 0, reference_enable = 0\<rparr>"

section \<open>The readers on registers that hold their values\<close>

definition pll_value :: "u32 \<Rightarrow> (u32 \<Rightarrow> u32) \<Rightarrow> u32 \<Rightarrow> u32" where
  "pll_value xtal_freq m frac =
     (let c = m A2W_PLLC_CTRL
      in ucast (drop_bit 20 (ucast xtal_freq *
           (ucast (push_bit 20 (c AND A2W_PLLC_CTRL_NDIV_SET) OR frac) *
            ucast (drop_bit A2W_PLLC_CTRL_PDIV_LSB (c AND A2W_PLLC_CTRL_PDIV_SET)) :: u64))))"

lemma storage_bind_rd:
  "storage m b \<Longrightarrow> \<exists>b'. bind (rd a) f b = f (m a) b' \<and> storage m b'"
  using storage_rd [of m b a] by (auto simp: bind_run)

lemma pll_of_storage:
  assumes "storage m b"
  shows "\<exists>b'. pll_of x c f k b = (Inr (pll_value x m (m f AND k)), b') \<and> storage m b'"
proof -
  obtain b1 where 1: "rd c b = (Inr (m c), b1)" "storage m b1"
    using storage_rd [OF assms] by blast
  obtain b2 where 2: "rd f b1 = (Inr (m f), b2)" "storage m b2"
    using storage_rd [OF 1(2)] by blast
  obtain b3 where 3: "rd A2W_PLLC_CTRL b2 = (Inr (m A2W_PLLC_CTRL), b3)" "storage m b3"
    using storage_rd [OF 2(2)] by blast
  obtain b4 where 4: "rd A2W_PLLC_CTRL b3 = (Inr (m A2W_PLLC_CTRL), b4)" "storage m b4"
    using storage_rd [OF 3(2)] by blast
  show ?thesis
    using 1 2 3 4
    by (auto simp: pll_of_def compute_pll_freq_def pll_value_def Let_def bind_def ret_run)
qed

lemma pllc_core0_storage:
  assumes "storage m b"
  shows "\<exists>b'. pllc_core0 x b =
     ((let d = m A2W_PLLC_CORE0 AND A2W_PLLC_CORE0_DIV_SET
       in if d = 0 then Inl (Panic ''division by zero'')
          else Inr (pll_value x m (m A2W_PLLC_FRAC AND A2W_PLLC_FRAC_MASK) div d)), b') \<and>
     storage m b'"
proof -
  obtain b1 where 1: "rd A2W_PLLC_CORE0 b = (Inr (m A2W_PLLC_CORE0), b1)" "storage m b1"
    using storage_rd [OF assms] by blast
  obtain b2 where 2: "pllc x b1 =
      (Inr (pll_value x m (m A2W_PLLC_FRAC AND A2W_PLLC_FRAC_MASK)), b2)" "storage m b2"
    using pll_of_storage [OF 1(2)] unfolding pllc_def by blast
  show ?thesis
    using 1 2 by (auto simp: pllc_core0_def Let_def bind_def ret_run panic_run udiv_def)
qed

section \<open>The boot configuration\<close>

lemma pllc_setup_password: "list_all (\<lambda>(a, v). cpr_write a v) pllc_setup"
  by (simp add: pllc_setup_def hold_all_def reg_defs cpr_simps)

lemma switch_vpu_to_pllc_storage:
  assumes "storage m b"
  shows "\<exists>b' m'. switch_vpu_to_pllc b = (Inr (), b') \<and> storage m' b' \<and>
    m' A2W_PLLC_CTRL = 0x21034 \<and> m' A2W_PLLC_FRAC = 87380 \<and> m' A2W_PLLC_CORE0 = 2 \<and>
    m' CM_VPUDIV = 0x4000 \<and> m' CM_VPUCTL = 0x55"
proof -
  obtain m1 b1 where "rmw A2W_XOSC_CTRL (\<lambda>v. v OR (A2W_PASSWORD OR A2W_XOSC_CTRL_PLLCEN_SET)) b
      = (Inr (), b1)" and m1: "storage m1 b1"
    using storage_rmw [OF assms] by blast
  moreover obtain b2 where "writes pllc_setup b1 = (Inr (), b2)"
    and "storage (written pllc_setup m1) b2"
    using storage_writes [OF m1 pllc_setup_password] by blast
  moreover have "written pllc_setup m1 A2W_PLLC_CTRL = 0x21034"
    and "written pllc_setup m1 A2W_PLLC_FRAC = 87380"
    and "written pllc_setup m1 A2W_PLLC_CORE0 = 2"
    and "written pllc_setup m1 CM_VPUDIV = 0x4000"
    and "written pllc_setup m1 CM_VPUCTL = 0x55"
    by (simp_all add: written_def pllc_setup_def hold_all_def reg_defs latch_def protected_def
        has_password_def)
  ultimately show ?thesis
    by (auto simp: switch_vpu_to_pllc_def bind_run)
qed

section \<open>Properties\<close>

lemma drop_bit_mask_get_field:
  "drop_bit A2W_PLLC_CTRL_PDIV_LSB c AND drop_bit A2W_PLLC_CTRL_PDIV_LSB A2W_PLLC_CTRL_PDIV_SET
     = get_field 12 3 c"
  "c AND A2W_PLLC_CTRL_NDIV_SET = get_field 0 10 c"
  by (simp_all add: get_field_def reg_defs drop_bit_and mask_eq_exp_minus_1)

lemma unat_get_field: "unat (get_field s n v) < 2 ^ n"
  unfolding get_field_def by (rule unat_mask_less)

lemma unat_ndiv_frac:
  fixes n f :: u32
  assumes "unat n < 2 ^ 10" and "unat f < 2 ^ 20"
  shows "unat (push_bit 20 n OR f) = unat n * 2 ^ 20 + unat f"
proof -
  have "push_bit 20 n AND f = 0"
  proof (rule bit_word_eqI)
    fix i
    have "take_bit 20 f = f"
      using assms(2) by (metis take_bit_nat_eq_self unsigned_take_bit_eq word_unat_eq_iff)
    then have "bit f i \<Longrightarrow> i < 20"
      by (metis bit_take_bit_iff)
    then show "bit (push_bit 20 n AND f) i = bit (0 :: u32) i"
      by (auto simp: bit_simps)
  qed
  then have "push_bit 20 n OR f = push_bit 20 n + f"
    by (simp add: disjunctive_add_eq_or)
  moreover have "unat (push_bit 20 n) = unat n * 2 ^ 20"
    using assms(1) by (intro unat_push_bit_small) simp
  ultimately show ?thesis
    using assms by (simp add: unat_add_small)
qed

text \<open>\<open>compute_pll_freq\<close> never overflows in its 64-bit intermediate values: for every
  crystal below 2^31 Hz it is the exact product crystal * (ndiv + frac / 2^20) * pdiv, rounded
  down and reduced to 32 bits only in the returned word.\<close>

theorem compute_pll_freq_exact:
  assumes "storage m b" and "unat xtal < 2 ^ 31" and "unat frac < 2 ^ 20"
  shows "\<exists>f. fst (compute_pll_freq xtal ctrl frac b) = Inr f \<and>
    unat f = (unat xtal * ((unat (get_field 0 10 (m A2W_PLLC_CTRL)) * 2 ^ 20 + unat frac) *
      unat (get_field 12 3 (m A2W_PLLC_CTRL)))) div 2 ^ 20 mod 2 ^ 32"
proof -
  let ?n = "get_field 0 10 (m A2W_PLLC_CTRL)" and ?p = "get_field 12 3 (m A2W_PLLC_CTRL)"
  obtain b1 where 1: "rd A2W_PLLC_CTRL b = (Inr (m A2W_PLLC_CTRL), b1)" "storage m b1"
    using storage_rd [OF assms(1)] by blast
  obtain b2 where 2: "rd A2W_PLLC_CTRL b1 = (Inr (m A2W_PLLC_CTRL), b2)"
    using storage_rd [OF 1(2)] by blast
  have n: "unat ?n < 2 ^ 10" and p: "unat ?p < 2 ^ 3"
    by (rule unat_get_field)+
  define k where "k = unat ?n * 2 ^ 20 + unat frac"
  have k: "unat (push_bit 20 ?n OR frac) = k" "k < 2 ^ 30"
    using unat_ndiv_frac [OF n assms(3)] n assms(3) by (simp_all add: k_def)
  have kp: "k * unat ?p < 2 ^ 33"
    using mult_strict_mono [OF k(2) p] by simp
  define w :: u64 where "w = ucast (push_bit 20 ?n OR frac) * ucast ?p"
  have m1: "unat w = k * unat ?p"
    using k kp by (simp add: w_def unat_word_ariths unat_ucast_up)
  have "unat xtal * (k * unat ?p) < 2 ^ 64"
    using mult_strict_mono [OF assms(2) kp] by simp
  then have m2: "unat (ucast xtal * w) = unat xtal * (k * unat ?p)"
    unfolding unat_word_ariths(2) m1 by (simp add: unat_ucast_up)
  then have "unat (ucast (drop_bit 20
      (ucast xtal * (ucast (push_bit 20 ?n OR frac) * ucast ?p) :: u64)) :: u32)
      = unat xtal * (k * unat ?p) div 2 ^ 20 mod 2 ^ 32"
    unfolding w_def [symmetric] by (simp add: unat_ucast_mod unat_drop_bit_div)
  then show ?thesis
    using 1 2 unfolding k_def
    by (auto simp: compute_pll_freq_def Let_def bind_def ret_run drop_bit_mask_get_field)
qed

theorem compute_pll_freq_exact_witness:
  "\<exists>f. fst (compute_pll_freq 19200000 0 87380
      \<lparr>env = store_env (\<lambda>_. 0x21034), hist = [], patience = 0\<rparr>) = Inr f \<and> unat f = 999999975"
  using compute_pll_freq_exact [OF storage_start [of "\<lambda>_. 0x21034" 0], of 19200000 87380 0]
  by (simp add: get_field_def mask_eq_exp_minus_1)

text \<open>the boot configuration: on registers that hold what is written, \<open>switch_vpu_to_pllc\<close>
  completes, and with the 19.2 MHz crystal the firmware then reads PLLC CORE0 as 499999987 Hz and
  the VPU clock as 124999996 Hz.\<close>

theorem switch_vpu_to_pllc_frequencies:
  assumes "storage m b"
  shows "\<exists>b'. switch_vpu_to_pllc b = (Inr (), b') \<and>
    fst (pllc_core0 19200000 b') = Inr 499999987 \<and>
    fst (get_vpu_per_freq 19200000 b') = Inr 124999996"
proof -
  obtain b' m' where b': "switch_vpu_to_pllc b = (Inr (), b')" and m': "storage m' b'"
    and regs: "m' A2W_PLLC_CTRL = 0x21034" "m' A2W_PLLC_FRAC = 87380" "m' A2W_PLLC_CORE0 = 2"
      "m' CM_VPUDIV = 0x4000" "m' CM_VPUCTL = 0x55"
    using switch_vpu_to_pllc_storage [OF assms] by blast
  have pll: "pll_value 19200000 m' (87380 AND A2W_PLLC_FRAC_MASK) = 999999975"
    unfolding pll_value_def Let_def regs by (simp add: reg_defs)
  have core0: "\<exists>c'. pllc_core0 19200000 c = (Inr 499999987, c')" if "storage m' c" for c
    using pllc_core0_storage [OF that, of 19200000] pll regs by (auto simp: reg_defs)
  obtain b1 where 1: "rd CM_VPUDIV b' = (Inr 0x4000, b1)" "storage m' b1"
    using storage_rd [OF m', of CM_VPUDIV] regs by auto
  obtain b2 where 2: "rd CM_VPUCTL b1 = (Inr 0x55, b2)" "storage m' b2"
    using storage_rd [OF 1(2), of CM_VPUCTL] regs by auto
  obtain b3 where 3: "pllc_core0 19200000 b2 = (Inr 499999987, b3)"
    using core0 [OF 2(2)] by blast
  have "fst (get_vpu_per_freq 19200000 b') = Inr 124999996"
    by (simp add: get_vpu_per_freq_def clk_get_freq_def clk_get_input_freq_def bind_def 1 2 3
        ret_run)
  with b' core0 [OF m'] show ?thesis by auto
qed

theorem switch_vpu_to_pllc_frequencies_witness:
  "\<exists>b'. switch_vpu_to_pllc \<lparr>env = store_env (\<lambda>_. 0), hist = [], patience = 0\<rparr> = (Inr (), b') \<and>
    fst (pllc_core0 19200000 b') = Inr 499999987 \<and>
    fst (get_vpu_per_freq 19200000 b') = Inr 124999996"
  by (rule switch_vpu_to_pllc_frequencies [OF storage_start])

text \<open>\<open>plla\<close> reports the same frequency whatever \<open>A2W_PLLA_CTRL\<close> holds, because
  \<open>compute_pll_freq\<close> reads PLLC's control register instead of its argument.\<close>

theorem plla_ignores_its_control_register:
  assumes "storage m b" and "storage (m(A2W_PLLA_CTRL := c)) b'"
  shows "fst (plla xtal b) = fst (plla xtal b')"
proof -
  have "A2W_PLLA_CTRL \<noteq> A2W_PLLC_CTRL" "A2W_PLLA_CTRL \<noteq> A2W_PLLA_FRAC"
    by (simp_all add: reg_defs)
  then have "pll_value xtal (m(A2W_PLLA_CTRL := c)) = pll_value xtal m"
    and "(m(A2W_PLLA_CTRL := c)) A2W_PLLA_FRAC = m A2W_PLLA_FRAC"
    by (simp_all add: pll_value_def fun_eq_iff)
  with pll_of_storage [OF assms(1)] pll_of_storage [OF assms(2)] show ?thesis
    unfolding plla_def by (metis fst_conv)
qed

theorem plla_ignores_its_control_register_witness:
  "fst (plla 19200000 \<lparr>env = store_env (\<lambda>_. 0), hist = [], patience = 0\<rparr>) =
   fst (plla 19200000
     \<lparr>env = store_env ((\<lambda>_. 0)(A2W_PLLA_CTRL := 0x2103f)), hist = [], patience = 0\<rparr>)"
  by (rule plla_ignores_its_control_register [OF storage_start storage_start])

text \<open>\<open>BCM2708VCO::configure\<close> stores the fraction without the password: when the VCO's
  fraction register is a password-protected one, distinct from the others it touches, the
  register keeps its old value.\<close>

theorem vco_configure_loses_fraction:
  assumes "storage m b" and "protected (frac_reg p)" and "\<not> has_password frac"
    and "frac_reg p \<noteq> A2W_XOSC_CTRL" and "frac_reg p \<noteq> ctrl_reg p"
    and "\<And>i. i < 4 \<Longrightarrow> frac_reg p \<noteq> reg_at (ana_reg p) i"
  shows "\<exists>m' b'. vco_configure p ndiv frac pdiv halve b = (Inr (), b') \<and> storage m' b' \<and>
    m' (frac_reg p) = m (frac_reg p)"
proof -
  have ana: "spares (frac_reg p) (write_ana p ana)" for ana
    unfolding write_ana_def list.map using assms(6)
    by (intro keeps_intros) (auto simp: eq_commute [of "frac_reg p"])
  have "spares (frac_reg p) (vco_configure p ndiv frac pdiv halve)"
    unfolding vco_configure_def using assms(2-5)
    by (auto simp del: steps.simps simp: Let_def latch_def split: prod.splits
        intro!: keeps_intros ana)
  with assms(1) show ?thesis unfolding spares_def by blast
qed

theorem vco_configure_loses_fraction_witness:
  "\<exists>m' b'. vco_configure (PLLB\<lparr>frac_reg := A2W_PLLB_FRAC\<rparr>) 52 0xeaaa8 1 False
      \<lparr>env = store_env (\<lambda>_. 7), hist = [], patience = 0\<rparr> = (Inr (), b') \<and> storage m' b' \<and>
    m' A2W_PLLB_FRAC = 7"
proof -
  have ana: "A2W_PLLB_FRAC \<noteq> reg_at A2W_PLLB_ANA0 i" if "i < 4" for i
  proof -
    have "unat (reg_at A2W_PLLB_ANA0 i) = 0x7e1020f0 + 4 * i"
      using that by (subst unat_reg_at) (simp_all add: reg_defs)
    with that show ?thesis by (auto simp: reg_defs)
  qed
  show ?thesis
    using vco_configure_loses_fraction [OF storage_start [of "\<lambda>_. 7" 0], where
        p = "PLLB\<lparr>frac_reg := A2W_PLLB_FRAC\<rparr>" and frac = "0xeaaa8" and ndiv = 52 and pdiv = 1
        and halve = False] ana
    by (simp add: PLLB_def protected_def has_password_def reg_defs)
qed

section \<open>Password discipline of the clock code\<close>

lemma keeps_switch_vpu_to_pllc [keeps_intros]: "keeps cpr_answer cpr_write switch_vpu_to_pllc"
  unfolding switch_vpu_to_pllc_def
  by (intro keeps_intros pllc_setup_password) (simp add: reg_defs cpr_simps drop_bit_or)

lemma keeps_divider_configure [keeps_intros]:
  "keeps cpr_answer cpr_write (divider_configure pllc_per d)"
  unfolding divider_configure_def pllc_per_def Let_def
  by (intro keeps_intros) (simp_all add: reg_defs cpr_simps drop_bit_or drop_bit_and)

lemma keeps_setDigValues [keeps_intros]: "keeps cpr_answer cpr_write (setDigValues PLLB)"
  unfolding setDigValues_def PLLB_def Let_def
  by (intro keeps_intros)
    (simp_all add: reg_at_def reg_defs cpr_simps drop_bit_or drop_bit_and)

end
