(* ===== verification/Console.thy ===== *)
theory Console
  imports Clocks
begin

unbundle bit_operations_syntax

text \<open>
  Console output: the formatter \<^verbatim>\<open>src/notc/xprintf.c\<close> with \<^verbatim>\<open>src/notc/puts.c\<close>, the
  PL011 and auxiliary UARTs \<^verbatim>\<open>src/common/pl011.c\<close> and \<^verbatim>\<open>src/firmware/aux.c\<close>, and the
  dumps \<^verbatim>\<open>src/common/put_dump.c\<close> and \<^verbatim>\<open>src/common/hexdump.cc\<close>.
  The formatter is a function from the format and the arguments to the characters it puts;
  the end of a list is the terminating null. A missing or ill-typed argument is undefined
  in C and has no result here. A minimum width is a 32-bit number, and padding loops run up
  to it.
\<close>

section \<open>Formatted output\<close>

datatype vararg = AInt u32 | AStr string

definition is_digit :: "char \<Rightarrow> bool" where
  "is_digit c \<longleftrightarrow> (48 :: nat) \<le> of_char c \<and> of_char c \<le> (57 :: nat)"

definition digit_value :: "char \<Rightarrow> u32" where
  "digit_value c = of_char c - 48"

fun read_width :: "u32 \<Rightarrow> string \<Rightarrow> u32 \<times> string" where
  "read_width w [] = (w, [])"
| "read_width w (c # fmt) =
     (if is_digit c
      then read_width (w * 10 + digit_value c) fmt else (w, c # fmt))"

text \<open>The digit characters, least significant first; the buffer holds sixteen.\<close>

definition digit_char :: "bool \<Rightarrow> nat \<Rightarrow> char" where
  "digit_char lower d = char_of (if d > 9 then d + (if lower then 0x27 else 0x07) + 48 else d + 48)"

fun digits :: "nat \<Rightarrow> bool \<Rightarrow> nat \<Rightarrow> nat \<Rightarrow> string" where
  "digits 0 lower r v = []"
| "digits (Suc n) lower r v =
     digit_char lower (v mod r) # (if v div r \<noteq> 0 then digits n lower r (v div r) else [])"

definition put_number :: "bool \<Rightarrow> bool \<Rightarrow> bool \<Rightarrow> u32 \<Rightarrow> nat \<Rightarrow> bool \<Rightarrow> u32 \<Rightarrow> string" where
  "put_number zero left sgnd w r lower v0 =
     (let neg = sgnd \<and> v0 AND 0x80000000 \<noteq> 0;
          v = (if neg then 0 - v0 else v0);
          s = digits 16 lower r (unat v) @ (if neg then ''-'' else []);
          pad = unat w - length s
      in (if left then [] else replicate pad (if zero then CHR ''0'' else CHR '' '')) @
         rev s @ (if left then replicate pad (CHR '' '') else []))"

definition put_string :: "bool \<Rightarrow> u32 \<Rightarrow> string \<Rightarrow> string" where
  "put_string left w p =
     (let pad = replicate (unat w - length p) (CHR '' '')
      in if left then p @ pad else pad @ p)"

text \<open>
  The conversion character \<open>c\<close>, with the flags and the width read: what is put, and the
  arguments left. \<open>Inr c\<close> is the pass-through of an unknown character.
\<close>

definition upcase :: "char \<Rightarrow> char" where
  "upcase c = (if of_char c \<ge> (97 :: nat) then char_of (of_char c - (32 :: nat)) else c)"

definition radix :: "char \<Rightarrow> nat option" where
  "radix d =
     (if d = CHR ''B'' then Some 2 else if d = CHR ''O'' then Some 8
      else if d = CHR ''D'' \<or> d = CHR ''U'' then Some 10
      else if d = CHR ''P'' \<or> d = CHR ''X'' then Some 16 else None)"

definition convert ::
    "bool \<Rightarrow> bool \<Rightarrow> u32 \<Rightarrow> char \<Rightarrow> vararg list \<Rightarrow> (string \<times> vararg list) option" where
  "convert zero left w c args =
     (let d = upcase c
      in if d = CHR ''S'' then
           (case args of AStr p # as \<Rightarrow> Some (put_string left w p, as) | _ \<Rightarrow> None)
         else if d = CHR ''C'' then
           (case args of AInt v # as \<Rightarrow> Some ([char_of (unat v)], as) | _ \<Rightarrow> None)
         else case radix d of
           None \<Rightarrow> Some ([c], args)
         | Some r \<Rightarrow>
             (case args of
                AInt v # as \<Rightarrow>
                  Some (put_number zero left (d = CHR ''D'') w r (c = CHR ''x'') v, as)
              | _ \<Rightarrow> None))"

text \<open>One directive, from the character behind the percent sign.\<close>

definition flags :: "string \<Rightarrow> bool \<times> bool \<times> string" where
  "flags fmt = (case fmt of
       c # rest \<Rightarrow> if c = CHR ''0'' then (True, False, rest)
         else if c = CHR ''-'' then (False, True, rest) else (False, False, fmt)
     | [] \<Rightarrow> (False, False, []))"

definition skip_long :: "string \<Rightarrow> string" where
  "skip_long fmt = (case fmt of
       c # rest \<Rightarrow> if c = CHR ''l'' \<or> c = CHR ''L'' then rest else fmt
     | [] \<Rightarrow> [])"

lemma length_read_width: "(v, rest) = read_width w fmt \<Longrightarrow> length rest \<le> length fmt"
  by (induction w fmt rule: read_width.induct) (auto split: if_splits)

lemma length_flags: "(z, l, rest) = flags fmt \<Longrightarrow> length rest \<le> length fmt"
  by (auto simp: flags_def split: list.splits if_splits)

lemma length_skip_long: "skip_long fmt = c # rest \<Longrightarrow> length rest < length fmt"
  by (auto simp: skip_long_def split: list.splits if_splits)

function vprintf :: "string \<Rightarrow> vararg list \<Rightarrow> string option" where
  "vprintf [] args = Some []"
| "vprintf (c # fmt) args =
     (if c \<noteq> CHR ''%'' then map_option ((#) c) (vprintf fmt args)
      else let (zero, left, fmt1) = flags fmt;
               (w, fmt2) = read_width 0 fmt1
           in case skip_long fmt2 of
                [] \<Rightarrow> Some []
              | d # fmt' \<Rightarrow>
                  (case convert zero left w d args of
                     None \<Rightarrow> None
                   | Some (s, args') \<Rightarrow> map_option ((@) s) (vprintf fmt' args')))"
  by pat_completeness auto
termination
  by (relation "measure (\<lambda>(fmt, args). length fmt)")
    (auto dest!: length_read_width length_flags length_skip_long)

definition puts :: "string \<Rightarrow> string" where
  "puts str = str @ [CHR 0x0A]"

section \<open>Dumps\<close>

text \<open>The text of one \<^verbatim>\<open>printf\<close> call whose arguments fit its format.\<close>

definition fmt :: "string \<Rightarrow> vararg list \<Rightarrow> string" where
  "fmt f args = (case vprintf f args of Some s \<Rightarrow> s | None \<Rightarrow> [])"

definition timestamp_text :: "u32 \<Rightarrow> string" where
  "timestamp_text clock_lo = fmt ''%3ld.%06ld '' [AInt (clock_lo div 1000000), AInt (clock_lo mod 1000000)]"

definition safe_putchar :: "u8 \<Rightarrow> string" where
  "safe_putchar c = (if c \<ge> 0x20 \<and> c \<le> 0x7e then [char_of (unat c)] else ''.'')"

definition fragment_bytes :: "u32 \<Rightarrow> u8 list" where
  "fragment_bytes fragment =
     [ucast (fragment AND 0xff), ucast (drop_bit 8 fragment AND 0xff),
      ucast (drop_bit 16 fragment AND 0xff), ucast (drop_bit 24 fragment AND 0xff)]"

definition hexdump_line :: "(nat \<Rightarrow> u32) \<Rightarrow> u32 \<Rightarrow> nat \<Rightarrow> string" where
  "hexdump_line buffer fakeaddr i =
     fmt ''0x%08lx '' [AInt fakeaddr] @
     concat (map (\<lambda>j. fmt ''%02x %02x %02x %02x ''
         (map (\<lambda>b. AInt (ucast b)) (fragment_bytes (buffer (i div 4 + j)))) @
       (if j = 1 then '' '' else [])) [0..<4]) @
     '' |'' @
     concat (map (\<lambda>j. concat (map safe_putchar (fragment_bytes (buffer (i div 4 + j))))) [0..<4]) @
     ''|'' @ [CHR 0x0A]"

definition hexdump_ram :: "(nat \<Rightarrow> u32) \<Rightarrow> u32 \<Rightarrow> nat \<Rightarrow> string" where
  "hexdump_ram buffer reportaddr count =
     concat (map (\<lambda>k. hexdump_line buffer (reportaddr + of_nat (16 * k)) (16 * k))
       [0..<(count + 15) div 16])"

datatype dump_items = DW_CHAR "u8 list" | DW_SHORT "u16 list" | DW_LONG "u32 list"

fun put_dump :: "dump_items \<Rightarrow> u32 \<Rightarrow> string" where
  "put_dump (DW_CHAR bs) addr = fmt ''%08lX '' [AInt addr] @
     concat (map (\<lambda>b. fmt '' %02X'' [AInt (ucast b)]) bs) @ '' '' @
     concat (map safe_putchar bs) @ [CHR 0x0A]"
| "put_dump (DW_SHORT ws) addr = fmt ''%08lX '' [AInt addr] @
     concat (map (\<lambda>w. fmt '' %04X'' [AInt (ucast w)]) ws) @ [CHR 0x0A]"
| "put_dump (DW_LONG ws) addr = fmt ''%08lX '' [AInt addr] @
     concat (map (\<lambda>w. fmt '' %08lX'' [AInt w]) ws) @ [CHR 0x0A]"

section \<open>The PL011 UART (pl011.c)\<close>

definition UART_IBRD :: u32 where "UART_IBRD = 0x7e201024"
definition UART_FBRD :: u32 where "UART_FBRD = 0x7e201028"
definition UART_LCRH :: u32 where "UART_LCRH = 0x7e20102c"
definition UART_CR :: u32 where "UART_CR = 0x7e201030"
definition UART_ICR :: u32 where "UART_ICR = 0x7e201044"

definition pl011_flush :: "unit act" where
  "pl011_flush = await UART_MSR (\<lambda>v. v AND 0x20 = 0)"

definition pl011_put :: "char \<Rightarrow> unit act" where
  "pl011_put c = steps [await UART_MSR (\<lambda>v. v AND 0x20 = 0), wr UART_RBRTHRDLL (of_char c)]"

definition pl011_putchar :: "char \<Rightarrow> unit act" where
  "pl011_putchar c = steps [whenever (c = CHR 0x0A) (pl011_put (CHR 0x0D)), pl011_put c]"

definition uart_write :: "string \<Rightarrow> unit act" where
  "uart_write str = steps (map pl011_putchar str)"

definition pl011_uart_init :: "u32 \<Rightarrow> u32 \<Rightarrow> unit act" where
  "pl011_uart_init xtal_freq baud =
     bind (steps [pl011_flush, wr UART_CR 0]) (\<lambda>_. bind (rd CM_UARTDIV) (\<lambda>d.
     bind (whenever (d = 0) (steps
       [wr CM_UARTDIV (CM_PASSWORD OR 0x3900),
        wr CM_UARTCTL (CM_PASSWORD OR CM_SRC_OSC OR CM_UARTCTL_FRAC_SET OR CM_UARTCTL_ENAB_SET)])) (\<lambda>_.
     bind (get_uart_base_freq xtal_freq) (\<lambda>uart_freq.
     bind (udiv (push_bit 6 uart_freq) baud) (\<lambda>q.
     let divisor = q div 16
     in steps
       [wr UART_ICR 0x7ff, wr UART_LCRH 0x70,
        wr UART_IBRD (drop_bit 6 divisor AND 0xffff),
        wr UART_FBRD (divisor AND 0x3f),
        wr UART_CR 0x301])))))"

section \<open>The auxiliary UART (aux.c)\<close>

definition AUXXENG :: u32 where "AUXXENG = 0x7E215004"
definition AUX_MU_IO_REG :: u32 where "AUX_MU_IO_REG = 0x7E215040"
definition AUX_MU_IIR_REG :: u32 where "AUX_MU_IIR_REG = 0x7E215044"
definition AUX_MU_IER_REG :: u32 where "AUX_MU_IER_REG = 0x7E215048"
definition AUX_MU_LCR_REG :: u32 where "AUX_MU_LCR_REG = 0x7E21504c"
definition AUX_MU_MCR_REG :: u32 where "AUX_MU_MCR_REG = 0x7E215050"
definition AUX_MU_LSR_REG :: u32 where "AUX_MU_LSR_REG = 0x7E215054"
definition AUX_MU_CNTL_REG :: u32 where "AUX_MU_CNTL_REG = 0x7E215060"
definition AUX_MU_BAUD :: u32 where "AUX_MU_BAUD = 0x7E215068"

definition aux_put :: "char \<Rightarrow> unit act" where
  "aux_put c = steps [await AUX_MU_LSR_REG (\<lambda>v. v AND 0x20 \<noteq> 0), wr AUX_MU_IO_REG (of_char c)]"

definition aux_putchar :: "char \<Rightarrow> unit act" where
  "aux_putchar c = steps [whenever (c = CHR 0x0A) (aux_put (CHR 0x0D)), aux_put c]"

definition aux_write :: "string \<Rightarrow> unit act" where
  "aux_write str = steps (map aux_putchar str)"

definition aux_flush :: "unit act" where
  "aux_flush = await AUX_MU_LSR_REG (\<lambda>v. v AND 0x40 \<noteq> 0)"

definition aux_uart_init :: "u32 \<Rightarrow> u32 \<Rightarrow> unit act" where
  "aux_uart_init xtal_freq baud =
     bind (get_vpu_per_freq xtal_freq) (\<lambda>freq. bind (steps
       [wr AUXXENG 1, wr AUX_MU_IIR_REG 0, wr AUX_MU_CNTL_REG 0, wr AUX_MU_LCR_REG 3,
        wr AUX_MU_MCR_REG 0, wr AUX_MU_IIR_REG 0, wr AUX_MU_IER_REG 0xc6]) (\<lambda>_.
     bind (udiv freq (baud * 8)) (\<lambda>q. steps
       [wr AUX_MU_BAUD (q - 1), wr AUX_MU_LCR_REG 3, wr AUX_MU_CNTL_REG 3])))"

section \<open>Numbers\<close>

definition digit_of :: "char \<Rightarrow> nat" where
  "digit_of c = (let n = of_char c in if n \<le> 57 then n - 48 else if n \<le> 90 then n - 55 else n - 87)"

definition number_of :: "nat \<Rightarrow> string \<Rightarrow> nat" where
  "number_of r s = foldl (\<lambda>a c. r * a + digit_of c) 0 s"

lemma digit_of_digit_char: "d < 16 \<Longrightarrow> digit_of (digit_char lower d) = d"
  by (simp add: digit_of_def digit_char_def Let_def)

lemma number_of_digits:
  "0 < r \<Longrightarrow> r \<le> 16 \<Longrightarrow> v < r ^ n \<Longrightarrow> number_of r (rev (digits n lower r v)) = v"
proof (induction n arbitrary: v)
  case 0
  then show ?case by (simp add: number_of_def)
next
  case (Suc n)
  have d: "digit_of (digit_char lower (v mod r)) = v mod r"
    using Suc.prems by (intro digit_of_digit_char) (auto intro: order.strict_trans2 [OF mod_less_divisor])
  have "v div r < r ^ n"
    using Suc.prems by (simp add: less_mult_imp_div_less mult.commute)
  with Suc have "v div r \<noteq> 0 \<longrightarrow> number_of r (rev (digits n lower r (v div r))) = v div r" by blast
  moreover have "v div r = 0 \<Longrightarrow> v mod r = v"
    using div_mult_mod_eq [of v r] by simp
  moreover have "r * (v div r) + v mod r = v" by simp
  ultimately show ?case
    using d by (auto simp: number_of_def)
qed

lemma length_digits:
  "0 < n \<Longrightarrow> 1 < r \<Longrightarrow> v < r ^ k \<Longrightarrow> 0 < k \<Longrightarrow> length (digits n lower r v) \<le> k"
proof (induction n arbitrary: v k)
  case 0
  then show ?case by simp
next
  case (Suc n)
  then obtain j where k: "k = Suc j" by (cases k) auto
  then have lt: "v div r < r ^ j"
    using Suc.prems by (simp add: less_mult_imp_div_less mult.commute)
  show ?case
  proof (cases "v div r = 0 \<or> n = 0")
    case True
    then show ?thesis using k by auto
  next
    case False
    then have "0 < j" using lt by (cases j) auto
    with False Suc.IH [of "v div r" j] Suc.prems(2) lt k show ?thesis by simp
  qed
qed

lemma number_of_zeros: "number_of r (replicate n (CHR ''0'') @ s) = number_of r s"
proof (induction n)
  case (Suc n)
  have "number_of r (CHR ''0'' # xs) = number_of r xs" for xs
    by (simp add: number_of_def digit_of_def Let_def)
  with Suc show ?case by simp
qed simp

lemma upcase_simps:
  "upcase (CHR ''x'') = CHR ''X''" "upcase (CHR ''X'') = CHR ''X''"
  "upcase (CHR ''d'') = CHR ''D''" "upcase (CHR ''b'') = CHR ''B''"
  by (simp_all add: upcase_def char_of_def bit_0)

lemma vprintf_08lx:
  "vprintf ''%08lx'' [AInt v] = Some (put_number True False False 8 16 True v)"
  by (simp add: flags_def is_digit_def digit_value_def skip_long_def convert_def upcase_simps
      radix_def Let_def)

section \<open>The UART stream\<close>

definition sent :: "ev list \<Rightarrow> u32 list" where
  "sent h = concat (map (\<lambda>e. case e of Wr a v \<Rightarrow> if a = UART_RBRTHRDLL then [v] else [] | Rd a v \<Rightarrow> [])
     (rev h))"

definition crlf :: "string \<Rightarrow> string" where
  "crlf s = concat (map (\<lambda>c. if c = CHR 0x0A then [CHR 0x0D, CHR 0x0A] else [c]) s)"

lemma sent_simps:
  "sent (Wr a v # h) = sent h @ (if a = UART_RBRTHRDLL then [v] else [])"
  "sent (Rd a v # h) = sent h"
  by (simp_all add: sent_def)

lemma sent_poll_loop: "sent (hist (snd (poll_loop n a p b))) = sent (hist b)"
  by (induction n arbitrary: b) (auto simp: bind_def rd_run ret_run sent_simps)

lemma sent_await: "await a p b = (Inr (), b') \<Longrightarrow> sent (hist b') = sent (hist b)"
  using sent_poll_loop [of "patience b" a p b]
  by (auto simp: await_def poll_def bind_Inr ret_run)

lemma pl011_put_sent:
  "pl011_put c b = (Inr (), b') \<Longrightarrow> sent (hist b') = sent (hist b) @ [of_char c]"
  by (auto simp: pl011_put_def bind_Inr wr_run ret_run sent_simps dest!: sent_await)

lemma pl011_putchar_sent:
  "pl011_putchar c b = (Inr (), b') \<Longrightarrow> sent (hist b') = sent (hist b) @ map of_char (crlf [c])"
  by (auto simp: pl011_putchar_def crlf_def whenever_def bind_Inr ret_run split: if_splits
      dest!: pl011_put_sent)

section \<open>Properties\<close>

text \<open>\<open>%08lx\<close> prints every 32-bit value in exactly eight characters, which read as a
  hexadecimal number give the value back.\<close>

theorem vprintf_hex_roundtrip:
  "\<exists>s. vprintf ''%08lx'' [AInt v] = Some s \<and> length s = 8 \<and> number_of 16 s = unat v"
proof -
  have v: "unat v < 16 ^ 8"
    using unsigned_less [of v] by simp
  have len: "length (digits 16 True 16 (unat v)) \<le> 8"
    using v by (intro length_digits) simp_all
  have "number_of 16 (rev (digits 16 True 16 (unat v))) = unat v"
    using v by (intro number_of_digits) simp_all
  with len show ?thesis
    unfolding vprintf_08lx by (simp add: put_number_def number_of_zeros)
qed

text \<open>a negative number in a zero-padded field comes out with the zeros before its sign, as in
  \<open>00-42\<close> for \<open>%05d\<close>: for every negative value the sign directly precedes the digits.\<close>

theorem vprintf_zero_padding_before_sign:
  assumes "v AND 0x80000000 \<noteq> 0"
  shows "vprintf ''%05d'' [AInt v] =
    Some (replicate (5 - Suc (length (digits 16 False 10 (unat (- v))))) (CHR ''0'') @ ''-'' @
      rev (digits 16 False 10 (unat (- v))))"
  using assms
  by (simp add: flags_def is_digit_def digit_value_def skip_long_def convert_def upcase_simps
      radix_def put_number_def Let_def)

theorem vprintf_zero_padding_before_sign_witness:
  "vprintf ''%05d'' [AInt (- 42)] = Some ''00-42''"
proof -
  have "digits 16 False 10 42 = ''24''"
    by code_simp
  moreover have "unat (- (- 42) :: u32) = 42" by simp
  moreover have "(- 42 :: u32) AND 0x80000000 \<noteq> 0" by simp
  moreover have "replicate 2 (CHR ''0'') = ''00''" by (simp add: eval_nat_numeral)
  ultimately show ?thesis
    using vprintf_zero_padding_before_sign [of "- 42"] by (simp only: list.size) simp
qed

text \<open>what \<open>uart_write\<close> sends is the string with a carriage return before every line feed:
  whenever it returns, exactly these bytes have been written to the data register, in order.\<close>

theorem uart_write_crlf:
  "uart_write str b = (Inr (), b') \<Longrightarrow> sent (hist b') = sent (hist b) @ map of_char (crlf str)"
proof (induction str arbitrary: b)
  case Nil
  then show ?case by (simp add: uart_write_def ret_run crlf_def)
next
  case (Cons c str)
  then obtain b1 where 1: "pl011_putchar c b = (Inr (), b1)" and 2: "uart_write str b1 = (Inr (), b')"
    by (auto simp: uart_write_def bind_Inr)
  have "crlf (c # str) = crlf [c] @ crlf str"
    by (simp add: crlf_def)
  with pl011_putchar_sent [OF 1] Cons.IH [OF 2] show ?case by simp
qed

theorem uart_write_crlf_witness:
  "\<exists>b'. uart_write [CHR ''o'', CHR ''k'', CHR 0x0A]
      \<lparr>env = \<lambda>_ _. 0, hist = [], patience = 1\<rparr> = (Inr (), b') \<and>
    sent (hist b') = [0x6f, 0x6b, 0x0d, 0x0a]"
proof -
  have "fst (uart_write [CHR ''o'', CHR ''k'', CHR 0x0A]
      \<lparr>env = \<lambda>_ _. 0, hist = [], patience = 1\<rparr>) = Inr ()"
    by (simp add: uart_write_def pl011_putchar_def pl011_put_def whenever_def await_def poll_def
        bind_def rd_run wr_run ret_run)
  then obtain b' where b': "uart_write [CHR ''o'', CHR ''k'', CHR 0x0A]
      \<lparr>env = \<lambda>_ _. 0, hist = [], patience = 1\<rparr> = (Inr (), b')"
    by (cases "uart_write [CHR ''o'', CHR ''k'', CHR 0x0A]
      \<lparr>env = \<lambda>_ _. 0, hist = [], patience = 1\<rparr>") auto
  from uart_write_crlf [OF b'] b' show ?thesis
    by (simp add: crlf_def sent_def)
qed

section \<open>Password discipline\<close>

lemma keeps_pl011_uart_init [keeps_intros]:
  "keeps cpr_answer cpr_write (pl011_uart_init xtal baud)"
proof -
  have udiv: "keeps cpr_answer cpr_write (udiv n d)" for n d
    unfolding udiv_def by (intro keeps_intros)
  have pll: "keeps cpr_answer cpr_write (pllc_core0 x)" for x
    unfolding pllc_core0_def pllc_def pll_of_def compute_pll_freq_def Let_def
    by (intro keeps_intros udiv)
  have freq: "keeps cpr_answer cpr_write (get_uart_base_freq x)" for x
    unfolding get_uart_base_freq_def clk_get_freq_def clk_get_input_freq_def
    by (intro keeps_intros pll)
  show ?thesis
    unfolding pl011_uart_init_def pl011_flush_def Let_def
    by (intro keeps_intros udiv freq)
      (simp_all add: reg_defs cpr_simps UART_CR_def UART_ICR_def UART_LCRH_def UART_IBRD_def
        UART_FBRD_def)
qed

end
