(* ===== verification/Interrupts.thy ===== *)
theory Interrupts
  imports Bus
begin

unbundle bit_operations_syntax

text \<open>
  The VPU's vector table and interrupt controllers, \<^verbatim>\<open>src/firmware/interrupt.c\<close>. Each of
  the two controllers has eight mask registers of eight 4-bit slots, one slot per external
  interrupt; 0xF enables it and 0 disables it. The table is a list of 144 handlers; its
  address in memory is a parameter.
\<close>

section \<open>Operations\<close>

datatype handler =
  No_handler | fleh_zero | fleh_misaligned | fleh_dividebyzero | fleh_undefinedinstruction
| fleh_forbiddeninstruction | fleh_illegalmemory | fleh_buserror | fleh_floatingpoint | fleh_isp
| fleh_dummy | fleh_icache | fleh_veccore | fleh_badl2alias | fleh_breakpoint | fleh_unknown
| fleh_irq

definition ic_base :: "nat \<Rightarrow> u32" where
  "ic_base core = (if core = 0 then IC0_BASE else IC1_BASE)"

definition set_interrupt :: "nat \<Rightarrow> bool \<Rightarrow> nat \<Rightarrow> unit act" where
  "set_interrupt intno enable core =
     (let offset = 0x10 + of_nat (4 * (intno div 8)) :: u32;
          slot = push_bit (4 * (intno mod 8)) 0xF :: u32
      in bind (rd (ic_base core + offset)) (\<lambda>r.
           let v = r AND NOT slot
           in wr (ic_base core + offset) (if enable then v OR slot else v)))"

definition vector_entries :: "(nat \<times> handler) list" where
  "vector_entries =
     [(0, fleh_zero), (1, fleh_misaligned), (2, fleh_dividebyzero), (3, fleh_undefinedinstruction),
      (4, fleh_forbiddeninstruction), (5, fleh_illegalmemory), (6, fleh_buserror),
      (7, fleh_floatingpoint), (8, fleh_isp), (9, fleh_dummy), (10, fleh_icache),
      (11, fleh_veccore), (12, fleh_badl2alias), (13, fleh_breakpoint)] @
     map (\<lambda>i. (i, fleh_unknown)) [14..<32] @
     map (\<lambda>i. (i, fleh_irq)) [32..<64] @
     map (\<lambda>i. (i, fleh_irq)) [64..<128]"

definition install :: "(nat \<times> handler) list \<Rightarrow> handler list \<Rightarrow> handler list" where
  "install es table = foldl (\<lambda>t (i, h). t[i := h]) table es"

definition setup_irq_handlers :: "u32 \<Rightarrow> handler list \<Rightarrow> handler list act" where
  "setup_irq_handlers vectorTable table =
     bind (steps
       (map (\<lambda>i. bind (set_interrupt i True 0) (\<lambda>_. set_interrupt i False 1)) [0..<64] @
        [set_interrupt (73 - 64) False 0, set_interrupt (96 - 64) False 0,
         set_interrupt (117 - 64) False 0, set_interrupt (120 - 64) False 0,
         set_interrupt (121 - 64) False 0, set_interrupt (125 - 64) False 0,
         wr IC0_VADDR vectorTable, wr IC1_VADDR vectorTable])) (\<lambda>_.
     bind (rd IC0_VADDR) (\<lambda>v.
       if v \<noteq> vectorTable
       then bind (rd IC0_VADDR) (\<lambda>_. panic ''vector table not accepted'')
       else ret (install vector_entries table)))"

section \<open>The vector table\<close>

lemma install_Nil: "install [] t = t"
  by (simp add: install_def)

lemma install_Cons: "install ((i, h) # es) t = install es (t[i := h])"
  by (simp add: install_def)

lemma length_install [simp]: "length (install es t) = length t"
  by (induction es arbitrary: t) (auto simp: install_Nil install_Cons)

text \<open>An entry holds the handler installed last for its index.\<close>

lemma nth_install:
  "i < length t \<Longrightarrow>
     install es t ! i = (case map_of (rev es) i of None \<Rightarrow> t ! i | Some h \<Rightarrow> h)"
  by (induction es arbitrary: t)
    (auto simp: install_Nil install_Cons nth_list_update map_add_def split: option.splits)

lemma map_of_const_upt:
  "map_of (rev (map (\<lambda>i. (i, h)) [a..<b])) i = (if a \<le> i \<and> i < b then Some h else None)"
  by (induction b) auto

lemma map_of_rev_append:
  "map_of (rev (xs @ ys)) i = (case map_of (rev ys) i of None \<Rightarrow> map_of (rev xs) i | Some h \<Rightarrow> Some h)"
  by (simp add: map_add_def)

section \<open>Interrupt lines\<close>

definition irq_slot :: "(u32 \<Rightarrow> u32) \<Rightarrow> nat \<Rightarrow> nat \<Rightarrow> u32" where
  "irq_slot m core i = get_field (4 * (i mod 8)) 4 (m (reg_at (ic_base core + 0x10) (i div 8)))"

lemma set_interrupt_put_field:
  "set_interrupt i e core = rmw (reg_at (ic_base core + 0x10) (i div 8))
     (put_field (4 * (i mod 8)) 4 (if e then 0xF else 0))"
proof -
  have "(0xF :: u32) = mask 4"
    by (simp add: mask_eq_exp_minus_1)
  then show ?thesis
    by (simp add: set_interrupt_def rmw_def reg_at_def put_field_def Let_def fun_eq_iff
        ac_simps)
qed

lemma irq_reg_unat:
  "i < 64 \<Longrightarrow> unat (reg_at (ic_base core + 0x10) (i div 8)) =
     (if core = 0 then 0x7e002010 else 0x7e002810) + 4 * (i div 8)"
  by (subst unat_reg_at) (auto simp: ic_base_def reg_defs)

lemma irq_reg_eq:
  assumes "i < 64" and "j < 64"
  shows "reg_at (ic_base core + 0x10) (i div 8) = reg_at (ic_base core' + 0x10) (j div 8) \<longleftrightarrow>
    (core = 0 \<longleftrightarrow> core' = 0) \<and> i div 8 = j div 8"
  unfolding word_unat_eq_iff using assms by (simp add: irq_reg_unat) auto

lemma irq_reg_plain: "i < 64 \<Longrightarrow> \<not> protected (reg_at (ic_base core + 0x10) (i div 8))"
  by (cases "i div 8 < 8") (auto simp: protected_def word_le_nat_alt word_less_nat_alt irq_reg_unat)

text \<open>
  \<open>irq_lines L b\<close>: the controllers hold what is written to them, and slot \<open>i\<close> of the
  controller of core 0 (\<open>L True\<close>) or core 1 (\<open>L False\<close>) is \<open>L (core = 0) i\<close>.
\<close>

definition irq_lines :: "(bool \<Rightarrow> nat \<Rightarrow> u32) \<Rightarrow> bus \<Rightarrow> bool" where
  "irq_lines L b \<longleftrightarrow>
     (\<exists>m. storage m b \<and> (\<forall>core. \<forall>i < 64. irq_slot m core i = L (core = 0) i))"

lemma runs_set_interrupt:
  assumes "i < 64"
  shows "runs (irq_lines L) (set_interrupt i e core)
    (\<lambda>_. irq_lines (L((core = 0) := (L (core = 0))(i := if e then 0xF else 0))))"
proof (rule runsI)
  fix b
  assume "irq_lines L b"
  then obtain m where m: "storage m b" and L: "\<And>c j. j < 64 \<Longrightarrow> irq_slot m c j = L (c = 0) j"
    unfolding irq_lines_def by blast
  define r where "r = reg_at (ic_base core + 0x10) (i div 8)"
  define m' where "m' = m(r := put_field (4 * (i mod 8)) 4 (if e then 0xF else 0) (m r))"
  obtain b' where b': "set_interrupt i e core b = (Inr (), b')" "storage m' b'"
    using storage_rmw [OF m, of r] irq_reg_plain [OF assms, of core]
    by (auto simp: set_interrupt_put_field r_def m'_def)
  have F: "(if e then 0xF else 0 :: u32) AND mask 4 = (if e then 0xF else 0)"
    by (simp add: mask_eq_exp_minus_1)
  have "irq_slot m' c j = (L((core = 0) := (L (core = 0))(i := if e then 0xF else 0))) (c = 0) j"
    if j: "j < 64" for c j
  proof (cases "(c = 0 \<longleftrightarrow> core = 0) \<and> j div 8 = i div 8")
    case True
    then have same: "reg_at (ic_base c + 0x10) (j div 8) = r"
      using irq_reg_eq [OF j assms] by (simp add: r_def)
    show ?thesis
    proof (cases "j = i")
      case True
      have "4 * (i mod 8) + 4 \<le> 32" by simp
      then show ?thesis
        using True \<open>(c = 0 \<longleftrightarrow> core = 0) \<and> j div 8 = i div 8\<close> same
        by (simp add: irq_slot_def m'_def get_put_field F)
    next
      case False
      then have "j mod 8 \<noteq> i mod 8"
        using True by (metis div_mult_mod_eq)
      then have "4 * (j mod 8) + 4 \<le> 4 * (i mod 8) \<or> 4 * (i mod 8) + 4 \<le> 4 * (j mod 8)"
        by linarith
      then have "irq_slot m' c j = irq_slot m c j"
        using same by (simp add: irq_slot_def m'_def get_put_field_other F)
      then show ?thesis using L [OF j] False by simp
    qed
  next
    case False
    then have "reg_at (ic_base c + 0x10) (j div 8) \<noteq> r"
      using irq_reg_eq [OF j assms] by (auto simp: r_def)
    then have "irq_slot m' c j = irq_slot m c j"
      by (simp add: irq_slot_def m'_def)
    then show ?thesis using L [OF j] False by auto
  qed
  with b' show "\<exists>x b'. set_interrupt i e core b = (Inr x, b') \<and>
      irq_lines (L((core = 0) := (L (core = 0))(i := if e then 0xF else 0))) b'"
    unfolding irq_lines_def by blast
qed

lemma runs_irq_loop:
  "list_all (\<lambda>i. i < 64) is \<Longrightarrow>
   runs (irq_lines L)
     (steps (map (\<lambda>i. bind (set_interrupt i True 0) (\<lambda>_. set_interrupt i False 1)) is))
     (\<lambda>_. irq_lines (\<lambda>c i. if i \<in> set is then if c then 0xF else 0 else L c i))"
proof (induction "is" arbitrary: L)
  case Nil
  then show ?case by (simp add: runs_ret)
next
  case (Cons i "is")
  let ?L = "(L(True := (L True)(i := 0xF)))(False := (L False)(i := 0))"
  have "runs (irq_lines L) (bind (set_interrupt i True 0) (\<lambda>_. set_interrupt i False 1))
      (\<lambda>_. irq_lines ?L)"
    using Cons.prems runs_set_interrupt [of i L True 0]
      runs_set_interrupt [of i "L(True := (L True)(i := 0xF))" False 1]
    by (intro runs_bind [where R = "\<lambda>_. irq_lines (L(True := (L True)(i := 0xF)))"]) simp_all
  moreover have "(\<lambda>c j. if j \<in> set is then if c then 0xF else 0 else ?L c j) =
      (\<lambda>c j. if j \<in> set (i # is) then if c then 0xF else 0 else L c j)"
    by (auto simp: fun_eq_iff)
  with Cons.IH [of ?L] Cons.prems have
    "runs (irq_lines ?L)
       (steps (map (\<lambda>i. bind (set_interrupt i True 0) (\<lambda>_. set_interrupt i False 1)) is))
       (\<lambda>_. irq_lines (\<lambda>c j. if j \<in> set (i # is) then if c then 0xF else 0 else L c j))"
    by (simp only: list.pred_inject)
  ultimately show ?case
    unfolding list.map steps.simps by (rule runs_bind)
qed

text \<open>The addresses of the vector table are no interrupt slots.\<close>

lemma irq_slot_vaddr:
  assumes "a = IC0_VADDR \<or> a = IC1_VADDR" and "j < 64"
  shows "irq_slot (m(a := v)) c j = irq_slot m c j"
proof -
  have "reg_at (ic_base c + 0x10) (j div 8) \<noteq> a"
    unfolding word_unat_eq_iff irq_reg_unat [OF assms(2)] using assms
    by (auto simp: reg_defs)
  then show ?thesis by (simp add: irq_slot_def)
qed

lemma vector_entries_lookup:
  assumes "14 \<le> i"
  shows "map_of (rev vector_entries) i =
    (if i < 32 then Some fleh_unknown else if i < 128 then Some fleh_irq else None)"
  unfolding vector_entries_def map_of_rev_append map_of_const_upt using assms by auto

definition quiet_lines :: "nat set" where
  "quiet_lines = {9, 32, 53, 56, 57, 61}"

definition irq_setup_steps :: "unit act list" where
  "irq_setup_steps =
     map (\<lambda>i. bind (set_interrupt i True 0) (\<lambda>_. set_interrupt i False 1)) [0..<64] @
     [set_interrupt 9 False 0, set_interrupt 32 False 0, set_interrupt 53 False 0,
      set_interrupt 56 False 0, set_interrupt 57 False 0, set_interrupt 61 False 0]"

lemma setup_irq_handlers_split:
  "setup_irq_handlers v table =
     bind (steps irq_setup_steps) (\<lambda>_. bind (wr IC0_VADDR v) (\<lambda>_. bind (wr IC1_VADDR v) (\<lambda>_.
     bind (rd IC0_VADDR) (\<lambda>r.
       if r \<noteq> v then bind (rd IC0_VADDR) (\<lambda>_. panic ''vector table not accepted'')
       else ret (install vector_entries table)))))"
  unfolding setup_irq_handlers_def irq_setup_steps_def
  by (simp add: steps_append bind_assoc bind_simps)

lemma runs_irq_setup:
  "runs (irq_lines L) (steps irq_setup_steps)
    (\<lambda>_. irq_lines (\<lambda>c i. if i < 64 then if c \<and> i \<notin> quiet_lines then 0xF else 0 else L c i))"
proof -
  have post: "\<And>L' b. irq_lines L' b \<Longrightarrow> (\<And>c i. i < 64 \<Longrightarrow> L' c i = M c i) \<Longrightarrow> irq_lines M b" for M
    unfolding irq_lines_def by metis
  show ?thesis
    unfolding irq_setup_steps_def steps_append
    apply (rule runs_bind [OF runs_irq_loop])
     apply (simp add: list_all_iff)
    apply (rule runs_post, (rule runs_steps_Cons, rule runs_set_interrupt, simp)+, rule runs_steps_Nil)
    apply (erule post, auto simp: quiet_lines_def)
    done
qed

text \<open>after \<open>setup_irq_handlers\<close> on controllers that hold what is written, core 0 has
  every external interrupt enabled but USB, host port, I2C, SDIO, UART and the random number
  generator, core 1 has none, both controllers point at the vector table, and the table sends
  traps 14 to 31 to the unknown handler, 32 to 127 to the interrupt handler, and keeps the
  rest.\<close>

theorem setup_irq_handlers_lines:
  assumes "storage m b" and "length table = 144"
  shows "\<exists>m' b' t. setup_irq_handlers v table b = (Inr t, b') \<and> storage m' b' \<and>
    m' IC0_VADDR = v \<and> m' IC1_VADDR = v \<and>
    (\<forall>i < 64. irq_slot m' 0 i = (if i \<in> {9, 32, 53, 56, 57, 61} then 0 else 0xF) \<and>
      irq_slot m' 1 i = 0) \<and>
    (\<forall>i. 14 \<le> i \<and> i < 144 \<longrightarrow> t ! i =
      (if i < 32 then fleh_unknown else if i < 128 then fleh_irq else table ! i))"
proof -
  have "irq_lines (\<lambda>c. irq_slot m (if c then 0 else 1)) b"
    unfolding irq_lines_def irq_slot_def ic_base_def using assms(1) by auto
  from runsD [OF runs_irq_setup this] obtain b1 m1 where
    1: "steps irq_setup_steps b = (Inr (), b1)" "storage m1 b1" and
    L: "\<And>c i. i < 64 \<Longrightarrow> irq_slot m1 c i = (if c = 0 \<and> i \<notin> quiet_lines then 0xF else 0)"
    unfolding irq_lines_def by auto
  have plain: "\<not> protected IC0_VADDR" "\<not> protected IC1_VADDR" "IC0_VADDR \<noteq> IC1_VADDR"
    by (simp_all add: protected_def reg_defs)
  obtain b2 where 2: "wr IC0_VADDR v b1 = (Inr (), b2)" "storage (m1(IC0_VADDR := v)) b2"
    using storage_wr [OF 1(2), of IC0_VADDR v] plain by auto
  define m2 where "m2 = m1(IC0_VADDR := v, IC1_VADDR := v)"
  obtain b3 where 3: "wr IC1_VADDR v b2 = (Inr (), b3)" "storage m2 b3"
    using storage_wr [OF 2(2), of IC1_VADDR v] plain by (auto simp: m2_def)
  obtain b4 where 4: "rd IC0_VADDR b3 = (Inr v, b4)" "storage m2 b4"
    using storage_rd [OF 3(2), of IC0_VADDR] plain by (auto simp: m2_def)
  have "setup_irq_handlers v table b = (Inr (install vector_entries table), b4)"
    by (simp add: setup_irq_handlers_split bind_def 1 2 3 4 ret_run)
  moreover have "irq_slot m2 0 i = (if i \<in> {9, 32, 53, 56, 57, 61} then 0 else 0xF) \<and>
      irq_slot m2 1 i = 0" if "i < 64" for i
    using L that by (simp add: m2_def irq_slot_vaddr quiet_lines_def)
  moreover have "install vector_entries table ! i =
      (if i < 32 then fleh_unknown else if i < 128 then fleh_irq else table ! i)"
    if "14 \<le> i" "i < 144" for i
    using that assms(2) by (simp add: nth_install vector_entries_lookup)
  moreover have "m2 IC0_VADDR = v" "m2 IC1_VADDR = v"
    by (simp_all add: m2_def)
  ultimately show ?thesis using 4(2) by blast
qed

theorem setup_irq_handlers_lines_witness:
  "\<exists>m' b' t. setup_irq_handlers 0x80001000 (replicate 144 No_handler)
      \<lparr>env = store_env (\<lambda>_. 0), hist = [], patience = 0\<rparr> = (Inr t, b') \<and> storage m' b' \<and>
    m' IC0_VADDR = 0x80001000 \<and> irq_slot m' 0 56 = 0 \<and> irq_slot m' 0 62 = 0xF \<and>
    t ! 100 = fleh_irq \<and> t ! 140 = No_handler"
proof -
  obtain m' b' t where "setup_irq_handlers 0x80001000 (replicate 144 No_handler)
      \<lparr>env = store_env (\<lambda>_. 0), hist = [], patience = 0\<rparr> = (Inr t, b')" "storage m' b'"
      "m' IC0_VADDR = 0x80001000"
    and l: "\<forall>i < 64. irq_slot m' 0 i = (if i \<in> {9, 32, 53, 56, 57, 61} then 0 else 0xF) \<and>
      irq_slot m' 1 i = 0"
    and t: "\<forall>i. 14 \<le> i \<and> i < 144 \<longrightarrow> t ! i = (if i < 32 then fleh_unknown
      else if i < 128 then fleh_irq else replicate 144 No_handler ! i)"
    using setup_irq_handlers_lines [OF storage_start [of "\<lambda>_. 0" 0],
        of "replicate 144 No_handler" "0x80001000"]
    unfolding length_replicate by blast
  moreover have "irq_slot m' 0 56 = 0" "irq_slot m' 0 62 = 0xF"
    using l by simp_all
  moreover have "t ! 100 = fleh_irq" "t ! 140 = No_handler"
    using t by simp_all
  ultimately show ?thesis by blast
qed

end
