(* ===== verification/Monitor.thy ===== *)
theory Monitor
  imports Interrupts
begin

unbundle bit_operations_syntax

text \<open>
  The VPU side of the ARM mailbox, \<^verbatim>\<open>src/firmware/arm_monitor.c\<close>, and the second-level
  trap handlers that call it, \<^verbatim>\<open>src/firmware/trap.c\<close>. Shared RAM is a map from byte
  addresses of aligned words to words; addresses and the index \<open>position\<close> wrap at 32 bits.
  The loop over tags may run forever, so it is a partial function whose missing result is a
  hang. The loop that prints the whole message has no effect and is left out.
\<close>

section \<open>Property tags\<close>

type_synonym ram = "u32 \<Rightarrow> u32"

definition word_at :: "u32 \<Rightarrow> u32 \<Rightarrow> u32" where
  "word_at p i = p + 4 * i"

text \<open>
  \<^verbatim>\<open>struct tagged_packet\<close>: the tag at offset 0, the value size at 4, the request/response
  word at 8, the value from 12. The flag is the function's result, true for an unknown tag.
\<close>

definition handle_property_tag :: "u32 \<Rightarrow> ram \<Rightarrow> bool \<times> ram" where
  "handle_property_tag packet m =
     (if m packet = 3 then
        (False, m(word_at (packet + 12) 0 := 0x11223344, word_at (packet + 12) 1 := 0x55667788,
           word_at (packet + 12) 2 := 0x99aabbcc, word_at (packet + 12) 3 := 0xddeeff00,
           word_at (packet + 12) 4 := 0x11223344, packet + 8 := 0x80000000 OR 20))
      else (True, m))"

definition next_position :: "u32 \<Rightarrow> u32 \<Rightarrow> u32" where
  "next_position position value_size = position + 12 + value_size + (4 - value_size mod 4)"

partial_function (option) tag_loop :: "u32 \<Rightarrow> u32 \<Rightarrow> bool \<Rightarrow> ram \<Rightarrow> (bool \<times> ram) option" where
  "tag_loop message position error m =
     (if position < m message div 4 then
        let packet = word_at message position;
            (e, m') = handle_property_tag packet m
        in tag_loop message (next_position position (m (packet + 4))) (error \<or> e) m'
      else Some (error, m))"

definition arm_monitor_interrupt :: "ram \<Rightarrow> ram act" where
  "arm_monitor_interrupt m =
     bind (rd ARM_1_MAIL1_RD) (\<lambda>msg. bind (rd ARM_1_MAIL1_CNF) (\<lambda>_.
       if msg AND 0xf = 8 then
         let message = msg AND NOT 0xf
         in case tag_loop message 2 False m of
              None \<Rightarrow> (\<lambda>b. (Inl Hang, b))
            | Some (error, m') \<Rightarrow>
                bind (wr ARM_1_MAIL0_WRT msg) (\<lambda>_. ret
                  (m'(word_at message 1 := if error then 0x80000001 else 0x80000000)))
       else ret m))"

definition monitor_start :: "unit act" where
  "monitor_start = steps [wr ARM_1_MAIL1_CNF ARM_MC_IHAVEDATAIRQEN, (\<lambda>b. (Inl Hang, b))]"

section \<open>Trap handlers\<close>

definition exception_names :: "string list" where
  "exception_names =
     [''Zero'', ''Misaligned'', ''Division by zero'', ''Undefined instruction'',
      ''Forbidden instruction'', ''Illegal memory'', ''Bus error'', ''Floating point exception'',
      ''ISP'', ''Dummy'', ''ICache'', ''Vector core exception'', ''Bad L2 alias'', ''Breakpoint'']"

definition exception_name :: "u32 \<Rightarrow> string" where
  "exception_name n =
     (if unat n \<ge> length exception_names then ''unknown'' else exception_names ! unat n)"

definition print_timestamp :: "unit act" where
  "print_timestamp = peek ST_CLO"

definition print_vpu_state :: "unit act" where
  "print_vpu_state = steps
     [peek IC0_SRC0, peek IC0_SRC1, peek IC0_VADDR, peek IC0_C, peek IC0_S,
      peek IC1_SRC0, peek IC1_SRC1, peek IC1_VADDR, peek IC1_C, peek IC1_S]"

definition sleh_fatal :: "u32 \<Rightarrow> 'a act" where
  "sleh_fatal n = bind print_vpu_state (\<lambda>_. (\<lambda>b. (Inl Hang, b)))"

definition sleh_irq :: "ram \<Rightarrow> ram act" where
  "sleh_irq m =
     bind (rd IC0_S) (\<lambda>status.
     let source = status AND 0xFF
     in bind (steps [print_timestamp, peek IC0_VADDR]) (\<lambda>_.
          if source = INTERRUPT_TIMER0 then
            bind (rd ST_CS) (\<lambda>cs. bind (wr ST_CS cs) (\<lambda>_. ret m))
          else if source = INTERRUPT_ARM then arm_monitor_interrupt m
          else bind print_vpu_state (\<lambda>_. panic ''unknown interrupt source!'')))"

section \<open>The loop over tags\<close>

lemma tag_loop_step:
  "position < m message div 4 \<Longrightarrow> handle_property_tag (word_at message position) m = (e, m') \<Longrightarrow>
   tag_loop message position error m =
     tag_loop message (next_position position (m (word_at message position + 4))) (error \<or> e) m'"
  by (subst tag_loop.simps) (simp add: Let_def)

lemma tag_loop_done:
  "\<not> position < m message div 4 \<Longrightarrow> tag_loop message position error m = Some (error, m)"
  by (subst tag_loop.simps) simp

text \<open>A packet written by the handler starts at least eight words behind the length word.\<close>

lemma handle_keeps_length:
  "snd (handle_property_tag (word_at message 2) m) message = m message"
proof -
  have "message \<noteq> message + k" if "k \<noteq> 0" for k
    using that by simp
  then show ?thesis
    by (simp add: handle_property_tag_def word_at_def add.assoc)
qed

lemma unat_next_position:
  assumes "vs < 0xfffffff0"
  shows "unat (next_position 2 vs) = 18 + unat vs - unat vs mod 4"
proof -
  have vs: "unat vs < 0xfffffff0" using assms by (simp add: word_less_nat_alt)
  have pad: "unat (4 - vs mod 4) = 4 - unat vs mod 4"
    by (subst unat_sub) (simp_all add: word_le_nat_alt unat_mod)
  have first: "unat (14 + vs) = 14 + unat vs"
    using vs by (subst unat_add_small) simp_all
  have "14 + unat vs + (4 - unat vs mod 4) < 2 ^ 32"
  proof -
    obtain q c where "unat vs = 4 * q + c" "c < 4"
      by (rule that [of "unat vs div 4" "unat vs mod 4"]) simp_all
    moreover from this have "q < 0x3ffffffc" using vs by simp
    ultimately show ?thesis by simp
  qed
  then have "unat (14 + vs + (4 - vs mod 4)) = 14 + unat vs + (4 - unat vs mod 4)"
    using first pad by (subst unat_add_small) simp_all
  moreover have "14 + unat vs + (4 - unat vs mod 4) = 18 + unat vs - unat vs mod 4"
    using mod_less_divisor [of 4 "unat vs"] by arith
  ultimately show ?thesis
    by (simp add: next_position_def add.assoc)
qed

lemma tag_loop_first_tag_only:
  fixes m :: ram and message :: u32
  defines "vs \<equiv> m (message + 12)"
  assumes "2 < unat (m message) div 4" and "vs < 0xfffffff0"
    and "unat (m message) div 4 \<le> 18 + unat vs - unat vs mod 4"
  shows "tag_loop message 2 False m = Some (handle_property_tag (word_at message 2) m)"
proof -
  obtain e m' where h: "handle_property_tag (word_at message 2) m = (e, m')"
    by (cases "handle_property_tag (word_at message 2) m")
  have len: "m' message = m message"
    using handle_keeps_length [of message m] h by simp
  have start: "(2 :: u32) < m message div 4"
    using assms(2) by (simp add: word_less_nat_alt unat_div)
  have vs: "m (word_at message 2 + 4) = vs"
    by (simp add: vs_def word_at_def add.assoc)
  have "\<not> next_position 2 vs < m' message div 4"
    using assms(3,4) by (simp add: len word_less_nat_alt unat_div unat_next_position)
  then show ?thesis
    by (simp add: tag_loop_step [OF start h] vs tag_loop_done h)
qed

text \<open>
  A value size of \<open>-16\<close> makes the advance \<open>12 + value_size + 4\<close> zero: an unknown tag is then
  read again and again.
\<close>

lemma tag_loop_stuck:
  assumes "tag_loop message position error m = Some r"
    and "m (word_at message position) \<noteq> 3" and "m (word_at message position + 4) = 0xfffffff0"
  shows "\<not> position < m message div 4"
proof -
  have stay: "next_position p 0xfffffff0 = p" for p
    by (simp add: next_position_def)
  have "m (word_at message position) \<noteq> 3 \<longrightarrow> m (word_at message position + 4) = 0xfffffff0 \<longrightarrow>
      \<not> position < m message div 4"
  proof (rule tag_loop.raw_induct [where P = "\<lambda>message position error m y.
      m (word_at message position) \<noteq> 3 \<longrightarrow> m (word_at message position + 4) = 0xfffffff0 \<longrightarrow>
      \<not> position < m message div 4", OF _ assms(1)])
    fix tl and msg pos :: u32 and err :: bool and mm :: ram and y :: "bool \<times> ram"
    assume IH: "\<And>message position error m y. tl message position error m = Some y \<Longrightarrow>
        m (word_at message position) \<noteq> 3 \<longrightarrow> m (word_at message position + 4) = 0xfffffff0 \<longrightarrow>
        \<not> position < m message div 4"
      and body: "(if pos < mm msg div 4 then
          let packet = word_at msg pos; (e, m') = handle_property_tag packet mm
          in tl msg (next_position pos (mm (packet + 4))) (err \<or> e) m'
        else Some (err, mm)) = Some y"
    show "mm (word_at msg pos) \<noteq> 3 \<longrightarrow> mm (word_at msg pos + 4) = 0xfffffff0 \<longrightarrow>
        \<not> pos < mm msg div 4"
    proof (intro impI notI)
      assume a: "mm (word_at msg pos) \<noteq> 3" "mm (word_at msg pos + 4) = 0xfffffff0"
        "pos < mm msg div 4"
      then have "tl msg pos (err \<or> True) mm = Some y"
        using body by (simp add: Let_def handle_property_tag_def stay)
      from IH [OF this] a show False by blast
    qed
  qed
  with assms(2,3) show ?thesis by blast
qed

section \<open>Properties\<close>

text \<open>C27: a mail on the property channel is answered from its first tag alone when it holds at most
  \<open>18 + n\<close> words, where \<open>n\<close> is the first tag's value size rounded down to a multiple of four, for
  every value size below 0xFFFFFFF0 (from there on the advance wraps around, see C28): \<open>position\<close>
  indexes words but is advanced by byte counts, so the tags behind the first are skipped. The reply
  code is success exactly when the first tag is the firmware hash, and the mail is then sent back.\<close>

theorem monitor_answers_first_tag_only:
  fixes m :: ram and message :: u32
  assumes mail: "env b (hist b) ARM_1_MAIL1_RD = msg" "msg AND 0xf = 8" "message = msg AND NOT 0xf"
    and len: "2 < unat (m message) div 4"
      "unat (m message) div 4 \<le> 18 + unat (m (message + 12)) - unat (m (message + 12)) mod 4"
      "m (message + 12) < 0xfffffff0"
  shows "\<exists>b'. arm_monitor_interrupt m b =
    (Inr ((snd (handle_property_tag (message + 8) m))
       (message + 4 := if m (message + 8) = 3 then 0x80000000 else 0x80000001)), b') \<and>
    hd (hist b') = Wr ARM_1_MAIL0_WRT msg"
proof -
  have "word_at message 2 = message + 8" "word_at message 1 = message + 4"
    by (simp_all add: word_at_def)
  with tag_loop_first_tag_only [of m message] len
  have loop: "tag_loop message 2 False m = Some (handle_property_tag (message + 8) m)"
    by simp
  have "fst (handle_property_tag (message + 8) m) \<longleftrightarrow> m (message + 8) \<noteq> 3"
    by (simp add: handle_property_tag_def)
  with loop \<open>word_at message 1 = message + 4\<close> show ?thesis
    using mail
    by (auto simp: arm_monitor_interrupt_def bind_def rd_run wr_run ret_run Let_def
        split: prod.splits)
qed

theorem monitor_answers_first_tag_only_witness:
  "\<exists>m' b'. arm_monitor_interrupt
      (\<lambda>a. if a = 0x1000 then 56 else if a = 0x1008 then 3 else if a = 0x100c then 20 else 0)
      \<lparr>env = \<lambda>_ _. 0x1008, hist = [], patience = 0\<rparr> = (Inr m', b') \<and>
    m' 0x1004 = 0x80000000 \<and> m' 0x1010 = 0x80000014 \<and> m' 0x1014 = 0x11223344 \<and>
    m' 0x1024 = 0x11223344 \<and> hd (hist b') = Wr ARM_1_MAIL0_WRT 0x1008"
  using monitor_answers_first_tag_only [where b = "\<lparr>env = \<lambda>_ _. 0x1008, hist = [], patience = 0\<rparr>"
      and msg = "0x1008" and message = "0x1000" and
      m = "\<lambda>a. if a = 0x1000 then 56 else if a = 0x1008 then 3 else if a = 0x100c then 20 else 0"]
  by (auto simp: handle_property_tag_def word_at_def)

text \<open>C28: a property mail whose first tag is unknown and claims a value size of 0xFFFFFFF0 hangs
  the interrupt handler, and with it the VPU: no reply is ever written.\<close>

theorem monitor_hangs_on_bad_size:
  fixes m :: ram and message :: u32
  assumes mail: "env b (hist b) ARM_1_MAIL1_RD = msg" "msg AND 0xf = 8" "message = msg AND NOT 0xf"
    and tag: "2 < unat (m message) div 4" "m (message + 8) \<noteq> 3"
      "m (message + 12) = 0xfffffff0"
  shows "fst (arm_monitor_interrupt m b) = Inl Hang"
proof -
  have start: "(2 :: u32) < m message div 4"
    using tag(1) by (simp add: word_less_nat_alt unat_div)
  have "tag_loop message 2 False m = None"
    using tag_loop_stuck [of message 2 False m] start tag(2,3)
    by (cases "tag_loop message 2 False m") (auto simp: word_at_def ac_simps)
  then show ?thesis
    using mail by (simp add: arm_monitor_interrupt_def bind_def rd_run Let_def)
qed

theorem monitor_hangs_on_bad_size_witness:
  "fst (arm_monitor_interrupt
      (\<lambda>a. if a = 0x1000 then 56 else if a = 0x100c then 0xfffffff0 else 0)
      \<lparr>env = \<lambda>_ _. 0x1008, hist = [], patience = 0\<rparr>) = Inl Hang"
  by (rule monitor_hangs_on_bad_size [where msg = "0x1008" and message = "0x1000"]) simp_all

text \<open>An interrupt from a source that is neither timer 0 nor the ARM panics.\<close>

lemma sleh_irq_unknown_source:
  assumes "env b (hist b) IC0_S AND 0xFF \<notin> {INTERRUPT_TIMER0, INTERRUPT_ARM}"
  shows "fst (sleh_irq m b) = Inl (Panic ''unknown interrupt source!'')"
  using assms
  by (simp add: sleh_irq_def bind_def rd_run ret_run Let_def print_timestamp_def peek_def
      print_vpu_state_def panic_run)

end
