(* ===== verification/Gpio.thy ===== *)
theory Gpio
  imports Bus
begin

unbundle bit_operations_syntax

text \<open>
  The GPIO driver \<^verbatim>\<open>src/common/BCM2708Gpio.cc\<close>: the function selectors hold ten 3-bit
  fields per register, the set, clear and level registers one bit per pin. The snapshot
  and pin set-up routines of \<^verbatim>\<open>src/firmware/utils.cc\<close> are built on it.
\<close>

section \<open>Operations\<close>

datatype BCM2708PinmuxSetting =
  PinmuxIn | PinmuxOut | Pinmux_ALT5 | Pinmux_ALT4 | Pinmux_ALT0 | Pinmux_ALT1 | Pinmux_ALT2
| Pinmux_ALT3

fun pinmux_code :: "BCM2708PinmuxSetting \<Rightarrow> u32" where
  "pinmux_code PinmuxIn = 0"
| "pinmux_code PinmuxOut = 1"
| "pinmux_code Pinmux_ALT5 = 2"
| "pinmux_code Pinmux_ALT4 = 3"
| "pinmux_code Pinmux_ALT0 = 4"
| "pinmux_code Pinmux_ALT1 = 5"
| "pinmux_code Pinmux_ALT2 = 6"
| "pinmux_code Pinmux_ALT3 = 7"

definition setFunction :: "u8 \<Rightarrow> BCM2708PinmuxSetting \<Rightarrow> unit act" where
  "setFunction pin_num function =
     (let regnum = unat pin_num div 10;
          pin_shift = (unat pin_num mod 10) * 3
      in rmw (reg_at GP_FSEL0 regnum)
           (\<lambda>v. (v AND NOT (push_bit pin_shift 7)) OR push_bit pin_shift (pinmux_code function)))"

fun read_pins :: "nat \<Rightarrow> nat list \<Rightarrow> u32 list act" where
  "read_pins bank [] = ret []"
| "read_pins bank (pin # pins) =
     bind (rd (reg_at GP_FSEL0 bank)) (\<lambda>v.
       bind (read_pins bank pins) (\<lambda>vs. ret ((drop_bit (pin * 3) v AND 7) # vs)))"

fun read_banks :: "nat list \<Rightarrow> u32 list act" where
  "read_banks [] = ret []"
| "read_banks (bank # banks) =
     bind (read_pins bank [0..<(if bank = 6 then 4 else 10)]) (\<lambda>xs.
       bind (read_banks banks) (\<lambda>ys. ret (xs @ ys)))"

definition getAllFunctions :: "u32 list act" where
  "getAllFunctions = read_banks [0..<7]"

definition clearPin :: "u8 \<Rightarrow> unit act" where
  "clearPin pin_num =
     wr (reg_at GP_CLR0 (unat pin_num div 32)) (push_bit (unat pin_num mod 32) 1)"

definition setPin :: "u8 \<Rightarrow> unit act" where
  "setPin pin_num =
     wr (reg_at GP_SET0 (unat pin_num div 32)) (push_bit (unat pin_num mod 32) 1)"

definition getPin :: "u8 \<Rightarrow> bool act" where
  "getPin pin_num =
     bind (rd (reg_at GP_LEV0 (unat pin_num div 32)))
       (\<lambda>v. ret (v AND push_bit (unat pin_num mod 32) 1 \<noteq> 0))"

definition getBank :: "u8 \<Rightarrow> u32 act" where
  "getBank bank = rd (reg_at GP_LEV0 (unat bank))"

section \<open>Set-up routines and snapshots of utils.cc\<close>

definition set_pl011_funcs :: "unit act" where
  "set_pl011_funcs = steps [setFunction 14 Pinmux_ALT0, setFunction 15 Pinmux_ALT0]"

definition enable_jtag :: "unit act" where
  "enable_jtag = steps
     [setFunction 22 Pinmux_ALT4, setFunction 24 Pinmux_ALT4, setFunction 25 Pinmux_ALT4,
      setFunction 26 Pinmux_ALT4, setFunction 27 Pinmux_ALT4]"

definition bank_levels :: "u32 \<Rightarrow> bool list" where
  "bank_levels state = map (\<lambda>pin. state AND push_bit pin 1 \<noteq> 0) [0..<32]"

definition gpio_snapshot :: "(bool list \<times> u32 list) act" where
  "gpio_snapshot =
     bind (getBank 0) (\<lambda>s0. bind (getBank 1) (\<lambda>s1.
       bind getAllFunctions (\<lambda>fs. ret (bank_levels s0 @ bank_levels s1, fs))))"

section \<open>Selector fields\<close>

lemma pinmux_code_mask: "pinmux_code f AND mask 3 = pinmux_code f"
  by (cases f) (simp_all add: mask_eq_exp_minus_1)

lemma mask3: "(7 :: u32) = mask 3"
  by (simp add: mask_eq_exp_minus_1)

lemma setFunction_put_field:
  "setFunction p f =
     rmw (reg_at GP_FSEL0 (unat p div 10)) (put_field (unat p mod 10 * 3) 3 (pinmux_code f))"
proof -
  have "(\<lambda>v. (v AND NOT (push_bit (unat p mod 10 * 3) 7))
      OR push_bit (unat p mod 10 * 3) (pinmux_code f)) =
    put_field (unat p mod 10 * 3) 3 (pinmux_code f)"
    by (simp add: fun_eq_iff put_field_def mask3)
  then show ?thesis by (simp add: setFunction_def Let_def)
qed

text \<open>What the selector registers say of pin \<open>i\<close>.\<close>

definition pin_function :: "(u32 \<Rightarrow> u32) \<Rightarrow> nat \<Rightarrow> u32" where
  "pin_function m i = get_field (i mod 10 * 3) 3 (m (reg_at GP_FSEL0 (i div 10)))"

lemma read_pins_storage:
  "storage m b \<Longrightarrow>
     \<exists>b'. read_pins bank pins b =
       (Inr (map (\<lambda>pin. get_field (pin * 3) 3 (m (reg_at GP_FSEL0 bank))) pins), b') \<and> storage m b'"
proof (induction pins arbitrary: b)
  case Nil
  then show ?case by (simp add: ret_run)
next
  case (Cons pin pins)
  obtain b1 where b1: "rd (reg_at GP_FSEL0 bank) b = (Inr (m (reg_at GP_FSEL0 bank)), b1)"
    and "storage m b1"
    using storage_rd [OF Cons.prems] by blast
  with Cons.IH [of b1] show ?case
    by (auto simp: bind_def b1 ret_run get_field_def mask3)
qed

lemma read_banks_storage:
  "storage m b \<Longrightarrow>
     \<exists>b'. read_banks banks b =
       (Inr (concat (map (\<lambda>bank. map (\<lambda>pin. get_field (pin * 3) 3 (m (reg_at GP_FSEL0 bank)))
         [0..<(if bank = 6 then 4 else 10)]) banks)), b') \<and> storage m b'"
proof (induction banks arbitrary: b)
  case Nil
  then show ?case by (simp add: ret_run)
next
  case (Cons bank banks)
  obtain b1 where b1: "read_pins bank [0..<(if bank = 6 then 4 else 10)] b =
      (Inr (map (\<lambda>pin. get_field (pin * 3) 3 (m (reg_at GP_FSEL0 bank)))
        [0..<(if bank = 6 then 4 else 10)]), b1)"
    and "storage m b1"
    using read_pins_storage [OF Cons.prems] by blast
  with Cons.IH [of b1] show ?case
    by (auto simp: bind_def b1 ret_run)
qed

lemma pin_ranges:
  "[0..<4] = [0, 1, 2, 3]" "[0..<7] = [0, 1, 2, 3, 4, 5, 6]" "[0..<10] = [0, 1, 2, 3, 4, 5, 6, 7, 8, 9]"
  "[0..<64] =
      [0, 1, 2, 3, 4, 5, 6, 7, 8, 9, 10, 11, 12, 13, 14, 15, 16, 17, 18, 19, 20, 21, 22, 23, 24,
      25, 26, 27, 28, 29, 30, 31, 32, 33, 34, 35, 36, 37, 38, 39, 40, 41, 42, 43, 44, 45, 46,
      47, 48, 49, 50, 51, 52, 53, 54, 55, 56, 57, 58, 59, 60, 61, 62, 63]"
  by (simp_all add: upt_conv_Cons)

lemma getAllFunctions_storage:
  assumes "storage m b"
  shows "\<exists>b'. getAllFunctions b = (Inr (map (pin_function m) [0..<64]), b') \<and> storage m b'"
proof -
  have "concat (map (\<lambda>bank. map (\<lambda>pin. get_field (pin * 3) 3 (m (reg_at GP_FSEL0 bank)))
      [0..<(if bank = 6 then 4 else 10)]) [0..<7]) = map (pin_function m) [0..<64]"
    by (simp add: pin_ranges pin_function_def)
  with read_banks_storage [OF assms, of "[0..<7]"] show ?thesis
    by (simp add: getAllFunctions_def)
qed

lemma gpio_unprotected: "i < 26 \<Longrightarrow> \<not> protected (reg_at GP_FSEL0 i)"
proof -
  assume "i < 26"
  then have "unat (reg_at GP_FSEL0 i) = 0x7e200000 + 4 * i"
    by (subst unat_reg_at) (simp_all add: GP_FSEL0_def)
  then show ?thesis by (simp add: protected_def word_less_nat_alt word_le_nat_alt)
qed

lemma setFunction_storage:
  assumes "storage m b"
  shows "\<exists>b' m'. setFunction p f b = (Inr (), b') \<and> storage m' b' \<and>
    pin_function m' (unat p) = pinmux_code f \<and>
    (\<forall>i < 256. i \<noteq> unat p \<longrightarrow> pin_function m' i = pin_function m i)"
proof -
  define r where "r = reg_at GP_FSEL0 (unat p div 10)"
  define m' where "m' = m(r := put_field (unat p mod 10 * 3) 3 (pinmux_code f) (m r))"
  have p: "unat p < 256" using unsigned_less [of p] by simp
  have r: "\<not> protected r"
    using p gpio_unprotected [of "unat p div 10"] by (simp add: r_def)
  obtain b' where "setFunction p f b = (Inr (), b')" and "storage m' b'"
    using storage_rmw [OF assms, of r "put_field (unat p mod 10 * 3) 3 (pinmux_code f)"] r
    by (auto simp: setFunction_put_field r_def m'_def)
  moreover have "unat p mod 10 * 3 + 3 \<le> 32" by simp
  then have "pin_function m' (unat p) = pinmux_code f"
    by (simp add: pin_function_def m'_def r_def get_put_field pinmux_code_mask)
  moreover have "pin_function m' i = pin_function m i" if "i < 256" "i \<noteq> unat p" for i
  proof (cases "i div 10 = unat p div 10")
    case True
    then have "i mod 10 \<noteq> unat p mod 10"
      using that(2) by (metis div_mult_mod_eq)
    then have "i mod 10 * 3 + 3 \<le> unat p mod 10 * 3 \<or> unat p mod 10 * 3 + 3 \<le> i mod 10 * 3"
      by linarith
    with True show ?thesis
      by (simp add: pin_function_def m'_def r_def get_put_field_other pinmux_code_mask)
  next
    case False
    then have "reg_at GP_FSEL0 (i div 10) \<noteq> r"
      using that(1) p by (simp add: r_def reg_at_inj)
    then show ?thesis by (simp add: pin_function_def m'_def)
  qed
  ultimately show ?thesis by blast
qed

section \<open>Properties\<close>

text \<open>on registers that hold what is written, reading all selectors back after
  \<open>setFunction\<close> gives the chosen function at that pin and leaves the other 63 pins
  unchanged.\<close>

theorem setFunction_roundtrip:
  assumes "storage m b" and "unat p < 64"
  shows "\<exists>b1 b2. setFunction p f b = (Inr (), b1) \<and>
    getAllFunctions b1 =
      (Inr ((map (pin_function m) [0..<64])[unat p := pinmux_code f]), b2)"
proof -
  obtain b1 m1 where b1: "setFunction p f b = (Inr (), b1)" "storage m1 b1"
    and m1: "pin_function m1 (unat p) = pinmux_code f"
      "\<And>i. i < 256 \<Longrightarrow> i \<noteq> unat p \<Longrightarrow> pin_function m1 i = pin_function m i"
    using setFunction_storage [OF assms(1), of p f] by blast
  have "map (pin_function m1) [0..<64] = (map (pin_function m) [0..<64])[unat p := pinmux_code f]"
    using assms(2) by (intro nth_equalityI) (auto simp: nth_list_update m1)
  with getAllFunctions_storage [OF b1(2)] b1(1) show ?thesis by auto
qed

theorem setFunction_roundtrip_witness:
  "\<exists>b1 b2. setFunction 14 Pinmux_ALT0 \<lparr>env = store_env (\<lambda>_. 0), hist = [], patience = 0\<rparr> =
      (Inr (), b1) \<and>
    getAllFunctions b1 =
      (Inr ((map (pin_function (\<lambda>_. 0)) [0..<64])[unat (14 :: u8) := pinmux_code Pinmux_ALT0]), b2)"
  by (rule setFunction_roundtrip [OF storage_start]) simp

end
