(* ===== verification/PowerDomains.thy ===== *)
theory PowerDomains
  imports Bus
begin

unbundle bit_operations_syntax

text \<open>
  The device registry of \<^verbatim>\<open>src/common/IODevice.cc\<close> and the power domains of
  \<^verbatim>\<open>src/firmware/drivers/BCM2708PowerManagement.cc\<close>. A method returns the state it
  leaves the device in; the caller's \<open>pmv\<close>, passed by reference, is returned as well. Every
  log line reads the microsecond counter.
\<close>

section \<open>Devices\<close>

datatype IODeviceState = kIODeviceUninitialized | kIODeviceStarted | kIODeviceStopped

text \<open>
  The registry is an array of 32 pointers with a running index; a device is its identity
  and its tag. Writing behind the array is undefined, so it has no result.
\<close>

record registry =
  devices :: "(nat \<times> u32) option list"
  new_index :: nat

definition empty_registry :: registry where
  "empty_registry = \<lparr>devices = replicate 32 None, new_index = 0\<rparr>"

definition registerDriver :: "nat \<times> u32 \<Rightarrow> registry \<Rightarrow> registry option" where
  "registerDriver dev r =
     (if new_index r < 32
      then Some \<lparr>devices = (devices r)[new_index r := Some dev], new_index = new_index r + 1\<rparr>
      else None)"

definition afterInit :: "nat \<times> u32 \<Rightarrow> registry \<Rightarrow> registry option" where
  "afterInit dev r = (if snd dev \<noteq> 0 then registerDriver dev r else Some r)"

fun find_tag :: "(nat \<times> u32) option list \<Rightarrow> u32 \<Rightarrow> nat option" where
  "find_tag [] tag = None"
| "find_tag (None # ds) tag = find_tag ds tag"
| "find_tag (Some (d, t) # ds) tag = (if t = tag then Some d else find_tag ds tag)"

definition findByTag :: "registry \<Rightarrow> u32 \<Rightarrow> nat option" where
  "findByTag r tag = find_tag (devices r) tag"

section \<open>Power domains\<close>

datatype cpr_power_result = kCprSuccess | kCprPowOkTimeout | kCprMrDoneTimeout

record power_domain =
  pmReg :: u32
  rstnMask :: u32

definition PM_UNK_CFG_CLR :: u32 where "PM_UNK_CFG_CLR = 0xFFFCFFFF"

definition pmvOr :: "power_domain \<Rightarrow> u32 \<Rightarrow> u32 \<Rightarrow> u32 act" where
  "pmvOr d pmv value = bind (wr (pmReg d) (pmv OR value)) (\<lambda>_. ret (pmv OR value))"

definition pmvAnd :: "power_domain \<Rightarrow> u32 \<Rightarrow> u32 \<Rightarrow> u32 act" where
  "pmvAnd d pmv value = bind (wr (pmReg d) (pmv AND value)) (\<lambda>_. ret (pmv AND value))"

definition waitOscTicks :: "u32 \<Rightarrow> unit act" where
  "waitOscTicks ticks = steps [wr CM_OSCCOUNT (CM_PASSWORD OR ticks), await CM_OSCCOUNT (\<lambda>v. v = 0)]"

fun wait_bit :: "nat \<Rightarrow> power_domain \<Rightarrow> u32 \<Rightarrow> bool act" where
  "wait_bit 0 d m = ret False"
| "wait_bit (Suc n) d m =
     bind (rd (pmReg d)) (\<lambda>v. if v AND m \<noteq> 0 then ret True
       else bind (waitOscTicks 2) (\<lambda>_. wait_bit n d m))"

definition waitForPmBit :: "power_domain \<Rightarrow> u32 \<Rightarrow> bool act" where
  "waitForPmBit d m = wait_bit 20 d m"

fun powok_loop :: "nat list \<Rightarrow> power_domain \<Rightarrow> u32 \<Rightarrow> (cpr_power_result \<times> u32) act" where
  "powok_loop [] d pmv = bind (steps [peek (pmReg d), driverLog]) (\<lambda>_. ret (kCprSuccess, pmv))"
| "powok_loop (i # is) d pmv =
     bind (waitForPmBit d PM_GNRIC_POWOK_SET) (\<lambda>ok.
       if ok then powok_loop is d pmv
       else if i = 4 then bind driverLog (\<lambda>_. ret (kCprPowOkTimeout, pmv))
       else let pmv' = (pmv AND PM_UNK_CFG_CLR) OR push_bit PM_GNRIC_CFG_LSB (of_nat i)
            in bind (steps [driverLog, wr (pmReg d) pmv']) (\<lambda>_. powok_loop is d pmv'))"

definition waitForPOWOK :: "power_domain \<Rightarrow> u32 \<Rightarrow> (cpr_power_result \<times> u32) act" where
  "waitForPOWOK d pmv = bind driverLog (\<lambda>_. powok_loop [1, 2, 3, 4] d pmv)"

definition beginPowerUpSequence :: "power_domain \<Rightarrow> u32 \<Rightarrow> u32 act" where
  "beginPowerUpSequence d pmv = bind driverLog (\<lambda>_. pmvOr d pmv PM_GNRIC_POWUP_SET)"

definition completePowerUpSequence :: "power_domain \<Rightarrow> u32 \<Rightarrow> (cpr_power_result \<times> u32) act" where
  "completePowerUpSequence d pmv =
     bind (pmvOr d pmv PM_GNRIC_ISPOW_SET) (\<lambda>pmv. bind (pmvOr d pmv PM_GNRIC_MEMREP_SET) (\<lambda>pmv.
     bind driverLog (\<lambda>_.
     bind (waitForPmBit d PM_GNRIC_MRDONE_SET) (\<lambda>ok.
       if \<not> ok then bind (steps [peek (pmReg d), driverLog]) (\<lambda>_. ret (kCprMrDoneTimeout, pmv))
       else bind (pmvOr d pmv PM_GNRIC_ISFUNC_SET) (\<lambda>pmv. ret (kCprSuccess, pmv))))))"

definition powerOn :: "power_domain \<Rightarrow> cpr_power_result act" where
  "powerOn d =
     bind driverLog (\<lambda>_. bind (rd (pmReg d)) (\<lambda>v.
     let pmv = ((v AND rstnMask d) AND PM_UNK_CFG_CLR) OR PM_PASSWORD
     in bind (steps [wr (pmReg d) pmv, udelay 15]) (\<lambda>_.
        bind (beginPowerUpSequence d pmv) (\<lambda>pmv.
        bind (waitForPOWOK d pmv) (\<lambda>(res, pmv).
          if res \<noteq> kCprSuccess then ret res
          else bind (completePowerUpSequence d pmv) (\<lambda>(res, pmv).
            if res \<noteq> kCprSuccess then ret res
            else bind driverLog (\<lambda>_. ret kCprSuccess)))))))"

definition setReset :: "power_domain \<Rightarrow> unit act" where
  "setReset d = steps
     [driverLog, rmw (pmReg d) (\<lambda>v. v OR (NOT (rstnMask d) OR PM_PASSWORD)), udelay 300]"

section \<open>The image domain\<close>

definition image_domain :: power_domain where
  "image_domain = \<lparr>pmReg = PM_IMAGE,
     rstnMask = NOT (PM_IMAGE_ISPRSTN_SET OR PM_IMAGE_H264RSTN_SET OR PM_IMAGE_PERIRSTN_SET)\<rparr>"

definition image_powerOn :: "cpr_power_result act" where
  "image_powerOn =
     bind (steps [peek PM_IMAGE, driverLog]) (\<lambda>_. bind (rd (pmReg image_domain)) (\<lambda>v.
     let pmv = v OR 0x10000 OR PM_PASSWORD
     in bind (wr (pmReg image_domain) pmv) (\<lambda>_.
        bind (beginPowerUpSequence image_domain pmv) (\<lambda>pmv.
        bind (waitForPOWOK image_domain pmv) (\<lambda>(res, pmv).
          if res \<noteq> kCprSuccess then ret res
          else bind driverLog (\<lambda>_.
            bind (pmvAnd image_domain pmv (NOT PM_GNRIC_POWUP_SET)) (\<lambda>pmv.
            bind (pmvOr image_domain pmv 0x30000) (\<lambda>pmv.
            bind (beginPowerUpSequence image_domain pmv) (\<lambda>pmv.
            bind (waitForPOWOK image_domain pmv) (\<lambda>(res, pmv).
              if res \<noteq> kCprSuccess then ret res
              else bind (completePowerUpSequence image_domain pmv) (\<lambda>(res, pmv).
                ret res)))))))))))"

definition resetPeripheralsUngated :: "unit act" where
  "resetPeripheralsUngated = steps
     [wr CM_PERIICTL (CM_PASSWORD OR CM_PERIICTL_GATE_SET), driverLog, driverLog,
      wr CM_PERIICTL CM_PASSWORD,
      waitOscTicks 2,
      rmw (pmReg image_domain) (\<lambda>v. v OR (CM_PASSWORD OR PM_IMAGE_PERIRSTN_SET)),
      wr CM_PERIICTL (CM_PASSWORD OR CM_PERIICTL_GATE_SET), driverLog]"

definition image_start :: "IODeviceState act" where
  "image_start =
     bind image_powerOn (\<lambda>res.
       if res \<noteq> kCprSuccess then panic ''failed to start the image power domain''
       else bind (steps
         [resetPeripheralsUngated, peek CM_PERIICTL, driverLog, peek CM_PERIIDIV, driverLog,
          peek PM_IMAGE, driverLog, driverLog]) (\<lambda>_. ret kIODeviceStarted))"

section \<open>The USB domain\<close>

definition usb_stop :: "IODeviceState act" where
  "usb_stop = bind (steps [driverLog, wr PM_USB PM_PASSWORD, udelay 200000, driverLog])
     (\<lambda>_. ret kIODeviceStopped)"

definition usb_start :: "IODeviceState act" where
  "usb_start = bind (steps
     [driverLog, rmw PM_USB (\<lambda>v. v OR (PM_PASSWORD OR PM_USB_CTRLEN_SET)), udelay 600, driverLog])
     (\<lambda>_. ret kIODeviceStarted)"

section \<open>The ARM domain\<close>

definition arm_domain :: power_domain where
  "arm_domain = \<lparr>pmReg = PM_PROC, rstnMask = PM_PROC_ARMRSTN_CLR\<rparr>"

definition arm_stop :: "IODeviceState act" where
  "arm_stop = panic ''this power domain cannot be stopped''"

definition arm_start :: "IODeviceState act" where
  "arm_start =
     bind driverLog (\<lambda>_. bind (powerOn arm_domain) (\<lambda>res.
       if res \<noteq> kCprSuccess then panic ''failed to start the ARM power domain''
       else bind driverLog (\<lambda>_. ret kIODeviceStarted)))"

section \<open>Password discipline\<close>

lemma keeps_waitOscTicks [keeps_intros]: "keeps cpr_answer cpr_write (waitOscTicks 2)"
  unfolding waitOscTicks_def by (intro keeps_intros) (simp_all add: reg_defs cpr_simps)

lemma keeps_wait_bit: "keeps cpr_answer cpr_write (wait_bit n d m)"
  by (induction n) (auto intro!: keeps_intros)

text \<open>
  \<open>pmv_ok\<close>: the value carried through the sequence has the password in its top byte, and
  the bits or-ed in do not touch that byte.
\<close>

lemma has_password_low:
  "has_password p \<Longrightarrow> drop_bit 24 v = 0 \<Longrightarrow> has_password (p OR v)"
  by (simp add: has_password_def drop_bit_or)

lemma yields_pmvOr:
  "has_password pmv \<Longrightarrow> drop_bit 24 v = 0 \<Longrightarrow>
     yields cpr_answer cpr_write (pmvOr d pmv v) has_password"
  unfolding pmvOr_def
  by (rule yields_bind [OF yields_any yields_ret], rule keeps_wr)
    (simp_all add: cpr_write_password has_password_low)

lemma yields_pmvAnd:
  "has_password pmv \<Longrightarrow> drop_bit 24 v = 0xff \<Longrightarrow>
     yields cpr_answer cpr_write (pmvAnd d pmv v) has_password"
  unfolding pmvAnd_def
  by (rule yields_bind [OF yields_any yields_ret], rule keeps_wr)
    (simp_all add: cpr_write_password has_password_and)

lemma yields_if:
  "(c \<Longrightarrow> yields ok W m R) \<Longrightarrow> (\<not> c \<Longrightarrow> yields ok W n R) \<Longrightarrow> yields ok W (if c then m else n) R"
  by simp

abbreviation pmv_password :: "cpr_power_result \<times> u32 \<Rightarrow> bool" where
  "pmv_password r \<equiv> has_password (snd r)"

lemma yields_powok_loop:
  "has_password pmv \<Longrightarrow> list_all (\<lambda>i. i < 5) is \<Longrightarrow>
     yields cpr_answer cpr_write (powok_loop is d pmv) pmv_password"
proof (induction "is" arbitrary: pmv)
  case Nil
  then show ?case
    by (auto intro!: yields_bind [OF yields_any yields_ret] keeps_intros)
next
  case (Cons i "is")
  have "i \<in> {0, 1, 2, 3, 4}"
    using Cons.prems(2) by auto
  then have cfg: "drop_bit 24 (push_bit PM_GNRIC_CFG_LSB (of_nat i) :: u32) = 0"
    by (auto simp: reg_defs)
  have pmv': "has_password ((pmv AND PM_UNK_CFG_CLR) OR push_bit PM_GNRIC_CFG_LSB (of_nat i))"
    using Cons.prems(1) cfg
    by (simp add: has_password_low has_password_and PM_UNK_CFG_CLR_def)
  have bit: "keeps cpr_answer cpr_write (waitForPmBit d m)" for m
    unfolding waitForPmBit_def by (rule keeps_wait_bit)
  show ?case
    unfolding powok_loop.simps
  proof (rule yields_bind [OF yields_any [OF bit]])
    fix ok :: bool
    show "yields cpr_answer cpr_write
       (if ok then powok_loop is d pmv
        else if i = 4 then bind driverLog (\<lambda>_. ret (kCprPowOkTimeout, pmv))
        else let pmv' = (pmv AND PM_UNK_CFG_CLR) OR push_bit PM_GNRIC_CFG_LSB (of_nat i)
             in bind (steps [driverLog, wr (pmReg d) pmv']) (\<lambda>_. powok_loop is d pmv'))
       pmv_password"
      using Cons.IH [of pmv] Cons.IH [OF pmv'] Cons.prems pmv'
      by (auto simp: Let_def simp del: steps.simps
          intro!: yields_bind [OF yields_any] yields_ret keeps_intros cpr_write_password)
  qed
qed

lemma yields_waitForPOWOK:
  "has_password pmv \<Longrightarrow> yields cpr_answer cpr_write (waitForPOWOK d pmv) pmv_password"
  unfolding waitForPOWOK_def
  by (rule yields_bind [OF yields_any yields_powok_loop]) (simp_all add: keeps_driverLog)

lemma yields_beginPowerUpSequence:
  "has_password pmv \<Longrightarrow> yields cpr_answer cpr_write (beginPowerUpSequence d pmv) has_password"
  unfolding beginPowerUpSequence_def
  by (rule yields_bind [OF yields_any yields_pmvOr])
    (simp_all add: keeps_driverLog reg_defs)

lemma yields_completePowerUpSequence:
  assumes "has_password pmv"
  shows "yields cpr_answer cpr_write (completePowerUpSequence d pmv) pmv_password"
proof -
  have low: "drop_bit 24 PM_GNRIC_ISPOW_SET = 0" "drop_bit 24 PM_GNRIC_MEMREP_SET = 0"
    "drop_bit 24 PM_GNRIC_ISFUNC_SET = 0"
    by (simp_all add: reg_defs)
  show ?thesis
    unfolding completePowerUpSequence_def waitForPmBit_def
    by (rule yields_bind [OF yields_pmvOr [OF assms low(1)]],
        rule yields_bind [OF yields_pmvOr [OF _ low(2)]], assumption,
        rule yields_bind [OF yields_any [OF keeps_driverLog]],
        rule yields_bind [OF yields_any [OF keeps_wait_bit]], rule yields_if)
     (auto simp del: steps.simps
        intro: yields_bind [OF yields_any yields_ret] yields_bind [OF yields_pmvOr [OF _ low(3)] yields_ret]
        intro!: keeps_driverLog keeps_peek keeps_steps_Cons keeps_steps_Nil)
qed

lemma keeps_powerOn:
  assumes "protected (pmReg d)"
  shows "keeps cpr_answer cpr_write (powerOn d)"
proof -
  have pmv: "has_password (((v AND rstnMask d) AND PM_UNK_CFG_CLR) OR PM_PASSWORD)"
    if "cpr_answer (pmReg d) v" for v
    using that assms
    by (simp add: cpr_answer_def has_password_def drop_bit_or drop_bit_and reg_defs)
  show ?thesis
    unfolding powerOn_def Let_def
    apply (rule keeps_bind [OF keeps_driverLog], rule keeps_rd_bind, rule keeps_bind)
     apply (intro keeps_intros, simp add: cpr_write_password pmv)
    apply (rule keeps_bind_yields [OF yields_beginPowerUpSequence], erule pmv)
    apply (rule keeps_bind_yields [OF yields_waitForPOWOK], assumption)
    apply (auto intro!: keeps_intros keeps_bind_yields [OF yields_completePowerUpSequence])
    done
qed

lemma keeps_setReset: "keeps cpr_answer cpr_write (setReset arm_domain)"
  unfolding setReset_def arm_domain_def
  by (intro keeps_intros) (simp add: cpr_simps drop_bit_or reg_defs)

lemma protected_domains:
  "protected (pmReg image_domain)" "protected (pmReg arm_domain)"
  by (simp_all add: image_domain_def arm_domain_def protected_def reg_defs)

lemma keeps_image_powerOn: "keeps cpr_answer cpr_write image_powerOn"
proof -
  have pmv: "has_password (v OR 0x10000 OR PM_PASSWORD)" if "cpr_answer (pmReg image_domain) v" for v
    using that protected_domains(1)
    by (simp add: cpr_answer_def has_password_def drop_bit_or reg_defs)
  have masks: "drop_bit 24 (NOT PM_GNRIC_POWUP_SET) = 0xff" "drop_bit 24 (0x30000 :: u32) = 0"
    by (simp_all add: reg_defs)
  show ?thesis
    unfolding image_powerOn_def Let_def
    apply (rule keeps_bind, intro keeps_intros, rule keeps_rd_bind, rule keeps_bind)
     apply (intro keeps_intros, simp add: cpr_write_password pmv)
    apply (rule keeps_bind_yields [OF yields_beginPowerUpSequence], erule pmv)
    apply (rule keeps_bind_yields [OF yields_waitForPOWOK], assumption)
    apply (auto intro!: keeps_ret keeps_bind [OF keeps_driverLog]
        keeps_bind_yields [OF yields_pmvAnd [OF _ masks(1)]]
        keeps_bind_yields [OF yields_pmvOr [OF _ masks(2)]]
        keeps_bind_yields [OF yields_beginPowerUpSequence]
        keeps_bind_yields [OF yields_waitForPOWOK]
        keeps_bind_yields [OF yields_completePowerUpSequence])
    done
qed

lemma keeps_image_start [keeps_intros]: "keeps cpr_answer cpr_write image_start"
  unfolding image_start_def resetPeripheralsUngated_def
  by (intro keeps_intros keeps_image_powerOn)
    (simp_all add: reg_defs cpr_simps image_domain_def drop_bit_or)

lemma keeps_usb [keeps_intros]:
  "keeps cpr_answer cpr_write usb_start" "keeps cpr_answer cpr_write usb_stop"
  unfolding usb_start_def usb_stop_def
  by (intro keeps_intros; simp add: reg_defs cpr_simps drop_bit_or)+

lemma keeps_arm_start [keeps_intros]: "keeps cpr_answer cpr_write arm_start"
  unfolding arm_start_def
  by (intro keeps_intros keeps_powerOn protected_domains)

section \<open>Handshakes\<close>

lemma grows_waitOscTicks [keeps_intros]: "grows (waitOscTicks t)"
  unfolding waitOscTicks_def by (intro keeps_intros) (simp add: keeps_intros)

lemma wait_bit_saw:
  "wait_bit n d m b = (Inr True, b') \<Longrightarrow>
     \<exists>es v. hist b' = Rd (pmReg d) v # es @ hist b \<and> v AND m \<noteq> 0"
proof (induction n arbitrary: b)
  case 0
  then show ?case by (simp add: ret_run)
next
  case (Suc n)
  define v where "v = env b (hist b) (pmReg d)"
  show ?case
  proof (cases "v AND m = 0")
    case False
    with Suc.prems show ?thesis
      by (auto simp: bind_def rd_run ret_run v_def intro!: exI [of _ "[]"])
  next
    case True
    then obtain b1 where 1: "waitOscTicks 2 (b\<lparr>hist := Rd (pmReg d) v # hist b\<rparr>) = (Inr (), b1)"
      and 2: "wait_bit n d m b1 = (Inr True, b')"
      using Suc.prems by (auto simp: bind_Inr rd_run v_def)
    obtain fs where "hist b1 = fs @ Rd (pmReg d) v # hist b"
      using grows_hist [OF grows_waitOscTicks, of 2 "b\<lparr>hist := Rd (pmReg d) v # hist b\<rparr>"] 1 by auto
    with Suc.IH [OF 2] show ?thesis
      by (auto intro: exI [of _ "x @ fs @ [Rd (pmReg d) v]" for x])
  qed
qed

lemma grows_wait_bit: "grows (wait_bit n d m)"
  by (induction n) (auto intro!: keeps_intros)

lemma powok_loop_saw:
  "powok_loop is d pmv b = (Inr (kCprSuccess, p), b') \<Longrightarrow>
     \<exists>es. hist b' = es @ hist b \<and>
       (4 \<in> set is \<longrightarrow> (\<exists>v. Rd (pmReg d) v \<in> set es \<and> v AND PM_GNRIC_POWOK_SET \<noteq> 0))"
proof (induction "is" arbitrary: pmv b)
  case Nil
  then show ?case
    by (auto simp: bind_Inr ret_run peek_def rd_run driverLog_def)
next
  case (Cons i "is")
  from Cons.prems obtain ok b1 where 1: "wait_bit 20 d PM_GNRIC_POWOK_SET b = (Inr ok, b1)"
    and 2: "(if ok then powok_loop is d pmv
       else if i = 4 then bind driverLog (\<lambda>_. ret (kCprPowOkTimeout, pmv))
       else let pmv' = (pmv AND PM_UNK_CFG_CLR) OR push_bit PM_GNRIC_CFG_LSB (of_nat i)
            in bind (steps [driverLog, wr (pmReg d) pmv']) (\<lambda>_. powok_loop is d pmv')) b1 =
      (Inr (kCprSuccess, p), b')"
    by (auto simp: bind_Inr waitForPmBit_def)
  show ?case
  proof (cases ok)
    case True
    with 2 Cons.IH obtain es where es: "hist b' = es @ hist b1" by fastforce
    from wait_bit_saw [of 20 d PM_GNRIC_POWOK_SET b b1] 1 True obtain fs v where
      "hist b1 = Rd (pmReg d) v # fs @ hist b" "v AND PM_GNRIC_POWOK_SET \<noteq> 0" by auto
    with es show ?thesis by (auto intro!: exI [of _ "es @ Rd (pmReg d) v # fs"])
  next
    case False
    obtain fs where fs: "hist b1 = fs @ hist b"
      using grows_hist [OF grows_wait_bit, of 20 d PM_GNRIC_POWOK_SET b] 1 by auto
    from False 2 have "i \<noteq> 4" by (auto simp: bind_Inr ret_run)
    with False 2 obtain pmv' b2 where 3: "steps [driverLog, wr (pmReg d) pmv'] b1 = (Inr (), b2)"
      and 4: "powok_loop is d pmv' b2 = (Inr (kCprSuccess, p), b')"
      by (auto simp: bind_Inr Let_def simp del: steps.simps)
    obtain gs where "hist b2 = gs @ hist b1"
      using 3 by (auto simp: bind_Inr ret_run peek_def rd_run wr_run driverLog_def)
    with fs Cons.IH [OF 4] \<open>i \<noteq> 4\<close> show ?thesis
      by (auto intro: exI [of _ "x @ gs @ fs" for x])
  qed
qed

lemma complete_saw:
  assumes "completePowerUpSequence d pmv b = (Inr (kCprSuccess, p), b')"
  shows "\<exists>es v m. hist b' = Wr (pmReg d) v # Rd (pmReg d) m # es @ hist b \<and>
    v AND PM_GNRIC_ISFUNC_SET \<noteq> 0 \<and> m AND PM_GNRIC_MRDONE_SET \<noteq> 0"
proof -
  from assms obtain q1 b1 q2 b2 b3 b4 where
    1: "pmvOr d pmv PM_GNRIC_ISPOW_SET b = (Inr q1, b1)" and
    2: "pmvOr d q1 PM_GNRIC_MEMREP_SET b1 = (Inr q2, b2)" and
    3: "driverLog b2 = (Inr (), b3)" and
    4: "wait_bit 20 d PM_GNRIC_MRDONE_SET b3 = (Inr True, b4)" and
    5: "pmvOr d q2 PM_GNRIC_ISFUNC_SET b4 = (Inr p, b')"
    unfolding completePowerUpSequence_def waitForPmBit_def bind_Inr
    by (auto simp: bind_Inr ret_run simp del: steps.simps split: if_splits)
  have "grows (pmvOr d w v)" for w v
    unfolding pmvOr_def by (intro keeps_intros)
  from grows_run [OF this 1] grows_run [OF this 2] grows_run [OF grows_driverLog 3]
  obtain es where es: "hist b3 = es @ hist b" by auto
  from wait_bit_saw [OF 4] obtain fs m where
    "hist b4 = Rd (pmReg d) m # fs @ hist b3" "m AND PM_GNRIC_MRDONE_SET \<noteq> 0" by blast
  moreover have "hist b' = Wr (pmReg d) (q2 OR PM_GNRIC_ISFUNC_SET) # hist b4"
    using 5 by (auto simp: pmvOr_def bind_def wr_run ret_run)
  moreover have "(q2 OR PM_GNRIC_ISFUNC_SET) AND PM_GNRIC_ISFUNC_SET \<noteq> 0"
    by (simp add: word_ao_absorbs reg_defs)
  ultimately show ?thesis using es by auto
qed

section \<open>A domain that never comes up\<close>

definition calm :: "(ev list \<Rightarrow> u32 \<Rightarrow> u32) \<Rightarrow> nat \<Rightarrow> bus \<Rightarrow> bool" where
  "calm e n b \<longleftrightarrow> env b = e \<and> patience b = n"

lemma runs_calm:
  "runs (calm e n) (wr a v) (\<lambda>_. calm e n)"
  "runs (calm e n) (peek a) (\<lambda>_. calm e n)"
  "runs (calm e n) driverLog (\<lambda>_. calm e n)"
  "runs (calm e n) (pmvOr d p w) (\<lambda>_. calm e n)"
  by (simp_all add: runs_def calm_def wr_run peek_def bind_def rd_run ret_run driverLog_def
      pmvOr_def)

lemma runs_rd_calm: "runs (calm e n) (rd a) (\<lambda>v b. (\<exists>h. v = e h a) \<and> calm e n b)"
  by (auto simp: runs_def calm_def rd_run)

lemma runs_waitOscTicks_calm:
  assumes "\<And>h. e h CM_OSCCOUNT = 0" and "0 < n"
  shows "runs (calm e n) (waitOscTicks t) (\<lambda>_. calm e n)"
proof -
  have "runs (calm e n) (await CM_OSCCOUNT (\<lambda>v. v = 0)) (\<lambda>_. calm e n)"
    using assms by (cases n)
      (auto simp: runs_def calm_def await_def poll_def bind_def rd_run ret_run)
  then show ?thesis
    unfolding waitOscTicks_def by (intro runs_steps_Cons [OF runs_calm(1)]) (simp add: runs_bind runs_ret)
qed

lemma runs_wait_bit_calm:
  assumes "\<And>h. e h CM_OSCCOUNT = 0" and "0 < n" and "\<And>h. e h (pmReg d) AND m = 0"
  shows "runs (calm e n) (wait_bit k d m) (\<lambda>ok b. ok = False \<and> calm e n b)"
proof (induction k)
  case 0
  then show ?case by (simp add: runs_ret)
next
  case (Suc k)
  have "runs (\<lambda>b. (\<exists>h. v = e h (pmReg d)) \<and> calm e n b)
      (if v AND m \<noteq> 0 then ret True else bind (waitOscTicks 2) (\<lambda>_. wait_bit k d m))
      (\<lambda>ok b. ok = False \<and> calm e n b)" for v
    using assms(3) runs_bind [OF runs_waitOscTicks_calm [of e n, OF assms(1,2)] Suc]
    by (auto simp: runs_def)
  then show ?case
    unfolding wait_bit.simps by (rule runs_bind [OF runs_rd_calm])
qed

lemma runs_powok_calm:
  assumes "\<And>h. e h CM_OSCCOUNT = 0" and "0 < n" and "\<And>h. e h (pmReg d) AND PM_GNRIC_POWOK_SET = 0"
  shows "4 \<in> set is \<Longrightarrow>
    runs (calm e n) (powok_loop is d pmv) (\<lambda>r b. fst r = kCprPowOkTimeout \<and> calm e n b)"
proof (induction "is" arbitrary: pmv)
  case Nil
  then show ?case by simp
next
  case (Cons i "is")
  have "runs (calm e n) (if i = 4 then bind driverLog (\<lambda>_. ret (kCprPowOkTimeout, pmv))
      else let pmv' = (pmv AND PM_UNK_CFG_CLR) OR push_bit PM_GNRIC_CFG_LSB (of_nat i)
           in bind (steps [driverLog, wr (pmReg d) pmv']) (\<lambda>_. powok_loop is d pmv'))
      (\<lambda>r b. fst r = kCprPowOkTimeout \<and> calm e n b)"
    using Cons
    by (auto simp: Let_def simp del: steps.simps intro!: runs_bind [OF runs_calm(3)] runs_ret
        runs_bind [OF runs_steps_Cons [OF runs_calm(3) runs_steps_Cons [OF runs_calm(1) runs_steps_Nil]]])
  then show ?case
    unfolding powok_loop.simps waitForPmBit_def
    by (intro runs_bind_value [OF runs_wait_bit_calm [of e n, OF assms]]) simp
qed

section \<open>The registry\<close>

fun register_all :: "(nat \<times> u32) list \<Rightarrow> registry \<Rightarrow> registry option" where
  "register_all [] r = Some r"
| "register_all (d # ds) r = (case afterInit d r of None \<Rightarrow> None | Some r' \<Rightarrow> register_all ds r')"

lemma find_tag_append:
  "find_tag (xs @ ys) t = (case find_tag xs t of None \<Rightarrow> find_tag ys t | Some d \<Rightarrow> Some d)"
  by (induction xs t rule: find_tag.induct) auto

lemma find_tag_replicate_None: "find_tag (replicate n None) t = None"
  by (induction n) auto

lemma find_tag_map_Some:
  "find_tag (map Some ds) t = map_of (map (\<lambda>(d, t). (t, d)) ds) t"
  by (induction ds) auto

definition holds :: "registry \<Rightarrow> (nat \<times> u32) list \<Rightarrow> bool" where
  "holds r ds \<longleftrightarrow> length ds \<le> 32 \<and> new_index r = length ds \<and>
     devices r = map Some ds @ replicate (32 - length ds) None"

lemma holds_empty: "holds empty_registry []"
  by (simp add: holds_def empty_registry_def)

lemma holds_register:
  "holds r ds \<Longrightarrow> snd d \<noteq> 0 \<Longrightarrow> length ds < 32 \<Longrightarrow>
     \<exists>r'. afterInit d r = Some r' \<and> holds r' (ds @ [d])"
proof -
  assume r: "holds r ds" "snd d \<noteq> 0" "length ds < 32"
  then obtain k where k: "32 - length ds = Suc k"
    by (cases "32 - length ds") auto
  have k': "32 - length (ds @ [d]) = k"
    using k r(3) by (simp only: length_append list.size)
  have dev: "devices r = map Some ds @ None # replicate k None" and idx: "new_index r = length ds"
    using r(1) k by (simp_all add: holds_def)
  have "(devices r)[length ds := Some d] = map Some ds @ Some d # replicate k None"
    using list_update_length [of "map Some ds" None "replicate k None" "Some d"] dev by simp
  then have "afterInit d r =
      Some \<lparr>devices = map Some (ds @ [d]) @ replicate k None, new_index = length (ds @ [d])\<rparr>"
    using r idx by (simp add: afterInit_def registerDriver_def)
  moreover have "holds \<lparr>devices = map Some (ds @ [d]) @ replicate k None,
      new_index = length (ds @ [d])\<rparr> (ds @ [d])"
    unfolding holds_def k' using r(3) by simp
  ultimately show "\<exists>r'. afterInit d r = Some r' \<and> holds r' (ds @ [d])" by blast
qed

lemma register_all_holds:
  "holds r es \<Longrightarrow> list_all (\<lambda>d. snd d \<noteq> 0) ds \<Longrightarrow> length es + length ds \<le> 32 \<Longrightarrow>
     \<exists>r'. register_all ds r = Some r' \<and> holds r' (es @ ds)"
proof (induction ds arbitrary: r es)
  case (Cons d ds)
  then obtain r1 where "afterInit d r = Some r1" "holds r1 (es @ [d])"
    using holds_register [of r es d] by auto
  with Cons.IH [of r1 "es @ [d]"] Cons.prems show ?case by simp
qed simp

lemma findByTag_holds:
  "holds r ds \<Longrightarrow> findByTag r t = map_of (map (\<lambda>(d, t). (t, d)) ds) t"
  by (auto simp: holds_def findByTag_def find_tag_append find_tag_map_Some find_tag_replicate_None
      split: option.splits)

section \<open>Properties\<close>

text \<open>C24: a power domain reported as successfully powered on has gone through the handshake: within
  the call the domain's register was read with POWOK set, later with MRDONE set, and the write
  that follows it, the last one, sets ISFUNC.\<close>

theorem powerOn_handshake:
  assumes "powerOn d b = (Inr kCprSuccess, b')"
  shows "\<exists>t v m es p. hist b' = Rd ST_CLO t # Wr (pmReg d) v # Rd (pmReg d) m # es @ hist b \<and>
    v AND PM_GNRIC_ISFUNC_SET \<noteq> 0 \<and> m AND PM_GNRIC_MRDONE_SET \<noteq> 0 \<and>
    Rd (pmReg d) p \<in> set es \<and> p AND PM_GNRIC_POWOK_SET \<noteq> 0"
proof -
  from assms obtain b1 v b2 b3 pmv b4 pmv' b5 pmv2 b6 where
    1: "driverLog b = (Inr (), b1)" and 2: "rd (pmReg d) b1 = (Inr v, b2)" and
    3: "steps [wr (pmReg d) (((v AND rstnMask d) AND PM_UNK_CFG_CLR) OR PM_PASSWORD), udelay 15] b2 =
      (Inr (), b3)" and
    4: "beginPowerUpSequence d (((v AND rstnMask d) AND PM_UNK_CFG_CLR) OR PM_PASSWORD) b3 =
      (Inr pmv, b4)" and
    5: "waitForPOWOK d pmv b4 = (Inr (kCprSuccess, pmv'), b5)" and
    6: "completePowerUpSequence d pmv' b5 = (Inr (kCprSuccess, pmv2), b6)" and
    7: "driverLog b6 = (Inr (), b')"
    unfolding powerOn_def Let_def bind_Inr
    by (auto simp: bind_Inr ret_run simp del: steps.simps split: if_splits)
  have "grows (beginPowerUpSequence d w)" "grows (steps [wr (pmReg d) w, udelay 15])" for w
    unfolding beginPowerUpSequence_def pmvOr_def
    by (intro keeps_intros; simp add: keeps_intros)+
  from grows_run [OF this(1) 4] grows_run [OF this(2) 3] grows_run [OF grows_rd 2]
    grows_run [OF grows_driverLog 1]
  obtain es where es: "hist b4 = es @ hist b" by auto
  obtain bl where bl: "driverLog b4 = (Inr (), bl)"
    and loop: "powok_loop [1, 2, 3, 4] d pmv bl = (Inr (kCprSuccess, pmv'), b5)"
    using 5 by (auto simp: waitForPOWOK_def bind_Inr)
  obtain gs where gs: "hist bl = gs @ hist b4"
    using grows_run [OF grows_driverLog bl] by blast
  obtain fs p where p: "hist b5 = fs @ hist bl" "Rd (pmReg d) p \<in> set fs"
    "p AND PM_GNRIC_POWOK_SET \<noteq> 0"
    using powok_loop_saw [OF loop] by auto
  obtain hs v m where c: "hist b6 = Wr (pmReg d) v # Rd (pmReg d) m # hs @ hist b5"
    "v AND PM_GNRIC_ISFUNC_SET \<noteq> 0" "m AND PM_GNRIC_MRDONE_SET \<noteq> 0"
    using complete_saw [OF 6] by blast
  have "hist b' = Rd ST_CLO (env b6 (hist b6) ST_CLO) # hist b6"
    using 7 by (auto simp: driverLog_def peek_def bind_def rd_run ret_run)
  with c p gs es have "hist b' = Rd ST_CLO (env b6 (hist b6) ST_CLO) # Wr (pmReg d) v #
      Rd (pmReg d) m # (hs @ fs @ gs @ es) @ hist b" by simp
  moreover have "Rd (pmReg d) p \<in> set (hs @ fs @ gs @ es)"
    using p by simp
  ultimately show ?thesis using c p by blast
qed

text \<open>A domain that comes up at once, and a clock that advances by 100 with each access.\<close>

definition prompt_domain :: bus where
  "prompt_domain =
     \<lparr>env = \<lambda>h a. if a = ST_CLO then of_nat (100 * length h) else 0xFFFFFF,
      hist = [], patience = 1\<rparr>"

lemma waitForPmBit_now:
  "env b (hist b) (pmReg d) AND m \<noteq> 0 \<Longrightarrow>
     waitForPmBit d m b = (Inr True, b\<lparr>hist := Rd (pmReg d) (env b (hist b) (pmReg d)) # hist b\<rparr>)"
  unfolding waitForPmBit_def by (simp add: eval_nat_numeral bind_def rd_run ret_run)

theorem powerOn_handshake_witness:
  "\<exists>b' t v m es. powerOn arm_domain prompt_domain = (Inr kCprSuccess, b') \<and>
    hist b' = Rd ST_CLO t # Wr PM_PROC v # Rd PM_PROC m # es \<and> v AND PM_GNRIC_ISFUNC_SET \<noteq> 0"
proof -
  have "fst (powerOn arm_domain prompt_domain) = Inr kCprSuccess"
    by (simp add: powerOn_def arm_domain_def prompt_domain_def Let_def bind_def rd_run wr_run
        ret_run driverLog_def peek_def udelay_def await_def poll_def beginPowerUpSequence_def
        pmvOr_def waitForPOWOK_def waitForPmBit_now completePowerUpSequence_def reg_defs)
  then obtain b' where b': "powerOn arm_domain prompt_domain = (Inr kCprSuccess, b')"
    by (cases "powerOn arm_domain prompt_domain") auto
  from powerOn_handshake [OF b'] show ?thesis
    unfolding b' by (auto simp: prompt_domain_def arm_domain_def)
qed

text \<open>C25: when a domain's register never shows POWOK, powering it on neither hangs nor succeeds:
  after the four bounded waits it reports the timeout, and starting the ARM domain panics. The
  oscillator counter and the microsecond clock are assumed to work.\<close>

theorem powerOn_times_out:
  assumes "\<And>h. env b h (pmReg d) AND PM_GNRIC_POWOK_SET = 0"
    and "\<And>h. env b h CM_OSCCOUNT = 0" and "0 < patience b"
    and "\<And>c. env c = env b \<Longrightarrow> patience c = patience b \<Longrightarrow> \<exists>c'. udelay 15 c = (Inr (), c')"
  shows "fst (powerOn d b) = Inr kCprPowOkTimeout \<and>
    (d = arm_domain \<longrightarrow> fst (arm_start b) = Inl (Panic ''failed to start the ARM power domain''))"
proof -
  let ?P = "calm (env b) (patience b)"
  have delay: "runs ?P (udelay 15) (\<lambda>_. ?P)"
  proof (rule runsI)
    fix c
    assume c: "?P c"
    then obtain c' where "udelay 15 c = (Inr (), c')"
      using assms(4) by (auto simp: calm_def)
    with c grows_env [OF grows_udelay, of 15 c] grows_patience [OF grows_udelay, of 15 c]
    show "\<exists>x c'. udelay 15 c = (Inr x, c') \<and> ?P c'" by (auto simp: calm_def)
  qed
  have pow: "runs ?P (powok_loop [1, 2, 3, 4] d p) (\<lambda>r b. fst r = kCprPowOkTimeout \<and> ?P b)" for p
    by (rule runs_powok_calm) (use assms(1-3) in auto)
  have on: "runs ?P (powerOn d) (\<lambda>r _. r = kCprPowOkTimeout)"
    unfolding powerOn_def Let_def waitForPOWOK_def beginPowerUpSequence_def bind_assoc
    apply (rule runs_bind [OF runs_calm(3)], rule runs_bind [OF runs_rd_calm])
    apply (rule runs_bind [where R = "\<lambda>_. ?P"])
     apply (rule runs_steps_Cons [OF runs_pre [OF runs_calm(1)] runs_steps_Cons [OF delay runs_steps_Nil]])
     apply simp
    apply (rule runs_bind [OF runs_calm(3)], rule runs_bind [OF runs_calm(4)])
    apply (rule runs_bind [OF runs_calm(3)], rule runs_bind [OF pow])
    apply (auto simp: runs_def ret_run split: prod.splits)
    done
  have start: "?P b" by (simp add: calm_def)
  from runsD [OF on start] have 1: "fst (powerOn d b) = Inr kCprPowOkTimeout" by auto
  obtain b1 where b1: "driverLog b = (Inr (), b1)" "?P b1"
    using runsD [OF runs_calm(3) start] by auto
  from runsD [OF on b1(2)] b1(1) have
    "d = arm_domain \<longrightarrow> fst (arm_start b) = Inl (Panic ''failed to start the ARM power domain'')"
    by (auto simp: arm_start_def bind_def panic_run)
  with 1 show ?thesis by blast
qed

theorem powerOn_times_out_witness:
  "fst (arm_start \<lparr>env = \<lambda>h a. if a = ST_CLO then of_nat (100 * length h) else 0, hist = [],
      patience = 1\<rparr>) = Inl (Panic ''failed to start the ARM power domain'')"
proof -
  have "\<exists>c'. udelay 15 c = (Inr (), c')"
    if "env c = (\<lambda>h a. if a = ST_CLO then of_nat (100 * length h) else 0)" "patience c = 1" for c
    using that by (simp add: udelay_def bind_def rd_run await_def poll_def ret_run reg_defs)
  then show ?thesis
    using powerOn_times_out [of "\<lparr>env = \<lambda>h a. if a = ST_CLO then of_nat (100 * length h) else 0,
      hist = [], patience = 1\<rparr>" arm_domain]
    by (auto simp: arm_domain_def reg_defs)
qed

text \<open>up to 32 tagged devices can be registered and are then found by their tags, the first
  registered winning; the 33rd is written behind the array, which has no result.\<close>

theorem registry_finds_devices:
  assumes "list_all (\<lambda>d. snd d \<noteq> 0) ds"
  shows "(length ds \<le> 32 \<longrightarrow> (\<exists>r. register_all ds empty_registry = Some r \<and>
      (\<forall>t. findByTag r t = map_of (map (\<lambda>(d, t). (t, d)) ds) t))) \<and>
    (length ds = 33 \<longrightarrow> register_all ds empty_registry = None)"
proof (intro conjI impI)
  assume "length ds \<le> 32"
  then obtain r where "register_all ds empty_registry = Some r" "holds r ds"
    using register_all_holds [OF holds_empty assms] by auto
  then show "\<exists>r. register_all ds empty_registry = Some r \<and>
      (\<forall>t. findByTag r t = map_of (map (\<lambda>(d, t). (t, d)) ds) t)"
    using findByTag_holds by blast
next
  assume len: "length ds = 33"
  define d where "d = last ds"
  have ds: "ds = butlast ds @ [d]" "length (butlast ds) = 32"
    using len by (auto simp: d_def intro: append_butlast_last_id [symmetric])
  have "list_all (\<lambda>d. snd d \<noteq> 0) (butlast ds)" "snd d \<noteq> 0"
    using assms by (subst (asm) ds(1), simp)+
  then obtain r where r: "register_all (butlast ds) empty_registry = Some r" "holds r (butlast ds)"
    using register_all_holds [OF holds_empty, of "butlast ds"] ds(2) by auto
  have split: "register_all (xs @ ys) r0 =
      (case register_all xs r0 of None \<Rightarrow> None | Some r1 \<Rightarrow> register_all ys r1)" for xs ys r0
    by (induction xs arbitrary: r0) (auto split: option.splits)
  show "register_all ds empty_registry = None"
    using r ds(2) \<open>snd d \<noteq> 0\<close>
    by (subst ds(1)) (simp add: split afterInit_def registerDriver_def holds_def)
qed

theorem registry_finds_devices_witness:
  "\<exists>r. register_all [(1, 0x504c4c42), (2, 0x55534250)] empty_registry = Some r \<and>
    findByTag r 0x55534250 = Some 2 \<and> findByTag r 0x41524d43 = None"
  using registry_finds_devices [of "[(1, 0x504c4c42), (2, 0x55534250)]"] by auto

end
