(* ===== verification/Otp.thy ===== *)
theory Otp
  imports Bus
begin

unbundle bit_operations_syntax

text \<open>
  The one-time programmable fuses: the row reader \<^verbatim>\<open>src/firmware/otp_asm.S\<close> and the
  decoding of the board revision and boot mode rows in \<^verbatim>\<open>src/firmware/otp.c\<close>. The
  assembly's stall loop reads the crystal register \<open>A2W_XOSC0\<close>; its loop counter runs
  through 1, 0 and -1. The printing routine returns its \<^verbatim>\<open>printf\<close> calls, each the
  format with its arguments.
\<close>

section \<open>Reading a row (otp_asm.S)\<close>

definition stall :: "unit act" where
  "stall = steps [peek 0x7e102090, peek 0x7e102090, peek 0x7e102090]"

definition otp_open :: "unit act" where
  "otp_open = steps
     [wr OTP_CONFIG_REG 3, stall, wr OTP_CTRL_HI_REG 0, wr OTP_CTRL_LO_REG 0, stall,
      wr OTP_CONFIG_REG 2]"

fun wait_ready :: "nat \<Rightarrow> unit act" where
  "wait_ready 0 = (\<lambda>b. (Inl Hang, b))"
| "wait_ready (Suc n) =
     bind stall (\<lambda>_. bind (rd OTP_STATUS_REG) (\<lambda>s. if bit s 0 then ret () else wait_ready n))"

definition otp_read_reg :: "u32 \<Rightarrow> u32 act" where
  "otp_read_reg addr = bind (steps
     [wr OTP_ADDR_REG addr, stall, peek OTP_ADDR_REG, wr OTP_CTRL_HI_REG 0, wr OTP_CTRL_LO_REG 0,
      stall, peek OTP_CTRL_LO_REG, wr OTP_CTRL_LO_REG 1, peek OTP_CTRL_LO_REG,
      (\<lambda>b. wait_ready (patience b) b)]) (\<lambda>_. rd OTP_DATA_REG)"

definition otp_close :: "unit act" where
  "otp_close = steps
     [wr OTP_CTRL_HI_REG 0, wr OTP_CTRL_LO_REG 0, stall, wr OTP_CONFIG_REG 0]"

definition otp_read_internal :: "u32 \<Rightarrow> u32 act" where
  "otp_read_internal addr =
     bind otp_open (\<lambda>_. bind (otp_read_reg addr) (\<lambda>v. bind otp_close (\<lambda>_. ret v)))"

section \<open>Decoding (otp.c)\<close>

definition otp_read :: "u8 \<Rightarrow> u32 act" where
  "otp_read addr = otp_read_internal (ucast addr)"

fun dump_rows :: "nat list \<Rightarrow> (nat \<times> u32) list act" where
  "dump_rows [] = ret []"
| "dump_rows (a # as) =
     bind (otp_read (of_nat a)) (\<lambda>v. bind (dump_rows as) (\<lambda>vs. ret ((a, v) # vs)))"

definition dump_all_otp :: "(nat \<times> u32) list act" where
  "dump_all_otp = dump_rows [0..<67]"

record OtpInfo =
  board_type :: int
  rev_no :: int
  proc :: int
  serial :: u32
  revision :: u32

definition new_style :: "u32 \<Rightarrow> bool" where
  "new_style rw \<longleftrightarrow> rw AND push_bit 23 1 \<noteq> 0"

definition parse_otp_into :: "OtpInfo act" where
  "parse_otp_into =
     bind (otp_read 30) (\<lambda>rw.
     let dest0 = \<lparr>board_type = 0, rev_no = 0, proc = 0, serial = 0, revision = 0\<rparr>;
         dest1 = (if new_style rw
           then dest0\<lparr>rev_no := uint (rw AND 0xf),
             board_type := uint (drop_bit 4 rw AND 0xff),
             proc := uint (drop_bit 12 rw AND 0xf)\<rparr>
           else dest0)
     in bind (otp_read 28) (\<lambda>ser. bind (otp_read 29) (\<lambda>_. bind (otp_read 30) (\<lambda>rev2.
          ret (dest1\<lparr>serial := ser, revision := rev2\<rparr>)))))"

type_synonym printed = "(string \<times> u32 list) list"

definition line_if :: "bool \<Rightarrow> string \<Rightarrow> u32 list \<Rightarrow> printed" where
  "line_if c fmt args = (if c then [(fmt, args)] else [])"

definition bootmode_lines :: "u32 \<Rightarrow> printed" where
  "bootmode_lines m =
     [(''OTP17: 0x%08lx'', [m])] @
     line_if (m AND push_bit 1 1 \<noteq> 0) ''  19.2mhz crystal present'' [] @
     line_if (m AND push_bit 3 1 \<noteq> 0) ''  SDIO pullups should be on?'' [] @
     line_if (m AND push_bit 19 1 \<noteq> 0) ''  GPIO boot mode'' [] @
     line_if (m AND push_bit 20 1 \<noteq> 0) ''  GPIO boot mode bank bit is set'' [] @
     line_if (m AND push_bit 21 1 \<noteq> 0) ''  SD card boot enabled'' [] @
     line_if (m AND push_bit 22 1 \<noteq> 0) ''  bank to boot from set'' [] @
     line_if (m AND push_bit 28 1 \<noteq> 0) ''  USB device boot enabled'' [] @
     line_if (m AND push_bit 29 1 \<noteq> 0)
       ''  USB host boot enabled (ethernet/mass-storage)'' []"

definition revision_lines :: "u32 \<Rightarrow> printed" where
  "revision_lines rw =
     [(''HW revision: 0x%08lx'', [rw])] @
     (if new_style rw then
       [(''  Type: %ld'', [drop_bit 4 rw AND 0xff]),
        (''  Rev: %ld'', [rw AND 0xf]),
        (''  Proc: %ld'', [drop_bit 12 rw AND 0xf]),
        (''  Manufacturer: %ld'', [drop_bit 16 rw AND 0xf]),
        (''  Ram: %ld'', [drop_bit 20 rw AND 0x7])]
      else [])"

definition advanced_boot_lines :: "u32 \<Rightarrow> printed" where
  "advanced_boot_lines a =
     [(''OTP66: 0x%08lx'', [a])] @
     (if a AND push_bit 7 1 \<noteq> 0 then
       [(''  ETH_CLK on GPIO%ld'', [a AND 0x7f]),
        (if a AND push_bit 25 1 \<noteq> 0 then (''  ETH_CLK 24mhz'', []) else (''  ETH_CLK 25mhz'', []))]
      else []) @
     line_if (a AND push_bit 15 1 \<noteq> 0) ''  LAN_RUN on GPIO%ld'' [drop_bit 8 a AND 0x7f] @
     line_if (a AND push_bit 24 1 \<noteq> 0) ''  extended USB timeout'' []"

definition pretty_print_otp :: "printed act" where
  "pretty_print_otp =
     bind (otp_read 17) (\<lambda>bootmode. bind (otp_read 18) (\<lambda>bootmode2.
     bind (otp_read 28) (\<lambda>ser. bind (otp_read 29) (\<lambda>ser2.
     bind (otp_read 30) (\<lambda>rw.
     bind (otp_read 64) (\<lambda>maclow. bind (otp_read 65) (\<lambda>machi.
     bind (otp_read 66) (\<lambda>advanced_boot.
       ret (bootmode_lines bootmode @
         line_if (bootmode \<noteq> bootmode2) ''WARNING: boot mode duplicate doesnt match'' [] @
         [(''SoC serial# 0x%08lx'', [ser])] @
         line_if (NOT ser \<noteq> ser2) ''WARNING: serial# duplicate doesnt match'' [] @
         revision_lines rw @
         [(''Optional Mac Override: %08lx%lx'', [maclow, machi])] @
         advanced_boot_lines advanced_boot)))))))))"

section \<open>The fuse device\<close>

text \<open>
  Fuses as the driver sees them: the data register shows the row last addressed, and the
  status register reports ready.
\<close>

fun addressed :: "ev list \<Rightarrow> u32" where
  "addressed [] = 0"
| "addressed (Wr a v # h) = (if a = OTP_ADDR_REG then v else addressed h)"
| "addressed (Rd a v # h) = addressed h"

definition otp_env :: "(u32 \<Rightarrow> u32) \<Rightarrow> ev list \<Rightarrow> u32 \<Rightarrow> u32" where
  "otp_env fuses h a =
     (if a = OTP_DATA_REG then fuses (addressed h) else if a = OTP_STATUS_REG then 1 else 0)"

text \<open>
  \<open>fuses_at fuses r b\<close>: the bus leads to such a device, row \<open>r\<close> was addressed last, and
  there is patience for one look at the status.
\<close>

definition fuses_at :: "(u32 \<Rightarrow> u32) \<Rightarrow> u32 \<Rightarrow> bus \<Rightarrow> bool" where
  "fuses_at fuses r b \<longleftrightarrow> env b = otp_env fuses \<and> addressed (hist b) = r \<and> 0 < patience b"

lemma runs_wr_fuses:
  "runs (fuses_at fuses r) (wr a v) (\<lambda>_. fuses_at fuses (if a = OTP_ADDR_REG then v else r))"
  by (simp add: runs_def fuses_at_def wr_run)

lemma runs_rd_fuses:
  "runs (fuses_at fuses r) (rd a) (\<lambda>v b. v = (if a = OTP_DATA_REG then fuses r
     else if a = OTP_STATUS_REG then 1 else 0) \<and> fuses_at fuses r b)"
  by (simp add: runs_def fuses_at_def rd_run otp_env_def)

lemma runs_peek_fuses: "runs (fuses_at fuses r) (peek a) (\<lambda>_. fuses_at fuses r)"
  unfolding peek_def by (rule runs_bind_value [OF runs_rd_fuses]) (rule runs_ret)

lemma runs_stall_fuses: "runs (fuses_at fuses r) stall (\<lambda>_. fuses_at fuses r)"
  unfolding stall_def
  by ((rule runs_steps_Cons, rule runs_peek_fuses)+) (rule runs_steps_Nil)

lemma runs_wait_fuses:
  "runs (fuses_at fuses r) (\<lambda>b. wait_ready (patience b) b) (\<lambda>_. fuses_at fuses r)"
proof (rule runsI)
  fix b
  assume b: "fuses_at fuses r b"
  then obtain n where n: "patience b = Suc n"
    by (cases "patience b") (auto simp: fuses_at_def)
  have "runs (fuses_at fuses r) (wait_ready (Suc n)) (\<lambda>_. fuses_at fuses r)"
    unfolding wait_ready.simps
    by (intro runs_bind [OF runs_stall_fuses] runs_bind_value [OF runs_rd_fuses])
      (simp add: reg_defs runs_ret)
  from runsD [OF this b] n
  show "\<exists>x b'. wait_ready (patience b) b = (Inr x, b') \<and> fuses_at fuses r b'" by simp
qed

lemmas runs_fuses = runs_wr_fuses runs_peek_fuses runs_stall_fuses runs_wait_fuses
  runs_steps_Nil

lemma runs_otp_read:
  "runs (fuses_at fuses r) (otp_read a)
     (\<lambda>v b. v = fuses (ucast a) \<and> fuses_at fuses (ucast a) b)"
proof -
  have op: "runs (fuses_at fuses r) otp_open (\<lambda>_. fuses_at fuses r)"
    unfolding otp_open_def
    by (rule runs_steps_Cons, rule runs_fuses)+ (simp add: reg_defs runs_ret)
  have cl: "runs (fuses_at fuses r) otp_close (\<lambda>_. fuses_at fuses r)" for r
    unfolding otp_close_def
    by (rule runs_steps_Cons, rule runs_fuses)+ (simp add: reg_defs runs_ret)
  have reg: "runs (fuses_at fuses r) (otp_read_reg w)
      (\<lambda>v b. v = fuses w \<and> fuses_at fuses w b)" for w
    unfolding otp_read_reg_def
    by (rule runs_bind [where R = "\<lambda>_. fuses_at fuses w"], (rule runs_steps_Cons, rule runs_fuses)+)
      (simp_all add: reg_defs runs_ret runs_post [OF runs_rd_fuses])
  show ?thesis
    unfolding otp_read_def otp_read_internal_def
    by (intro runs_bind [OF op] runs_bind_value [OF reg] runs_bind [OF cl] runs_ret) simp
qed

section \<open>Decoding\<close>

text \<open>The new-style revision code of a board, as the firmware's printing names its fields.\<close>

definition revision_code :: "8 word \<Rightarrow> 4 word \<Rightarrow> 4 word \<Rightarrow> 4 word \<Rightarrow> 3 word \<Rightarrow> u32" where
  "revision_code ty rv pr mf ram = push_bit 23 1 OR push_bit 20 (ucast ram) OR
     push_bit 16 (ucast mf) OR push_bit 12 (ucast pr) OR push_bit 4 (ucast ty) OR ucast rv"

lemma masks: "(0xf :: u32) = mask 4" "(0xff :: u32) = mask 8" "(0x7 :: u32) = mask 3"
  by (simp_all add: mask_eq_exp_minus_1)

lemma bit_revision_code:
  assumes "n < 32"
  shows "bit (revision_code ty rv pr mf ram) n \<longleftrightarrow> n = 23 \<or> 20 \<le> n \<and> bit ram (n - 20) \<or>
     16 \<le> n \<and> bit mf (n - 16) \<or> 12 \<le> n \<and> bit pr (n - 12) \<or>
     4 \<le> n \<and> bit ty (n - 4) \<or> bit rv n"
proof -
  have "bit (push_bit 23 1 :: u32) n \<longleftrightarrow> n = 23"
    using assms unfolding bit_push_bit_iff bit_1_iff by auto
  then show ?thesis
    unfolding revision_code_def bit_or_iff using assms
    by (simp add: bit_push_bit_iff bit_ucast_iff less_imp_diff_less)
qed

lemmas field_bits = bit_and_iff bit_drop_bit_eq bit_mask_iff bit_ucast_iff

lemma revision_fields:
  shows revision_type: "drop_bit 4 (revision_code ty rv pr mf ram) AND 0xff = ucast ty"
    and revision_rev: "revision_code ty rv pr mf ram AND 0xf = ucast rv"
    and revision_proc: "drop_bit 12 (revision_code ty rv pr mf ram) AND 0xf = ucast pr"
    and revision_manufacturer: "drop_bit 16 (revision_code ty rv pr mf ram) AND 0xf = ucast mf"
    and revision_ram: "drop_bit 20 (revision_code ty rv pr mf ram) AND 0x7 = ucast ram"
  unfolding masks
  subgoal by (rule bit_word_eqI, rename_tac n, case_tac "n < 8")
    (auto simp: field_bits bit_revision_code dest: bit_imp_le_length)
  subgoal by (rule bit_word_eqI, rename_tac n, case_tac "n < 4")
    (auto simp: field_bits bit_revision_code dest: bit_imp_le_length)
  subgoal by (rule bit_word_eqI, rename_tac n, case_tac "n < 4")
    (auto simp: field_bits bit_revision_code dest: bit_imp_le_length)
  subgoal by (rule bit_word_eqI, rename_tac n, case_tac "n < 4")
    (auto simp: field_bits bit_revision_code dest: bit_imp_le_length)
  subgoal by (rule bit_word_eqI, rename_tac n, case_tac "n < 3")
    (auto simp: field_bits bit_revision_code dest: bit_imp_le_length)
  done

lemma new_style_revision_code: "new_style (revision_code ty rv pr mf ram)"
proof -
  have "bit (revision_code ty rv pr mf ram AND push_bit 23 1) 23"
    by (simp add: bit_and_iff bit_revision_code)
  then show ?thesis unfolding new_style_def by (metis bit_0_eq bot_apply bot_bool_def)
qed

lemma runs_parse_otp:
  "runs (fuses_at fuses r) parse_otp_into (\<lambda>info b. info =
     (if new_style (fuses 30)
      then \<lparr>board_type = uint (drop_bit 4 (fuses 30) AND 0xff), rev_no = uint (fuses 30 AND 0xf),
        proc = uint (drop_bit 12 (fuses 30) AND 0xf), serial = fuses 28, revision = fuses 30\<rparr>
      else \<lparr>board_type = 0, rev_no = 0, proc = 0, serial = fuses 28, revision = fuses 30\<rparr>) \<and>
     fuses_at fuses 30 b)"
  unfolding parse_otp_into_def Let_def
  by (intro runs_bind_value [OF runs_otp_read]) (simp add: runs_ret)

text \<open>\<open>parse_otp_into\<close> recovers a new-style board: on fuses whose row 30 is the revision
  code of a type, revision, processor, manufacturer and RAM size, it returns that type, revision
  and processor, the serial number of row 28, and the whole code.\<close>

theorem parse_otp_roundtrip:
  assumes "env b = otp_env fuses" and "0 < patience b"
    and "fuses 30 = revision_code ty rv pr mf ram"
  shows "\<exists>b'. parse_otp_into b = (Inr \<lparr>board_type = uint ty, rev_no = uint rv, proc = uint pr,
    serial = fuses 28, revision = revision_code ty rv pr mf ram\<rparr>, b')"
proof -
  have "fuses_at fuses (addressed (hist b)) b"
    using assms by (simp add: fuses_at_def)
  from runsD [OF runs_parse_otp this] show ?thesis
    by (auto simp: assms(3) new_style_revision_code revision_fields uint_up_ucast is_up)
qed

theorem parse_otp_roundtrip_witness:
  "\<exists>b'. parse_otp_into \<lparr>env = otp_env (\<lambda>r. if r = 30 then 0xa020d3 else 7), hist = [],
      patience = 1\<rparr> =
    (Inr \<lparr>board_type = 0xd, rev_no = 3, proc = 2, serial = 7, revision = 0xa020d3\<rparr>, b')"
  using parse_otp_roundtrip [of "\<lparr>env = otp_env (\<lambda>r. if r = 30 then 0xa020d3 else 7), hist = [],
      patience = 1\<rparr>" "\<lambda>r. if r = 30 then 0xa020d3 else 7" "0xd" 3 2 0 2]
  by (simp add: revision_code_def)

end
