(* ===== verification/Sdram.thy ===== *)
theory Sdram
  imports Bus
begin

unbundle bit_operations_syntax

text \<open>
  SDRAM bring-up, \<^verbatim>\<open>src/firmware/sdram.c\<close>. Every \<^verbatim>\<open>logf\<close> reads the microsecond counter
  for its time stamp and its register arguments; a wait \<^verbatim>\<open>for (;;) if (REG & BIT) break;\<close>
  is an \<open>await\<close>. The global RAM size and the timing parameters are results of the
  initialisation.
\<close>

section \<open>Memory sizes and timing parameters\<close>

datatype RamSize =
  kRamSize1GB | kRamSize512MB | kRamSize256MB | kRamSize128MB | kRamSize2GB | kRamSize4GB
| kRamSizeUnknown

definition lpddr2_manufacturer_name :: "u32 \<Rightarrow> string" where
  "lpddr2_manufacturer_name mr =
     (if mr = 1 then ''Samsung'' else if mr = 2 then ''Qimonda'' else if mr = 3 then ''Elpida''
      else if mr = 4 then ''Etron'' else if mr = 5 then ''Nanya'' else if mr = 6 then ''Hynix''
      else ''Unknown'')"

definition lpddr2_size :: "u32 \<Rightarrow> RamSize" where
  "lpddr2_size mr =
     (if mr = 0x58 then kRamSize1GB else if mr = 0x18 then kRamSize512MB
      else if mr = 0x14 then kRamSize256MB else if mr = 0x10 then kRamSize128MB
      else kRamSizeUnknown)"

definition MR_REQUEST_SUCCESS :: "u32 \<Rightarrow> bool" where
  "MR_REQUEST_SUCCESS x \<longleftrightarrow> SD_MR_TIMEOUT_SET AND x \<noteq> SD_MR_TIMEOUT_SET"

definition MR_GET_RDATA :: "u32 \<Rightarrow> u32" where
  "MR_GET_RDATA x = drop_bit SD_MR_RDATA_LSB (x AND SD_MR_RDATA_SET)"

record lpddr2_timings =
  tRPab :: u32
  tRPpb :: u32
  tRCD :: u32
  tWR :: u32
  tRASmin :: u32
  tRRD :: u32
  tWTR :: u32
  tXSR :: u32
  tXP :: u32
  tRFCab :: u32
  tRTP :: u32
  tFAW :: u32
  tRC :: u32
  tREFI :: u32
  tINIT1 :: u32
  tINIT3 :: u32
  tINIT5 :: u32
  rowbits :: u32
  colbits :: u32
  banklow :: u32

definition g_InitSdramParameters :: lpddr2_timings where
  "g_InitSdramParameters =
     \<lparr>tRPab = 7, tRPpb = 6, tRCD = 6, tWR = 7, tRASmin = 15, tRRD = 2, tWTR = 4, tXSR = 54,
      tXP = 1, tRFCab = 50, tRTP = 1, tFAW = 18, tRC = 24, tREFI = 3113, tINIT1 = 40,
      tINIT3 = 79800, tINIT5 = 3990, rowbits = 2, colbits = 1, banklow = 2\<rparr>"

section \<open>Clock manager and PHY\<close>

definition logf :: "unit act" where
  "logf = peek ST_CLO"

definition clkman_update_begin :: "unit act" where
  "clkman_update_begin = steps
     [rmw CM_SDCCTL (\<lambda>v. v OR (CM_PASSWORD OR CM_SDCCTL_UPDATE_SET)),
      await CM_SDCCTL (\<lambda>v. v AND CM_SDCCTL_ACCPT_SET \<noteq> 0)]"

definition clkman_update_end :: "unit act" where
  "clkman_update_end = steps
     [rmw CM_SDCCTL (\<lambda>v. CM_PASSWORD OR (v AND CM_SDCCTL_UPDATE_CLR)),
      await CM_SDCCTL (\<lambda>v. v AND CM_SDCCTL_ACCPT_SET = 0)]"

definition reset_phy_dll :: "unit act" where
  "reset_phy_dll = steps
     [logf,
      wr APHY_CSR_PHY_BIST_CNTRL_SPR 0x30,
      wr DPHY_CSR_GLBL_DQ_DLL_RESET 1, wr APHY_CSR_GLBL_ADDR_DLL_RESET 1,
      peek SD_CS, peek SD_CS, peek SD_CS, peek SD_CS,
      wr DPHY_CSR_GLBL_DQ_DLL_RESET 0, wr APHY_CSR_GLBL_ADDR_DLL_RESET 0,
      logf,
      await DPHY_CSR_GLBL_MSTR_DLL_LOCK_STAT (\<lambda>v. v AND 0xFFFF = 0xFFFF),
      logf]"

definition sa_word :: "lpddr2_timings \<Rightarrow> u32" where
  "sa_word T = push_bit SD_SA_RFSH_T_LSB (tREFI T) OR SD_SA_PGEHLDE_SET OR SD_SA_CLKSTOP_SET
     OR SD_SA_POWSAVE_SET OR 0x3214"

definition sb_word :: "lpddr2_timings \<Rightarrow> u32" where
  "sb_word T = SD_SB_REORDER_SET OR push_bit SD_SB_BANKLOW_LSB (banklow T)
     OR SD_SB_EIGHTBANK_SET OR push_bit SD_SB_ROWBITS_LSB (rowbits T)
     OR push_bit SD_SB_COLBITS_LSB (colbits T)"

definition sc_word :: "lpddr2_timings \<Rightarrow> u32" where
  "sc_word T = push_bit SD_SC_T_RFC_LSB (tRFCab T) OR push_bit SD_SC_T_RRD_LSB (tRRD T)
     OR push_bit SD_SC_T_WR_LSB (tWR T) OR push_bit SD_SC_T_WTR_LSB (tWTR T)
     OR push_bit SD_SC_WL_LSB 3"

definition sd_word :: "lpddr2_timings \<Rightarrow> u32" where
  "sd_word T = push_bit SD_SD_T_RPab_LSB (tRPab T) OR push_bit SD_SD_T_RC_LSB (tRC T)
     OR push_bit SD_SD_T_XP_LSB (tXP T) OR push_bit SD_SD_T_RAS_LSB (tRASmin T)
     OR push_bit SD_SD_T_RPpb_LSB (tRPpb T) OR push_bit SD_SD_T_RCD_LSB (tRCD T)"

definition se_word :: "lpddr2_timings \<Rightarrow> u32" where
  "se_word T = push_bit SD_SE_RL_EN_LSB 1 OR push_bit SD_SE_RL_LSB 4
     OR push_bit SD_SE_T_FAW_LSB (tFAW T) OR push_bit SD_SE_T_RTP_LSB (tRTP T)
     OR push_bit SD_SE_T_XSR_LSB (tXSR T)"

definition pt1_word :: "lpddr2_timings \<Rightarrow> u32" where
  "pt1_word T = push_bit SD_PT1_T_INIT3_LSB (tINIT3 T) OR push_bit SD_PT1_T_INIT1_LSB (tINIT1 T)"

definition restart_word :: u32 where
  "restart_word = ((push_bit SD_CS_ASHDN_T_LSB 4 OR SD_CS_STATEN_SET OR SD_CS_EN_SET)
     AND NOT (SD_CS_STOP_SET OR SD_CS_STBY_SET)) OR SD_CS_RESTRT_SET"

definition reset_sequence :: "lpddr2_timings \<Rightarrow> unit act list" where
  "reset_sequence T =
     [rmw SD_CS (\<lambda>v. (v AND NOT (SD_CS_DEL_KEEP_SET OR SD_CS_DPD_SET OR SD_CS_RESTRT_SET))
        OR SD_CS_STBY_SET),
      logf, peek SD_CS,
      await SD_CS (\<lambda>v. v AND SD_CS_SDUP_SET = 0), logf,
      clkman_update_begin,
      rmw CM_SDCCTL (\<lambda>v. (v AND NOT (CM_SDCCTL_ENAB_SET OR CM_SDCCTL_CTRL_SET)) OR CM_PASSWORD),
      clkman_update_end, logf,
      wr APHY_CSR_DDR_PLL_PWRDWN 0, wr APHY_CSR_DDR_PLL_GLOBAL_RESET 0,
      wr APHY_CSR_DDR_PLL_POST_DIV_RESET 0,
      wr APHY_CSR_DDR_PLL_VCO_FREQ_CNTRL0 (push_bit 16 1 OR 0x53),
      wr APHY_CSR_DDR_PLL_VCO_FREQ_CNTRL1 0, wr APHY_CSR_DDR_PLL_MDIV_VALUE 0,
      wr APHY_CSR_DDR_PLL_GLOBAL_RESET 1, logf,
      await APHY_CSR_DDR_PLL_LOCK_STATUS (\<lambda>v. v AND push_bit 16 1 \<noteq> 0), logf,
      wr APHY_CSR_DDR_PLL_POST_DIV_RESET 1,
      clkman_update_begin,
      rmw CM_SDCCTL (\<lambda>v. CM_PASSWORD OR push_bit CM_SDCCTL_CTRL_LSB 4 OR (v AND CM_SDCCTL_CTRL_CLR)),
      clkman_update_end,
      wr SD_SA (sa_word T), wr SD_SB (sb_word T), logf, peek SD_SB,
      wr SD_SC (sc_word T), wr SD_SD (sd_word T), wr SD_SE (se_word T), wr SD_PT1 (pt1_word T),
      wr SD_PT2 (push_bit SD_PT2_T_INIT5_LSB (tINIT5 T)),
      wr SD_MRT (push_bit SD_MRT_T_MRW_LSB 3),
      reset_phy_dll, logf,
      await APHY_CSR_GLBL_ADR_DLL_LOCK_STAT (\<lambda>v. v = 3), logf,
      wr APHY_CSR_PHY_BIST_CNTRL_SPR 0,
      wr SD_CS restart_word]"

definition reset_with_timing :: "lpddr2_timings \<Rightarrow> unit act" where
  "reset_with_timing T = steps (reset_sequence T)"

definition mr_done :: "u32 \<Rightarrow> bool" where
  "mr_done v \<longleftrightarrow> v AND SD_MR_DONE_SET = SD_MR_DONE_SET"

definition read_mr :: "u32 \<Rightarrow> u32 act" where
  "read_mr addr = bind (steps [await SD_MR mr_done, wr SD_MR (addr AND 0xFF)])
     (\<lambda>_. poll SD_MR mr_done)"

definition write_mr :: "u32 \<Rightarrow> u32 \<Rightarrow> bool \<Rightarrow> u32 act" where
  "write_mr addr data wait =
     bind (steps [await SD_MR mr_done,
       wr SD_MR ((addr AND 0xFF) OR push_bit 8 (data AND 0xFF) OR SD_MR_RW_SET)]) (\<lambda>_.
       if wait then bind (poll SD_MR mr_done) (\<lambda>mrr.
         if mrr AND SD_MR_TIMEOUT_SET \<noteq> 0 then panic ''MR write timed out'' else ret mrr)
       else ret 0)"

definition reset_phy :: "unit act" where
  "reset_phy = steps
     [logf, wr SD_PHYC SD_PHYC_PHYRST_SET, udelay 64, wr SD_PHYC 0, logf,
      wr DPHY_CSR_DQ_PHY_MISC_CTRL 7, wr DPHY_CSR_DQ_PAD_MISC_CTRL 0,
      wr DPHY_CSR_BOOT_READ_DQS_GATE_CTRL 0x11,
      reset_phy_dll, wr APHY_CSR_PHY_BIST_CNTRL_SPR 0]"

definition switch_to_cprman_clock :: "u32 \<Rightarrow> u32 \<Rightarrow> unit act" where
  "switch_to_cprman_clock source dv = steps
     [wr CM_SDCDIV (CM_PASSWORD OR push_bit CM_SDCDIV_DIV_LSB dv),
      rmw CM_SDCCTL (\<lambda>v. CM_PASSWORD OR (v AND CM_SDCCTL_SRC_CLR) OR source),
      rmw CM_SDCCTL (\<lambda>v. v OR (CM_PASSWORD OR CM_SDCCTL_ENAB_SET)),
      logf, peek CM_SDCCTL,
      await CM_SDCCTL (\<lambda>v. v AND CM_SDCCTL_BUSY_SET \<noteq> 0), logf]"

definition init_clkman :: "unit act" where
  "init_clkman = steps
     [clkman_update_begin,
      rmw CM_SDCCTL (\<lambda>v. CM_PASSWORD OR push_bit CM_SDCCTL_CTRL_LSB 0 OR (v AND CM_SDCCTL_CTRL_CLR)),
      clkman_update_end]"

section \<open>Calibration\<close>

definition calibrate_pvt_early :: "u32 \<Rightarrow> unit act" where
  "calibrate_pvt_early cpuid =
     (let st = drop_bit 4 cpuid AND 0xFFF = 0x14;
          dq_slew = (if st then 2 else 3) :: u32
      in bind (write_mr 0xFF 0 True) (\<lambda>_. bind (write_mr LPDDR2_MR_DEVICE_FEATURE_2 4 True) (\<lambda>_.
         bind (steps
           [wr APHY_CSR_ADDR_PAD_DRV_SLEW_CTRL 0x333,
            wr DPHY_CSR_DQ_PAD_DRV_SLEW_CTRL (push_bit 8 dq_slew OR push_bit 4 dq_slew OR 3),
            logf, peek DPHY_CSR_DQ_PAD_DRV_SLEW_CTRL,
            wr APHY_CSR_PHY_BIST_CNTRL_SPR 0x20,
            wr APHY_CSR_ADDR_PVT_COMP_CTRL 1, logf,
            await APHY_CSR_ADDR_PVT_COMP_STATUS (\<lambda>v. v AND 2 \<noteq> 0),
            wr DPHY_CSR_DQ_PVT_COMP_CTRL 1, logf,
            await DPHY_CSR_DQ_PVT_COMP_STATUS (\<lambda>v. v AND 2 \<noteq> 0),
            wr APHY_CSR_PHY_BIST_CNTRL_SPR 0]) (\<lambda>_.
         bind (rd SD_MRT) (\<lambda>old_mrt.
         bind (steps
           [wr SD_MRT 20, logf,
            wr SD_MR (LPDDR2_MR_CALIBRATION OR push_bit 8 0xFF OR SD_MR_RW_SET OR SD_MR_HI_Z_SET),
            await SD_MR mr_done,
            wr SD_MRT old_mrt]) (\<lambda>_.
         bind (write_mr LPDDR2_MR_IO_CONFIG (if st then 3 else 2) False) (\<lambda>_. ret ())))))))"

section \<open>Self test\<close>

definition RT_BASE :: u32 where "RT_BASE = 0xC0000000"
definition RT_PAT0 :: u32 where "RT_PAT0 = 0xAAAAAAAA"
definition RT_PAT1 :: u32 where "RT_PAT1 = 0xFF00AA00"
definition RT_PAT2 :: u32 where "RT_PAT2 = 0x99999999"

text \<open>One block is the four words the loops handle per iteration.\<close>

definition rt_block :: "u32 \<Rightarrow> nat \<Rightarrow> (u32 \<times> u32) list" where
  "rt_block ram i =
     [(reg_at ram i, RT_PAT0), (reg_at ram (i + 1), RT_PAT1), (reg_at ram (i + 2), RT_PAT2),
      (reg_at ram (i + 3), RT_PAT0)]"

definition rt_blocks :: "u32 \<Rightarrow> (u32 \<times> u32) list" where
  "rt_blocks ram = concat (map (\<lambda>k. rt_block ram (4 * k)) [0..<0x400])"

definition RT_ASSERT :: "u32 \<Rightarrow> u32 \<Rightarrow> unit act" where
  "RT_ASSERT a expected =
     bind (rd a) (\<lambda>v. if v \<noteq> expected
       then bind (steps [logf, peek a]) (\<lambda>_. panic ''SDRAM self test failed!'')
       else ret ())"

definition selftest_at :: "u32 \<Rightarrow> unit act" where
  "selftest_at addr = steps
     [logf, writes (rt_blocks addr), steps (map (\<lambda>(a, v). RT_ASSERT a v) (rt_blocks addr))]"

definition selftest :: "RamSize \<Rightarrow> unit act" where
  "selftest g_RAMSize = steps
     [logf, selftest_at RT_BASE,
      whenever (g_RAMSize = kRamSize256MB \<or> g_RAMSize = kRamSize512MB \<or> g_RAMSize = kRamSize1GB)
        (selftest_at (RT_BASE + 0xFF00000)),
      whenever (g_RAMSize = kRamSize256MB \<or> g_RAMSize = kRamSize1GB)
        (selftest_at (RT_BASE + 0x1FF00000)),
      whenever (g_RAMSize = kRamSize1GB)
        (steps [selftest_at (RT_BASE + 0x2FF00000), selftest_at (RT_BASE + 0x3FF00000)]),
      logf]"

section \<open>Initialisation\<close>

definition sdram_params :: "RamSize \<Rightarrow> lpddr2_timings" where
  "sdram_params sz =
     (if sz = kRamSize1GB
      then g_InitSdramParameters\<lparr>colbits := 3, rowbits := 3, banklow := 3\<rparr>
      else if sz = kRamSize512MB then g_InitSdramParameters\<lparr>colbits := 2\<rparr>
      else g_InitSdramParameters)"

definition sdram_identify :: "RamSize act" where
  "sdram_identify =
     bind (read_mr LPDDR2_MR_MANUFACTURER_ID) (\<lambda>vendor_id.
     if \<not> MR_REQUEST_SUCCESS vendor_id
     then panic ''vendor id memory register read timed out''
     else bind (read_mr LPDDR2_MR_METRICS) (\<lambda>bc.
       if \<not> MR_REQUEST_SUCCESS bc
       then panic ''basic configuration memory register read timed out''
       else bind logf (\<lambda>_.
         let sz = lpddr2_size (MR_GET_RDATA bc)
         in if sz = kRamSizeUnknown then panic ''unknown ram size'' else ret sz)))"

definition sdram_init :: "u32 \<Rightarrow> RamSize act" where
  "sdram_init cpuid =
     bind (steps
       [logf, peek SD_CS,
        wr PM_SMPS (PM_PASSWORD OR 1), wr A2W_SMPS_LDO1 (A2W_PASSWORD OR 0x40000),
        wr A2W_SMPS_LDO0 (A2W_PASSWORD OR 0),
        rmw A2W_XOSC_CTRL (\<lambda>v. v OR (A2W_PASSWORD OR A2W_XOSC_CTRL_DDREN_SET)),
        switch_to_cprman_clock CM_SRC_OSC 1,
        init_clkman,
        reset_phy,
        wr SD_SA 0x006E3395, wr SD_SB 0x0F9, wr SD_SC 0x6000431, wr SD_SD 0x10000011,
        wr SD_SE 0x10106000, wr SD_PT1 0x0AF002, wr SD_PT2 0x8C, wr SD_MRT 3, wr SD_CS 0x200042,
        logf, peek SD_CS,
        await SD_CS (\<lambda>v. v AND SD_CS_SDUP_SET \<noteq> 0), logf, peek SD_CS,
        bind (write_mr LPDDR2_MR_DEVICE_FEATURE_2 4 False) (\<lambda>_. ret ()),
        calibrate_pvt_early cpuid]) (\<lambda>_.
     bind sdram_identify (\<lambda>sz.
     bind (steps [reset_with_timing (sdram_params sz), selftest sz]) (\<lambda>_.
       ret sz)))"

section \<open>Every action only extends the history\<close>

lemmas sdram_defs = logf_def clkman_update_begin_def clkman_update_end_def reset_phy_dll_def
  reset_phy_def switch_to_cprman_clock_def init_clkman_def

lemma grows_logf [keeps_intros]: "grows logf"
  unfolding logf_def by (rule grows_peek)

lemma grows_reset_phy_dll [keeps_intros]: "grows reset_phy_dll"
  unfolding reset_phy_dll_def by (intro keeps_intros) (simp add: keeps_intros)

lemma grows_clkman [keeps_intros]: "grows clkman_update_begin" "grows clkman_update_end"
  unfolding clkman_update_begin_def clkman_update_end_def
  by (intro keeps_intros; simp add: keeps_intros)+

lemma grows_reset_with_timing [keeps_intros]: "grows (reset_with_timing T)"
  unfolding reset_with_timing_def reset_sequence_def by (intro keeps_intros) (simp add: keeps_intros)

section \<open>Password discipline\<close>

lemma keeps_logf [keeps_intros]: "keeps ok W logf"
  unfolding logf_def by (rule keeps_peek)

lemma keeps_clkman [keeps_intros]:
  "keeps cpr_answer cpr_write clkman_update_begin"
  "keeps cpr_answer cpr_write clkman_update_end"
  unfolding clkman_update_begin_def clkman_update_end_def
  by (intro keeps_intros; simp add: reg_defs cpr_simps drop_bit_or drop_bit_and)+

lemma keeps_reset_phy_dll [keeps_intros]: "keeps cpr_answer cpr_write reset_phy_dll"
  unfolding reset_phy_dll_def by (intro keeps_intros) (simp_all add: reg_defs cpr_simps)

lemma keeps_reset_with_timing [keeps_intros]: "keeps cpr_answer cpr_write (reset_with_timing T)"
  unfolding reset_with_timing_def reset_sequence_def
  by (intro keeps_intros) (simp_all add: reg_defs cpr_simps drop_bit_or drop_bit_and)

lemma keeps_reset_phy [keeps_intros]: "keeps cpr_answer cpr_write reset_phy"
  unfolding reset_phy_def by (intro keeps_intros) (simp_all add: reg_defs cpr_simps)

lemma keeps_switch_to_cprman_clock [keeps_intros]:
  "keeps cpr_answer cpr_write (switch_to_cprman_clock CM_SRC_OSC 1)"
  unfolding switch_to_cprman_clock_def
  by (intro keeps_intros) (simp_all add: reg_defs cpr_simps drop_bit_or drop_bit_and)

lemma keeps_init_clkman [keeps_intros]: "keeps cpr_answer cpr_write init_clkman"
  unfolding init_clkman_def
  by (intro keeps_intros) (simp_all add: reg_defs cpr_simps drop_bit_or drop_bit_and)

lemma keeps_read_mr [keeps_intros]: "keeps cpr_answer cpr_write (read_mr a)"
  unfolding read_mr_def by (intro keeps_intros) (simp_all add: reg_defs cpr_simps)

lemma keeps_write_mr [keeps_intros]: "keeps cpr_answer cpr_write (write_mr a d w)"
  unfolding write_mr_def by (intro keeps_intros) (simp_all add: reg_defs cpr_simps)

lemma keeps_calibrate [keeps_intros]: "keeps cpr_answer cpr_write (calibrate_pvt_early cpuid)"
  unfolding calibrate_pvt_early_def Let_def
  by (intro keeps_intros) (simp_all add: reg_defs cpr_simps)

lemma keeps_sdram_identify [keeps_intros]: "keeps cpr_answer cpr_write sdram_identify"
  unfolding sdram_identify_def Let_def by (intro keeps_intros)

section \<open>The self test\<close>

definition rt_pattern :: "nat \<Rightarrow> u32" where
  "rt_pattern i = (if i mod 4 = 1 then RT_PAT1 else if i mod 4 = 2 then RT_PAT2 else RT_PAT0)"

lemma concat_groups_of_4:
  "concat (map (\<lambda>k. [f (4 * k), f (4 * k + 1), f (4 * k + 2), f (4 * k + 3)]) [0..<n]) =
     map f [0..<4 * n]"
proof (induction n)
  case (Suc n)
  have range: "[0..<4 * Suc n] = [0..<4 * n] @ [4 * n, 4 * n + 1, 4 * n + 2, 4 * n + 3]"
  proof -
    have "[4 * n..<4 * n + 4] = [4 * n, 4 * n + 1, 4 * n + 2, 4 * n + 3]"
      by (simp add: upt_conv_Cons)
    moreover have "4 * Suc n = 4 * n + 4" by simp
    ultimately show ?thesis
      using upt_add_eq_append [of 0 "4 * n" 4] by (simp only: le0)
  qed
  have "[0..<Suc n] = [0..<n] @ [n]" by simp
  then show ?case
    unfolding range using Suc by (simp only: map_append concat_append list.map concat.simps append_Nil2)
qed simp

lemma rt_blocks_eq: "rt_blocks ram = map (\<lambda>i. (reg_at ram i, rt_pattern i)) [0..<0x1000]"
proof -
  have "rt_block ram (4 * k) =
      [(reg_at ram (4 * k), rt_pattern (4 * k)), (reg_at ram (4 * k + 1), rt_pattern (4 * k + 1)),
       (reg_at ram (4 * k + 2), rt_pattern (4 * k + 2)),
       (reg_at ram (4 * k + 3), rt_pattern (4 * k + 3))]" for k
    by (simp add: rt_block_def rt_pattern_def mod_simps) presburger
  then show ?thesis
    unfolding rt_blocks_def
    using concat_groups_of_4 [of "\<lambda>i. (reg_at ram i, rt_pattern i)" "0x400"] by simp
qed

lemma rt_blocks_distinct: "distinct (map fst (rt_blocks ram))"
  by (auto simp: rt_blocks_eq distinct_map comp_def inj_on_def reg_at_inj)

text \<open>The second loop on memory that holds the pattern, and what it saw when it returns.\<close>

lemma RT_ASSERT_storage:
  "storage m b \<Longrightarrow> list_all (\<lambda>(a, v). m a = v) ws \<Longrightarrow>
     \<exists>b'. steps (map (\<lambda>(a, v). RT_ASSERT a v) ws) b = (Inr (), b') \<and> storage m b'"
proof (induction ws arbitrary: b)
  case Nil
  then show ?case by (simp add: ret_run)
next
  case (Cons w ws)
  obtain a v where w: "w = (a, v)" by (cases w)
  obtain b1 where 1: "rd a b = (Inr v, b1)" "storage m b1"
    using storage_rd [OF Cons.prems(1), of a] Cons.prems(2) w by auto
  with Cons.IH [OF 1(2)] Cons.prems(2) show ?case
    by (auto simp: w RT_ASSERT_def bind_def ret_run)
qed

lemma RT_ASSERT_saw:
  "steps (map (\<lambda>(a, v). RT_ASSERT a v) ws) b = (Inr (), b') \<Longrightarrow>
     hist b' = rev (map (\<lambda>(a, v). Rd a v) ws) @ hist b"
proof (induction ws arbitrary: b)
  case Nil
  then show ?case by (simp add: ret_run)
next
  case (Cons w ws)
  obtain a v where w: "w = (a, v)" by (cases w)
  obtain b1 where "RT_ASSERT a v b = (Inr (), b1)"
    and rest: "steps (map (\<lambda>(a, v). RT_ASSERT a v) ws) b1 = (Inr (), b')"
    using Cons.prems by (auto simp: w bind_Inr)
  then have "hist b1 = Rd a v # hist b"
    by (auto simp: RT_ASSERT_def bind_def rd_run ret_run panic_run logf_def peek_def
        split: if_splits)
  with Cons.IH [OF rest] show ?case by (simp add: w)
qed

lemma writes_hist: "\<exists>b'. writes ws b = (Inr (), b') \<and>
    hist b' = rev (map (\<lambda>(a, v). Wr a v) ws) @ hist b \<and> env b' = env b"
proof (induction ws arbitrary: b)
  case Nil
  then show ?case by (simp add: writes_def ret_run)
next
  case (Cons w ws)
  obtain a v where w: "w = (a, v)" by (cases w)
  from Cons.IH [of "b\<lparr>hist := Wr a v # hist b\<rparr>"] show ?case
    by (auto simp: w writes_def bind_def wr_run)
qed

lemma selftest_at_storage:
  assumes "storage m b" and plain: "\<And>i. i < 0x1000 \<Longrightarrow> \<not> protected (reg_at addr i)"
  shows "\<exists>b'. selftest_at addr b = (Inr (), b') \<and> storage (written (rt_blocks addr) m) b'"
proof -
  obtain b1 where 1: "logf b = (Inr (), b1)" "storage m b1"
    using storage_rd [OF assms(1), of ST_CLO] by (auto simp: logf_def peek_def bind_def ret_run)
  have "list_all (\<lambda>(a, v). cpr_write a v) (rt_blocks addr)"
    using plain by (auto simp: rt_blocks_eq list_all_iff cpr_write_def)
  then obtain b2 where 2: "writes (rt_blocks addr) b1 = (Inr (), b2)"
    "storage (written (rt_blocks addr) m) b2"
    using storage_writes [OF 1(2)] by blast
  have "list_all (\<lambda>(a, v). written (rt_blocks addr) m a = v) (rt_blocks addr)"
    unfolding list_all_iff
  proof (clarify)
    fix a v
    assume av: "(a, v) \<in> set (rt_blocks addr)"
    then have "\<not> protected a"
      using plain by (auto simp: rt_blocks_eq)
    with written_distinct [OF rt_blocks_distinct av]
    show "written (rt_blocks addr) m a = v" by simp
  qed
  from RT_ASSERT_storage [OF 2(2) this] 1 2 show ?thesis
    by (auto simp: selftest_at_def bind_def ret_run)
qed

lemma selftest_at_saw:
  assumes "selftest_at addr b = (Inr (), b')" and "i < 0x1000"
  shows "Rd (reg_at addr i) (rt_pattern i) \<in> set (hist b')"
proof -
  obtain b1 b2 where "steps (map (\<lambda>(a, v). RT_ASSERT a v) (rt_blocks addr)) b1 = (Inr (), b2)"
    and "b' = b2"
    using assms(1) unfolding selftest_at_def by (auto simp: bind_Inr ret_run)
  with RT_ASSERT_saw have "hist b' = rev (map (\<lambda>(a, v). Rd a v) (rt_blocks addr)) @ hist b1"
    by blast
  with assms(2) show ?thesis
    by (auto simp: rt_blocks_eq)
qed

section \<open>Locks before the restart\<close>

text \<open>
  \<open>shows_read a p m\<close>: whenever \<open>m\<close> returns, it has read a value satisfying \<open>p\<close> from \<open>a\<close>.
\<close>

definition shows_read :: "u32 \<Rightarrow> (u32 \<Rightarrow> bool) \<Rightarrow> unit act \<Rightarrow> bool" where
  "shows_read a p m \<longleftrightarrow> (\<forall>b b'. m b = (Inr (), b') \<longrightarrow>
     (\<exists>es v. hist b' = es @ hist b \<and> p v \<and> Rd a v \<in> set es))"

lemma shows_readD:
  "shows_read a p m \<Longrightarrow> m b = (Inr (), b') \<Longrightarrow> hist b' = es @ hist b \<Longrightarrow>
     \<exists>v. Rd a v \<in> set es \<and> p v"
  unfolding shows_read_def by (metis append_same_eq)

lemma shows_await: "shows_read a p (await a p)"
  unfolding shows_read_def by (metis append_Cons await_returns list.set_intros(1))

lemma shows_steps:
  "m \<in> set ms \<Longrightarrow> list_all grows ms \<Longrightarrow> shows_read a p m \<Longrightarrow> shows_read a p (steps ms)"
proof (induction ms)
  case Nil
  then show ?case by simp
next
  case (Cons n ms)
  show ?case
    unfolding shows_read_def
  proof (intro allI impI)
    fix b b'
    assume "steps (n # ms) b = (Inr (), b')"
    then obtain b1 where 1: "n b = (Inr (), b1)" and 2: "steps ms b1 = (Inr (), b')"
      by (auto simp: bind_Inr)
    have "grows n" "grows (steps ms)"
      using Cons.prems(2) by (auto intro: grows_steps)
    then obtain es fs where es: "hist b1 = es @ hist b" and fs: "hist b' = fs @ hist b1"
      using grows_hist [of n b] grows_hist [of "steps ms" b1] 1 2 by auto
    show "\<exists>es v. hist b' = es @ hist b \<and> p v \<and> Rd a v \<in> set es"
    proof (cases "n = m")
      case True
      with shows_readD [OF Cons.prems(3), of b b1 es] 1 es obtain v where "p v" "Rd a v \<in> set es"
        by auto
      with es fs show ?thesis by (auto intro!: exI [of _ "fs @ es"])
    next
      case False
      then have "shows_read a p (steps ms)"
        using Cons by auto
      from shows_readD [OF this 2 fs] obtain v where "p v" "Rd a v \<in> set fs"
        by blast
      with es fs show ?thesis by (auto intro!: exI [of _ "fs @ es"])
    qed
  qed
qed

lemma shows_phy_dll:
  "shows_read DPHY_CSR_GLBL_MSTR_DLL_LOCK_STAT (\<lambda>v. v AND 0xFFFF = 0xFFFF) reset_phy_dll"
  unfolding reset_phy_dll_def by (rule shows_steps [OF _ _ shows_await]) (simp_all add: keeps_intros)

lemma grows_reset_sequence: "list_all grows (butlast (reset_sequence T))"
  unfolding reset_sequence_def by (simp add: keeps_intros)

lemma reset_with_timing_split:
  "reset_with_timing T = bind (steps (butlast (reset_sequence T))) (\<lambda>_. wr SD_CS restart_word)"
proof -
  have "reset_sequence T = butlast (reset_sequence T) @ [wr SD_CS restart_word]"
    by (simp add: reset_sequence_def)
  then have "reset_with_timing T = steps (butlast (reset_sequence T) @ [wr SD_CS restart_word])"
    by (simp add: reset_with_timing_def)
  also have "\<dots> = bind (steps (butlast (reset_sequence T))) (\<lambda>_. steps [wr SD_CS restart_word])"
    by (rule steps_append)
  also have "steps [wr SD_CS restart_word] = wr SD_CS restart_word"
    by (simp add: fun_eq_iff bind_def wr_run ret_run)
  finally show ?thesis .
qed

section \<open>Properties\<close>

text \<open>C18: when \<open>reset_with_timing\<close> returns, its last access restarts the SDRAM controller (restart
  bit set, standby and stop clear), and before it, within the same call, the master PLL, the
  data PHY's master DLL and the address DLL have each been seen locked.\<close>

theorem sdram_restarts_locked:
  assumes "reset_with_timing T b = (Inr (), b')"
  shows "\<exists>es. hist b' = Wr SD_CS restart_word # es @ hist b \<and>
    restart_word AND SD_CS_RESTRT_SET \<noteq> 0 \<and>
    restart_word AND (SD_CS_STOP_SET OR SD_CS_STBY_SET) = 0 \<and>
    (\<exists>v. Rd APHY_CSR_DDR_PLL_LOCK_STATUS v \<in> set es \<and> v AND push_bit 16 1 \<noteq> 0) \<and>
    (\<exists>v. Rd DPHY_CSR_GLBL_MSTR_DLL_LOCK_STAT v \<in> set es \<and> v AND 0xFFFF = 0xFFFF) \<and>
    Rd APHY_CSR_GLBL_ADR_DLL_LOCK_STAT 3 \<in> set es"
proof -
  let ?ms = "butlast (reset_sequence T)"
  obtain b1 where 1: "steps ?ms b = (Inr (), b1)" and 2: "hist b' = Wr SD_CS restart_word # hist b1"
    using assms by (auto simp: reset_with_timing_split bind_Inr wr_run)
  have pll: "shows_read APHY_CSR_DDR_PLL_LOCK_STATUS (\<lambda>v. v AND push_bit 16 1 \<noteq> 0) (steps ?ms)"
    by (rule shows_steps [OF _ grows_reset_sequence shows_await]) (simp add: reset_sequence_def)
  have dphy: "shows_read DPHY_CSR_GLBL_MSTR_DLL_LOCK_STAT (\<lambda>v. v AND 0xFFFF = 0xFFFF) (steps ?ms)"
    by (rule shows_steps [OF _ grows_reset_sequence shows_phy_dll]) (simp add: reset_sequence_def)
  have adr: "shows_read APHY_CSR_GLBL_ADR_DLL_LOCK_STAT (\<lambda>v. v = 3) (steps ?ms)"
    by (rule shows_steps [OF _ grows_reset_sequence shows_await]) (simp add: reset_sequence_def)
  have "restart_word AND SD_CS_RESTRT_SET \<noteq> 0"
    "restart_word AND (SD_CS_STOP_SET OR SD_CS_STBY_SET) = 0"
    by (simp_all add: restart_word_def reg_defs)
  moreover obtain es where es: "hist b1 = es @ hist b"
    using grows_hist [OF grows_steps [OF grows_reset_sequence], of T b] 1 by auto
  ultimately show ?thesis
    using 2 shows_readD [OF pll 1 es] shows_readD [OF dphy 1 es] shows_readD [OF adr 1 es]
    by auto
qed

text \<open>A controller that answers at once: acceptance follows the update bit last written.\<close>

fun update_bit :: "ev list \<Rightarrow> u32" where
  "update_bit [] = 0"
| "update_bit (Wr a v # h) =
     (if a = CM_SDCCTL then v AND CM_SDCCTL_UPDATE_SET else update_bit h)"
| "update_bit (Rd a v # h) = update_bit h"

definition ready_sdram :: bus where
  "ready_sdram = \<lparr>env = \<lambda>h a.
     if a = CM_SDCCTL then if update_bit h \<noteq> 0 then CM_SDCCTL_ACCPT_SET else 0
     else if a = SD_CS then 0
     else if a = APHY_CSR_GLBL_ADR_DLL_LOCK_STAT then 3 else 0xFFFFFFFF,
     hist = [], patience = 1\<rparr>"

definition at_update :: "u32 \<Rightarrow> bus \<Rightarrow> bool" where
  "at_update u b \<longleftrightarrow> env b = env ready_sdram \<and> patience b = 1 \<and> update_bit (hist b) = u"

definition ready_answer :: "u32 \<Rightarrow> u32 \<Rightarrow> u32" where
  "ready_answer u a =
     (if a = CM_SDCCTL then if u \<noteq> 0 then CM_SDCCTL_ACCPT_SET else 0
      else if a = SD_CS then 0
      else if a = APHY_CSR_GLBL_ADR_DLL_LOCK_STAT then 3 else 0xFFFFFFFF)"

lemma runs_rd_ready: "runs (at_update u) (rd a) (\<lambda>v b. v = ready_answer u a \<and> at_update u b)"
  by (simp add: runs_def at_update_def rd_run ready_sdram_def ready_answer_def)

lemma runs_wr_ready: "runs (at_update u) (wr a v)
    (\<lambda>_. at_update (if a = CM_SDCCTL then v AND CM_SDCCTL_UPDATE_SET else u))"
  by (simp add: runs_def at_update_def wr_run)

lemma runs_rmw_ready: "runs (at_update u) (rmw a f) (\<lambda>_. at_update
    (if a = CM_SDCCTL then f (ready_answer u a) AND CM_SDCCTL_UPDATE_SET else u))"
  unfolding rmw_def by (rule runs_bind_value [OF runs_rd_ready runs_wr_ready])

lemma runs_peek_ready: "runs (at_update u) (peek a) (\<lambda>_. at_update u)"
  unfolding peek_def by (rule runs_bind_value [OF runs_rd_ready]) (rule runs_ret)

lemma runs_await_ready:
  assumes "p (ready_answer u a)"
  shows "runs (at_update u) (await a p) (\<lambda>_. at_update u)"
proof (rule runsI)
  fix b
  assume b: "at_update u b"
  from runsD [OF runs_rd_ready b, of a] obtain b1 where
    "rd a b = (Inr (ready_answer u a), b1)" "at_update u b1" by blast
  with assms b show "\<exists>x b'. await a p b = (Inr x, b') \<and> at_update u b'"
    by (simp add: await_def poll_def at_update_def bind_def ret_run)
qed

lemma ready_Nil: "u = u' \<Longrightarrow> runs (at_update u) (steps []) (\<lambda>_. at_update u')"
  by (simp add: runs_ret)

lemma ready_wr: "u' = (if a = CM_SDCCTL then v AND CM_SDCCTL_UPDATE_SET else u) \<Longrightarrow>
    runs (at_update u') (steps ms) Q \<Longrightarrow> runs (at_update u) (steps (wr a v # ms)) Q"
  using runs_steps_Cons [OF runs_wr_ready] by blast

lemma ready_rmw:
  "u' = (if a = CM_SDCCTL then f (ready_answer u a) AND CM_SDCCTL_UPDATE_SET else u) \<Longrightarrow>
    runs (at_update u') (steps ms) Q \<Longrightarrow> runs (at_update u) (steps (rmw a f # ms)) Q"
  using runs_steps_Cons [OF runs_rmw_ready] by blast

lemma ready_peek: "u' = u \<Longrightarrow>
    runs (at_update u') (steps ms) Q \<Longrightarrow> runs (at_update u) (steps (peek a # ms)) Q"
  using runs_steps_Cons [OF runs_peek_ready] by blast

lemma ready_logf: "u' = u \<Longrightarrow>
    runs (at_update u') (steps ms) Q \<Longrightarrow> runs (at_update u) (steps (logf # ms)) Q"
  unfolding logf_def by (rule ready_peek)

lemma ready_await: "p (ready_answer u a) \<Longrightarrow>
    runs (at_update u) (steps ms) Q \<Longrightarrow> runs (at_update u) (steps (await a p # ms)) Q"
  by (rule runs_steps_Cons [OF runs_await_ready])

lemmas ready_steps = ready_wr ready_rmw ready_peek ready_logf ready_await

lemma runs_clkman_begin_ready:
  "runs (at_update u) clkman_update_begin (\<lambda>_. at_update CM_SDCCTL_UPDATE_SET)"
  unfolding clkman_update_begin_def
  by (rule ready_steps, simp add: ready_answer_def reg_defs)+ (rule ready_Nil, simp add: reg_defs)

lemma runs_clkman_end_ready: "runs (at_update u) clkman_update_end (\<lambda>_. at_update 0)"
  unfolding clkman_update_end_def
  by (rule ready_steps, simp add: ready_answer_def reg_defs)+ (rule ready_Nil, simp add: reg_defs)

lemma runs_phy_dll_ready: "runs (at_update 0) reset_phy_dll (\<lambda>_. at_update 0)"
  unfolding reset_phy_dll_def
  by (rule ready_steps, simp add: ready_answer_def reg_defs)+ (rule ready_Nil, simp)

lemma ready_clkman:
  "u' = CM_SDCCTL_UPDATE_SET \<Longrightarrow> runs (at_update u') (steps ms) Q \<Longrightarrow>
    runs (at_update u) (steps (clkman_update_begin # ms)) Q"
  "v = 0 \<Longrightarrow> runs (at_update v) (steps ms) Q \<Longrightarrow>
    runs (at_update u) (steps (clkman_update_end # ms)) Q"
  "u = 0 \<Longrightarrow> runs (at_update 0) (steps ms) Q \<Longrightarrow>
    runs (at_update u) (steps (reset_phy_dll # ms)) Q"
  using runs_steps_Cons [OF runs_clkman_begin_ready] runs_steps_Cons [OF runs_clkman_end_ready]
    runs_steps_Cons [OF runs_phy_dll_ready] by blast+

lemma runs_reset_ready: "runs (at_update 0) (reset_with_timing T) (\<lambda>_. at_update 0)"
  unfolding reset_with_timing_def reset_sequence_def
  by (rule ready_steps ready_clkman, simp add: ready_answer_def reg_defs)+ (rule ready_Nil, simp)

theorem sdram_restarts_locked_witness:
  "\<exists>es b'. reset_with_timing g_InitSdramParameters ready_sdram = (Inr (), b') \<and>
    hist b' = Wr SD_CS restart_word # es \<and> Rd APHY_CSR_GLBL_ADR_DLL_LOCK_STAT 3 \<in> set es"
proof -
  have "fst (reset_with_timing g_InitSdramParameters ready_sdram) = Inr ()"
    using runsD [OF runs_reset_ready, of ready_sdram g_InitSdramParameters]
    by (auto simp: at_update_def ready_sdram_def)
  then obtain b' where b': "reset_with_timing g_InitSdramParameters ready_sdram = (Inr (), b')"
    by (cases "reset_with_timing g_InitSdramParameters ready_sdram") auto
  with sdram_restarts_locked [OF b'] show ?thesis
    by (auto simp: ready_sdram_def)
qed

text \<open>\<open>selftest_at\<close> accepts only good memory, and all of it: whenever it completes, each of the
  4096 words of the region was read back with its pattern; and on memory that keeps what is
  written it does complete, with the pattern left in every word.\<close>

theorem selftest_at_exact:
  assumes "0x80000000 \<le> unat addr" and "unat addr + 0x4000 \<le> 2 ^ 32"
  shows "(\<forall>b b' i. selftest_at addr b = (Inr (), b') \<and> i < 0x1000 \<longrightarrow>
      Rd (reg_at addr i) (rt_pattern i) \<in> set (hist b')) \<and>
    (\<forall>m b. storage m b \<longrightarrow> (\<exists>m' b'. selftest_at addr b = (Inr (), b') \<and> storage m' b' \<and>
      (\<forall>i < 0x1000. m' (reg_at addr i) = rt_pattern i)))"
proof (intro conjI allI impI)
  fix b b' :: bus and i :: nat
  assume "selftest_at addr b = (Inr (), b') \<and> i < 0x1000"
  then show "Rd (reg_at addr i) (rt_pattern i) \<in> set (hist b')"
    using selftest_at_saw by blast
next
  fix m :: "u32 \<Rightarrow> u32" and b :: bus
  assume st: "storage m b"
  have plain: "\<not> protected (reg_at addr i)" if "i < 0x1000" for i
    using that assms by (simp add: protected_def word_le_nat_alt word_less_nat_alt unat_reg_at)
  have "written (rt_blocks addr) m (reg_at addr i) = rt_pattern i" if "i < 0x1000" for i
  proof -
    have "(reg_at addr i, rt_pattern i) \<in> set (rt_blocks addr)"
      using that by (auto simp: rt_blocks_eq)
    from written_distinct [OF rt_blocks_distinct this] plain [OF that] show ?thesis by simp
  qed
  with selftest_at_storage [OF st plain] show "\<exists>m' b'. selftest_at addr b = (Inr (), b') \<and>
      storage m' b' \<and> (\<forall>i < 0x1000. m' (reg_at addr i) = rt_pattern i)"
    by blast
qed

theorem selftest_at_exact_witness:
  "\<exists>b'. selftest_at RT_BASE \<lparr>env = store_env (\<lambda>_. 0), hist = [], patience = 0\<rparr> = (Inr (), b') \<and>
    Rd (reg_at RT_BASE 6) RT_PAT2 \<in> set (hist b')"
proof -
  have r: "0x80000000 \<le> unat RT_BASE" "unat RT_BASE + 0x4000 \<le> 2 ^ 32"
    by (simp_all add: RT_BASE_def)
  obtain b' where b': "selftest_at RT_BASE \<lparr>env = store_env (\<lambda>_. 0), hist = [], patience = 0\<rparr> =
      (Inr (), b')"
    using selftest_at_exact [OF r] storage_start [of "\<lambda>_. 0" 0] by blast
  moreover have "Rd (reg_at RT_BASE 6) (rt_pattern 6) \<in> set (hist b')"
    using selftest_at_exact [OF r] b' by simp
  ultimately show ?thesis by (auto simp: rt_pattern_def)
qed

text \<open>the ends of memory that the self test visits are swapped between the sizes: for 512 MB
  it never touches the upper half, while for 256 MB, when it completes, it has written and
  checked a region 511 MB into a 256 MB memory.\<close>

theorem selftest_regions_swapped:
  "(\<forall>b a v. hist b = [] \<and> Wr a v \<in> set (hist (snd (selftest kRamSize512MB b))) \<longrightarrow>
      unat a < unat RT_BASE + 256 * 2 ^ 20) \<and>
   (\<forall>b b' i. selftest kRamSize256MB b = (Inr (), b') \<and> i < 0x1000 \<longrightarrow>
      Rd (reg_at (RT_BASE + 511 * 2 ^ 20) i) (rt_pattern i) \<in> set (hist b'))"
proof (intro conjI allI impI)
  fix b :: bus and a v :: u32
  define W :: "u32 \<Rightarrow> u32 \<Rightarrow> bool" where "W = (\<lambda>a v. unat a < unat RT_BASE + 256 * 2 ^ 20)"
  have region: "keeps (\<lambda>_ _. True) W (selftest_at addr)"
    if "unat addr + 0x4000 \<le> unat RT_BASE + 256 * 2 ^ 20" for addr
  proof -
    have "list_all (\<lambda>(a, v). W a v) (rt_blocks addr)"
      using that by (auto simp: list_all_iff rt_blocks_eq W_def RT_BASE_def unat_reg_at)
    then show ?thesis
      unfolding selftest_at_def RT_ASSERT_def
      by (intro keeps_intros keeps_steps_all) (auto intro!: keeps_intros)
  qed
  have "keeps (\<lambda>_ _. True) W (selftest kRamSize512MB)"
    unfolding selftest_def by (intro keeps_intros region) (simp_all add: RT_BASE_def)
  moreover assume "hist b = [] \<and> Wr a v \<in> set (hist (snd (selftest kRamSize512MB b)))"
  ultimately have "W a v"
    by (auto elim!: keepsD simp: answers_def)
  then show "unat a < unat RT_BASE + 256 * 2 ^ 20" by (simp add: W_def)
next
  fix b b' :: bus and i :: nat
  assume "selftest kRamSize256MB b = (Inr (), b') \<and> i < 0x1000"
  then obtain b1 b2 where 1: "selftest_at (RT_BASE + 511 * 2 ^ 20) b1 = (Inr (), b2)"
    and 2: "logf b2 = (Inr (), b')" and i: "i < 0x1000"
    by (auto simp: selftest_def whenever_def bind_Inr ret_run)
  have "hist b' = Rd ST_CLO (env b2 (hist b2) ST_CLO) # hist b2"
    using 2 by (auto simp: logf_def peek_def bind_def rd_run ret_run)
  with selftest_at_saw [OF 1 i]
  show "Rd (reg_at (RT_BASE + 511 * 2 ^ 20) i) (rt_pattern i) \<in> set (hist b')" by simp
qed

theorem selftest_regions_swapped_witness:
  "\<exists>b'. selftest kRamSize256MB \<lparr>env = store_env (\<lambda>_. 0), hist = [], patience = 0\<rparr> = (Inr (), b') \<and>
    Rd (reg_at (RT_BASE + 511 * 2 ^ 20) 5) RT_PAT1 \<in> set (hist b')"
proof -
  let ?P = "\<lambda>b. \<exists>m. storage m b"
  have log: "runs ?P logf (\<lambda>_. ?P)"
    unfolding logf_def peek_def
    by (rule runs_bind [where R = "\<lambda>_. ?P"], use storage_rd in \<open>fastforce simp: runs_def\<close>)
      (rule runs_ret)
  have plain: "\<not> protected (reg_at addr i)"
    if "i < 0x1000" "0x80000000 \<le> unat addr" "unat addr + 0x4000 \<le> 2 ^ 32" for addr i
    using that by (simp add: protected_def word_le_nat_alt word_less_nat_alt unat_reg_at)
  have test: "runs ?P (selftest_at addr) (\<lambda>_. ?P)"
    if "0x80000000 \<le> unat addr" "unat addr + 0x4000 \<le> 2 ^ 32" for addr
    unfolding runs_def using selftest_at_storage plain that by blast
  have "runs ?P (selftest kRamSize256MB) (\<lambda>_. ?P)"
    unfolding selftest_def whenever_def
    apply (rule runs_steps_Cons [OF log])
    apply (rule runs_steps_Cons [OF test], simp_all add: RT_BASE_def del: steps.simps)[]
    apply (rule runs_steps_Cons [OF test], simp_all add: RT_BASE_def del: steps.simps)[]
    apply (rule runs_steps_Cons [OF test], simp_all add: RT_BASE_def del: steps.simps)[]
    apply (rule runs_steps_Cons [OF runs_ret], assumption)
    apply (rule runs_steps_Cons [OF log runs_steps_Nil])
    done
  from runsD [OF this, of "\<lparr>env = store_env (\<lambda>_. 0), hist = [], patience = 0\<rparr>"]
    storage_start [of "\<lambda>_. 0" 0] obtain b' where
    b': "selftest kRamSize256MB \<lparr>env = store_env (\<lambda>_. 0), hist = [], patience = 0\<rparr> = (Inr (), b')"
    by auto
  with selftest_regions_swapped
  have "Rd (reg_at (RT_BASE + 511 * 2 ^ 20) 5) (rt_pattern 5) \<in> set (hist b')" by simp
  with b' show ?thesis by (auto simp: rt_pattern_def)
qed

section \<open>Password discipline of the whole initialisation\<close>

lemma keeps_selftest_at:
  assumes "0x80000000 \<le> unat addr" and "unat addr + 0x4000 \<le> 2 ^ 32"
  shows "keeps cpr_answer cpr_write (selftest_at addr)"
proof -
  have "\<not> protected (reg_at addr i)" if "i < 0x1000" for i
    using that assms by (simp add: protected_def word_le_nat_alt word_less_nat_alt unat_reg_at)
  then have "list_all (\<lambda>(a, v). cpr_write a v) (rt_blocks addr)"
    by (auto simp: list_all_iff rt_blocks_eq cpr_write_def)
  then show ?thesis
    unfolding selftest_at_def RT_ASSERT_def
    by (intro keeps_intros keeps_steps_all) (auto intro!: keeps_intros)
qed

lemma keeps_selftest [keeps_intros]: "keeps cpr_answer cpr_write (selftest sz)"
  unfolding selftest_def by (intro keeps_intros keeps_selftest_at) (simp_all add: RT_BASE_def)

lemma keeps_sdram_init [keeps_intros]: "keeps cpr_answer cpr_write (sdram_init cpuid)"
  unfolding sdram_init_def
  by (intro keeps_intros) (simp_all add: reg_defs cpr_simps drop_bit_or)

end
