(* ===== verification/ArmControl.thy ===== *)
theory ArmControl
  imports Gpio Clocks PowerDomains Otp Sdram
begin

unbundle bit_operations_syntax

text \<open>
  Starting the ARM, \<^verbatim>\<open>src/firmware/drivers/BCM2708ArmControl.cc\<close>, the USB PHY,
  \<^verbatim>\<open>src/firmware/drivers/BCM2708UsbPhy.cc\<close>, and the order in which
  \<^verbatim>\<open>src/firmware/BCM2708PlatformStartup.cc\<close> starts the devices. The memory the ARM boots
  from is a map from bus addresses to bytes; the chainloader image linked into the firmware
  is a parameter.
\<close>

section \<open>The async bridge\<close>

definition g_BrespTab :: "u8 list" where
  "g_BrespTab =
     [0x10, 0x14, 0x10, 0x14, 0x10, 0x14, 0x10, 0x14, 0x10, 0x1C, 0x18, 0x1C, 0x18, 0x0,
      0x10, 0x14, 0x10, 0x1C, 0x10, 0x14, 0x10, 0x14, 0x10, 0x14, 0x10, 0x14, 0x10, 0x0,
      0x10, 0x14, 0x10, 0x1C, 0x18, 0x1C, 0x10, 0x14, 0x18, 0x1C, 0x10, 0x14, 0x10, 0x0,
      0x10, 0x14, 0x18, 0x14, 0x10, 0x14, 0x10, 0x14, 0x10, 0x14, 0x10, 0x14, 0x10, 0x0,
      0x10, 0x14, 0x18, 0x14, 0x18, 0x14, 0x10, 0x14, 0x10, 0x14, 0x10, 0x14, 0x18, 0x0]"

definition bridgeWriteBresp :: "u8 \<Rightarrow> unit act" where
  "bridgeWriteBresp bits = steps
     [rmw ARM_CONTROL0 (\<lambda>v. (v AND NOT (ARM_C0_BRESP1 OR ARM_C0_BRESP2)) OR ucast bits), udelay 30]"

definition bridgeCycleBresp :: "unit act" where
  "bridgeCycleBresp = steps (map bridgeWriteBresp g_BrespTab)"

definition bridgeStart :: "bool \<Rightarrow> unit act" where
  "bridgeStart cycleBrespBits = steps
     [whenever cycleBrespBits
        (steps [setReset arm_domain, bridgeCycleBresp, setReset arm_domain, udelay 300]),
      driverLog,
      rmw ARM_CONTROL1 (\<lambda>v. v AND NOT ARM_C1_REQSTOP),
      udelay 300,
      whenever (\<not> cycleBrespBits) (setReset arm_domain)]"

section \<open>The ARM clock\<close>

definition setupClock :: "unit act" where
  "setupClock = steps
     [driverLog,
      rmw A2W_XOSC_CTRL (\<lambda>v. v OR (A2W_PASSWORD OR A2W_XOSC_CTRL_PLLBEN_SET)),
      wr A2W_PLLB_FRAC (A2W_PASSWORD OR 0xeaaa8),
      wr A2W_PLLB_CTRL (A2W_PASSWORD OR 48 OR 0x1000),
      wr CM_PLLB (CM_PASSWORD OR CM_PLLB_DIGRST_SET OR CM_PLLB_ANARST_SET),
      wr CM_PLLB (CM_PASSWORD OR CM_PLLB_DIGRST_SET OR CM_PLLB_ANARST_SET OR CM_PLLB_HOLDARM_SET),
      wr A2W_PLLB_ANA3 (A2W_PASSWORD OR 0x100),
      wr A2W_PLLB_ANA2 (A2W_PASSWORD OR 0x0),
      wr A2W_PLLB_ANA1 (A2W_PASSWORD OR 0x140000),
      wr A2W_PLLB_ANA0 (A2W_PASSWORD OR 0x0),
      setDigValues PLLB,
      wr A2W_PLLB_ARM (A2W_PASSWORD OR 2),
      wr CM_PLLB (CM_PASSWORD OR CM_PLLB_DIGRST_SET OR CM_PLLB_ANARST_SET OR CM_PLLB_HOLDARM_SET
        OR CM_PLLB_LOADARM_SET),
      wr CM_PLLB (CM_PASSWORD OR CM_PLLB_DIGRST_SET OR CM_PLLB_ANARST_SET OR CM_PLLB_HOLDARM_SET),
      wr CM_PLLB CM_PASSWORD,
      wr CM_ARMCTL (CM_PASSWORD OR 4 OR CM_ARMCTL_ENAB_SET),
      peek A2W_PLLB_ANA_KAIP, driverLog, peek A2W_PLLB_ANA_MULTI, driverLog, driverLog]"

definition setupOtherClocks :: "unit act" where
  "setupOtherClocks = steps
     [rmw A2W_XOSC_CTRL (\<lambda>v. v OR (A2W_PASSWORD OR A2W_XOSC_CTRL_PLLAEN_SET)),
      rmw A2W_XOSC_CTRL (\<lambda>v. v OR (A2W_PASSWORD OR A2W_XOSC_CTRL_PLLDEN_SET))]"

section \<open>Loading the chainloader\<close>

definition ARM_MEMORY_BASE :: u32 where "ARM_MEMORY_BASE = 0xC0000000"

type_synonym bytes = "u32 \<Rightarrow> u8"

fun bzero :: "bytes \<Rightarrow> u32 \<Rightarrow> nat \<Rightarrow> bytes" where
  "bzero m addr 0 = m"
| "bzero m addr (Suc n) = bzero (m(addr := 0)) (addr + 1) n"

fun memcpy :: "bytes \<Rightarrow> u32 \<Rightarrow> u8 list \<Rightarrow> bytes" where
  "memcpy m addr [] = m"
| "memcpy m addr (x # xs) = memcpy (m(addr := x)) (addr + 1) xs"

definition le_bytes :: "u32 \<Rightarrow> u8 list" where
  "le_bytes w = [ucast w, ucast (drop_bit 8 w), ucast (drop_bit 16 w), ucast (drop_bit 24 w)]"

definition le_word :: "bytes \<Rightarrow> u32 \<Rightarrow> u32" where
  "le_word m a = ucast (m a) OR push_bit 8 (ucast (m (a + 1))) OR push_bit 16 (ucast (m (a + 2)))
     OR push_bit 24 (ucast (m (a + 3)))"

fun ram_size_code :: "RamSize \<Rightarrow> u32" where
  "ram_size_code kRamSize1GB = 0"
| "ram_size_code kRamSize512MB = 1"
| "ram_size_code kRamSize256MB = 2"
| "ram_size_code kRamSize128MB = 3"
| "ram_size_code kRamSize2GB = 4"
| "ram_size_code kRamSize4GB = 5"
| "ram_size_code kRamSizeUnknown = 6"

definition patchFirmwareData :: "RamSize \<Rightarrow> u32 \<Rightarrow> OtpInfo \<Rightarrow> bytes \<Rightarrow> bytes" where
  "patchFirmwareData g_RAMSize g_CPUID info m =
     (let firmware_data = ARM_MEMORY_BASE + 32;
          m = memcpy m firmware_data (le_bytes (ram_size_code g_RAMSize));
          m = memcpy m (firmware_data + 4) (le_bytes g_CPUID);
          m = memcpy m (firmware_data + 8) (le_bytes (serial info));
          m = memcpy m (firmware_data + 12) (le_bytes (revision info))
      in m)"

fun copy_failed :: "bytes \<Rightarrow> u32 \<Rightarrow> u8 list \<Rightarrow> bool" where
  "copy_failed m addr [] = False"
| "copy_failed m addr (x # xs) = (x \<noteq> m addr \<or> copy_failed m (addr + 1) xs)"

definition loadInitialCode :: "u8 list \<Rightarrow> RamSize \<Rightarrow> u32 \<Rightarrow> OtpInfo \<Rightarrow> bytes \<Rightarrow> bytes act" where
  "loadInitialCode code g_RAMSize g_CPUID info m =
     (let m' = memcpy m ARM_MEMORY_BASE code
      in bind driverLog (\<lambda>_.
         if copy_failed m' ARM_MEMORY_BASE code then panic ''copy failed''
         else ret (patchFirmwareData g_RAMSize g_CPUID info m')))"

section \<open>Address translation\<close>

definition mapBusToArm :: "u32 \<Rightarrow> u32 \<Rightarrow> unit act" where
  "mapBusToArm busAddr armAddr =
     (let index = drop_bit 24 armAddr;
          pte = drop_bit 21 busAddr
      in wr (reg_at ARM_TRANSLATE (unat index)) pte)"

definition map_all :: "unit act list" where
  "map_all =
     map (\<lambda>i. let offset = of_nat i * 0x1000000
              in mapBusToArm (ARM_MEMORY_BASE + offset) (0x0 + offset)) [0..<62] @
     [mapBusToArm VC4_PERIPH_BASE ARM_PERIPH_BASE]"

definition printregs :: "unit act" where
  "printregs = steps [peek ARM_CONTROL0, peek ARM_CONTROL1, driverLog]"

definition armControl_start ::
    "u8 list \<Rightarrow> RamSize \<Rightarrow> u32 \<Rightarrow> OtpInfo \<Rightarrow> bytes \<Rightarrow> (IODeviceState \<times> bytes) act" where
  "armControl_start code g_RAMSize g_CPUID info m =
     bind driverLog (\<lambda>_.
     bind (loadInitialCode code g_RAMSize g_CPUID info m) (\<lambda>m'.
     bind (steps
       (driverLog # map_all @
        [driverLog, peek ARM_ID, peek ARM_CONTROL0, driverLog,
         bind gpio_snapshot (\<lambda>_. ret ()),
         rmw ARM_CONTROL0 (\<lambda>v. v OR (0x008 OR ARM_C0_APROTPASS OR ARM_C0_APROTMSK
           OR ARM_C0_SIZ1G OR ARM_C0_FULLPERI)),
         rmw ARM_CONTROL1 (\<lambda>v. v OR ARM_C1_PERSON),
         rmw ARM_IRQ_ENBL3 (\<lambda>v. v OR ARM_IE_MAIL),
         printregs, setupClock,
         bind arm_start (\<lambda>_. ret ()),
         printregs, driverLog,
         bridgeStart True])) (\<lambda>_. ret (kIODeviceStarted, m'))))"

section \<open>The USB PHY\<close>

definition usb_wait :: "unit act" where
  "usb_wait = await USB_GMDIOCSR (\<lambda>v. v AND push_bit 31 1 = 0)"

definition write_bare :: "u32 \<Rightarrow> u16 \<Rightarrow> u32 \<Rightarrow> unit act" where
  "write_bare reg value type = steps
     [wr USB_GMDIOGEN 0xFFFFFFFF, usb_wait,
      wr USB_GMDIOGEN (type OR push_bit 18 (reg AND 0x1F) OR ucast value), usb_wait,
      wr USB_GMDIOGEN 0, usb_wait]"

definition usb_read :: "u32 \<Rightarrow> u16 act" where
  "usb_read reg = bind (write_bare reg 0 0x60020000) (\<lambda>_.
     bind (rd USB_MDIO_CSR) (\<lambda>v. ret (ucast (v AND 0xFFFFF))))"

definition usb_write :: "u32 \<Rightarrow> u16 \<Rightarrow> unit act" where
  "usb_write reg value = write_bare reg value 0x50020000"

fun usb_calibrated :: "nat \<Rightarrow> unit act" where
  "usb_calibrated 0 = (\<lambda>b. (Inl Hang, b))"
| "usb_calibrated (Suc n) = bind (usb_read 0x1B) (\<lambda>v.
     if v AND push_bit 7 1 \<noteq> 0 then usb_calibrated n else ret ())"

definition usbphy_start :: "IODeviceState act" where
  "usbphy_start = bind (steps
     [driverLog,
      rmw A2W_XOSC_CTRL (\<lambda>v. v OR (A2W_PASSWORD OR A2W_XOSC_CTRL_USBEN_SET)),
      await A2W_XOSC_CTRL (\<lambda>v. v AND A2W_XOSC_CTRL_USBOK_SET \<noteq> 0),
      rmw CM_TDCLKEN (\<lambda>v. v OR (CM_PASSWORD OR CM_TDCLKEN_USBDFT_SET)),
      setFunction 31 PinmuxOut,
      udelay 300, wr GP_CLR0 (push_bit 31 1), udelay 300, wr GP_SET0 (push_bit 31 1), udelay 300,
      driverLog,
      wr USB_GMDIOCSR (push_bit 18 1),
      usb_write 0x15 272, usb_write 0x19 0x4, usb_write 0x18 0x10, usb_write 0x1D 0x4,
      usb_write 0x17 5682,
      (\<lambda>b. usb_calibrated (patience b) b),
      rmw USB_GVBUSDRV (\<lambda>v. v AND NOT (push_bit 7 1)),
      usb_write 0x1E 0x8000,
      usb_write 0x1D 0x5000, usb_write 0x19 0xC004, usb_write 0x20 0x1C2F, usb_write 0x22 0x0100,
      usb_write 0x24 0x0010, usb_write 0x19 0x0004,
      rmw USB_GVBUSDRV (\<lambda>v. v AND 0xFFF0FFFF OR 0xD0000),
      udelay 300,
      wr (0x7E980400 + 3084) 0x20402700, udelay 300,
      wr 0x7E980400 1, udelay 300,
      wr 0x7E980404 0xBB80, udelay 300,
      driverLog]) (\<lambda>_. ret kIODeviceStarted)"

section \<open>Platform start\<close>

definition PEStartPlatform ::
    "u8 list \<Rightarrow> RamSize \<Rightarrow> u32 \<Rightarrow> OtpInfo \<Rightarrow> bytes \<Rightarrow> (IODeviceState \<times> bytes) act" where
  "PEStartPlatform code g_RAMSize g_CPUID info m =
     bind usb_stop (\<lambda>_. bind image_start (\<lambda>_. bind usb_start (\<lambda>_. bind usbphy_start (\<lambda>_.
       armControl_start code g_RAMSize g_CPUID info m))))"

section \<open>Memory\<close>

lemma unat_diff_Suc:
  fixes x a :: u32
  assumes "x \<noteq> a"
  shows "unat (x - a) = Suc (unat (x - (a + 1)))"
proof -
  have "x - a \<noteq> 0" using assms by simp
  then have "unat (x - a - 1) = unat (x - a) - 1" "0 < unat (x - a)"
    by (simp_all add: unat_minus_one unat_gt_0)
  then show ?thesis by (simp add: diff_diff_eq)
qed

lemma memcpy_apply:
  "length xs \<le> 2 ^ 32 \<Longrightarrow>
     memcpy m a xs x = (if unat (x - a) < length xs then xs ! unat (x - a) else m x)"
proof (induction xs arbitrary: m a)
  case Nil
  then show ?case by simp
next
  case (Cons y ys)
  show ?case
  proof (cases "x = a")
    case True
    have "a - (a + 1) = - 1" by simp
    then have "unat (a - (a + 1)) = 2 ^ 32 - 1"
      by (simp add: unsigned_minus_1_eq_mask mask_eq_exp_minus_1)
    with True Cons show ?thesis by simp
  next
    case False
    with Cons unat_diff_Suc [OF False] show ?thesis by simp
  qed
qed

lemma copy_ok: "length xs \<le> 2 ^ 32 \<Longrightarrow> \<not> copy_failed (memcpy m a xs) a xs"
proof -
  assume len: "length xs \<le> 2 ^ 32"
  have "\<forall>i < length ys. m' (a + of_nat i) = ys ! i \<Longrightarrow> \<not> copy_failed m' a ys" for m' ys a
  proof (induction ys arbitrary: a)
    case (Cons y ys)
    have "\<forall>i < length ys. m' (a + 1 + of_nat i) = ys ! i" and "m' a = y"
      using Cons.prems by (auto simp: All_less_Suc2 add.assoc)
    with Cons.IH show ?case by simp
  qed simp
  moreover have "memcpy m a xs (a + of_nat i) = xs ! i" if "i < length xs" for i
    using that len by (simp add: memcpy_apply unat_of_nat_small)
  ultimately show ?thesis by blast
qed

lemma minus_one_word: "unat (- 1 :: u32) = 0xFFFFFFFF"
  by (simp add: unsigned_minus_1_eq_mask mask_eq_exp_minus_1)

lemma length_le_bytes: "length (le_bytes w) = 4"
  by (simp add: le_bytes_def)

lemma le_word_eq:
  assumes "m a = ucast w" and "m (a + 1) = ucast (drop_bit 8 w)"
    and "m (a + 2) = ucast (drop_bit 16 w)" and "m (a + 3) = ucast (drop_bit 24 w)"
  shows "le_word m a = w"
proof (rule bit_word_eqI)
  fix n
  assume "n < LENGTH(32)"
  then have "n < 8 \<or> 8 \<le> n \<and> n < 16 \<or> 16 \<le> n \<and> n < 24 \<or> 24 \<le> n \<and> n < 32" by auto
  then show "bit (le_word m a) n = bit w n"
    unfolding le_word_def assms bit_or_iff bit_push_bit_iff bit_ucast_iff bit_drop_bit_eq comp_def
    by (elim disjE) auto
qed

section \<open>The address map\<close>

text \<open>
  What an ARM physical address reaches: the entry of its 16 MB slot gives the bus address of
  the slot in units of 2 MB.
\<close>

definition arm_to_bus :: "(u32 \<Rightarrow> u32) \<Rightarrow> u32 \<Rightarrow> u32" where
  "arm_to_bus m p =
     push_bit 21 (m (reg_at ARM_TRANSLATE (unat (drop_bit 24 p)))) + (p AND 0xFFFFFF)"

definition map_writes :: "(u32 \<times> u32) list" where
  "map_writes =
     map (\<lambda>i. (reg_at ARM_TRANSLATE i, of_nat (0x600 + 8 * i))) [0..<62] @
     [(reg_at ARM_TRANSLATE 63, 0x3f0)]"

lemma map_all_writes: "steps map_all = writes map_writes"
proof -
  have "mapBusToArm (ARM_MEMORY_BASE + of_nat i * 0x1000000) (0x0 + of_nat i * 0x1000000) =
      wr (reg_at ARM_TRANSLATE i) (of_nat (0x600 + 8 * i))" if "i < 62" for i
  proof -
    have o: "unat (of_nat i * 0x1000000 :: u32) = i * 0x1000000"
      using that by (simp add: unat_word_ariths unat_of_nat)
    have "unat (ARM_MEMORY_BASE + of_nat i * 0x1000000) = 0xC0000000 + i * 0x1000000"
      using that by (subst unat_add_small) (simp_all add: o ARM_MEMORY_BASE_def)
    then have "unat (drop_bit 21 (ARM_MEMORY_BASE + of_nat i * 0x1000000)) =
        (0xC0000000 + i * 0x1000000) div 0x200000"
      by (simp only: unat_drop_bit_div) simp
    moreover have "(0xC0000000 + i * 0x1000000) div 0x200000 = 0x600 + 8 * i" by simp
    moreover have "unat (of_nat (0x600 + 8 * i) :: u32) = 0x600 + 8 * i"
      using that by (intro unat_of_nat_small) simp
    ultimately have "drop_bit 21 (ARM_MEMORY_BASE + of_nat i * 0x1000000) = of_nat (0x600 + 8 * i)"
      by (simp add: word_unat_eq_iff)
    moreover have "unat (drop_bit 24 (0x0 + of_nat i * 0x1000000 :: u32)) = i"
      using o by (simp add: unat_drop_bit_div)
    ultimately show ?thesis by (simp add: mapBusToArm_def Let_def)
  qed
  then have "map (\<lambda>i. let offset = of_nat i * 0x1000000
        in mapBusToArm (ARM_MEMORY_BASE + offset) (0x0 + offset)) [0..<62] =
      map (\<lambda>i. wr (reg_at ARM_TRANSLATE i) (of_nat (0x600 + 8 * i))) [0..<62]"
    by (simp add: Let_def)
  moreover have "mapBusToArm VC4_PERIPH_BASE ARM_PERIPH_BASE = wr (reg_at ARM_TRANSLATE 63) 0x3f0"
    by (simp add: mapBusToArm_def Let_def reg_defs)
  ultimately have "map_all = map (\<lambda>(a, v). wr a v) map_writes"
    unfolding map_all_def map_writes_def by simp
  then show ?thesis by (simp add: writes_def)
qed

lemma map_slot_unat: "i < 64 \<Longrightarrow> unat (reg_at ARM_TRANSLATE i) = unat ARM_TRANSLATE + 4 * i"
  by (rule unat_reg_at) (simp add: reg_defs)

lemma map_slot_plain: "i < 64 \<Longrightarrow> \<not> protected (reg_at ARM_TRANSLATE i)"
  by (simp add: protected_def word_le_nat_alt word_less_nat_alt map_slot_unat) (simp add: reg_defs)

lemma map_writes_plain: "list_all (\<lambda>(a, v). cpr_write a v) map_writes"
  by (auto simp: map_writes_def list_all_iff cpr_write_def map_slot_plain)

lemma map_writes_distinct: "distinct (map fst map_writes)"
  by (auto simp: map_writes_def distinct_map comp_def inj_on_def reg_at_inj)

lemma map_written:
  assumes "i < 62"
  shows "written map_writes m (reg_at ARM_TRANSLATE i) = of_nat (0x600 + 8 * i)"
    and "written map_writes m (reg_at ARM_TRANSLATE 63) = 0x3f0"
proof -
  have "(reg_at ARM_TRANSLATE i, of_nat (0x600 + 8 * i)) \<in> set map_writes"
    "(reg_at ARM_TRANSLATE 63, 0x3f0) \<in> set map_writes"
    using assms by (auto simp: map_writes_def)
  from this [THEN written_distinct [OF map_writes_distinct]] assms
  show "written map_writes m (reg_at ARM_TRANSLATE i) = of_nat (0x600 + 8 * i)"
    "written map_writes m (reg_at ARM_TRANSLATE 63) = 0x3f0"
    by (simp_all add: map_slot_plain)
qed

lemma low24: "unat (p AND 0xFFFFFF :: u32) = unat p mod 2 ^ 24"
proof -
  have "p AND 0xFFFFFF = take_bit 24 p"
    by (simp add: take_bit_eq_mask mask_eq_exp_minus_1)
  then show ?thesis by (simp add: unsigned_take_bit_eq take_bit_eq_mod unat_mod)
qed

lemma runs_map_all:
  "storage m b \<Longrightarrow> \<exists>b'. steps map_all b = (Inr (), b') \<and> storage (written map_writes m) b'"
  unfolding map_all_writes by (rule storage_writes [OF _ map_writes_plain])

lemma arm_bus_ram:
  assumes that: "unat p < 992 * 2 ^ 20"
  shows "arm_to_bus (written map_writes m) p = ARM_MEMORY_BASE + p"
proof -
  define i where "i = unat p div 2 ^ 24"
  have i: "i < 62" "unat (drop_bit 24 p) = i"
    using that by (simp_all add: i_def unat_drop_bit_div)
  have n: "unat (of_nat (0x600 + 8 * i) :: u32) = 0x600 + 8 * i"
    using i by (intro unat_of_nat_small) simp
  have "unat (push_bit 21 (of_nat (0x600 + 8 * i) :: u32)) = (0x600 + 8 * i) * 2 ^ 21"
    using i n by (subst unat_push_bit_small) (simp_all only: n, simp)
  moreover have "unat p mod 2 ^ 24 + i * 2 ^ 24 = unat p"
    by (simp add: i_def)
  ultimately have "unat (push_bit 21 (of_nat (0x600 + 8 * i)) + (p AND 0xFFFFFF)) =
      0xC0000000 + unat p"
    using that by (subst unat_add_small) (simp_all add: low24)
  moreover have "unat (ARM_MEMORY_BASE + p) = 0xC0000000 + unat p"
    using that by (subst unat_add_small) (simp_all add: ARM_MEMORY_BASE_def)
  ultimately show ?thesis
    unfolding arm_to_bus_def i(2) map_written(1) [OF i(1)] by (simp only: word_unat_eq_iff)
qed

lemma arm_bus_io:
  assumes that: "ARM_PERIPH_BASE \<le> p" "p < ARM_PERIPH_BASE + 0x1000000"
  shows "arm_to_bus (written map_writes m) p = VC4_PERIPH_BASE + (p - ARM_PERIPH_BASE)"
proof -
  have p: "0x3F000000 \<le> unat p" "unat p < 0x40000000"
    using that by (simp_all add: word_le_nat_alt word_less_nat_alt reg_defs)
  then have "unat p div 2 ^ 24 = 63" by simp
  then have "unat (drop_bit 24 p) = 63" by (simp add: unat_drop_bit_div)
  moreover have "unat p mod 2 ^ 24 = unat p - 0x3F000000"
    using p by (simp add: mod_nat_eqI)
  then have "p AND 0xFFFFFF = p - ARM_PERIPH_BASE"
    using that by (simp add: word_unat_eq_iff low24 unat_sub reg_defs)
  ultimately show ?thesis
    using map_written(2) [of 0 m] by (simp add: arm_to_bus_def reg_defs)
qed

section \<open>Password discipline\<close>

lemma keeps_bridgeCycleBresp: "keeps cpr_answer cpr_write bridgeCycleBresp"
proof -
  have "keeps cpr_answer cpr_write (bridgeWriteBresp x)" for x
    unfolding bridgeWriteBresp_def by (intro keeps_intros) (simp add: reg_defs cpr_simps)
  then show ?thesis
    unfolding bridgeCycleBresp_def by (intro keeps_steps_all) auto
qed

lemma keeps_bridgeStart [keeps_intros]: "keeps cpr_answer cpr_write (bridgeStart c)"
  unfolding bridgeStart_def
  by (intro keeps_intros keeps_setReset keeps_bridgeCycleBresp) (simp_all add: reg_defs cpr_simps)

lemma keeps_setupClock [keeps_intros]: "keeps cpr_answer cpr_write setupClock"
  unfolding setupClock_def
  by (intro keeps_intros) (simp_all add: reg_defs cpr_simps drop_bit_or)

lemma keeps_loadInitialCode [keeps_intros]:
  "keeps ok W (loadInitialCode code sz cpuid info m)"
  unfolding loadInitialCode_def Let_def by (intro keeps_intros)

lemma keeps_map_all: "keeps cpr_answer cpr_write (steps map_all)"
  unfolding map_all_writes by (intro keeps_writes map_writes_plain)

lemma keeps_read_pins: "keeps ok W (read_pins bank ps)"
  by (induction ps) (auto intro!: keeps_bind keeps_rd keeps_ret)

lemma keeps_read_banks: "keeps ok W (read_banks bs)"
  by (induction bs) (auto intro!: keeps_bind keeps_read_pins keeps_ret)

lemma keeps_gpio_snapshot [keeps_intros]: "keeps ok W gpio_snapshot"
  unfolding gpio_snapshot_def getBank_def getAllFunctions_def
  by (intro keeps_bind keeps_rd keeps_ret keeps_read_banks)

lemma steps_append_keeps:
  "keeps ok W (steps xs) \<Longrightarrow> keeps ok W (steps ys) \<Longrightarrow> keeps ok W (steps (xs @ ys))"
  by (simp add: steps_append keeps_bind)

lemma keeps_armControl_start [keeps_intros]:
  "keeps cpr_answer cpr_write (armControl_start code sz cpuid info m)"
  unfolding armControl_start_def printregs_def append_Cons [symmetric]
  by (rule keeps_bind [OF keeps_driverLog], rule keeps_bind [OF keeps_loadInitialCode],
      rule keeps_bind, simp only: append_Cons, rule keeps_steps_Cons [OF keeps_driverLog],
      rule steps_append_keeps [OF keeps_map_all], intro keeps_intros)
    (simp_all add: reg_defs cpr_simps keeps_ret)

lemma keeps_setFunction: "keeps cpr_answer cpr_write (setFunction p f)"
proof -
  have "unat p < 256"
    using unsigned_less [of p] by simp
  then have "\<not> protected (reg_at GP_FSEL0 (unat p div 10))"
    using gpio_unprotected [of "unat p div 10"] by simp
  then show ?thesis
    unfolding setFunction_put_field by (intro keeps_intros) (simp add: cpr_write_def)
qed

lemma keeps_write_bare: "keeps cpr_answer cpr_write (write_bare r v t)"
  unfolding write_bare_def usb_wait_def by (intro keeps_intros) (simp_all add: reg_defs cpr_simps)

lemma keeps_usb_write: "keeps cpr_answer cpr_write (usb_write r v)"
  unfolding usb_write_def by (rule keeps_write_bare)

lemma keeps_usb_calibrated: "keeps cpr_answer cpr_write (usb_calibrated n)"
proof (induction n)
  case 0
  then show ?case by (simp add: keeps_def)
next
  case (Suc n)
  then show ?case
    unfolding usb_calibrated.simps usb_read_def
    by (intro keeps_intros keeps_write_bare)
qed

lemma keeps_usb_calibrated_patient:
  "keeps cpr_answer cpr_write (\<lambda>b. usb_calibrated (patience b) b)"
  using keeps_usb_calibrated unfolding keeps_def by blast

lemma keeps_usbphy_start [keeps_intros]: "keeps cpr_answer cpr_write usbphy_start"
  unfolding usbphy_start_def
  by (intro keeps_intros keeps_setFunction keeps_usb_write keeps_usb_calibrated_patient)
    (simp_all add: reg_defs cpr_simps drop_bit_or)

lemma keeps_PEStartPlatform [keeps_intros]:
  "keeps cpr_answer cpr_write (PEStartPlatform code sz cpuid info m)"
  unfolding PEStartPlatform_def by (intro keeps_intros)

section \<open>Properties\<close>

text \<open>C19: after the mapping loop of \<open>BCM2708ArmControl::start\<close>, on a translation table that holds
  what is written, the ARM's first 992 MB reach the memory at bus address 0xC0000000 in order,
  and the 16 MB at 0x3F000000 reach the VideoCore peripherals.\<close>

theorem arm_address_map:
  assumes "storage m b"
  shows "\<exists>m' b'. steps map_all b = (Inr (), b') \<and> storage m' b' \<and>
    (\<forall>p. unat p < 992 * 2 ^ 20 \<longrightarrow> arm_to_bus m' p = ARM_MEMORY_BASE + p) \<and>
    (\<forall>p. ARM_PERIPH_BASE \<le> p \<and> p < ARM_PERIPH_BASE + 0x1000000 \<longrightarrow>
      arm_to_bus m' p = VC4_PERIPH_BASE + (p - ARM_PERIPH_BASE))"
proof -
  obtain b' where b': "steps map_all b = (Inr (), b')" "storage (written map_writes m) b'"
    using runs_map_all [OF assms] by blast
  show ?thesis
  proof (intro exI conjI allI impI)
    show "steps map_all b = (Inr (), b')" "storage (written map_writes m) b'"
      by (fact b')+
  qed (simp_all only: arm_bus_ram arm_bus_io)
qed

theorem arm_address_map_witness:
  "\<exists>m' b'. steps map_all \<lparr>env = store_env (\<lambda>_. 0), hist = [], patience = 0\<rparr> = (Inr (), b') \<and>
    storage m' b' \<and> arm_to_bus m' 0x3F201000 = 0x7E201000 \<and> arm_to_bus m' 0x8000 = 0xC0008000"
proof -
  obtain m' b' where "steps map_all \<lparr>env = store_env (\<lambda>_. 0), hist = [], patience = 0\<rparr> = (Inr (), b')"
    "storage m' b'" and ram: "\<forall>p. unat p < 992 * 2 ^ 20 \<longrightarrow> arm_to_bus m' p = ARM_MEMORY_BASE + p"
    and io: "\<forall>p. ARM_PERIPH_BASE \<le> p \<and> p < ARM_PERIPH_BASE + 0x1000000 \<longrightarrow>
      arm_to_bus m' p = VC4_PERIPH_BASE + (p - ARM_PERIPH_BASE)"
    using arm_address_map [OF storage_start] by blast
  moreover have "arm_to_bus m' 0x3F201000 = 0x7E201000"
    using io [rule_format, of "0x3F201000"] by (simp add: reg_defs)
  moreover have "arm_to_bus m' 0x8000 = 0xC0008000"
    using ram [rule_format, of "0x8000"] by (simp add: ARM_MEMORY_BASE_def)
  ultimately show ?thesis by blast
qed

text \<open>The four words patched into the image, one behind the other.\<close>

lemma patched_at:
  "patchFirmwareData sz cpuid info m x =
    (if unat (x - (ARM_MEMORY_BASE + 44)) < 4 then le_bytes (revision info) ! unat (x - (ARM_MEMORY_BASE + 44))
     else if unat (x - (ARM_MEMORY_BASE + 40)) < 4 then le_bytes (serial info) ! unat (x - (ARM_MEMORY_BASE + 40))
     else if unat (x - (ARM_MEMORY_BASE + 36)) < 4 then le_bytes cpuid ! unat (x - (ARM_MEMORY_BASE + 36))
     else if unat (x - (ARM_MEMORY_BASE + 32)) < 4 then le_bytes (ram_size_code sz) ! unat (x - (ARM_MEMORY_BASE + 32))
     else m x)"
proof -
  have apply4: "memcpy k a (le_bytes w) x = (if unat (x - a) < 4 then le_bytes w ! unat (x - a) else k x)" for k a w x
    using memcpy_apply [of "le_bytes w" k a x] by (simp add: length_le_bytes)
  show ?thesis
    unfolding patchFirmwareData_def Let_def apply4 by (simp add: add.assoc)
qed

lemma patched_words:
  "le_word (patchFirmwareData sz cpuid info m) (ARM_MEMORY_BASE + 32) = ram_size_code sz"
  "le_word (patchFirmwareData sz cpuid info m) (ARM_MEMORY_BASE + 36) = cpuid"
  "le_word (patchFirmwareData sz cpuid info m) (ARM_MEMORY_BASE + 40) = serial info"
  "le_word (patchFirmwareData sz cpuid info m) (ARM_MEMORY_BASE + 44) = revision info"
  by (rule le_word_eq; simp add: patched_at le_bytes_def add.assoc minus_one_word)+

lemma far_from_word:
  assumes "i < 2 ^ 29" and "k < 2 ^ 29" and "\<not> (k \<le> i \<and> i < k + 4)"
  shows "\<not> unat (of_nat i - (of_nat k :: u32)) < 4"
proof -
  have u: "unat (of_nat i :: u32) = i" "unat (of_nat k :: u32) = k"
    using assms by (simp_all add: unat_of_nat_small)
  show ?thesis
  proof (cases "k \<le> i")
    case True
    then have "unat (of_nat i - (of_nat k :: u32)) = i - k"
      using u by (simp add: unat_sub word_le_nat_alt)
    with True assms(3) show ?thesis by simp
  next
    case False
    then have "unat (of_nat i - (of_nat k :: u32)) = 2 ^ 32 + i - k"
      using u by (subst unat_sub_if_size) (auto simp: word_size)
    with assms show ?thesis by simp
  qed
qed

lemma patched_elsewhere:
  assumes "i < 2 ^ 29" "i \<notin> {32..<48}"
  shows "patchFirmwareData sz cpuid info m (ARM_MEMORY_BASE + of_nat i) = m (ARM_MEMORY_BASE + of_nat i)"
proof -
  have "\<not> unat (of_nat i - (of_nat k :: u32)) < 4" if "k \<in> {32, 36, 40, 44}" for k
    by (rule far_from_word) (use assms that in auto)
  from this [of 32] this [of 36] this [of 40] this [of 44] show ?thesis
    by (simp add: patched_at)
qed

text \<open>C26: \<open>loadInitialCode\<close> always succeeds: the copy verifies, memory then holds the chainloader
  image except for the 16 bytes at offset 32, and those hold, in the ARM's byte order, the RAM
  size, the CPU id, the serial number and the board revision.\<close>

theorem loadInitialCode_image:
  assumes "length code \<le> 2 ^ 29"
  shows "\<exists>m' b'. loadInitialCode code sz cpuid info m b = (Inr m', b') \<and>
    (\<forall>i < length code. i \<notin> {32..<48} \<longrightarrow> m' (ARM_MEMORY_BASE + of_nat i) = code ! i) \<and>
    le_word m' (ARM_MEMORY_BASE + 32) = ram_size_code sz \<and>
    le_word m' (ARM_MEMORY_BASE + 36) = cpuid \<and>
    le_word m' (ARM_MEMORY_BASE + 40) = serial info \<and>
    le_word m' (ARM_MEMORY_BASE + 44) = revision info"
proof -
  define m1 where "m1 = memcpy m ARM_MEMORY_BASE code"
  have len: "length code \<le> 2 ^ 32" using assms by simp
  have run: "loadInitialCode code sz cpuid info m b = (Inr (patchFirmwareData sz cpuid info m1),
      b\<lparr>hist := Rd ST_CLO (env b (hist b) ST_CLO) # hist b\<rparr>)"
    using copy_ok [OF len]
    by (simp add: loadInitialCode_def Let_def m1_def driverLog_def peek_def bind_def rd_run ret_run)
  have "patchFirmwareData sz cpuid info m1 (ARM_MEMORY_BASE + of_nat i) = code ! i"
    if i: "i < length code" "i \<notin> {32..<48}" for i
  proof -
    have "i < 2 ^ 29" "unat (of_nat i :: u32) = i" using i(1) assms by (simp_all add: unat_of_nat_small)
    then show ?thesis
      using i len by (simp add: patched_elsewhere m1_def memcpy_apply)
  qed
  then show ?thesis
    using run by (simp add: patched_words)
qed

theorem loadInitialCode_image_witness:
  "\<exists>m' b'. loadInitialCode (replicate 64 7) kRamSize512MB 5
      \<lparr>board_type = 0, rev_no = 0, proc = 0, serial = 9, revision = 0xa02082\<rparr> (\<lambda>_. 0)
      \<lparr>env = \<lambda>_ _. 0, hist = [], patience = 0\<rparr> = (Inr m', b') \<and>
    m' (ARM_MEMORY_BASE + 63) = 7 \<and> le_word m' (ARM_MEMORY_BASE + 44) = 0xa02082"
proof -
  obtain m' b' where "loadInitialCode (replicate 64 7) kRamSize512MB 5
      \<lparr>board_type = 0, rev_no = 0, proc = 0, serial = 9, revision = 0xa02082\<rparr> (\<lambda>_. 0)
      \<lparr>env = \<lambda>_ _. 0, hist = [], patience = 0\<rparr> = (Inr m', b')"
    and code: "\<forall>i < 64. i \<notin> {32..<48} \<longrightarrow> m' (ARM_MEMORY_BASE + of_nat i) = replicate 64 7 ! i"
    and "le_word m' (ARM_MEMORY_BASE + 44) = 0xa02082"
    using loadInitialCode_image [of "replicate 64 7" kRamSize512MB 5
      "\<lparr>board_type = 0, rev_no = 0, proc = 0, serial = 9, revision = 0xa02082\<rparr>" "\<lambda>_. 0"
      "\<lparr>env = \<lambda>_ _. 0, hist = [], patience = 0\<rparr>"] by auto
  moreover have "m' (ARM_MEMORY_BASE + 63) = 7"
    using code [rule_format, of 63] by simp
  ultimately show ?thesis by blast
qed

end
