(* ===== verification/Boot.thy ===== *)
theory Boot
  imports Console Monitor ArmControl
begin

unbundle bit_operations_syntax

text \<open>
  The VPU's first stage: the set-up routines of \<^verbatim>\<open>src/firmware/utils.cc\<close>, the boot
  sequence \<^verbatim>\<open>_main\<close> of \<^verbatim>\<open>src/firmware/romstage.c\<close>, and the small routines of
  \<^verbatim>\<open>src/firmware/startelf.c\<close>. The C++ constructors that \<^verbatim>\<open>__cxx_init\<close> runs only fill
  static objects; the text that is printed is left out, the registers read for it are not.
\<close>

section \<open>Clocks and pins (utils.cc)\<close>

definition set_gp_mode :: "u32 \<Rightarrow> u32 \<Rightarrow> unit act" where
  "set_gp_mode mash source = steps
     [peek ST_CLO,
      rmw CM_GP0CTL (\<lambda>v. CM_PASSWORD OR (v AND CM_GP0CTL_ENAB_CLR)),
      await CM_GP0CTL (\<lambda>v. v AND CM_GP0CTL_BUSY_SET = 0),
      wr CM_GP0CTL (CM_PASSWORD OR push_bit 9 mash OR source),
      wr CM_GP0CTL (CM_PASSWORD OR push_bit 9 mash OR source OR CM_GP0CTL_ENAB_SET),
      peek ST_CLO]"

definition report_sdram_usage :: "(u32 \<times> u32) act" where
  "report_sdram_usage = bind (rd SD_IDL) (\<lambda>idle. bind (rd SD_CYC) (\<lambda>total.
     bind (wr SD_IDL 0) (\<lambda>_. ret (idle, total))))"

text \<open>The pins of the board type: the LAN reset and the ethernet clock, 0 for none.\<close>

definition eth_pins :: "int \<Rightarrow> nat \<times> nat" where
  "eth_pins type =
     (if type = 4 then (31, 44) else if type = 8 then (29, 42) else if type = 0xd then (30, 42)
      else (0, 0))"

definition setup_eth_clock :: "OtpInfo \<Rightarrow> unit act" where
  "setup_eth_clock info =
     (let (lan_run, ethclk_pin) = eth_pins (board_type info)
      in steps
        [divider_configure pllc_per 2,
         whenever (ethclk_pin > 0) (steps
           [wr CM_GP1DIV (CM_PASSWORD OR 0x28000),
            wr CM_GP1CTL (CM_PASSWORD OR push_bit 9 2 OR 5),
            wr CM_GP1CTL (CM_PASSWORD OR push_bit 9 2 OR 5 OR push_bit 4 1),
            setFunction (of_nat ethclk_pin) Pinmux_ALT0]),
         whenever (lan_run > 0) (steps
           [setFunction (of_nat lan_run) PinmuxOut, clearPin (of_nat lan_run), udelay 1000,
            setPin (of_nat lan_run)])])"

definition get_raw_temp :: "u32 act" where
  "get_raw_temp = rd TS_TSENSSTAT"

definition setup_tsens :: "unit act" where
  "setup_tsens = steps
     [rmw CM_TSENSCTL (\<lambda>v. (v AND CM_TSENSCTL_ENAB_CLR) OR CM_PASSWORD),
      await CM_TSENSCTL (\<lambda>v. v AND CM_TSENSCTL_BUSY_SET = 0),
      wr CM_TSENSCTL CM_PASSWORD,
      wr CM_TSENSDIV (CM_PASSWORD OR 0x5000),
      wr CM_TSENSCTL (CM_PASSWORD OR 1),
      wr CM_TSENSCTL (CM_PASSWORD OR CM_TSENSCTL_ENAB_SET OR 1),
      wr TS_TSENSCTL 0x4380004,
      rmw TS_TSENSCTL (\<lambda>v. v OR 2)]"

text \<open>The pages the scan leaves out, and the identification words it reads and prints.\<close>

definition scan_skips :: "u32 \<Rightarrow> bool" where
  "scan_skips i \<longleftrightarrow> i AND 0xfffff = 0x7e981 \<or> i = 0x7e9c \<or> i = 0x7e9d \<or> i = 0x7e9e \<or> i = 0x7e9f \<or>
     i AND 0xfff00 = 0x7ea00 \<or> i AND 0xfff0 = 0x7eb0 \<or> i AND 0xfff00 = 0x7ec00 \<or>
     i AND 0xfff0 = 0x7ef0 \<or> i AND 0xff000 = 0x7f000"

fun scan_pages :: "nat list \<Rightarrow> (u32 \<times> string) list act" where
  "scan_pages [] = ret []"
| "scan_pages (k # ks) =
     (let i = of_nat k
      in if scan_skips i then scan_pages ks
         else bind (rd (push_bit 12 i OR 0xffc)) (\<lambda>ident. bind (scan_pages ks) (\<lambda>rest.
           ret (if ident = 0 then rest
             else (i, concat (map safe_putchar (rev (fragment_bytes ident)))) # rest))))"

definition peripheral_scan :: "(u32 \<times> string) list act" where
  "peripheral_scan = scan_pages [0x7e000..<0x7ffff]"

section \<open>Routines of startelf.c\<close>

definition gpclk0_test :: "unit act" where
  "gpclk0_test = steps
     [rmw GP_FSEL0 (\<lambda>t. (t AND NOT (push_bit 12 7)) OR push_bit 12 4),
      wr CM_GP0DIV (CM_PASSWORD OR 0x1e000),
      wr CM_GP0CTL (CM_PASSWORD OR 5),
      wr CM_GP0CTL (CM_PASSWORD OR 5 OR push_bit 4 1)]"

definition poke_the_dog :: "unit act" where
  "poke_the_dog = steps
     [wr PM_WDOG (PM_PASSWORD OR (push_bit 16 15 AND PM_WDOG_MASK)),
      rmw PM_RSTC (\<lambda>t. PM_PASSWORD OR ((t AND PM_RSTC_WRCFG_CLR) OR 0x20))]"

text \<open>
  The loop of \<^verbatim>\<open>fill_range_numbered\<close> stores each index in the word it lies in. A range that reaches
  the last word of the address space may wrap the index around and never end; a loop that ends makes at
  most \<open>count div 4 + 1\<close> rounds, so that running out of the fuel is a hang.
\<close>

fun fill_loop :: "nat \<Rightarrow> u32 \<Rightarrow> u32 \<Rightarrow> unit act" where
  "fill_loop 0 i limit = (\<lambda>b. (Inl Hang, b))"
| "fill_loop (Suc n) i limit =
     (if i < limit then bind (wr (4 * (i div 4)) i) (\<lambda>_. fill_loop n (i + 4) limit) else ret ())"

definition fill_range_numbered :: "u32 \<Rightarrow> u32 \<Rightarrow> unit act" where
  "fill_range_numbered addr count = fill_loop (unat count div 4 + 2) addr (addr + count)"

lemma fill_loop_ends:
  "unat limit \<le> 2 ^ 32 - 4 \<Longrightarrow> unat limit \<le> unat i + 4 * n \<Longrightarrow> fst (fill_loop (Suc n) i limit b) = Inr ()"
proof (induction n arbitrary: i b)
  case 0
  then show ?case by (simp add: word_less_nat_alt ret_run)
next
  case (Suc n)
  show ?case
  proof (cases "i < limit")
    case True
    then have "unat (i + 4) = unat i + 4"
      using Suc.prems(1) by (subst unat_add_small) (simp_all add: word_less_nat_alt)
    with Suc True show ?thesis by (simp add: bind_def wr_run del: fill_loop.simps(2) add: fill_loop.simps(2) [of "Suc n"])
  qed (simp add: ret_run)
qed

lemma fill_range_numbered_ends:
  assumes "unat addr + unat count \<le> 2 ^ 32 - 4"
  shows "fst (fill_range_numbered addr count b) = Inr ()"
proof -
  have "unat (addr + count) = unat addr + unat count"
    using assms by (subst unat_add_small) simp_all
  then show ?thesis
    using assms fill_loop_ends [of "addr + count" addr "unat count div 4 + 1" b]
    by (simp add: fill_range_numbered_def del: fill_loop.simps)
qed

lemma fill_loop_endless:
  "2 ^ 32 - 4 + unat i mod 4 < unat limit \<Longrightarrow> fst (fill_loop n i limit b) = Inl Hang"
proof (induction n arbitrary: i b)
  case (Suc n)
  have "unat i \<le> 2 ^ 32 - 4 + unat i mod 4"
  proof -
    obtain q c where "unat i = 4 * q + c" "c < 4"
      by (rule that [of "unat i div 4" "unat i mod 4"]) simp_all
    moreover have "unat i < 2 ^ 32" using unsigned_less [of i, where ?'a = nat] by simp
    moreover from calculation have "q < 0x40000000" by simp
    ultimately show ?thesis by simp
  qed
  then have lt: "i < limit" using Suc.prems by (simp add: word_less_nat_alt)
  have "unat (i + 4) mod 4 = unat i mod 4"
    by (simp add: unat_word_ariths mod_mod_cancel)
  with Suc.prems Suc.IH [of "i + 4"] lt show ?case by (simp add: bind_def wr_run)
qed simp

section \<open>The boot sequence (romstage.c)\<close>

text \<open>
  What the firmware is built and started with: the cpu id, whether it was entered with a saved
  register state, the chainloader image, and the address of the vector table.
\<close>

record boot_args =
  cpuid :: u32
  has_pcb :: bool
  chainloader :: "u8 list"
  vector_addr :: u32

definition rom_main :: "boot_args \<Rightarrow> bytes \<Rightarrow> unit act" where
  "rom_main args m =
     bind parse_otp_into (\<lambda>otpInfo.
     bind (steps [set_pl011_funcs, pl011_uart_init 19200000 115200]) (\<lambda>_.
     bind pretty_print_otp (\<lambda>_.
     bind (steps [switch_vpu_to_pllc, peek CM_UARTCTL, peek CM_UARTDIV]) (\<lambda>_.
     bind (pllc_core0 19200000) (\<lambda>_.
     bind (whenever (has_pcb args) print_vpu_state) (\<lambda>_.
     bind (setup_irq_handlers (vector_addr args) (replicate 144 No_handler)) (\<lambda>_.
     bind (sdram_init (cpuid args)) (\<lambda>ram_size.
     bind (steps [setup_eth_clock otpInfo, setup_tsens]) (\<lambda>_.
     bind (rd ST_CLO) (\<lambda>now. bind (wr ST_C0 (now + 100 * 1000 * 1000)) (\<lambda>_.
     bind (PEStartPlatform (chainloader args) ram_size (cpuid args) otpInfo m) (\<lambda>_.
     bind monitor_start (\<lambda>_. panic ''main exiting!'')))))))))))))"

section \<open>Password discipline of the boot sequence\<close>

lemma keeps_stall: "keeps ok W stall"
  unfolding stall_def by (intro keeps_intros)

lemma keeps_wait_ready: "keeps ok W (wait_ready n)"
proof (induction n)
  case 0
  then show ?case by (simp add: keeps_def)
next
  case (Suc n)
  then show ?case unfolding wait_ready.simps by (intro keeps_intros keeps_stall)
qed

lemma keeps_wait_patient: "keeps ok W (\<lambda>b. wait_ready (patience b) b)"
  using keeps_wait_ready unfolding keeps_def by blast

lemma keeps_otp_read [keeps_intros]: "keeps cpr_answer cpr_write (otp_read a)"
  unfolding otp_read_def otp_read_internal_def otp_open_def otp_read_reg_def otp_close_def
  by (intro keeps_intros keeps_stall keeps_wait_patient) (simp_all add: reg_defs cpr_simps)

lemma keeps_parse_otp_into [keeps_intros]: "keeps cpr_answer cpr_write parse_otp_into"
  unfolding parse_otp_into_def Let_def by (intro keeps_intros)

lemma keeps_pretty_print_otp [keeps_intros]: "keeps cpr_answer cpr_write pretty_print_otp"
  unfolding pretty_print_otp_def by (intro keeps_intros)

lemma keeps_set_pl011_funcs [keeps_intros]: "keeps cpr_answer cpr_write set_pl011_funcs"
  unfolding set_pl011_funcs_def by (intro keeps_intros keeps_setFunction)

lemma keeps_pin:
  "keeps cpr_answer cpr_write (setPin p)" "keeps cpr_answer cpr_write (clearPin p)"
proof -
  have "unat p < 256"
    using unsigned_less [of p] by simp
  then have "\<not> protected (reg_at GP_SET0 (unat p div 32))" "\<not> protected (reg_at GP_CLR0 (unat p div 32))"
    by (simp_all add: protected_def word_le_nat_alt word_less_nat_alt unat_reg_at reg_defs)
  then show "keeps cpr_answer cpr_write (setPin p)" "keeps cpr_answer cpr_write (clearPin p)"
    unfolding setPin_def clearPin_def by (simp_all add: keeps_wr cpr_write_def)
qed

lemma keeps_setup_eth_clock [keeps_intros]: "keeps cpr_answer cpr_write (setup_eth_clock info)"
  unfolding setup_eth_clock_def Let_def split_def
  by (intro keeps_intros keeps_setFunction keeps_pin) (simp_all add: reg_defs cpr_simps)

lemma keeps_setup_tsens [keeps_intros]: "keeps cpr_answer cpr_write setup_tsens"
  unfolding setup_tsens_def
  by (intro keeps_intros) (simp_all add: reg_defs cpr_simps drop_bit_or drop_bit_and)

lemma keeps_set_interrupt: "i < 64 \<Longrightarrow> keeps cpr_answer cpr_write (set_interrupt i e c)"
  unfolding set_interrupt_put_field
  by (intro keeps_intros) (simp add: cpr_write_def irq_reg_plain)

lemma keeps_setup_irq_handlers [keeps_intros]:
  "keeps cpr_answer cpr_write (setup_irq_handlers v t)"
proof -
  have "keeps cpr_answer cpr_write (steps irq_setup_steps)"
    unfolding irq_setup_steps_def
    by (intro keeps_steps_all) (auto intro!: keeps_bind keeps_set_interrupt)
  then show ?thesis
    unfolding setup_irq_handlers_split
    by (intro keeps_intros) (simp_all add: reg_defs cpr_simps)
qed

lemma keeps_pllc_core0 [keeps_intros]: "keeps ok W (pllc_core0 x)"
  unfolding pllc_core0_def pllc_def pll_of_def compute_pll_freq_def udiv_def Let_def
  by (intro keeps_intros)

lemma keeps_print_vpu_state [keeps_intros]: "keeps ok W print_vpu_state"
  unfolding print_vpu_state_def by (intro keeps_intros)

lemma keeps_monitor_start [keeps_intros]: "keeps cpr_answer cpr_write monitor_start"
proof -
  have "keeps cpr_answer cpr_write (\<lambda>b. (Inl Hang, b) :: (halt + unit) \<times> bus)"
    by (simp add: keeps_def)
  then show ?thesis
    unfolding monitor_start_def by (intro keeps_intros) (simp_all add: reg_defs cpr_simps)
qed

lemma keeps_main [keeps_intros]: "keeps cpr_answer cpr_write (rom_main args m)"
  unfolding rom_main_def
  by (intro keeps_intros) (simp_all add: reg_defs cpr_simps)

text \<open>C6: Whatever the devices answer (protected registers with an empty top byte), every write
  that the first boot stage makes to the clock, PLL and power manager carries the password, on
  every path and also when the boot panics or hangs half way.\<close>
theorem boot_password_discipline:
  assumes "answers cpr_answer b" and "hist b = []"
  shows "writes_ok cpr_write (hist (snd (rom_main args m b)))"
  using keeps_main [of args m] assms by (auto simp: keeps_def)

theorem boot_password_discipline_witness:
  "writes_ok cpr_write (hist (snd (rom_main
     \<lparr>cpuid = 0x04000103, has_pcb = False, chainloader = replicate 64 0, vector_addr = 0x80002000\<rparr>
     (\<lambda>_. 0) \<lparr>env = \<lambda>h a. if protected a then 0xffffff else 0xffffffff, hist = [], patience = 1000\<rparr>)))"
  by (rule boot_password_discipline) (simp_all add: answers_def cpr_answer_def)

section \<open>What the peripheral scan reads\<close>

lemma masked_field:
  assumes "n + m \<le> 32" "k < 2 ^ 32"
  shows "(of_nat k :: u32) AND push_bit n (mask m) = of_nat (k mod 2 ^ (n + m) div 2 ^ n * 2 ^ n)"
proof (rule bit_word_eqI)
  fix j assume "j < LENGTH(32)"
  then have j: "j < 32" by simp
  have "k mod 2 ^ (n + m) div 2 ^ n * 2 ^ n = push_bit n (drop_bit n (take_bit (n + m) k))"
    by (simp only: push_bit_eq_mult drop_bit_eq_div take_bit_eq_mod)
  with j show "bit ((of_nat k :: u32) AND push_bit n (mask m)) j
      = bit (of_nat (k mod 2 ^ (n + m) div 2 ^ n * 2 ^ n) :: u32) j"
    by (auto simp: bit_simps)
qed

lemma upt_append_mid: "i \<le> j \<Longrightarrow> j \<le> k \<Longrightarrow> [i..<k] = [i..<j] @ [j..<k]"
  by (metis le_Suc_ex upt_add_eq_append)

lemma scan_skips_pages:
  assumes "0x7e000 \<le> k" "k < 0x7ffff"
  shows "scan_skips (of_nat k) \<longleftrightarrow>
     k = 0x7e981 \<or> k div 256 = 0x7ea \<or> k div 256 = 0x7ec \<or> 0x7f000 \<le> k"
proof -
  have k: "k < 2 ^ 32" using assms by simp
  have eq: "(of_nat a :: u32) = of_nat c \<longleftrightarrow> a = c" if "a < 2 ^ 32" "c < 2 ^ 32" for a c
    using that by (simp add: word_of_nat_eq_iff take_bit_nat_eq_self)
  have bound: "k mod p div q * q < 2 ^ 32" for p q
  proof -
    have "k mod p div q * q \<le> k" by (meson div_times_less_eq_dividend le_trans mod_less_eq_dividend)
    with k show ?thesis by simp
  qed
  have F: "(of_nat k :: u32) AND w = of_nat c \<longleftrightarrow> k mod 2 ^ (n + m) div 2 ^ n * 2 ^ n = c"
    if "w = push_bit n (mask m)" "n + m \<le> 32" "c < 2 ^ 32" for w n m c
    unfolding that(1) masked_field [OF that(2) k] using eq [OF bound that(3)] .
  have below: "k div 2 ^ 20 = 0" "k mod 2 ^ 20 = k"
    using assms by simp_all
  have high: "0xe00 \<le> k mod 2 ^ 16 div 2 ^ 4"
  proof -
    have "k div 2 ^ 16 = 7"
      using assms by (intro div_nat_eqI) simp_all
    then have "k mod 2 ^ 16 = k - 7 * 2 ^ 16"
      by (simp add: modulo_nat_def)
    then show ?thesis using assms by (simp add: div_le_mono [of "0xe000" _ 16, simplified])
  qed
  have single: "(of_nat k :: u32) \<noteq> of_nat c" if "c < 0x7e000" for c
    using eq [OF k, of c] that assms by simp
  have m1: "(of_nat k :: u32) AND 0xfffff = 0x7e981 \<longleftrightarrow> k = 0x7e981"
    using F [of "0xfffff" 0 20 "0x7e981"] below by (simp add: mask_eq_exp_minus_1)
  have m2: "(of_nat k :: u32) AND 0xfff00 = 0x7ea00 \<longleftrightarrow> k div 256 = 0x7ea"
    using F [of "0xfff00" 8 12 "0x7ea00"] below by (simp add: mask_eq_exp_minus_1)
  have m3: "(of_nat k :: u32) AND 0xfff00 = 0x7ec00 \<longleftrightarrow> k div 256 = 0x7ec"
    using F [of "0xfff00" 8 12 "0x7ec00"] below by (simp add: mask_eq_exp_minus_1)
  have m4: "(of_nat k :: u32) AND 0xff000 = 0x7f000 \<longleftrightarrow> k div 4096 = 0x7f"
    using F [of "0xff000" 12 8 "0x7f000"] below by (simp add: mask_eq_exp_minus_1)
  have m5: "(of_nat k :: u32) AND 0xfff0 \<noteq> 0x7eb0" "(of_nat k :: u32) AND 0xfff0 \<noteq> 0x7ef0"
    using F [of "0xfff0" 4 12 "0x7eb0"] F [of "0xfff0" 4 12 "0x7ef0"] high
    by (auto simp: mask_eq_exp_minus_1)
  have m6: "k div 4096 = 0x7f \<longleftrightarrow> 0x7f000 \<le> k"
    using assms by (auto simp: div_nat_eqI)
  show ?thesis
    using single [of "0x7e9c"] single [of "0x7e9d"] single [of "0x7e9e"] single [of "0x7e9f"]
    unfolding scan_skips_def m1 m2 m3 m4 m6 by (simp add: m5)
qed

fun ev_addr :: "ev \<Rightarrow> u32" where
  "ev_addr (Rd a v) = a"
| "ev_addr (Wr a v) = a"

lemma scan_pages_reads:
  "\<exists>ids b' es. scan_pages ks b = (Inr ids, b') \<and> hist b' = es @ hist b \<and>
     map ev_addr (rev es) = map (\<lambda>k. push_bit 12 (of_nat k) OR 0xffc) (filter (\<lambda>k. \<not> scan_skips (of_nat k)) ks)"
proof (induction ks arbitrary: b)
  case Nil
  show ?case by (simp add: ret_run)
next
  case (Cons k ks)
  show ?case
  proof (cases "scan_skips (of_nat k)")
    case True
    with Cons show ?thesis by (simp add: Let_def)
  next
    case False
    let ?a = "push_bit 12 (of_nat k) OR 0xffc :: u32"
    let ?b = "b\<lparr>hist := Rd ?a (env b (hist b) ?a) # hist b\<rparr>"
    obtain ids b' es where r: "scan_pages ks ?b = (Inr ids, b')" and h: "hist b' = es @ hist ?b"
      and m: "map ev_addr (rev es) = map (\<lambda>k. push_bit 12 (of_nat k) OR 0xffc) (filter (\<lambda>k. \<not> scan_skips (of_nat k)) ks)"
      using Cons.IH by blast
    show ?thesis
      using False r h m by (simp add: Let_def bind_def rd_run ret_run)
  qed
qed

lemma page_order: "(0x7e000::nat) \<le> 0x7f000" "(0x7f000::nat) \<le> 0x7ffff"
  by simp_all

text \<open>The peripheral scan reads the identification word of every page from 0x7E000 to 0x7EFFF
  but page 0x7E981 and the groups 0x7EA00..0x7EAFF and 0x7EC00..0x7ECFF. The other guards, whose
  constants have four digits where pages have five (0x7E9C to 0x7E9F, 0x7EB0, 0x7EF0), never
  hold, so the pages that are commented as hanging or raising an exception are read.\<close>
theorem peripheral_scan_reads:
  "\<exists>ids b' es. peripheral_scan b = (Inr ids, b') \<and> hist b' = es @ hist b \<and>
     map ev_addr (rev es) = map (\<lambda>k. push_bit 12 (of_nat k) OR 0xffc)
       (filter (\<lambda>k. k \<noteq> 0x7e981 \<and> k div 256 \<noteq> 0x7ea \<and> k div 256 \<noteq> 0x7ec) [0x7e000..<0x7f000])"
proof -
  have split: "[0x7e000..<0x7ffff] = [0x7e000..<0x7f000] @ [0x7f000..<0x7ffff::nat]"
    by (rule upt_append_mid [OF page_order])
  have "filter (\<lambda>k. \<not> scan_skips (of_nat k)) [0x7f000..<0x7ffff] = []"
  proof (subst filter_empty_conv, intro ballI notI)
    fix k :: nat
    assume "k \<in> set [0x7f000..<0x7ffff]" and skip: "\<not> scan_skips (of_nat k)"
    then have "0x7f000 \<le> k" and "k < 0x7ffff"
      by (simp_all only: set_upt atLeastLessThan_iff)
    with scan_skips_pages [of k] skip show False by simp
  qed
  moreover have "filter (\<lambda>k. \<not> scan_skips (of_nat k)) [0x7e000..<0x7f000]
    = filter (\<lambda>k. k \<noteq> 0x7e981 \<and> k div 256 \<noteq> 0x7ea \<and> k div 256 \<noteq> 0x7ec) [0x7e000..<0x7f000]"
  proof (intro filter_cong refl)
    fix k :: nat
    assume "k \<in> set [0x7e000..<0x7f000]"
    then have "0x7e000 \<le> k" and "k < 0x7f000"
      by (simp_all only: set_upt atLeastLessThan_iff)
    then show "\<not> scan_skips (of_nat k) \<longleftrightarrow> k \<noteq> 0x7e981 \<and> k div 256 \<noteq> 0x7ea \<and> k div 256 \<noteq> 0x7ec"
      using scan_skips_pages [of k] by simp
  qed
  ultimately have "filter (\<lambda>k. \<not> scan_skips (of_nat k)) [0x7e000..<0x7ffff]
    = filter (\<lambda>k. k \<noteq> 0x7e981 \<and> k div 256 \<noteq> 0x7ea \<and> k div 256 \<noteq> 0x7ec) [0x7e000..<0x7f000]"
    unfolding split filter_append by (simp only: append_Nil2)
  with scan_pages_reads [of "[0x7e000..<0x7ffff]" b] show ?thesis
    unfolding peripheral_scan_def by (simp only:)
qed

end
