(* ===== verification/Crc32.thy ===== *)
theory Crc32
  imports Prelude
begin

unbundle bit_operations_syntax

text \<open>
  The checksum \<^verbatim>\<open>src/common/crc32.c\<close>: a table of 256 remainders, filled on the first
  call, and one lookup per byte. The static table and its flag are the state that each call
  takes and returns. The reference is the CRC-32 of the standards, bit by bit, with the polynomial
  given by its exponents.
\<close>

section \<open>The implementation\<close>

definition crc_bit :: "u32 \<Rightarrow> u32" where
  "crc_bit rem = (if rem AND 1 \<noteq> 0 then drop_bit 1 rem XOR 0xedb88320 else drop_bit 1 rem)"

definition table_entry :: "nat \<Rightarrow> u32" where
  "table_entry i = (crc_bit ^^ 8) (of_nat i)"

record crc_state =
  table :: "u32 list"
  have_table :: bool

definition fill_table :: "u32 list \<Rightarrow> u32 list" where
  "fill_table t = foldl (\<lambda>t i. t[i := table_entry i]) t [0..<256]"

definition crc_init :: "crc_state \<Rightarrow> crc_state" where
  "crc_init s = (if have_table s then s else \<lparr>table = fill_table (table s), have_table = True\<rparr>)"

definition crc_step :: "u32 list \<Rightarrow> u32 \<Rightarrow> u8 \<Rightarrow> u32" where
  "crc_step t crc octet = drop_bit 8 crc XOR t ! unat ((crc AND 0xff) XOR ucast octet)"

definition rc_crc32 :: "crc_state \<Rightarrow> u32 \<Rightarrow> u8 list \<Rightarrow> u32 \<times> crc_state" where
  "rc_crc32 s crc buf =
     (let s' = crc_init s
      in (NOT (foldl (crc_step (table s')) (NOT crc) buf), s'))"

section \<open>The reference\<close>

text \<open>
  The generator of IEEE 802.3 is \<open>x^32\<close> plus the powers below. The checksum is reflected: bit \<open>i\<close> of a
  remainder is the coefficient of \<open>x^(31 - i)\<close>, and one division step shifts to the right.
\<close>

definition crc32_exponents :: "nat list" where
  "crc32_exponents = [26, 23, 22, 16, 12, 11, 10, 8, 7, 5, 4, 2, 1, 0]"

definition generator :: u32 where
  "generator = foldr (\<lambda>e w. push_bit (31 - e) 1 OR w) crc32_exponents 0"

definition reference_bit :: "u32 \<Rightarrow> u32" where
  "reference_bit r = drop_bit 1 r XOR (if bit r 0 then generator else 0)"

definition reference_step :: "u32 \<Rightarrow> u8 \<Rightarrow> u32" where
  "reference_step crc octet = (reference_bit ^^ 8) (crc XOR ucast octet)"

definition reference_crc :: "u32 \<Rightarrow> u8 list \<Rightarrow> u32" where
  "reference_crc crc buf = NOT (foldl reference_step (NOT crc) buf)"

section \<open>One byte by lookup\<close>

lemma crc_bit_alt: "crc_bit x = drop_bit 1 x XOR (if bit x 0 then 0xedb88320 else 0)"
  by (simp add: crc_bit_def and_one_eq odd_iff_mod_2_eq_one bit_0)

text \<open>The constant of the code is the generator.\<close>

lemma crc_bit_reference: "crc_bit = reference_bit"
  by (simp add: fun_eq_iff crc_bit_alt reference_bit_def generator_def crc32_exponents_def)

lemma crc_bit_xor: "crc_bit (a XOR b) = crc_bit a XOR crc_bit b"
  by (auto simp: crc_bit_alt bit_xor_iff drop_bit_xor xor.assoc xor.left_commute)

lemma crc_bits_xor: "(crc_bit ^^ n) (a XOR b) = (crc_bit ^^ n) a XOR (crc_bit ^^ n) b"
  by (induction n) (simp_all add: crc_bit_xor)

text \<open>While the low bits are zero the remainder is only shifted.\<close>

lemma crc_bits_shift:
  "(\<And>i. i < n \<Longrightarrow> \<not> bit x i) \<Longrightarrow> (crc_bit ^^ n) x = drop_bit n x"
proof (induction n arbitrary: x)
  case 0
  then show ?case by simp
next
  case (Suc n)
  have "crc_bit x = drop_bit 1 x"
    using Suc.prems [of 0] by (simp add: crc_bit_alt)
  moreover have "\<not> bit (drop_bit 1 x) i" if "i < n" for i
    using Suc.prems [of "Suc i"] that by (simp add: bit_drop_bit_eq)
  ultimately show ?case
    using Suc.IH [of "drop_bit 1 x"] by (simp add: funpow_swap1)
qed

lemma low_byte_mask: "(0xff :: u32) = mask 8"
  by (simp add: mask_eq_exp_minus_1)

lemma split_low_byte: "x = (x AND NOT 0xff) XOR (x AND 0xff)" for x :: u32
proof (rule bit_word_eqI)
  fix n
  assume "n < LENGTH(32)"
  then show "bit x n = bit ((x AND NOT 0xff) XOR (x AND 0xff)) n"
    unfolding low_byte_mask by (auto simp: bit_xor_iff bit_and_iff bit_not_iff bit_mask_iff)
qed

lemma crc_bits_byte:
  "(crc_bit ^^ 8) x = drop_bit 8 x XOR table_entry (unat (x AND 0xff))"
proof -
  have "(crc_bit ^^ 8) x = (crc_bit ^^ 8) (x AND NOT 0xff) XOR (crc_bit ^^ 8) (x AND 0xff)"
    by (subst split_low_byte) (rule crc_bits_xor)
  also have "(crc_bit ^^ 8) (x AND NOT 0xff) = drop_bit 8 (x AND NOT 0xff)"
    by (rule crc_bits_shift) (simp add: low_byte_mask bit_and_iff bit_not_iff bit_mask_iff)
  also have "drop_bit 8 (x AND NOT 0xff) = drop_bit 8 x"
    by (rule bit_word_eqI)
      (auto simp: low_byte_mask bit_drop_bit_eq bit_and_iff bit_not_iff bit_mask_iff
        dest: bit_imp_le_length)
  finally show ?thesis by (simp add: table_entry_def)
qed

lemma crc_step_reference:
  assumes "\<And>i. i < 256 \<Longrightarrow> t ! i = table_entry i"
  shows "crc_step t crc octet = reference_step crc octet"
proof -
  let ?o = "ucast octet :: u32"
  have high: "drop_bit 8 ?o = 0"
    by (rule bit_word_eqI) (auto simp: bit_drop_bit_eq bit_ucast_iff dest: bit_imp_le_length)
  have low: "?o AND 0xff = ?o"
    by (rule bit_word_eqI)
      (auto simp: low_byte_mask bit_and_iff bit_mask_iff bit_ucast_iff dest: bit_imp_le_length)
  have index: "(crc XOR ?o) AND 0xff = (crc AND 0xff) XOR ?o"
    by (rule bit_word_eqI)
      (auto simp: low_byte_mask bit_xor_iff bit_and_iff bit_mask_iff bit_ucast_iff
        dest: bit_imp_le_length)
  have "unat ((crc XOR ?o) AND 0xff) < 256"
    using unat_mask_less [of "crc XOR ?o" 8] by (simp add: low_byte_mask)
  then have "t ! unat ((crc XOR ?o) AND 0xff) = table_entry (unat ((crc XOR ?o) AND 0xff))"
    by (rule assms)
  then show ?thesis
    unfolding reference_step_def crc_bit_reference [symmetric]
    by (simp add: crc_step_def crc_bits_byte drop_bit_xor high index)
qed

section \<open>The table\<close>

definition crc_ready :: "crc_state \<Rightarrow> bool" where
  "crc_ready s \<longleftrightarrow> length (table s) = 256 \<and>
     (have_table s \<longrightarrow> (\<forall>i < 256. table s ! i = table_entry i))"

lemma fill_upto:
  "length t = 256 \<Longrightarrow> n \<le> 256 \<Longrightarrow>
     length (foldl (\<lambda>t i. t[i := table_entry i]) t [0..<n]) = 256 \<and>
     (\<forall>i < n. foldl (\<lambda>t i. t[i := table_entry i]) t [0..<n] ! i = table_entry i)"
  by (induction n) (auto simp: nth_list_update less_Suc_eq)

lemma crc_init_ready:
  assumes "crc_ready s"
  shows "crc_ready (crc_init s)" and "have_table (crc_init s)"
  using assms fill_upto [of "table s" 256] by (auto simp: crc_ready_def crc_init_def fill_table_def)

section \<open>Properties\<close>

text \<open>C30: the table-driven checksum is the bitwise CRC-32 with the generator of IEEE 802.3, from the zeroed static state as from
  the state after any earlier call, and each call leaves such a state.\<close>

theorem rc_crc32_reference:
  assumes "crc_ready s"
  shows "fst (rc_crc32 s crc buf) = reference_crc crc buf \<and> crc_ready (snd (rc_crc32 s crc buf))"
proof -
  have "table (crc_init s) ! i = table_entry i" if "i < 256" for i
    using crc_init_ready [OF assms] that by (simp add: crc_ready_def)
  then have "crc_step (table (crc_init s)) = reference_step"
    by (simp add: fun_eq_iff crc_step_reference)
  with crc_init_ready(1) [OF assms] show ?thesis
    by (simp add: rc_crc32_def reference_crc_def Let_def)
qed

text \<open>Eight steps on a number, for evaluation.\<close>

lemma reference_eight:
  fixes r :: u32
  defines "f \<equiv> \<lambda>r :: u32. if bit r 0 then drop_bit 1 r XOR 0xedb88320 else drop_bit 1 r"
  shows "(reference_bit ^^ 8) r = f (f (f (f (f (f (f (f r)))))))"
proof -
  have "reference_bit = f"
    by (simp add: fun_eq_iff f_def crc_bit_alt flip: crc_bit_reference)
  then show ?thesis by (simp add: numeral_eq_Suc)
qed

text \<open>At the digits 1 to 9 this is the check value of the standard.\<close>

theorem rc_crc32_reference_witness:
  "fst (rc_crc32 \<lparr>table = replicate 256 0, have_table = False\<rparr> 0
     [0x31, 0x32, 0x33, 0x34, 0x35, 0x36, 0x37, 0x38, 0x39]) = 0xCBF43926"
proof -
  have "reference_crc 0 [0x31, 0x32, 0x33, 0x34, 0x35, 0x36, 0x37, 0x38, 0x39] = 0xCBF43926"
    by (simp add: reference_crc_def reference_step_def reference_eight)
  then show ?thesis
    using rc_crc32_reference [of "\<lparr>table = replicate 256 0, have_table = False\<rparr>" 0]
    by (simp add: crc_ready_def)
qed

text \<open>the checksum can be computed piecewise: feeding the result for one buffer into the call
  for the next gives the checksum of both.\<close>

theorem rc_crc32_append:
  "fst (rc_crc32 s crc (xs @ ys)) =
    fst (rc_crc32 (snd (rc_crc32 s crc xs)) (fst (rc_crc32 s crc xs)) ys)"
proof -
  have init: "crc_init (crc_init s) = crc_init s"
    by (simp add: crc_init_def)
  show ?thesis by (simp add: rc_crc32_def Let_def init)
qed

end
