(* ===== verification/SdProto.thy ===== *)
theory SdProto
  imports Prelude
begin

unbundle bit_operations_syntax

text \<open>
  The SD protocol header \<^verbatim>\<open>src/arm_chainloader/drivers/sd_proto.hpp\<close>: commands, OCR bits and
  the decoding of the 128-bit responses (card identification and card specific data). A
  response is a list of four words, the least significant one first, as the controller's
  response registers hold it; the code reads it byte by byte on a little-endian machine.
\<close>

section \<open>Commands and operating conditions\<close>

definition MMC_GO_IDLE_STATE :: u32 where "MMC_GO_IDLE_STATE = 0"
definition MMC_ALL_SEND_CID :: u32 where "MMC_ALL_SEND_CID = 2"
definition MMC_SET_RELATIVE_ADDR :: u32 where "MMC_SET_RELATIVE_ADDR = 3"
definition MMC_SELECT_CARD :: u32 where "MMC_SELECT_CARD = 7"
definition MMC_SEND_CSD :: u32 where "MMC_SEND_CSD = 9"
definition MMC_SEND_CID :: u32 where "MMC_SEND_CID = 10"
definition MMC_STOP_TRANSMISSION :: u32 where "MMC_STOP_TRANSMISSION = 12"
definition MMC_SET_BLOCKLEN :: u32 where "MMC_SET_BLOCKLEN = 16"
definition MMC_READ_BLOCK_SINGLE :: u32 where "MMC_READ_BLOCK_SINGLE = 17"
definition MMC_READ_BLOCK_MULTIPLE :: u32 where "MMC_READ_BLOCK_MULTIPLE = 18"
definition MMC_APP_CMD :: u32 where "MMC_APP_CMD = 55"
definition SD_SEND_IF_COND :: u32 where "SD_SEND_IF_COND = 8"
definition SD_APP_OP_COND :: u32 where "SD_APP_OP_COND = 41"
definition MMC_OCR_MEM_READY :: u32 where "MMC_OCR_MEM_READY = push_bit 31 1"
definition MMC_OCR_HCS :: u32 where "MMC_OCR_HCS = push_bit 30 1"
definition MMC_OCR_3_3V_3_4V :: u32 where "MMC_OCR_3_3V_3_4V = push_bit 21 1"

lemmas sd_commands =
  MMC_GO_IDLE_STATE_def MMC_ALL_SEND_CID_def MMC_SET_RELATIVE_ADDR_def MMC_SELECT_CARD_def
  MMC_SEND_CSD_def MMC_SEND_CID_def MMC_STOP_TRANSMISSION_def MMC_SET_BLOCKLEN_def
  MMC_READ_BLOCK_SINGLE_def MMC_READ_BLOCK_MULTIPLE_def MMC_APP_CMD_def SD_SEND_IF_COND_def
  SD_APP_OP_COND_def MMC_OCR_MEM_READY_def MMC_OCR_HCS_def MMC_OCR_3_3V_3_4V_def

definition MMC_ARG_RCA :: "u32 \<Rightarrow> u32" where
  "MMC_ARG_RCA rca = push_bit 16 rca"

definition SD_R6_RCA :: "u32 list \<Rightarrow> u32" where
  "SD_R6_RCA resp = drop_bit 16 (resp ! 0)"

section \<open>Bit fields of a response\<close>

text \<open>Byte \<open>i\<close> of the words at \<open>src\<close>, in memory order.\<close>

definition src_byte :: "u32 list \<Rightarrow> nat \<Rightarrow> u8" where
  "src_byte src i = ucast (drop_bit (8 * (i mod 4)) (src ! (i div 4)))"

function bitfield_loop :: "u32 list \<Rightarrow> nat \<Rightarrow> nat \<Rightarrow> nat \<Rightarrow> u32 \<Rightarrow> u32" where
  "bitfield_loop src start len shift dst =
     (if len > 0
      then let sp = src_byte src (start div 8); bs = start mod 8; bc = min (8 - bs) len
           in bitfield_loop src (start + bc) (len - bc) (shift + bc)
                (dst OR push_bit shift (drop_bit bs (ucast sp)))
      else dst)"
  by pat_completeness auto
termination
  by (relation "measure (\<lambda>(src, start, len, shift, dst). len)") auto

declare bitfield_loop.simps [simp del]

lemma bitfield_loop_0 [simp]: "bitfield_loop src start 0 shift dst = dst"
  by (simp add: bitfield_loop.simps)

definition bitfield :: "u32 list \<Rightarrow> int \<Rightarrow> int \<Rightarrow> u32" where
  "bitfield src start len =
     (if start < 0 \<or> len < 0 \<or> len > 32 then 0
      else let m = (if len mod 32 \<noteq> 0 then drop_bit (nat (32 - len mod 32)) (-1) else -1)
           in bitfield_loop src (nat start) (nat len) 0 0 AND m)"

definition MMC_RSP_BITS :: "u32 list \<Rightarrow> int \<Rightarrow> int \<Rightarrow> u32" where
  "MMC_RSP_BITS resp start len = bitfield resp start len"

definition SD_CSD_CSDVER :: "u32 list \<Rightarrow> u32" where "SD_CSD_CSDVER resp = MMC_RSP_BITS resp 126 2"
definition SD_CSD_CSDVER_1_0 :: u32 where "SD_CSD_CSDVER_1_0 = 0"
definition SD_CSD_CSDVER_2_0 :: u32 where "SD_CSD_CSDVER_2_0 = 1"
definition SD_CSD_READ_BL_LEN :: "u32 list \<Rightarrow> u32" where "SD_CSD_READ_BL_LEN resp = MMC_RSP_BITS resp 80 4"
definition SD_CSD_C_SIZE :: "u32 list \<Rightarrow> u32" where "SD_CSD_C_SIZE resp = MMC_RSP_BITS resp 62 12"
definition SD_CSD_C_SIZE_MULT :: "u32 list \<Rightarrow> u32" where "SD_CSD_C_SIZE_MULT resp = MMC_RSP_BITS resp 47 3"
definition SD_CSD_CAPACITY :: "u32 list \<Rightarrow> u32" where
  "SD_CSD_CAPACITY resp = push_bit (unat (SD_CSD_C_SIZE_MULT resp + 2)) (SD_CSD_C_SIZE resp + 1)"
definition SD_CSD_V2_C_SIZE :: "u32 list \<Rightarrow> u32" where "SD_CSD_V2_C_SIZE resp = MMC_RSP_BITS resp 48 22"
definition SD_CSD_V2_CAPACITY :: "u32 list \<Rightarrow> u32" where
  "SD_CSD_V2_CAPACITY resp = push_bit 10 (SD_CSD_V2_C_SIZE resp + 1)"
definition SD_CSD_V2_BL_LEN :: nat where "SD_CSD_V2_BL_LEN = 9"

text \<open>The identification register: product name, manufacturer, revision, serial and date.\<close>

definition SD_CID_MID :: "u32 list \<Rightarrow> u32" where "SD_CID_MID resp = MMC_RSP_BITS resp 120 8"
definition SD_CID_OID :: "u32 list \<Rightarrow> u32" where "SD_CID_OID resp = MMC_RSP_BITS resp 104 16"
definition SD_CID_PNM_CPY :: "u32 list \<Rightarrow> u8 list" where
  "SD_CID_PNM_CPY resp =
     [ucast (MMC_RSP_BITS resp 96 8), ucast (MMC_RSP_BITS resp 88 8),
      ucast (MMC_RSP_BITS resp 80 8), ucast (MMC_RSP_BITS resp 72 8),
      ucast (MMC_RSP_BITS resp 64 8), 0]"
definition SD_CID_REV :: "u32 list \<Rightarrow> u32" where "SD_CID_REV resp = MMC_RSP_BITS resp 56 8"
definition SD_CID_PSN :: "u32 list \<Rightarrow> u32" where "SD_CID_PSN resp = MMC_RSP_BITS resp 24 32"
definition SD_CID_MDT :: "u32 list \<Rightarrow> u32" where "SD_CID_MDT resp = MMC_RSP_BITS resp 8 12"

text \<open>
  The capacity computation of \<^verbatim>\<open>init_card\<close>: the block length and the capacity in bytes. The
  capacity macros are \<^verbatim>\<open>int\<close> expressions, so their value is sign-extended to 64 bits.
\<close>

definition csd_capacity :: "u32 list \<Rightarrow> (u32 \<times> u64) option" where
  "csd_capacity csd =
     (if SD_CSD_CSDVER csd = SD_CSD_CSDVER_2_0 then
        (let block_length = push_bit SD_CSD_V2_BL_LEN 1
         in Some (block_length, scast (SD_CSD_V2_CAPACITY csd) * ucast block_length))
      else if SD_CSD_CSDVER csd = SD_CSD_CSDVER_1_0 then
        (let block_length = push_bit (unat (SD_CSD_READ_BL_LEN csd)) 1
         in Some (block_length, scast (SD_CSD_CAPACITY csd) * ucast block_length))
      else None)"

section \<open>What a bit field is\<close>

lemma bit_src_byte:
  "bit (src_byte src i) j \<longleftrightarrow> j < 8 \<and> bit (src ! (i div 4)) (8 * (i mod 4) + j)"
  by (auto simp: src_byte_def bit_simps)

lemma bit_byte_piece:
  assumes "start mod 8 + j < 8"
  shows "bit (src_byte src (start div 8)) (start mod 8 + j)
    \<longleftrightarrow> bit (src ! ((start + j) div 32)) ((start + j) mod 32)"
proof -
  have eq: "start + j = (start mod 8 + j) + start div 8 * 8"
    by simp
  have "(start + j) div 8 = (start mod 8 + j) div 8 + start div 8"
    by (subst eq, subst div_mult_self1) simp_all
  moreover have "(start + j) mod 8 = (start mod 8 + j) mod 8"
    by (subst eq, subst mod_mult_self1) simp_all
  moreover have "(start + j) div 32 = (start + j) div 8 div 4"
    and "(start + j) mod 32 = 8 * ((start + j) div 8 mod 4) + (start + j) mod 8"
    using div_mult2_eq [of "start + j" 8 4] mod_mult2_eq [of "start + j" 8 4] by simp_all
  ultimately show ?thesis using assms by (simp add: bit_src_byte)
qed

lemma bit_bitfield_loop:
  assumes "start + len \<le> 128" and "shift + len \<le> 32" and "j < shift + len"
  shows "bit (bitfield_loop src start len shift dst) j
    \<longleftrightarrow> bit dst j \<or> shift \<le> j \<and> bit (src ! ((start + (j - shift)) div 32)) ((start + (j - shift)) mod 32)"
  using assms
proof (induction src start len shift dst rule: bitfield_loop.induct)
  case (1 src start len shift dst)
  show ?case
  proof (cases "len = 0")
    case True
    with 1 show ?thesis by auto
  next
    case False
    let ?bs = "start mod 8" and ?bc = "min (8 - start mod 8) len"
    let ?dst = "dst OR push_bit shift (drop_bit ?bs (ucast (src_byte src (start div 8))))"
    have dst: "bit ?dst j \<longleftrightarrow> bit dst j \<or> shift \<le> j \<and> bit (src_byte src (start div 8)) (?bs + (j - shift))"
      using "1.prems" by (auto simp: bit_simps add.commute dest: bit_imp_le_length)
    have IH: "bit (bitfield_loop src (start + ?bc) (len - ?bc) (shift + ?bc) ?dst) j \<longleftrightarrow>
        bit ?dst j \<or> shift + ?bc \<le> j \<and>
        bit (src ! ((start + ?bc + (j - (shift + ?bc))) div 32)) ((start + ?bc + (j - (shift + ?bc))) mod 32)"
      using "1.IH" [of "src_byte src (start div 8)" ?bs ?bc] False "1.prems" by simp
    have step: "bitfield_loop src start len shift dst =
        bitfield_loop src (start + ?bc) (len - ?bc) (shift + ?bc) ?dst"
      using False by (subst bitfield_loop.simps) (simp add: Let_def)
    show ?thesis
    proof (cases "j < shift + ?bc")
      case True
      then have "shift \<le> j \<Longrightarrow> ?bs + (j - shift) < 8"
        by auto
      with True show ?thesis unfolding step IH dst using bit_byte_piece [of start "j - shift" src] by auto
    next
      case False
      then have "shift \<le> j" and "?bc < len"
        using "1.prems" by auto
      with False have "?bs + (j - shift) \<ge> 8"
        by auto
      then have "\<not> bit (src_byte src (start div 8)) (?bs + (j - shift))"
        by (auto dest: bit_imp_le_length)
      moreover have "start + ?bc + (j - (shift + ?bc)) = start + (j - shift)"
        using False by auto
      ultimately show ?thesis
        using False \<open>shift \<le> j\<close> unfolding step IH dst by auto
    qed
  qed
qed

lemma bit_bitfield:
  assumes "0 \<le> start" "0 \<le> len" "len \<le> 32" "start + len \<le> 128"
  shows "bit (bitfield src start len) j
    \<longleftrightarrow> j < nat len \<and> bit (src ! ((nat start + j) div 32)) ((nat start + j) mod 32)"
proof -
  define m :: u32 where "m = (if len mod 32 \<noteq> 0 then drop_bit (nat (32 - len mod 32)) (-1) else -1)"
  have loop: "j < nat len \<Longrightarrow> bit (bitfield_loop src (nat start) (nat len) 0 0) j
      \<longleftrightarrow> bit (src ! ((nat start + j) div 32)) ((nat start + j) mod 32)"
    using bit_bitfield_loop [of "nat start" "nat len" 0 j src 0] assms by simp
  have def: "bitfield src start len = bitfield_loop src (nat start) (nat len) 0 0 AND m"
    using assms by (simp add: bitfield_def m_def)
  show ?thesis
  proof (cases "len = 0")
    case True
    then show ?thesis unfolding def by simp
  next
    case False
    have "bit m j \<longleftrightarrow> j < nat len"
    proof (cases "len = 32")
      case True
      then show ?thesis by (auto simp: m_def bit_simps)
    next
      case False
      with \<open>len \<noteq> 0\<close> assms show ?thesis by (auto simp: m_def bit_simps)
    qed
    with loop show ?thesis unfolding def by (auto simp: bit_simps)
  qed
qed


text \<open>C29: A response field, read byte by byte with partial bytes at either end, is exactly the
  field's bits of the 128-bit response: bit \<open>j\<close> of the result is bit \<open>start + j\<close> of the
  response for \<open>j < len\<close>, and zero above.\<close>
theorem bitfield_slice:
  assumes "0 \<le> start" "0 \<le> len" "len \<le> 32" "start + len \<le> 128"
  shows "bit (bitfield src start len) j
    \<longleftrightarrow> j < nat len \<and> bit (src ! ((nat start + j) div 32)) ((nat start + j) mod 32)"
  using assms by (rule bit_bitfield)

theorem bitfield_slice_witness:
  "\<forall>j. bit (bitfield [0, 0x80000000, 0x5, 0] 62 12) j \<longleftrightarrow>
     j < nat 12 \<and> bit ([0, 0x80000000, 0x5, 0 :: u32] ! ((nat 62 + j) div 32)) ((nat 62 + j) mod 32)"
  by (rule allI, rule bitfield_slice) simp_all

lemma unat_less_bits: "(\<And>j. bit (w :: u32) j \<Longrightarrow> j < n) \<Longrightarrow> unat w < 2 ^ n"
proof -
  assume "\<And>j. bit w j \<Longrightarrow> j < n"
  then have "w AND mask n = w"
    by (intro bit_word_eqI) (auto simp: bit_simps)
  then show ?thesis using unat_mask_less [of w n] by simp
qed

lemma MMC_RSP_BITS_less:
  assumes "0 \<le> start" "0 \<le> len" "len \<le> 32" "start + len \<le> 128"
  shows "unat (MMC_RSP_BITS resp start len) < 2 ^ nat len"
  using bit_bitfield [OF assms, of resp] by (intro unat_less_bits) (simp add: MMC_RSP_BITS_def)

lemma csd_field_bounds:
  "unat (SD_CSD_C_SIZE csd) < 2 ^ 12" "unat (SD_CSD_C_SIZE_MULT csd) < 2 ^ 3"
  "unat (SD_CSD_READ_BL_LEN csd) < 2 ^ 4" "unat (SD_CSD_V2_C_SIZE csd) < 2 ^ 22"
  using MMC_RSP_BITS_less [of 62 12 csd] MMC_RSP_BITS_less [of 47 3 csd]
    MMC_RSP_BITS_less [of 80 4 csd] MMC_RSP_BITS_less [of 48 22 csd]
  by (simp_all add: SD_CSD_C_SIZE_def SD_CSD_C_SIZE_MULT_def SD_CSD_READ_BL_LEN_def SD_CSD_V2_C_SIZE_def)

text \<open>Sign extension to 64 bits, below and from \<open>2 ^ 31\<close> on.\<close>

lemma sint_unat: "sint (w :: u32) = int (unat w) - 2 ^ 32 * of_bool (2 ^ 31 \<le> unat w)"
proof -
  have w: "unat w < 2 ^ 32"
    using unsigned_less [of w] by simp
  have bit: "bit (uint w) 31 \<longleftrightarrow> 2 ^ 31 \<le> unat w"
  proof -
    have "bit (uint w) 31 \<longleftrightarrow> bit (unat w) 31"
      by (simp add: bit_unsigned_iff)
    also have "\<dots> \<longleftrightarrow> odd (unat w div 2 ^ 31)"
      by (simp only: bit_iff_odd)
    also have "\<dots> \<longleftrightarrow> 2 ^ 31 \<le> unat w"
    proof (cases "2 ^ 31 \<le> unat w")
      case True
      with w have "unat w div 2 ^ 31 = 1"
        by (intro div_nat_eqI) simp_all
      with True show ?thesis by simp
    qed simp
    finally show ?thesis .
  qed
  show ?thesis
    unfolding sint_uint signed_take_bit_eq_take_bit_minus
    using bit take_bit_int_eq_self [OF uint_nonnegative uint_bounded [of w]] by simp
qed

lemma unat_scast_u64:
  "unat (scast (w :: u32) :: u64) = (if unat w < 2 ^ 31 then unat w else unat w + 2 ^ 64 - 2 ^ 32)"
proof -
  have w: "unat w < 2 ^ 32"
    using unsigned_less [of w] by simp
  have scast: "scast w = (of_int (int (unat w) - 2 ^ 32 * of_bool (2 ^ 31 \<le> unat w)) :: u64)"
    by (simp only: scast_eq sint_unat)
  show ?thesis
  proof (cases "unat w < 2 ^ 31")
    case True
    then have "scast w = (of_nat (unat w) :: u64)"
      using scast by simp
    then show ?thesis
      using True w by (simp only: if_True) (rule unat_of_nat_small, simp)
  next
    case False
    have "(of_nat (unat w + 2 ^ 64 - 2 ^ 32) :: u64) = of_nat (unat w) - 2 ^ 32"
      by simp
    moreover have "scast w = (of_nat (unat w) - 2 ^ 32 :: u64)"
      using scast False by simp
    ultimately have "scast w = (of_nat (unat w + 2 ^ 64 - 2 ^ 32) :: u64)"
      by simp
    moreover have "unat (of_nat (unat w + 2 ^ 64 - 2 ^ 32) :: u64) = unat w + 2 ^ 64 - 2 ^ 32"
      using w by (intro unat_of_nat_small) simp
    ultimately show ?thesis using False by simp
  qed
qed

lemma unat_times_small:
  "unat a * unat b < 2 ^ LENGTH('a) \<Longrightarrow> unat (a * b :: 'a::len word) = unat a * unat b"
  by (simp add: unat_word_ariths)

text \<open>For a card with version 1 data the block length is two to the power READ_BL_LEN and the
  capacity in bytes is exactly (C_SIZE + 1) * 2^(C_SIZE_MULT + 2) * 2^READ_BL_LEN: no 32-bit
  step of the computation overflows.\<close>
theorem csd_capacity_v1:
  assumes "SD_CSD_CSDVER csd = SD_CSD_CSDVER_1_0"
  shows "map_option (\<lambda>(bl, cap). (unat bl, unat cap)) (csd_capacity csd) =
    Some (2 ^ unat (SD_CSD_READ_BL_LEN csd),
      (unat (SD_CSD_C_SIZE csd) + 1) * 2 ^ (unat (SD_CSD_C_SIZE_MULT csd) + 2) * 2 ^ unat (SD_CSD_READ_BL_LEN csd))"
proof -
  let ?c = "unat (SD_CSD_C_SIZE csd)" and ?m = "unat (SD_CSD_C_SIZE_MULT csd)"
    and ?b = "unat (SD_CSD_READ_BL_LEN csd)"
  have b: "?c + 1 \<le> 2 ^ 12" "?m + 2 \<le> 9" "?b \<le> 15"
    using csd_field_bounds [of csd] by simp_all
  have prod: "(?c + 1) * 2 ^ (?m + 2) \<le> 2 ^ 12 * 2 ^ 9"
    using b by (intro mult_mono power_increasing) simp_all
  have "(2 :: nat) ^ ?b \<le> 2 ^ 15"
    using b(3) by (intro power_increasing) simp_all
  with prod have total: "(?c + 1) * 2 ^ (?m + 2) * 2 ^ ?b \<le> 2 ^ 12 * 2 ^ 9 * 2 ^ 15"
    by (rule mult_le_mono)
  have c1: "unat (SD_CSD_C_SIZE csd + 1) = ?c + 1"
    using b by (subst unat_add_small) simp_all
  have m2: "unat (SD_CSD_C_SIZE_MULT csd + 2) = ?m + 2"
    using b by (subst unat_add_small) simp_all
  have cap: "unat (SD_CSD_CAPACITY csd) = (?c + 1) * 2 ^ (?m + 2)"
    unfolding SD_CSD_CAPACITY_def m2 using prod by (subst unat_push_bit_small) (simp_all add: c1)
  have bl: "unat (push_bit ?b 1 :: u32) = 2 ^ ?b"
    using \<open>2 ^ ?b \<le> 2 ^ 15\<close> by (subst unat_push_bit_small) simp_all
  have "unat (scast (SD_CSD_CAPACITY csd) * ucast (push_bit ?b 1 :: u32) :: u64)
      = (?c + 1) * 2 ^ (?m + 2) * 2 ^ ?b"
    using prod total bl by (subst unat_times_small) (simp_all add: unat_scast_u64 cap unat_ucast_up)
  with bl show ?thesis
    using assms by (simp add: csd_capacity_def SD_CSD_CSDVER_1_0_def SD_CSD_CSDVER_2_0_def Let_def)
qed

theorem csd_capacity_v1_witness:
  "map_option (\<lambda>(bl, cap). (unat bl, unat cap)) (csd_capacity [0x964000d7, 0xe9a9e7fc, 0x5b5983cf, 0x002600325])
    = Some (2 ^ unat (SD_CSD_READ_BL_LEN [0x964000d7, 0xe9a9e7fc, 0x5b5983cf, 0x002600325]),
        (unat (SD_CSD_C_SIZE [0x964000d7, 0xe9a9e7fc, 0x5b5983cf, 0x002600325]) + 1) *
        2 ^ (unat (SD_CSD_C_SIZE_MULT [0x964000d7, 0xe9a9e7fc, 0x5b5983cf, 0x002600325]) + 2) *
        2 ^ unat (SD_CSD_READ_BL_LEN [0x964000d7, 0xe9a9e7fc, 0x5b5983cf, 0x002600325]))"
  by (rule csd_capacity_v1) code_simp

text \<open>For a card with version 2 data the capacity is (C_SIZE + 1) * 512 KiB below 1 TiB;
  from 1 TiB on the 32-bit signed expression of the capacity macro overflows and the computed
  number of bytes is negative, modulo \<open>2 ^ 64\<close>.\<close>
theorem csd_capacity_v2:
  assumes "SD_CSD_CSDVER csd = SD_CSD_CSDVER_2_0"
  shows "map_option (\<lambda>(bl, cap). (unat bl, unat cap)) (csd_capacity csd) =
    Some (512, if unat (SD_CSD_V2_C_SIZE csd) + 1 < 2 ^ 21
      then (unat (SD_CSD_V2_C_SIZE csd) + 1) * 2 ^ 19
      else (2 ^ 64 - (2 ^ 22 - (unat (SD_CSD_V2_C_SIZE csd) + 1)) * 2 ^ 19) mod 2 ^ 64)"
proof -
  let ?c = "unat (SD_CSD_V2_C_SIZE csd)"
  have b: "?c + 1 \<le> 2 ^ 22"
    using csd_field_bounds [of csd] by simp
  have c1: "unat (SD_CSD_V2_C_SIZE csd + 1) = ?c + 1"
    using b by (subst unat_add_small) simp_all
  have ver: "csd_capacity csd = Some (push_bit 9 1, scast (SD_CSD_V2_CAPACITY csd) * ucast (push_bit 9 1 :: u32))"
    using assms by (simp add: csd_capacity_def SD_CSD_V2_BL_LEN_def Let_def)
  have cap: "unat (SD_CSD_V2_CAPACITY csd) = (?c + 1) * 2 ^ 10 mod 2 ^ 32"
    unfolding SD_CSD_V2_CAPACITY_def 
    by (simp only: unsigned_push_bit_eq c1 take_bit_eq_mod push_bit_nat_def len_num1 len_bit0 len_num0) simp
  have "unat (scast (SD_CSD_V2_CAPACITY csd) * ucast (push_bit 9 1 :: u32) :: u64)
      = unat (scast (SD_CSD_V2_CAPACITY csd) :: u64) * 2 ^ 9 mod 2 ^ 64"
    by (simp add: unat_word_ariths)
  also have "\<dots> = (if ?c + 1 < 2 ^ 21 then (?c + 1) * 2 ^ 19
      else (2 ^ 64 - (2 ^ 22 - (?c + 1)) * 2 ^ 19) mod 2 ^ 64)"
  proof (cases "?c + 1 < 2 ^ 22")
    case True
    then have mod: "(?c + 1) * 2 ^ 10 mod 2 ^ 32 = (?c + 1) * 2 ^ 10"
      by (intro mod_less) simp
    show ?thesis
    proof (cases "?c + 1 < 2 ^ 21")
      case low: True
      then show ?thesis unfolding unat_scast_u64 cap mod by simp
    next
      case False
      define d where "d = 2 ^ 22 - (?c + 1)"
      have d: "?c + 1 = 2 ^ 22 - d" "d \<le> 2 ^ 21"
        using True False by (simp_all add: d_def)
      have "((?c + 1) * 2 ^ 10 + 2 ^ 64 - 2 ^ 32) * 2 ^ 9 = (2 ^ 64 - d * 2 ^ 19) + (2 ^ 9 - 1) * 2 ^ 64"
        using d by (simp add: d(1) diff_mult_distrib)
      then have "((?c + 1) * 2 ^ 10 + 2 ^ 64 - 2 ^ 32) * 2 ^ 9 mod 2 ^ 64 = (2 ^ 64 - d * 2 ^ 19) mod 2 ^ 64"
        by (simp only: mod_mult_self1)
      with False show ?thesis unfolding unat_scast_u64 cap mod d_def by simp
    qed
  next
    case False
    with b have full: "?c + 1 = 2 ^ 22"
      by simp
    then show ?thesis unfolding unat_scast_u64 cap by simp
  qed
  finally have cap: "unat (scast (SD_CSD_V2_CAPACITY csd) * ucast (push_bit 9 1 :: u32) :: u64) =
    (if ?c + 1 < 2 ^ 21 then (?c + 1) * 2 ^ 19
      else (2 ^ 64 - (2 ^ 22 - (?c + 1)) * 2 ^ 19) mod 2 ^ 64)" .
  show ?thesis unfolding ver option.map prod.case cap by simp
qed

theorem csd_capacity_v2_witness:
  "map_option (\<lambda>(bl, cap). (unat bl, unat cap)) (csd_capacity [0, 0xffff0000, 0x3f, 0x40000000])
    = Some (512, if unat (SD_CSD_V2_C_SIZE [0, 0xffff0000, 0x3f, 0x40000000]) + 1 < 2 ^ 21
      then (unat (SD_CSD_V2_C_SIZE [0, 0xffff0000, 0x3f, 0x40000000]) + 1) * 2 ^ 19
      else (2 ^ 64 - (2 ^ 22 - (unat (SD_CSD_V2_C_SIZE [0, 0xffff0000, 0x3f, 0x40000000]) + 1)) * 2 ^ 19) mod 2 ^ 64)"
  by (rule csd_capacity_v2) code_simp

end
