(* ===== verification/SdHost.thy ===== *)
theory SdHost
  imports SdProto Gpio Sdram
begin

unbundle bit_operations_syntax

text \<open>
  The SD host controller driver \<^verbatim>\<open>src/arm_chainloader/drivers/sdhost_impl.cc\<close>. The object is
  a record that every method takes and returns; the controller's registers are on the bus.
  A method that can wait has its own time-out as a counter; the two loops without one (the
  FIFO drains and the wait for the card to power up) are bounded by the patience of the bus.
  Every \<^verbatim>\<open>logf\<close> reads the microsecond counter. What is stored at a buffer is the list of
  words in order.
\<close>

section \<open>Constants\<close>

definition SDHSTS_REW_TIME_OUT :: u32 where "SDHSTS_REW_TIME_OUT = 0x80"
definition SDHSTS_CMD_TIME_OUT :: u32 where "SDHSTS_CMD_TIME_OUT = 0x40"
definition SDHSTS_CRC16_ERROR :: u32 where "SDHSTS_CRC16_ERROR = 0x20"
definition SDHSTS_CRC7_ERROR :: u32 where "SDHSTS_CRC7_ERROR = 0x10"
definition SDHSTS_FIFO_ERROR :: u32 where "SDHSTS_FIFO_ERROR = 0x08"
definition SDHSTS_TRANSFER_ERROR_MASK :: u32 where
  "SDHSTS_TRANSFER_ERROR_MASK =
     SDHSTS_CRC7_ERROR OR SDHSTS_CRC16_ERROR OR SDHSTS_REW_TIME_OUT OR SDHSTS_FIFO_ERROR"
definition SDHSTS_ERROR_MASK :: u32 where
  "SDHSTS_ERROR_MASK = SDHSTS_CMD_TIME_OUT OR SDHSTS_TRANSFER_ERROR_MASK"
definition SDEDM_WRITE_THRESHOLD_SHIFT :: nat where "SDEDM_WRITE_THRESHOLD_SHIFT = 9"
definition SDEDM_READ_THRESHOLD_SHIFT :: nat where "SDEDM_READ_THRESHOLD_SHIFT = 14"
definition SDEDM_THRESHOLD_MASK :: u32 where "SDEDM_THRESHOLD_MASK = 0x1f"
definition SAFE_READ_THRESHOLD :: u32 where "SAFE_READ_THRESHOLD = 4"
definition SAFE_WRITE_THRESHOLD :: u32 where "SAFE_WRITE_THRESHOLD = 4"
definition kIdentSafeClockRate :: u32 where "kIdentSafeClockRate = 0x148"

lemmas sdhsts_defs =
  SDHSTS_ERROR_MASK_def SDHSTS_TRANSFER_ERROR_MASK_def SDHSTS_REW_TIME_OUT_def
  SDHSTS_CMD_TIME_OUT_def SDHSTS_CRC16_ERROR_def SDHSTS_CRC7_ERROR_def SDHSTS_FIFO_ERROR_def

section \<open>The driver object\<close>

record sample =
  s_state :: u32
  s_time :: u32
  s_tag :: u32

record sdhost =
  is_sdhc :: bool
  is_high_capacity :: bool
  card_ready :: bool
  ocr :: u32
  rca :: u32
  cid :: "u32 list"
  csd :: "u32 list"
  capacity_bytes :: u64
  r :: "u32 list"
  current_cmd :: u32
  samples :: "sample list"
  last_sample :: nat
  block_size :: u32

text \<open>A sample of the controller's state machine; the table holds ten.\<close>

definition maybe_record_sample :: "u32 \<Rightarrow> bool \<Rightarrow> sdhost \<Rightarrow> sdhost act" where
  "maybe_record_sample tag force h =
     (if last_sample h \<ge> 10 then ret h
      else bind (rd SH_EDM) (\<lambda>edm.
        let prev = samples h ! (last_sample h - 1);
            force' = (force \<or> last_sample h = 0 \<or> edm AND 0xf \<noteq> s_state prev \<or> tag \<noteq> s_tag prev)
        in if \<not> force' then ret h
           else bind (rd ST_CLO) (\<lambda>now. ret (h
             \<lparr>samples := (samples h)[last_sample h := \<lparr>s_state = edm AND 0xf, s_time = now, s_tag = tag\<rparr>],
              last_sample := last_sample h + 1\<rparr>))))"

definition set_power :: "bool \<Rightarrow> unit act" where
  "set_power on = wr SH_VDD (if on then SH_VDD_POWER_ON_SET else 0)"

text \<open>Waiting for the command to be taken, with the default time-out of 100000 rounds.\<close>

fun wait_cmd :: "nat \<Rightarrow> bool act" where
  "wait_cmd t = bind (rd SH_CMD) (\<lambda>v.
     if v AND SH_CMD_NEW_FLAG_SET = 0 then ret True
     else case t of
       0 \<Rightarrow> bind logf (\<lambda>_. ret False)
     | Suc t' \<Rightarrow> bind (udelay 10) (\<lambda>_. wait_cmd t'))"

declare wait_cmd.simps [simp del]

definition sd_wait :: "bool act" where
  "sd_wait = wait_cmd 100000"

definition send_raw :: "u32 \<Rightarrow> u32 \<Rightarrow> sdhost \<Rightarrow> (bool \<times> sdhost) act" where
  "send_raw command arg h =
     bind sd_wait (\<lambda>_. bind (rd SH_HSTS) (\<lambda>sts.
     bind (whenever (sts AND SDHSTS_ERROR_MASK \<noteq> 0) (wr SH_HSTS sts)) (\<lambda>_.
     let h' = h\<lparr>current_cmd := command AND SH_CMD_COMMAND_SET\<rparr>
     in bind (wr SH_ARG arg) (\<lambda>_. bind (wr SH_CMD (command OR SH_CMD_NEW_FLAG_SET)) (\<lambda>_.
        ret (True, h'))))))"

definition send :: "u32 \<Rightarrow> u32 \<Rightarrow> sdhost \<Rightarrow> (bool \<times> sdhost) act" where
  "send command arg = send_raw (command AND SH_CMD_COMMAND_SET) arg"

definition send_136_resp :: "u32 \<Rightarrow> u32 \<Rightarrow> sdhost \<Rightarrow> (bool \<times> sdhost) act" where
  "send_136_resp command arg =
     send_raw ((command AND SH_CMD_COMMAND_SET) OR SH_CMD_LONG_RESPONSE_SET) arg"

definition send_no_resp :: "u32 \<Rightarrow> u32 \<Rightarrow> sdhost \<Rightarrow> (bool \<times> sdhost) act" where
  "send_no_resp command arg =
     send_raw ((command AND SH_CMD_COMMAND_SET) OR SH_CMD_NO_RESPONSE_SET) arg"

definition configure_pinmux :: "unit act" where
  "configure_pinmux = steps
     (map (\<lambda>i. setFunction (of_nat i) Pinmux_ALT0) [48..<54] @
      [logf, wr GP_PUD 2, udelay 500, wr GP_PUD 0, logf,
       wr GP_PUDCLK1 GP_PUDCLK1_PUDCLKn32_SET, wr GP_PUDCLK2 GP_PUDCLK2_PUDCLKn64_SET, udelay 500,
       logf, wr GP_PUDCLK1 0, wr GP_PUDCLK2 0, logf])"

definition reset_controller :: "unit act" where
  "reset_controller = steps
     [logf, set_power False,
      wr SH_CMD 0, wr SH_ARG 0, wr SH_TOUT 0xF00000, wr SH_CDIV 0, wr SH_HSTS 0x7f8, wr SH_HCFG 0,
      wr SH_HBCT 0, wr SH_HBLC 0,
      rmw SH_EDM (\<lambda>temp.
        (temp AND NOT (push_bit SDEDM_READ_THRESHOLD_SHIFT SDEDM_THRESHOLD_MASK OR
                       push_bit SDEDM_WRITE_THRESHOLD_SHIFT SDEDM_THRESHOLD_MASK)) OR
        (push_bit SDEDM_READ_THRESHOLD_SHIFT SAFE_READ_THRESHOLD OR
         push_bit SDEDM_WRITE_THRESHOLD_SHIFT SAFE_WRITE_THRESHOLD)),
      udelay 300, set_power True, udelay 300]"

definition get_response :: "sdhost \<Rightarrow> sdhost act" where
  "get_response h =
     bind (rd SH_RSP0) (\<lambda>r0. bind (rd SH_RSP1) (\<lambda>r1. bind (rd SH_RSP2) (\<lambda>r2.
     bind (rd SH_RSP3) (\<lambda>r3. ret (h\<lparr>r := [r0, r1, r2, r3]\<rparr>)))))"

definition wait_and_get_response :: "sdhost \<Rightarrow> (bool \<times> sdhost) act" where
  "wait_and_get_response h =
     bind sd_wait (\<lambda>ok. if \<not> ok then ret (False, h)
     else bind (get_response h) (\<lambda>h'. bind (rd SH_CMD) (\<lambda>cmd.
       if cmd AND SH_CMD_FAIL_FLAG_SET \<noteq> 0
       then bind (rd SH_HSTS) (\<lambda>sts.
         if sts AND SDHSTS_ERROR_MASK \<noteq> 0
         then bind (steps [logf, peek SH_HSTS]) (\<lambda>_. ret (False, h'))
         else bind (steps [logf, peek SH_CMD]) (\<lambda>_. ret (False, h')))
       else ret (True, h'))))"

section \<open>Identification\<close>

fun op_cond_loop :: "nat \<Rightarrow> u32 \<Rightarrow> sdhost \<Rightarrow> (bool \<times> sdhost) act" where
  "op_cond_loop n t h =
     bind (send MMC_APP_CMD 0 h) (\<lambda>(_, h1). bind sd_wait (\<lambda>_.
     bind (send SD_APP_OP_COND t h1) (\<lambda>(_, h2). bind (wait_and_get_response h2) (\<lambda>(ok, h3).
       if \<not> ok then ret (False, h3)
       else if r h3 ! 0 AND MMC_OCR_MEM_READY \<noteq> 0 then ret (True, h3)
       else bind (steps [logf, udelay 100]) (\<lambda>_. case n of
           0 \<Rightarrow> (\<lambda>b. (Inl Hang, b))
         | Suc n' \<Rightarrow> op_cond_loop n' t h3)))))"

declare op_cond_loop.simps [simp del]

definition query_voltage_and_type :: "sdhost \<Rightarrow> (bool \<times> sdhost) act" where
  "query_voltage_and_type h =
     bind (send SD_SEND_IF_COND 0x1AA h) (\<lambda>(_, h1). bind (wait_and_get_response h1) (\<lambda>(_, h2).
     let v2 = (r h2 ! 0 = 0x1AA);
         t = (if v2 then MMC_OCR_3_3V_3_4V OR MMC_OCR_HCS else MMC_OCR_3_3V_3_4V);
         h3 = (if v2 then h2\<lparr>is_sdhc := True\<rparr> else h2)
     in bind (\<lambda>b. op_cond_loop (patience b) t h3 b) (\<lambda>(ok, h4).
        if \<not> ok then ret (False, h4)
        else let h5 = h4\<lparr>is_high_capacity := (r h4 ! 0 AND MMC_OCR_HCS = MMC_OCR_HCS)\<rparr>
             in bind logf (\<lambda>_. bind (whenever (is_high_capacity h5) logf) (\<lambda>_. ret (True, h5))))))"

definition identify_card :: "sdhost \<Rightarrow> (bool \<times> sdhost) act" where
  "identify_card h =
     bind logf (\<lambda>_. bind (send_136_resp MMC_ALL_SEND_CID 0 h) (\<lambda>(_, h).
     bind (wait_and_get_response h) (\<lambda>(ok, h). if \<not> ok then ret (False, h) else
     bind (send MMC_SET_RELATIVE_ADDR 0 h) (\<lambda>(_, h).
     bind (wait_and_get_response h) (\<lambda>(ok, h). if \<not> ok then ret (False, h) else
     let h = h\<lparr>rca := SD_R6_RCA (r h)\<rparr>
     in bind logf (\<lambda>_. bind (send_136_resp MMC_SEND_CID (MMC_ARG_RCA (rca h)) h) (\<lambda>(_, h).
     bind (wait_and_get_response h) (\<lambda>(ok, h). if \<not> ok then ret (False, h) else
     let h = h\<lparr>cid := r h\<rparr>
     in bind (send_136_resp MMC_SEND_CSD (MMC_ARG_RCA (rca h)) h) (\<lambda>(_, h).
     bind (wait_and_get_response h) (\<lambda>(ok, h). if \<not> ok then ret (False, h) else
     ret (True, h\<lparr>csd := r h\<rparr>)))))))))))"

definition select_card :: "sdhost \<Rightarrow> (bool \<times> sdhost) act" where
  "select_card h =
     bind (send MMC_SELECT_CARD (MMC_ARG_RCA (rca h)) h) (\<lambda>(_, h).
     bind sd_wait (\<lambda>ok. ret (ok, h)))"

definition init_card :: "sdhost \<Rightarrow> (bool \<times> sdhost) act" where
  "init_card h =
     bind (send_no_resp MMC_GO_IDLE_STATE 0 h) (\<lambda>(_, h).
     bind (query_voltage_and_type h) (\<lambda>(ok, h). if \<not> ok then bind logf (\<lambda>_. ret (False, h)) else
     bind (identify_card h) (\<lambda>(ok, h). if \<not> ok then bind logf (\<lambda>_. ret (False, h)) else
     bind logf (\<lambda>_. case csd_capacity (csd h) of
         None \<Rightarrow> ret (False, h)
       | Some (block_length, cap) \<Rightarrow>
           let h = h\<lparr>capacity_bytes := cap\<rparr>
           in bind (select_card h) (\<lambda>(ok, h). if \<not> ok then bind logf (\<lambda>_. ret (False, h)) else
              bind (if SD_CSD_CSDVER (csd h) = SD_CSD_CSDVER_1_0
                    then bind logf (\<lambda>_. bind (send MMC_SET_BLOCKLEN 512 h) (\<lambda>(_, h).
                      bind sd_wait (\<lambda>ok. ret (ok, h))))
                    else ret (True, h)) (\<lambda>(ok, h).
              if \<not> ok then bind logf (\<lambda>_. ret (False, h)) else
              let h = h\<lparr>block_size := 512\<rparr>
              in bind (steps [logf, logf, wr SH_CDIV (5 - 2)]) (\<lambda>_. ret (True, h))))))))"

section \<open>Reading blocks\<close>

fun wait_fifo :: "nat \<Rightarrow> sdhost \<Rightarrow> (bool \<times> sdhost) act" where
  "wait_fifo t h = bind (rd SH_HSTS) (\<lambda>v.
     if v AND SH_HSTS_DATA_FLAG_SET \<noteq> 0 then ret (True, h)
     else bind (maybe_record_sample 3 False h) (\<lambda>h. case t of
         0 \<Rightarrow> bind logf (\<lambda>_. ret (False, h))
       | Suc t' \<Rightarrow> bind (udelay 5) (\<lambda>_. wait_fifo t' h)))"

declare wait_fifo.simps [simp del]

definition wait_for_fifo_data :: "sdhost \<Rightarrow> (bool \<times> sdhost) act" where
  "wait_for_fifo_data h = wait_fifo 100000 h"

fun drain_loop :: "nat \<Rightarrow> unit act" where
  "drain_loop 0 = (\<lambda>b. (Inl Hang, b))"
| "drain_loop (Suc n) = bind (rd SH_HSTS) (\<lambda>v.
     if v AND SH_HSTS_DATA_FLAG_SET \<noteq> 0 then bind (peek SH_DATA) (\<lambda>_. drain_loop n) else ret ())"

definition drain_fifo :: "unit act" where
  "drain_fifo = bind sd_wait (\<lambda>_ b. drain_loop (patience b) b)"

fun drain_nowait_loop :: "nat \<Rightarrow> unit act" where
  "drain_nowait_loop 0 = (\<lambda>b. (Inl Hang, b))"
| "drain_nowait_loop (Suc n) = bind (peek SH_DATA) (\<lambda>_. bind (rd SH_HSTS) (\<lambda>hsts.
     if hsts \<noteq> SH_HSTS_DATA_FLAG_SET then ret () else drain_nowait_loop n))"

definition drain_fifo_nowait :: "unit act" where
  "drain_fifo_nowait = (\<lambda>b. drain_nowait_loop (patience b) b)"

text \<open>
  The word loop of \<^verbatim>\<open>read_block\<close>. The error status it computes is a variable of the loop
  body that hides the outer one, so it ends the loop and is lost.
\<close>

fun fifo_words :: "nat \<Rightarrow> sdhost \<Rightarrow> (u32 list \<times> sdhost) act" where
  "fifo_words 0 h = ret ([], h)"
| "fifo_words (Suc n) h =
     bind (maybe_record_sample 3 False h) (\<lambda>h. bind (wait_for_fifo_data h) (\<lambda>(ok, h).
     if \<not> ok then ret ([], h) else
     bind (maybe_record_sample 3 False h) (\<lambda>h. bind (rd SH_HSTS) (\<lambda>hsts.
     if hsts AND SDHSTS_ERROR_MASK \<noteq> 0
     then bind (steps [logf, peek SH_HSTS, peek SH_EDM]) (\<lambda>_. ret ([], h))
     else bind (rd SH_DATA) (\<lambda>d. bind (fifo_words n h) (\<lambda>(ds, h). ret (d # ds, h)))))))"

text \<open>The block count as a number of words: an \<^verbatim>\<open>int\<close> loop bound, so it may be negative.\<close>

definition chunks :: "u32 \<Rightarrow> nat" where
  "chunks count = nat (sint (128 * count))"

definition read_block :: "u32 \<Rightarrow> u32 \<Rightarrow> sdhost \<Rightarrow> (bool \<times> u32 list \<times> sdhost) act" where
  "read_block sector count h =
     (let h = h\<lparr>last_sample := 0\<rparr>
      in bind (wr SH_HBCT (block_size h)) (\<lambda>_. bind (wr SH_HBLC count) (\<lambda>_.
      bind (maybe_record_sample 0 False h) (\<lambda>h.
      if \<not> card_ready h then panic ''card not ready'' else
      let sector = (if \<not> is_high_capacity h then push_bit 9 sector else sector)
      in bind (maybe_record_sample 1 False h) (\<lambda>h. bind drain_fifo (\<lambda>_.
      bind (send_raw ((if count = 1 then MMC_READ_BLOCK_SINGLE else MMC_READ_BLOCK_MULTIPLE)
          OR SH_CMD_READ_CMD_SET OR SH_CMD_BUSY_CMD_SET) sector h) (\<lambda>(_, h).
      bind sd_wait (\<lambda>_. bind (maybe_record_sample 2 True h) (\<lambda>h.
      let hsts_err = 0 :: u32
      in bind (fifo_words (chunks count) h) (\<lambda>(ws, h).
      bind (maybe_record_sample 4 False h) (\<lambda>h.
      bind (send_raw (MMC_STOP_TRANSMISSION OR SH_CMD_BUSY_CMD_SET) 0 h) (\<lambda>(_, h).
      bind (maybe_record_sample 5 False h) (\<lambda>h.
      if hsts_err \<noteq> 0 then bind (steps [logf, peek SH_HSTS]) (\<lambda>_. ret (False, ws, h))
      else ret (True, ws, h))))))))))))))"

section \<open>Start and stop\<close>

fun flush_cycles :: "nat \<Rightarrow> sdhost \<Rightarrow> sdhost act" where
  "flush_cycles 0 h = ret h"
| "flush_cycles (Suc n) h = bind (read_block 0 1 h) (\<lambda>(ok, _, h).
     if \<not> ok then panic ''fifo flush cycle %d failed'' else flush_cycles n h)"

definition restart_controller :: "sdhost \<Rightarrow> sdhost act" where
  "restart_controller h =
     (let h = h\<lparr>is_sdhc := False\<rparr>
      in bind (steps
        [logf, peek SH_HCFG, peek SH_CDIV, peek SH_EDM, peek SH_HSTS, logf,
         configure_pinmux, reset_controller,
         rmw SH_HCFG (\<lambda>v. v AND NOT SH_HCFG_WIDE_EXT_BUS_SET),
         wr SH_HCFG (SH_HCFG_SLOW_CARD_SET OR SH_HCFG_WIDE_INT_BUS_SET),
         wr SH_CDIV kIdentSafeClockRate, udelay 300]) (\<lambda>_.
      bind (init_card h) (\<lambda>(ok, h).
        if ok then flush_cycles 3 (h\<lparr>card_ready := True\<rparr>)
        else panic ''failed to reinitialize the eMMC controller'')))"

definition stop_driver :: "sdhost \<Rightarrow> sdhost act" where
  "stop_driver h =
     bind (if card_ready h
           then bind (steps [logf, drain_fifo_nowait, logf, wr SH_CDIV kIdentSafeClockRate, udelay 150]) (\<lambda>_.
             bind (send_no_resp MMC_GO_IDLE_STATE 0 h) (\<lambda>(_, h). bind (udelay 500) (\<lambda>_. ret h)))
           else ret h) (\<lambda>h.
     bind (steps
       [logf, wr SH_CMD 0, wr SH_ARG 0, wr SH_TOUT 0xA00000, wr SH_CDIV 0x1FB,
        logf, wr SH_VDD 0, wr SH_HCFG 0, wr SH_HBCT 0x400, wr SH_HBLC 0, wr SH_HSTS 0x7F8,
        logf, wr SH_CMD 0, wr SH_ARG 0]) (\<lambda>_. ret h))"

definition sdhost_init :: "sdhost \<Rightarrow> sdhost act" where
  "sdhost_init h = bind (restart_controller h) (\<lambda>h. bind logf (\<lambda>_. ret h))"

text \<open>The driver pointer: null until the controller was started.\<close>

definition get_sdhost_device :: "sdhost option \<Rightarrow> sdhost act" where
  "get_sdhost_device g = (case g of None \<Rightarrow> panic ''sdhost not initialized yet'' | Some h \<Rightarrow> ret h)"

end
