(* ===== verification/Device.thy ===== *)
theory Device
  imports Sdram
begin

text \<open>
  Devices as state machines. The environment of a bus is a function of the whole history;
  a device is the environment that folds the history into a state and answers from the
  state, next to a microsecond counter that advances by a thousand with every access. The
  interface \<open>device\<close> is what driver code relies on: reading the counter does not disturb
  the device. Its lemmas run the accesses and the delays of a driver against any such device.
\<close>

definition device_at :: "(ev \<Rightarrow> 's \<Rightarrow> 's) \<Rightarrow> ('s \<Rightarrow> u32 \<Rightarrow> u32) \<Rightarrow> 's \<Rightarrow> bus \<Rightarrow> bool" where
  "device_at step out s b \<longleftrightarrow>
     (\<exists>s0. env b = (\<lambda>h a. if a = ST_CLO then of_nat (1000 * length h) else out (foldr step h s0) a) \<and>
       foldr step (hist b) s0 = s \<and> patience b > 0)"

lemma device_at_start:
  "0 < n \<Longrightarrow> device_at step out s
     \<lparr>env = \<lambda>h a. if a = ST_CLO then of_nat (1000 * length h) else out (foldr step h s) a,
      hist = [], patience = n\<rparr>"
  by (auto simp: device_at_def)

lemma device_at_patience: "device_at step out s b \<Longrightarrow> \<exists>n. patience b = Suc n"
  by (auto simp: device_at_def gr0_conv_Suc)

locale device =
  fixes step :: "ev \<Rightarrow> 's \<Rightarrow> 's" and out :: "'s \<Rightarrow> u32 \<Rightarrow> u32"
  assumes clock_apart: "step (Rd ST_CLO v) s = s"
begin

lemma runs_wr: "runs (device_at step out s) (wr a v) (\<lambda>_. device_at step out (step (Wr a v) s))"
  by (rule runsI) (auto simp: device_at_def wr_run)

lemma runs_rd:
  assumes "a \<noteq> ST_CLO"
  shows "runs (device_at step out s) (rd a)
    (\<lambda>v b. v = out s a \<and> device_at step out (step (Rd a (out s a)) s) b)"
  using assms by (intro runsI) (auto simp: device_at_def rd_run)

lemma runs_clock: "runs (device_at step out s) (rd ST_CLO) (\<lambda>_. device_at step out s)"
  by (rule runsI) (auto simp: device_at_def rd_run clock_apart)

lemma runs_peek_clock: "runs (device_at step out s) (peek ST_CLO) (\<lambda>_. device_at step out s)"
  unfolding peek_def by (rule runs_bind [OF runs_clock]) (simp add: runs_ret)

lemma runs_logf: "runs (device_at step out s) logf (\<lambda>_. device_at step out s)"
  unfolding logf_def by (rule runs_peek_clock)

lemma runs_udelay:
  assumes "t < 1000"
  shows "runs (device_at step out s) (udelay t) (\<lambda>_. device_at step out s)"
proof (rule runsI)
  fix b
  assume b: "device_at step out s b"
  then obtain n where n: "patience b = Suc n"
    using device_at_patience [of step out s b] by auto
  let ?now = "\<lambda>k. 1000 * of_nat k :: u32"
  have now: "env b h ST_CLO = ?now (length h)" for h
    using b by (auto simp: device_at_def)
  let ?b1 = "b\<lparr>hist := Rd ST_CLO (?now (length (hist b))) # hist b\<rparr>"
  let ?b2 = "b\<lparr>hist := Rd ST_CLO (?now (Suc (length (hist b)))) # hist ?b1\<rparr>"
  have "t < ?now (Suc (length (hist b))) - ?now (length (hist b))"
    using assms by (simp add: algebra_simps)
  then have "poll_loop (Suc n) ST_CLO (\<lambda>v. v - ?now (length (hist b)) > t) ?b1
      = (Inr (?now (Suc (length (hist b)))), ?b2)"
    by (simp add: bind_def rd_run ret_run now)
  then have "udelay t b = (Inr (), ?b2)"
    by (simp add: udelay_def await_def poll_def bind_def rd_run ret_run now n)
  moreover have "device_at step out s ?b2"
    using b by (auto simp: device_at_def clock_apart)
  ultimately show "\<exists>x b'. udelay t b = (Inr x, b') \<and> device_at step out s b'"
    by blast
qed

lemma runs_whenever:
  "(c \<Longrightarrow> runs P m (\<lambda>_. Q)) \<Longrightarrow> (\<not> c \<Longrightarrow> runs P (ret ()) (\<lambda>_. Q)) \<Longrightarrow> runs P (whenever c m) (\<lambda>_. Q)"
  by (simp add: whenever_def)

end

end
