(* ===== verification/BlockDevice.thy ===== *)
theory BlockDevice
  imports Bus
begin

text \<open>
  The interface \<^verbatim>\<open>src/arm_chainloader/drivers/block_device.hpp\<close>: what a provider of
  \<^verbatim>\<open>read_block\<close> promises to the partition and file system layers. \<open>ready\<close> says that the
  driver object and the hardware are set up, \<open>sectors\<close> how many sectors can be addressed,
  \<open>content\<close> what is in each of them: 128 words.
\<close>

locale block_device =
  fixes ready :: "'h \<Rightarrow> bus \<Rightarrow> bool"
    and read_block :: "u32 \<Rightarrow> u32 \<Rightarrow> 'h \<Rightarrow> (bool \<times> u32 list \<times> 'h) act"
    and sectors :: nat
    and content :: "u32 \<Rightarrow> u32 list"
  assumes content_length: "length (content s) = 128"
    and read_ok: "unat s + unat n \<le> sectors \<Longrightarrow> unat n < 2 ^ 24 \<Longrightarrow>
      runs (ready h) (read_block s n h)
        (\<lambda>(ok, ws, h') b. ok \<and> ws = concat (map (\<lambda>i. content (s + of_nat i)) [0..<unat n]) \<and> ready h' b)"
begin

lemma read_one:
  assumes "unat s < sectors"
  shows "runs (ready h) (read_block s 1 h) (\<lambda>(ok, ws, h') b. ok \<and> ws = content s \<and> ready h' b)"
  using read_ok [of s 1 h] assms by simp

lemma read_length:
  assumes "unat s + unat n \<le> sectors" and "unat n < 2 ^ 24"
  shows "runs (ready h) (read_block s n h) (\<lambda>(ok, ws, h') b. ok \<and> length ws = 128 * unat n \<and> ready h' b)"
proof -
  have "length (concat (map (\<lambda>i. content (s + of_nat i)) is)) = 128 * length is" for "is"
    by (induction "is") (simp_all add: content_length)
  from this [of "[0..<unat n]"] show ?thesis
    by (intro runs_post [OF read_ok [OF assms]]) auto
qed

end

end
