(* ===== verification/SdCard.thy ===== *)
theory SdCard
  imports SdHost Device BlockDevice
begin

unbundle bit_operations_syntax

text \<open>
  The SD host driver against a card: a controller whose command register is never busy, with
  a card that answers the identification commands and, from a read command on, delivers the
  words of the addressed sectors one per read of the data register. A high-capacity card is
  addressed by sectors, another one by bytes. The field \<open>fault\<close> holds error bits that the
  controller shows while data is read. The driver on such a card provides the block
  device interface that the partition layer relies on.
\<close>

section \<open>The card\<close>

record sdcard =
  hc :: bool
  disk :: "u32 \<Rightarrow> u32 list"
  card_rca :: u32
  card_cid :: "u32 list"
  card_csd :: "u32 list"
  fault :: u32

record card =
  c_arg :: u32
  c_cmd :: u32
  c_addr :: u32
  reading :: bool
  taken :: nat

definition card_step :: "ev \<Rightarrow> card \<Rightarrow> card" where
  "card_step e c = (case e of
       Wr a v \<Rightarrow>
         if a = SH_ARG then c\<lparr>c_arg := v\<rparr>
         else if a = SH_CMD then
           c\<lparr>c_cmd := v AND SH_CMD_COMMAND_SET, c_addr := c_arg c,
             reading := (v AND SH_CMD_READ_CMD_SET \<noteq> 0), taken := 0\<rparr>
         else c
     | Rd a v \<Rightarrow> if a = SH_DATA then c\<lparr>taken := taken c + 1\<rparr> else c)"

definition card_sector :: "sdcard \<Rightarrow> card \<Rightarrow> u32" where
  "card_sector d c = (if hc d then c_addr c else drop_bit 9 (c_addr c))"

definition card_word :: "sdcard \<Rightarrow> u32 \<Rightarrow> nat \<Rightarrow> u32" where
  "card_word d sector k = disk d (sector + of_nat (k div 128)) ! (k mod 128)"

definition response :: "sdcard \<Rightarrow> u32 \<Rightarrow> u32 list" where
  "response d cmd =
     (if cmd = SD_SEND_IF_COND then [0x1AA, 0, 0, 0]
      else if cmd = SD_APP_OP_COND then
        [MMC_OCR_MEM_READY OR (if hc d then MMC_OCR_HCS else 0), 0, 0, 0]
      else if cmd = MMC_SET_RELATIVE_ADDR then [push_bit 16 (card_rca d), 0, 0, 0]
      else if cmd = MMC_SEND_CID then card_cid d
      else if cmd = MMC_SEND_CSD then card_csd d
      else [0, 0, 0, 0])"

definition card_out :: "sdcard \<Rightarrow> card \<Rightarrow> u32 \<Rightarrow> u32" where
  "card_out d c a =
     (if a = SH_HSTS then (if reading c then SH_HSTS_DATA_FLAG_SET OR fault d else 0)
      else if a = SH_DATA then card_word d (card_sector d c) (taken c)
      else if a = SH_RSP0 then response d (c_cmd c) ! 0
      else if a = SH_RSP1 then response d (c_cmd c) ! 1
      else if a = SH_RSP2 then response d (c_cmd c) ! 2
      else if a = SH_RSP3 then response d (c_cmd c) ! 3
      else 0)"

abbreviation card_at :: "sdcard \<Rightarrow> card \<Rightarrow> bus \<Rightarrow> bool" where
  "card_at d c \<equiv> device_at card_step (card_out d) c"

lemma card_step_simps:
  "a \<noteq> SH_DATA \<Longrightarrow> card_step (Rd a v) c = c"
  "card_step (Rd SH_DATA v) c = c\<lparr>taken := taken c + 1\<rparr>"
  "a \<noteq> SH_ARG \<Longrightarrow> a \<noteq> SH_CMD \<Longrightarrow> card_step (Wr a v) c = c"
  "card_step (Wr SH_ARG v) c = c\<lparr>c_arg := v\<rparr>"
  "card_step (Wr SH_CMD v) c =
     c\<lparr>c_cmd := v AND SH_CMD_COMMAND_SET, c_addr := c_arg c,
       reading := (v AND SH_CMD_READ_CMD_SET \<noteq> 0), taken := 0\<rparr>"
  by (simp_all add: card_step_def reg_defs)

interpretation card: device card_step "card_out d" for d
  by unfold_locales (simp add: card_step_def reg_defs)

section \<open>Single accesses\<close>

text \<open>Reads that answer a known value and leave the card as it is; writes it ignores.\<close>

lemma card_rd:
  assumes "a \<noteq> ST_CLO" and "a \<noteq> SH_DATA"
  shows "runs (card_at d c) (rd a) (\<lambda>v b. v = card_out d c a \<and> card_at d c b)"
  using card.runs_rd [OF assms(1), of d c] assms(2) by (simp add: card_step_simps)

lemma card_wr:
  assumes "a \<noteq> SH_ARG" and "a \<noteq> SH_CMD"
  shows "runs (card_at d c) (wr a v) (\<lambda>_. card_at d c)"
  using card.runs_wr [of d c a v] assms by (simp add: card_step_simps)

lemma card_out_simps:
  "card_out d c SH_CMD = 0"
  "card_out d c SH_EDM = 0"
  "card_out d c SH_HSTS = (if reading c then SH_HSTS_DATA_FLAG_SET OR fault d else 0)"
  "card_out d c SH_DATA = card_word d (card_sector d c) (taken c)"
  "card_out d c SH_RSP0 = response d (c_cmd c) ! 0"
  "card_out d c SH_RSP1 = response d (c_cmd c) ! 1"
  "card_out d c SH_RSP2 = response d (c_cmd c) ! 2"
  "card_out d c SH_RSP3 = response d (c_cmd c) ! 3"
  by (simp_all add: card_out_def reg_defs)

lemma sh_addresses:
  "SH_CMD \<noteq> ST_CLO" "SH_CMD \<noteq> SH_DATA" "SH_EDM \<noteq> ST_CLO" "SH_EDM \<noteq> SH_DATA"
  "SH_HSTS \<noteq> ST_CLO" "SH_HSTS \<noteq> SH_DATA" "SH_DATA \<noteq> ST_CLO"
  "SH_HSTS \<noteq> SH_ARG" "SH_HSTS \<noteq> SH_CMD" "SH_HBCT \<noteq> SH_ARG" "SH_HBCT \<noteq> SH_CMD"
  "SH_HBLC \<noteq> SH_ARG" "SH_HBLC \<noteq> SH_CMD"
  by (simp_all add: reg_defs)

lemma card_wait: "runs (card_at d c) sd_wait (\<lambda>ok b. ok = True \<and> card_at d c b)"
  unfolding sd_wait_def
  by (subst wait_cmd.simps, rule runs_bind_value [OF card_rd])
    (simp_all add: sh_addresses card_out_simps runs_ret)

text \<open>What the methods change of the object besides their purpose.\<close>

definition same :: "sdhost \<Rightarrow> sdhost \<Rightarrow> bool" where
  "same h h' \<longleftrightarrow> (\<exists>ss n c. h' = h\<lparr>samples := ss, last_sample := n, current_cmd := c\<rparr>)"

lemma same_refl [simp]: "same h h"
  unfolding same_def by (intro exI [of _ "samples h"] exI [of _ "last_sample h"] exI [of _ "current_cmd h"]) simp

lemma same_trans: "same h h' \<Longrightarrow> same h' h'' \<Longrightarrow> same h h''"
  unfolding same_def by (elim exE) (simp, blast)

lemma same_fields:
  assumes "same h h'"
  shows "card_ready h' = card_ready h" "is_high_capacity h' = is_high_capacity h"
    "block_size h' = block_size h" "rca h' = rca h" "csd h' = csd h" "cid h' = cid h" "r h' = r h"
    "is_sdhc h' = is_sdhc h" "capacity_bytes h' = capacity_bytes h"
  using assms by (auto simp: same_def)

lemma card_sample:
  "runs (card_at d c) (maybe_record_sample tag force h) (\<lambda>h' b. same h h' \<and> card_at d c b)"
proof -
  have rec: "same h (h\<lparr>samples := ss, last_sample := n\<rparr>)" for ss n
    unfolding same_def by (intro exI [of _ ss] exI [of _ n] exI [of _ "current_cmd h"]) simp
  show ?thesis
    unfolding maybe_record_sample_def Let_def
    by (auto intro!: runs_ret runs_bind_value [OF card_rd] runs_bind [OF card.runs_clock] rec
      simp: sh_addresses)
qed

definition commanded :: "u32 \<Rightarrow> u32 \<Rightarrow> card" where
  "commanded command arg =
     \<lparr>c_arg = arg, c_cmd = command AND SH_CMD_COMMAND_SET, c_addr = arg,
      reading = (command AND SH_CMD_READ_CMD_SET \<noteq> 0), taken = 0\<rparr>"

lemma card_send_raw:
  "runs (card_at d c) (send_raw command arg h)
     (\<lambda>(ok, h') b. ok \<and> same h h' \<and> card_at d (commanded command arg) b)"
proof -
  have clear: "runs (card_at d c) (whenever e (wr SH_HSTS v)) (\<lambda>_. card_at d c)" for e v
    by (rule card.runs_whenever) (simp_all add: card_wr sh_addresses runs_ret)
  have cmd: "card_step (Wr SH_CMD (command OR SH_CMD_NEW_FLAG_SET)) (card_step (Wr SH_ARG arg) c)
      = commanded command arg"
  proof -
    have "(command OR SH_CMD_NEW_FLAG_SET) AND SH_CMD_COMMAND_SET = command AND SH_CMD_COMMAND_SET"
      "(command OR SH_CMD_NEW_FLAG_SET) AND SH_CMD_READ_CMD_SET = command AND SH_CMD_READ_CMD_SET"
      by (simp_all add: reg_defs bit.conj_disj_distrib2)
    then show ?thesis by (cases c) (simp add: card_step_simps commanded_def)
  qed
  have h: "same h (h\<lparr>current_cmd := x\<rparr>)" for x
    unfolding same_def by (intro exI [of _ "samples h"] exI [of _ "last_sample h"] exI [of _ x]) simp
  show ?thesis
    unfolding send_raw_def Let_def
    apply (rule runs_bind_value [OF card_wait])
    apply (rule runs_bind_value [OF card_rd], simp_all only: sh_addresses not_False_eq_True)
    apply (rule runs_bind [OF clear])
    apply (rule runs_bind [OF card.runs_wr])
    apply (rule runs_bind [OF card.runs_wr])
    apply (rule runs_ret, simp add: cmd h)
    done
qed


section \<open>Reading blocks\<close>

lemma card_fifo_ready:
  assumes "reading c"
  shows "runs (card_at d c) (wait_for_fifo_data h) (\<lambda>x b. x = (True, h) \<and> card_at d c b)"
  unfolding wait_for_fifo_data_def using assms
  by (subst wait_fifo.simps, intro runs_bind_value [OF card_rd])
    (simp_all add: sh_addresses card_out_simps runs_ret, simp_all add: reg_defs bit.conj_disj_distrib2)

lemma card_data:
  "runs (card_at d c) (rd SH_DATA) (\<lambda>v b. v = card_word d (card_sector d c) (taken c) \<and>
     card_at d (c\<lparr>taken := taken c + 1\<rparr>) b)"
  using card.runs_rd [of SH_DATA d c] by (simp add: sh_addresses card_step_simps card_out_simps)

lemma card_fifo_words:
  assumes "reading c" and "fault d AND SDHSTS_ERROR_MASK = 0"
  shows "runs (card_at d c) (fifo_words n h)
    (\<lambda>(ws, h') b. ws = map (card_word d (card_sector d c)) [taken c..<taken c + n] \<and> same h h' \<and>
       card_at d (c\<lparr>taken := taken c + n\<rparr>) b)"
  using assms
proof (induction n arbitrary: h c)
  case 0
  then show ?case by (simp add: runs_ret)
next
  case (Suc n)
  let ?c = "c\<lparr>taken := taken c + 1\<rparr>"
  have sts: "card_out d c SH_HSTS AND SDHSTS_ERROR_MASK = 0"
    unfolding card_out_simps using Suc.prems(2)
    by (simp add: bit.conj_disj_distrib2) (simp add: sdhsts_defs reg_defs)
  have words: "map f [taken c..<taken c + Suc n] = f (taken c) # map f [Suc (taken c)..<Suc (taken c) + n]"
    for f :: "nat \<Rightarrow> u32"
    by (simp only: upt_conv_Cons [of "taken c" "taken c + Suc n"] list.map) simp
  have rest: "runs (card_at d ?c) (fifo_words n h2)
      (\<lambda>(ws, h') b. ws = map (card_word d (card_sector d c)) [Suc (taken c)..<Suc (taken c) + n] \<and>
         same h2 h' \<and> card_at d (c\<lparr>taken := taken c + Suc n\<rparr>) b)" for h2
  proof -
    have "card_sector d ?c = card_sector d c" "taken ?c = Suc (taken c)" "reading ?c"
      "?c\<lparr>taken := Suc (taken c) + n\<rparr> = c\<lparr>taken := taken c + Suc n\<rparr>"
      using Suc.prems by (simp_all add: card_sector_def)
    then show ?thesis using Suc.IH [of ?c h2] Suc.prems(2) by (simp only: simp_thms)
  qed
  show ?case
    unfolding fifo_words.simps
    apply (rule runs_bind [OF card_sample], rule runs_conj)
    subgoal for h1
      apply (rule runs_bind_value [OF card_fifo_ready [OF Suc.prems(1)]])
      apply (simp only: prod.case simp_thms if_False)
      apply (rule runs_bind [OF card_sample], rule runs_conj)
      subgoal for h2
        apply (rule runs_bind_value [OF card_rd], simp add: sh_addresses, simp add: sh_addresses)
        apply (simp only: sts simp_thms if_False)
        apply (rule runs_bind_value [OF card_data])
        apply (rule runs_bind [OF rest])
        subgoal for x
          by (cases x) (auto simp only: prod.case simp_thms words intro!: runs_ret intro: same_trans)
        done
      done
    done
qed

text \<open>
  The driver is ready: it identified the card, knows how the card is addressed, and no read
  is under way.
\<close>

definition sd_ready :: "sdcard \<Rightarrow> sdhost \<Rightarrow> bus \<Rightarrow> bool" where
  "sd_ready d h b \<longleftrightarrow> card_ready h \<and> is_high_capacity h = hc d \<and>
     fault d AND SDHSTS_ERROR_MASK = 0 \<and> (\<exists>c. \<not> reading c \<and> card_at d c b)"

definition sd_sectors :: "sdcard \<Rightarrow> nat" where
  "sd_sectors d = (if hc d then 2 ^ 32 else 2 ^ 23)"

lemma card_drain:
  assumes "\<not> reading c"
  shows "runs (card_at d c) drain_fifo (\<lambda>_. card_at d c)"
  unfolding drain_fifo_def
proof (rule runs_bind_value [OF card_wait], rule runsI)
  fix b
  assume b: "card_at d c b"
  then obtain n where n: "patience b = Suc n"
    using device_at_patience [of card_step] by blast
  have "runs (card_at d c) (drain_loop (Suc n)) (\<lambda>_. card_at d c)"
    unfolding drain_loop.simps using assms
    by (intro runs_bind_value [OF card_rd]) (simp_all add: sh_addresses card_out_simps runs_ret)
  from runsD [OF this b] n show "\<exists>x b'. drain_loop (patience b) b = (Inr x, b') \<and> card_at d c b'"
    by simp
qed

lemma card_word_split:
  "map (card_word d s) [0..<128 * n] =
     concat (map (\<lambda>i. map (\<lambda>j. disk d (s + of_nat i) ! j) [0..<128]) [0..<n])"
proof (induction n)
  case 0
  show ?case by simp
next
  case (Suc n)
  have "map (card_word d s) [128 * n..<128 * n + 128] = map (\<lambda>j. disk d (s + of_nat n) ! j) [0..<128]"
    by (rule nth_equalityI) (simp_all add: card_word_def)
  moreover have "[0..<128 * Suc n] = [0..<128 * n] @ [128 * n..<128 * n + 128]"
    using upt_add_eq_append [of 0 "128 * n" 128] by (simp add: algebra_simps)
  ultimately show ?case using Suc by simp
qed


text \<open>The same steps, relative to the object the method started with.\<close>

lemma card_sample_from:
  assumes "same h0 h"
  shows "runs (card_at d c) (maybe_record_sample tag force h) (\<lambda>h' b. same h0 h' \<and> card_at d c b)"
  using same_trans [OF assms] by (intro runs_post [OF card_sample]) blast

lemma card_send_from:
  assumes "same h0 h"
  shows "runs (card_at d c) (send_raw command arg h)
     (\<lambda>(ok, h') b. ok \<and> same h0 h' \<and> card_at d (commanded command arg) b)"
  using same_trans [OF assms] by (intro runs_post [OF card_send_raw]) auto

text \<open>What the word loop stores: all words, or none when the controller shows an error.\<close>

definition delivered :: "sdcard \<Rightarrow> u32 \<Rightarrow> nat \<Rightarrow> u32 list" where
  "delivered d sector n =
     (if fault d AND SDHSTS_ERROR_MASK = 0 then map (card_word d sector) [0..<n] else [])"

lemma card_fifo_fault:
  assumes "reading c" and "fault d AND SDHSTS_ERROR_MASK \<noteq> 0"
  shows "runs (card_at d c) (fifo_words n h) (\<lambda>(ws, h') b. ws = [] \<and> same h h' \<and> card_at d c b)"
proof (cases n)
  case 0
  then show ?thesis by (simp add: runs_ret)
next
  case (Suc m)
  have sts: "(card_out d c SH_HSTS AND SDHSTS_ERROR_MASK \<noteq> 0) = True"
    unfolding card_out_simps using assms
    by (simp add: bit.conj_disj_distrib2) (simp add: sdhsts_defs reg_defs)
  have look: "runs (card_at d c) (peek a) (\<lambda>_. card_at d c)" if "a \<noteq> SH_DATA" for a
  proof (cases "a = ST_CLO")
    case True
    then show ?thesis using card.runs_peek_clock [of d c] by simp
  next
    case False
    with that show ?thesis
      unfolding peek_def by (intro runs_bind_value [OF card_rd] runs_ret) simp_all
  qed
  have log: "runs (card_at d c) (steps [logf, peek SH_HSTS, peek SH_EDM]) (\<lambda>_. card_at d c)"
    by (intro runs_steps_Cons [OF card.runs_logf] runs_steps_Cons [OF look] runs_steps_Nil) (simp_all add: sh_addresses)
  show ?thesis
    unfolding Suc fifo_words.simps
    apply (rule runs_bind [OF card_sample], rule runs_conj)
    apply (rule runs_bind_value [OF card_fifo_ready [OF assms(1)]])
    apply (simp only: prod.case simp_thms if_False)
    apply (rule runs_bind [OF card_sample_from], assumption, rule runs_conj)
    apply (rule runs_bind_value [OF card_rd], simp add: sh_addresses, simp add: sh_addresses)
    apply (simp only: sts if_True)
    apply (rule runs_bind [OF log], rule runs_ret, simp)
    done
qed

lemma card_fifo_from:
  assumes "reading c" and "taken c = 0" and "same h0 h"
  shows "runs (card_at d c) (fifo_words n h)
    (\<lambda>(ws, h') b. ws = delivered d (card_sector d c) n \<and> same h0 h' \<and> (\<exists>k. card_at d (c\<lparr>taken := k\<rparr>) b))"
proof (cases "fault d AND SDHSTS_ERROR_MASK = 0")
  case True
  then show ?thesis
    using same_trans [OF assms(3)] assms(2)
    by (intro runs_post [OF card_fifo_words [OF assms(1)]]) (auto simp: delivered_def)
next
  case False
  have "c = c\<lparr>taken := taken c\<rparr>"
    by simp
  with False show ?thesis
    using same_trans [OF assms(3)]
    by (intro runs_post [OF card_fifo_fault [OF assms(1)]]) (auto simp: delivered_def intro: exI [of _ "taken c"])
qed

definition read_command :: "u32 \<Rightarrow> u32" where
  "read_command count =
     (if count = 1 then MMC_READ_BLOCK_SINGLE else MMC_READ_BLOCK_MULTIPLE)
       OR SH_CMD_READ_CMD_SET OR SH_CMD_BUSY_CMD_SET"

lemma reading_commanded:
  "reading (commanded (read_command count) arg)"
  "\<not> reading (commanded (MMC_STOP_TRANSMISSION OR SH_CMD_BUSY_CMD_SET) arg)"
  by (simp_all add: commanded_def read_command_def sd_commands reg_defs)

lemma card_read_block_same:
  assumes h: "card_ready h" "is_high_capacity h = hc d" and "\<not> reading c"
  shows "runs (card_at d c) (read_block sector count h)
    (\<lambda>(ok, ws, h') b. ok \<and>
       ws = delivered d (if hc d then sector else drop_bit 9 (push_bit 9 sector)) (chunks count) \<and>
       same (h\<lparr>last_sample := 0\<rparr>) h' \<and> (\<exists>c. \<not> reading c \<and> card_at d c b))"
proof -
  let ?sector = "if \<not> hc d then push_bit 9 sector else sector"
  let ?c = "commanded (read_command count) ?sector"
  let ?stop = "commanded (MMC_STOP_TRANSMISSION OR SH_CMD_BUSY_CMD_SET) 0"
  have sec: "card_sector d ?c = (if hc d then sector else drop_bit 9 (push_bit 9 sector))"
    by (simp add: card_sector_def commanded_def)
  have tk: "taken ?c = 0"
    by (simp add: commanded_def)
  let ?ws = "delivered d (card_sector d ?c) (chunks count)"
  have h0: "same (h\<lparr>last_sample := 0\<rparr>) h'  \<Longrightarrow> card_ready h' \<and> is_high_capacity h' = hc d" for h'
    using h by (auto simp: same_def)
  have body: "runs (card_at d c) (read_block sector count h)
    (\<lambda>(ok, ws, h') b. ok \<and> ws = ?ws \<and> same (h\<lparr>last_sample := 0\<rparr>) h' \<and> card_at d ?stop b)"
    unfolding read_block_def Let_def
    apply (rule runs_bind [OF card_wr], simp_all only: sh_addresses simp_thms)
    apply (rule runs_bind [OF card_wr], simp_all only: sh_addresses simp_thms)
    apply (rule runs_bind [OF card_sample_from [OF same_refl]], rule runs_conj)
    subgoal for _ _ h1
      using h0 [of h1]
      apply (simp only: simp_thms if_False)
      apply (rule runs_bind [OF card_sample_from], assumption, rule runs_conj)
      apply (rule runs_bind [OF card_drain [OF assms(3)]])
      apply (rule runs_bind [OF card_send_from], assumption, fold read_command_def)
      subgoal for h2 _ x
        apply (cases x, simp only: prod.case conj_assoc)
        apply (rule runs_conj)+
        apply (rule runs_bind_value [OF card_wait])
        apply (rule runs_bind [OF card_sample_from], assumption, rule runs_conj)
        apply (rule runs_bind [OF card_fifo_from], rule reading_commanded, rule tk, assumption)
        subgoal for _ h3 h4 y
          apply (cases y, simp only: prod.case conj_assoc)
          apply (rule runs_conj runs_ex)+
          apply (rule runs_bind [OF card_sample_from], assumption, rule runs_conj)
          apply (rule runs_bind [OF card_send_from], assumption)
          subgoal for _ h5 k h6 z
            apply (cases z, simp only: prod.case conj_assoc)
            apply (rule runs_conj)+
            apply (rule runs_bind [OF card_sample_from], assumption, rule runs_conj)
            apply (simp only: simp_thms if_False, rule runs_ret, simp)
            done
          done
        done
      done
    done
  show ?thesis
    using reading_commanded(2) [of 0] by (intro runs_post [OF body]) (auto simp: sec)
qed


lemma card_read_block:
  assumes h: "card_ready h" "is_high_capacity h = hc d" and "\<not> reading c"
  shows "runs (card_at d c) (read_block sector count h)
    (\<lambda>(ok, ws, h') b. ok \<and>
       ws = delivered d (if hc d then sector else drop_bit 9 (push_bit 9 sector)) (chunks count) \<and>
       card_ready h' \<and> is_high_capacity h' = hc d \<and> (\<exists>c. \<not> reading c \<and> card_at d c b))"
  using h by (intro runs_post [OF card_read_block_same [OF assms]]) (auto dest: same_fields)

section \<open>The driver as a block device\<close>

definition sd_content :: "sdcard \<Rightarrow> u32 \<Rightarrow> u32 list" where
  "sd_content d s = map (\<lambda>j. disk d s ! j) [0..<128]"

lemma chunks_small: "unat count < 2 ^ 24 \<Longrightarrow> chunks count = 128 * unat count"
proof -
  assume n: "unat count < 2 ^ 24"
  then have u: "unat (128 * count) = 128 * unat count"
    by (subst unat_times_small) simp_all
  with n show ?thesis
    by (simp add: chunks_def sint_unat nat_mult_distrib)
qed

lemma byte_address_small: "unat s < 2 ^ 23 \<Longrightarrow> drop_bit 9 (push_bit 9 s) = (s :: u32)"
proof -
  assume "unat s < 2 ^ 23"
  then have "unat (drop_bit 9 (push_bit 9 s)) = unat s"
    unfolding unat_drop_bit_div by (subst unat_push_bit_small) simp_all
  then show ?thesis by (rule word_unat_eq_iff [THEN iffD2])
qed

lemma sd_read_block_ok:
  assumes "unat s + unat n \<le> sd_sectors d" and "unat n < 2 ^ 24"
  shows "runs (sd_ready d h) (read_block s n h)
    (\<lambda>(ok, ws, h') b. ok \<and> ws = concat (map (\<lambda>i. sd_content d (s + of_nat i)) [0..<unat n]) \<and>
       sd_ready d h' b)"
proof (rule runsI)
  fix b
  assume b: "sd_ready d h b"
  then obtain c where c: "\<not> reading c" "card_at d c b" and h: "card_ready h" "is_high_capacity h = hc d"
    and ok: "fault d AND SDHSTS_ERROR_MASK = 0"
    by (auto simp: sd_ready_def)
  let ?s = "if hc d then s else drop_bit 9 (push_bit 9 s)"
  have words: "delivered d ?s (chunks n) =
      concat (map (\<lambda>i. sd_content d (s + of_nat i)) [0..<unat n])"
  proof (cases "unat n = 0 \<or> hc d")
    case True
    then show ?thesis using assms(2) by (auto simp: chunks_small card_word_split sd_content_def delivered_def ok)
  next
    case False
    with assms(1) have "?s = s"
      by (simp add: sd_sectors_def byte_address_small)
    with assms(2) show ?thesis by (simp add: chunks_small card_word_split sd_content_def delivered_def ok)
  qed
  show "\<exists>x b'. read_block s n h b = (Inr x, b') \<and>
      (case x of (ok, ws, h') \<Rightarrow> \<lambda>b. ok \<and>
         ws = concat (map (\<lambda>i. sd_content d (s + of_nat i)) [0..<unat n]) \<and> sd_ready d h' b) b'"
    using runsD [OF card_read_block [OF h c(1)] c(2), of s n]
    using ok unfolding words sd_ready_def by blast
qed

interpretation sd: block_device "sd_ready d" read_block "sd_sectors d" "sd_content d" for d
  by unfold_locales (simp add: sd_content_def, rule sd_read_block_ok)

section \<open>Identification of the card\<close>

lemma card_response:
  assumes "length (response d (c_cmd c)) = 4"
  shows "runs (card_at d c) (wait_and_get_response h)
    (\<lambda>x b. x = (True, h\<lparr>r := response d (c_cmd c)\<rparr>) \<and> card_at d c b)"
proof -
  obtain a0 a1 a2 a3 where r: "response d (c_cmd c) = [a0, a1, a2, a3]"
    using assms by (auto simp: length_Suc_conv numeral_eq_Suc)
  have get: "runs (card_at d c) (get_response h)
      (\<lambda>h' b. h' = h\<lparr>r := response d (c_cmd c)\<rparr> \<and> card_at d c b)"
    unfolding get_response_def
    by (intro runs_bind_value [OF card_rd] runs_ret) (simp_all add: card_out_simps r, simp_all add: reg_defs)
  show ?thesis
    unfolding wait_and_get_response_def
    by (intro runs_bind_value [OF card_wait], simp only: simp_thms if_False,
        intro runs_bind_value [OF get] runs_bind_value [OF card_rd])
      (simp_all add: sh_addresses card_out_simps runs_ret)
qed

text \<open>A command without a read, and its card state.\<close>

definition idle_at :: "sdcard \<Rightarrow> u32 \<Rightarrow> bus \<Rightarrow> bool" where
  "idle_at d cmd b \<longleftrightarrow> (\<exists>c. c_cmd c = cmd \<and> \<not> reading c \<and> card_at d c b)"

lemma idle_of: "\<not> reading c \<Longrightarrow> card_at d c b \<Longrightarrow> idle_at d (c_cmd c) b"
  by (auto simp: idle_at_def)

lemma runs_idle:
  "(\<And>c. c_cmd c = cmd \<Longrightarrow> \<not> reading c \<Longrightarrow> runs (card_at d c) m Q) \<Longrightarrow> runs (idle_at d cmd) m Q"
  by (auto simp: runs_def idle_at_def)

lemma idle_command:
  assumes "command AND SH_CMD_READ_CMD_SET = 0"
  shows "runs (idle_at d cmd) (send_raw command arg h)
    (\<lambda>(ok, h') b. ok \<and> same h h' \<and> idle_at d (command AND SH_CMD_COMMAND_SET) b)"
proof (rule runs_idle)
  fix c
  have "c_cmd (commanded command arg) = command AND SH_CMD_COMMAND_SET" "\<not> reading (commanded command arg)"
    using assms by (simp_all add: commanded_def)
  then show "runs (card_at d c) (send_raw command arg h)
    (\<lambda>(ok, h') b. ok \<and> same h h' \<and> idle_at d (command AND SH_CMD_COMMAND_SET) b)"
    by (intro runs_post [OF card_send_raw]) (auto simp: idle_at_def)
qed

lemma idle_sends:
  assumes "cmd' AND SH_CMD_COMMAND_SET = cmd'"
  shows "runs (idle_at d cmd) (send cmd' arg h) (\<lambda>(ok, h') b. ok \<and> same h h' \<and> idle_at d cmd' b)"
    and "runs (idle_at d cmd) (send_136_resp cmd' arg h) (\<lambda>(ok, h') b. ok \<and> same h h' \<and> idle_at d cmd' b)"
    and "runs (idle_at d cmd) (send_no_resp cmd' arg h) (\<lambda>(ok, h') b. ok \<and> same h h' \<and> idle_at d cmd' b)"
proof -
  have "cmd' AND SH_CMD_READ_CMD_SET = (cmd' AND SH_CMD_COMMAND_SET) AND SH_CMD_READ_CMD_SET"
    using assms by simp
  also have "\<dots> = 0"
    by (simp add: and.assoc) (simp add: reg_defs)
  finally have read: "cmd' AND SH_CMD_READ_CMD_SET = 0" .
  have "(cmd' OR SH_CMD_LONG_RESPONSE_SET) AND SH_CMD_READ_CMD_SET = 0"
    "(cmd' OR SH_CMD_NO_RESPONSE_SET) AND SH_CMD_READ_CMD_SET = 0"
    "(cmd' OR SH_CMD_LONG_RESPONSE_SET) AND SH_CMD_COMMAND_SET = cmd'"
    "(cmd' OR SH_CMD_NO_RESPONSE_SET) AND SH_CMD_COMMAND_SET = cmd'"
    using read assms by (simp_all add: bit.conj_disj_distrib2) (simp_all add: reg_defs)
  with read assms show "runs (idle_at d cmd) (send cmd' arg h) (\<lambda>(ok, h') b. ok \<and> same h h' \<and> idle_at d cmd' b)"
    "runs (idle_at d cmd) (send_136_resp cmd' arg h) (\<lambda>(ok, h') b. ok \<and> same h h' \<and> idle_at d cmd' b)"
    "runs (idle_at d cmd) (send_no_resp cmd' arg h) (\<lambda>(ok, h') b. ok \<and> same h h' \<and> idle_at d cmd' b)"
    unfolding send_def send_136_resp_def send_no_resp_def
    using idle_command [of cmd' d cmd arg h]
      idle_command [of "cmd' OR SH_CMD_LONG_RESPONSE_SET" d cmd arg h]
      idle_command [of "cmd' OR SH_CMD_NO_RESPONSE_SET" d cmd arg h] by simp_all
qed

lemma idle_wait: "runs (idle_at d cmd) sd_wait (\<lambda>ok b. ok = True \<and> idle_at d cmd b)"
  by (rule runs_idle, rule runs_post [OF card_wait]) (auto simp: idle_at_def)

lemma idle_response:
  assumes "length (response d cmd) = 4"
  shows "runs (idle_at d cmd) (wait_and_get_response h)
    (\<lambda>x b. x = (True, h\<lparr>r := response d cmd\<rparr>) \<and> idle_at d cmd b)"
  using assms by (intro runs_idle runs_post [OF card_response]) (auto simp: idle_at_def)

lemma idle_logf: "runs (idle_at d cmd) logf (\<lambda>_. idle_at d cmd)"
  by (rule runs_idle, rule runs_post [OF card.runs_logf]) (auto simp: idle_at_def)

lemma idle_whenever_logf: "runs (idle_at d cmd) (whenever e logf) (\<lambda>_. idle_at d cmd)"
  using idle_logf by (simp add: whenever_def runs_ret)

definition well_formed :: "sdcard \<Rightarrow> bool" where
  "well_formed d \<longleftrightarrow> length (card_cid d) = 4 \<and> length (card_csd d) = 4"

lemma length_response: "well_formed d \<Longrightarrow> length (response d cmd) = 4"
  by (simp add: response_def well_formed_def)

lemma command_range:
  "SD_SEND_IF_COND AND SH_CMD_COMMAND_SET = SD_SEND_IF_COND"
  "MMC_APP_CMD AND SH_CMD_COMMAND_SET = MMC_APP_CMD"
  "SD_APP_OP_COND AND SH_CMD_COMMAND_SET = SD_APP_OP_COND"
  "MMC_GO_IDLE_STATE AND SH_CMD_COMMAND_SET = MMC_GO_IDLE_STATE"
  "MMC_ALL_SEND_CID AND SH_CMD_COMMAND_SET = MMC_ALL_SEND_CID"
  "MMC_SET_RELATIVE_ADDR AND SH_CMD_COMMAND_SET = MMC_SET_RELATIVE_ADDR"
  "MMC_SEND_CID AND SH_CMD_COMMAND_SET = MMC_SEND_CID"
  "MMC_SEND_CSD AND SH_CMD_COMMAND_SET = MMC_SEND_CSD"
  "MMC_SELECT_CARD AND SH_CMD_COMMAND_SET = MMC_SELECT_CARD"
  "MMC_SET_BLOCKLEN AND SH_CMD_COMMAND_SET = MMC_SET_BLOCKLEN"
  by (simp_all add: sd_commands reg_defs)

lemma op_cond_response:
  "response d SD_APP_OP_COND ! 0 AND MMC_OCR_MEM_READY \<noteq> 0"
  "(response d SD_APP_OP_COND ! 0 AND MMC_OCR_HCS = MMC_OCR_HCS) = hc d"
  by (simp_all add: response_def) (simp_all add: sd_commands)

lemma idle_op_cond:
  assumes "well_formed d"
  shows "runs (idle_at d cmd) (op_cond_loop n t h)
    (\<lambda>(ok, h') b. ok \<and> r h' = response d SD_APP_OP_COND \<and> card_ready h' = card_ready h \<and>
       block_size h' = block_size h \<and> idle_at d SD_APP_OP_COND b)"
  apply (subst op_cond_loop.simps)
  apply (rule runs_bind [OF idle_sends(1)], rule command_range)
  subgoal for x
    apply (cases x, simp only: prod.case conj_assoc, (rule runs_conj)+)
    apply (rule runs_bind_value [OF idle_wait])
    apply (rule runs_bind [OF idle_sends(1)], rule command_range)
    subgoal for h1 _ y
      apply (cases y, simp only: prod.case conj_assoc, (rule runs_conj)+)
      apply (rule runs_bind_value [OF idle_response], rule length_response, rule assms)
      apply (simp add: op_cond_response runs_ret same_fields)
      done
    done
  done

lemma idle_query:
  assumes "well_formed d"
  shows "runs (idle_at d cmd) (query_voltage_and_type h)
    (\<lambda>(ok, h') b. ok \<and> is_high_capacity h' = hc d \<and> idle_at d SD_APP_OP_COND b)"
  unfolding query_voltage_and_type_def
  apply (rule runs_bind [OF idle_sends(1)], rule command_range)
  subgoal for x
    apply (cases x, simp only: prod.case conj_assoc, (rule runs_conj)+)
    apply (rule runs_bind_value [OF idle_response], rule length_response, rule assms)
    apply (simp only: prod.case Let_def)
    apply (rule runs_bind)
     apply (rule runs_by_patience, rule idle_op_cond, rule assms)
    subgoal for _ _ y
      apply (cases y, simp only: prod.case conj_assoc, (rule runs_conj)+)
      apply (simp only: simp_thms if_False)
      apply (rule runs_bind [OF idle_logf], rule runs_bind [OF idle_whenever_logf], rule runs_ret)
      apply (simp add: op_cond_response)
      done
    done
  done

lemma idle_identify:
  assumes "well_formed d"
  shows "runs (idle_at d cmd) (identify_card h)
    (\<lambda>(ok, h') b. ok \<and> rca h' = card_rca d AND 0xffff \<and> cid h' = card_cid d \<and> csd h' = card_csd d \<and>
       is_high_capacity h' = is_high_capacity h \<and> idle_at d MMC_SEND_CSD b)"
proof -
  have rca: "SD_R6_RCA (response d MMC_SET_RELATIVE_ADDR) = card_rca d AND 0xffff"
  proof -
    have "response d MMC_SET_RELATIVE_ADDR ! 0 = push_bit 16 (card_rca d)"
      by (simp add: response_def) (simp add: sd_commands)
    moreover have "drop_bit 16 (push_bit 16 w) = w AND mask 16" for w :: u32
      by (rule bit_word_eqI) (auto simp: bit_simps)
    moreover have "mask 16 = (0xffff :: u32)"
      by (simp add: mask_eq_exp_minus_1)
    ultimately show ?thesis by (simp add: SD_R6_RCA_def)
  qed
  have regs: "response d MMC_SEND_CID = card_cid d" "response d MMC_SEND_CSD = card_csd d"
    by (simp_all add: response_def sd_commands)
  note len = length_response [OF assms]
  show ?thesis
    unfolding identify_card_def Let_def
    apply (rule runs_bind [OF idle_logf])
    apply (rule runs_bind [OF idle_sends(2)], rule command_range)
    subgoal for _ x
      apply (cases x, simp only: prod.case conj_assoc, (rule runs_conj)+)
      apply (rule runs_bind_value [OF idle_response], rule len, simp only: prod.case simp_thms if_False)
      apply (rule runs_bind [OF idle_sends(1)], rule command_range)
      subgoal for _ h1 y
        apply (cases y, simp only: prod.case conj_assoc, (rule runs_conj)+)
        apply (rule runs_bind_value [OF idle_response], rule len, simp only: prod.case simp_thms if_False)
        apply (rule runs_bind [OF idle_logf])
        apply (rule runs_bind [OF idle_sends(2)], rule command_range)
        subgoal for _ h2 _ z
          apply (cases z, simp only: prod.case conj_assoc, (rule runs_conj)+)
          apply (rule runs_bind_value [OF idle_response], rule len, simp only: prod.case simp_thms if_False)
          apply (rule runs_bind [OF idle_sends(2)], rule command_range)
          subgoal for _ h3 w
            apply (cases w, simp only: prod.case conj_assoc, (rule runs_conj)+)
            apply (rule runs_bind_value [OF idle_response], rule len, simp only: prod.case simp_thms if_False)
            apply (rule runs_ret)
            apply (simp add: same_fields rca regs)
            done
          done
        done
      done
    done
qed

text \<open>
  Accesses of the set-up code: they keep the card attached, and from the first write of zero
  to the command register on no read is under way.
\<close>

definition plugged :: "sdcard \<Rightarrow> bus \<Rightarrow> bool" where
  "plugged d b \<longleftrightarrow> (\<exists>c. card_at d c b)"

definition quiet :: "sdcard \<Rightarrow> bus \<Rightarrow> bool" where
  "quiet d b \<longleftrightarrow> (\<exists>c. \<not> reading c \<and> card_at d c b)"

lemma runs_quiet: "(\<And>c. \<not> reading c \<Longrightarrow> runs (card_at d c) m Q) \<Longrightarrow> runs (quiet d) m Q"
  by (auto simp: runs_def quiet_def)

lemma runs_plugged: "(\<And>c. runs (card_at d c) m Q) \<Longrightarrow> runs (plugged d) m Q"
  by (auto simp: runs_def plugged_def)

lemma quiet_rd: "runs (quiet d) (rd a) (\<lambda>_. quiet d)"
proof (cases "a = ST_CLO")
  case True
  then show ?thesis
    by (intro runs_quiet) (rule runs_post [OF card.runs_clock [of d, folded True]], auto simp: quiet_def)
next
  case False
  have "reading (card_step (Rd a v) c) = reading c" for v c
    by (simp add: card_step_def)
  with False show ?thesis
    by (intro runs_quiet runs_post [OF card.runs_rd]) (auto simp: quiet_def)
qed

lemma quiet_wr:
  assumes "a \<noteq> SH_CMD \<or> v AND SH_CMD_READ_CMD_SET = 0"
  shows "runs (quiet d) (wr a v) (\<lambda>_. quiet d)"
proof -
  have "\<not> reading c \<Longrightarrow> \<not> reading (card_step (Wr a v) c)" for c
    using assms by (auto simp: card_step_def)
  then show ?thesis
    by (intro runs_quiet runs_post [OF card.runs_wr]) (auto simp: quiet_def)
qed

lemma quiet_rmw: "a \<noteq> SH_CMD \<Longrightarrow> runs (quiet d) (rmw a f) (\<lambda>_. quiet d)"
  unfolding rmw_def by (intro runs_bind [OF quiet_rd] quiet_wr) simp

lemma quiet_peek: "runs (quiet d) (peek a) (\<lambda>_. quiet d)"
  unfolding peek_def by (intro runs_bind [OF quiet_rd] runs_ret)

lemma quiet_logf: "runs (quiet d) logf (\<lambda>_. quiet d)"
  unfolding logf_def by (rule quiet_peek)

lemma quiet_udelay: "t < 1000 \<Longrightarrow> runs (quiet d) (udelay t) (\<lambda>_. quiet d)"
  by (intro runs_quiet runs_post [OF card.runs_udelay]) (auto simp: quiet_def)

lemma quiet_steps: "list_all (\<lambda>m. runs (quiet d) m (\<lambda>_. quiet d)) ms \<Longrightarrow> runs (quiet d) (steps ms) (\<lambda>_. quiet d)"
  by (induction ms) (auto intro: runs_ret runs_bind)

lemma plugged_rd: "runs (plugged d) (rd a) (\<lambda>_. plugged d)"
proof (cases "a = ST_CLO")
  case True
  then show ?thesis
    by (intro runs_plugged) (rule runs_post [OF card.runs_clock [of d, folded True]], auto simp: plugged_def)
next
  case False
  then show ?thesis
    by (intro runs_plugged runs_post [OF card.runs_rd]) (auto simp: plugged_def)
qed

lemma plugged_wr: "runs (plugged d) (wr a v) (\<lambda>_. plugged d)"
  by (intro runs_plugged runs_post [OF card.runs_wr]) (auto simp: plugged_def)

lemma plugged_rmw: "runs (plugged d) (rmw a f) (\<lambda>_. plugged d)"
  unfolding rmw_def by (intro runs_bind [OF plugged_rd] plugged_wr)

lemma plugged_peek: "runs (plugged d) (peek a) (\<lambda>_. plugged d)"
  unfolding peek_def by (intro runs_bind [OF plugged_rd] runs_ret)

lemma plugged_logf: "runs (plugged d) logf (\<lambda>_. plugged d)"
  unfolding logf_def by (rule plugged_peek)

lemma plugged_udelay: "t < 1000 \<Longrightarrow> runs (plugged d) (udelay t) (\<lambda>_. plugged d)"
  by (intro runs_plugged runs_post [OF card.runs_udelay]) (auto simp: plugged_def)

lemma plugged_steps:
  "list_all (\<lambda>m. runs (plugged d) m (\<lambda>_. plugged d)) ms \<Longrightarrow> runs (plugged d) (steps ms) (\<lambda>_. plugged d)"
  by (induction ms) (auto intro: runs_ret runs_bind)

lemma stop_reading: "runs (plugged d) (wr SH_CMD 0) (\<lambda>_. quiet d)"
proof (rule runs_plugged)
  fix c
  have "\<not> reading (card_step (Wr SH_CMD 0) c)"
    by (simp add: card_step_simps)
  then show "runs (card_at d c) (wr SH_CMD 0) (\<lambda>_. quiet d)"
    by (intro runs_post [OF card.runs_wr]) (auto simp: quiet_def)
qed

lemma plugged_setFunction: "runs (plugged d) (setFunction p f) (\<lambda>_. plugged d)"
  unfolding setFunction_def Let_def
  by (intro runs_bind [OF plugged_rd] plugged_wr plugged_rmw)

lemma plugged_configure_pinmux: "runs (plugged d) configure_pinmux (\<lambda>_. plugged d)"
  unfolding configure_pinmux_def
  by (rule plugged_steps)
    (auto simp: list_all_iff plugged_setFunction plugged_logf plugged_wr plugged_udelay)

lemma plugged_reset: "runs (plugged d) reset_controller (\<lambda>_. quiet d)"
proof -
  have addr: "SH_ARG \<noteq> SH_CMD" "SH_TOUT \<noteq> SH_CMD" "SH_CDIV \<noteq> SH_CMD" "SH_HSTS \<noteq> SH_CMD" "SH_HCFG \<noteq> SH_CMD"
    "SH_HBCT \<noteq> SH_CMD" "SH_HBLC \<noteq> SH_CMD" "SH_EDM \<noteq> SH_CMD" "SH_VDD \<noteq> SH_CMD"
    by (simp_all add: reg_defs)
  show ?thesis
    unfolding reset_controller_def set_power_def
    by (rule runs_steps_Cons [OF plugged_logf], rule runs_steps_Cons [OF plugged_wr],
        rule runs_steps_Cons [OF stop_reading], rule quiet_steps)
      (simp add: addr quiet_wr quiet_rmw quiet_udelay)
qed

lemma quiet_idle: "idle_at d cmd b \<Longrightarrow> quiet d b"
  by (auto simp: idle_at_def quiet_def)

lemma runs_from_quiet: "(\<And>cmd. runs (idle_at d cmd) m Q) \<Longrightarrow> runs (quiet d) m Q"
proof (rule runs_quiet)
  fix c :: card
  assume "\<And>cmd. runs (idle_at d cmd) m Q" and "\<not> reading c"
  then show "runs (card_at d c) m Q"
    by (intro runs_pre [of "idle_at d (c_cmd c)" m Q "card_at d c"]) (auto simp: idle_at_def)
qed

lemma idle_select:
  "runs (idle_at d cmd) (select_card h) (\<lambda>(ok, h') b. ok \<and> same h h' \<and> idle_at d MMC_SELECT_CARD b)"
  unfolding select_card_def
  apply (rule runs_bind [OF idle_sends(1)], rule command_range)
  subgoal for x
    apply (cases x, simp only: prod.case conj_assoc, (rule runs_conj)+)
    apply (rule runs_bind_value [OF idle_wait], rule runs_ret, simp)
    done
  done

lemma idle_block_length:
  "runs (idle_at d cmd)
    (if v1 then bind logf (\<lambda>_. bind (send MMC_SET_BLOCKLEN 512 h) (\<lambda>(_, h). bind sd_wait (\<lambda>ok. ret (ok, h))))
     else ret (True, h))
    (\<lambda>(ok, h') b. ok \<and> same h h' \<and> quiet d b)"
proof (cases v1)
  case True
  show ?thesis
    unfolding if_P [OF True]
    apply (rule runs_bind [OF idle_logf])
    apply (rule runs_bind [OF idle_sends(1)], rule command_range)
    subgoal for _ x
      apply (cases x, simp only: prod.case conj_assoc, (rule runs_conj)+)
      apply (rule runs_bind_value [OF idle_wait], rule runs_ret, simp add: quiet_idle)
      done
    done
next
  case False
  then show ?thesis by (simp add: runs_ret quiet_idle)
qed

lemma quiet_init_card:
  assumes "well_formed d" and "csd_capacity (card_csd d) = Some (bl, cap)"
  shows "runs (quiet d) (init_card h)
    (\<lambda>(ok, h') b. ok \<and> is_high_capacity h' = hc d \<and> rca h' = card_rca d AND 0xffff \<and>
       cid h' = card_cid d \<and> csd h' = card_csd d \<and> capacity_bytes h' = cap \<and> block_size h' = 512 \<and>
       quiet d b)"
proof -
  have clk: "SH_CDIV \<noteq> SH_CMD"
    by (simp add: reg_defs)
  have tail: "runs (quiet d) (steps [logf, logf, wr SH_CDIV (5 - 2)]) (\<lambda>_. quiet d)"
    by (rule quiet_steps) (simp add: quiet_logf quiet_wr clk)
  show ?thesis
    unfolding init_card_def Let_def
    apply (rule runs_bind, rule runs_from_quiet, rule idle_sends(3), rule command_range)
    subgoal for x
      apply (cases x, simp only: prod.case conj_assoc, (rule runs_conj)+)
      apply (rule runs_bind [OF idle_query [OF assms(1)]])
      subgoal for _ _ y
        apply (cases y, simp only: prod.case conj_assoc, (rule runs_conj)+, simp only: simp_thms if_False)
        apply (rule runs_bind [OF idle_identify [OF assms(1)]])
        subgoal for _ h1 z
          apply (cases z, simp only: prod.case conj_assoc, (rule runs_conj)+, simp only: simp_thms if_False)
          apply (rule runs_bind [OF idle_logf], simp only: assms(2) option.case prod.case)
          apply (rule runs_bind [OF idle_select])
          subgoal for _ h2 _ w
            apply (cases w, simp only: prod.case conj_assoc, (rule runs_conj)+, simp only: simp_thms if_False)
            apply (rule runs_bind [OF idle_block_length])
            subgoal for _ h3 v
              apply (cases v, simp only: prod.case conj_assoc, (rule runs_conj)+, simp only: simp_thms if_False)
              apply (rule runs_bind [OF tail], rule runs_ret)
              apply (simp add: same_fields)
              done
            done
          done
        done
      done
    done
qed

lemma sd_ready_iff:
  "sd_ready d h b \<longleftrightarrow> card_ready h \<and> is_high_capacity h = hc d \<and> fault d AND SDHSTS_ERROR_MASK = 0 \<and> quiet d b"
  by (simp add: sd_ready_def quiet_def)

text \<open>Any read of a ready driver keeps what was learnt about the card.\<close>

lemma quiet_read_block:
  assumes "card_ready h" "is_high_capacity h = hc d"
  shows "runs (quiet d) (read_block s n h)
    (\<lambda>(ok, ws, h') b. ok \<and> same (h\<lparr>last_sample := 0\<rparr>) h' \<and> quiet d b)"
  using assms by (intro runs_quiet runs_post [OF card_read_block_same]) (auto simp: quiet_def)

lemma quiet_flush_cycles:
  assumes "card_ready h" "is_high_capacity h = hc d"
  shows "runs (quiet d) (flush_cycles n h)
    (\<lambda>h' b. (\<exists>l. same (h\<lparr>last_sample := l\<rparr>) h') \<and> quiet d b)"
  using assms
proof (induction n arbitrary: h)
  case 0
  show ?case
    unfolding flush_cycles.simps
    by (rule runs_ret, intro conjI exI [of _ "last_sample h"]) simp_all
next
  case (Suc n)
  show ?case
    unfolding flush_cycles.simps
    apply (rule runs_bind [OF quiet_read_block [OF Suc.prems]])
    subgoal for x
    proof (cases x)
      case (fields ok ws h')
      have "runs (quiet d) (flush_cycles n h') (\<lambda>h'' b. (\<exists>l. same (h\<lparr>last_sample := l\<rparr>) h'') \<and> quiet d b)"
        if same: "same (h\<lparr>last_sample := 0\<rparr>) h'"
      proof -
        have "card_ready h'" "is_high_capacity h' = hc d"
          using same_fields [OF same] Suc.prems by simp_all
        moreover have "\<exists>l'. same (h\<lparr>last_sample := l'\<rparr>) h''" if "same (h'\<lparr>last_sample := l\<rparr>) h''" for l h''
          using same that unfolding same_def by (elim exE) (simp, blast)
        ultimately show ?thesis
          by (intro runs_post [OF Suc.IH]) auto
      qed
      then show ?thesis
        unfolding fields prod.case by (cases ok) (auto intro!: runs_conj simp: runs_def [of "\<lambda>b. False"])
    qed
    done
qed

lemma plugged_restart:
  assumes "well_formed d" and "csd_capacity (card_csd d) = Some (bl, cap)" and "fault d AND SDHSTS_ERROR_MASK = 0"
  shows "runs (plugged d) (restart_controller h)
    (\<lambda>h' b. sd_ready d h' b \<and> rca h' = card_rca d AND 0xffff \<and> cid h' = card_cid d \<and>
       csd h' = card_csd d \<and> capacity_bytes h' = cap \<and> block_size h' = 512)"
proof -
  have addr: "SH_HCFG \<noteq> SH_CMD" "SH_CDIV \<noteq> SH_CMD"
    by (simp_all add: reg_defs)
  have prep: "runs (plugged d) (steps
        [logf, peek SH_HCFG, peek SH_CDIV, peek SH_EDM, peek SH_HSTS, logf,
         configure_pinmux, reset_controller,
         rmw SH_HCFG (\<lambda>v. v AND NOT SH_HCFG_WIDE_EXT_BUS_SET),
         wr SH_HCFG (SH_HCFG_SLOW_CARD_SET OR SH_HCFG_WIDE_INT_BUS_SET),
         wr SH_CDIV kIdentSafeClockRate, udelay 300]) (\<lambda>_. quiet d)"
    by (rule runs_steps_Cons [OF plugged_logf], (rule runs_steps_Cons [OF plugged_peek])+,
        rule runs_steps_Cons [OF plugged_logf], rule runs_steps_Cons [OF plugged_configure_pinmux],
        rule runs_steps_Cons [OF plugged_reset], rule quiet_steps)
      (simp add: addr quiet_wr quiet_rmw quiet_udelay)
  show ?thesis
    unfolding restart_controller_def Let_def
    apply (rule runs_bind [OF prep], rule runs_bind [OF quiet_init_card [OF assms(1,2)]])
    subgoal for _ x
      apply (cases x, simp only: prod.case conj_assoc, (rule runs_conj)+, simp only: simp_thms if_True)
      apply (rule runs_post [OF quiet_flush_cycles], simp, simp)
      apply (elim conjE exE)
      apply (frule same_fields(1), frule same_fields(2), frule same_fields(3), frule same_fields(4),
        frule same_fields(5), frule same_fields(6), frule same_fields(9))
      apply (simp add: sd_ready_iff assms(3))
      done
    done
qed

section \<open>Properties\<close>

text \<open>C15: On a card without faults the driver is a block device: reading \<open>n\<close> sectors from
  sector \<open>s\<close> returns success and exactly the words of those sectors in order, and leaves the
  driver ready, for every range the card's addressing reaches and fewer than \<open>2 ^ 24\<close>
  sectors, whether the card is addressed by sectors or by bytes.\<close>
theorem read_block_delivers:
  assumes "unat s + unat n \<le> sd_sectors d" and "unat n < 2 ^ 24"
  shows "runs (sd_ready d h) (read_block s n h)
    (\<lambda>(ok, ws, h') b. ok \<and> ws = concat (map (\<lambda>i. sd_content d (s + of_nat i)) [0..<unat n]) \<and>
       sd_ready d h' b)"
  by (rule sd.read_ok [OF assms])

definition example_card :: sdcard where
  "example_card =
     \<lparr>hc = False, disk = \<lambda>s. map (\<lambda>j. s * 128 + of_nat j) [0..<128], card_rca = 0x1234,
      card_cid = [0, 0, 0, 0], card_csd = [0, 0, 0, 0x40000000], fault = 0\<rparr>"

definition example_host :: sdhost where
  "example_host =
     \<lparr>is_sdhc = True, is_high_capacity = False, card_ready = True, ocr = 0, rca = 0, cid = [], csd = [],
      capacity_bytes = 0, r = [0, 0, 0, 0], current_cmd = 0, samples = [], last_sample = 0, block_size = 512\<rparr>"

theorem read_block_delivers_witness:
  "runs (sd_ready example_card example_host) (read_block 5 2 example_host)
    (\<lambda>(ok, ws, h') b. ok \<and> ws = concat (map (\<lambda>i. sd_content example_card (5 + of_nat i)) [0..<unat (2 :: u32)]) \<and>
       sd_ready example_card h' b)"
  by (rule read_block_delivers) (simp_all add: sd_sectors_def example_card_def)

text \<open>A transfer error is lost: when the controller shows an error bit while data is read,
  the word loop ends at once, nothing is stored, and \<open>read_block\<close> still returns success,
  because the error status is assigned to a variable of the loop body that hides the one that
  is tested.\<close>
theorem read_block_loses_error:
  assumes "card_ready h" "is_high_capacity h = hc d" and "\<not> reading c"
    and "fault d AND SDHSTS_ERROR_MASK \<noteq> 0"
  shows "runs (card_at d c) (read_block s n h) (\<lambda>(ok, ws, h') b. ok \<and> ws = [])"
  using assms(4) by (intro runs_post [OF card_read_block [OF assms(1-3)]]) (auto simp: delivered_def)

theorem read_block_loses_error_witness:
  "runs (card_at (example_card\<lparr>fault := SDHSTS_CRC16_ERROR\<rparr>)
       \<lparr>c_arg = 0, c_cmd = 0, c_addr = 0, reading = False, taken = 0\<rparr>)
     (read_block 5 2 example_host) (\<lambda>(ok, ws, h') b. ok \<and> ws = [])"
  by (rule read_block_loses_error)
    (simp_all add: example_host_def example_card_def sdhsts_defs)

text \<open>No call of \<open>read_block\<close> ever returns failure, whatever the hardware answers: it
  returns success, panics or does not come back. The callers' failure branches are dead.\<close>
theorem read_block_never_fails: "gives (read_block s n h) (\<lambda>(ok, ws, h'). ok)"
  unfolding read_block_def Let_def
  apply (rule gives_bind_any)+
  apply (rule gives_if, rule gives_panic)
  apply (rule gives_bind_any)+
  apply (simp only: split_def, (rule gives_bind_any)+)
  apply (simp add: gives_ret)
  done

lemma sd_ready_logf:
  "runs (\<lambda>b. sd_ready d h b \<and> A) logf (\<lambda>_ b. sd_ready d h b \<and> A)"
  using quiet_logf [of d] by (auto simp: runs_def sd_ready_iff)

lemma sdhost_started:
  assumes "well_formed d" and "csd_capacity (card_csd d) = Some (bl, cap)"
    and "fault d AND SDHSTS_ERROR_MASK = 0"
  shows "runs (plugged d) (sdhost_init h)
    (\<lambda>h' b. sd_ready d h' b \<and> rca h' = card_rca d AND 0xffff \<and> cid h' = card_cid d \<and>
       csd h' = card_csd d \<and> capacity_bytes h' = cap \<and> block_size h' = 512)"
  unfolding sdhost_init_def
  apply (rule runs_bind [OF plugged_restart [OF assms]])
  apply (rule runs_bind [OF sd_ready_logf], rule runs_ret, assumption)
  done

lemma quiet_drain_nowait: "runs (quiet d) drain_fifo_nowait (\<lambda>_. quiet d)"
proof (rule runsI)
  fix b
  assume b: "quiet d b"
  then obtain c where c: "card_at d c b" by (auto simp: quiet_def)
  obtain n where n: "patience b = Suc n"
    using device_at_patience [OF c] by blast
  have hsts: "runs (quiet d) (rd SH_HSTS) (\<lambda>v b. v = 0 \<and> quiet d b)"
    by (rule runs_quiet, rule runs_post [OF card_rd])
      (auto simp: sh_addresses card_out_simps quiet_def)
  have "runs (quiet d) (drain_nowait_loop (Suc n)) (\<lambda>_. quiet d)"
    unfolding drain_nowait_loop.simps
    by (rule runs_bind [OF quiet_peek], rule runs_bind_value [OF hsts])
      (simp add: runs_ret SH_HSTS_DATA_FLAG_SET_def)
  from runsD [OF this b] n show "\<exists>x b'. drain_fifo_nowait b = (Inr x, b') \<and> quiet d b'"
    by (simp add: drain_fifo_nowait_def)
qed

text \<open>Stopping the driver completes, whatever was read before.\<close>

lemma sd_stops: "runs (sd_ready d h) (stop_driver h) (\<lambda>_ _. True)"
proof -
  have addr: "SH_ARG \<noteq> SH_CMD" "SH_TOUT \<noteq> SH_CMD" "SH_CDIV \<noteq> SH_CMD" "SH_HSTS \<noteq> SH_CMD" "SH_HCFG \<noteq> SH_CMD"
    "SH_HBCT \<noteq> SH_CMD" "SH_HBLC \<noteq> SH_CMD" "SH_VDD \<noteq> SH_CMD"
    by (simp_all add: reg_defs)
  have idle: "runs (quiet d) (send_no_resp MMC_GO_IDLE_STATE 0 h) (\<lambda>_. quiet d)"
    by (rule runs_from_quiet, rule runs_post [OF idle_sends(3)])
      (auto simp: MMC_GO_IDLE_STATE_def intro: quiet_idle)
  have slow: "runs (quiet d) (bind (steps [logf, drain_fifo_nowait, logf, wr SH_CDIV kIdentSafeClockRate, udelay 150])
      (\<lambda>_. bind (send_no_resp MMC_GO_IDLE_STATE 0 h) (\<lambda>(_, h). bind (udelay 500) (\<lambda>_. ret h)))) (\<lambda>_. quiet d)"
    apply (rule runs_bind [where R = "\<lambda>_. quiet d"])
     apply (rule quiet_steps)
     apply (simp add: addr quiet_logf quiet_drain_nowait quiet_wr quiet_udelay)
    apply (rule runs_bind [OF idle])
    by (auto intro!: runs_bind [OF quiet_udelay] runs_ret)
  have "runs (quiet d) (stop_driver h) (\<lambda>_ _. True)" if "card_ready h"
    unfolding stop_driver_def
    apply (simp only: that if_True)
    apply (rule runs_bind [OF slow])
    apply (rule runs_bind [where R = "\<lambda>_. quiet d"])
     apply (rule quiet_steps)
     apply (simp add: addr quiet_logf quiet_wr)
    by (simp add: runs_ret)
  then show ?thesis
    by (auto simp: runs_def sd_ready_iff)
qed

text \<open>C16: Starting the driver on a card that answers the identification sequence completes,
  from any contents of the object, and records the card's address, identification and data
  registers, the capacity they encode and the block size, with the driver ready to read.\<close>
theorem sdhost_init_identifies:
  assumes "well_formed d" and "csd_capacity (card_csd d) = Some (bl, cap)"
    and "fault d AND SDHSTS_ERROR_MASK = 0"
  shows "runs (plugged d) (sdhost_init h)
    (\<lambda>h' b. sd_ready d h' b \<and> rca h' = card_rca d AND 0xffff \<and> cid h' = card_cid d \<and>
       csd h' = card_csd d \<and> capacity_bytes h' = cap \<and> block_size h' = 512)"
  by (rule sdhost_started [OF assms])

theorem sdhost_init_identifies_witness:
  "runs (plugged example_card) (sdhost_init example_host)
    (\<lambda>h' b. sd_ready example_card h' b \<and> rca h' = card_rca example_card AND 0xffff \<and>
       cid h' = card_cid example_card \<and> csd h' = card_csd example_card \<and>
       capacity_bytes h' = 524288 \<and> block_size h' = 512)"
  by (rule sdhost_init_identifies [where bl = 512])
    (simp_all add: example_card_def well_formed_def, code_simp)

end
