(* ===== verification/MbrDisk.thy ===== *)
theory MbrDisk
  imports SdCard
begin

unbundle bit_operations_syntax

text \<open>
  The partition layer \<^verbatim>\<open>src/arm_chainloader/drivers/mbr_disk.cc\<close>: the master boot record, the
  four primary partitions as volumes, and the disk wrappers that the file system calls. The
  block device below is the argument \<open>dev\<close>, the virtual method \<^verbatim>\<open>read_block\<close>; its laws
  come from the interface \<open>block_device\<close>. A buffer is a list of words; a device call
  overwrites its front.
\<close>

section \<open>The master boot record\<close>

record MbrPartition =
  part_flag :: u8
  part_shd :: u8
  part_ssect :: u8
  part_scyl :: u8
  part_typ :: u8
  part_ehd :: u8
  part_esect :: u8
  part_ecyl :: u8
  part_start :: u32
  part_size :: u32

record Mbr =
  mbr_code :: "u8 list"
  mbr_part :: "MbrPartition list"
  mbr_sig :: u16

definition MBR_SIG :: u16 where "MBR_SIG = 0xAA55"
definition MBR_FAT16 :: u8 where "MBR_FAT16 = 0x04"
definition MBR_FAT32 :: u8 where "MBR_FAT32 = 0x0B"
definition MBR_FAT32_INT13 :: u8 where "MBR_FAT32_INT13 = 0x0C"
definition MBR_FAT16_INT13 :: u8 where "MBR_FAT16_INT13 = 0x0E"
definition MBR_LINUX :: u8 where "MBR_LINUX = 0x83"
definition MBR_NTFS :: u8 where "MBR_NTFS = 0x07"

definition mbr_fs_to_string :: "u8 \<Rightarrow> string" where
  "mbr_fs_to_string fs =
     (if fs = MBR_FAT32 then ''FAT32'' else if fs = MBR_FAT32_INT13 then ''FAT32-INT13''
      else if fs = MBR_FAT16_INT13 then ''FAT16-INT13'' else if fs = MBR_FAT16 then ''FAT16''
      else if fs = MBR_LINUX then ''Linux (ext2/ext3)'' else if fs = MBR_NTFS then ''NTFS''
      else ''<Unknown>'')"

text \<open>The packed structures as a view of the buffer's bytes, on a little-endian machine.\<close>

definition byte_at :: "u32 list \<Rightarrow> nat \<Rightarrow> u8" where
  "byte_at buf i = ucast (drop_bit (8 * (i mod 4)) (buf ! (i div 4)))"

definition half_at :: "u32 list \<Rightarrow> nat \<Rightarrow> u16" where
  "half_at buf i = ucast (byte_at buf i) OR push_bit 8 (ucast (byte_at buf (i + 1)))"

definition long_at :: "u32 list \<Rightarrow> nat \<Rightarrow> u32" where
  "long_at buf i = ucast (half_at buf i) OR push_bit 16 (ucast (half_at buf (i + 2)))"

definition partition_at :: "u32 list \<Rightarrow> nat \<Rightarrow> MbrPartition" where
  "partition_at buf off =
     \<lparr>part_flag = byte_at buf off, part_shd = byte_at buf (off + 1), part_ssect = byte_at buf (off + 2),
      part_scyl = byte_at buf (off + 3), part_typ = byte_at buf (off + 4), part_ehd = byte_at buf (off + 5),
      part_esect = byte_at buf (off + 6), part_ecyl = byte_at buf (off + 7),
      part_start = long_at buf (off + 8), part_size = long_at buf (off + 12)\<rparr>"

definition mbr_view :: "u32 list \<Rightarrow> Mbr" where
  "mbr_view buf =
     \<lparr>mbr_code = map (byte_at buf) [0..<446],
      mbr_part = map (\<lambda>i. partition_at buf (446 + 16 * i)) [0..<4],
      mbr_sig = half_at buf 510\<rparr>"

section \<open>The disk object\<close>

record 'h mbr_disk =
  mbr :: Mbr
  mmc :: 'h

type_synonym 'h dev = "u32 \<Rightarrow> u32 \<Rightarrow> 'h \<Rightarrow> (bool \<times> u32 list \<times> 'h) act"

definition validate_signature :: "Mbr \<Rightarrow> bool" where
  "validate_signature m \<longleftrightarrow> mbr_sig m = MBR_SIG"

definition get_partition_type :: "'h mbr_disk \<Rightarrow> u8 \<Rightarrow> u8" where
  "get_partition_type dsk volume = (if volume > 3 then 0 else part_typ (mbr_part (mbr dsk) ! unat volume))"

definition mbr_read_block ::
    "'h dev \<Rightarrow> u8 \<Rightarrow> u32 \<Rightarrow> u32 \<Rightarrow> 'h mbr_disk \<Rightarrow> (bool \<times> u32 list \<times> 'h mbr_disk) act" where
  "mbr_read_block dev volume sector count dsk =
     (if volume > 3 then ret (False, [], dsk)
      else let p = mbr_part (mbr dsk) ! unat volume
           in if part_typ p = 0 then ret (False, [], dsk)
              else bind (dev (part_start p + sector) count (mmc dsk)) (\<lambda>(ok, ws, h).
                ret (ok, ws, dsk\<lparr>mmc := h\<rparr>)))"

definition overwrite :: "u32 list \<Rightarrow> u32 list \<Rightarrow> u32 list" where
  "overwrite ws buf = ws @ drop (length ws) buf"

text \<open>The constructor: the buffer is fresh memory, \<open>fresh\<close> what it holds.\<close>

definition read_mbr :: "'h dev \<Rightarrow> u32 list \<Rightarrow> 'h \<Rightarrow> 'h mbr_disk act" where
  "read_mbr dev fresh h =
     bind (dev 0 1 h) (\<lambda>(ok, ws, h).
       if \<not> ok then panic ''unable to read master boot record from the SD card''
       else let m = mbr_view (overwrite ws fresh)
            in if \<not> validate_signature m then panic ''invalid master boot record signature (got 0x%x)''
               else ret \<lparr>mbr = m, mmc = h\<rparr>)"

section \<open>Wrappers for the file system\<close>

definition STA_NOINIT :: u8 where "STA_NOINIT = 0x01"

datatype DRESULT = RES_OK | RES_ERROR | RES_WRPRT | RES_NOTRDY | RES_PARERR

definition disk_initialize :: "u8 \<Rightarrow> bool \<Rightarrow> 'h mbr_disk \<Rightarrow> u8 \<times> bool" where
  "disk_initialize pdrv initialized dsk =
     (if initialized then (0, initialized)
      else let pt = get_partition_type dsk pdrv
           in if pt = MBR_FAT32_INT13 \<or> pt = MBR_FAT16_INT13 \<or> pt = MBR_FAT32 \<or> pt = MBR_FAT16
              then (0, True) else (STA_NOINIT, initialized))"

definition disk_status :: "u8 \<Rightarrow> bool \<Rightarrow> 'h mbr_disk \<Rightarrow> u8 \<times> bool" where
  "disk_status pdrv = disk_initialize pdrv"

definition disk_read ::
    "'h dev \<Rightarrow> u8 \<Rightarrow> u32 \<Rightarrow> u32 \<Rightarrow> 'h mbr_disk \<Rightarrow> (DRESULT \<times> u32 list \<times> 'h mbr_disk) act" where
  "disk_read dev pdrv sector count dsk =
     (let buff = replicate (unat (count * 512) div 4) 0xfefefefe
      in bind (mbr_read_block dev pdrv sector count dsk) (\<lambda>(success, ws, dsk).
        if \<not> success then ret (RES_ERROR, overwrite ws buff, dsk)
        else ret (RES_OK, overwrite ws buff, dsk)))"

definition disk_ioctl :: "('h \<Rightarrow> u32) \<Rightarrow> u8 \<Rightarrow> u8 \<Rightarrow> 'h mbr_disk \<Rightarrow> DRESULT \<times> u16 option" where
  "disk_ioctl block_size_of pdrv cmd dsk =
     (if cmd = 0 then (RES_OK, None)
      else if cmd = 2 then (RES_OK, Some (ucast (block_size_of (mmc dsk))))
      else if cmd = 1 then (RES_OK, Some 0)
      else if cmd = 3 then (RES_OK, Some 1)
      else (RES_PARERR, None))"

section \<open>Volumes on a block device\<close>

context block_device begin

lemma read_mbr_ok:
  assumes "0 < sectors" and "validate_signature (mbr_view (content 0))" and "length fresh = 128"
  shows "runs (ready h) (read_mbr read_block fresh h)
    (\<lambda>dsk b. mbr dsk = mbr_view (content 0) \<and> ready (mmc dsk) b)"
  unfolding read_mbr_def
  apply (rule runs_bind [OF read_one])
  using assms apply simp
  subgoal for x
    using assms(2,3)
    by (cases x) (auto simp: overwrite_def content_length Let_def intro!: runs_conj runs_ret)
  done

lemma volume_read:
  assumes "volume \<le> 3" and "p = mbr_part (mbr dsk) ! unat volume" and "part_typ p \<noteq> 0"
    and "unat (part_start p + sector) + unat n \<le> sectors" and "unat n < 2 ^ 24"
  shows "runs (ready (mmc dsk)) (mbr_read_block read_block volume sector n dsk)
    (\<lambda>(ok, ws, dsk') b. ok \<and>
       ws = concat (map (\<lambda>i. content (part_start p + sector + of_nat i)) [0..<unat n]) \<and>
       mbr dsk' = mbr dsk \<and> ready (mmc dsk') b)"
  unfolding mbr_read_block_def Let_def assms(2) [symmetric]
  using assms(1,3) apply (simp add: not_less [symmetric])
  apply (rule runs_bind [OF read_ok [OF assms(4,5)]])
  subgoal for x
    by (cases x) (auto intro!: runs_conj runs_ret)
  done

lemma disk_read_ok:
  assumes "volume \<le> 3" and "p = mbr_part (mbr dsk) ! unat volume" and "part_typ p \<noteq> 0"
    and "unat (part_start p + sector) + unat n \<le> sectors" and "unat n < 2 ^ 23"
  shows "runs (ready (mmc dsk)) (disk_read read_block volume sector n dsk)
    (\<lambda>(res, buff, dsk') b. res = RES_OK \<and>
       buff = concat (map (\<lambda>i. content (part_start p + sector + of_nat i)) [0..<unat n]) \<and>
       mbr dsk' = mbr dsk \<and> ready (mmc dsk') b)"
proof -
  have len: "length (concat (map (\<lambda>i. content (s + of_nat i)) is)) = 128 * length is" for s "is"
    by (induction "is") (simp_all add: content_length)
  have "unat (n * 512) div 4 = 128 * unat n"
    using assms(5) by (subst unat_times_small) simp_all
  then show ?thesis
    unfolding disk_read_def Let_def using assms(5)
    apply -
    apply (rule runs_bind [OF volume_read [OF assms(1-4)]], simp)
    subgoal for x
      by (cases x) (auto simp: overwrite_def len intro!: runs_conj runs_ret)
    done
qed

end

section \<open>The record on disk\<close>

text \<open>The bytes of a master boot record and their words, as a partitioning tool lays them out.\<close>

definition half_bytes :: "u16 \<Rightarrow> u8 list" where
  "half_bytes v = [ucast v, ucast (drop_bit 8 v)]"

definition long_bytes :: "u32 \<Rightarrow> u8 list" where
  "long_bytes v = half_bytes (ucast v) @ half_bytes (ucast (drop_bit 16 v))"

definition partition_bytes :: "MbrPartition \<Rightarrow> u8 list" where
  "partition_bytes p =
     [part_flag p, part_shd p, part_ssect p, part_scyl p, part_typ p, part_ehd p, part_esect p, part_ecyl p] @
     long_bytes (part_start p) @ long_bytes (part_size p)"

definition mbr_bytes :: "Mbr \<Rightarrow> u8 list" where
  "mbr_bytes m = mbr_code m @ concat (map partition_bytes (mbr_part m)) @ half_bytes (mbr_sig m)"

definition byte_word :: "u8 list \<Rightarrow> nat \<Rightarrow> u32" where
  "byte_word bs i = ucast (bs ! (4 * i)) OR push_bit 8 (ucast (bs ! (4 * i + 1)))
     OR push_bit 16 (ucast (bs ! (4 * i + 2))) OR push_bit 24 (ucast (bs ! (4 * i + 3)))"

definition sector_words :: "u8 list \<Rightarrow> u32 list" where
  "sector_words bs = map (byte_word bs) [0..<length bs div 4]"

lemma byte_at_sector_words:
  assumes "i < length bs" and "4 dvd length bs"
  shows "byte_at (sector_words bs) i = bs ! i"
proof -
  obtain q where q: "i = 4 * (i div 4) + q" "q < 4"
    by (metis mod_less_divisor mult_div_mod_eq zero_less_numeral)
  have word: "ucast (drop_bit (8 * q) (byte_word bs k)) = bs ! (4 * k + q)" for k
  proof (rule bit_word_eqI)
    fix j
    assume "j < LENGTH(8)"
    then have j: "j < 8" by simp
    from q(2) consider "q = 0" | "q = 1" | "q = 2" | "q = 3" by linarith
    then show "bit (ucast (drop_bit (8 * q) (byte_word bs k)) :: u8) j = bit (bs ! (4 * k + q)) j"
      by cases (use j in \<open>auto simp: byte_word_def bit_simps dest: bit_imp_le_length\<close>)
  qed
  have "i div 4 < length bs div 4"
    using assms by (auto elim!: dvdE)
  moreover have "i mod 4 = q"
    using q by (metis mod_less mod_mult_self2 add.commute)
  ultimately show ?thesis
    using q(1) word [of "i div 4"] by (simp add: byte_at_def sector_words_def)
qed

lemma half_join: "ucast (ucast v :: u8) OR push_bit 8 (ucast (ucast (drop_bit 8 v) :: u8)) = (v :: u16)"
  by (rule bit_word_eqI) (auto simp: bit_simps not_less dest: bit_imp_le_length)

lemma long_join: "ucast (ucast v :: u16) OR push_bit 16 (ucast (ucast (drop_bit 16 v) :: u16)) = (v :: u32)"
  by (rule bit_word_eqI) (auto simp: bit_simps not_less dest: bit_imp_le_length)

lemma length_bytes [simp]:
  "length (half_bytes v) = 2" "length (long_bytes w) = 4" "length (partition_bytes p) = 16"
  by (simp_all add: half_bytes_def long_bytes_def partition_bytes_def)

text \<open>A field is read back where its bytes stand.\<close>

lemma half_at_view:
  assumes "bs = pre @ half_bytes v @ post" and "4 dvd length bs"
  shows "half_at (sector_words bs) (length pre) = v"
proof -
  have "byte_at (sector_words bs) (length pre) = ucast v"
    "byte_at (sector_words bs) (length pre + 1) = ucast (drop_bit 8 v)"
    using assms by (simp_all add: byte_at_sector_words half_bytes_def nth_append)
  then show ?thesis by (simp only: half_at_def half_join)
qed

lemma long_at_view:
  assumes "bs = pre @ long_bytes v @ post" and "4 dvd length bs"
  shows "long_at (sector_words bs) (length pre) = v"
proof -
  have "half_at (sector_words bs) (length pre) = ucast v"
    using assms by (intro half_at_view [where post = "half_bytes (ucast (drop_bit 16 v)) @ post"])
      (simp_all add: long_bytes_def)
  moreover have "half_at (sector_words bs) (length (pre @ half_bytes (ucast v))) = ucast (drop_bit 16 v)"
    using assms by (intro half_at_view [where post = post]) (simp_all add: long_bytes_def)
  ultimately show ?thesis by (simp add: long_at_def long_join)
qed

lemma partition_at_view:
  assumes bs: "bs = pre @ partition_bytes p @ post" and dvd: "4 dvd length bs"
  shows "partition_at (sector_words bs) (length pre) = p"
proof -
  let ?head = "[part_flag p, part_shd p, part_ssect p, part_scyl p, part_typ p, part_ehd p, part_esect p, part_ecyl p]"
  have head: "byte_at (sector_words bs) (length pre + k) = ?head ! k" if "k < 8" for k
  proof -
    have split: "bs = pre @ ?head @ (long_bytes (part_start p) @ long_bytes (part_size p) @ post)"
      by (simp add: bs partition_bytes_def)
    have "bs ! (length pre + k) = ?head ! k"
      unfolding split nth_append_length_plus using that by (intro nth_append_left) simp
    moreover have "length pre + k < length bs"
      using that unfolding split by simp
    ultimately show ?thesis
      using byte_at_sector_words [OF _ dvd] by metis
  qed
  have "long_at (sector_words bs) (length (pre @ ?head)) = part_start p"
    by (rule long_at_view [OF _ dvd, where post = "long_bytes (part_size p) @ post"])
      (simp add: bs partition_bytes_def)
  moreover have "long_at (sector_words bs) (length (pre @ ?head @ long_bytes (part_start p))) = part_size p"
    by (rule long_at_view [OF _ dvd, where post = post]) (simp add: bs partition_bytes_def)
  ultimately show ?thesis
    using head [of 0] head [of 1] head [of 2] head [of 3] head [of 4] head [of 5] head [of 6] head [of 7]
    by (simp add: partition_at_def numeral_eq_Suc)
qed

lemma mbr_view_bytes:
  assumes "length (mbr_code m) = 446" and "length (mbr_part m) = 4"
  shows "mbr_view (sector_words (mbr_bytes m)) = m"
proof -
  obtain p0 p1 p2 p3 where ps: "mbr_part m = [p0, p1, p2, p3]"
    using assms(2) by (auto simp: length_Suc_conv numeral_eq_Suc)
  have four: "[0..<4] = [0, 1, 2, 3 :: nat]"
    by (simp add: upt_rec)
  let ?bs = "mbr_bytes m"
  have bs: "?bs = mbr_code m @ partition_bytes p0 @ partition_bytes p1 @ partition_bytes p2 @
      partition_bytes p3 @ half_bytes (mbr_sig m)"
    by (simp add: mbr_bytes_def ps)
  have len: "length ?bs = 512" and dvd: "4 dvd length ?bs"
    using assms(1) by (simp_all add: bs)
  have "partition_at (sector_words ?bs) 446 = p0"
    using partition_at_view [OF bs dvd] assms(1) by simp
  moreover have "partition_at (sector_words ?bs) 462 = p1"
    using partition_at_view [of ?bs "mbr_code m @ partition_bytes p0" p1] bs dvd assms(1) by simp
  moreover have "partition_at (sector_words ?bs) 478 = p2"
    using partition_at_view [of ?bs "mbr_code m @ partition_bytes p0 @ partition_bytes p1" p2] bs dvd assms(1) by simp
  moreover have "partition_at (sector_words ?bs) 494 = p3"
    using partition_at_view [of ?bs "mbr_code m @ partition_bytes p0 @ partition_bytes p1 @ partition_bytes p2" p3]
      bs dvd assms(1) by simp
  moreover have "half_at (sector_words ?bs) 510 = mbr_sig m"
    using half_at_view [of ?bs "mbr_code m @ partition_bytes p0 @ partition_bytes p1 @ partition_bytes p2 @ partition_bytes p3" "mbr_sig m" "[]"]
      bs dvd assms(1) by simp
  moreover have "map (byte_at (sector_words ?bs)) [0..<446] = mbr_code m"
    using assms(1) len dvd by (intro nth_equalityI) (simp_all add: byte_at_sector_words bs nth_append)
  ultimately show ?thesis
    by (intro Mbr.equality) (simp_all add: mbr_view_def ps four)
qed


text \<open>The record read from a sector is the one laid out in it: for a record with 446 bytes
  of code and four partitions, the packed view of its 512 bytes gives back every field.\<close>
theorem mbr_view_roundtrip:
  assumes "length (mbr_code m) = 446" and "length (mbr_part m) = 4"
  shows "mbr_view (sector_words (mbr_bytes m)) = m"
  using assms by (rule mbr_view_bytes)

definition example_partition :: MbrPartition where
  "example_partition =
     \<lparr>part_flag = 0x80, part_shd = 1, part_ssect = 1, part_scyl = 0, part_typ = 0x0C, part_ehd = 0xFE,
      part_esect = 0xFF, part_ecyl = 0xFF, part_start = 8192, part_size = 524288\<rparr>"

definition unused_partition :: MbrPartition where
  "unused_partition =
     \<lparr>part_flag = 0, part_shd = 0, part_ssect = 0, part_scyl = 0, part_typ = 0, part_ehd = 0,
      part_esect = 0, part_ecyl = 0, part_start = 0, part_size = 0\<rparr>"

definition example_mbr :: Mbr where
  "example_mbr =
     \<lparr>mbr_code = replicate 446 0,
      mbr_part = [example_partition, unused_partition, unused_partition, unused_partition],
      mbr_sig = 0xAA55\<rparr>"

theorem mbr_view_roundtrip_witness: "mbr_view (sector_words (mbr_bytes example_mbr)) = example_mbr"
  by (rule mbr_view_roundtrip) (simp_all add: example_mbr_def)

section \<open>The whole disk stack\<close>

lemma example_mbr_view: "mbr_view (sector_words (mbr_bytes example_mbr)) = example_mbr"
proof -
  have "length (mbr_code example_mbr) = 446" "length (mbr_part example_mbr) = 4"
    by (simp_all add: example_mbr_def)
  then show ?thesis by (rule mbr_view_bytes)
qed

definition boot_read ::
    "u32 list \<Rightarrow> sdhost \<Rightarrow> u8 \<Rightarrow> u32 \<Rightarrow> u32 \<Rightarrow> (DRESULT \<times> u32 list \<times> sdhost mbr_disk) act" where
  "boot_read fresh h volume sector n =
     bind (sdhost_init h) (\<lambda>h. bind (read_mbr read_block fresh h) (\<lambda>dsk.
       disk_read read_block volume sector n dsk))"

text \<open>C7: From a cold controller and a working card whose first sector holds a valid boot
  record, starting the controller, reading the record and reading \<open>n\<close> sectors of volume
  \<open>v\<close> completes with the words of the card's sectors from the partition's start on: the
  SD driver, the partition layer and the disk wrapper compose.\<close>
theorem disk_stack_reads_partition:
  assumes card: "well_formed d" "csd_capacity (card_csd d) = Some (bl, cap)" "fault d AND SDHSTS_ERROR_MASK = 0"
    and sig: "validate_signature (mbr_view (sd_content d 0))" and fresh: "length fresh = 128"
    and vol: "v \<le> 3" "p = mbr_part (mbr_view (sd_content d 0)) ! unat v" "part_typ p \<noteq> 0"
    and range: "unat (part_start p + sector) + unat n \<le> sd_sectors d" "unat n < 2 ^ 23"
  shows "runs (plugged d) (boot_read fresh h v sector n)
    (\<lambda>(res, buff, dsk) b. res = RES_OK \<and>
       buff = concat (map (\<lambda>i. sd_content d (part_start p + sector + of_nat i)) [0..<unat n]))"
proof -
  have nonempty: "0 < sd_sectors d"
    by (simp add: sd_sectors_def)
  have init: "runs (plugged d) (sdhost_init h) (sd_ready d)"
    by (rule runs_post [OF sdhost_started [OF card]]) simp
  show ?thesis
    unfolding boot_read_def
    apply (rule runs_bind [OF init], rule runs_bind [OF sd.read_mbr_ok [OF nonempty sig fresh]], rule runs_conj)
    subgoal for _ dsk
      by (rule runs_post [OF sd.disk_read_ok [OF vol(1) _ vol(3) range]]) (auto simp: vol(2))
    done
qed

definition example_disk :: sdcard where
  "example_disk = example_card
     \<lparr>hc := True, disk := \<lambda>s. if s = 0 then sector_words (mbr_bytes example_mbr) else map (\<lambda>j. s) [0..<128]\<rparr>"

theorem disk_stack_reads_partition_witness:
  "runs (plugged example_disk) (boot_read (replicate 128 0) example_host 0 5 2)
    (\<lambda>(res, buff, dsk) b. res = RES_OK \<and>
       buff = concat (map (\<lambda>i. sd_content example_disk (8192 + 5 + of_nat i)) [0..<unat (2 :: u32)]))"
proof -
  have content: "sd_content example_disk 0 = sector_words (mbr_bytes example_mbr)"
  proof -
    have "length (sector_words (mbr_bytes example_mbr)) = 128"
      by (simp add: sector_words_def mbr_bytes_def example_mbr_def)
    then show ?thesis
      by (intro nth_equalityI) (simp_all add: sd_content_def example_disk_def)
  qed
  have range: "unat (part_start example_partition + 5) + unat (2 :: u32) \<le> sd_sectors example_disk"
    "unat (2 :: u32) < 2 ^ 23"
    by (simp_all add: sd_sectors_def example_disk_def example_card_def example_partition_def)
  have part: "example_partition = mbr_part (mbr_view (sd_content example_disk 0)) ! unat (0 :: u8)"
    unfolding content example_mbr_view by (simp add: example_mbr_def)
  have valid: "validate_signature (mbr_view (sd_content example_disk 0))" "part_typ example_partition \<noteq> 0"
    unfolding content example_mbr_view
    by (simp_all add: validate_signature_def example_mbr_def MBR_SIG_def example_partition_def)
  have csd: "csd_capacity (card_csd example_disk) = Some (512, 524288)"
    by (simp add: example_disk_def example_card_def) code_simp
  have card: "well_formed example_disk" "fault example_disk AND SDHSTS_ERROR_MASK = 0"
    by (simp_all add: example_disk_def example_card_def well_formed_def)
  show ?thesis
    using disk_stack_reads_partition [OF card(1) csd card(2) valid(1) _ _ part valid(2) range,
        of "replicate 128 0" example_host]
    by (simp add: example_partition_def)
qed

text \<open>Reading a volume that does not exist (a number above 3, or an unused partition
  entry) touches no hardware and fails with the buffer filled with the byte 0xFE.\<close>
theorem disk_read_missing_volume:
  assumes "v > 3 \<or> part_typ (mbr_part (mbr dsk) ! unat v) = 0"
  shows "disk_read dev v sector n dsk b
    = (Inr (RES_ERROR, replicate (unat (n * 512) div 4) 0xfefefefe, dsk), b)"
  using assms by (auto simp: disk_read_def mbr_read_block_def bind_def ret_run overwrite_def)

theorem disk_read_missing_volume_witness:
  "\<forall>b. disk_read read_block 2 7 1 \<lparr>mbr = example_mbr, mmc = example_host\<rparr> b
    = (Inr (RES_ERROR, replicate (unat (1 * 512 :: u32) div 4) 0xfefefefe, \<lparr>mbr = example_mbr, mmc = example_host\<rparr>), b)"
  by (rule allI, rule disk_read_missing_volume) (simp add: example_mbr_def unused_partition_def)

text \<open>The initialisation state is one flag for all volumes: once one FAT volume was
  initialised, \<open>disk_initialize\<close> and \<open>disk_status\<close> report success for every volume number,
  also for one whose first initialisation fails with \<open>STA_NOINIT\<close>.\<close>
theorem disk_initialize_sticks:
  assumes "disk_initialize v False dsk = (0, initialized)"
  shows "disk_status w initialized dsk = (0, True) \<and>
    (disk_initialize u False dsk = (STA_NOINIT, False) \<longleftrightarrow>
      get_partition_type dsk u \<notin> {MBR_FAT32_INT13, MBR_FAT16_INT13, MBR_FAT32, MBR_FAT16})"
  using assms by (auto simp: disk_initialize_def disk_status_def STA_NOINIT_def Let_def split: if_splits)

theorem disk_initialize_sticks_witness:
  "disk_status 9 True \<lparr>mbr = example_mbr, mmc = example_host\<rparr> = (0, True) \<and>
   (disk_initialize 9 False \<lparr>mbr = example_mbr, mmc = example_host\<rparr> = (STA_NOINIT, False) \<longleftrightarrow>
    get_partition_type \<lparr>mbr = example_mbr, mmc = example_host\<rparr> 9
      \<notin> {MBR_FAT32_INT13, MBR_FAT16_INT13, MBR_FAT32, MBR_FAT16})"
  by (rule disk_initialize_sticks [of 0])
    (simp add: disk_initialize_def get_partition_type_def example_mbr_def example_partition_def
      MBR_FAT32_INT13_def MBR_FAT16_INT13_def MBR_FAT32_def MBR_FAT16_def)

end
