(* ===== verification/FatFs.thy ===== *)
theory FatFs
  imports MbrDisk ArmControl
begin

unbundle bit_operations_syntax

text \<open>
  The FAT file system module of the boot loader, \<^verbatim>\<open>src/arm_chainloader/drivers/fatfs/ff.c\<close>,
  as \<^verbatim>\<open>ffconf.h\<close> configures it: read-only, one volume, sectors of 512 bytes, 8.3 names in
  ASCII, a sector buffer in each file object. A file system object lives at an address, zero is
  the null pointer; \<open>fs_at\<close> is the memory of these objects. The objects a caller owns
  (\<^verbatim>\<open>FIL\<close>, \<^verbatim>\<open>DIR\<close>) are passed and returned, and the pointer \<^verbatim>\<open>dir\<close> into the window of the
  volume is the offset there. Paths are the characters before the terminating zero; pointer
  arguments other than the one of \<^verbatim>\<open>f_mount\<close> are not null. Below the module stand the disk
  wrappers of \<open>MbrDisk\<close>, with the block device \<open>dev\<close> as argument.
\<close>

section \<open>Data\<close>

datatype FRESULT = FR_OK | FR_DISK_ERR | FR_INT_ERR | FR_NOT_READY | FR_NO_FILE | FR_NO_PATH
  | FR_INVALID_NAME | FR_DENIED | FR_EXIST | FR_INVALID_OBJECT | FR_WRITE_PROTECTED
  | FR_INVALID_DRIVE | FR_NOT_ENABLED | FR_NO_FILESYSTEM | FR_MKFS_ABORTED | FR_TIMEOUT
  | FR_LOCKED | FR_NOT_ENOUGH_CORE | FR_TOO_MANY_OPEN_FILES | FR_INVALID_PARAMETER

record FATFS =
  fs_type :: u8
  fs_drv :: u8
  n_fats :: u8
  wflag :: u8
  fs_id :: u16
  n_rootdir :: u16
  csize :: u16
  n_fatent :: u32
  fsize :: u32
  volbase :: u32
  fatbase :: u32
  dirbase :: u32
  database :: u32
  winsect :: u32
  win :: "u8 list"

record FDID =
  obj_fs :: nat
  obj_id :: u16
  obj_attr :: u8
  sclust :: u32
  objsize :: u32

record FIL =
  fil_obj :: FDID
  fil_flag :: u8
  fil_err :: FRESULT
  fptr :: u32
  fil_clust :: u32
  fil_sect :: u32
  fil_buf :: "u8 list"

record DIR =
  dir_obj :: FDID
  dptr :: u32
  dir_clust :: u32
  dir_sect :: u32
  dir_ofs :: nat
  dir_fn :: "u8 list"

record FILINFO =
  fno_size :: u32
  fno_date :: u16
  fno_time :: u16
  fno_attrib :: u8
  fno_name :: "u8 list"

text \<open>The module's variables with the memory of the volumes and the disk below.\<close>

record 'h fat_sys =
  FatFs :: "nat list"
  Fsid :: u16
  fs_at :: "nat \<Rightarrow> FATFS"
  disk_up :: bool
  dsk :: "'h mbr_disk"

type_synonym ('h, 'a) fat = "'h fat_sys \<Rightarrow> ('a \<times> 'h fat_sys) act"

definition fret :: "'a \<Rightarrow> ('h, 'a) fat" where
  "fret x = (\<lambda>s. ret (x, s))"

definition fbind :: "('h, 'a) fat \<Rightarrow> ('a \<Rightarrow> ('h, 'b) fat) \<Rightarrow> ('h, 'b) fat" where
  "fbind m k = (\<lambda>s. bind (m s) (\<lambda>(x, t). k x t))"

definition fget :: "('h fat_sys \<Rightarrow> 'a) \<Rightarrow> ('h, 'a) fat" where
  "fget f = (\<lambda>s. ret (f s, s))"

definition fput :: "('h fat_sys \<Rightarrow> 'h fat_sys) \<Rightarrow> ('h, unit) fat" where
  "fput f = (\<lambda>s. ret ((), f s))"

definition fhang :: "('h, 'a) fat" where
  "fhang = (\<lambda>s b. (Inl Hang, b))"

definition upd_fs :: "nat \<Rightarrow> (FATFS \<Rightarrow> FATFS) \<Rightarrow> 'h fat_sys \<Rightarrow> 'h fat_sys" where
  "upd_fs a f s = s\<lparr>fs_at := (fs_at s)(a := f (fs_at s a))\<rparr>"

definition FS_FAT12 :: u8 where "FS_FAT12 = 1"
definition FS_FAT16 :: u8 where "FS_FAT16 = 2"
definition FS_FAT32 :: u8 where "FS_FAT32 = 3"

definition AM_VOL :: u8 where "AM_VOL = 0x08"
definition AM_LFN :: u8 where "AM_LFN = 0x0F"
definition AM_DIR :: u8 where "AM_DIR = 0x10"
definition AM_ARC :: u8 where "AM_ARC = 0x20"
definition AM_MASK :: u8 where "AM_MASK = 0x3F"

definition NS_LAST :: u8 where "NS_LAST = 0x04"
definition NS_BODY :: u8 where "NS_BODY = 0x08"
definition NS_EXT :: u8 where "NS_EXT = 0x10"
definition NS_NONAME :: u8 where "NS_NONAME = 0x80"

definition FA_READ :: u8 where "FA_READ = 0x01"

definition MAX_DIR :: u32 where "MAX_DIR = 0x200000"

section \<open>Bytes\<close>

definition ld_word :: "u8 list \<Rightarrow> nat \<Rightarrow> u16" where
  "ld_word p i = push_bit 8 (ucast (p ! (i + 1))) OR ucast (p ! i)"

definition ld_dword :: "u8 list \<Rightarrow> nat \<Rightarrow> u32" where
  "ld_dword p i =
     push_bit 8 (push_bit 8 (push_bit 8 (ucast (p ! (i + 3))) OR ucast (p ! (i + 2))) OR ucast (p ! (i + 1)))
       OR ucast (p ! i)"

text \<open>Zero when the first \<open>cnt\<close> bytes agree, else the first difference.\<close>

fun mem_cmp :: "u8 list \<Rightarrow> u8 list \<Rightarrow> nat \<Rightarrow> int" where
  "mem_cmp d s 0 = 0"
| "mem_cmp d s (Suc cnt) =
     (let r = uint (hd d) - uint (hd s) in if cnt \<noteq> 0 \<and> r = 0 then mem_cmp (tl d) (tl s) cnt else r)"

fun chk_chr :: "u8 list \<Rightarrow> u8 \<Rightarrow> bool" where
  "chk_chr [] chr = False"
| "chk_chr (c # str) chr = (c = chr \<or> chk_chr str chr)"

section \<open>The disk and its window\<close>

definition octets_of :: "u32 list \<Rightarrow> u8 list" where
  "octets_of ws = concat (map le_bytes ws)"

definition disk_fetch :: "'h dev \<Rightarrow> u8 \<Rightarrow> u32 \<Rightarrow> u32 \<Rightarrow> ('h, DRESULT \<times> u8 list) fat" where
  "disk_fetch dev drv sector count = (\<lambda>s. bind (disk_read dev drv sector count (dsk s)) (\<lambda>(r, ws, d).
     ret ((r, octets_of ws), s\<lparr>dsk := d\<rparr>)))"

definition disk_start :: "u8 \<Rightarrow> ('h, u8) fat" where
  "disk_start drv = (\<lambda>s. let (stat, up) = disk_initialize drv (disk_up s) (dsk s)
     in ret (stat, s\<lparr>disk_up := up\<rparr>))"

definition disk_stat :: "u8 \<Rightarrow> ('h, u8) fat" where
  "disk_stat drv = (\<lambda>s. let (stat, up) = disk_status drv (disk_up s) (dsk s)
     in ret (stat, s\<lparr>disk_up := up\<rparr>))"

definition move_window :: "'h dev \<Rightarrow> nat \<Rightarrow> u32 \<Rightarrow> ('h, FRESULT) fat" where
  "move_window dev a sector = fbind (fget (\<lambda>s. fs_at s a)) (\<lambda>fs.
     if sector \<noteq> winsect fs
     then fbind (disk_fetch dev (fs_drv fs) sector 1) (\<lambda>(r, data).
          if r \<noteq> RES_OK
          then fbind (fput (upd_fs a (\<lambda>fs. fs\<lparr>win := data, winsect := 0xFFFFFFFF\<rparr>))) (\<lambda>_. fret FR_DISK_ERR)
          else fbind (fput (upd_fs a (\<lambda>fs. fs\<lparr>win := data, winsect := sector\<rparr>))) (\<lambda>_. fret FR_OK))
     else fret FR_OK)"

definition win_of :: "nat \<Rightarrow> 'h fat_sys \<Rightarrow> u8 list" where
  "win_of a s = win (fs_at s a)"

section \<open>Clusters\<close>

definition clust2sect :: "FATFS \<Rightarrow> u32 \<Rightarrow> u32" where
  "clust2sect fs clst =
     (let clst = clst - 2
      in if clst \<ge> n_fatent fs - 2 then 0 else clst * ucast (csize fs) + database fs)"

definition get_fat :: "'h dev \<Rightarrow> FDID \<Rightarrow> u32 \<Rightarrow> ('h, u32) fat" where
  "get_fat dev obj clst = (let a = obj_fs obj in fbind (fget (\<lambda>s. fs_at s a)) (\<lambda>fs.
     if clst < 2 \<or> clst \<ge> n_fatent fs then fret 1
     else if fs_type fs = FS_FAT12 then
       let bc = clst + clst div 2
       in fbind (move_window dev a (fatbase fs + bc div 512)) (\<lambda>res.
          if res \<noteq> FR_OK then fret 0xFFFFFFFF
          else fbind (fget (win_of a)) (\<lambda>w. let wc = ucast (w ! unat (bc mod 512)) :: u32; bc = bc + 1
          in fbind (move_window dev a (fatbase fs + bc div 512)) (\<lambda>res.
          if res \<noteq> FR_OK then fret 0xFFFFFFFF
          else fbind (fget (win_of a)) (\<lambda>w. let wc = wc OR push_bit 8 (ucast (w ! unat (bc mod 512)))
          in fret (if clst AND 1 \<noteq> 0 then drop_bit 4 wc else wc AND 0xFFF)))))
     else if fs_type fs = FS_FAT16 then
       fbind (move_window dev a (fatbase fs + clst div 256)) (\<lambda>res.
         if res \<noteq> FR_OK then fret 0xFFFFFFFF
         else fget (\<lambda>s. ucast (ld_word (win_of a s) (unat (clst * 2 mod 512)))))
     else if fs_type fs = FS_FAT32 then
       fbind (move_window dev a (fatbase fs + clst div 128)) (\<lambda>res.
         if res \<noteq> FR_OK then fret 0xFFFFFFFF
         else fget (\<lambda>s. ld_dword (win_of a s) (unat (clst * 4 mod 512)) AND 0x0FFFFFFF))
     else fret 1))"

section \<open>Directories\<close>

text \<open>
  The walk of \<^verbatim>\<open>dir_sdi\<close> along the cluster chain. A cluster of a mounted volume has at least one
  sector, so that \<open>ofs div 512 + 1\<close> rounds are enough.
\<close>

fun sdi_walk :: "nat \<Rightarrow> 'h dev \<Rightarrow> FDID \<Rightarrow> u32 \<Rightarrow> u32 \<Rightarrow> u32 \<Rightarrow> ('h, FRESULT \<times> u32 \<times> u32) fat" where
  "sdi_walk 0 dev obj csz clst ofs = fhang"
| "sdi_walk (Suc n) dev obj csz clst ofs =
     (if ofs \<ge> csz
      then fbind (get_fat dev obj clst) (\<lambda>clst.
           if clst = 0xFFFFFFFF then fret (FR_DISK_ERR, clst, ofs)
           else fbind (fget (\<lambda>s. fs_at s (obj_fs obj))) (\<lambda>fs.
                if clst < 2 \<or> clst \<ge> n_fatent fs then fret (FR_INT_ERR, clst, ofs)
                else sdi_walk n dev obj csz clst (ofs - csz)))
      else fret (FR_OK, clst, ofs))"

definition dir_sdi :: "'h dev \<Rightarrow> DIR \<Rightarrow> u32 \<Rightarrow> ('h, FRESULT \<times> DIR) fat" where
  "dir_sdi dev dp ofs = fbind (fget (\<lambda>s. fs_at s (obj_fs (dir_obj dp)))) (\<lambda>fs.
     if ofs \<ge> MAX_DIR \<or> ofs mod 32 \<noteq> 0 then fret (FR_INT_ERR, dp)
     else
       let dp = dp\<lparr>dptr := ofs\<rparr>;
           clst = sclust (dir_obj dp);
           clst = (if clst = 0 \<and> fs_type fs \<ge> FS_FAT32 then dirbase fs else clst);
           finish = (\<lambda>clst sect ofs.
             let dp = dp\<lparr>dir_clust := clst, dir_sect := sect\<rparr>
             in if sect = 0 then fret (FR_INT_ERR, dp)
                else fret (FR_OK, dp\<lparr>dir_sect := sect + ofs div 512, dir_ofs := unat (ofs mod 512)\<rparr>))
       in if clst = 0
          then if ofs div 32 \<ge> ucast (n_rootdir fs) then fret (FR_INT_ERR, dp)
               else finish clst (dirbase fs) ofs
          else fbind (sdi_walk (unat ofs div 512 + 1) dev (dir_obj dp) (ucast (csize fs) * 512) clst ofs)
                 (\<lambda>(res, clst, ofs).
                 if res \<noteq> FR_OK then fret (res, dp)
                 else finish clst (clust2sect fs clst) ofs))"

definition dir_next :: "'h dev \<Rightarrow> DIR \<Rightarrow> ('h, FRESULT \<times> DIR) fat" where
  "dir_next dev dp = fbind (fget (\<lambda>s. fs_at s (obj_fs (dir_obj dp)))) (\<lambda>fs.
     let ofs = dptr dp + 32;
         finish = (\<lambda>dp. fret (FR_OK, dp\<lparr>dptr := ofs, dir_ofs := unat (ofs mod 512)\<rparr>))
     in if dir_sect dp = 0 \<or> ofs \<ge> MAX_DIR then fret (FR_NO_FILE, dp)
        else if ofs mod 512 = 0
        then let dp = dp\<lparr>dir_sect := dir_sect dp + 1\<rparr>
          in if dir_clust dp = 0
             then if ofs div 32 \<ge> ucast (n_rootdir fs) then fret (FR_NO_FILE, dp\<lparr>dir_sect := 0\<rparr>)
                  else finish dp
             else if ofs div 512 AND (ucast (csize fs) - 1) = 0
             then fbind (get_fat dev (dir_obj dp) (dir_clust dp)) (\<lambda>clst.
                  if clst \<le> 1 then fret (FR_INT_ERR, dp)
                  else if clst = 0xFFFFFFFF then fret (FR_DISK_ERR, dp)
                  else if clst \<ge> n_fatent fs then fret (FR_NO_FILE, dp\<lparr>dir_sect := 0\<rparr>)
                  else finish (dp\<lparr>dir_clust := clst, dir_sect := clust2sect fs clst\<rparr>))
             else finish dp
        else finish dp)"

definition ld_clust :: "FATFS \<Rightarrow> u8 list \<Rightarrow> nat \<Rightarrow> u32" where
  "ld_clust fs p i =
     (let cl = ucast (ld_word p (i + 26))
      in if fs_type fs = FS_FAT32 then cl OR push_bit 16 (ucast (ld_word p (i + 20))) else cl)"

definition set_attr :: "u8 \<Rightarrow> DIR \<Rightarrow> DIR" where
  "set_attr v dp = dp\<lparr>dir_obj := (dir_obj dp)\<lparr>obj_attr := v\<rparr>\<rparr>"

text \<open>A table has at most \<^verbatim>\<open>MAX_DIR / 32\<close> entries, the fuel of the loops over them.\<close>

fun dir_read_loop :: "nat \<Rightarrow> 'h dev \<Rightarrow> bool \<Rightarrow> FRESULT \<Rightarrow> DIR \<Rightarrow> ('h, FRESULT \<times> DIR) fat" where
  "dir_read_loop 0 dev vol res dp = fhang"
| "dir_read_loop (Suc n) dev vol res dp =
     (if dir_sect dp = 0 then fret (res, dp)
      else fbind (move_window dev (obj_fs (dir_obj dp)) (dir_sect dp)) (\<lambda>res.
           if res \<noteq> FR_OK then fret (res, dp)
           else fbind (fget (win_of (obj_fs (dir_obj dp)))) (\<lambda>w.
           let c = w ! dir_ofs dp
           in if c = 0 then fret (FR_NO_FILE, dp)
              else let a = w ! (dir_ofs dp + 11) AND AM_MASK; dp = set_attr a dp
                in if c \<noteq> 0xE5 \<and> c \<noteq> 0x2E \<and> a \<noteq> AM_LFN \<and> (a AND NOT AM_ARC = AM_VOL) = vol then fret (res, dp)
                   else fbind (dir_next dev dp) (\<lambda>(res, dp).
                        if res \<noteq> FR_OK then fret (res, dp) else dir_read_loop n dev vol res dp))))"

definition dir_read :: "'h dev \<Rightarrow> DIR \<Rightarrow> bool \<Rightarrow> ('h, FRESULT \<times> DIR) fat" where
  "dir_read dev dp vol = fbind (dir_read_loop (unat (MAX_DIR div 32)) dev vol FR_NO_FILE dp) (\<lambda>(res, dp).
     if res \<noteq> FR_OK then fret (res, dp\<lparr>dir_sect := 0\<rparr>) else fret (res, dp))"

fun dir_find_loop :: "nat \<Rightarrow> 'h dev \<Rightarrow> DIR \<Rightarrow> ('h, FRESULT \<times> DIR) fat" where
  "dir_find_loop 0 dev dp = fhang"
| "dir_find_loop (Suc n) dev dp =
     fbind (move_window dev (obj_fs (dir_obj dp)) (dir_sect dp)) (\<lambda>res.
     if res \<noteq> FR_OK then fret (res, dp)
     else fbind (fget (win_of (obj_fs (dir_obj dp)))) (\<lambda>w.
     let c = w ! dir_ofs dp
     in if c = 0 then fret (FR_NO_FILE, dp)
        else let dp = set_attr (w ! (dir_ofs dp + 11) AND AM_MASK) dp
          in if w ! (dir_ofs dp + 11) AND AM_VOL = 0 \<and> mem_cmp (drop (dir_ofs dp) w) (dir_fn dp) 11 = 0
             then fret (res, dp)
             else fbind (dir_next dev dp) (\<lambda>(res, dp).
                  if res \<noteq> FR_OK then fret (res, dp) else dir_find_loop n dev dp)))"

definition dir_find :: "'h dev \<Rightarrow> DIR \<Rightarrow> ('h, FRESULT \<times> DIR) fat" where
  "dir_find dev dp = fbind (dir_sdi dev dp 0) (\<lambda>(res, dp).
     if res \<noteq> FR_OK then fret (res, dp) else dir_find_loop (unat (MAX_DIR div 32)) dev dp)"

text \<open>
  \<open>info_name bs i\<close>: the name as \<^verbatim>\<open>get_fileinfo\<close> copies it from index \<open>i\<close> of the entry on, which
  starts with the bytes \<open>bs\<close>.
\<close>

fun info_name :: "u8 list \<Rightarrow> nat \<Rightarrow> u8 list" where
  "info_name [] i = []"
| "info_name (c # bs) i =
     (if c = 0x20 then info_name bs (i + 1)
      else (if i = 8 then [0x2E] else []) @ [if c = 0x05 then 0xE5 else c] @ info_name bs (i + 1))"

definition get_fileinfo :: "DIR \<Rightarrow> FILINFO \<Rightarrow> ('h, FILINFO) fat" where
  "get_fileinfo dp fno = fbind (fget (win_of (obj_fs (dir_obj dp)))) (\<lambda>w.
     if dir_sect dp = 0 then fret (fno\<lparr>fno_name := []\<rparr>)
     else let p = drop (dir_ofs dp) w
       in fret (fno\<lparr>fno_name := info_name (take 11 p) 0, fno_attrib := p ! 11, fno_size := ld_dword p 28,
                    fno_date := ld_word p 24, fno_time := ld_word p 22\<rparr>))"

end
