(* ===== verification/FatFsApi.thy ===== *)
theory FatFsApi
  imports FatFs
begin

unbundle bit_operations_syntax

text \<open>
  The upper half of \<^verbatim>\<open>ff.c\<close>: names in directory form and paths, mounting a volume from its boot
  sector, and the public functions \<^verbatim>\<open>f_mount\<close>, \<^verbatim>\<open>f_open\<close>, \<^verbatim>\<open>f_read\<close>, \<^verbatim>\<open>f_close\<close>,
  \<^verbatim>\<open>f_lseek\<close>, \<^verbatim>\<open>f_opendir\<close>, \<^verbatim>\<open>f_closedir\<close>, \<^verbatim>\<open>f_readdir\<close> and \<^verbatim>\<open>f_stat\<close>.
\<close>

section \<open>Names\<close>

definition separator :: "u8 \<Rightarrow> bool" where
  "separator c \<longleftrightarrow> c = 0x2F \<or> c = 0x5C"

definition IsUpper :: "u8 \<Rightarrow> bool" where "IsUpper c \<longleftrightarrow> 0x41 \<le> c \<and> c \<le> 0x5A"
definition IsLower :: "u8 \<Rightarrow> bool" where "IsLower c \<longleftrightarrow> 0x61 \<le> c \<and> c \<le> 0x7A"

text \<open>The characters that \<^verbatim>\<open>create_name\<close> rejects: \<^verbatim>\<open>"*+,:;<=>?[]|\x7F\<close>.\<close>

definition illegal_chrs :: "u8 list" where
  "illegal_chrs = [0x22, 0x2A, 0x2B, 0x2C, 0x3A, 0x3B, 0x3C, 0x3D, 0x3E, 0x3F, 0x5B, 0x5D, 0x7C, 0x7F]"

text \<open>
  The loop of \<^verbatim>\<open>create_name\<close> over the rest \<open>p\<close> of the path: \<open>i\<close> the index in the name, \<open>ni\<close> its
  limit, \<open>b\<close> the case flags, \<open>sfn\<close> the name. The result has the character that ended the segment
  and the rest of the path behind it, or is \<open>None\<close> for an invalid name. The end of the list is the
  terminating zero; the source looks at one byte behind it, which has no effect on the result.
\<close>

fun name_loop :: "u8 list \<Rightarrow> nat \<Rightarrow> nat \<Rightarrow> u8 \<Rightarrow> u8 list \<Rightarrow> (u8 \<times> u8 list \<times> nat \<times> nat \<times> u8 \<times> u8 list) option" where
  "name_loop [] i ni b sfn = Some (0, [], i, ni, b, sfn)"
| "name_loop (c # p) i ni b sfn =
     (if c \<le> 0x20 \<or> separator c then Some (c, dropWhile separator p, i, ni, b, sfn)
      else if c = 0x2E \<or> i \<ge> ni
      then if ni \<noteq> 8 \<or> c \<noteq> 0x2E then None
           else name_loop p 8 11 (push_bit 2 b) sfn
      else if c \<ge> 0x80 then None
      else if chk_chr illegal_chrs c then None
      else if IsUpper c then name_loop p (i + 1) ni (b OR 2) (sfn[i := c])
      else if IsLower c then name_loop p (i + 1) ni (b OR 1) (sfn[i := c - 0x20])
      else name_loop p (i + 1) ni b (sfn[i := c]))"

definition create_name :: "u8 list \<Rightarrow> FRESULT \<times> u8 list \<times> u8 list" where
  "create_name path =
     (case name_loop path 0 8 0 (replicate 11 0x20 @ [0]) of
        None \<Rightarrow> (FR_INVALID_NAME, [], path)
      | Some (c, rest, i, ni, b, sfn) \<Rightarrow>
          let c = (if c \<le> 0x20 then NS_LAST else 0)
          in if i = 0 then (FR_INVALID_NAME, sfn, rest)
             else let sfn = (if sfn ! 0 = 0xE5 then sfn[0 := 0x05] else sfn);
                      b = (if ni = 8 then push_bit 2 b else b);
                      c = (if b AND 0x03 = 0x01 then c OR NS_EXT else c);
                      c = (if b AND 0x0C = 0x04 then c OR NS_BODY else c)
               in (FR_OK, sfn[11 := c], rest))"

definition set_sclust :: "u32 \<Rightarrow> DIR \<Rightarrow> DIR" where
  "set_sclust v dp = dp\<lparr>dir_obj := (dir_obj dp)\<lparr>sclust := v\<rparr>\<rparr>"

text \<open>Each round takes a character of the path at least: the length of the path is enough fuel.\<close>

fun follow_loop :: "nat \<Rightarrow> 'h dev \<Rightarrow> DIR \<Rightarrow> u8 list \<Rightarrow> ('h, FRESULT \<times> DIR) fat" where
  "follow_loop 0 dev dp path = fhang"
| "follow_loop (Suc n) dev dp path =
     (case create_name path of (res, sfn, rest) \<Rightarrow>
      if res \<noteq> FR_OK then fret (res, dp\<lparr>dir_fn := sfn\<rparr>)
      else fbind (dir_find dev (dp\<lparr>dir_fn := sfn\<rparr>)) (\<lambda>(res, dp).
        let ns = dir_fn dp ! 11
        in if res \<noteq> FR_OK
           then fret (if res = FR_NO_FILE \<and> ns AND NS_LAST = 0 then FR_NO_PATH else res, dp)
           else if ns AND NS_LAST \<noteq> 0 then fret (res, dp)
           else if obj_attr (dir_obj dp) AND AM_DIR = 0 then fret (FR_NO_PATH, dp)
           else fbind (fget (\<lambda>s. fs_at s (obj_fs (dir_obj dp)))) (\<lambda>fs.
                follow_loop n dev (set_sclust (ld_clust fs (win fs) (unat (dptr dp mod 512))) dp) rest)))"

definition follow_path :: "'h dev \<Rightarrow> DIR \<Rightarrow> u8 list \<Rightarrow> ('h, FRESULT \<times> DIR) fat" where
  "follow_path dev dp path =
     (let path = dropWhile separator path; dp = set_sclust 0 dp
      in if path = [] \<or> hd path < 0x20
         then dir_sdi dev (dp\<lparr>dir_fn := (dir_fn dp)[11 := NS_NONAME]\<rparr>) 0
         else follow_loop (length path + 1) dev dp path)"

section \<open>Volumes\<close>

definition get_ldnumber :: "u8 list \<Rightarrow> int \<times> u8 list" where
  "get_ldnumber path =
     (let tt = dropWhile (\<lambda>c. c \<ge> 0x21 \<and> c \<noteq> 0x3A) path
      in if tt \<noteq> [] \<and> hd tt = 0x3A
         then if hd path - 0x30 < 10 \<and> length path = length tt + 1 \<and> hd path - 0x30 < 1
              then (uint (hd path - 0x30), tl tt) else (-1, path)
         else (0, path))"

definition check_fs :: "'h dev \<Rightarrow> nat \<Rightarrow> u32 \<Rightarrow> ('h, nat) fat" where
  "check_fs dev a sect =
     fbind (fput (upd_fs a (\<lambda>fs. fs\<lparr>wflag := 0, winsect := 0xFFFFFFFF\<rparr>))) (\<lambda>_.
     fbind (move_window dev a sect) (\<lambda>res.
     if res \<noteq> FR_OK then fret 4
     else fbind (fget (win_of a)) (\<lambda>w.
       if ld_word w 510 \<noteq> 0xAA55 then fret 3
       else if ld_dword w 54 AND 0xFFFFFF = 0x544146 then fret 0
       else if ld_dword w 82 AND 0xFFFFFF = 0x544146 then fret 0
       else fret 2)))"

fun find_part :: "'h dev \<Rightarrow> nat \<Rightarrow> u32 \<Rightarrow> u32 list \<Rightarrow> ('h, u32 \<times> nat) fat" where
  "find_part dev a b bs =
     fbind (if b \<noteq> 0 then check_fs dev a b else fret 3) (\<lambda>fmt.
     if fmt \<ge> 2 then (case bs of [] \<Rightarrow> fret (b, fmt) | b' # bs' \<Rightarrow> find_part dev a b' bs') else fret (b, fmt))"

text \<open>
  The analysis of the boot sector in \<open>w\<close>, found at \<open>bsect\<close>: the volume with the fields assigned
  so far and its type, no type where the source returns \<^verbatim>\<open>FR_NO_FILESYSTEM\<close>.
\<close>

definition analyze_bpb :: "u8 list \<Rightarrow> u32 \<Rightarrow> FATFS \<Rightarrow> u8 option \<times> FATFS" where
  "analyze_bpb w bsect fs =
     (if ld_word w 11 \<noteq> 512 then (None, fs)
      else let fasize = (if ld_word w 22 = 0 then ld_dword w 36 else ucast (ld_word w 22));
               fs = fs\<lparr>fsize := fasize, n_fats := w ! 16\<rparr>
      in if n_fats fs \<noteq> 1 \<and> n_fats fs \<noteq> 2 then (None, fs)
      else let fasize = fasize * ucast (n_fats fs); fs = fs\<lparr>csize := ucast (w ! 13)\<rparr>
      in if csize fs = 0 \<or> csize fs AND (csize fs - 1) \<noteq> 0 then (None, fs)
      else let fs = fs\<lparr>n_rootdir := ld_word w 17\<rparr>
      in if n_rootdir fs mod 16 \<noteq> 0 then (None, fs)
      else let tsect = (if ld_word w 19 = 0 then ld_dword w 32 else ucast (ld_word w 19)); nrsv = ld_word w 14
      in if nrsv = 0 then (None, fs)
      else let sysect = ucast nrsv + fasize + ucast (n_rootdir fs div 16)
      in if tsect < sysect then (None, fs)
      else let nclst = (tsect - sysect) div ucast (csize fs)
      in if nclst = 0 then (None, fs)
      else let fmt = (if nclst \<ge> 65526 then FS_FAT32 else if nclst \<ge> 4086 then FS_FAT16 else FS_FAT12);
               fs = fs\<lparr>n_fatent := nclst + 2, volbase := bsect, fatbase := bsect + ucast nrsv,
                       database := bsect + sysect\<rparr>
      in if fmt = FS_FAT32 \<and> (ld_word w 42 \<noteq> 0 \<or> n_rootdir fs \<noteq> 0) then (None, fs)
      else if fmt \<noteq> FS_FAT32 \<and> n_rootdir fs = 0 then (None, fs)
      else let fs = fs\<lparr>dirbase := (if fmt = FS_FAT32 then ld_dword w 44 else fatbase fs + fasize)\<rparr>;
               szbfat = (if fmt = FS_FAT32 then n_fatent fs * 4
                         else if fmt = FS_FAT16 then n_fatent fs * 2
                         else n_fatent fs * 3 div 2 + (n_fatent fs AND 1))
      in if fsize fs < (szbfat + 511) div 512 then (None, fs) else (Some fmt, fs))"

definition find_volume :: "'h dev \<Rightarrow> u8 list \<Rightarrow> ('h, FRESULT \<times> nat \<times> u8 list) fat" where
  "find_volume dev path = (case get_ldnumber path of (vol, path) \<Rightarrow>
     if vol < 0 then fret (FR_INVALID_DRIVE, 0, path)
     else fbind (fget (\<lambda>s. FatFs s ! nat vol)) (\<lambda>a.
       if a = 0 then fret (FR_NOT_ENABLED, 0, path)
       else fbind (fget (\<lambda>s. fs_at s a)) (\<lambda>fs.
         fbind (if fs_type fs \<noteq> 0 then disk_stat (fs_drv fs) else fret STA_NOINIT) (\<lambda>stat.
         if fs_type fs \<noteq> 0 \<and> stat AND STA_NOINIT = 0 then fret (FR_OK, a, path)
         else
           fbind (fput (upd_fs a (\<lambda>fs. fs\<lparr>fs_type := 0, fs_drv := word_of_int vol\<rparr>))) (\<lambda>_.
           fbind (disk_start (word_of_int vol)) (\<lambda>stat.
           if stat AND STA_NOINIT \<noteq> 0 then fret (FR_NOT_READY, a, path)
           else
             fbind (check_fs dev a 0) (\<lambda>fmt.
             fbind (if fmt = 2
                    then fbind (fget (win_of a)) (\<lambda>w.
                         let br = map (\<lambda>i. let pt = 446 + i * 16
                                  in if w ! (pt + 4) \<noteq> 0 then ld_dword w (pt + 8) else 0) [0..<4]
                         in find_part dev a (hd br) (tl br))
                    else fret (0, fmt)) (\<lambda>(bsect, fmt).
             if fmt = 4 then fret (FR_DISK_ERR, a, path)
             else if fmt \<ge> 2 then fret (FR_NO_FILESYSTEM, a, path)
             else fbind (fget (\<lambda>s. fs_at s a)) (\<lambda>fs.
               case analyze_bpb (win fs) bsect fs of
                 (None, fs) \<Rightarrow> fbind (fput (upd_fs a (\<lambda>_. fs))) (\<lambda>_. fret (FR_NO_FILESYSTEM, a, path))
               | (Some fmt, fs) \<Rightarrow>
                   fbind (fput (\<lambda>s. upd_fs a (\<lambda>_. fs\<lparr>fs_type := fmt, fs_id := Fsid s + 1\<rparr>)
                            (s\<lparr>Fsid := Fsid s + 1\<rparr>))) (\<lambda>_.
                   fret (FR_OK, a, path)))))))))))"

text \<open>The answer of \<^verbatim>\<open>validate\<close> with the volume that owns the object.\<close>

definition validate :: "FDID \<Rightarrow> ('h, FRESULT \<times> nat) fat" where
  "validate obj = fbind (fget (\<lambda>s. fs_at s (obj_fs obj))) (\<lambda>fs.
     if obj_fs obj = 0 \<or> fs_type fs = 0 \<or> fs_id fs \<noteq> obj_id obj then fret (FR_INVALID_OBJECT, 0)
     else fbind (disk_stat (fs_drv fs)) (\<lambda>stat.
          if stat AND STA_NOINIT \<noteq> 0 then fret (FR_INVALID_OBJECT, 0) else fret (FR_OK, obj_fs obj)))"

section \<open>Public functions\<close>

definition f_mount :: "'h dev \<Rightarrow> nat \<Rightarrow> u8 list \<Rightarrow> u8 \<Rightarrow> ('h, FRESULT) fat" where
  "f_mount dev a path opt = (case get_ldnumber path of (vol, _) \<Rightarrow>
     if vol < 0 then fret FR_INVALID_DRIVE
     else fbind (fget (\<lambda>s. FatFs s ! nat vol)) (\<lambda>cfs.
       fbind (if cfs \<noteq> 0 then fput (upd_fs cfs (\<lambda>fs. fs\<lparr>fs_type := 0\<rparr>)) else fret ()) (\<lambda>_.
       fbind (if a \<noteq> 0 then fput (upd_fs a (\<lambda>fs. fs\<lparr>fs_type := 0\<rparr>)) else fret ()) (\<lambda>_.
       fbind (fput (\<lambda>s. s\<lparr>FatFs := (FatFs s)[nat vol := a]\<rparr>)) (\<lambda>_.
       if a = 0 \<or> opt \<noteq> 1 then fret FR_OK
       else fbind (find_volume dev path) (\<lambda>(res, _). fret res))))))"

definition blank_dir :: "nat \<Rightarrow> DIR" where
  "blank_dir a = \<lparr>dir_obj = \<lparr>obj_fs = a, obj_id = 0, obj_attr = 0, sclust = 0, objsize = 0\<rparr>,
     dptr = 0, dir_clust = 0, dir_sect = 0, dir_ofs = 0, dir_fn = replicate 12 0\<rparr>"

definition f_open :: "'h dev \<Rightarrow> FIL \<Rightarrow> u8 list \<Rightarrow> u8 \<Rightarrow> ('h, FRESULT \<times> FIL) fat" where
  "f_open dev fp path mode =
     (let fp = fp\<lparr>fil_obj := (fil_obj fp)\<lparr>obj_fs := 0\<rparr>\<rparr>; mode = mode AND FA_READ
      in fbind (find_volume dev path) (\<lambda>(res, a, path).
         if res \<noteq> FR_OK then fret (res, fp)
         else fbind (follow_path dev (blank_dir a) path) (\<lambda>(res, dj).
           let res = (if res = FR_OK
                      then if dir_fn dj ! 11 AND NS_NONAME \<noteq> 0 then FR_INVALID_NAME
                           else if obj_attr (dir_obj dj) AND AM_DIR \<noteq> 0 then FR_NO_FILE else res
                      else res)
           in if res \<noteq> FR_OK then fret (res, fp)
              else fbind (fget (\<lambda>s. fs_at s a)) (\<lambda>fs.
                fret (res, fp\<lparr>fil_obj := (fil_obj fp)\<lparr>sclust := ld_clust fs (win fs) (dir_ofs dj),
                                objsize := ld_dword (win fs) (dir_ofs dj + 28), obj_fs := a, obj_id := fs_id fs\<rparr>,
                              fil_err := FR_OK, fptr := 0, fil_sect := 0, fil_flag := mode\<rparr>)))))"

definition f_size :: "FIL \<Rightarrow> u32" where
  "f_size fp = objsize (fil_obj fp)"

text \<open>
  The parts of the loop of \<^verbatim>\<open>f_read\<close>: on a cluster boundary the next cluster of the chain, on a
  sector boundary the sector in the buffer, and the bytes taken from the buffer.
\<close>

definition read_cluster :: "'h dev \<Rightarrow> u32 \<Rightarrow> FIL \<Rightarrow> ('h, FRESULT \<times> FIL) fat" where
  "read_cluster dev csect fp =
     (if csect = 0
      then fbind (if fptr fp = 0 then fret (sclust (fil_obj fp)) else get_fat dev (fil_obj fp) (fil_clust fp)) (\<lambda>clst.
           if clst < 2 then fret (FR_INT_ERR, fp)
           else if clst = 0xFFFFFFFF then fret (FR_DISK_ERR, fp)
           else fret (FR_OK, fp\<lparr>fil_clust := clst\<rparr>))
      else fret (FR_OK, fp))"

definition load_sector :: "'h dev \<Rightarrow> FATFS \<Rightarrow> u32 \<Rightarrow> FIL \<Rightarrow> ('h, FRESULT \<times> FIL) fat" where
  "load_sector dev fs sect fp =
     fbind (if fil_sect fp \<noteq> sect
            then fbind (disk_fetch dev (fs_drv fs) sect 1) (\<lambda>(r, data).
                 fret (if r \<noteq> RES_OK then FR_DISK_ERR else FR_OK, fp\<lparr>fil_buf := data\<rparr>))
            else fret (FR_OK, fp)) (\<lambda>(res, fp).
     fret (res, if res \<noteq> FR_OK then fp else fp\<lparr>fil_sect := sect\<rparr>))"

definition part_count :: "u32 \<Rightarrow> FIL \<Rightarrow> u32" where
  "part_count btr fp = (let rcnt = 512 - fptr fp mod 512 in if rcnt > btr then btr else rcnt)"

definition part_data :: "u32 \<Rightarrow> FIL \<Rightarrow> u8 list" where
  "part_data btr fp = take (unat (part_count btr fp)) (drop (unat (fptr fp mod 512)) (fil_buf fp))"

text \<open>\<^verbatim>\<open>ABORT\<close>: the error stays in the object.\<close>

definition fil_abort :: "FRESULT \<Rightarrow> FIL \<Rightarrow> FIL" where
  "fil_abort res fp = fp\<lparr>fil_err := res\<rparr>"

text \<open>
  The loop: \<open>acc\<close> is what the buffer holds from its start, \<open>br\<close> the bytes read. Each round
  reads a byte at least.
\<close>

fun read_loop :: "nat \<Rightarrow> 'h dev \<Rightarrow> FIL \<Rightarrow> u32 \<Rightarrow> u32 \<Rightarrow> u8 list \<Rightarrow> ('h, FRESULT \<times> FIL \<times> u32 \<times> u8 list) fat" where
  "read_loop 0 dev fp btr br acc = fhang"
| "read_loop (Suc n) dev fp btr br acc =
     (if btr = 0 then fret (FR_OK, fp, br, acc)
      else let partial = (\<lambda>fp. let rcnt = part_count btr fp
             in read_loop n dev (fp\<lparr>fptr := fptr fp + rcnt\<rparr>) (btr - rcnt) (br + rcnt) (acc @ part_data btr fp))
      in fbind (fget (\<lambda>s. fs_at s (obj_fs (fil_obj fp)))) (\<lambda>fs.
      if fptr fp mod 512 = 0
      then let csect = fptr fp div 512 AND (ucast (csize fs) - 1)
        in fbind (read_cluster dev csect fp) (\<lambda>(res, fp).
           if res \<noteq> FR_OK then fret (res, fil_abort res fp, br, acc)
           else let sect = clust2sect fs (fil_clust fp)
             in if sect = 0 then fret (FR_INT_ERR, fil_abort FR_INT_ERR fp, br, acc)
                else let sect = sect + csect; cc = btr div 512
                  in if cc \<noteq> 0
                     then let cc = (if csect + cc > ucast (csize fs) then ucast (csize fs) - csect else cc)
                       in fbind (disk_fetch dev (fs_drv fs) sect cc) (\<lambda>(r, data).
                          if r \<noteq> RES_OK then fret (FR_DISK_ERR, fil_abort FR_DISK_ERR fp, br, acc @ data)
                          else let rcnt = 512 * cc
                            in read_loop n dev (fp\<lparr>fptr := fptr fp + rcnt\<rparr>) (btr - rcnt) (br + rcnt) (acc @ data))
                     else fbind (load_sector dev fs sect fp) (\<lambda>(res, fp).
                          if res \<noteq> FR_OK then fret (res, fil_abort res fp, br, acc) else partial fp))
      else partial fp))"

definition f_read :: "'h dev \<Rightarrow> FIL \<Rightarrow> u32 \<Rightarrow> ('h, FRESULT \<times> FIL \<times> u32 \<times> u8 list) fat" where
  "f_read dev fp btr = fbind (validate (fil_obj fp)) (\<lambda>(res, a).
     if res \<noteq> FR_OK then fret (res, fp, 0, [])
     else if fil_err fp \<noteq> FR_OK then fret (fil_err fp, fp, 0, [])
     else if fil_flag fp AND FA_READ = 0 then fret (FR_DENIED, fp, 0, [])
     else let remain = objsize (fil_obj fp) - fptr fp; btr = (if btr > remain then remain else btr)
       in read_loop (unat btr + 1) dev fp btr 0 [])"

definition f_close :: "FIL \<Rightarrow> ('h, FRESULT \<times> FIL) fat" where
  "f_close fp = fbind (validate (fil_obj fp)) (\<lambda>(res, a).
     if res = FR_OK then fret (res, fp\<lparr>fil_obj := (fil_obj fp)\<lparr>obj_fs := 0\<rparr>\<rparr>) else fret (res, fp))"

text \<open>The cluster following loop of \<^verbatim>\<open>f_lseek\<close>; a cluster has at least 512 bytes.\<close>

fun seek_loop :: "nat \<Rightarrow> 'h dev \<Rightarrow> u32 \<Rightarrow> FIL \<Rightarrow> u32 \<Rightarrow> u32 \<Rightarrow> ('h, FRESULT \<times> FIL \<times> u32 \<times> u32) fat" where
  "seek_loop 0 dev bcs fp clst ofs = fhang"
| "seek_loop (Suc n) dev bcs fp clst ofs =
     (if ofs > bcs
      then fbind (get_fat dev (fil_obj fp) clst) (\<lambda>clst.
           fbind (fget (\<lambda>s. fs_at s (obj_fs (fil_obj fp)))) (\<lambda>fs.
           if clst = 0xFFFFFFFF then fret (FR_DISK_ERR, fp, clst, ofs)
           else if clst \<le> 1 \<or> clst \<ge> n_fatent fs then fret (FR_INT_ERR, fp, clst, ofs)
           else seek_loop n dev bcs (fp\<lparr>fil_clust := clst, fptr := fptr fp + bcs\<rparr>) clst (ofs - bcs)))
      else fret (FR_OK, fp, clst, ofs))"

text \<open>Where the following starts, the current cluster or the first one, and what is left to go.\<close>

definition seek_start :: "FATFS \<Rightarrow> u32 \<Rightarrow> u32 \<Rightarrow> FIL \<Rightarrow> FIL \<times> u32" where
  "seek_start fs ifptr ofs fp =
     (let bcs = ucast (csize fs) * 512
      in if ifptr > 0 \<and> (ofs - 1) div bcs \<ge> (ifptr - 1) div bcs
         then let p = (ifptr - 1) AND NOT (bcs - 1) in (fp\<lparr>fptr := p\<rparr>, ofs - p)
         else (fp\<lparr>fil_clust := sclust (fil_obj fp)\<rparr>, ofs))"

definition seek_fill :: "'h dev \<Rightarrow> FATFS \<Rightarrow> u32 \<Rightarrow> FIL \<Rightarrow> ('h, FRESULT \<times> FIL) fat" where
  "seek_fill dev fs nsect fp =
     (if fptr fp mod 512 \<noteq> 0 \<and> nsect \<noteq> fil_sect fp
      then fbind (disk_fetch dev (fs_drv fs) nsect 1) (\<lambda>(r, data).
           if r \<noteq> RES_OK then fret (FR_DISK_ERR, fil_abort FR_DISK_ERR (fp\<lparr>fil_buf := data\<rparr>))
           else fret (FR_OK, fp\<lparr>fil_buf := data, fil_sect := nsect\<rparr>))
      else fret (FR_OK, fp))"

definition f_lseek :: "'h dev \<Rightarrow> FIL \<Rightarrow> u32 \<Rightarrow> ('h, FRESULT \<times> FIL) fat" where
  "f_lseek dev fp ofs = fbind (validate (fil_obj fp)) (\<lambda>(res, a).
     if res \<noteq> FR_OK then fret (res, fp)
     else if fil_err fp \<noteq> FR_OK then fret (fil_err fp, fp)
     else fbind (fget (\<lambda>s. fs_at s a)) (\<lambda>fs.
       let ofs = (if ofs > objsize (fil_obj fp) then objsize (fil_obj fp) else ofs)
       in if ofs = 0 then seek_fill dev fs 0 (fp\<lparr>fptr := 0\<rparr>)
          else case seek_start fs (fptr fp) ofs (fp\<lparr>fptr := 0\<rparr>) of (fp, ofs) \<Rightarrow>
            if fil_clust fp = 0 then seek_fill dev fs 0 fp
            else fbind (seek_loop (unat ofs div 512 + 1) dev (ucast (csize fs) * 512) fp (fil_clust fp) ofs)
              (\<lambda>(res, fp, clst, ofs).
              if res \<noteq> FR_OK then fret (res, fil_abort res fp)
              else let fp = fp\<lparr>fptr := fptr fp + ofs\<rparr>
                in if ofs mod 512 \<noteq> 0
                   then let nsect = clust2sect fs clst
                     in if nsect = 0 then fret (FR_INT_ERR, fil_abort FR_INT_ERR fp)
                        else seek_fill dev fs (nsect + ofs div 512) fp
                   else seek_fill dev fs 0 fp)))"

definition f_opendir :: "'h dev \<Rightarrow> DIR \<Rightarrow> u8 list \<Rightarrow> ('h, FRESULT \<times> DIR) fat" where
  "f_opendir dev dp path =
     (let drop_fs = (\<lambda>(dp :: DIR). dp\<lparr>dir_obj := (dir_obj dp)\<lparr>obj_fs := 0\<rparr>\<rparr>)
      in fbind (find_volume dev path) (\<lambda>(res, a, path).
         if res \<noteq> FR_OK then fret (res, drop_fs dp)
         else fbind (follow_path dev (dp\<lparr>dir_obj := (dir_obj dp)\<lparr>obj_fs := a\<rparr>, dir_fn := replicate 12 0\<rparr>) path)
           (\<lambda>(res, dp). fbind (fget (\<lambda>s. fs_at s a)) (\<lambda>fs.
           let (res, dp) =
                 (if res = FR_OK \<and> dir_fn dp ! 11 AND NS_NONAME = 0
                  then if obj_attr (dir_obj dp) AND AM_DIR \<noteq> 0
                       then (res, set_sclust (ld_clust fs (win fs) (dir_ofs dp)) dp)
                       else (FR_NO_PATH, dp)
                  else (res, dp))
           in fbind (if res = FR_OK
                     then dir_sdi dev (dp\<lparr>dir_obj := (dir_obj dp)\<lparr>obj_id := fs_id fs\<rparr>\<rparr>) 0
                     else fret (res, dp)) (\<lambda>(res, dp).
              let res = (if res = FR_NO_FILE then FR_NO_PATH else res)
              in fret (res, if res \<noteq> FR_OK then drop_fs dp else dp))))))"

definition f_closedir :: "DIR \<Rightarrow> ('h, FRESULT \<times> DIR) fat" where
  "f_closedir dp = fbind (validate (dir_obj dp)) (\<lambda>(res, a).
     if res = FR_OK then fret (res, dp\<lparr>dir_obj := (dir_obj dp)\<lparr>obj_fs := 0\<rparr>\<rparr>) else fret (res, dp))"

text \<open>\<open>None\<close> is the null pointer for \<^verbatim>\<open>fno\<close>: it rewinds the directory.\<close>

definition f_readdir :: "'h dev \<Rightarrow> DIR \<Rightarrow> FILINFO option \<Rightarrow> ('h, FRESULT \<times> DIR \<times> FILINFO option) fat" where
  "f_readdir dev dp fno = fbind (validate (dir_obj dp)) (\<lambda>(res, a).
     if res \<noteq> FR_OK then fret (res, dp, fno)
     else case fno of
       None \<Rightarrow> fbind (dir_sdi dev dp 0) (\<lambda>(res, dp). fret (res, dp, None))
     | Some info \<Rightarrow> fbind (dir_read dev dp False) (\<lambda>(res, dp).
         if res \<noteq> FR_OK \<and> res \<noteq> FR_NO_FILE then fret (res, dp, fno)
         else fbind (get_fileinfo dp info) (\<lambda>info. fbind (dir_next dev dp) (\<lambda>(res, dp).
              fret (if res = FR_NO_FILE then FR_OK else res, dp, Some info)))))"

definition f_stat :: "'h dev \<Rightarrow> u8 list \<Rightarrow> FILINFO option \<Rightarrow> ('h, FRESULT \<times> FILINFO option) fat" where
  "f_stat dev path fno = fbind (find_volume dev path) (\<lambda>(res, a, path).
     if res \<noteq> FR_OK then fret (res, fno)
     else fbind (follow_path dev (blank_dir a) path) (\<lambda>(res, dj).
       if res \<noteq> FR_OK then fret (res, fno)
       else if dir_fn dj ! 11 AND NS_NONAME \<noteq> 0 then fret (FR_INVALID_NAME, fno)
       else case fno of
         None \<Rightarrow> fret (FR_OK, None)
       | Some info \<Rightarrow> fbind (get_fileinfo dj info) (\<lambda>info. fret (FR_OK, Some info))))"

end
