(* ===== verification/FatNames.thy ===== *)
theory FatNames
  imports FatFsApi
begin

unbundle bit_operations_syntax

text \<open>
  Names of files in the two forms: \<open>create_name\<close> takes a name from a path into the eleven bytes
  of a record, \<open>get_fileinfo\<close> prints a record's name with \<open>info_name\<close>.
\<close>

section \<open>Legal names\<close>

text \<open>The characters that both forms share: neither lower case nor special.\<close>

definition sfn_chr :: "u8 \<Rightarrow> bool" where
  "sfn_chr c \<longleftrightarrow> 0x20 < c \<and> c < 0x80 \<and> \<not> separator c \<and> c \<noteq> 0x2E \<and> \<not> IsLower c \<and> \<not> chk_chr illegal_chrs c"

definition sfn_name :: "u8 list \<Rightarrow> u8 list \<Rightarrow> bool" where
  "sfn_name body ext \<longleftrightarrow> body \<noteq> [] \<and> length body \<le> 8 \<and> length ext \<le> 3 \<and> list_all sfn_chr (body @ ext)"

definition sfn_entry :: "u8 list \<Rightarrow> u8 list \<Rightarrow> u8 list" where
  "sfn_entry body ext = body @ replicate (8 - length body) 0x20 @ ext @ replicate (3 - length ext) 0x20"

definition sfn_text :: "u8 list \<Rightarrow> u8 list \<Rightarrow> u8 list" where
  "sfn_text body ext = body @ (if ext = [] then [] else 0x2E # ext)"

section \<open>Printing a record's name\<close>

lemma info_name_append: "info_name (xs @ ys) i = info_name xs i @ info_name ys (i + length xs)"
  by (induction xs i rule: info_name.induct) simp_all

lemma info_name_blank: "info_name (replicate n 0x20) i = []"
  by (induction n arbitrary: i) simp_all

lemma info_name_chars:
  "list_all sfn_chr xs \<Longrightarrow> (\<And>k. k < length xs \<Longrightarrow> i + k \<noteq> 8) \<Longrightarrow> info_name xs i = xs"
proof (induction xs arbitrary: i)
  case (Cons c xs)
  have "i \<noteq> 8" using Cons.prems(2) [of 0] by simp
  moreover have "info_name xs (i + 1) = xs"
    by (rule Cons.IH) (use Cons.prems(1) Cons.prems(2) [of "Suc k" for k] in auto)
  moreover have "c \<noteq> 0x20" "c \<noteq> 0x05" using Cons.prems(1) by (auto simp: sfn_chr_def)
  ultimately show ?case by simp
qed simp

lemma info_name_entry:
  assumes "sfn_name body ext"
  shows "info_name (sfn_entry body ext) 0 = sfn_text body ext"
proof -
  have b: "info_name body 0 = body"
    using assms by (intro info_name_chars) (auto simp: sfn_name_def)
  have len: "length body + (8 - length body) = 8"
    using assms by (simp add: sfn_name_def)
  have e: "info_name ext 8 = (if ext = [] then [] else 0x2E # ext)"
  proof (cases ext)
    case (Cons c es)
    then have "info_name es 9 = es" "c \<noteq> 0x20" "c \<noteq> 0x05"
      using assms by (auto simp: sfn_name_def sfn_chr_def intro!: info_name_chars)
    then show ?thesis by (simp add: Cons)
  qed simp
  show ?thesis
    by (simp add: sfn_entry_def sfn_text_def info_name_append info_name_blank b e len)
qed

section \<open>Taking a name from a path\<close>

lemma name_loop_chars:
  "list_all sfn_chr cs \<Longrightarrow> i + length cs \<le> ni \<Longrightarrow> ni \<le> length sfn \<Longrightarrow>
    \<exists>b'. b' \<in> {b, b OR 2} \<and>
      name_loop (cs @ p) i ni b sfn = name_loop p (i + length cs) ni b' (take i sfn @ cs @ drop (i + length cs) sfn)"
proof (induction cs arbitrary: i b sfn)
  case (Cons c cs)
  have c: "\<not> (c \<le> 0x20 \<or> separator c)" "\<not> (c = 0x2E \<or> i \<ge> ni)" "\<not> c \<ge> 0x80" "\<not> chk_chr illegal_chrs c" "\<not> IsLower c"
    using Cons.prems by (auto simp: sfn_chr_def not_le)
  let ?b = "if IsUpper c then b OR 2 else b"
  have step: "name_loop ((c # cs) @ p) i ni b sfn = name_loop (cs @ p) (i + 1) ni ?b (sfn[i := c])"
    using c by simp
  have i: "i < length sfn" using Cons.prems by simp
  obtain b' where b': "b' \<in> {?b, ?b OR 2}"
    "name_loop (cs @ p) (i + 1) ni ?b (sfn[i := c]) = name_loop p (i + 1 + length cs) ni b'
      (take (i + 1) (sfn[i := c]) @ cs @ drop (i + 1 + length cs) (sfn[i := c]))"
    using Cons.IH [of "i + 1" "sfn[i := c]" ?b] Cons.prems by auto
  have "take (i + 1) (sfn[i := c]) = take i sfn @ [c]"
    using i by (simp add: take_Suc_conv_app_nth)
  moreover have "drop (i + 1 + length cs) (sfn[i := c]) = drop (i + length (c # cs)) sfn"
    by simp
  moreover have "b' \<in> {b, b OR 2}"
    using b'(1) by (auto simp: or.assoc split: if_splits)
  ultimately show ?case
    unfolding step b'(2) by (intro exI [of _ b']) simp
qed auto

text \<open>No bit says that a part is in lower case.\<close>

lemma no_lower:
  assumes "b \<in> {0, 2, 8, 10 :: u8}"
  shows "(b AND 0x03 = 0x01) = False" "(b AND 0x0C = 0x04) = False"
  using assms by auto

lemma create_name_entry:
  assumes "sfn_name body ext"
  shows "create_name (sfn_text body ext) = (FR_OK, sfn_entry body ext @ [NS_LAST], [])"
proof -
  have n: "list_all sfn_chr body" "list_all sfn_chr ext" "length body \<le> 8" "length ext \<le> 3" "body \<noteq> []"
    using assms by (simp_all add: sfn_name_def)
  let ?blank = "replicate 11 0x20 @ [0] :: u8 list"
  have first: "body ! 0 \<noteq> 0xE5"
    using n(1,5) by (cases body) (auto simp: sfn_chr_def)
  have b0: "length body \<noteq> 0" using n(5) by simp
  show ?thesis
  proof (cases "ext = []")
    case True
    obtain b where b: "b \<in> {0, 0 OR 2}" "name_loop (body @ []) 0 8 0 ?blank
        = name_loop [] (0 + length body) 8 b (take 0 ?blank @ body @ drop (0 + length body) ?blank)"
      using name_loop_chars [OF n(1), of 0 8 ?blank 0 "[]"] n(3) by auto
    have pb: "push_bit 2 b \<in> {0, 2, 8, 10}" using b(1) by auto
    show ?thesis
      using first n(3,5) b0
      by (simp add: create_name_def sfn_text_def True b(2) [simplified] no_lower [OF pb] Let_def nth_append
        sfn_entry_def list_update_append)
        (simp add: replicate_add [symmetric] append_replicate_commute)
  next
    case False
    obtain b where b: "b \<in> {0, 0 OR 2}" "name_loop (body @ 0x2E # ext) 0 8 0 ?blank
        = name_loop (0x2E # ext) (0 + length body) 8 b (take 0 ?blank @ body @ drop (0 + length body) ?blank)"
      using name_loop_chars [OF n(1), of 0 8 ?blank 0 "0x2E # ext"] n(3) by auto
    let ?sfn = "body @ drop (length body) ?blank"
    obtain c where c: "c \<in> {push_bit 2 b, push_bit 2 b OR 2}" "name_loop (ext @ []) 8 11 (push_bit 2 b) ?sfn
        = name_loop [] (8 + length ext) 11 c (take 8 ?sfn @ ext @ drop (8 + length ext) ?sfn)"
      using name_loop_chars [OF n(2), of 8 11 ?sfn "push_bit 2 b" "[]"] n(3,4) by auto
    have dot: "name_loop (0x2E # ext) (length body) 8 b ?sfn = name_loop ext 8 11 (push_bit 2 b) ?sfn"
      by (simp add: separator_def)
    have pc: "c \<in> {0, 2, 8, 10}" using b(1) c(1) by auto
    have sfn: "?sfn = body @ replicate (11 - length body) 0x20 @ [0]"
      using n(3) by simp
    have "take 8 ?sfn = body @ replicate (8 - length body) 0x20" "drop (8 + length ext) ?sfn = replicate (3 - length ext) 0x20 @ [0]"
      unfolding sfn using n(3,4) by (simp_all add: min_def)
    then have loop: "name_loop (body @ 0x2E # ext) 0 8 0 ?blank
        = Some (0, [], 8 + length ext, 11, c, sfn_entry body ext @ [0])"
      using b(2) c(2) dot by (simp add: sfn_entry_def)
    have len: "length (sfn_entry body ext) = 11" using n(3,4) by (simp add: sfn_entry_def)
    have "sfn_entry body ext ! 0 = body ! 0" using b0 by (simp add: sfn_entry_def nth_append)
    then show ?thesis
      using first n(5)
      by (simp add: create_name_def sfn_text_def False loop no_lower [OF pc] Let_def nth_append list_update_append len)
  qed
qed

end
