(* ===== verification/Fdt.thy ===== *)
theory Fdt
  imports Prelude "HOL-Library.Monad_Syntax"
begin

unbundle bit_operations_syntax

text \<open>
  Flattened device trees: \<^verbatim>\<open>src/arm_chainloader/drivers/libfdt/fdt.c\<close> with the header
  accessors of \<^verbatim>\<open>libfdt.h\<close> and the byte order macros of \<^verbatim>\<open>libfdt_env.h\<close>.
  A blob is the memory from the pointer \<^verbatim>\<open>fdt\<close> onwards: a function from byte offsets.
  C integers are mathematical ones; where the C computes in \<^verbatim>\<open>unsigned\<close> or converts
  between the 32-bit types, \<open>c_unsigned\<close> and \<open>c_int\<close> write the wrap-around out. Results
  are the C ones, negative for errors. A loop over the tags of a blob may run for ever, so
  what contains one returns an option, with \<open>None\<close> for not returning.
\<close>

section \<open>C integers and memory\<close>

type_synonym blob = "int \<Rightarrow> u8"
type_synonym octets = "u8 list"

definition c_unsigned :: "int \<Rightarrow> int" where
  "c_unsigned x = x mod 2 ^ 32"

definition c_int :: "int \<Rightarrow> int" where
  "c_int x = (x + 2 ^ 31) mod 2 ^ 32 - 2 ^ 31"

definition be32 :: "blob \<Rightarrow> int \<Rightarrow> int" where
  "be32 b p = uint (b p) * 2 ^ 24 + uint (b (p + 1)) * 2 ^ 16 + uint (b (p + 2)) * 2 ^ 8
     + uint (b (p + 3))"

definition be64 :: "blob \<Rightarrow> int \<Rightarrow> int" where
  "be64 b p = be32 b p * 2 ^ 32 + be32 b (p + 4)"

definition be_bytes :: "int \<Rightarrow> octets" where
  "be_bytes v = [word_of_int (v div 2 ^ 24), word_of_int (v div 2 ^ 16),
     word_of_int (v div 2 ^ 8), word_of_int v]"

definition copy_in :: "blob \<Rightarrow> int \<Rightarrow> octets \<Rightarrow> blob" where
  "copy_in b p xs = (\<lambda>a. if p \<le> a \<and> a < p + int (length xs) then xs ! nat (a - p) else b a)"

definition put32 :: "blob \<Rightarrow> int \<Rightarrow> int \<Rightarrow> blob" where
  "put32 b p v = copy_in b p (be_bytes v)"

definition memmove :: "blob \<Rightarrow> int \<Rightarrow> int \<Rightarrow> int \<Rightarrow> blob" where
  "memmove b dst src n = (\<lambda>a. if dst \<le> a \<and> a < dst + n then b (src + (a - dst)) else b a)"

definition seg :: "blob \<Rightarrow> int \<Rightarrow> nat \<Rightarrow> octets" where
  "seg b p n = map (\<lambda>i. b (p + int i)) [0..<n]"

partial_function (option) c_strlen :: "blob \<Rightarrow> int \<Rightarrow> int option" where
  "c_strlen b p = (if b p = 0 then Some 0 else do { n \<leftarrow> c_strlen b (p + 1); Some (n + 1) })"

definition FDT_ALIGN :: "int \<Rightarrow> int \<Rightarrow> int" where
  "FDT_ALIGN x a = (x + a - 1) AND NOT (a - 1)"

definition FDT_TAGALIGN :: "int \<Rightarrow> int" where
  "FDT_TAGALIGN x = FDT_ALIGN x 4"

section \<open>The header\<close>

definition FDT_MAGIC :: int where "FDT_MAGIC = 0xd00dfeed"
definition FDT_SW_MAGIC :: int where "FDT_SW_MAGIC = c_unsigned (NOT FDT_MAGIC)"
definition FDT_FIRST_SUPPORTED_VERSION :: int where "FDT_FIRST_SUPPORTED_VERSION = 0x10"
definition FDT_LAST_SUPPORTED_VERSION :: int where "FDT_LAST_SUPPORTED_VERSION = 0x11"

definition FDT_ERR_NOTFOUND :: int where "FDT_ERR_NOTFOUND = 1"
definition FDT_ERR_EXISTS :: int where "FDT_ERR_EXISTS = 2"
definition FDT_ERR_NOSPACE :: int where "FDT_ERR_NOSPACE = 3"
definition FDT_ERR_BADOFFSET :: int where "FDT_ERR_BADOFFSET = 4"
definition FDT_ERR_BADPATH :: int where "FDT_ERR_BADPATH = 5"
definition FDT_ERR_BADPHANDLE :: int where "FDT_ERR_BADPHANDLE = 6"
definition FDT_ERR_BADSTATE :: int where "FDT_ERR_BADSTATE = 7"
definition FDT_ERR_TRUNCATED :: int where "FDT_ERR_TRUNCATED = 8"
definition FDT_ERR_BADMAGIC :: int where "FDT_ERR_BADMAGIC = 9"
definition FDT_ERR_BADVERSION :: int where "FDT_ERR_BADVERSION = 10"
definition FDT_ERR_BADSTRUCTURE :: int where "FDT_ERR_BADSTRUCTURE = 11"
definition FDT_ERR_BADLAYOUT :: int where "FDT_ERR_BADLAYOUT = 12"
definition FDT_ERR_INTERNAL :: int where "FDT_ERR_INTERNAL = 13"
definition FDT_ERR_BADVALUE :: int where "FDT_ERR_BADVALUE = 15"

lemmas fdt_errs = FDT_ERR_NOTFOUND_def FDT_ERR_EXISTS_def FDT_ERR_NOSPACE_def
  FDT_ERR_BADOFFSET_def FDT_ERR_BADPATH_def FDT_ERR_BADPHANDLE_def FDT_ERR_BADSTATE_def
  FDT_ERR_TRUNCATED_def FDT_ERR_BADMAGIC_def FDT_ERR_BADVERSION_def FDT_ERR_BADSTRUCTURE_def
  FDT_ERR_BADLAYOUT_def FDT_ERR_INTERNAL_def FDT_ERR_BADVALUE_def

definition FDT_BEGIN_NODE :: int where "FDT_BEGIN_NODE = 1"
definition FDT_END_NODE :: int where "FDT_END_NODE = 2"
definition FDT_PROP :: int where "FDT_PROP = 3"
definition FDT_NOP :: int where "FDT_NOP = 4"
definition FDT_END :: int where "FDT_END = 9"

lemmas fdt_tags = FDT_BEGIN_NODE_def FDT_END_NODE_def FDT_PROP_def FDT_NOP_def FDT_END_def

definition fdt_magic :: "blob \<Rightarrow> int" where "fdt_magic b = be32 b 0"
definition fdt_totalsize :: "blob \<Rightarrow> int" where "fdt_totalsize b = be32 b 4"
definition fdt_off_dt_struct :: "blob \<Rightarrow> int" where "fdt_off_dt_struct b = be32 b 8"
definition fdt_off_dt_strings :: "blob \<Rightarrow> int" where "fdt_off_dt_strings b = be32 b 12"
definition fdt_off_mem_rsvmap :: "blob \<Rightarrow> int" where "fdt_off_mem_rsvmap b = be32 b 16"
definition fdt_version :: "blob \<Rightarrow> int" where "fdt_version b = be32 b 20"
definition fdt_last_comp_version :: "blob \<Rightarrow> int" where "fdt_last_comp_version b = be32 b 24"
definition fdt_boot_cpuid_phys :: "blob \<Rightarrow> int" where "fdt_boot_cpuid_phys b = be32 b 28"
definition fdt_size_dt_strings :: "blob \<Rightarrow> int" where "fdt_size_dt_strings b = be32 b 32"
definition fdt_size_dt_struct :: "blob \<Rightarrow> int" where "fdt_size_dt_struct b = be32 b 36"

lemmas fdt_header = fdt_magic_def fdt_totalsize_def fdt_off_dt_struct_def
  fdt_off_dt_strings_def fdt_off_mem_rsvmap_def fdt_version_def fdt_last_comp_version_def
  fdt_boot_cpuid_phys_def fdt_size_dt_strings_def fdt_size_dt_struct_def

definition fdt_set_totalsize :: "blob \<Rightarrow> int \<Rightarrow> blob" where "fdt_set_totalsize b v = put32 b 4 v"
definition fdt_set_off_dt_struct :: "blob \<Rightarrow> int \<Rightarrow> blob" where "fdt_set_off_dt_struct b v = put32 b 8 v"
definition fdt_set_off_dt_strings :: "blob \<Rightarrow> int \<Rightarrow> blob" where "fdt_set_off_dt_strings b v = put32 b 12 v"
definition fdt_set_off_mem_rsvmap :: "blob \<Rightarrow> int \<Rightarrow> blob" where "fdt_set_off_mem_rsvmap b v = put32 b 16 v"
definition fdt_set_magic :: "blob \<Rightarrow> int \<Rightarrow> blob" where "fdt_set_magic b v = put32 b 0 v"
definition fdt_set_version :: "blob \<Rightarrow> int \<Rightarrow> blob" where "fdt_set_version b v = put32 b 20 v"
definition fdt_set_last_comp_version :: "blob \<Rightarrow> int \<Rightarrow> blob" where "fdt_set_last_comp_version b v = put32 b 24 v"
definition fdt_set_boot_cpuid_phys :: "blob \<Rightarrow> int \<Rightarrow> blob" where "fdt_set_boot_cpuid_phys b v = put32 b 28 v"
definition fdt_set_size_dt_strings :: "blob \<Rightarrow> int \<Rightarrow> blob" where "fdt_set_size_dt_strings b v = put32 b 32 v"
definition fdt_set_size_dt_struct :: "blob \<Rightarrow> int \<Rightarrow> blob" where "fdt_set_size_dt_struct b v = put32 b 36 v"

lemmas fdt_setters = fdt_set_totalsize_def fdt_set_off_dt_struct_def fdt_set_off_dt_strings_def
  fdt_set_off_mem_rsvmap_def fdt_set_magic_def fdt_set_version_def fdt_set_last_comp_version_def
  fdt_set_boot_cpuid_phys_def fdt_set_size_dt_strings_def fdt_set_size_dt_struct_def

definition fdt_check_header :: "blob \<Rightarrow> int" where
  "fdt_check_header b =
     (if fdt_magic b = FDT_MAGIC
      then if fdt_version b < FDT_FIRST_SUPPORTED_VERSION then - FDT_ERR_BADVERSION
           else if fdt_last_comp_version b > FDT_LAST_SUPPORTED_VERSION then - FDT_ERR_BADVERSION
           else 0
      else if fdt_magic b = FDT_SW_MAGIC
      then if fdt_size_dt_struct b = 0 then - FDT_ERR_BADSTATE else 0
      else - FDT_ERR_BADMAGIC)"

section \<open>Tags\<close>

text \<open>Pointers into the blob are offsets from its start.\<close>

definition fdt_struct_ptr :: "blob \<Rightarrow> int \<Rightarrow> int" where
  "fdt_struct_ptr b offset = fdt_off_dt_struct b + offset"

definition fdt_offset_ptr :: "blob \<Rightarrow> int \<Rightarrow> int \<Rightarrow> int option" where
  "fdt_offset_ptr b offset len =
     (let absoffset = c_unsigned (offset + fdt_off_dt_struct b)
      in if absoffset < c_unsigned offset
            \<or> c_unsigned (absoffset + len) < absoffset
            \<or> c_unsigned (absoffset + len) > fdt_totalsize b then None
         else if fdt_version b \<ge> 0x11
            \<and> (c_unsigned (offset + len) < c_unsigned offset
               \<or> c_unsigned (offset + len) > fdt_size_dt_struct b) then None
         else Some (fdt_struct_ptr b offset))"

text \<open>
  The name is skipped by \<^verbatim>\<open>do p = fdt_offset_ptr(fdt, offset++, 1) while (p && *p)\<close>. The
  loop ends: an offset whose byte is the last of the address space is refused.
\<close>

lemma c_unsigned_bounds: "0 \<le> c_unsigned x" "c_unsigned x < 2 ^ 32"
  by (simp_all add: c_unsigned_def)

lemma fdt_offset_ptr_not_last:
  "fdt_offset_ptr b offset 1 = Some p \<Longrightarrow> c_unsigned (offset + fdt_off_dt_struct b) < 2 ^ 32 - 1"
proof (rule ccontr)
  let ?a = "c_unsigned (offset + fdt_off_dt_struct b)"
  assume some: "fdt_offset_ptr b offset 1 = Some p" and "\<not> ?a < 2 ^ 32 - 1"
  then have "?a = 2 ^ 32 - 1"
    using c_unsigned_bounds(2) [of "offset + fdt_off_dt_struct b"] by simp
  then have "c_unsigned (?a + 1) < ?a"
    by (simp add: c_unsigned_def)
  then show False
    using some by (simp add: fdt_offset_ptr_def Let_def)
qed

function skip_name :: "blob \<Rightarrow> int \<Rightarrow> int option" where
  "skip_name b offset =
     (case fdt_offset_ptr b offset 1 of
        None \<Rightarrow> None
      | Some p \<Rightarrow> if b p \<noteq> 0 then skip_name b (c_int (offset + 1)) else Some (c_int (offset + 1)))"
  by pat_completeness auto

lemma c_unsigned_c_int: "c_unsigned (c_int x + y) = c_unsigned (x + y)"
proof -
  have "((x + 2 ^ 31) mod 2 ^ 32 + (y - 2 ^ 31)) mod 2 ^ 32 = ((x + 2 ^ 31) + (y - 2 ^ 31)) mod (2 ^ 32 :: int)"
    by (rule mod_add_left_eq)
  then show ?thesis
    by (simp add: c_unsigned_def c_int_def algebra_simps)
qed

termination skip_name
proof (relation "measure (\<lambda>(b, offset). nat (2 ^ 32 - c_unsigned (offset + fdt_off_dt_struct b)))",
    goal_cases)
  case 1
  then show ?case by simp
next
  case (2 b offset p)
  let ?a = "c_unsigned (offset + fdt_off_dt_struct b)"
  have small: "?a < 2 ^ 32 - 1" "0 \<le> ?a"
    using 2 by (auto dest: fdt_offset_ptr_not_last simp: c_unsigned_bounds)
  have "c_unsigned (c_int (offset + 1) + fdt_off_dt_struct b) = c_unsigned (?a + 1)"
    by (simp add: c_unsigned_c_int) (simp add: c_unsigned_def mod_simps algebra_simps)
  also have "\<dots> = ?a + 1"
    using small by (simp add: c_unsigned_def)
  finally show ?case
    using small by simp
qed

declare skip_name.simps [simp del]

definition fdt_next_tag :: "blob \<Rightarrow> int \<Rightarrow> int \<times> int" where
  "fdt_next_tag b startoffset =
     (case fdt_offset_ptr b startoffset 4 of
        None \<Rightarrow> (FDT_END, - FDT_ERR_TRUNCATED)
      | Some tagp \<Rightarrow>
          let tag = be32 b tagp;
              offset = c_int (startoffset + 4);
              fail = (FDT_END, - FDT_ERR_BADSTRUCTURE);
              finish = (\<lambda>offset. if fdt_offset_ptr b startoffset (offset - startoffset) = None then fail
                else (tag, c_int (FDT_TAGALIGN offset)))
          in if tag = FDT_BEGIN_NODE then
               (case skip_name b offset of None \<Rightarrow> fail | Some offset \<Rightarrow> finish offset)
             else if tag = FDT_PROP then
               (case fdt_offset_ptr b offset 4 of None \<Rightarrow> fail
                | Some lenp \<Rightarrow> finish (c_int (offset + (12 - 4) + be32 b lenp)))
             else if tag = FDT_END \<or> tag = FDT_END_NODE \<or> tag = FDT_NOP then finish offset
             else fail)"

definition fdt_check_node_offset :: "blob \<Rightarrow> int \<Rightarrow> int" where
  "fdt_check_node_offset b offset =
     (if offset < 0 \<or> offset mod 4 \<noteq> 0 \<or> fst (fdt_next_tag b offset) \<noteq> FDT_BEGIN_NODE
      then - FDT_ERR_BADOFFSET else snd (fdt_next_tag b offset))"

definition fdt_check_prop_offset :: "blob \<Rightarrow> int \<Rightarrow> int" where
  "fdt_check_prop_offset b offset =
     (if offset < 0 \<or> offset mod 4 \<noteq> 0 \<or> fst (fdt_next_tag b offset) \<noteq> FDT_PROP
      then - FDT_ERR_BADOFFSET else snd (fdt_next_tag b offset))"

section \<open>Nodes\<close>

text \<open>The depth is \<open>None\<close> where the caller passes a null pointer.\<close>

partial_function (option) next_node_loop ::
    "blob \<Rightarrow> int \<Rightarrow> int option \<Rightarrow> (int \<times> int option) option" where
  "next_node_loop b offset depth =
     (let tag = fst (fdt_next_tag b offset); nextoffset = snd (fdt_next_tag b offset)
      in if tag = FDT_BEGIN_NODE then Some (offset, map_option (\<lambda>d. d + 1) depth)
         else if tag = FDT_END_NODE then
           if depth \<noteq> None \<and> the depth - 1 < 0 then Some (nextoffset, Some (the depth - 1))
           else next_node_loop b nextoffset (map_option (\<lambda>d. d - 1) depth)
         else if tag = FDT_END then
           if nextoffset \<ge> 0 \<or> nextoffset = - FDT_ERR_TRUNCATED \<and> depth = None
           then Some (- FDT_ERR_NOTFOUND, depth) else Some (nextoffset, depth)
         else next_node_loop b nextoffset depth)"

definition fdt_next_node :: "blob \<Rightarrow> int \<Rightarrow> int option \<Rightarrow> (int \<times> int option) option" where
  "fdt_next_node b offset depth =
     (if offset \<ge> 0
      then let nextoffset = fdt_check_node_offset b offset
           in if nextoffset < 0 then Some (nextoffset, depth) else next_node_loop b nextoffset depth
      else next_node_loop b 0 depth)"

definition fdt_first_subnode :: "blob \<Rightarrow> int \<Rightarrow> int option" where
  "fdt_first_subnode b offset = do {
     (offset, depth) \<leftarrow> fdt_next_node b offset (Some 0);
     Some (if offset < 0 \<or> depth \<noteq> Some 1 then - FDT_ERR_NOTFOUND else offset) }"

partial_function (option) next_subnode_loop :: "blob \<Rightarrow> int \<Rightarrow> int option \<Rightarrow> int option" where
  "next_subnode_loop b offset depth = do {
     (offset, depth) \<leftarrow> fdt_next_node b offset depth;
     if offset < 0 \<or> the depth < 1 then Some (- FDT_ERR_NOTFOUND)
     else if the depth > 1 then next_subnode_loop b offset depth
     else Some offset }"

definition fdt_next_subnode :: "blob \<Rightarrow> int \<Rightarrow> int option" where
  "fdt_next_subnode b offset = next_subnode_loop b offset (Some 1)"

text \<open>
  The result is the offset of the string from \<^verbatim>\<open>strtab\<close>. The loop runs \<^verbatim>\<open>p\<close> from
  \<^verbatim>\<open>strtab\<close> to \<^verbatim>\<open>last\<close>, inclusively.
\<close>

definition fdt_find_string :: "blob \<Rightarrow> int \<Rightarrow> int \<Rightarrow> octets \<Rightarrow> int option" where
  "fdt_find_string b strtab tabsize s =
     (let len = length s + 1
      in map_option int
           (List.find (\<lambda>i. seg b (strtab + int i) len = s @ [0]) [0..<nat (tabsize - int len + 1)]))"

definition view_at :: "blob \<Rightarrow> int \<Rightarrow> blob" where
  "view_at m fdt = (\<lambda>a. m (fdt + a))"

definition fdt_move :: "blob \<Rightarrow> int \<Rightarrow> int \<Rightarrow> int \<Rightarrow> int \<times> blob" where
  "fdt_move m fdt buf bufsize =
     (if fdt_check_header (view_at m fdt) \<noteq> 0 then (fdt_check_header (view_at m fdt), m)
      else if fdt_totalsize (view_at m fdt) > c_unsigned bufsize then (- FDT_ERR_NOSPACE, m)
      else (0, memmove m buf fdt (fdt_totalsize (view_at m fdt))))"

end
