(* ===== verification/FdtRead.thy ===== *)
theory FdtRead
  imports Fdt
begin

unbundle bit_operations_syntax

text \<open>
  Reading a device tree: \<^verbatim>\<open>src/arm_chainloader/drivers/libfdt/fdt_ro.c\<close> and
  \<^verbatim>\<open>fdt_addresses.c\<close>. Names and paths are the bytes before the terminating zero. A
  pointer result is an offset into the blob, \<open>None\<close> for the null pointer; what the C returns
  through \<^verbatim>\<open>lenp\<close> is the second component.
\<close>

definition ascii :: "string \<Rightarrow> octets" where
  "ascii s = map of_char s"

definition fdt_nodename_eq :: "blob \<Rightarrow> int \<Rightarrow> octets \<Rightarrow> bool" where
  "fdt_nodename_eq b offset s =
     (case fdt_offset_ptr b (c_int (offset + 4)) (int (length s) + 1) of
        None \<Rightarrow> False
      | Some p \<Rightarrow> seg b p (length s) = s
          \<and> (b (p + int (length s)) = 0 \<or> 0x40 \<notin> set s \<and> b (p + int (length s)) = 0x40))"

definition fdt_string :: "blob \<Rightarrow> int \<Rightarrow> int" where
  "fdt_string b stroffset = fdt_off_dt_strings b + stroffset"

definition fdt_string_eq :: "blob \<Rightarrow> int \<Rightarrow> octets \<Rightarrow> bool option" where
  "fdt_string_eq b stroffset s = do {
     n \<leftarrow> c_strlen b (fdt_string b stroffset);
     Some (n = int (length s) \<and> seg b (fdt_string b stroffset) (length s) = s) }"

section \<open>Memory reservations\<close>

definition fdt_mem_rsv :: "blob \<Rightarrow> int \<Rightarrow> int" where
  "fdt_mem_rsv b n = fdt_off_mem_rsvmap b + n * 16"

definition fdt_get_mem_rsv :: "blob \<Rightarrow> int \<Rightarrow> int \<times> (int \<times> int) option" where
  "fdt_get_mem_rsv b n =
     (if fdt_check_header b \<noteq> 0 then (fdt_check_header b, None)
      else (0, Some (be64 b (fdt_mem_rsv b n), be64 b (fdt_mem_rsv b n + 8))))"

partial_function (option) num_mem_rsv_loop :: "blob \<Rightarrow> int \<Rightarrow> int option" where
  "num_mem_rsv_loop b i =
     (if be64 b (fdt_mem_rsv b i + 8) \<noteq> 0 then num_mem_rsv_loop b (i + 1) else Some i)"

definition fdt_num_mem_rsv :: "blob \<Rightarrow> int option" where
  "fdt_num_mem_rsv b = num_mem_rsv_loop b 0"

section \<open>Properties\<close>

partial_function (option) nextprop :: "blob \<Rightarrow> int \<Rightarrow> int option" where
  "nextprop b offset =
     (let tag = fst (fdt_next_tag b offset); nextoffset = snd (fdt_next_tag b offset)
      in if tag = FDT_END
         then Some (if nextoffset \<ge> 0 then - FDT_ERR_BADSTRUCTURE else nextoffset)
         else if tag = FDT_PROP then Some offset
         else if tag = FDT_NOP then nextprop b nextoffset
         else Some (- FDT_ERR_NOTFOUND))"

definition fdt_first_property_offset :: "blob \<Rightarrow> int \<Rightarrow> int option" where
  "fdt_first_property_offset b nodeoffset =
     (let offset = fdt_check_node_offset b nodeoffset
      in if offset < 0 then Some offset else nextprop b offset)"

definition fdt_next_property_offset :: "blob \<Rightarrow> int \<Rightarrow> int option" where
  "fdt_next_property_offset b offset =
     (let offset = fdt_check_prop_offset b offset
      in if offset < 0 then Some offset else nextprop b offset)"

definition fdt_get_property_by_offset :: "blob \<Rightarrow> int \<Rightarrow> int option \<times> int" where
  "fdt_get_property_by_offset b offset =
     (if fdt_check_prop_offset b offset < 0 then (None, fdt_check_prop_offset b offset)
      else (Some (fdt_struct_ptr b offset), c_int (be32 b (fdt_struct_ptr b offset + 4))))"

partial_function (option) get_property_loop ::
    "blob \<Rightarrow> int \<Rightarrow> octets \<Rightarrow> (int option \<times> int) option" where
  "get_property_loop b offset name =
     (if offset < 0 then Some (None, offset)
      else case fdt_get_property_by_offset b offset of
        (None, _) \<Rightarrow> Some (None, - FDT_ERR_INTERNAL)
      | (Some prop, len) \<Rightarrow> do {
          found \<leftarrow> fdt_string_eq b (be32 b (prop + 8)) name;
          if found then Some (Some prop, len)
          else do { offset \<leftarrow> fdt_next_property_offset b offset; get_property_loop b offset name } })"

definition fdt_get_property_namelen :: "blob \<Rightarrow> int \<Rightarrow> octets \<Rightarrow> (int option \<times> int) option" where
  "fdt_get_property_namelen b offset name = do {
     offset \<leftarrow> fdt_first_property_offset b offset;
     get_property_loop b offset name }"

definition fdt_get_property :: "blob \<Rightarrow> int \<Rightarrow> octets \<Rightarrow> (int option \<times> int) option" where
  "fdt_get_property b nodeoffset name = fdt_get_property_namelen b nodeoffset name"

definition fdt_getprop_namelen :: "blob \<Rightarrow> int \<Rightarrow> octets \<Rightarrow> (int option \<times> int) option" where
  "fdt_getprop_namelen b nodeoffset name = do {
     (prop, len) \<leftarrow> fdt_get_property_namelen b nodeoffset name;
     Some (map_option (\<lambda>p. p + 12) prop, len) }"

definition fdt_getprop_by_offset :: "blob \<Rightarrow> int \<Rightarrow> (int \<times> int) option \<times> int" where
  "fdt_getprop_by_offset b offset =
     (case fdt_get_property_by_offset b offset of
        (None, len) \<Rightarrow> (None, len)
      | (Some prop, len) \<Rightarrow> (Some (fdt_string b (be32 b (prop + 8)), prop + 12), len))"

definition fdt_getprop :: "blob \<Rightarrow> int \<Rightarrow> octets \<Rightarrow> (int option \<times> int) option" where
  "fdt_getprop b nodeoffset name = fdt_getprop_namelen b nodeoffset name"

definition fdt_get_name :: "blob \<Rightarrow> int \<Rightarrow> (int option \<times> int) option" where
  "fdt_get_name b nodeoffset =
     (if fdt_check_header b \<noteq> 0 then Some (None, fdt_check_header b)
      else if fdt_check_node_offset b nodeoffset < 0
      then Some (None, fdt_check_node_offset b nodeoffset)
      else do { len \<leftarrow> c_strlen b (fdt_struct_ptr b nodeoffset + 4);
                Some (Some (fdt_struct_ptr b nodeoffset + 4), len) })"

section \<open>Paths and aliases\<close>

partial_function (option) subnode_loop :: "blob \<Rightarrow> int \<Rightarrow> int option \<Rightarrow> octets \<Rightarrow> int option" where
  "subnode_loop b offset depth name =
     (if offset \<ge> 0 \<and> the depth \<ge> 0
      then if the depth = 1 \<and> fdt_nodename_eq b offset name then Some offset
           else do { (offset, depth) \<leftarrow> fdt_next_node b offset depth; subnode_loop b offset depth name }
      else Some (if the depth < 0 then - FDT_ERR_NOTFOUND else offset))"

definition fdt_subnode_offset_namelen :: "blob \<Rightarrow> int \<Rightarrow> octets \<Rightarrow> int option" where
  "fdt_subnode_offset_namelen b offset name =
     (if fdt_check_header b \<noteq> 0 then Some (fdt_check_header b)
      else subnode_loop b offset (Some 0) name)"

definition fdt_subnode_offset :: "blob \<Rightarrow> int \<Rightarrow> octets \<Rightarrow> int option" where
  "fdt_subnode_offset b parentoffset name = fdt_subnode_offset_namelen b parentoffset name"

text \<open>
  The loop over the components of a path: \<^verbatim>\<open>p\<close> is the rest of the path. Components are
  separated by one or more slashes.
\<close>

function path_loop :: "blob \<Rightarrow> int \<Rightarrow> octets \<Rightarrow> int option" where
  "path_loop b offset p =
     (if p = [] then Some offset
      else let p = dropWhile (\<lambda>c. c = 0x2f) p
           in if p = [] then Some offset
              else do { offset \<leftarrow> fdt_subnode_offset_namelen b offset (takeWhile (\<lambda>c. c \<noteq> 0x2f) p);
                        if offset < 0 then Some offset
                        else path_loop b offset (dropWhile (\<lambda>c. c \<noteq> 0x2f) p) })"
  by pat_completeness auto
termination
proof (relation "measure (\<lambda>(b, offset, p). length p)", goal_cases)
  case 1
  then show ?case by simp
next
  case (2 b offset p x y)
  then have "x \<noteq> []" and "hd x \<noteq> 0x2f"
    using hd_dropWhile [of "\<lambda>c. c = 0x2f" p] by simp_all
  then have "length (dropWhile (\<lambda>c. c \<noteq> 0x2f) x) < length x"
    by (cases x) (simp_all add: length_dropWhile_le less_Suc_eq_le)
  also have "length x \<le> length p"
    using 2 by (simp add: length_dropWhile_le)
  finally show ?case by simp
qed

declare path_loop.simps [simp del]

text \<open>\<^verbatim>\<open>fdt_path_offset(fdt, "/aliases")\<close> starts with a slash, so it does not look for an alias.\<close>

definition aliases_offset :: "blob \<Rightarrow> int option" where
  "aliases_offset b =
     (if fdt_check_header b \<noteq> 0 then Some (fdt_check_header b)
      else path_loop b 0 (ascii ''/aliases''))"

definition fdt_get_alias_namelen :: "blob \<Rightarrow> octets \<Rightarrow> int option option" where
  "fdt_get_alias_namelen b name = do {
     aliasoffset \<leftarrow> aliases_offset b;
     if aliasoffset < 0 then Some None
     else do { (p, _) \<leftarrow> fdt_getprop_namelen b aliasoffset name; Some p } }"

definition fdt_get_alias :: "blob \<Rightarrow> octets \<Rightarrow> int option option" where
  "fdt_get_alias b name = fdt_get_alias_namelen b name"

partial_function (option) fdt_path_offset :: "blob \<Rightarrow> octets \<Rightarrow> int option" where
  "fdt_path_offset b path =
     (if fdt_check_header b \<noteq> 0 then Some (fdt_check_header b)
      else if path = [] \<or> hd path \<noteq> 0x2f
      then do {
        alias \<leftarrow> fdt_get_alias_namelen b (takeWhile (\<lambda>c. c \<noteq> 0x2f) path);
        case alias of
          None \<Rightarrow> Some (- FDT_ERR_BADPATH)
        | Some p \<Rightarrow> do {
            n \<leftarrow> c_strlen b p;
            offset \<leftarrow> fdt_path_offset b (seg b p (nat n));
            path_loop b offset (dropWhile (\<lambda>c. c \<noteq> 0x2f) path) } }
      else path_loop b 0 path)"

section \<open>Handles\<close>

definition fdt_get_phandle :: "blob \<Rightarrow> int \<Rightarrow> int option" where
  "fdt_get_phandle b nodeoffset = do {
     (php, len) \<leftarrow> fdt_getprop b nodeoffset (ascii ''phandle'');
     if php = None \<or> len \<noteq> 4
     then do { (php, len) \<leftarrow> fdt_getprop b nodeoffset (ascii ''linux,phandle'');
               Some (if php = None \<or> len \<noteq> 4 then 0 else be32 b (the php)) }
     else Some (be32 b (the php)) }"

partial_function (option) max_phandle_loop :: "blob \<Rightarrow> int \<Rightarrow> int \<Rightarrow> int option" where
  "max_phandle_loop b offset max_phandle =
     (if offset = - FDT_ERR_NOTFOUND then Some max_phandle
      else if offset < 0 then Some (c_unsigned (-1))
      else do {
        phandle \<leftarrow> fdt_get_phandle b offset;
        (offset, _) \<leftarrow> fdt_next_node b offset None;
        max_phandle_loop b offset
          (if phandle \<noteq> c_unsigned (-1) \<and> phandle > max_phandle then phandle else max_phandle) })"

definition fdt_get_max_phandle :: "blob \<Rightarrow> int option" where
  "fdt_get_max_phandle b = do {
     (offset, _) \<leftarrow> fdt_next_node b (-1) None;
     max_phandle_loop b offset 0 }"

partial_function (option) by_phandle_loop :: "blob \<Rightarrow> int \<Rightarrow> int \<Rightarrow> int option" where
  "by_phandle_loop b offset phandle =
     (if offset < 0 then Some offset
      else do {
        h \<leftarrow> fdt_get_phandle b offset;
        if h = phandle then Some offset
        else do { (offset, _) \<leftarrow> fdt_next_node b offset None; by_phandle_loop b offset phandle } })"

definition fdt_node_offset_by_phandle :: "blob \<Rightarrow> int \<Rightarrow> int option" where
  "fdt_node_offset_by_phandle b phandle =
     (if phandle = 0 \<or> phandle = c_unsigned (-1) then Some (- FDT_ERR_BADPHANDLE)
      else if fdt_check_header b \<noteq> 0 then Some (fdt_check_header b)
      else do { (offset, _) \<leftarrow> fdt_next_node b (-1) None; by_phandle_loop b offset phandle })"

section \<open>Ancestors\<close>

definition walk_error :: "int \<Rightarrow> int" where
  "walk_error offset =
     (if offset = - FDT_ERR_NOTFOUND \<or> offset \<ge> 0 then - FDT_ERR_BADOFFSET
      else if offset = - FDT_ERR_BADOFFSET then - FDT_ERR_BADSTRUCTURE
      else offset)"

text \<open>
  The path is built in a buffer of \<^verbatim>\<open>buflen\<close> bytes; the list is what is in it up to
  \<^verbatim>\<open>p\<close>. Leaving a node takes the bytes behind the last but one slash away.
\<close>

fun pop_component :: "octets \<Rightarrow> octets" where
  "pop_component [] = []"
| "pop_component (x # xs) =
     (let ys = butlast (x # xs) in if ys = [] \<or> last ys = 0x2f then ys else pop_component ys)"

definition pop_to :: "int \<Rightarrow> int \<Rightarrow> octets \<Rightarrow> octets" where
  "pop_to pdepth depth buf = (pop_component ^^ nat (pdepth - depth)) buf"

partial_function (option) get_path_loop ::
    "blob \<Rightarrow> int \<Rightarrow> int \<Rightarrow> int option \<Rightarrow> int \<Rightarrow> int \<Rightarrow> octets \<Rightarrow> (int \<times> octets) option" where
  "get_path_loop b nodeoffset offset depth pdepth buflen buf =
     (if \<not> (offset \<ge> 0 \<and> offset \<le> nodeoffset) then Some (walk_error offset, buf)
      else do {
        let d = the depth;
        let buf = pop_to pdepth d buf;
        let pdepth = min pdepth d;
        (err, pdepth, buf) \<leftarrow>
          (if pdepth \<ge> d
           then do { (name, namelen) \<leftarrow> fdt_get_name b offset;
                     Some (case name of
                       None \<Rightarrow> (Some namelen, pdepth, buf)
                     | Some q \<Rightarrow>
                         if int (length buf) + namelen + 1 \<le> buflen
                         then (None, pdepth + 1, buf @ seg b q (nat namelen) @ [0x2f])
                         else (None, pdepth, buf)) }
           else Some (None, pdepth, buf));
        case err of
          Some e \<Rightarrow> Some (e, buf)
        | None \<Rightarrow>
            if offset = nodeoffset
            then Some (if pdepth < d + 1 then (- FDT_ERR_NOSPACE, buf)
                       else (0, (if length buf > 1 then butlast buf else buf) @ [0]))
            else do { (offset, depth) \<leftarrow> fdt_next_node b offset depth;
                      get_path_loop b nodeoffset offset depth pdepth buflen buf } })"

definition fdt_get_path :: "blob \<Rightarrow> int \<Rightarrow> int \<Rightarrow> (int \<times> octets) option" where
  "fdt_get_path b nodeoffset buflen =
     (if fdt_check_header b \<noteq> 0 then Some (fdt_check_header b, [])
      else if buflen < 2 then Some (- FDT_ERR_NOSPACE, [])
      else get_path_loop b nodeoffset 0 (Some 0) 0 buflen [])"

text \<open>The second component is the depth of the node, stored where it was found.\<close>

partial_function (option) supernode_loop ::
    "blob \<Rightarrow> int \<Rightarrow> int \<Rightarrow> int \<Rightarrow> int option \<Rightarrow> int \<Rightarrow> (int \<times> int option) option" where
  "supernode_loop b nodeoffset supernodedepth offset depth supernodeoffset =
     (if \<not> (offset \<ge> 0 \<and> offset \<le> nodeoffset) then Some (walk_error offset, None)
      else let supernodeoffset = (if the depth = supernodedepth then offset else supernodeoffset)
           in if offset = nodeoffset
              then Some (if supernodedepth > the depth then - FDT_ERR_NOTFOUND else supernodeoffset,
                         depth)
              else do { (offset, depth) \<leftarrow> fdt_next_node b offset depth;
                        supernode_loop b nodeoffset supernodedepth offset depth supernodeoffset })"

definition fdt_supernode_atdepth_offset :: "blob \<Rightarrow> int \<Rightarrow> int \<Rightarrow> (int \<times> int option) option" where
  "fdt_supernode_atdepth_offset b nodeoffset supernodedepth =
     (if fdt_check_header b \<noteq> 0 then Some (fdt_check_header b, None)
      else if supernodedepth < 0 then Some (- FDT_ERR_NOTFOUND, None)
      else supernode_loop b nodeoffset supernodedepth 0 (Some 0) (- FDT_ERR_INTERNAL))"

definition fdt_node_depth :: "blob \<Rightarrow> int \<Rightarrow> int option" where
  "fdt_node_depth b nodeoffset = do {
     (err, nodedepth) \<leftarrow> fdt_supernode_atdepth_offset b nodeoffset 0;
     Some (if err \<noteq> 0 then (if err < 0 then err else - FDT_ERR_INTERNAL) else the nodedepth) }"

definition fdt_parent_offset :: "blob \<Rightarrow> int \<Rightarrow> int option" where
  "fdt_parent_offset b nodeoffset = do {
     nodedepth \<leftarrow> fdt_node_depth b nodeoffset;
     if nodedepth < 0 then Some nodedepth
     else do { (offset, _) \<leftarrow> fdt_supernode_atdepth_offset b nodeoffset (nodedepth - 1); Some offset } }"

section \<open>Nodes by the value of a property\<close>

partial_function (option) by_prop_value_loop :: "blob \<Rightarrow> int \<Rightarrow> octets \<Rightarrow> octets \<Rightarrow> int option" where
  "by_prop_value_loop b offset propname propval =
     (if offset < 0 then Some offset
      else do {
        (val, len) \<leftarrow> fdt_getprop b offset propname;
        if val \<noteq> None \<and> len = int (length propval) \<and> seg b (the val) (length propval) = propval
        then Some offset
        else do { (offset, _) \<leftarrow> fdt_next_node b offset None;
                  by_prop_value_loop b offset propname propval } })"

definition fdt_node_offset_by_prop_value :: "blob \<Rightarrow> int \<Rightarrow> octets \<Rightarrow> octets \<Rightarrow> int option" where
  "fdt_node_offset_by_prop_value b startoffset propname propval =
     (if fdt_check_header b \<noteq> 0 then Some (fdt_check_header b)
      else do { (offset, _) \<leftarrow> fdt_next_node b startoffset None;
                by_prop_value_loop b offset propname propval })"

section \<open>Lists of strings\<close>

definition c_strnlen :: "blob \<Rightarrow> int \<Rightarrow> nat \<Rightarrow> nat" where
  "c_strnlen b p maxlen = length (takeWhile (\<lambda>c. c \<noteq> 0) (seg b p maxlen))"

text \<open>\<^verbatim>\<open>memchr(strlist, 0, listlen)\<close> finds the end of the string at the front.\<close>

function fdt_stringlist_contains :: "blob \<Rightarrow> int \<Rightarrow> int \<Rightarrow> octets \<Rightarrow> bool" where
  "fdt_stringlist_contains b strlist listlen str =
     (if listlen \<ge> int (length str)
      then if seg b strlist (length str + 1) = str @ [0] then True
           else let n = c_strnlen b strlist (nat listlen)
                in if n = nat listlen then False
                   else fdt_stringlist_contains b (strlist + int n + 1) (listlen - (int n + 1)) str
      else False)"
  by pat_completeness auto
termination
proof (relation "measure (\<lambda>(b, strlist, listlen, str). nat listlen)", goal_cases)
  case (2 b strlist listlen str x)
  then show ?case
    by (cases "listlen = 0") (auto simp: c_strnlen_def seg_def)
qed simp

function stringlist_loop ::
    "blob \<Rightarrow> int \<Rightarrow> int \<Rightarrow> (int \<Rightarrow> int \<Rightarrow> int \<Rightarrow> 'a option) \<Rightarrow> (int \<Rightarrow> 'a) \<Rightarrow> 'a \<Rightarrow> int \<Rightarrow> 'a" where
  "stringlist_loop b list stop found exhausted bad idx =
     (if list < stop
      then let length = int (c_strnlen b list (nat (stop - list))) + 1
           in if list + length > stop then bad
              else case found idx list length of
                Some r \<Rightarrow> r
              | None \<Rightarrow> stringlist_loop b (list + length) stop found exhausted bad (idx + 1)
      else exhausted idx)"
  by pat_completeness auto
termination
  by (relation "measure (\<lambda>(b, list, stop, _). nat (stop - list))") auto

declare fdt_stringlist_contains.simps [simp del] stringlist_loop.simps [simp del]

definition fdt_stringlist_count :: "blob \<Rightarrow> int \<Rightarrow> octets \<Rightarrow> int option" where
  "fdt_stringlist_count b nodeoffset property = do {
     (list, length) \<leftarrow> fdt_getprop b nodeoffset property;
     Some (case list of
       None \<Rightarrow> - length
     | Some p \<Rightarrow> stringlist_loop b p (p + length) (\<lambda>_ _ _. None) (\<lambda>count. count)
         (- FDT_ERR_BADVALUE) 0) }"

definition fdt_stringlist_search :: "blob \<Rightarrow> int \<Rightarrow> octets \<Rightarrow> octets \<Rightarrow> int option" where
  "fdt_stringlist_search b nodeoffset property str = do {
     (list, length) \<leftarrow> fdt_getprop b nodeoffset property;
     Some (case list of
       None \<Rightarrow> - length
     | Some p \<Rightarrow> stringlist_loop b p (p + length)
         (\<lambda>idx q n. if n = int (List.length str) + 1 \<and> seg b q (nat n) = str @ [0] then Some idx else None)
         (\<lambda>_. - FDT_ERR_NOTFOUND) (- FDT_ERR_BADVALUE) 0) }"

text \<open>The index counts down in the C and up here, from 0 to \<^verbatim>\<open>idx\<close>.\<close>

definition fdt_stringlist_get :: "blob \<Rightarrow> int \<Rightarrow> octets \<Rightarrow> int \<Rightarrow> (int option \<times> int) option" where
  "fdt_stringlist_get b nodeoffset property idx = do {
     (list, length) \<leftarrow> fdt_getprop b nodeoffset property;
     Some (case list of
       None \<Rightarrow> (None, length)
     | Some p \<Rightarrow> stringlist_loop b p (p + length)
         (\<lambda>i q n. if i = idx then Some (Some q, n - 1) else None)
         (\<lambda>_. (None, - FDT_ERR_NOTFOUND)) (None, - FDT_ERR_BADVALUE) 0) }"

definition fdt_node_check_compatible :: "blob \<Rightarrow> int \<Rightarrow> octets \<Rightarrow> int option" where
  "fdt_node_check_compatible b nodeoffset compatible = do {
     (prop, len) \<leftarrow> fdt_getprop b nodeoffset (ascii ''compatible'');
     Some (case prop of
       None \<Rightarrow> len
     | Some p \<Rightarrow> if fdt_stringlist_contains b p len compatible then 0 else 1) }"

partial_function (option) by_compatible_loop :: "blob \<Rightarrow> int \<Rightarrow> octets \<Rightarrow> int option" where
  "by_compatible_loop b offset compatible =
     (if offset < 0 then Some offset
      else do {
        err \<leftarrow> fdt_node_check_compatible b offset compatible;
        if err < 0 \<and> err \<noteq> - FDT_ERR_NOTFOUND then Some err
        else if err = 0 then Some offset
        else do { (offset, _) \<leftarrow> fdt_next_node b offset None; by_compatible_loop b offset compatible } })"

definition fdt_node_offset_by_compatible :: "blob \<Rightarrow> int \<Rightarrow> octets \<Rightarrow> int option" where
  "fdt_node_offset_by_compatible b startoffset compatible =
     (if fdt_check_header b \<noteq> 0 then Some (fdt_check_header b)
      else do { (offset, _) \<leftarrow> fdt_next_node b startoffset None;
                by_compatible_loop b offset compatible })"

section \<open>Cells\<close>

definition FDT_ERR_BADNCELLS :: int where "FDT_ERR_BADNCELLS = 14"
definition FDT_MAX_NCELLS :: int where "FDT_MAX_NCELLS = 4"

definition fdt_address_cells :: "blob \<Rightarrow> int \<Rightarrow> int option" where
  "fdt_address_cells b nodeoffset = do {
     (ac, len) \<leftarrow> fdt_getprop b nodeoffset (ascii ''#address-cells'');
     Some (case ac of
       None \<Rightarrow> 2
     | Some p \<Rightarrow>
         if len \<noteq> 4 then - FDT_ERR_BADNCELLS
         else let val = c_int (be32 b p)
              in if val \<le> 0 \<or> val > FDT_MAX_NCELLS then - FDT_ERR_BADNCELLS else val) }"

definition fdt_size_cells :: "blob \<Rightarrow> int \<Rightarrow> int option" where
  "fdt_size_cells b nodeoffset = do {
     (sc, len) \<leftarrow> fdt_getprop b nodeoffset (ascii ''#size-cells'');
     Some (case sc of
       None \<Rightarrow> 2
     | Some p \<Rightarrow>
         if len \<noteq> 4 then - FDT_ERR_BADNCELLS
         else let val = c_int (be32 b p)
              in if val < 0 \<or> val > FDT_MAX_NCELLS then - FDT_ERR_BADNCELLS else val) }"

end
