(* ===== verification/FdtWrite.thy ===== *)
theory FdtWrite
  imports FdtRead
begin

unbundle bit_operations_syntax

text \<open>
  Editing a device tree in place: \<^verbatim>\<open>src/arm_chainloader/drivers/libfdt/fdt_rw.c\<close> and
  \<^verbatim>\<open>fdt_wip.c\<close>. Each routine returns its result and the changed blob; what follows the
  blob in memory is part of it up to the total size in the header.
\<close>

section \<open>Splicing\<close>

definition fdt_blocks_misordered :: "blob \<Rightarrow> int \<Rightarrow> int \<Rightarrow> bool" where
  "fdt_blocks_misordered b mem_rsv_size struct_size \<longleftrightarrow>
     fdt_off_mem_rsvmap b < FDT_ALIGN 40 8
     \<or> fdt_off_dt_struct b < c_unsigned (fdt_off_mem_rsvmap b + mem_rsv_size)
     \<or> fdt_off_dt_strings b < c_unsigned (fdt_off_dt_struct b + struct_size)
     \<or> fdt_totalsize b < c_unsigned (fdt_off_dt_strings b + fdt_size_dt_strings b)"

definition fdt_rw_check_header :: "blob \<Rightarrow> int \<times> blob" where
  "fdt_rw_check_header b =
     (if fdt_check_header b \<noteq> 0 then (fdt_check_header b, b)
      else if fdt_version b < 17 then (- FDT_ERR_BADVERSION, b)
      else if fdt_blocks_misordered b 16 (c_int (fdt_size_dt_struct b)) then (- FDT_ERR_BADLAYOUT, b)
      else if fdt_version b > 17 then (0, fdt_set_version b 17)
      else (0, b))"

definition fdt_data_size :: "blob \<Rightarrow> int" where
  "fdt_data_size b = c_int (fdt_off_dt_strings b + fdt_size_dt_strings b)"

definition fdt_splice :: "blob \<Rightarrow> int \<Rightarrow> int \<Rightarrow> int \<Rightarrow> int \<times> blob" where
  "fdt_splice b p oldlen newlen =
     (let stop = fdt_data_size b
      in if p + oldlen < p \<or> p + oldlen > stop then (- FDT_ERR_BADOFFSET, b)
         else if p < 0 \<or> stop - oldlen + newlen < 0 then (- FDT_ERR_BADOFFSET, b)
         else if stop - oldlen + newlen > fdt_totalsize b then (- FDT_ERR_NOSPACE, b)
         else (0, memmove b (p + newlen) (p + oldlen) (stop - p - oldlen)))"

definition fdt_splice_mem_rsv :: "blob \<Rightarrow> int \<Rightarrow> int \<Rightarrow> int \<Rightarrow> int \<times> blob" where
  "fdt_splice_mem_rsv b p oldn newn =
     (let delta = (newn - oldn) * 16; (err, b) = fdt_splice b p (oldn * 16) (newn * 16)
      in if err \<noteq> 0 then (err, b)
         else let b = fdt_set_off_dt_struct b (fdt_off_dt_struct b + delta)
              in (0, fdt_set_off_dt_strings b (fdt_off_dt_strings b + delta)))"

definition fdt_splice_struct :: "blob \<Rightarrow> int \<Rightarrow> int \<Rightarrow> int \<Rightarrow> int \<times> blob" where
  "fdt_splice_struct b p oldlen newlen =
     (let delta = newlen - oldlen; (err, b) = fdt_splice b p oldlen newlen
      in if err \<noteq> 0 then (err, b)
         else let b = fdt_set_size_dt_struct b (fdt_size_dt_struct b + delta)
              in (0, fdt_set_off_dt_strings b (fdt_off_dt_strings b + delta)))"

definition fdt_splice_string :: "blob \<Rightarrow> int \<Rightarrow> int \<times> blob" where
  "fdt_splice_string b newlen =
     (let p = fdt_off_dt_strings b + fdt_size_dt_strings b; (err, b) = fdt_splice b p 0 newlen
      in if err \<noteq> 0 then (err, b)
         else (0, fdt_set_size_dt_strings b (fdt_size_dt_strings b + newlen)))"

definition fdt_find_add_string :: "blob \<Rightarrow> octets \<Rightarrow> int \<times> blob" where
  "fdt_find_add_string b s =
     (let strtab = fdt_off_dt_strings b; len = int (length s) + 1
      in case fdt_find_string b strtab (c_int (fdt_size_dt_strings b)) s of
           Some p \<Rightarrow> (p, b)
         | None \<Rightarrow>
             let new = strtab + fdt_size_dt_strings b; (err, b) = fdt_splice_string b len
             in if err \<noteq> 0 then (err, b) else (new - strtab, copy_in b new (s @ [0])))"

section \<open>Memory reservations\<close>

definition put64 :: "blob \<Rightarrow> int \<Rightarrow> int \<Rightarrow> blob" where
  "put64 b p v = put32 (put32 b p (v div 2 ^ 32)) (p + 4) v"

definition fdt_add_mem_rsv :: "blob \<Rightarrow> int \<Rightarrow> int \<Rightarrow> (int \<times> blob) option" where
  "fdt_add_mem_rsv b address sz =
     (case fdt_rw_check_header b of (err, b) \<Rightarrow>
        if err \<noteq> 0 then Some (err, b)
        else do {
          n \<leftarrow> fdt_num_mem_rsv b;
          let re = fdt_mem_rsv b n;
          let (err, b) = fdt_splice_mem_rsv b re 0 1;
          Some (if err \<noteq> 0 then (err, b) else (0, put64 (put64 b re address) (re + 8) sz)) })"

definition fdt_del_mem_rsv :: "blob \<Rightarrow> int \<Rightarrow> (int \<times> blob) option" where
  "fdt_del_mem_rsv b n =
     (let re = fdt_mem_rsv b n
      in case fdt_rw_check_header b of (err, b) \<Rightarrow>
        if err \<noteq> 0 then Some (err, b)
        else do {
          m \<leftarrow> fdt_num_mem_rsv b;
          Some (if n \<ge> m then (- FDT_ERR_NOTFOUND, b) else fdt_splice_mem_rsv b re 1 0) })"

section \<open>Properties\<close>

text \<open>The result holds the error, the property and the blob.\<close>

definition fdt_resize_property :: "blob \<Rightarrow> int \<Rightarrow> octets \<Rightarrow> int \<Rightarrow> (int \<times> int option \<times> blob) option" where
  "fdt_resize_property b nodeoffset name len = do {
     (prop, oldlen) \<leftarrow> fdt_get_property b nodeoffset name;
     Some (case prop of
       None \<Rightarrow> (oldlen, None, b)
     | Some p \<Rightarrow>
         let (err, b) = fdt_splice_struct b (p + 12) (c_int (FDT_TAGALIGN oldlen)) (c_int (FDT_TAGALIGN len))
         in if err \<noteq> 0 then (err, prop, b) else (0, prop, put32 b (p + 4) len)) }"

definition fdt_add_property :: "blob \<Rightarrow> int \<Rightarrow> octets \<Rightarrow> int \<Rightarrow> int \<times> int option \<times> blob" where
  "fdt_add_property b nodeoffset name len =
     (let nextoffset = fdt_check_node_offset b nodeoffset
      in if nextoffset < 0 then (nextoffset, None, b)
         else let (namestroff, b) = fdt_find_add_string b name
              in if namestroff < 0 then (namestroff, None, b)
                 else let p = fdt_struct_ptr b nextoffset;
                          proplen = c_int (12 + FDT_TAGALIGN len);
                          (err, b) = fdt_splice_struct b p 0 proplen
                      in if err \<noteq> 0 then (err, Some p, b)
                         else (0, Some p, put32 (put32 (put32 b p FDT_PROP) (p + 8) namestroff) (p + 4) len))"

definition fdt_set_name :: "blob \<Rightarrow> int \<Rightarrow> octets \<Rightarrow> (int \<times> blob) option" where
  "fdt_set_name b nodeoffset name =
     (case fdt_rw_check_header b of (err, b) \<Rightarrow>
        if err \<noteq> 0 then Some (err, b)
        else do {
          (namep, oldlen) \<leftarrow> fdt_get_name b nodeoffset;
          Some (case namep of
            None \<Rightarrow> (oldlen, b)
          | Some p \<Rightarrow>
              let (err, b) = fdt_splice_struct b p (c_int (FDT_TAGALIGN (oldlen + 1)))
                    (c_int (FDT_TAGALIGN (int (length name) + 1)))
              in if err \<noteq> 0 then (err, b) else (0, copy_in b p (name @ [0]))) })"

definition fdt_setprop :: "blob \<Rightarrow> int \<Rightarrow> octets \<Rightarrow> octets \<Rightarrow> (int \<times> blob) option" where
  "fdt_setprop b nodeoffset name val =
     (case fdt_rw_check_header b of (err, b) \<Rightarrow>
        if err \<noteq> 0 then Some (err, b)
        else do {
          (err, prop, b) \<leftarrow> fdt_resize_property b nodeoffset name (int (length val));
          let (err, prop, b) =
            (if err = - FDT_ERR_NOTFOUND then fdt_add_property b nodeoffset name (int (length val))
             else (err, prop, b));
          Some (if err \<noteq> 0 then (err, b) else (0, copy_in b (the prop + 12) val)) })"

definition fdt_appendprop :: "blob \<Rightarrow> int \<Rightarrow> octets \<Rightarrow> octets \<Rightarrow> (int \<times> blob) option" where
  "fdt_appendprop b nodeoffset name val =
     (case fdt_rw_check_header b of (err, b) \<Rightarrow>
        if err \<noteq> 0 then Some (err, b)
        else do {
          (prop, oldlen) \<leftarrow> fdt_get_property b nodeoffset name;
          Some (case prop of
            Some p \<Rightarrow>
              let newlen = int (length val) + oldlen;
                  (err, b) = fdt_splice_struct b (p + 12) (c_int (FDT_TAGALIGN oldlen))
                    (c_int (FDT_TAGALIGN newlen))
              in if err \<noteq> 0 then (err, b)
                 else (0, copy_in (put32 b (p + 4) newlen) (p + 12 + oldlen) val)
          | None \<Rightarrow>
              let (err, prop, b) = fdt_add_property b nodeoffset name (int (length val))
              in if err \<noteq> 0 then (err, b) else (0, copy_in b (the prop + 12) val)) })"

definition fdt_delprop :: "blob \<Rightarrow> int \<Rightarrow> octets \<Rightarrow> (int \<times> blob) option" where
  "fdt_delprop b nodeoffset name =
     (case fdt_rw_check_header b of (err, b) \<Rightarrow>
        if err \<noteq> 0 then Some (err, b)
        else do {
          (prop, len) \<leftarrow> fdt_get_property b nodeoffset name;
          Some (case prop of
            None \<Rightarrow> (len, b)
          | Some p \<Rightarrow> fdt_splice_struct b p (c_int (12 + FDT_TAGALIGN len)) 0) })"

section \<open>Nodes\<close>

partial_function (option) after_props :: "blob \<Rightarrow> int \<Rightarrow> int option" where
  "after_props b offset =
     (let tag = fst (fdt_next_tag b offset); nextoffset = snd (fdt_next_tag b offset)
      in if tag = FDT_PROP \<or> tag = FDT_NOP then after_props b nextoffset else Some offset)"

definition fdt_add_subnode_namelen :: "blob \<Rightarrow> int \<Rightarrow> octets \<Rightarrow> (int \<times> blob) option" where
  "fdt_add_subnode_namelen b parentoffset name =
     (case fdt_rw_check_header b of (err, b) \<Rightarrow>
        if err \<noteq> 0 then Some (err, b)
        else do {
          offset \<leftarrow> fdt_subnode_offset_namelen b parentoffset name;
          if offset \<ge> 0 then Some (- FDT_ERR_EXISTS, b)
          else if offset \<noteq> - FDT_ERR_NOTFOUND then Some (offset, b)
          else do {
            offset \<leftarrow> after_props b (snd (fdt_next_tag b parentoffset));
            let nh = fdt_struct_ptr b offset;
            let nodelen = c_int (4 + FDT_TAGALIGN (int (length name) + 1) + 4);
            let (err, b) = fdt_splice_struct b nh 0 nodelen;
            Some (if err \<noteq> 0 then (err, b)
              else let b = put32 b nh FDT_BEGIN_NODE;
                       b = copy_in b (nh + 4) (replicate (nat (FDT_TAGALIGN (int (length name) + 1))) 0);
                       b = copy_in b (nh + 4) name;
                       b = put32 b (nh + nodelen - 4) FDT_END_NODE
                   in (offset, b)) } })"

definition fdt_add_subnode :: "blob \<Rightarrow> int \<Rightarrow> octets \<Rightarrow> (int \<times> blob) option" where
  "fdt_add_subnode b parentoffset name = fdt_add_subnode_namelen b parentoffset name"

partial_function (option) node_end_loop :: "blob \<Rightarrow> int \<Rightarrow> int option \<Rightarrow> int option" where
  "node_end_loop b offset depth =
     (if offset \<ge> 0 \<and> the depth \<ge> 0
      then do { (offset, depth) \<leftarrow> fdt_next_node b offset depth; node_end_loop b offset depth }
      else Some offset)"

definition fdt_node_end_offset :: "blob \<Rightarrow> int \<Rightarrow> int option" where
  "fdt_node_end_offset b offset = node_end_loop b offset (Some 0)"

definition fdt_del_node :: "blob \<Rightarrow> int \<Rightarrow> (int \<times> blob) option" where
  "fdt_del_node b nodeoffset =
     (case fdt_rw_check_header b of (err, b) \<Rightarrow>
        if err \<noteq> 0 then Some (err, b)
        else do {
          endoffset \<leftarrow> fdt_node_end_offset b nodeoffset;
          Some (if endoffset < 0 then (endoffset, b)
            else fdt_splice_struct b (fdt_struct_ptr b nodeoffset) (endoffset - nodeoffset) 0) })"

section \<open>Opening and packing\<close>

text \<open>
  Here \<^verbatim>\<open>old\<close> and \<^verbatim>\<open>new\<close> are two places in one memory; \<open>at_blob\<close> runs a setter on
  the blob at an address.
\<close>

definition at_blob :: "blob \<Rightarrow> int \<Rightarrow> (blob \<Rightarrow> blob) \<Rightarrow> blob" where
  "at_blob m fdt f = (\<lambda>a. f (view_at m fdt) (a - fdt))"

definition fdt_packblocks :: "blob \<Rightarrow> int \<Rightarrow> int \<Rightarrow> int \<Rightarrow> int \<Rightarrow> blob" where
  "fdt_packblocks m old new mem_rsv_size struct_size =
     (let mem_rsv_off = FDT_ALIGN 40 8;
          struct_off = mem_rsv_off + mem_rsv_size;
          strings_off = struct_off + struct_size;
          m = memmove m (new + mem_rsv_off) (old + fdt_off_mem_rsvmap (view_at m old)) mem_rsv_size;
          m = at_blob m new (\<lambda>b. fdt_set_off_mem_rsvmap b mem_rsv_off);
          m = memmove m (new + struct_off) (old + fdt_off_dt_struct (view_at m old)) struct_size;
          m = at_blob m new (\<lambda>b. fdt_set_off_dt_struct b struct_off);
          m = at_blob m new (\<lambda>b. fdt_set_size_dt_struct b struct_size);
          m = memmove m (new + strings_off) (old + fdt_off_dt_strings (view_at m old))
                (fdt_size_dt_strings (view_at m old));
          m = at_blob m new (\<lambda>b. fdt_set_off_dt_strings b strings_off);
          m = at_blob m new (\<lambda>b. fdt_set_size_dt_strings b (fdt_size_dt_strings (view_at m old)))
      in m)"

partial_function (option) struct_end_loop :: "blob \<Rightarrow> int \<Rightarrow> int option" where
  "struct_end_loop b struct_size =
     (if fst (fdt_next_tag b struct_size) \<noteq> FDT_END
      then struct_end_loop b (snd (fdt_next_tag b struct_size))
      else Some (snd (fdt_next_tag b struct_size)))"

definition fdt_open_into :: "blob \<Rightarrow> int \<Rightarrow> int \<Rightarrow> int \<Rightarrow> (int \<times> blob) option" where
  "fdt_open_into m fdt buf bufsize =
     (let b = view_at m fdt; fdtstart = fdt; fdtend = fdtstart + fdt_totalsize b
      in if fdt_check_header b \<noteq> 0 then Some (fdt_check_header b, m)
         else do {
           n \<leftarrow> fdt_num_mem_rsv b;
           let mem_rsv_size = (n + 1) * 16;
           struct_size \<leftarrow> (if fdt_version b \<ge> 17 then Some (c_int (fdt_size_dt_struct b))
                            else struct_end_loop b 0);
           if fdt_version b < 17 \<and> struct_size < 0 then Some (struct_size, m)
           else if \<not> fdt_blocks_misordered b mem_rsv_size struct_size
           then let (err, m) = fdt_move m fdt buf bufsize
                in Some (if err \<noteq> 0 then (err, m)
                     else (0, at_blob m buf (\<lambda>b. fdt_set_totalsize
                                (fdt_set_size_dt_struct (fdt_set_version b 17) struct_size) bufsize)))
           else let newsize = c_int (FDT_ALIGN 40 8 + mem_rsv_size + struct_size + fdt_size_dt_strings b)
                in if bufsize < newsize then Some (- FDT_ERR_NOSPACE, m)
                   else let overlap = (buf + newsize > fdtstart \<and> buf < fdtend);
                            tmp = (if overlap then fdtend else buf)
                        in if overlap \<and> tmp + newsize > buf + bufsize then Some (- FDT_ERR_NOSPACE, m)
                           else let m = fdt_packblocks m fdt tmp mem_rsv_size struct_size;
                                    m = memmove m buf tmp newsize;
                                    m = at_blob m buf (\<lambda>b. fdt_set_magic b FDT_MAGIC);
                                    m = at_blob m buf (\<lambda>b. fdt_set_totalsize b bufsize);
                                    m = at_blob m buf (\<lambda>b. fdt_set_version b 17);
                                    m = at_blob m buf (\<lambda>b. fdt_set_last_comp_version b 16);
                                    m = at_blob m buf (\<lambda>b. fdt_set_boot_cpuid_phys b
                                          (fdt_boot_cpuid_phys (view_at m fdt)))
                                in Some (0, m) })"

definition fdt_pack :: "blob \<Rightarrow> (int \<times> blob) option" where
  "fdt_pack b =
     (case fdt_rw_check_header b of (err, b) \<Rightarrow>
        if err \<noteq> 0 then Some (err, b)
        else do {
          n \<leftarrow> fdt_num_mem_rsv b;
          let b = fdt_packblocks b 0 0 ((n + 1) * 16) (c_int (fdt_size_dt_struct b));
          Some (0, fdt_set_totalsize b (fdt_data_size b)) })"

section \<open>Writing without resizing\<close>

definition fdt_setprop_inplace_namelen_partial ::
    "blob \<Rightarrow> int \<Rightarrow> octets \<Rightarrow> int \<Rightarrow> octets \<Rightarrow> (int \<times> blob) option" where
  "fdt_setprop_inplace_namelen_partial b nodeoffset name idx val = do {
     (propval, proplen) \<leftarrow> fdt_getprop_namelen b nodeoffset name;
     Some (case propval of
       None \<Rightarrow> (proplen, b)
     | Some p \<Rightarrow> if c_unsigned proplen < c_unsigned (int (length val) + idx)
                  then (- FDT_ERR_NOSPACE, b) else (0, copy_in b (p + idx) val)) }"

definition fdt_setprop_inplace :: "blob \<Rightarrow> int \<Rightarrow> octets \<Rightarrow> octets \<Rightarrow> (int \<times> blob) option" where
  "fdt_setprop_inplace b nodeoffset name val = do {
     (propval, proplen) \<leftarrow> fdt_getprop b nodeoffset name;
     if propval = None then Some (proplen, b)
     else if proplen \<noteq> int (length val) then Some (- FDT_ERR_NOSPACE, b)
     else fdt_setprop_inplace_namelen_partial b nodeoffset name 0 val }"

text \<open>The region is filled word by word, beyond its end when its length is not a multiple of four.\<close>

definition fdt_nop_region :: "blob \<Rightarrow> int \<Rightarrow> int \<Rightarrow> blob" where
  "fdt_nop_region b start len =
     foldl (\<lambda>b i. put32 b (start + 4 * int i) FDT_NOP) b [0..<nat ((len + 3) div 4)]"

definition fdt_nop_property :: "blob \<Rightarrow> int \<Rightarrow> octets \<Rightarrow> (int \<times> blob) option" where
  "fdt_nop_property b nodeoffset name = do {
     (prop, len) \<leftarrow> fdt_get_property b nodeoffset name;
     Some (case prop of
       None \<Rightarrow> (len, b)
     | Some p \<Rightarrow> (0, fdt_nop_region b p (len + 12))) }"

definition fdt_nop_node :: "blob \<Rightarrow> int \<Rightarrow> (int \<times> blob) option" where
  "fdt_nop_node b nodeoffset = do {
     endoffset \<leftarrow> fdt_node_end_offset b nodeoffset;
     Some (if endoffset < 0 then (endoffset, b)
       else (0, fdt_nop_region b (the (fdt_offset_ptr b nodeoffset 0)) (endoffset - nodeoffset))) }"

end
