(* ===== verification/FdtTokens.thy ===== *)
theory FdtTokens
  imports FdtWrite
begin

unbundle bit_operations_syntax

text \<open>
  The abstract view of a device tree blob: a layout whose blocks do not overlap
  (\<open>fdt_layout\<close>) and a structure block that holds a list of tokens (\<open>fdt_holds\<close>). The lemmas
  say what reading a tag, walking to the next node and looking for a property return on a
  blob that holds given tokens. The library is \<^verbatim>\<open>src/arm_chainloader/drivers/libfdt\<close>.
\<close>

section \<open>Bytes\<close>

lemma be32_bounds: "0 \<le> be32 b p" "be32 b p < 2 ^ 32"
  using uint_bounded [of "b p"] uint_bounded [of "b (p + 1)"]
    uint_bounded [of "b (p + 2)"] uint_bounded [of "b (p + 3)"]
  by (simp_all add: be32_def)

lemma be32_cong:
  "(\<And>i. 0 \<le> i \<Longrightarrow> i < 4 \<Longrightarrow> b (p + i) = b' (p' + i)) \<Longrightarrow> be32 b p = be32 b' p'"
proof -
  assume "\<And>i. 0 \<le> i \<Longrightarrow> i < 4 \<Longrightarrow> b (p + i) = b' (p' + i)"
  from this [of 0] this [of 1] this [of 2] this [of 3] show ?thesis
    by (simp add: be32_def)
qed

lemma copy_in_outside: "a < p \<or> p + int (length xs) \<le> a \<Longrightarrow> copy_in b p xs a = b a"
  by (auto simp: copy_in_def)

lemma copy_in_inside:
  "i < length xs \<Longrightarrow> copy_in b p xs (p + int i) = xs ! i"
  by (simp add: copy_in_def)

lemma length_be_bytes [simp]: "length (be_bytes v) = 4"
  by (simp add: be_bytes_def)

lemma be32_copy_other:
  "q + 4 \<le> p \<or> p + int (length xs) \<le> q \<Longrightarrow> be32 (copy_in b p xs) q = be32 b q"
  by (rule be32_cong) (auto simp: copy_in_def)

lemma be32_put32_other: "q + 4 \<le> p \<or> p + 4 \<le> q \<Longrightarrow> be32 (put32 b p v) q = be32 b q"
  unfolding put32_def by (rule be32_copy_other) simp

lemma bytes_of_int:
  "(v div 2 ^ 24 mod 2 ^ 8) * 2 ^ 24 + (v div 2 ^ 16 mod 2 ^ 8) * 2 ^ 16
     + (v div 2 ^ 8 mod 2 ^ 8) * 2 ^ 8 + v mod 2 ^ 8 = v mod (2 ^ 32 :: int)"
proof -
  have a: "v div 65536 = v div 256 div 256" "v div 16777216 = v div 256 div 256 div 256"
    by (simp_all flip: zdiv_zmult2_eq)
  have b: "v mod 4294967296 = v mod (256 * (256 * (256 * 256)))" by simp
  show ?thesis
    by (simp add: a, simp only: b zmod_zmult2_eq [of "256 * (256 * 256)"]
        zmod_zmult2_eq [of "256 * 256"] zmod_zmult2_eq [of 256], simp add: algebra_simps)
qed

lemma uint_word_of_int_8: "uint (word_of_int v :: u8) = v mod 2 ^ 8"
  by (simp add: uint_word_of_int)

lemma be32_put32: "be32 (put32 b p v) p = v mod 2 ^ 32"
proof -
  have "put32 b p v p = word_of_int (v div 2 ^ 24)"
    "put32 b p v (p + 1) = word_of_int (v div 2 ^ 16)"
    "put32 b p v (p + 2) = word_of_int (v div 2 ^ 8)"
    "put32 b p v (p + 3) = word_of_int v"
    by (simp_all add: put32_def copy_in_def be_bytes_def)
  then show ?thesis
    unfolding be32_def by (simp only: uint_word_of_int_8 bytes_of_int)
qed

lemma put32_outside: "a < p \<or> p + 4 \<le> a \<Longrightarrow> put32 b p v a = b a"
  by (simp add: put32_def copy_in_outside)

lemma length_seg [simp]: "length (seg b p n) = n"
  by (simp add: seg_def)

lemma nth_seg [simp]: "i < n \<Longrightarrow> seg b p n ! i = b (p + int i)"
  by (simp add: seg_def)

lemma seg_eq_iff: "seg b p n = xs \<longleftrightarrow> length xs = n \<and> (\<forall>i<n. b (p + int i) = xs ! i)"
  by (auto simp: list_eq_iff_nth_eq)

lemma seg_cong: "(\<And>i. i < n \<Longrightarrow> b (p + int i) = b' (p' + int i)) \<Longrightarrow> seg b p n = seg b' p' n"
  by (auto simp: seg_eq_iff)

lemma seg_append: "seg b p (m + n) = seg b p m @ seg b (p + int m) n"
  by (simp add: list_eq_iff_nth_eq nth_append)

lemma take_seg: "m \<le> n \<Longrightarrow> take m (seg b p n) = seg b p m"
  by (simp add: list_eq_iff_nth_eq)

lemma drop_seg: "drop m (seg b p n) = seg b (p + int m) (n - m)"
  by (simp add: list_eq_iff_nth_eq add.assoc)

lemma FDT_TAGALIGN_eq: "FDT_TAGALIGN x = 4 * ((x + 3) div 4)"
proof -
  have "(x + 3) AND NOT (mask 2) = push_bit 2 (drop_bit 2 (x + 3))"
  proof (rule bit_eqI)
    fix n
    have "2 \<le> n \<Longrightarrow> Suc (Suc (n - 2)) = n" by arith
    then show "bit ((x + 3) AND NOT (mask 2)) n = bit (push_bit 2 (drop_bit 2 (x + 3))) n"
      by (auto simp: bit_simps)
  qed
  then show ?thesis
    by (simp add: FDT_TAGALIGN_def FDT_ALIGN_def mask_eq_exp_minus_1 push_bit_eq_mult
        drop_bit_eq_div add.commute mult.commute)
qed

lemma FDT_TAGALIGN_bounds: "x \<le> FDT_TAGALIGN x" "FDT_TAGALIGN x < x + 4" "FDT_TAGALIGN x mod 4 = 0"
  unfolding FDT_TAGALIGN_eq by presburger+

lemma FDT_TAGALIGN_add: "y mod 4 = 0 \<Longrightarrow> FDT_TAGALIGN (y + x) = y + FDT_TAGALIGN x"
  unfolding FDT_TAGALIGN_eq by presburger

lemma FDT_TAGALIGN_self: "y mod 4 = 0 \<Longrightarrow> FDT_TAGALIGN y = y"
  unfolding FDT_TAGALIGN_eq by presburger

lemma c_int_small: "- (2 ^ 31) \<le> x \<Longrightarrow> x < 2 ^ 31 \<Longrightarrow> c_int x = x"
  by (simp add: c_int_def)

lemma c_unsigned_small: "0 \<le> x \<Longrightarrow> x < 2 ^ 32 \<Longrightarrow> c_unsigned x = x"
  by (simp add: c_unsigned_def)

section \<open>Tokens\<close>

datatype token = T_BEGIN octets | T_END_NODE | T_PROP octets octets | T_END

fun tag_of :: "token \<Rightarrow> int" where
  "tag_of (T_BEGIN _) = FDT_BEGIN_NODE"
| "tag_of T_END_NODE = FDT_END_NODE"
| "tag_of (T_PROP _ _) = FDT_PROP"
| "tag_of T_END = FDT_END"

fun tok_size :: "token \<Rightarrow> int" where
  "tok_size (T_BEGIN n) = 4 + FDT_TAGALIGN (int (length n) + 1)"
| "tok_size T_END_NODE = 4"
| "tok_size (T_PROP _ v) = 12 + FDT_TAGALIGN (int (length v))"
| "tok_size T_END = 4"

definition toks_size :: "token list \<Rightarrow> int" where
  "toks_size ts = sum_list (map tok_size ts)"

text \<open>A name at an offset of the strings block, which is given as a list.\<close>

definition string_at :: "octets \<Rightarrow> int \<Rightarrow> octets \<Rightarrow> bool" where
  "string_at st n s \<longleftrightarrow> 0 \<le> n \<and> take (length s + 1) (drop (nat n) st) = s @ [0] \<and> 0 \<notin> set s"

text \<open>Tokens in a blob; \<open>N\<close> says which name the field \<^verbatim>\<open>nameoff\<close> of a property stands for. In a finished
  blob it is an offset in the strings block.\<close>

fun tok_as :: "(int \<Rightarrow> octets \<Rightarrow> bool) \<Rightarrow> blob \<Rightarrow> int \<Rightarrow> token \<Rightarrow> bool" where
  "tok_as N b p (T_BEGIN n) \<longleftrightarrow>
     be32 b p = FDT_BEGIN_NODE \<and> seg b (p + 4) (length n + 1) = n @ [0] \<and> 0 \<notin> set n"
| "tok_as N b p T_END_NODE \<longleftrightarrow> be32 b p = FDT_END_NODE"
| "tok_as N b p (T_PROP n v) \<longleftrightarrow>
     be32 b p = FDT_PROP \<and> be32 b (p + 4) = int (length v) \<and> N (be32 b (p + 8)) n
     \<and> seg b (p + 12) (length v) = v"
| "tok_as N b p T_END \<longleftrightarrow> be32 b p = FDT_END"

fun toks_as :: "(int \<Rightarrow> octets \<Rightarrow> bool) \<Rightarrow> blob \<Rightarrow> int \<Rightarrow> token list \<Rightarrow> bool" where
  "toks_as N b p [] \<longleftrightarrow> True"
| "toks_as N b p (t # ts) \<longleftrightarrow> tok_as N b p t \<and> toks_as N b (p + tok_size t) ts"

abbreviation tok_at :: "blob \<Rightarrow> octets \<Rightarrow> int \<Rightarrow> token \<Rightarrow> bool" where
  "tok_at b st \<equiv> tok_as (string_at st) b"

abbreviation toks_at :: "blob \<Rightarrow> octets \<Rightarrow> int \<Rightarrow> token list \<Rightarrow> bool" where
  "toks_at b st \<equiv> toks_as (string_at st) b"

text \<open>The blocks lie behind each other inside the blob.\<close>

definition fdt_shape :: "blob \<Rightarrow> bool" where
  "fdt_shape b \<longleftrightarrow> fdt_version b = 17 \<and> 40 \<le> fdt_off_dt_struct b
     \<and> fdt_off_dt_struct b + fdt_size_dt_struct b \<le> fdt_totalsize b \<and> fdt_totalsize b < 2 ^ 31"

definition fdt_layout :: "blob \<Rightarrow> bool" where
  "fdt_layout b \<longleftrightarrow> fdt_magic b = FDT_MAGIC \<and> fdt_version b = 17 \<and> fdt_last_comp_version b \<le> 17
     \<and> 40 \<le> fdt_off_mem_rsvmap b \<and> fdt_off_mem_rsvmap b + 16 \<le> fdt_off_dt_struct b
     \<and> fdt_off_dt_struct b + fdt_size_dt_struct b \<le> fdt_off_dt_strings b
     \<and> fdt_off_dt_strings b + fdt_size_dt_strings b \<le> fdt_totalsize b \<and> fdt_totalsize b < 2 ^ 31"

definition strtab :: "blob \<Rightarrow> octets" where
  "strtab b = seg b (fdt_off_dt_strings b) (nat (fdt_size_dt_strings b))"

definition fdt_holds :: "blob \<Rightarrow> token list \<Rightarrow> bool" where
  "fdt_holds b ts \<longleftrightarrow> fdt_layout b \<and> toks_at b (strtab b) (fdt_off_dt_struct b) ts
     \<and> fdt_size_dt_struct b = toks_size ts"

lemma toks_size_simps [simp]:
  "toks_size [] = 0" "toks_size (t # ts) = tok_size t + toks_size ts"
  "toks_size (xs @ ys) = toks_size xs + toks_size ys"
  by (simp_all add: toks_size_def)

lemma toks_as_append [simp]:
  "toks_as N b p (xs @ ys) \<longleftrightarrow> toks_as N b p xs \<and> toks_as N b (p + toks_size xs) ys"
  by (induction xs arbitrary: p) (simp_all add: add.assoc)

lemma FDT_TAGALIGN_nonneg: "0 \<le> x \<Longrightarrow> 0 \<le> FDT_TAGALIGN x"
  using FDT_TAGALIGN_bounds(1) [of x] by simp

lemma tok_size_pos: "4 \<le> tok_size t"
  using FDT_TAGALIGN_nonneg [of "int (length (case t of T_BEGIN n \<Rightarrow> n | T_PROP _ v \<Rightarrow> v))"]
    FDT_TAGALIGN_nonneg [of "int (length (case t of T_BEGIN n \<Rightarrow> n)) + 1"]
  by (cases t) simp_all

lemma tok_size_mod: "tok_size t mod 4 = 0"
  by (cases t) (simp_all add: FDT_TAGALIGN_eq)

lemma toks_size_nonneg: "0 \<le> toks_size ts"
proof (induction ts)
  case (Cons t ts)
  then show ?case using tok_size_pos [of t] by simp
qed simp

lemma toks_size_mod: "toks_size ts mod 4 = 0"
proof (induction ts)
  case (Cons t ts)
  then show ?case using tok_size_mod [of t] by simp presburger
qed simp

lemma fdt_header_bounds:
  "0 \<le> fdt_totalsize b" "0 \<le> fdt_off_dt_struct b" "0 \<le> fdt_off_dt_strings b"
  "0 \<le> fdt_size_dt_strings b" "0 \<le> fdt_size_dt_struct b" "0 \<le> fdt_off_mem_rsvmap b"
  by (simp_all add: fdt_header be32_bounds)

lemma layout_shape [simp]: "fdt_layout b \<Longrightarrow> fdt_shape b"
  using fdt_header_bounds [of b] by (simp add: fdt_layout_def fdt_shape_def)

lemma fdt_offset_ptr_ok:
  assumes "fdt_shape b" "0 \<le> offset" "0 \<le> len" "offset + len \<le> fdt_size_dt_struct b"
  shows "fdt_offset_ptr b offset len = Some (fdt_off_dt_struct b + offset)"
  using assms fdt_header_bounds [of b]
  by (simp add: fdt_offset_ptr_def fdt_shape_def c_unsigned_small Let_def fdt_struct_ptr_def)

lemma shape_small: "fdt_shape b \<Longrightarrow> fdt_size_dt_struct b < 2 ^ 31 - 40"
  by (simp add: fdt_shape_def)

lemma layout_small: "fdt_layout b \<Longrightarrow> fdt_size_dt_struct b < 2 ^ 31 - 40"
  by (rule shape_small [OF layout_shape])

section \<open>Reading tags\<close>

lemma skip_name_ok:
  assumes "fdt_shape b" "0 \<le> off" "0 \<notin> set n"
    and "seg b (fdt_off_dt_struct b + off) (length n + 1) = n @ [0]"
    and "off + int (length n) + 1 \<le> fdt_size_dt_struct b"
  shows "skip_name b off = Some (off + int (length n) + 1)"
  using assms(2-5)
proof (induction n arbitrary: off)
  case Nil
  then have "b (fdt_off_dt_struct b + off) = 0"
    by (simp add: seg_def)
  then show ?case
    using Nil assms(1) shape_small [OF assms(1)]
    by (subst skip_name.simps) (simp add: fdt_offset_ptr_ok c_int_small)
next
  case (Cons c n)
  have len: "length (c # n) + 1 = 1 + (length n + 1)" by simp
  have "seg b (fdt_off_dt_struct b + off) (1 + (length n + 1)) = (c # n) @ [0]"
    using Cons.prems(3) len by metis
  then have "b (fdt_off_dt_struct b + off) = c"
    and rest: "seg b (fdt_off_dt_struct b + (off + 1)) (length n + 1) = n @ [0]"
    unfolding seg_append by (simp_all add: seg_def add.assoc)
  moreover have "skip_name b (off + 1) = Some ((off + 1) + int (length n) + 1)"
    by (rule Cons.IH) (use Cons.prems rest in simp_all)
  ultimately show ?case
    using Cons.prems assms(1) shape_small [OF assms(1)]
    by (subst skip_name.simps) (simp add: fdt_offset_ptr_ok c_int_small)
qed

lemma next_tag_tok:
  assumes lay: "fdt_shape b" and t: "tok_as N b (fdt_off_dt_struct b + off) t"
    and off: "0 \<le> off" "off mod 4 = 0" and room: "off + tok_size t \<le> fdt_size_dt_struct b"
  shows "fdt_next_tag b off = (tag_of t, off + tok_size t)"
proof -
  note small = shape_small [OF lay]
  have room4: "off + 4 \<le> fdt_size_dt_struct b"
    using room tok_size_pos [of t] by simp
  have ptr: "fdt_offset_ptr b off 4 = Some (fdt_off_dt_struct b + off)"
    using lay off room4 by (simp add: fdt_offset_ptr_ok)
  have off4: "c_int (off + 4) = off + 4"
    using off room4 small by (simp add: c_int_small)
  show ?thesis
  proof (cases t)
    case (T_BEGIN n)
    let ?e = "off + 4 + int (length n) + 1"
    have al: "FDT_TAGALIGN ?e = off + (4 + FDT_TAGALIGN (int (length n) + 1))"
      using FDT_TAGALIGN_add [of "off + 4" "int (length n) + 1"] off(2)
      by (simp add: algebra_simps)
    have e: "?e \<le> FDT_TAGALIGN ?e"
      by (rule FDT_TAGALIGN_bounds)
    have room': "FDT_TAGALIGN ?e \<le> fdt_size_dt_struct b"
      using room T_BEGIN al by simp
    have "skip_name b (off + 4) = Some ?e"
      by (rule skip_name_ok) (use lay t off e room' T_BEGIN in \<open>simp_all add: add.assoc\<close>)
    moreover have "fdt_offset_ptr b off (?e - off) \<noteq> None"
      using lay off e room' by (simp add: fdt_offset_ptr_ok)
    moreover have "c_int (FDT_TAGALIGN ?e) = FDT_TAGALIGN ?e"
      using off e room' small by (simp add: c_int_small)
    ultimately show ?thesis
      using t T_BEGIN ptr off4 al
      by (simp add: fdt_next_tag_def fdt_tags)
  next
    case (T_PROP n v)
    let ?e = "off + 12 + int (length v)"
    have al: "FDT_TAGALIGN ?e = off + (12 + FDT_TAGALIGN (int (length v)))"
      using FDT_TAGALIGN_add [of "off + 12" "int (length v)"] off(2)
      by (simp add: algebra_simps) presburger
    have e: "?e \<le> FDT_TAGALIGN ?e"
      by (rule FDT_TAGALIGN_bounds)
    have room': "FDT_TAGALIGN ?e \<le> fdt_size_dt_struct b"
      using room T_PROP al by simp
    have "fdt_offset_ptr b (off + 4) 4 = Some (fdt_off_dt_struct b + off + 4)"
      using lay off e room' by (simp add: fdt_offset_ptr_ok)
    moreover have "be32 b (fdt_off_dt_struct b + off + 4) = int (length v)"
      using t T_PROP by simp
    moreover have "c_int (off + 4 + (12 - 4) + int (length v)) = ?e"
      using off e room' small by (simp add: c_int_small)
    moreover have "fdt_offset_ptr b off (?e - off) \<noteq> None"
      using lay off e room' by (simp add: fdt_offset_ptr_ok)
    moreover have "c_int (FDT_TAGALIGN ?e) = FDT_TAGALIGN ?e"
      using off e room' small by (simp add: c_int_small)
    ultimately show ?thesis
      using t T_PROP ptr off4 al
      by (simp add: fdt_next_tag_def fdt_tags)
  qed (use t ptr off off4 small room4 in
      \<open>simp_all add: fdt_next_tag_def fdt_tags FDT_TAGALIGN_self c_int_small\<close>)
qed

text \<open>The offset of the token behind \<open>pre\<close> is the size of \<open>pre\<close>.\<close>

lemma holds_tok:
  "fdt_holds b (pre @ t # post) \<Longrightarrow> tok_at b (strtab b) (fdt_off_dt_struct b + toks_size pre) t"
  by (simp add: fdt_holds_def)

lemma holds_room: "fdt_holds b (pre @ t # post) \<Longrightarrow> toks_size pre + tok_size t \<le> fdt_size_dt_struct b"
  using toks_size_nonneg [of post] by (simp add: fdt_holds_def)

lemma holds_layout: "fdt_holds b ts \<Longrightarrow> fdt_layout b"
  by (simp add: fdt_holds_def)

lemma next_tag_holds:
  "fdt_holds b (pre @ t # post) \<Longrightarrow> fdt_next_tag b (toks_size pre) = (tag_of t, toks_size (pre @ [t]))"
  by (simp add: next_tag_tok [OF layout_shape [OF holds_layout] holds_tok _ _ holds_room] toks_size_nonneg toks_size_mod)

lemma check_node_holds:
  "fdt_holds b (pre @ T_BEGIN n # post) \<Longrightarrow>
     fdt_check_node_offset b (toks_size pre) = toks_size (pre @ [T_BEGIN n])"
  using toks_size_nonneg [of pre]
  by (simp add: fdt_check_node_offset_def next_tag_holds toks_size_mod)

lemma check_prop_holds:
  "fdt_holds b (pre @ T_PROP n v # post) \<Longrightarrow>
     fdt_check_prop_offset b (toks_size pre) = toks_size (pre @ [T_PROP n v])"
  using toks_size_nonneg [of pre]
  by (simp add: fdt_check_prop_offset_def next_tag_holds toks_size_mod)

lemma check_header_holds: "fdt_holds b ts \<Longrightarrow> fdt_check_header b = 0"
  by (simp add: fdt_holds_def fdt_layout_def fdt_check_header_def FDT_FIRST_SUPPORTED_VERSION_def
      FDT_LAST_SUPPORTED_VERSION_def)

lemma rw_check_holds: "fdt_holds b ts \<Longrightarrow> fdt_rw_check_header b = (0, b)"
proof -
  assume h: "fdt_holds b ts"
  then have "\<not> fdt_blocks_misordered b 16 (c_int (fdt_size_dt_struct b))"
    using layout_small [OF holds_layout [OF h]] fdt_header_bounds [of b]
    by (simp add: fdt_blocks_misordered_def fdt_holds_def fdt_layout_def c_unsigned_small c_int_small
        FDT_ALIGN_def)
  then show ?thesis
    using h by (simp add: fdt_rw_check_header_def check_header_holds)
      (simp add: fdt_holds_def fdt_layout_def)
qed

end
