(* ===== verification/FdtTree.thy ===== *)
theory FdtTree
  imports FdtTokens
begin

unbundle bit_operations_syntax

text \<open>
  Device trees as trees. A tree is laid out as a list of tokens (\<open>flat\<close>); on a blob that
  holds it, looking up a path and setting a property with the routines of
  \<^verbatim>\<open>src/arm_chainloader/drivers/libfdt\<close> are the operations \<open>locate\<close> and \<open>set_prop\<close> on
  the tree. Trees without NOP tokens are covered: the compiler that writes the files the
  boot loader reads emits none.
\<close>

section \<open>Names and strings\<close>

text \<open>A name matches without its unit address when the pattern has none.\<close>

definition name_matches :: "octets \<Rightarrow> octets \<Rightarrow> bool" where
  "name_matches n s \<longleftrightarrow> length s \<le> length n \<and> take (length s) n = s
     \<and> (length n = length s \<or> 0x40 \<notin> set s \<and> n ! length s = 0x40)"

lemma seg_take: "seg b p n = xs \<Longrightarrow> m \<le> n \<Longrightarrow> seg b p m = take m xs"
  using take_seg [of m n b p] by simp

lemma nodename_eq_holds:
  assumes h: "fdt_holds b (pre @ T_BEGIN n # post)" and s: "0 \<notin> set s"
  shows "fdt_nodename_eq b (toks_size pre) s \<longleftrightarrow> name_matches n s"
proof -
  let ?off = "toks_size pre"
  let ?p = "fdt_off_dt_struct b + (?off + 4)"
  note lay = holds_layout [OF h]
  have n: "seg b ?p (length n + 1) = n @ [0]" "0 \<notin> set n"
    using holds_tok [OF h] by (simp_all add: add.assoc)
  have room: "?off + (4 + FDT_TAGALIGN (int (length n) + 1)) \<le> fdt_size_dt_struct b"
    using holds_room [OF h] by simp
  have off: "0 \<le> ?off" by (rule toks_size_nonneg)
  have off4: "c_int (?off + 4) = ?off + 4"
    using off room layout_small [OF lay] FDT_TAGALIGN_nonneg [of "int (length n) + 1"]
    by (simp add: c_int_small)
  have byte: "b (?p + int i) = (n @ [0]) ! i" if "i < length n + 1" for i
    using n(1) that by (metis nth_seg)
  show ?thesis
  proof (cases "length s \<le> length n")
    case True
    have ptr: "fdt_offset_ptr b (?off + 4) (int (length s) + 1) = Some ?p"
      using lay off room FDT_TAGALIGN_bounds(1) [of "int (length n) + 1"] True
      by (simp add: fdt_offset_ptr_ok)
    have sg: "seg b ?p (length s) = take (length s) n"
      using seg_take [OF n(1), of "length s"] True by simp
    have nx: "b (?p + int (length s)) = (n @ [0]) ! length s"
      using byte True by simp
    have "(n @ [0]) ! length s = 0 \<longleftrightarrow> length n = length s"
      using True n(2) by (auto simp: nth_append) (metis nth_mem order_le_neq_trans)
    then show ?thesis
      using True by (auto simp: fdt_nodename_eq_def off4 ptr sg nx name_matches_def nth_append)
  next
    case False
    have "seg b ?p (length s) \<noteq> s"
    proof
      assume eq: "seg b ?p (length s) = s"
      have "s ! length n = b (?p + int (length n))"
        using eq False by (metis not_le_imp_less nth_seg)
      then have "s ! length n = 0"
        using byte [of "length n"] by simp
      then show False
        using s False by (metis not_le_imp_less nth_mem)
    qed
    moreover have "fdt_offset_ptr b (?off + 4) (int (length s) + 1) = None
        \<or> fdt_offset_ptr b (?off + 4) (int (length s) + 1) = Some ?p"
      by (auto simp: fdt_offset_ptr_def Let_def fdt_struct_ptr_def)
    ultimately show ?thesis
      using False by (auto simp: fdt_nodename_eq_def off4 name_matches_def)
  qed
qed

lemma c_strlen_seg:
  "seg b p (length n + 1) = n @ [0] \<Longrightarrow> 0 \<notin> set n \<Longrightarrow> c_strlen b p = Some (int (length n))"
proof (induction n arbitrary: p)
  case Nil
  then show ?case
    by (subst c_strlen.simps) (simp add: seg_def)
next
  case (Cons c n)
  have "seg b p (1 + (length n + 1)) = (c # n) @ [0]"
    using Cons.prems by simp
  then have "b p = c" and rest: "seg b (p + 1) (length n + 1) = n @ [0]"
    unfolding seg_append by (simp_all add: seg_def)
  then show ?case
    using Cons by (subst c_strlen.simps) simp
qed

lemma string_at_seg:
  assumes "string_at (strtab b) off n"
  shows "seg b (fdt_string b off) (length n + 1) = n @ [0]" "0 \<notin> set n"
proof -
  have t: "take (length n + 1) (drop (nat off) (strtab b)) = n @ [0]" and off: "0 \<le> off"
    using assms by (simp_all add: string_at_def)
  have "length n + 1 \<le> length (drop (nat off) (strtab b))"
    using arg_cong [OF t, of length] by simp
  then show "seg b (fdt_string b off) (length n + 1) = n @ [0]"
    using t off by (simp add: strtab_def drop_seg take_seg fdt_string_def)
  show "0 \<notin> set n"
    using assms by (simp add: string_at_def)
qed

lemma string_eq_holds:
  assumes "string_at (strtab b) off n"
  shows "fdt_string_eq b off s = Some (n = s)"
proof -
  note n = string_at_seg [OF assms]
  have "seg b (fdt_string b off) (length n) = n"
    using seg_take [OF n(1), of "length n"] by simp
  then show ?thesis
    by (auto simp: fdt_string_eq_def c_strlen_seg [OF n])
qed

lemma string_at_more: "string_at st off n \<Longrightarrow> string_at (st @ x) off n"
proof -
  assume a: "string_at st off n"
  then have "length n + 1 \<le> length (drop (nat off) st)"
    by (metis string_at_def length_append_singleton length_take min.absorb_iff2 Suc_eq_plus1)
  then show ?thesis
    using a by (simp add: string_at_def)
qed

section \<open>The properties of a node\<close>

definition prop_toks :: "(octets \<times> octets) list \<Rightarrow> token list" where
  "prop_toks ps = map (\<lambda>(k, v). T_PROP k v) ps"

lemma prop_toks_simps [simp]:
  "prop_toks [] = []" "prop_toks ((k, v) # ps) = T_PROP k v # prop_toks ps"
  "prop_toks (ps @ qs) = prop_toks ps @ prop_toks qs"
  by (simp_all add: prop_toks_def)

definition ends_props :: "token \<Rightarrow> bool" where
  "ends_props t \<longleftrightarrow> t = T_END_NODE \<or> (\<exists>n. t = T_BEGIN n)"

lemma nextprop_prop:
  "fdt_holds b (pre @ T_PROP k v # post) \<Longrightarrow> nextprop b (toks_size pre) = Some (toks_size pre)"
  by (subst nextprop.simps) (simp add: next_tag_holds fdt_tags)

lemma nextprop_end:
  "fdt_holds b (pre @ t # post) \<Longrightarrow> ends_props t \<Longrightarrow>
     nextprop b (toks_size pre) = Some (- FDT_ERR_NOTFOUND)"
  by (subst nextprop.simps) (auto simp: next_tag_holds fdt_tags ends_props_def)

text \<open>The first property of that name, as the search returns it.\<close>

fun find_prop :: "octets \<Rightarrow> int \<Rightarrow> (octets \<times> octets) list \<Rightarrow> (int \<times> octets) option" where
  "find_prop name off [] = None"
| "find_prop name off ((k, v) # ps) =
     (if k = name then Some (off, v) else find_prop name (off + tok_size (T_PROP k v)) ps)"

definition found_prop :: "blob \<Rightarrow> (int \<times> octets) option \<Rightarrow> int option \<times> int" where
  "found_prop b r =
     (case r of None \<Rightarrow> (None, - FDT_ERR_NOTFOUND)
      | Some (off, v) \<Rightarrow> (Some (fdt_off_dt_struct b + off), int (length v)))"

lemma prop_length_small:
  assumes h: "fdt_holds b (pre @ T_PROP k v # post)"
  shows "int (length v) < 2 ^ 31"
proof -
  have "toks_size pre + (12 + FDT_TAGALIGN (int (length v))) \<le> fdt_size_dt_struct b"
    using holds_room [OF h] by simp
  then show ?thesis
    using toks_size_nonneg [of pre] layout_small [OF holds_layout [OF h]]
      FDT_TAGALIGN_bounds(1) [of "int (length v)"] by simp
qed

lemma get_property_loop_holds:
  assumes "fdt_holds b (pre @ prop_toks ps @ t # post)" "ends_props t"
  shows "Option.bind (nextprop b (toks_size pre)) (\<lambda>off. get_property_loop b off name)
    = Some (found_prop b (find_prop name (toks_size pre) ps))"
  using assms(1)
proof (induction ps arbitrary: pre)
  case Nil
  then have "nextprop b (toks_size pre) = Some (- FDT_ERR_NOTFOUND)"
    using assms(2) by (simp add: nextprop_end)
  then show ?case
    by (subst get_property_loop.simps) (simp add: fdt_errs found_prop_def)
next
  case (Cons kv ps)
  obtain k v where kv: "kv = (k, v)" by (cases kv)
  let ?p = "fdt_off_dt_struct b + toks_size pre"
  have h: "fdt_holds b (pre @ T_PROP k v # (prop_toks ps @ t # post))"
    using Cons.prems kv by simp
  note np = nextprop_prop [OF h]
  have off: "0 \<le> toks_size pre" by (rule toks_size_nonneg)
  have chk: "fdt_check_prop_offset b (toks_size pre) = toks_size (pre @ [T_PROP k v])"
    by (rule check_prop_holds [OF h])
  have pos: "0 \<le> toks_size (pre @ [T_PROP k v])" by (rule toks_size_nonneg)
  have tok: "tok_at b (strtab b) ?p (T_PROP k v)"
    by (rule holds_tok [OF h])
  have len: "c_int (be32 b (?p + 4)) = int (length v)"
    using tok prop_length_small [OF h] by (simp add: c_int_small)
  have eq: "fdt_string_eq b (be32 b (?p + 8)) name = Some (k = name)"
    using tok by (simp add: string_eq_holds)
  have get: "fdt_get_property_by_offset b (toks_size pre) = (Some ?p, int (length v))"
    using chk pos len by (simp add: fdt_get_property_by_offset_def fdt_struct_ptr_def)
  show ?case
  proof (cases "k = name")
    case True
    then show ?thesis
      using off by (simp add: np kv, subst get_property_loop.simps)
        (simp add: get eq found_prop_def)
  next
    case False
    have "Option.bind (nextprop b (toks_size (pre @ [T_PROP k v]))) (\<lambda>off. get_property_loop b off name)
      = Some (found_prop b (find_prop name (toks_size (pre @ [T_PROP k v])) ps))"
      by (rule Cons.IH) (use h in simp)
    moreover have "get_property_loop b (toks_size pre) name =
      Option.bind (nextprop b (toks_size (pre @ [T_PROP k v]))) (\<lambda>off. get_property_loop b off name)"
      using off pos by (subst get_property_loop.simps)
        (simp add: get eq False fdt_next_property_offset_def chk)
    ultimately show ?thesis
      using False by (simp add: np kv)
  qed
qed

lemma get_property_holds:
  assumes "fdt_holds b (pre @ T_BEGIN n # prop_toks ps @ t # post)" "ends_props t"
  shows "fdt_get_property b (toks_size pre) name
    = Some (found_prop b (find_prop name (toks_size (pre @ [T_BEGIN n])) ps))"
proof -
  have "fdt_check_node_offset b (toks_size pre) = toks_size (pre @ [T_BEGIN n])"
    by (rule check_node_holds [OF assms(1)])
  moreover have "0 \<le> toks_size (pre @ [T_BEGIN n])" by (rule toks_size_nonneg)
  moreover have "Option.bind (nextprop b (toks_size (pre @ [T_BEGIN n]))) (\<lambda>off. get_property_loop b off name)
    = Some (found_prop b (find_prop name (toks_size (pre @ [T_BEGIN n])) ps))"
    by (rule get_property_loop_holds) (use assms in simp_all)
  ultimately show ?thesis
    by (simp add: fdt_get_property_def fdt_get_property_namelen_def fdt_first_property_offset_def)
qed

section \<open>Trees\<close>

datatype fdt_tree = Node octets "(octets \<times> octets) list" "fdt_tree list"

fun tree_name :: "fdt_tree \<Rightarrow> octets" where
  "tree_name (Node n _ _) = n"

fun flat :: "fdt_tree \<Rightarrow> token list" where
  "flat (Node n ps ks) = T_BEGIN n # prop_toks ps @ concat (map flat ks) @ [T_END_NODE]"

fun find_kid :: "octets \<Rightarrow> int \<Rightarrow> fdt_tree list \<Rightarrow> (int \<times> fdt_tree) option" where
  "find_kid s off [] = None"
| "find_kid s off (k # ks) =
     (if name_matches (tree_name k) s then Some (off, k)
      else find_kid s (off + toks_size (flat k)) ks)"

primrec locate :: "int \<Rightarrow> octets list \<Rightarrow> fdt_tree \<Rightarrow> int option" where
  "locate off [] t = Some off"
| "locate off (c # cs) t =
     (case t of Node n ps ks \<Rightarrow>
        (case find_kid c (off + toks_size (T_BEGIN n # prop_toks ps)) ks of
           None \<Rightarrow> None
         | Some (o', k) \<Rightarrow> locate o' cs k))"

fun edit_kid :: "octets \<Rightarrow> (fdt_tree \<Rightarrow> fdt_tree) \<Rightarrow> fdt_tree list \<Rightarrow> fdt_tree list" where
  "edit_kid s f [] = []"
| "edit_kid s f (k # ks) =
     (if name_matches (tree_name k) s then f k # ks else k # edit_kid s f ks)"

primrec edit :: "octets list \<Rightarrow> (fdt_tree \<Rightarrow> fdt_tree) \<Rightarrow> fdt_tree \<Rightarrow> fdt_tree" where
  "edit [] f t = f t"
| "edit (c # cs) f t = (case t of Node n ps ks \<Rightarrow> Node n ps (edit_kid c (edit cs f) ks))"

primrec subtree :: "octets list \<Rightarrow> fdt_tree \<Rightarrow> fdt_tree option" where
  "subtree [] t = Some t"
| "subtree (c # cs) t =
     (case t of Node n ps ks \<Rightarrow>
        Option.bind (List.find (\<lambda>k. name_matches (tree_name k) c) ks) (subtree cs))"

section \<open>Walking to a child\<close>

text \<open>The search for a child, from the token behind the node last seen.\<close>

definition resume :: "blob \<Rightarrow> int \<Rightarrow> int \<Rightarrow> octets \<Rightarrow> int option" where
  "resume b off d s = Option.bind (next_node_loop b off (Some d))
     (\<lambda>(off, depth). subnode_loop b off depth s)"

lemma resume_prop:
  "fdt_holds b (pre @ T_PROP k v # post) \<Longrightarrow>
     resume b (toks_size pre) d s = resume b (toks_size (pre @ [T_PROP k v])) d s"
  unfolding resume_def
  by (subst next_node_loop.simps) (simp add: next_tag_holds fdt_tags)

lemma resume_end_node:
  "fdt_holds b (pre @ T_END_NODE # post) \<Longrightarrow> 0 \<le> d \<Longrightarrow>
     resume b (toks_size pre) d s =
       (if d = 0 then Some (- FDT_ERR_NOTFOUND) else resume b (toks_size (pre @ [T_END_NODE])) (d - 1) s)"
  unfolding resume_def
  by (subst next_node_loop.simps) (simp add: next_tag_holds fdt_tags subnode_loop.simps)

lemma resume_begin:
  assumes h: "fdt_holds b (pre @ T_BEGIN n # post)" and d: "0 \<le> d" and s: "0 \<notin> set s"
  shows "resume b (toks_size pre) d s =
    (if d = 0 \<and> name_matches n s then Some (toks_size pre)
     else resume b (toks_size (pre @ [T_BEGIN n])) (d + 1) s)"
proof -
  have pos: "0 \<le> toks_size pre" "0 \<le> toks_size (pre @ [T_BEGIN n])" by (rule toks_size_nonneg)+
  have "next_node_loop b (toks_size pre) (Some d) = Some (toks_size pre, Some (d + 1))"
    by (subst next_node_loop.simps) (simp add: next_tag_holds [OF h])
  moreover have "fdt_next_node b (toks_size pre) (Some (d + 1))
      = next_node_loop b (toks_size (pre @ [T_BEGIN n])) (Some (d + 1))"
    using pos by (simp add: fdt_next_node_def check_node_holds [OF h])
  ultimately show ?thesis
    using pos d unfolding resume_def
    by (simp add: subnode_loop.simps [of b "toks_size pre"] nodename_eq_holds [OF h s])
qed

lemma resume_props:
  "fdt_holds b (pre @ prop_toks ps @ post) \<Longrightarrow>
     resume b (toks_size pre) d s = resume b (toks_size (pre @ prop_toks ps)) d s"
proof (induction ps arbitrary: pre)
  case (Cons kv ps)
  obtain k v where kv: "kv = (k, v)" by (cases kv)
  have "resume b (toks_size (pre @ [T_PROP k v])) d s =
      resume b (toks_size ((pre @ [T_PROP k v]) @ prop_toks ps)) d s"
    by (rule Cons.IH) (use Cons.prems kv in simp)
  then show ?case
    using Cons.prems kv resume_prop [of b pre k v "prop_toks ps @ post" d s] by simp
qed simp

lemma resume_forest:
  assumes "\<And>k pre post d. k \<in> set ks \<Longrightarrow> fdt_holds b (pre @ flat k @ post) \<Longrightarrow> 1 \<le> d \<Longrightarrow>
      resume b (toks_size pre) d s = resume b (toks_size (pre @ flat k)) d s"
    and "fdt_holds b (pre @ concat (map flat ks) @ post)" and "1 \<le> d"
  shows "resume b (toks_size pre) d s = resume b (toks_size (pre @ concat (map flat ks))) d s"
  using assms
proof (induction ks arbitrary: pre)
  case (Cons k ks)
  have "resume b (toks_size pre) d s = resume b (toks_size (pre @ flat k)) d s"
    by (rule Cons.prems(1) [where post = "concat (map flat ks) @ post"]) (use Cons.prems in simp_all)
  also have "\<dots> = resume b (toks_size ((pre @ flat k) @ concat (map flat ks))) d s"
  proof (rule Cons.IH)
    show "fdt_holds b ((pre @ flat k) @ concat (map flat ks) @ post)"
      using Cons.prems(2) by simp
    show "resume b (toks_size pre) d s = resume b (toks_size (pre @ flat k)) d s"
      if "k \<in> set ks" "fdt_holds b (pre @ flat k @ post)" "1 \<le> d" for k pre post d
      using that Cons.prems(1) by (meson list.set_intros(2))
  qed (rule Cons.prems)
  finally show ?case by simp
qed simp

lemma resume_tree:
  assumes s: "0 \<notin> set s"
  shows "fdt_holds b (pre @ flat t @ post) \<Longrightarrow> 1 \<le> d \<Longrightarrow>
    resume b (toks_size pre) d s = resume b (toks_size (pre @ flat t)) d s"
proof (induction t arbitrary: pre post d)
  case (Node n ps ks)
  let ?a = "pre @ [T_BEGIN n]" and ?b = "pre @ T_BEGIN n # prop_toks ps"
    and ?c = "pre @ T_BEGIN n # prop_toks ps @ concat (map flat ks)"
  have "resume b (toks_size pre) d s = resume b (toks_size ?a) (d + 1) s"
    using resume_begin [OF _ _ s, of b pre n "prop_toks ps @ concat (map flat ks) @ T_END_NODE # post" d]
      Node.prems by simp
  also have "\<dots> = resume b (toks_size ?b) (d + 1) s"
    using resume_props [of b ?a ps "concat (map flat ks) @ T_END_NODE # post" "d + 1" s] Node.prems by simp
  also have "\<dots> = resume b (toks_size ?c) (d + 1) s"
    using resume_forest [of ks b s ?b "T_END_NODE # post" "d + 1"] Node by simp
  also have "\<dots> = resume b (toks_size (?c @ [T_END_NODE])) d s"
    using resume_end_node [of b ?c post "d + 1" s] Node.prems by simp
  finally show ?case by simp
qed

lemma resume_kids:
  assumes s: "0 \<notin> set s" and h: "fdt_holds b (pre @ concat (map flat ks) @ T_END_NODE # post)"
  shows "resume b (toks_size pre) 0 s =
    Some (case find_kid s (toks_size pre) ks of None \<Rightarrow> - FDT_ERR_NOTFOUND | Some (o', _) \<Rightarrow> o')"
  using h
proof (induction ks arbitrary: pre)
  case Nil
  then show ?case
    using resume_end_node [of b pre post 0 s] by simp
next
  case (Cons k ks)
  obtain n ps gs where k: "k = Node n ps gs" by (cases k)
  let ?rest = "concat (map flat ks) @ T_END_NODE # post"
  have hb: "fdt_holds b (pre @ T_BEGIN n # prop_toks ps @ concat (map flat gs) @ T_END_NODE # ?rest)"
    using Cons.prems k by simp
  show ?case
  proof (cases "name_matches n s")
    case True
    then show ?thesis
      using resume_begin [OF hb _ s, of 0] k by simp
  next
    case False
    let ?a = "pre @ [T_BEGIN n]" and ?b = "pre @ T_BEGIN n # prop_toks ps"
      and ?c = "pre @ T_BEGIN n # prop_toks ps @ concat (map flat gs)"
    have "resume b (toks_size pre) 0 s = resume b (toks_size ?a) 1 s"
      using resume_begin [OF hb _ s, of 0] False by simp
    also have "\<dots> = resume b (toks_size ?b) 1 s"
      using resume_props [of b ?a ps "concat (map flat gs) @ T_END_NODE # ?rest" 1 s] hb by simp
    also have "\<dots> = resume b (toks_size ?c) 1 s"
      using resume_forest [of gs b s ?b "T_END_NODE # ?rest" 1] resume_tree [OF s] hb by simp
    also have "\<dots> = resume b (toks_size (?c @ [T_END_NODE])) 0 s"
      using resume_end_node [of b ?c ?rest 1 s] hb by simp
    also have "\<dots> = resume b (toks_size (pre @ flat k)) 0 s"
      by (simp add: k)
    also have "\<dots> = Some (case find_kid s (toks_size (pre @ flat k)) ks of
        None \<Rightarrow> - FDT_ERR_NOTFOUND | Some (o', _) \<Rightarrow> o')"
      by (rule Cons.IH) (use Cons.prems in simp)
    finally show ?thesis
      using False k by simp
  qed
qed

lemma subnode_offset_holds:
  assumes h: "fdt_holds b (pre @ flat (Node n ps ks) @ post)" and s: "0 \<notin> set s"
  shows "fdt_subnode_offset_namelen b (toks_size pre) s =
    Some (case find_kid s (toks_size (pre @ T_BEGIN n # prop_toks ps)) ks of
      None \<Rightarrow> - FDT_ERR_NOTFOUND | Some (o', _) \<Rightarrow> o')"
proof -
  let ?a = "pre @ [T_BEGIN n]" and ?b = "pre @ T_BEGIN n # prop_toks ps"
  have hb: "fdt_holds b (pre @ T_BEGIN n # prop_toks ps @ concat (map flat ks) @ T_END_NODE # post)"
    using h by simp
  have pos: "0 \<le> toks_size pre" "0 \<le> toks_size ?a" by (rule toks_size_nonneg)+
  have "fdt_subnode_offset_namelen b (toks_size pre) s = subnode_loop b (toks_size pre) (Some 0) s"
    by (simp add: fdt_subnode_offset_namelen_def check_header_holds [OF h])
  also have "\<dots> = resume b (toks_size ?a) 0 s"
    using pos check_node_holds [OF hb]
    by (subst subnode_loop.simps) (simp add: resume_def fdt_next_node_def)
  also have "\<dots> = resume b (toks_size ?b) 0 s"
    using resume_props [of b ?a ps "concat (map flat ks) @ T_END_NODE # post" 0 s] hb by simp
  also have "\<dots> = Some (case find_kid s (toks_size ?b) ks of None \<Rightarrow> - FDT_ERR_NOTFOUND | Some (o', _) \<Rightarrow> o')"
    by (rule resume_kids [OF s]) (use hb in simp)
  finally show ?thesis .
qed

section \<open>Paths\<close>

function components :: "octets \<Rightarrow> octets list" where
  "components p =
     (let q = dropWhile (\<lambda>c. c = 0x2f) p
      in if q = [] then [] else takeWhile (\<lambda>c. c \<noteq> 0x2f) q # components (dropWhile (\<lambda>c. c \<noteq> 0x2f) q))"
  by pat_completeness auto

lemma components_shrink:
  "x = dropWhile (\<lambda>c. c = 0x2f) p \<Longrightarrow> x \<noteq> [] \<Longrightarrow>
     length (dropWhile (\<lambda>c. c \<noteq> 0x2f) x) < length (p :: octets)"
proof -
  assume x: "x = dropWhile (\<lambda>c. c = 0x2f) p" and ne: "x \<noteq> []"
  then have "hd x \<noteq> 0x2f"
    using hd_dropWhile [of "\<lambda>c. c = 0x2f" p] by simp
  then have "length (dropWhile (\<lambda>c. c \<noteq> 0x2f) x) < length x"
    using ne by (cases x) (simp_all add: length_dropWhile_le less_Suc_eq_le)
  also have "length x \<le> length p"
    using x by (simp add: length_dropWhile_le)
  finally show ?thesis .
qed

termination components
  by (relation "measure length") (simp_all add: components_shrink)

declare components.simps [simp del]

lemma find_kid_split:
  "find_kid s off ks = Some (o', k) \<Longrightarrow>
     \<exists>ks1 ks2. ks = ks1 @ k # ks2 \<and> o' = off + toks_size (concat (map flat ks1))
       \<and> name_matches (tree_name k) s \<and> (\<forall>x \<in> set ks1. \<not> name_matches (tree_name x) s)"
proof (induction ks arbitrary: off)
  case (Cons x ks)
  show ?case
  proof (cases "name_matches (tree_name x) s")
    case True
    then show ?thesis
      using Cons.prems by (intro exI [of _ "[]"] exI [of _ ks]) auto
  next
    case False
    then obtain ks1 ks2 where "ks = ks1 @ k # ks2"
      "o' = off + toks_size (flat x) + toks_size (concat (map flat ks1))"
      "name_matches (tree_name k) s" "\<forall>x \<in> set ks1. \<not> name_matches (tree_name x) s"
      using Cons.IH [of "off + toks_size (flat x)"] Cons.prems by auto
    then show ?thesis
      using False by (intro exI [of _ "x # ks1"] exI [of _ ks2]) auto
  qed
qed simp

lemma edit_kid_split:
  "\<forall>x \<in> set ks1. \<not> name_matches (tree_name x) s \<Longrightarrow> name_matches (tree_name k) s \<Longrightarrow>
     edit_kid s f (ks1 @ k # ks2) = ks1 @ f k # ks2"
  by (induction ks1) simp_all

text \<open>
  What a located offset is: the place of a subtree in the tokens, which editing at that path
  replaces.
\<close>

lemma locate_flat:
  "locate off path t = Some o' \<Longrightarrow>
     \<exists>pre u post. flat t = pre @ flat u @ post \<and> o' = off + toks_size pre \<and> subtree path t = Some u
       \<and> (\<forall>f. flat (edit path f t) = pre @ flat (f u) @ post)"
proof (induction path arbitrary: off t)
  case Nil
  then show ?case
    by (intro exI [of _ "[]"] exI [of _ t]) simp
next
  case (Cons c cs)
  obtain n ps ks where t: "t = Node n ps ks" by (cases t)
  let ?h = "T_BEGIN n # prop_toks ps"
  obtain o'' k where kid: "find_kid c (off + toks_size ?h) ks = Some (o'', k)"
    and loc: "locate o'' cs k = Some o'"
    using Cons.prems t by (auto split: option.splits)
  from find_kid_split [OF kid] obtain ks1 ks2 where ks: "ks = ks1 @ k # ks2"
    and o'': "o'' = off + toks_size ?h + toks_size (concat (map flat ks1))"
    and m: "name_matches (tree_name k) c" "\<forall>x \<in> set ks1. \<not> name_matches (tree_name x) c"
    by blast
  from Cons.IH [OF loc] obtain pre u post where sub: "flat k = pre @ flat u @ post"
    "o' = o'' + toks_size pre" "subtree cs k = Some u"
    "\<forall>f. flat (edit cs f k) = pre @ flat (f u) @ post"
    by blast
  have "List.find (\<lambda>k. name_matches (tree_name k) c) ks = Some k"
    using m ks by (induction ks1 arbitrary: ks) auto
  then show ?case
    using sub o'' m ks t
    by (intro exI [of _ "?h @ concat (map flat ks1) @ pre"] exI [of _ u]
        exI [of _ "post @ concat (map flat ks2) @ [T_END_NODE]"])
      (simp add: edit_kid_split)
qed

lemma path_loop_holds:
  "fdt_holds b (pre @ flat t @ post) \<Longrightarrow> 0 \<notin> set p \<Longrightarrow>
     path_loop b (toks_size pre) p =
       Some (case locate (toks_size pre) (components p) t of None \<Rightarrow> - FDT_ERR_NOTFOUND | Some o' \<Rightarrow> o')"
proof (induction p arbitrary: pre t post rule: components.induct)
  case (1 p)
  let ?q = "dropWhile (\<lambda>c. c = 0x2f) p"
  let ?s = "takeWhile (\<lambda>c. c \<noteq> 0x2f) ?q" and ?r = "dropWhile (\<lambda>c. c \<noteq> 0x2f) ?q"
  obtain n ps ks where t: "t = Node n ps ks" by (cases t)
  show ?case
  proof (cases "?q = []")
    case True
    then show ?thesis
      by (subst path_loop.simps, subst components.simps) (simp add: Let_def)
  next
    case False
    have s0: "0 \<notin> set ?s" and r0: "0 \<notin> set ?r"
      using "1.prems"(2) by (auto dest: set_takeWhileD set_dropWhileD)
    have sub: "fdt_subnode_offset_namelen b (toks_size pre) ?s =
        Some (case find_kid ?s (toks_size (pre @ T_BEGIN n # prop_toks ps)) ks of
          None \<Rightarrow> - FDT_ERR_NOTFOUND | Some (o', _) \<Rightarrow> o')"
      by (rule subnode_offset_holds [OF _ s0]) (use "1.prems"(1) t in simp)
    have comps: "components p = ?s # components ?r"
      using False by (subst components.simps) (simp add: Let_def)
    have path: "path_loop b (toks_size pre) p = Option.bind (fdt_subnode_offset_namelen b (toks_size pre) ?s)
        (\<lambda>offset. if offset < 0 then Some offset else path_loop b offset ?r)"
      using False by (subst path_loop.simps) (auto simp: Let_def)
    show ?thesis
    proof (cases "find_kid ?s (toks_size (pre @ T_BEGIN n # prop_toks ps)) ks")
      case None
      then show ?thesis
        by (simp add: path sub comps t fdt_errs)
    next
      case (Some ok)
      obtain o' k where ok: "ok = (o', k)" by (cases ok)
      from find_kid_split [OF Some [unfolded ok]] obtain ks1 ks2 where ks: "ks = ks1 @ k # ks2"
        and o': "o' = toks_size (pre @ T_BEGIN n # prop_toks ps) + toks_size (concat (map flat ks1))"
        by blast
      let ?pre = "pre @ T_BEGIN n # prop_toks ps @ concat (map flat ks1)"
      have o'': "o' = toks_size ?pre" using o' by simp
      have "path_loop b (toks_size ?pre) ?r =
          Some (case locate (toks_size ?pre) (components ?r) k of None \<Rightarrow> - FDT_ERR_NOTFOUND | Some o' \<Rightarrow> o')"
        by (rule "1.IH" [OF refl False _ r0, where post = "concat (map flat ks2) @ T_END_NODE # post"])
          (use "1.prems"(1) t ks in simp)
      then show ?thesis
        using Some ok o'' toks_size_nonneg [of ?pre]
        by (simp only: path sub comps t) (simp add: path)
    qed
  qed
qed

section \<open>Looking up properties and aliases\<close>

lemma forest_head:
  obtains t rest where "concat (map flat ks) @ T_END_NODE # post = t # rest" "ends_props t"
proof (cases ks)
  case Nil
  then show ?thesis using that by (simp add: ends_props_def)
next
  case (Cons k ks')
  then show ?thesis using that by (cases k) (simp add: ends_props_def)
qed

lemma get_property_tree:
  assumes "fdt_holds b (pre @ flat (Node n ps ks) @ post)"
  shows "fdt_get_property b (toks_size pre) name
    = Some (found_prop b (find_prop name (toks_size (pre @ [T_BEGIN n])) ps))"
proof -
  obtain t rest where t: "concat (map flat ks) @ T_END_NODE # post = t # rest" "ends_props t"
    by (rule forest_head)
  show ?thesis
    by (rule get_property_holds [OF _ t(2), where post = rest])
      (use assms t(1) in simp)
qed

lemma find_prop_split:
  "find_prop name off ps = Some (o', v) \<Longrightarrow>
     \<exists>ps1 ps2. ps = ps1 @ (name, v) # ps2 \<and> o' = off + toks_size (prop_toks ps1)
       \<and> name \<notin> fst ` set ps1"
proof (induction name off ps rule: find_prop.induct)
  case (2 name off k w ps)
  show ?case
  proof (cases "k = name")
    case True
    then show ?thesis
      using 2 by (intro exI [of _ "[]"] exI [of _ ps]) simp
  next
    case False
    then obtain ps1 ps2 where "ps = ps1 @ (name, v) # ps2"
      "o' = off + tok_size (T_PROP k w) + toks_size (prop_toks ps1)" "name \<notin> fst ` set ps1"
      using 2 by auto
    then show ?thesis
      using False by (intro exI [of _ "(k, w) # ps1"] exI [of _ ps2]) auto
  qed
qed simp

lemma find_prop_map_of: "map_option snd (find_prop name off ps) = map_of ps name"
  by (induction name off ps rule: find_prop.induct) auto

lemma holds_prop_value:
  assumes h: "fdt_holds b (pre @ T_PROP k v # post)"
  shows "seg b (fdt_off_dt_struct b + toks_size pre + 12) (length v) = v"
  using holds_tok [OF h] by simp

text \<open>A property of a located node: its value stands at the returned pointer.\<close>

lemma getprop_tree:
  assumes h: "fdt_holds b (pre @ flat (Node n ps ks) @ post)" and v: "map_of ps name = Some v"
  obtains p where "fdt_getprop_namelen b (toks_size pre) name = Some (Some p, int (length v))"
    "seg b p (length v) = v"
proof -
  obtain o' where f: "find_prop name (toks_size (pre @ [T_BEGIN n])) ps = Some (o', v)"
    using v find_prop_map_of [of name "toks_size (pre @ [T_BEGIN n])" ps] by auto
  from find_prop_split [OF f] obtain ps1 ps2 where ps: "ps = ps1 @ (name, v) # ps2"
    and o': "o' = toks_size (pre @ T_BEGIN n # prop_toks ps1)"
    by auto
  have "seg b (fdt_off_dt_struct b + toks_size (pre @ T_BEGIN n # prop_toks ps1) + 12) (length v) = v"
    by (rule holds_prop_value [where k = name and post = "prop_toks ps2 @ concat (map flat ks) @ T_END_NODE # post"])
      (use h ps in simp)
  then have "seg b (fdt_off_dt_struct b + o' + 12) (length v) = v"
    by (simp only: o')
  moreover have "fdt_getprop_namelen b (toks_size pre) name = Some (Some (fdt_off_dt_struct b + o' + 12), int (length v))"
    using get_property_tree [OF h, of name] f
    by (simp add: fdt_getprop_namelen_def fdt_get_property_def found_prop_def)
  ultimately show ?thesis
    by (rule that [rotated])
qed

lemma getprop_tree_missing:
  assumes h: "fdt_holds b (pre @ flat (Node n ps ks) @ post)" and v: "map_of ps name = None"
  shows "fdt_getprop_namelen b (toks_size pre) name = Some (None, - FDT_ERR_NOTFOUND)"
proof -
  have "find_prop name (toks_size (pre @ [T_BEGIN n])) ps = None"
    using v find_prop_map_of [of name "toks_size (pre @ [T_BEGIN n])" ps] by simp
  then show ?thesis
    using get_property_tree [OF h, of name]
    by (simp add: fdt_getprop_namelen_def fdt_get_property_def found_prop_def)
qed

lemma path_offset_absolute:
  assumes h: "fdt_holds b (flat t @ post)" and p: "0 \<notin> set (0x2f # p)"
  shows "fdt_path_offset b (0x2f # p) =
    Some (case locate 0 (components (0x2f # p)) t of None \<Rightarrow> - FDT_ERR_NOTFOUND | Some o' \<Rightarrow> o')"
  using path_loop_holds [of b "[]" t post "0x2f # p"] h p
  by (subst fdt_path_offset.simps) (simp add: check_header_holds [OF h])

lemma path_offset_alias:
  assumes h: "fdt_holds b (flat t @ post)" and name: "name \<noteq> []" "0x2f \<notin> set name"
    and al: "subtree (components (ascii ''/aliases'')) t = Some (Node n ps ks)"
      "locate 0 (components (ascii ''/aliases'')) t \<noteq> None"
      "map_of ps name = Some ((0x2f # target) @ [0])" "0 \<notin> set target"
  shows "fdt_path_offset b name = fdt_path_offset b (0x2f # target)"
proof -
  let ?al = "ascii ''/aliases''"
  have p0: "0 \<notin> set ?al"
    by (simp add: ascii_def)
  obtain o' where o': "locate 0 (components ?al) t = Some o'"
    using al(2) by blast
  from locate_flat [OF o'] obtain pre post' where
    f: "flat t = pre @ flat (Node n ps ks) @ post'" "o' = toks_size pre"
    using al(1) by auto
  have h': "fdt_holds b (pre @ flat (Node n ps ks) @ (post' @ post))"
    using h f by simp
  have off: "aliases_offset b = Some (toks_size pre)"
    using path_loop_holds [of b "[]" t post ?al] h p0 o' f
    by (simp add: aliases_offset_def check_header_holds [OF h])
  obtain p where p: "fdt_getprop_namelen b (toks_size pre) name
        = Some (Some p, int (length ((0x2f # target) @ [0 :: u8])))"
      "seg b p (length ((0x2f # target) @ [0 :: u8])) = (0x2f # target) @ [0]"
    by (rule getprop_tree [OF h' al(3)])
  have alp: "fdt_get_alias_namelen b name = Some (Some p)"
    using p(1) toks_size_nonneg [of pre] by (simp add: fdt_get_alias_namelen_def off)
  have sg: "seg b p (length (0x2f # target) + 1) = (0x2f # target) @ [0]"
    using p(2) by simp
  have len: "c_strlen b p = Some (int (length (0x2f # target)))"
    by (rule c_strlen_seg [OF sg]) (use al(4) in simp)
  have str: "seg b p (length (0x2f # target)) = 0x2f # target"
    using seg_take [OF sg, of "length (0x2f # target)"] by simp
  have tw: "takeWhile (\<lambda>c. c \<noteq> 0x2f) name = name" "dropWhile (\<lambda>c. c \<noteq> 0x2f) name = []"
    "hd name \<noteq> 0x2f"
    using name by (cases name; auto simp: takeWhile_eq_all_conv dropWhile_eq_Nil_conv)+
  have "fdt_path_offset b name = Option.bind (fdt_path_offset b (0x2f # target)) (\<lambda>offset. path_loop b offset [])"
    by (subst fdt_path_offset.simps)
      (simp add: check_header_holds [OF h] name(1) tw alp len str del: list.size)
  then show ?thesis
    by (simp add: path_loop.simps)
qed

end
