(* ===== verification/FdtEdit.thy ===== *)
theory FdtEdit
  imports FdtTree
begin

unbundle bit_operations_syntax

text \<open>
  Setting a property of a device tree, \<^verbatim>\<open>src/arm_chainloader/drivers/libfdt/fdt_rw.c\<close>,
  against its specification on trees: the structure block is cut open, the strings move with
  it, and the blob holds the edited tree.
\<close>

section \<open>Cutting the structure block open\<close>

text \<open>Only bytes of the blob are written.\<close>

definition inside :: "blob \<Rightarrow> blob \<Rightarrow> bool" where
  "inside b b' \<longleftrightarrow> fdt_totalsize b' = fdt_totalsize b
     \<and> (\<forall>a. a < 0 \<or> fdt_totalsize b \<le> a \<longrightarrow> b' a = b a)"

lemma inside_refl [simp]: "inside b b"
  by (simp add: inside_def)

lemma inside_trans [trans]: "inside a b \<Longrightarrow> inside b c \<Longrightarrow> inside a c"
  by (simp add: inside_def)

text \<open>The bytes left between the strings and the total size.\<close>

definition slack :: "blob \<Rightarrow> int" where
  "slack b = fdt_totalsize b - (fdt_off_dt_strings b + fdt_size_dt_strings b)"

definition spliced :: "blob \<Rightarrow> blob \<Rightarrow> int \<Rightarrow> int \<Rightarrow> int \<Rightarrow> bool" where
  "spliced b b' p oldlen newlen \<longleftrightarrow>
     fdt_layout b' \<and> fdt_off_dt_struct b' = fdt_off_dt_struct b
     \<and> fdt_size_dt_struct b' = fdt_size_dt_struct b + (newlen - oldlen)
     \<and> strtab b' = strtab b \<and> slack b' = slack b - (newlen - oldlen)
     \<and> inside b b'
     \<and> (\<forall>a. 40 \<le> a \<and> a < p \<longrightarrow> b' a = b a)
     \<and> (\<forall>a. p + oldlen \<le> a \<and> a < fdt_off_dt_struct b + fdt_size_dt_struct b
          \<longrightarrow> b' (a + (newlen - oldlen)) = b a)"

lemma layout_data_size:
  "fdt_layout b \<Longrightarrow> fdt_data_size b = fdt_off_dt_strings b + fdt_size_dt_strings b"
  using fdt_header_bounds [of b] by (simp add: fdt_data_size_def fdt_layout_def c_int_small)

lemma be32_memmove_low: "q + 4 \<le> dst \<Longrightarrow> be32 (memmove b dst src n) q = be32 b q"
  by (rule be32_cong) (simp add: memmove_def)

lemma splice_struct_ok:
  assumes lay: "fdt_layout b" and p: "fdt_off_dt_struct b \<le> p"
    and len: "0 \<le> oldlen" "0 \<le> newlen"
    and inside: "p + oldlen \<le> fdt_off_dt_struct b + fdt_size_dt_struct b"
    and room: "newlen - oldlen \<le> slack b"
  obtains b' where "fdt_splice_struct b p oldlen newlen = (0, b')" "spliced b b' p oldlen newlen"
proof -
  let ?d = "newlen - oldlen" and ?stop = "fdt_off_dt_strings b + fdt_size_dt_strings b"
  define m where "m = memmove b (p + newlen) (p + oldlen) (?stop - p - oldlen)"
  define b1 where "b1 = fdt_set_size_dt_struct m (fdt_size_dt_struct m + ?d)"
  define b' where "b' = fdt_set_off_dt_strings b1 (fdt_off_dt_strings b1 + ?d)"
  note hb = fdt_header_bounds [of b]
  have l: "40 \<le> fdt_off_dt_struct b" "fdt_off_dt_struct b + fdt_size_dt_struct b \<le> fdt_off_dt_strings b"
    "?stop \<le> fdt_totalsize b" "fdt_totalsize b < 2 ^ 31"
    using lay by (simp_all add: fdt_layout_def)
  have low: "be32 m q = be32 b q" if "q \<le> 36" for q
    unfolding m_def by (rule be32_memmove_low) (use that l p len in simp)
  have splice: "fdt_splice b p oldlen newlen = (0, m)"
    using len inside l p hb room
    by (simp add: fdt_splice_def layout_data_size [OF lay] m_def slack_def)
  have res: "fdt_splice_struct b p oldlen newlen = (0, b')"
    by (simp add: fdt_splice_struct_def splice b1_def b'_def Let_def)
  have m36: "fdt_size_dt_struct m = fdt_size_dt_struct b"
    by (simp add: fdt_size_dt_struct_def low)
  have mods: "(fdt_size_dt_struct b + ?d) mod 2 ^ 32 = fdt_size_dt_struct b + ?d"
    "(fdt_off_dt_strings b + ?d) mod 2 ^ 32 = fdt_off_dt_strings b + ?d"
    using hb l inside p len room by (simp_all add: slack_def)
  have q1: "be32 b1 q = (if q = 36 then fdt_size_dt_struct b + ?d else be32 b q)"
    if "q \<in> {0, 4, 8, 12, 16, 20, 24, 28, 32, 36}" for q
    using that mods(1)
    by (elim insertE) (simp_all add: b1_def fdt_setters be32_put32 be32_put32_other low m36)
  have b12: "fdt_off_dt_strings b1 = fdt_off_dt_strings b"
    by (simp add: fdt_off_dt_strings_def q1)
  have q': "be32 b' q = (if q = 36 then fdt_size_dt_struct b + ?d
      else if q = 12 then fdt_off_dt_strings b + ?d else be32 b q)"
    if "q \<in> {0, 4, 8, 12, 16, 20, 24, 28, 32, 36}" for q
    using that mods(2)
    by (elim insertE) (simp_all add: b'_def fdt_setters be32_put32 be32_put32_other q1 b12)
  have fields: "fdt_off_dt_struct b' = fdt_off_dt_struct b"
    "fdt_size_dt_struct b' = fdt_size_dt_struct b + ?d"
    "fdt_off_dt_strings b' = fdt_off_dt_strings b + ?d"
    "fdt_size_dt_strings b' = fdt_size_dt_strings b" "fdt_totalsize b' = fdt_totalsize b"
    "fdt_off_mem_rsvmap b' = fdt_off_mem_rsvmap b" "fdt_magic b' = fdt_magic b"
    "fdt_version b' = fdt_version b" "fdt_last_comp_version b' = fdt_last_comp_version b"
    by (simp_all add: fdt_header q')
  have body: "b' a = m a" if "40 \<le> a" for a
    using that by (simp add: b'_def b1_def fdt_setters put32_outside)
  have before: "b' a = b a" if "40 \<le> a" "a < p" for a
    using that len by (simp add: body m_def memmove_def)
  have behind: "b' (a + ?d) = b a" if "p + oldlen \<le> a" "a < ?stop" for a
    using that l p len by (simp add: body m_def memmove_def)
  have "strtab b' = strtab b"
    unfolding strtab_def fields
  proof (rule seg_cong)
    fix i assume "i < nat (fdt_size_dt_strings b)"
    then show "b' (fdt_off_dt_strings b + ?d + int i) = b (fdt_off_dt_strings b + int i)"
      using behind [of "fdt_off_dt_strings b + int i"] inside l by (simp add: algebra_simps)
  qed
  moreover have "fdt_layout b'"
    using lay room by (simp add: fdt_layout_def fields slack_def)
  moreover have "b' a = b a" if "a < 0 \<or> fdt_totalsize b \<le> a" for a
  proof -
    have "b' a = m a"
      using that l p len inside hb by (auto simp: b'_def b1_def fdt_setters put32_outside)
    also have "\<dots> = b a"
      using that l p len inside room hb by (auto simp: m_def memmove_def slack_def)
    finally show ?thesis .
  qed
  then have "inside b b'"
    by (simp add: inside_def fields)
  ultimately have "spliced b b' p oldlen newlen"
    using before behind l hb by (simp add: spliced_def fields slack_def)
  then show ?thesis
    using res that by blast
qed

lemma splice_struct_no_space:
  assumes "fdt_layout b" "fdt_off_dt_struct b \<le> p" "0 \<le> oldlen" "0 \<le> newlen"
    "p + oldlen \<le> fdt_off_dt_struct b + fdt_size_dt_struct b" "newlen - oldlen > slack b"
  shows "fdt_splice_struct b p oldlen newlen = (- FDT_ERR_NOSPACE, b)"
  using assms fdt_header_bounds [of b]
  by (simp add: fdt_splice_struct_def fdt_splice_def layout_data_size slack_def fdt_layout_def fdt_errs)

section \<open>Moving tokens\<close>

lemma toks_as_frame:
  assumes "toks_as N b p ts" "\<And>i n. N i n \<Longrightarrow> N' i n" "\<And>a. p \<le> a \<Longrightarrow> a < p + toks_size ts \<Longrightarrow> b' (a + d) = b a"
  shows "toks_as N' b' (p + d) ts"
  using assms(1,3)
proof (induction ts arbitrary: p)
  case (Cons t ts)
  have fr: "b' (a + d) = b a" if "p \<le> a" "a < p + tok_size t" for a
    using Cons.prems(2) [of a] that toks_size_nonneg [of ts] by simp
  have w: "be32 b' (p + d + k) = be32 b (p + k)" if "0 \<le> k" "k + 4 \<le> tok_size t" for k
  proof (rule be32_cong)
    fix i :: int assume "0 \<le> i" "i < 4"
    then show "b' (p + d + k + i) = b (p + k + i)"
      using that fr [of "p + k + i"] by (simp add: algebra_simps)
  qed
  have w0: "be32 b' (p + d) = be32 b p"
    using w [of 0] tok_size_pos [of t] by simp
  have sg: "seg b' (p + d + k) n = seg b (p + k) n" if "0 \<le> k" "k + int n \<le> tok_size t" for k n
  proof (rule seg_cong)
    fix i assume "i < n"
    then show "b' (p + d + k + int i) = b (p + k + int i)"
      using that fr [of "p + k + int i"] by (simp add: algebra_simps)
  qed
  have "tok_as N' b' (p + d) t"
  proof (cases t)
    case (T_BEGIN n)
    then show ?thesis
      using Cons.prems(1) w0 sg [of 4 "length n + 1"] FDT_TAGALIGN_bounds(1) [of "int (length n) + 1"]
      by simp
  next
    case (T_PROP n v)
    then show ?thesis
      using Cons.prems(1) w0 w [of 4] w [of 8] sg [of 12 "length v"] FDT_TAGALIGN_bounds(1) [of "int (length v)"]
        FDT_TAGALIGN_nonneg [of "int (length v)"]
      by (simp add: assms(2))
  qed (use Cons.prems(1) w0 in simp_all)
  moreover have "toks_as N' b' (p + tok_size t + d) ts"
    by (rule Cons.IH) (use Cons.prems tok_size_pos [of t] in simp_all)
  ultimately show ?case
    by (simp add: algebra_simps)
qed simp

lemma toks_at_frame:
  "toks_at b st p ts \<Longrightarrow> (\<And>a. p \<le> a \<Longrightarrow> a < p + toks_size ts \<Longrightarrow> b' (a + d) = b a)
    \<Longrightarrow> toks_at b' (st @ x) (p + d) ts"
  by (rule toks_as_frame [OF _ string_at_more])

text \<open>
  Tokens replaced in the middle: what stands before stays, what stands behind moves by the
  difference of the sizes.
\<close>

lemma holds_replace:
  assumes h: "fdt_holds b (pre @ mid @ post)" and lay: "fdt_layout b'"
    and os: "fdt_off_dt_struct b' = fdt_off_dt_struct b"
    and sz: "fdt_size_dt_struct b' = fdt_size_dt_struct b + (toks_size mid' - toks_size mid)"
    and st: "strtab b' = strtab b @ x"
    and before: "\<And>a. fdt_off_dt_struct b \<le> a \<Longrightarrow> a < fdt_off_dt_struct b + toks_size pre \<Longrightarrow> b' a = b a"
    and behind: "\<And>a. fdt_off_dt_struct b + toks_size pre + toks_size mid \<le> a \<Longrightarrow>
      a < fdt_off_dt_struct b + fdt_size_dt_struct b \<Longrightarrow>
      b' (a + (toks_size mid' - toks_size mid)) = b a"
    and mid: "toks_at b' (strtab b') (fdt_off_dt_struct b + toks_size pre) mid'"
  shows "fdt_holds b' (pre @ mid' @ post)"
proof -
  let ?os = "fdt_off_dt_struct b" and ?d = "toks_size mid' - toks_size mid"
  have t: "toks_at b (strtab b) ?os pre"
    "toks_at b (strtab b) (?os + toks_size pre + toks_size mid) post"
    "fdt_size_dt_struct b = toks_size pre + toks_size mid + toks_size post"
    using h by (simp_all add: fdt_holds_def add.assoc)
  have "toks_at b' (strtab b') ?os pre"
    using toks_at_frame [OF t(1), of b' 0 x] before st by simp
  moreover have "toks_at b' (strtab b') (?os + toks_size pre + toks_size mid + ?d) post"
    unfolding st by (rule toks_at_frame [OF t(2)], rule behind) (use t(3) in simp_all)
  ultimately show ?thesis
    using lay os sz t(3) mid by (simp add: fdt_holds_def add.assoc)
qed

lemma spliced_holds:
  assumes h: "fdt_holds b (pre @ mid @ post)"
    and sp: "spliced b s p oldlen newlen"
    and p: "fdt_off_dt_struct b + toks_size pre \<le> p"
      "p + oldlen = fdt_off_dt_struct b + toks_size (pre @ mid)"
    and d: "newlen - oldlen = toks_size mid' - toks_size mid"
    and out: "\<And>a. a < fdt_off_dt_struct b + toks_size pre \<or> p + newlen \<le> a \<Longrightarrow> b' a = s a"
    and mid: "toks_at b' (strtab s) (fdt_off_dt_struct b + toks_size pre) mid'"
  shows "fdt_holds b' (pre @ mid' @ post)" "slack b' = slack s" "inside b b'"
proof -
  let ?os = "fdt_off_dt_struct b"
  have os: "40 \<le> ?os"
    using h by (simp add: fdt_holds_def fdt_layout_def)
  have sl: "fdt_layout s" "fdt_off_dt_struct s = ?os"
    "fdt_size_dt_struct s = fdt_size_dt_struct b + (newlen - oldlen)"
    "strtab s = strtab b" "inside b s"
    using sp by (simp_all add: spliced_def)
  have hd: "be32 b' q = be32 s q" if "q \<le> 36" for q
    by (rule be32_cong, rule out) (use that os toks_size_nonneg [of pre] in simp)
  have f: "fdt_off_dt_struct b' = fdt_off_dt_struct s" "fdt_size_dt_struct b' = fdt_size_dt_struct s"
    "fdt_off_dt_strings b' = fdt_off_dt_strings s" "fdt_size_dt_strings b' = fdt_size_dt_strings s"
    "fdt_totalsize b' = fdt_totalsize s" "fdt_off_mem_rsvmap b' = fdt_off_mem_rsvmap s"
    "fdt_magic b' = fdt_magic s" "fdt_version b' = fdt_version s"
    "fdt_last_comp_version b' = fdt_last_comp_version s"
    by (simp_all add: fdt_header hd)
  have lay: "fdt_layout b'"
    using sl(1) by (simp add: fdt_layout_def f)
  have sz: "fdt_size_dt_struct b = toks_size pre + toks_size mid + toks_size post"
    using h by (simp add: fdt_holds_def)
  have edge: "p + newlen \<le> fdt_off_dt_strings s"
  proof -
    have "p + newlen = ?os + toks_size pre + toks_size mid'"
      using p(2) d by simp
    also have "\<dots> \<le> fdt_off_dt_struct s + fdt_size_dt_struct s"
      using sl sz d toks_size_nonneg [of post] by simp
    also have "\<dots> \<le> fdt_off_dt_strings s"
      using sl(1) by (simp add: fdt_layout_def)
    finally show ?thesis .
  qed
  have st: "strtab b' = strtab s"
    unfolding strtab_def f by (rule seg_cong, rule out) (use edge in simp)
  show "slack b' = slack s"
    by (simp add: slack_def f)
  have "fdt_off_dt_strings s \<le> fdt_totalsize s"
    using sl(1) fdt_header_bounds [of s] by (simp add: fdt_layout_def)
  then have "inside s b'"
    using edge os toks_size_nonneg [of pre] by (auto simp: inside_def f intro: out)
  with sl(5) show "inside b b'" by (rule inside_trans)
  show "fdt_holds b' (pre @ mid' @ post)"
  proof (rule holds_replace [OF h lay, where x = "[]"])
    show "fdt_off_dt_struct b' = ?os" by (simp add: f sl)
    show "fdt_size_dt_struct b' = fdt_size_dt_struct b + (toks_size mid' - toks_size mid)"
      by (simp add: f sl d)
    show "strtab b' = strtab b @ []" by (simp add: st sl)
    show "toks_at b' (strtab b') (?os + toks_size pre) mid'" by (simp add: st mid)
  next
    fix a assume a: "?os \<le> a" "a < ?os + toks_size pre"
    then show "b' a = b a"
      using out [of a] sp os p(1) by (simp add: spliced_def)
  next
    fix a assume a: "?os + toks_size pre + toks_size mid \<le> a" "a < ?os + fdt_size_dt_struct b"
    then have "s (a + (newlen - oldlen)) = b a"
      using sp p(2) by (simp add: spliced_def)
    moreover have "b' (a + (newlen - oldlen)) = s (a + (newlen - oldlen))"
      by (rule out) (use a p(2) in simp)
    ultimately show "b' (a + (toks_size mid' - toks_size mid)) = b a"
      by (simp add: d)
  qed
qed

section \<open>Adding a string\<close>

lemma find_Some: "List.find P [0..<n] = Some i \<Longrightarrow> P i \<and> i < n"
  by (auto simp: find_Some_iff)

lemma find_string_ok:
  assumes "fdt_layout b" "0 \<notin> set s"
    and "fdt_find_string b (fdt_off_dt_strings b) (c_int (fdt_size_dt_strings b)) s = Some off"
  shows "0 \<le> off" "string_at (strtab b) off s"
proof -
  have sz: "c_int (fdt_size_dt_strings b) = fdt_size_dt_strings b"
    using assms(1) fdt_header_bounds [of b] by (simp add: fdt_layout_def c_int_small)
  obtain i where i: "off = int i" "seg b (fdt_off_dt_strings b + int i) (length s + 1) = s @ [0]"
    "i < nat (fdt_size_dt_strings b - int (length s + 1) + 1)"
    using assms(3) by (auto simp: fdt_find_string_def Let_def sz dest!: find_Some)
  show "0 \<le> off" by (simp add: i(1))
  have "i + (length s + 1) \<le> nat (fdt_size_dt_strings b)"
    using i(3) by simp
  then have "take (length s + 1) (drop i (strtab b)) = seg b (fdt_off_dt_strings b + int i) (length s + 1)"
    by (simp add: strtab_def drop_seg take_seg del: length_append_singleton)
  then show "string_at (strtab b) off s"
    using i(2) assms(2) by (simp add: string_at_def i(1))
qed

text \<open>A string appended behind the strings block: the header's size of the block and the bytes behind it change.\<close>

definition with_string :: "blob \<Rightarrow> u8 list \<Rightarrow> blob" where
  "with_string b s =
     copy_in (fdt_set_size_dt_strings b (fdt_size_dt_strings b + (int (length s) + 1)))
       (fdt_off_dt_strings b + fdt_size_dt_strings b) (s @ [0])"

lemma with_string_fields:
  assumes lay: "fdt_layout b" and room: "int (length s) + 1 \<le> slack b"
  shows "fdt_off_dt_struct (with_string b s) = fdt_off_dt_struct b" "fdt_size_dt_struct (with_string b s) = fdt_size_dt_struct b"
    "fdt_off_dt_strings (with_string b s) = fdt_off_dt_strings b"
    "fdt_size_dt_strings (with_string b s) = fdt_size_dt_strings b + (int (length s) + 1)"
    "fdt_totalsize (with_string b s) = fdt_totalsize b" "fdt_off_mem_rsvmap (with_string b s) = fdt_off_mem_rsvmap b"
    "fdt_magic (with_string b s) = fdt_magic b" "fdt_version (with_string b s) = fdt_version b"
    "fdt_last_comp_version (with_string b s) = fdt_last_comp_version b"
    "40 \<le> a \<Longrightarrow> a < fdt_off_dt_strings b + fdt_size_dt_strings b \<Longrightarrow> with_string b s a = b a"
    "fdt_layout (with_string b s)" "inside b (with_string b s)"
proof -
  note hb = fdt_header_bounds [of b]
  have l: "40 \<le> fdt_off_dt_struct b" "fdt_off_dt_struct b + fdt_size_dt_struct b \<le> fdt_off_dt_strings b"
    "fdt_off_dt_strings b + fdt_size_dt_strings b \<le> fdt_totalsize b" "fdt_totalsize b < 2 ^ 31"
    using lay by (simp_all add: fdt_layout_def)
  let ?b' = "with_string b s" and ?new = "fdt_size_dt_strings b + (int (length s) + 1)"
  have mods: "?new mod 2 ^ 32 = ?new" using hb l room by (simp add: slack_def)
  have word: "be32 ?b' q = (if q = 32 then ?new else be32 b q)"
    if "q \<in> {0, 4, 8, 12, 16, 20, 24, 28, 32, 36}" for q
  proof -
    have "be32 ?b' q = be32 (fdt_set_size_dt_strings b ?new) q"
      unfolding with_string_def by (rule be32_copy_other) (use that l hb in auto)
    also have "\<dots> = (if q = 32 then ?new else be32 b q)"
      using that mods by (elim insertE) (simp_all add: fdt_setters be32_put32 be32_put32_other)
    finally show ?thesis .
  qed
  show fields: "fdt_off_dt_struct ?b' = fdt_off_dt_struct b" "fdt_size_dt_struct ?b' = fdt_size_dt_struct b"
    "fdt_off_dt_strings ?b' = fdt_off_dt_strings b" "fdt_size_dt_strings ?b' = ?new"
    "fdt_totalsize ?b' = fdt_totalsize b" "fdt_off_mem_rsvmap ?b' = fdt_off_mem_rsvmap b"
    "fdt_magic ?b' = fdt_magic b" "fdt_version ?b' = fdt_version b"
    "fdt_last_comp_version ?b' = fdt_last_comp_version b"
    by (simp_all add: fdt_header word)
  show "?b' a = b a" if "40 \<le> a" "a < fdt_off_dt_strings b + fdt_size_dt_strings b"
    using that by (simp add: with_string_def copy_in_outside fdt_setters put32_outside)
  show "fdt_layout ?b'" using lay room by (simp add: fdt_layout_def fields slack_def)
  have "?b' a = b a" if "a < 0 \<or> fdt_totalsize b \<le> a" for a
    using that l hb room by (auto simp: with_string_def copy_in_outside fdt_setters put32_outside slack_def)
  then show "inside b ?b'" by (simp add: inside_def fields)
qed

lemma with_string_strtab:
  assumes lay: "fdt_layout b" and room: "int (length s) + 1 \<le> slack b"
  shows "strtab (with_string b s) = strtab b @ s @ [0]"
proof -
  let ?b' = "with_string b s"
  note hb = fdt_header_bounds [of b] and f = with_string_fields [OF lay room]
  have n: "nat (fdt_size_dt_strings b + (int (length s) + 1)) = nat (fdt_size_dt_strings b) + (length s + 1)"
    using hb by simp
  have "seg ?b' (fdt_off_dt_strings b) (nat (fdt_size_dt_strings b)) = strtab b"
    unfolding strtab_def by (rule seg_cong, rule f(10)) (use lay hb in \<open>simp_all add: fdt_layout_def\<close>)
  moreover have "seg ?b' (fdt_off_dt_strings b + fdt_size_dt_strings b) (length s + 1) = s @ [0]"
    by (auto simp: seg_eq_iff with_string_def copy_in_def)
  ultimately show ?thesis using hb unfolding strtab_def [of ?b'] f(3,4) n seg_append by simp
qed

lemma add_string_ok:
  assumes h: "fdt_holds b ts" and s: "0 \<notin> set s" and room: "int (length s) + 1 \<le> slack b"
    and new: "fdt_find_string b (fdt_off_dt_strings b) (c_int (fdt_size_dt_strings b)) s = None"
  shows "fdt_find_add_string b s = (fdt_size_dt_strings b, with_string b s)" "fdt_holds (with_string b s) ts"
    "string_at (strtab (with_string b s)) (fdt_size_dt_strings b) s"
    "slack (with_string b s) = slack b - (int (length s) + 1)"
proof -
  note lay = holds_layout [OF h] and hb = fdt_header_bounds [of b]
  note f = with_string_fields [OF lay room] and st = with_string_strtab [OF lay room]
  have l: "40 \<le> fdt_off_dt_struct b" "fdt_off_dt_struct b + fdt_size_dt_struct b \<le> fdt_off_dt_strings b"
    "fdt_off_dt_strings b + fdt_size_dt_strings b \<le> fdt_totalsize b" "fdt_totalsize b < 2 ^ 31"
    using lay by (simp_all add: fdt_layout_def)
  let ?at = "fdt_off_dt_strings b + fdt_size_dt_strings b" and ?len = "int (length s) + 1"
  have "fdt_splice b ?at 0 ?len = (0, memmove b (?at + ?len) ?at 0)"
    using lay l hb room by (simp add: fdt_splice_def layout_data_size slack_def Let_def)
  moreover have "memmove b (?at + ?len) ?at 0 = b" by (rule ext) (auto simp: memmove_def)
  ultimately show "fdt_find_add_string b s = (fdt_size_dt_strings b, with_string b s)"
    by (simp add: fdt_find_add_string_def fdt_splice_string_def new with_string_def)
  show "string_at (strtab (with_string b s)) (fdt_size_dt_strings b) s"
    using hb s by (simp add: string_at_def st) (simp add: strtab_def)
  show "slack (with_string b s) = slack b - ?len" by (simp add: slack_def f(3,4,5))
  have "toks_at (with_string b s) (strtab b @ s @ [0]) (fdt_off_dt_struct b + 0) ts"
    by (rule toks_at_frame [where d = 0, of "strtab b" b, simplified])
      (use h l hb f(10) in \<open>simp_all add: fdt_holds_def\<close>)
  then show "fdt_holds (with_string b s) ts"
    using h f(11) by (simp add: fdt_holds_def st f(1,2))
qed

lemma find_add_string_ok:
  assumes h: "fdt_holds b ts" and s: "0 \<notin> set s" and room: "int (length s) + 1 \<le> slack b"
  obtains off b' where "fdt_find_add_string b s = (off, b')" "0 \<le> off" "off < 2 ^ 31"
    "fdt_holds b' ts" "string_at (strtab b') off s" "slack b - (int (length s) + 1) \<le> slack b'" "slack b' \<le> slack b"
    "fdt_off_dt_struct b' = fdt_off_dt_struct b" "inside b b'"
    "\<And>a. 40 \<le> a \<Longrightarrow> a < fdt_off_dt_strings b \<Longrightarrow> b' a = b a"
proof -
  note lay = holds_layout [OF h]
  note hb = fdt_header_bounds [of b]
  have l: "fdt_off_dt_strings b + fdt_size_dt_strings b \<le> fdt_totalsize b" "fdt_totalsize b < 2 ^ 31"
    using lay by (simp_all add: fdt_layout_def)
  show ?thesis
  proof (cases "fdt_find_string b (fdt_off_dt_strings b) (c_int (fdt_size_dt_strings b)) s")
    case (Some off)
    note f = find_string_ok [OF lay s Some]
    have "length (drop (nat off) (strtab b)) > 0"
      using f(2) by (metis append_is_Nil_conv length_greater_0_conv list.distinct(1) string_at_def take_eq_Nil)
    then have "off < 2 ^ 31" using l hb by (simp add: strtab_def)
    then show ?thesis
      using that [of off b] f h room Some by (simp add: fdt_find_add_string_def)
  next
    case None
    note f = with_string_fields [OF lay room] and add = add_string_ok [OF h s room None]
    show ?thesis
      by (rule that [OF add(1)]) (use add(2-4) f(1,10,12) hb l in simp_all)
  qed
qed

section \<open>Setting a property\<close>

text \<open>A new property goes in front of the others, an old one keeps its place.\<close>

fun put_prop :: "octets \<Rightarrow> octets \<Rightarrow> (octets \<times> octets) list \<Rightarrow> (octets \<times> octets) list" where
  "put_prop name v [] = []"
| "put_prop name v ((k, w) # ps) = (if k = name then (k, v) # ps else (k, w) # put_prop name v ps)"

fun set_prop :: "octets \<Rightarrow> octets \<Rightarrow> fdt_tree \<Rightarrow> fdt_tree" where
  "set_prop name v (Node n ps ks) =
     Node n (if name \<in> fst ` set ps then put_prop name v ps else (name, v) # ps) ks"

lemma put_prop_split:
  "name \<notin> fst ` set ps1 \<Longrightarrow> put_prop name v (ps1 @ (name, w) # ps2) = ps1 @ (name, v) # ps2"
  by (induction ps1) auto

lemma be32_agree:
  "(\<And>a. q \<le> a \<Longrightarrow> a < q + 4 \<Longrightarrow> b' a = b a) \<Longrightarrow> be32 b' q = be32 b q"
  by (rule be32_cong) simp

lemma slack_small: "fdt_layout b \<Longrightarrow> slack b < 2 ^ 31"
  using fdt_header_bounds [of b] by (simp add: slack_def fdt_layout_def)

lemma resize_step:
  assumes h: "fdt_holds b (pre @ T_PROP k w # post)"
    and room: "FDT_TAGALIGN (int (length v)) - FDT_TAGALIGN (int (length w)) \<le> slack b"
    and p: "p = fdt_off_dt_struct b + toks_size pre"
  obtains s b' where
    "fdt_splice_struct b (p + 12) (FDT_TAGALIGN (int (length w))) (FDT_TAGALIGN (int (length v))) = (0, s)"
    "b' = copy_in (put32 s (p + 4) (int (length v))) (p + 12) v"
    "fdt_holds b' (pre @ T_PROP k v # post)"
    "slack b' = slack b - (FDT_TAGALIGN (int (length v)) - FDT_TAGALIGN (int (length w)))"
    "inside b b'"
proof -
  let ?ow = "FDT_TAGALIGN (int (length w))" and ?nv = "FDT_TAGALIGN (int (length v))"
  note lay = holds_layout [OF h]
  have os: "40 \<le> fdt_off_dt_struct b" using lay by (simp add: fdt_layout_def)
  have al: "int (length w) \<le> ?ow" "int (length v) \<le> ?nv" by (rule FDT_TAGALIGN_bounds)+
  have sz: "toks_size pre + 12 + ?ow \<le> fdt_size_dt_struct b"
    using holds_room [OF h] by simp
  have pre: "0 \<le> toks_size pre" by (rule toks_size_nonneg)
  obtain s where s: "fdt_splice_struct b (p + 12) ?ow ?nv = (0, s)" "spliced b s (p + 12) ?ow ?nv"
    by (rule splice_struct_ok [OF lay, of "p + 12" ?ow ?nv]) (use p pre sz al room in simp_all)
  define b' where "b' = copy_in (put32 s (p + 4) (int (length v))) (p + 12) v"
  have same: "s a = b a" if "40 \<le> a" "a < p + 12" for a
    using s(2) that by (simp add: spliced_def)
  have out: "b' a = s a" if "a < p + 4 \<or> p + 8 \<le> a \<and> a < p + 12 \<or> p + 12 + ?nv \<le> a" for a
    using that al by (auto simp: b'_def copy_in_outside put32_outside)
  have tok: "tok_at b (strtab b) p (T_PROP k w)"
    using holds_tok [OF h] p by simp
  have len: "int (length v) < 2 ^ 32"
  proof -
    have "?nv \<le> slack b + ?ow" using room by simp
    moreover have "slack b + ?ow < 2 ^ 31 + 2 ^ 31"
      using slack_small [OF lay] sz pre layout_small [OF lay] by simp
    ultimately show ?thesis using al by simp
  qed
  have "be32 b' p = be32 b p"
    by (rule be32_agree) (use out same p pre os in simp)
  moreover have "be32 b' (p + 8) = be32 b (p + 8)"
    by (rule be32_agree) (use out same p pre os in simp)
  moreover have "be32 b' (p + 4) = int (length v)"
    unfolding b'_def using len by (simp add: be32_copy_other be32_put32)
  moreover have "seg b' (p + 12) (length v) = v"
    by (simp add: seg_eq_iff b'_def copy_in_inside)
  moreover have "strtab s = strtab b"
    using s(2) by (simp add: spliced_def)
  ultimately have "toks_at b' (strtab s) (fdt_off_dt_struct b + toks_size pre) [T_PROP k v]"
    using tok p by simp
  note mid = this
  have far: "b' a = s a" if "a < fdt_off_dt_struct b + toks_size pre \<or> p + 12 + ?nv \<le> a" for a
    by (rule out) (use that p in auto)
  have "fdt_holds b (pre @ [T_PROP k w] @ post)" using h by simp
  note sp = spliced_holds [OF this s(2) _ _ _ far mid]
  have "fdt_holds b' (pre @ [T_PROP k v] @ post)" "slack b' = slack s" "inside b b'"
    by (rule sp; simp add: p)+
  moreover have "slack s = slack b - (?nv - ?ow)"
    using s(2) by (simp add: spliced_def)
  ultimately show ?thesis
    using that [OF s(1) b'_def] by simp
qed

lemma insert_step:
  assumes h: "fdt_holds b (pre @ post)" and str: "string_at (strtab b) off k" "off < 2 ^ 31" "0 \<le> off"
    and room: "12 + FDT_TAGALIGN (int (length v)) \<le> slack b"
    and p: "p = fdt_off_dt_struct b + toks_size pre"
  obtains s b' where
    "fdt_splice_struct b p 0 (12 + FDT_TAGALIGN (int (length v))) = (0, s)"
    "b' = copy_in (put32 (put32 (put32 s p FDT_PROP) (p + 8) off) (p + 4) (int (length v))) (p + 12) v"
    "fdt_holds b' (pre @ T_PROP k v # post)"
    "slack b' = slack b - (12 + FDT_TAGALIGN (int (length v)))"
    "inside b b'"
proof -
  let ?nv = "FDT_TAGALIGN (int (length v))"
  note lay = holds_layout [OF h]
  have os: "40 \<le> fdt_off_dt_struct b" using lay by (simp add: fdt_layout_def)
  have al: "int (length v) \<le> ?nv" by (rule FDT_TAGALIGN_bounds)
  have sz: "toks_size pre \<le> fdt_size_dt_struct b"
    using h toks_size_nonneg [of post] by (simp add: fdt_holds_def)
  have pre: "0 \<le> toks_size pre" by (rule toks_size_nonneg)
  obtain s where s: "fdt_splice_struct b p 0 (12 + ?nv) = (0, s)" "spliced b s p 0 (12 + ?nv)"
    by (rule splice_struct_ok [OF lay, of p 0 "12 + ?nv"]) (use p pre sz al room in simp_all)
  define b' where "b' = copy_in (put32 (put32 (put32 s p FDT_PROP) (p + 8) off) (p + 4) (int (length v))) (p + 12) v"
  have out: "b' a = s a" if "a < p \<or> p + 12 + ?nv \<le> a" for a
    using that al by (auto simp: b'_def copy_in_outside put32_outside)
  have len: "int (length v) < 2 ^ 32"
    using room al slack_small [OF lay] by simp
  have "be32 b' p = FDT_PROP" "be32 b' (p + 8) = off" "be32 b' (p + 4) = int (length v)"
    unfolding b'_def using len str by (simp_all add: be32_copy_other be32_put32 be32_put32_other fdt_tags)
  moreover have "seg b' (p + 12) (length v) = v"
    by (simp add: seg_eq_iff b'_def copy_in_inside)
  moreover have "strtab s = strtab b"
    using s(2) by (simp add: spliced_def)
  ultimately have "toks_at b' (strtab s) (fdt_off_dt_struct b + toks_size pre) [T_PROP k v]"
    using str p by simp
  note mid = this
  have far: "b' a = s a" if "a < fdt_off_dt_struct b + toks_size pre \<or> p + (12 + ?nv) \<le> a" for a
    by (rule out) (use that p in auto)
  have "fdt_holds b (pre @ [] @ post)" using h by simp
  note sp = spliced_holds [OF this s(2) _ _ _ far mid]
  have "fdt_holds b' (pre @ [T_PROP k v] @ post)" "slack b' = slack s" "inside b b'"
    by (rule sp; simp add: p)+
  moreover have "slack s = slack b - (12 + ?nv)"
    using s(2) by (simp add: spliced_def)
  ultimately show ?thesis
    using that [OF s(1) b'_def] by simp
qed

definition prop_cost :: "octets \<Rightarrow> octets \<Rightarrow> int" where
  "prop_cost name v = 12 + FDT_TAGALIGN (int (length v)) + int (length name) + 1"

lemma setprop_node:
  assumes h: "fdt_holds b (pre @ flat (Node n ps ks) @ post)" and name: "0 \<notin> set name"
    and room: "prop_cost name v \<le> slack b"
  obtains b' where "fdt_setprop b (toks_size pre) name v = Some (0, b')"
    "fdt_holds b' (pre @ flat (set_prop name v (Node n ps ks)) @ post)"
    "slack b - prop_cost name v \<le> slack b'" "inside b b'"
proof -
  note lay = holds_layout [OF h]
  let ?nv = "FDT_TAGALIGN (int (length v))"
  let ?rest = "concat (map flat ks) @ T_END_NODE # post"
  have nv: "0 \<le> ?nv" by (rule FDT_TAGALIGN_nonneg) simp
  have nv31: "12 + ?nv < 2 ^ 31"
    using room slack_small [OF lay] by (simp add: prop_cost_def)
  have cint: "c_int ?nv = ?nv" "c_int (12 + ?nv) = 12 + ?nv"
    using nv nv31 by (simp_all add: c_int_small)
  note get = get_property_tree [OF h, of name]
  show ?thesis
  proof (cases "find_prop name (toks_size (pre @ [T_BEGIN n])) ps")
    case (Some ow)
    obtain o' w where ow: "ow = (o', w)" by (cases ow)
    from find_prop_split [OF Some [unfolded ow]] obtain ps1 ps2 where ps: "ps = ps1 @ (name, w) # ps2"
      and o': "o' = toks_size (pre @ [T_BEGIN n]) + toks_size (prop_toks ps1)"
      and new: "name \<notin> fst ` set ps1" by blast
    let ?pre = "pre @ T_BEGIN n # prop_toks ps1" and ?post = "prop_toks ps2 @ ?rest"
    let ?ow = "FDT_TAGALIGN (int (length w))"
    have o'': "o' = toks_size ?pre" using o' by simp
    have hp: "fdt_holds b (?pre @ T_PROP name w # ?post)"
      using h ps by simp
    have ow0: "0 \<le> ?ow" by (rule FDT_TAGALIGN_nonneg) simp
    have "?ow < 2 ^ 31"
      using holds_room [OF hp] toks_size_nonneg [of ?pre] layout_small [OF lay] by simp
    then have cow: "c_int ?ow = ?ow"
      using ow0 by (simp add: c_int_small)
    obtain s b' where s: "fdt_splice_struct b (fdt_off_dt_struct b + o' + 12) ?ow ?nv = (0, s)"
      "b' = copy_in (put32 s (fdt_off_dt_struct b + o' + 4) (int (length v))) (fdt_off_dt_struct b + o' + 12) v"
      "fdt_holds b' (?pre @ T_PROP name v # ?post)" "slack b' = slack b - (?nv - ?ow)"
      "inside b b'"
      by (rule resize_step [OF hp, of v "fdt_off_dt_struct b + o'"])
        (use room ow0 o'' in \<open>simp_all add: prop_cost_def\<close>)
    have "fdt_setprop b (toks_size pre) name v = Some (0, b')"
      using get Some ow s(1,2)
      by (simp add: fdt_setprop_def rw_check_holds [OF h] fdt_resize_property_def found_prop_def cint cow
          fdt_errs)
    moreover have "fdt_holds b' (pre @ flat (set_prop name v (Node n ps ks)) @ post)"
      using s(3) ps put_prop_split [OF new] by simp
    ultimately show ?thesis
      using that s(4,5) ow0 by (simp add: prop_cost_def)
  next
    case None
    have absent: "name \<notin> fst ` set ps"
      using find_prop_map_of [of name "toks_size (pre @ [T_BEGIN n])" ps] None
      by (simp add: map_of_eq_None_iff [symmetric])
    have hb: "fdt_holds b (pre @ T_BEGIN n # prop_toks ps @ ?rest)"
      using h by simp
    define q where "q = toks_size (pre @ [T_BEGIN n])"
    have chk: "fdt_check_node_offset b (toks_size pre) = q" and q: "0 \<le> q"
      unfolding q_def by (rule check_node_holds [OF hb], rule toks_size_nonneg)
    obtain off b1 where a: "fdt_find_add_string b name = (off, b1)" "0 \<le> off" "off < 2 ^ 31"
      "fdt_holds b1 (pre @ flat (Node n ps ks) @ post)" "string_at (strtab b1) off name"
      "slack b - (int (length name) + 1) \<le> slack b1" "fdt_off_dt_struct b1 = fdt_off_dt_struct b"
      "inside b b1"
      by (rule find_add_string_ok [OF h name]) (use room nv in \<open>simp_all add: prop_cost_def\<close>)
    define p where "p = fdt_off_dt_struct b1 + q"
    obtain s b' where s: "fdt_splice_struct b1 p 0 (12 + ?nv) = (0, s)"
      "b' = copy_in (put32 (put32 (put32 s p FDT_PROP) (p + 8) off) (p + 4) (int (length v))) (p + 12) v"
      "fdt_holds b' ((pre @ [T_BEGIN n]) @ T_PROP name v # prop_toks ps @ ?rest)"
      "slack b' = slack b1 - (12 + ?nv)" "inside b1 b'"
      by (rule insert_step [of b1 "pre @ [T_BEGIN n]" "prop_toks ps @ ?rest" off name v p])
        (use a room in \<open>simp_all add: prop_cost_def p_def q_def\<close>)
    have ptr: "fdt_struct_ptr b1 q = p"
      by (simp add: fdt_struct_ptr_def p_def)
    have "fdt_setprop b (toks_size pre) name v = Some (0, b')"
      using get None a(1,2) s(1) q
      by (simp add: fdt_setprop_def rw_check_holds [OF h] fdt_resize_property_def found_prop_def cint
          fdt_add_property_def ptr chk fdt_errs flip: s(2))
    moreover have "fdt_holds b' (pre @ flat (set_prop name v (Node n ps ks)) @ post)"
      using s(3) absent by simp
    ultimately show ?thesis
      using that s(4) a(6) inside_trans [OF a(8) s(5)] by (simp add: prop_cost_def)
  qed
qed

lemma setprop_located:
  assumes h: "fdt_holds b (flat t @ post)" and loc: "locate 0 path t = Some off"
    and name: "0 \<notin> set name" and room: "prop_cost name v \<le> slack b"
  obtains b' where "fdt_setprop b off name v = Some (0, b')"
    "fdt_holds b' (flat (edit path (set_prop name v) t) @ post)"
    "slack b - prop_cost name v \<le> slack b'" "inside b b'"
proof -
  from locate_flat [OF loc] obtain pre u post' where f: "flat t = pre @ flat u @ post'"
    "off = toks_size pre" "\<forall>f. flat (edit path f t) = pre @ flat (f u) @ post'"
    by auto
  obtain n ps ks where u: "u = Node n ps ks" by (cases u)
  have "fdt_holds b (pre @ flat (Node n ps ks) @ (post' @ post))"
    using h f(1) u by simp
  from setprop_node [OF this name room] obtain b' where
    "fdt_setprop b (toks_size pre) name v = Some (0, b')"
    "fdt_holds b' (pre @ flat (set_prop name v u) @ post' @ post)"
    "slack b - prop_cost name v \<le> slack b'" "inside b b'"
    unfolding u by metis
  then show ?thesis
    using that f by simp
qed

section \<open>No space\<close>

lemma find_add_string_no_space:
  assumes lay: "fdt_layout b" and full: "slack b < int (length s) + 1"
    and new: "fdt_find_string b (fdt_off_dt_strings b) (c_int (fdt_size_dt_strings b)) s = None"
  shows "fdt_find_add_string b s = (- FDT_ERR_NOSPACE, b)"
proof -
  have "fdt_splice b (fdt_off_dt_strings b + fdt_size_dt_strings b) 0 (int (length s) + 1)
      = (- FDT_ERR_NOSPACE, b)"
    using lay full fdt_header_bounds [of b]
    by (simp add: fdt_splice_def layout_data_size slack_def Let_def fdt_errs)
  then show ?thesis
    by (simp add: fdt_find_add_string_def new fdt_splice_string_def fdt_errs Let_def)
qed

text \<open>
  A property that is not there and does not fit: the error, and the tree as it was. The name
  may have been added to the strings.
\<close>

lemma setprop_full:
  assumes h: "fdt_holds b (pre @ flat (Node n ps ks) @ post)" and name: "0 \<notin> set name"
    and new: "name \<notin> fst ` set ps" and big: "int (length v) < 2 ^ 31 - 32"
    and full: "slack b < 12 + FDT_TAGALIGN (int (length v))"
  obtains b' where "fdt_setprop b (toks_size pre) name v = Some (- FDT_ERR_NOSPACE, b')"
    "fdt_holds b' (pre @ flat (Node n ps ks) @ post)" "inside b b'"
proof -
  note lay = holds_layout [OF h]
  let ?nv = "FDT_TAGALIGN (int (length v))"
  have "?nv < 2 ^ 31 - 28" "0 \<le> ?nv"
    using big FDT_TAGALIGN_bounds(2) [of "int (length v)"] by (simp_all add: FDT_TAGALIGN_nonneg)
  then have cint: "c_int (12 + ?nv) = 12 + ?nv"
    by (simp add: c_int_small)
  have hb: "fdt_holds b (pre @ T_BEGIN n # prop_toks ps @ concat (map flat ks) @ T_END_NODE # post)"
    using h by simp
  define q where "q = toks_size (pre @ [T_BEGIN n])"
  have chk: "fdt_check_node_offset b (toks_size pre) = q" and q: "0 \<le> q"
    unfolding q_def by (rule check_node_holds [OF hb], rule toks_size_nonneg)
  have "find_prop name q ps = None"
    using new find_prop_map_of [of name q ps] by (simp add: map_of_eq_None_iff [symmetric])
  then have get: "fdt_get_property b (toks_size pre) name = Some (None, - FDT_ERR_NOTFOUND)"
    using get_property_tree [OF h, of name] by (simp add: q_def found_prop_def)
  note unf = fdt_setprop_def rw_check_holds [OF h] fdt_resize_property_def get fdt_add_property_def chk
  show ?thesis
  proof (cases "slack b < int (length name) + 1
      \<and> fdt_find_string b (fdt_off_dt_strings b) (c_int (fdt_size_dt_strings b)) name = None")
    case True
    then have "fdt_find_add_string b name = (- FDT_ERR_NOSPACE, b)"
      using find_add_string_no_space [OF lay] by simp
    then show ?thesis
      using that [of b] h q by (simp add: unf fdt_errs)
  next
    case False
    obtain off b1 where a: "fdt_find_add_string b name = (off, b1)" "0 \<le> off"
      "fdt_holds b1 (pre @ flat (Node n ps ks) @ post)" "slack b1 \<le> slack b"
      "inside b b1"
    proof (cases "fdt_find_string b (fdt_off_dt_strings b) (c_int (fdt_size_dt_strings b)) name")
      case None
      then have room: "int (length name) + 1 \<le> slack b" using False by simp
      show ?thesis
        by (rule find_add_string_ok [OF h name room]) (rule that)
    next
      case (Some off)
      then show ?thesis
        using that [of off b] find_string_ok [OF lay name Some] h by (simp add: fdt_find_add_string_def)
    qed
    let ?p = "fdt_struct_ptr b1 q"
    have lay1: "fdt_layout b1" by (rule holds_layout [OF a(3)])
    have "q \<le> fdt_size_dt_struct b1"
      using holds_room [of b1 pre "T_BEGIN n" "prop_toks ps @ concat (map flat ks) @ T_END_NODE # post"] a(3)
      by (simp add: q_def)
    then have "fdt_splice_struct b1 ?p 0 (12 + ?nv) = (- FDT_ERR_NOSPACE, b1)"
      using full a(4) \<open>0 \<le> ?nv\<close> q by (intro splice_struct_no_space [OF lay1]) (simp_all add: fdt_struct_ptr_def)
    then show ?thesis
      using that [of b1] a q by (simp add: unf cint fdt_errs)
  qed
qed

section \<open>Opening a blob in place\<close>

lemma view_at_blob: "view_at (at_blob m base f) base = f (view_at m base)"
  by (simp add: at_blob_def view_at_def)

lemma memmove_self: "memmove m p p n = m"
  by (rule ext) (simp add: memmove_def)

lemma open_into_in_place:
  assumes h: "fdt_holds (view_at m base) ts"
    and n: "fdt_num_mem_rsv (view_at m base) = Some n" "0 \<le> n"
      "fdt_off_mem_rsvmap (view_at m base) + (n + 1) * 16 \<le> fdt_off_dt_struct (view_at m base)"
    and bufsize: "fdt_totalsize (view_at m base) \<le> bufsize" "bufsize < 2 ^ 31"
  obtains m' where "fdt_open_into m base base bufsize = Some (0, m')"
    "fdt_holds (view_at m' base) ts" "fdt_totalsize (view_at m' base) = bufsize"
    "slack (view_at m' base) = slack (view_at m base) + (bufsize - fdt_totalsize (view_at m base))"
    "\<And>a. a < base \<or> base + 40 \<le> a \<Longrightarrow> m' a = m a"
proof -
  define b where "b = view_at m base"
  define b' where "b' = fdt_set_totalsize (fdt_set_size_dt_struct (fdt_set_version b 17)
    (fdt_size_dt_struct b)) bufsize"
  define m' where "m' = at_blob m base (\<lambda>b. fdt_set_totalsize (fdt_set_size_dt_struct
    (fdt_set_version b 17) (c_int (fdt_size_dt_struct (view_at m base)))) bufsize)"
  have hb: "fdt_holds b ts" using h by (simp add: b_def)
  note lay = holds_layout [OF hb]
  note bounds = fdt_header_bounds [of b]
  have sz: "c_int (fdt_size_dt_struct b) = fdt_size_dt_struct b"
    using layout_small [OF lay] bounds by (simp add: c_int_small)
  have view: "view_at m' base = b'"
    by (simp add: m'_def view_at_blob b'_def sz flip: b_def)
  have q': "be32 b' q = (if q = 4 then bufsize else be32 b q)"
    if "q \<in> {0, 4, 8, 12, 16, 20, 24, 28, 32, 36}" for q
  proof -
    have "fdt_version b = 17" "fdt_size_dt_struct b mod 2 ^ 32 = fdt_size_dt_struct b"
      "bufsize mod 2 ^ 32 = bufsize"
      using lay bounds bufsize layout_small [OF lay]
      by (simp_all add: fdt_layout_def b_def [symmetric])
    then show ?thesis
      using that by (elim insertE)
        (simp_all add: b'_def fdt_setters be32_put32 be32_put32_other fdt_version_def fdt_size_dt_struct_def)
  qed
  have fields: "fdt_off_dt_struct b' = fdt_off_dt_struct b" "fdt_size_dt_struct b' = fdt_size_dt_struct b"
    "fdt_off_dt_strings b' = fdt_off_dt_strings b" "fdt_size_dt_strings b' = fdt_size_dt_strings b"
    "fdt_totalsize b' = bufsize" "fdt_off_mem_rsvmap b' = fdt_off_mem_rsvmap b"
    "fdt_magic b' = fdt_magic b" "fdt_version b' = fdt_version b"
    "fdt_last_comp_version b' = fdt_last_comp_version b"
    by (simp_all add: fdt_header q')
  have l: "40 \<le> fdt_off_dt_struct b" "fdt_off_dt_struct b + fdt_size_dt_struct b \<le> fdt_off_dt_strings b"
    "fdt_off_dt_strings b + fdt_size_dt_strings b \<le> fdt_totalsize b"
    using lay by (simp_all add: fdt_layout_def)
  have body: "b' a = b a" if "40 \<le> a" for a
    using that by (simp add: b'_def fdt_setters put32_outside)
  have "strtab b' = strtab b"
    unfolding strtab_def fields by (rule seg_cong, rule body) (use l bounds in simp)
  moreover have "toks_at b' (strtab b) (fdt_off_dt_struct b) ts"
    using toks_at_frame [of "strtab b" b "fdt_off_dt_struct b" ts b' 0 "[]"] hb l body
    by (simp add: fdt_holds_def)
  moreover have "fdt_layout b'"
    using lay bufsize by (simp add: fdt_layout_def fields b_def [symmetric])
  ultimately have holds': "fdt_holds b' ts"
    using hb by (simp add: fdt_holds_def fields)
  have ordered: "\<not> fdt_blocks_misordered b ((n + 1) * 16) (fdt_size_dt_struct b)"
    using lay bounds n(2,3) by (simp add: fdt_blocks_misordered_def fdt_layout_def FDT_ALIGN_def
        c_unsigned_small b_def [symmetric])
  have "fdt_move m base base bufsize = (0, m)"
    using bufsize bounds check_header_holds [OF hb]
    by (simp add: fdt_move_def memmove_self c_unsigned_small b_def [symmetric])
  then have "fdt_open_into m base base bufsize = Some (0, m')"
    using check_header_holds [OF hb] n(1) ordered lay
    by (simp add: fdt_open_into_def m'_def sz b_def [symmetric] fdt_layout_def)
  moreover have "m' a = m a" if "a < base \<or> base + 40 \<le> a" for a
    using that by (auto simp: m'_def at_blob_def fdt_setters put32_outside view_at_def)
  ultimately show ?thesis
    using that [of m'] holds' by (simp add: view fields slack_def b_def [symmetric])
qed

end
