(* ===== verification/FdtSpec.thy ===== *)
theory FdtSpec
  imports FdtEdit
begin

unbundle bit_operations_syntax

text \<open>
  What the device tree library \<^verbatim>\<open>src/arm_chainloader/drivers/libfdt\<close> guarantees on a blob
  that holds a tree, and what it does on two kinds of malformed blobs: a property whose length
  wraps around, and an alias that names itself. The examples run on a small compiled tree.
\<close>

section \<open>An example\<close>

definition sample_tree :: fdt_tree where
  "sample_tree = Node [] []
     [Node (ascii ''aliases'') [(ascii ''ethernet0'', ascii ''/e'' @ [0])] [],
      Node (ascii ''e'') [] [], Node (ascii ''system'') [] [], Node (ascii ''chosen'') [] [],
      Node (ascii ''memory'') [] [], Node (ascii ''soc'') [] []]"

definition sample_bytes :: octets where
  "sample_bytes =
     [208, 13, 254, 237, 0, 0, 0, 186, 0, 0, 0, 56, 0, 0, 0, 176, 0, 0, 0, 40, 0, 0, 0, 17,
      0, 0, 0, 16, 0, 0, 0, 0, 0, 0, 0, 10, 0, 0, 0, 120,
      0, 0, 0, 0, 0, 0, 0, 0, 0, 0, 0, 0, 0, 0, 0, 0,
      0, 0, 0, 1, 0, 0, 0, 0, 0, 0, 0, 1, 97, 108, 105, 97, 115, 101, 115, 0,
      0, 0, 0, 3, 0, 0, 0, 3, 0, 0, 0, 0, 47, 101, 0, 0, 0, 0, 0, 2,
      0, 0, 0, 1, 101, 0, 0, 0, 0, 0, 0, 2,
      0, 0, 0, 1, 115, 121, 115, 116, 101, 109, 0, 0, 0, 0, 0, 2,
      0, 0, 0, 1, 99, 104, 111, 115, 101, 110, 0, 0, 0, 0, 0, 2,
      0, 0, 0, 1, 109, 101, 109, 111, 114, 121, 0, 0, 0, 0, 0, 2,
      0, 0, 0, 1, 115, 111, 99, 0, 0, 0, 0, 2, 0, 0, 0, 2, 0, 0, 0, 9,
      101, 116, 104, 101, 114, 110, 101, 116, 48, 0]"

text \<open>The bytes at the start of a buffer of zeros, with the total size of the buffer.\<close>

definition blob_of :: "octets \<Rightarrow> blob" where
  "blob_of xs = (\<lambda>a. if 0 \<le> a \<and> a < int (length xs) then xs ! nat a else 0)"

definition sample_blob :: blob where
  "sample_blob = fdt_set_totalsize (blob_of sample_bytes) 4096"

lemma sample_holds: "fdt_holds sample_blob (flat sample_tree @ [T_END])"
  by code_simp

section \<open>Paths\<close>

text \<open>C17: On a blob that holds a tree, \<^verbatim>\<open>fdt_path_offset\<close> of an absolute path returns the
  offset of the node that the path names in the tree, or the not-found error; of the name of
  an alias, what it returns for the path in the property of that name of \<^verbatim>\<open>/aliases\<close>. In
  particular it returns.\<close>
theorem path_offset_finds:
  assumes "fdt_holds b (flat t @ post)" "0 \<notin> set path" "0 \<notin> set target"
    and "subtree (components (ascii ''/aliases'')) t = Some (Node n ps ks)"
    and "locate 0 (components (ascii ''/aliases'')) t \<noteq> None"
    and "map_of ps name = Some ((0x2f # target) @ [0])" "name \<noteq> []" "0x2f \<notin> set name"
  shows "fdt_path_offset b (0x2f # path) =
      Some (case locate 0 (components (0x2f # path)) t of None \<Rightarrow> - FDT_ERR_NOTFOUND | Some off \<Rightarrow> off)
    \<and> fdt_path_offset b name =
      Some (case locate 0 (components (0x2f # target)) t of None \<Rightarrow> - FDT_ERR_NOTFOUND | Some off \<Rightarrow> off)"
  using path_offset_absolute [OF assms(1), of path] path_offset_absolute [OF assms(1), of target]
    path_offset_alias [OF assms(1,7,8,4,5,6,3)] assms(2,3) by simp

theorem path_offset_finds_witness:
  "fdt_path_offset sample_blob (ascii ''/soc'') = Some 100
   \<and> fdt_path_offset sample_blob (ascii ''ethernet0'') = Some 40"
proof -
  have a: "0x2f # ascii ''soc'' = ascii ''/soc''" by (simp add: ascii_def)
  have "fdt_path_offset sample_blob (0x2f # ascii ''soc'') =
      Some (case locate 0 (components (0x2f # ascii ''soc'')) sample_tree of
        None \<Rightarrow> - FDT_ERR_NOTFOUND | Some off \<Rightarrow> off)
    \<and> fdt_path_offset sample_blob (ascii ''ethernet0'') =
      Some (case locate 0 (components (0x2f # ascii ''e'')) sample_tree of
        None \<Rightarrow> - FDT_ERR_NOTFOUND | Some off \<Rightarrow> off)"
    by (rule path_offset_finds [OF sample_holds, of _ _ "ascii ''aliases''"
          "[(ascii ''ethernet0'', ascii ''/e'' @ [0])]" "[]"]) code_simp+
  moreover have "locate 0 (components (0x2f # ascii ''soc'')) sample_tree = Some 100"
    "locate 0 (components (0x2f # ascii ''e'')) sample_tree = Some 40"
    by code_simp+
  ultimately show ?thesis
    unfolding a by simp
qed

section \<open>Setting a property\<close>

text \<open>C5: \<^verbatim>\<open>fdt_setprop\<close> implements setting a property on the tree: on a blob that holds
  the tree, at the offset of a node and with room for the property, it returns 0, the blob then
  holds the tree with the property of that node set, the room shrinks by at most its cost, and
  no byte outside the blob is written.\<close>
theorem setprop_refines_tree:
  assumes "fdt_holds b (flat t @ [T_END])" "locate 0 path t = Some off"
    and "0 \<notin> set name" "prop_cost name v \<le> slack b"
  shows "\<exists>b'. fdt_setprop b off name v = Some (0, b')
    \<and> fdt_holds b' (flat (edit path (set_prop name v) t) @ [T_END])
    \<and> slack b - prop_cost name v \<le> slack b' \<and> inside b b'"
  using setprop_located [OF assms] by metis

theorem setprop_refines_tree_witness:
  "\<exists>b'. fdt_setprop sample_blob 68 (ascii ''bootargs'') [114, 119, 0] = Some (0, b')
    \<and> fdt_holds b' (flat (edit [ascii ''chosen''] (set_prop (ascii ''bootargs'') [114, 119, 0]) sample_tree) @ [T_END])
    \<and> slack sample_blob - prop_cost (ascii ''bootargs'') [114, 119, 0] \<le> slack b' \<and> inside sample_blob b'"
  by (rule setprop_refines_tree [OF sample_holds]) code_simp+

text \<open>The value of a property as a client reads it.\<close>

definition prop_value :: "blob \<Rightarrow> int \<Rightarrow> octets \<Rightarrow> octets option" where
  "prop_value b off name =
     (case fdt_getprop b off name of
        Some (Some p, len) \<Rightarrow> Some (seg b p (nat len)) | _ \<Rightarrow> None)"

lemma prop_value_tree:
  assumes h: "fdt_holds b (pre @ flat (Node n ps ks) @ post)"
  shows "prop_value b (toks_size pre) name = map_of ps name"
proof (cases "map_of ps name")
  case None
  then show ?thesis
    using getprop_tree_missing [OF h None] by (simp add: prop_value_def fdt_getprop_def)
next
  case (Some v)
  then show ?thesis
    by (rule getprop_tree [OF h]) (simp add: prop_value_def fdt_getprop_def Some)
qed

lemma map_of_put_prop:
  "name \<in> fst ` set ps \<Longrightarrow> map_of (put_prop name v ps) x = (if x = name then Some v else map_of ps x)"
  by (induction name v ps rule: put_prop.induct) force+

lemma map_of_set_prop:
  "\<exists>ps'. set_prop name v (Node n ps ks) = Node n ps' ks
     \<and> (\<forall>x. map_of ps' x = (if x = name then Some v else map_of ps x))"
  by (auto simp: map_of_put_prop)

text \<open>C23: After \<^verbatim>\<open>fdt_setprop\<close>, \<^verbatim>\<open>fdt_getprop\<close> of the same node returns the value that was
  set, and every other property of the node reads as before.\<close>
theorem getprop_setprop:
  assumes "fdt_holds b (flat t @ [T_END])" "locate 0 path t = Some off"
    and "0 \<notin> set name" "prop_cost name v \<le> slack b"
  shows "\<exists>b'. fdt_setprop b off name v = Some (0, b')
    \<and> (\<forall>x. prop_value b' off x = (if x = name then Some v else prop_value b off x))"
proof -
  from locate_flat [OF assms(2)] obtain pre u post where f: "flat t = pre @ flat u @ post"
    "off = toks_size pre" by auto
  obtain n ps ks where u: "u = Node n ps ks" by (cases u)
  obtain ps' where ps': "set_prop name v u = Node n ps' ks"
    "\<forall>x. map_of ps' x = (if x = name then Some v else map_of ps x)"
    using map_of_set_prop [of name v n ps ks] u by auto
  have h: "fdt_holds b (pre @ flat (Node n ps ks) @ (post @ [T_END]))"
    using assms(1) f u by simp
  obtain b' where b': "fdt_setprop b (toks_size pre) name v = Some (0, b')"
    "fdt_holds b' (pre @ flat (Node n ps' ks) @ (post @ [T_END]))"
    using setprop_node [OF h assms(3,4)] ps'(1) unfolding u by metis
  show ?thesis
    using b'(1) ps'(2) by (intro exI [of _ b']) (simp add: f prop_value_tree [OF b'(2)] prop_value_tree [OF h])
qed

theorem getprop_setprop_witness:
  "\<exists>b'. fdt_setprop sample_blob 8 (ascii ''ethernet0'') [47, 0] = Some (0, b')
    \<and> (\<forall>x. prop_value b' 8 x = (if x = ascii ''ethernet0'' then Some [47, 0] else prop_value sample_blob 8 x))"
  by (rule getprop_setprop [OF sample_holds, of "[ascii ''aliases'']"]) code_simp+

text \<open>C31: Without room for a new property \<^verbatim>\<open>fdt_setprop\<close> returns the no-space error and the
  blob still holds the tree it held.\<close>
theorem setprop_no_space:
  assumes "fdt_holds b (flat t @ [T_END])" "locate 0 path t = Some off" "subtree path t = Some (Node n ps ks)"
    and "0 \<notin> set name" "name \<notin> fst ` set ps" "int (length v) < 2 ^ 31 - 32"
    and "slack b < 12 + FDT_TAGALIGN (int (length v))"
  shows "\<exists>b'. fdt_setprop b off name v = Some (- FDT_ERR_NOSPACE, b')
    \<and> fdt_holds b' (flat t @ [T_END]) \<and> inside b b'"
proof -
  from locate_flat [OF assms(2)] assms(3) obtain pre post where
    f: "flat t = pre @ flat (Node n ps ks) @ post" "off = toks_size pre" by auto
  have "fdt_holds b (pre @ flat (Node n ps ks) @ (post @ [T_END]))"
    using assms(1) f by simp
  from setprop_full [OF this assms(4-7)] show ?thesis
    using f by (metis append.assoc)
qed

theorem setprop_no_space_witness:
  "\<exists>b'. fdt_setprop (blob_of sample_bytes) 68 (ascii ''bootargs'') [0] = Some (- FDT_ERR_NOSPACE, b')
    \<and> fdt_holds b' (flat sample_tree @ [T_END]) \<and> inside (blob_of sample_bytes) b'"
  by (rule setprop_no_space [of _ _ "[ascii ''chosen'']" _ "ascii ''chosen''" "[]" "[]"]) code_simp+

section \<open>Bounds and malformed blobs\<close>

text \<open>C34: What \<^verbatim>\<open>fdt_offset_ptr\<close> returns, for every offset an \<^verbatim>\<open>int\<close> holds, every length and every
  header. For an offset that is not negative all \<^verbatim>\<open>len\<close> bytes of the pointer lie between the start of
  the structure block and the total size. A negative offset gets a pointer only through a header that
  claims a total size of 2 GB or more, and that pointer lies before the blob with all its bytes.\<close>
theorem offset_ptr_in_bounds:
  assumes "fdt_offset_ptr b offset len = Some p" "- (2 ^ 31) \<le> offset" "offset < 2 ^ 31" "0 \<le> len" "len < 2 ^ 32"
  shows "if 0 \<le> offset then fdt_off_dt_struct b \<le> p \<and> p + len \<le> fdt_totalsize b
    else 2 ^ 31 \<le> fdt_totalsize b \<and> p + len < 0 \<and> p + len \<le> fdt_totalsize b - 2 ^ 32"
proof -
  let ?os = "fdt_off_dt_struct b" and ?abs = "c_unsigned (offset + fdt_off_dt_struct b)"
  have os: "0 \<le> ?os" "?os < 2 ^ 32" using be32_bounds [of b 8] by (simp_all add: fdt_off_dt_struct_def)
  have total: "fdt_totalsize b < 2 ^ 32" using be32_bounds [of b 4] by (simp add: fdt_totalsize_def)
  have c: "c_unsigned offset \<le> ?abs" "?abs \<le> c_unsigned (?abs + len)"
    "c_unsigned (?abs + len) \<le> fdt_totalsize b" "p = ?os + offset"
    using assms(1) by (auto simp: fdt_offset_ptr_def Let_def fdt_struct_ptr_def split: if_splits)
  have wrap: "c_unsigned x = x - 2 ^ 32" if "2 ^ 32 \<le> x" "x < 2 ^ 33" for x
    using that mod_pos_pos_trivial [of "x - 2 ^ 32" "2 ^ 32"] by (simp add: c_unsigned_def)
  have below: "c_unsigned x = x + 2 ^ 32" if "- (2 ^ 32) \<le> x" "x < 0" for x
    using that mod_pos_pos_trivial [of "x + 2 ^ 32" "2 ^ 32"] by (simp add: c_unsigned_def)
  have "?abs + len < 2 ^ 32"
  proof (rule ccontr)
    assume "\<not> ?abs + len < 2 ^ 32"
    then have "c_unsigned (?abs + len) = ?abs + len - 2 ^ 32"
      using assms c_unsigned_bounds(2) [of "offset + ?os"] by (intro wrap) simp_all
    then show False using c(2) assms by simp
  qed
  then have fit: "?abs + len \<le> fdt_totalsize b"
    using c(3) assms(4) c_unsigned_bounds(1) by (simp add: c_unsigned_small)
  show ?thesis
  proof (cases "0 \<le> offset")
    case True
    have "offset + ?os < 2 ^ 32"
    proof (rule ccontr)
      assume "\<not> offset + ?os < 2 ^ 32"
      then have "?abs = offset + ?os - 2 ^ 32" using assms(3) os by (intro wrap) simp_all
      then show False using c(1) assms(3) os True by (simp add: c_unsigned_small)
    qed
    then show ?thesis using True os fit c(4) by (simp add: c_unsigned_small)
  next
    case False
    have neg: "offset + ?os < 0"
    proof (rule ccontr)
      assume "\<not> offset + ?os < 0"
      then show False using c(1) os False assms(2) below [of offset] by (simp add: c_unsigned_small)
    qed
    then have "?abs = offset + ?os + 2 ^ 32" using assms(2) os by (intro below) simp_all
    then show ?thesis using False fit total assms(2,4) os c(4) by simp
  qed
qed

text \<open>The second case is real: a blob that claims 4 GB hands out the byte in front of it.\<close>

definition before_blob :: blob where
  "before_blob = put32 (put32 (put32 (\<lambda>_. 0) 4 0xFFFFFFFF) 8 0) 20 0x10"

theorem offset_ptr_in_bounds_witness:
  "fdt_off_dt_struct sample_blob \<le> 56 \<and> 56 + 4 \<le> fdt_totalsize sample_blob
   \<and> fdt_offset_ptr before_blob (- 4) 1 = Some (- 4)
   \<and> 2 ^ 31 \<le> fdt_totalsize before_blob \<and> - 4 + 1 \<le> fdt_totalsize before_blob - 2 ^ 32"
proof -
  have s: "fdt_offset_ptr sample_blob 0 4 = Some 56" by code_simp
  have n: "fdt_offset_ptr before_blob (- 4) 1 = Some (- 4)" by code_simp
  show ?thesis
    using offset_ptr_in_bounds [OF s] offset_ptr_in_bounds [OF n] n by simp
qed

lemma next_node_stuck:
  assumes "fdt_next_tag b off = (FDT_PROP, off)"
  shows "next_node_loop b off depth = None"
proof -
  have "next_node_loop b' off' depth' = Some y \<Longrightarrow> b' = b \<Longrightarrow> off' = off \<Longrightarrow> False" for b' off' depth' y
  proof (induction rule: next_node_loop.raw_induct [rotated, consumes 1, case_names step])
    case (step f b' off' depth' y)
    then show ?case using assms by (simp add: fdt_tags Let_def)
  qed
  then show ?thesis by (cases "next_node_loop b off depth") blast+
qed

text \<open>C32: A property whose length field is 0xFFFFFFF4 makes \<^verbatim>\<open>fdt_next_tag\<close> succeed without
  moving on: the length wraps the offset around to where it started, and the final bounds check
  is for no bytes. Walking the nodes from there does not return.\<close>
theorem next_node_hangs_on_length:
  assumes "fdt_layout b" "0 \<le> off" "off mod 4 = 0" "off + 12 \<le> fdt_size_dt_struct b"
    and "be32 b (fdt_off_dt_struct b + off) = FDT_PROP"
    and "be32 b (fdt_off_dt_struct b + off + 4) = 0xFFFFFFF4"
    and "fdt_check_node_offset b node = off" "0 \<le> node"
  shows "fdt_next_tag b off = (FDT_PROP, off) \<and> fdt_next_node b node depth = None"
proof -
  note small = layout_small [OF assms(1)]
  have ptr: "fdt_offset_ptr b off 4 = Some (fdt_off_dt_struct b + off)"
    "fdt_offset_ptr b (off + 4) 4 = Some (fdt_off_dt_struct b + off + 4)"
    "fdt_offset_ptr b off 0 \<noteq> None"
    using assms by (simp_all add: fdt_offset_ptr_ok add.assoc)
  have c: "c_int (off + 4) = off + 4"
    using assms small by (simp add: c_int_small)
  have "c_int (off + 4294967296) = off"
    using assms small mod_add_self1 [of "2 ^ 32" "2 ^ 31 + off"] by (simp add: c_int_def)
  then have wrap: "c_int (off + 4 + (12 - 4) + 0xFFFFFFF4) = off"
    by (simp add: add.assoc)
  have al: "c_int (FDT_TAGALIGN off) = off"
    using assms small by (simp add: FDT_TAGALIGN_self c_int_small)
  have tag: "fdt_next_tag b off = (FDT_PROP, off)"
    using assms(5,6) ptr al wrap by (simp add: fdt_next_tag_def c fdt_tags Let_def)
  then show ?thesis
    using assms by (simp add: fdt_next_node_def next_node_stuck)
qed

definition stuck_blob :: blob where
  "stuck_blob = put32 sample_blob (56 + 24) 0xFFFFFFF4"

theorem next_node_hangs_on_length_witness:
  "fdt_next_tag stuck_blob 20 = (FDT_PROP, 20) \<and> fdt_next_node stuck_blob 8 None = None"
  by (rule next_node_hangs_on_length) code_simp+

lemma alias_stuck:
  assumes "fdt_check_header b = 0" "name \<noteq> []" "0x2f \<notin> set name"
    and "fdt_get_alias_namelen b name = Some (Some p)" "c_strlen b p = Some (int (length name))"
    and "seg b p (length name) = name"
  shows "fdt_path_offset b name = None"
proof -
  have tw: "takeWhile (\<lambda>c. c \<noteq> 0x2f) name = name" "hd name \<noteq> 0x2f"
    using assms(2,3) by (cases name; auto simp: takeWhile_eq_all_conv)+
  have "fdt_path_offset b' path' = Some y \<Longrightarrow> b' = b \<Longrightarrow> path' = name \<Longrightarrow> False" for b' path' y
  proof (induction rule: fdt_path_offset.raw_induct [rotated, consumes 1, case_names step])
    case (step f b' path' y)
    then show ?case
      using assms tw by (auto simp: bind_eq_Some_conv)
  qed
  then show ?thesis by (cases "fdt_path_offset b name") blast+
qed

text \<open>C33: When the property of \<^verbatim>\<open>/aliases\<close> for a name is that name itself, \<^verbatim>\<open>fdt_path_offset\<close>
  calls itself with its own argument and does not return.\<close>
theorem path_offset_hangs_on_alias:
  assumes "fdt_holds b (flat t @ post)" "subtree (components (ascii ''/aliases'')) t = Some (Node n ps ks)"
    and "locate 0 (components (ascii ''/aliases'')) t \<noteq> None"
    and "map_of ps name = Some (name @ [0])" "name \<noteq> []" "0x2f \<notin> set name" "0 \<notin> set name"
  shows "fdt_path_offset b name = None"
proof -
  let ?al = "ascii ''/aliases''"
  obtain o' where o': "locate 0 (components ?al) t = Some o'"
    using assms(3) by blast
  from locate_flat [OF o'] assms(2) obtain pre post' where
    f: "flat t = pre @ flat (Node n ps ks) @ post'" "o' = toks_size pre" by auto
  have h: "fdt_holds b (pre @ flat (Node n ps ks) @ (post' @ post))"
    using assms(1) f by simp
  have off: "aliases_offset b = Some (toks_size pre)"
    using path_loop_holds [of b "[]" t post ?al] assms(1) o' f
    by (simp add: aliases_offset_def check_header_holds [OF assms(1)] ascii_def)
  obtain p where p: "fdt_getprop_namelen b (toks_size pre) name = Some (Some p, int (length (name @ [0 :: u8])))"
    "seg b p (length (name @ [0 :: u8])) = name @ [0]"
    by (rule getprop_tree [OF h assms(4)])
  have sg: "seg b p (length name + 1) = name @ [0]"
    using p(2) by simp
  show ?thesis
  proof (rule alias_stuck)
    show "fdt_get_alias_namelen b name = Some (Some p)"
      using p(1) toks_size_nonneg [of pre] by (simp add: fdt_get_alias_namelen_def off)
    show "c_strlen b p = Some (int (length name))"
      by (rule c_strlen_seg [OF sg assms(7)])
    show "seg b p (length name) = name"
      using seg_take [OF sg, of "length name"] by simp
  qed (use assms check_header_holds [OF assms(1)] in simp_all)
qed

definition self_alias_tree :: fdt_tree where
  "self_alias_tree = Node [] [] [Node (ascii ''aliases'') [(ascii ''a'', [97, 0])] []]"

definition self_alias_blob :: blob where
  "self_alias_blob = blob_of
     [208, 13, 254, 237, 0, 0, 0, 106, 0, 0, 0, 56, 0, 0, 0, 104, 0, 0, 0, 40, 0, 0, 0, 17,
      0, 0, 0, 16, 0, 0, 0, 0, 0, 0, 0, 2, 0, 0, 0, 48,
      0, 0, 0, 0, 0, 0, 0, 0, 0, 0, 0, 0, 0, 0, 0, 0,
      0, 0, 0, 1, 0, 0, 0, 0, 0, 0, 0, 1, 97, 108, 105, 97, 115, 101, 115, 0,
      0, 0, 0, 3, 0, 0, 0, 2, 0, 0, 0, 0, 97, 0, 0, 0, 0, 0, 0, 2, 0, 0, 0, 2, 0, 0, 0, 9,
      97, 0]"

theorem path_offset_hangs_on_alias_witness:
  "fdt_path_offset self_alias_blob (ascii ''a'') = None"
  by (rule path_offset_hangs_on_alias [of _ self_alias_tree "[T_END]" "ascii ''aliases''"
        "[(ascii ''a'', [97, 0])]" "[]"]) code_simp+

end
