(* ===== verification/FatDisk.thy ===== *)
theory FatDisk
  imports FatFsApi
begin

unbundle bit_operations_syntax

text \<open>
  The interface \<^verbatim>\<open>diskio.h\<close> between the file system and the disk wrappers, as a locale: \<open>up\<close>
  says that the disk object and the hardware below it are set up, \<open>vsectors\<close> how many sectors
  the volume has, \<open>img\<close> the bytes of each of them. Every block device gives it for a FAT
  partition. On it stands the reasoning about the file system functions: \<open>returns up m s Q\<close>
  says that from state \<open>s\<close>, on a disk that works, \<open>m\<close> returns with a result and a state in
  \<open>Q\<close>. A read outside the volume promises nothing, so each such statement also says that every
  access was inside.
\<close>

section \<open>Bytes of a sector\<close>

lemma length_octets_of [simp]: "length (octets_of ws) = 4 * length ws"
  by (induction ws) (simp_all add: octets_of_def le_bytes_def)

lemma octets_of_append [simp]: "octets_of (xs @ ys) = octets_of xs @ octets_of ys"
  by (simp add: octets_of_def)

lemma octets_of_concat: "octets_of (concat xss) = concat (map octets_of xss)"
  by (induction xss) (simp_all add: octets_of_def)

lemma nth_octets_of: "i < 4 * length ws \<Longrightarrow> octets_of ws ! i = MbrDisk.byte_at ws i"
proof (induction ws arbitrary: i)
  case (Cons w ws)
  show ?case
  proof (cases "i < 4")
    case True
    then consider "i = 0" | "i = 1" | "i = 2" | "i = 3" by linarith
    then show ?thesis
      by cases (simp_all add: octets_of_def le_bytes_def byte_at_def)
  next
    case False
    then have "octets_of (w # ws) ! i = octets_of ws ! (i - 4)"
      using nth_append [of "le_bytes w" "octets_of ws" i] by (simp add: octets_of_def length_le_bytes)
    also have "\<dots> = MbrDisk.byte_at ws (i - 4)"
      using Cons False by simp
    also have "\<dots> = MbrDisk.byte_at (w # ws) i"
    proof -
      obtain j where j: "i = j + 4" using False by (metis le_add_diff_inverse2 not_less)
      moreover have "(j + 4) div 4 = Suc (j div 4)" by simp
      ultimately show ?thesis by (simp only: byte_at_def) simp
    qed
    finally show ?thesis .
  qed
qed (simp add: octets_of_def)

section \<open>The interface\<close>

locale volume_disk =
  fixes up :: "'h mbr_disk \<Rightarrow> bus \<Rightarrow> bool"
    and dev :: "'h dev"
    and vsectors :: nat
    and img :: "u32 \<Rightarrow> u8 list"
  assumes img_length: "length (img s) = 512"
    and fetch_ok: "unat s + unat n \<le> vsectors \<Longrightarrow> unat n < 2 ^ 23 \<Longrightarrow>
      runs (up d) (disk_read dev 0 s n d)
        (\<lambda>(r, ws, d') b. r = RES_OK \<and> octets_of ws = concat (map (\<lambda>i. img (s + of_nat i)) [0..<unat n])
           \<and> up d' b)"
    and start_ok: "up d b \<Longrightarrow> disk_initialize 0 u d = (0, True)"

text \<open>A partition of a FAT type on a block device is such a volume.\<close>

definition partition_up ::
    "('h \<Rightarrow> bus \<Rightarrow> bool) \<Rightarrow> nat \<Rightarrow> MbrPartition \<Rightarrow> 'h mbr_disk \<Rightarrow> bus \<Rightarrow> bool" where
  "partition_up ready sectors p d b \<longleftrightarrow>
     ready (mmc d) b \<and> mbr_part (mbr d) ! 0 = p \<and> unat (part_start p) \<le> sectors
     \<and> part_typ p \<in> {MBR_FAT32_INT13, MBR_FAT16_INT13, MBR_FAT32, MBR_FAT16}"

definition partition_img :: "(u32 \<Rightarrow> u32 list) \<Rightarrow> MbrPartition \<Rightarrow> u32 \<Rightarrow> u8 list" where
  "partition_img content p = (\<lambda>s. octets_of (content (part_start p + s)))"

sublocale block_device \<subseteq> vol: volume_disk "partition_up ready sectors p" read_block
    "sectors - unat (part_start p)" "partition_img content p" for p
proof
  fix s n d u b
  show "length (partition_img content p s) = 512"
    by (simp add: partition_img_def content_length)
  show "disk_initialize 0 u d = (0, True)" if "partition_up ready sectors p d b"
    using that by (auto simp: disk_initialize_def partition_up_def get_partition_type_def Let_def)
  show "runs (partition_up ready sectors p d) (disk_read read_block 0 s n d)
        (\<lambda>(r, ws, d') b. r = RES_OK \<and>
           octets_of ws = concat (map (\<lambda>i. partition_img content p (s + of_nat i)) [0..<unat n])
           \<and> partition_up ready sectors p d' b)"
    if range: "unat s + unat n \<le> sectors - unat (part_start p)" "unat n < 2 ^ 23"
  proof (cases "mbr_part (mbr d) ! 0 = p \<and> unat (part_start p) \<le> sectors
      \<and> part_typ p \<in> {MBR_FAT32_INT13, MBR_FAT16_INT13, MBR_FAT32, MBR_FAT16}")
    case True
    then have nz: "part_typ p \<noteq> 0"
      by (auto simp: MBR_FAT32_INT13_def MBR_FAT16_INT13_def MBR_FAT32_def MBR_FAT16_def)
    have "unat (part_start p + s) \<le> unat (part_start p) + unat s"
      by (simp add: unat_word_ariths)
    then have inside: "unat (part_start p + s) + unat n \<le> sectors"
      using range True by linarith
    have "runs (partition_up ready sectors p d) (disk_read read_block 0 s n d)
      (\<lambda>(res, buff, dsk') b. res = RES_OK \<and>
         buff = concat (map (\<lambda>i. content (part_start p + s + of_nat i)) [0..<unat n]) \<and>
         mbr dsk' = mbr d \<and> ready (mmc dsk') b)"
      by (rule runs_pre [OF disk_read_ok [OF _ _ nz inside range(2)]])
        (use True in \<open>auto simp: partition_up_def\<close>)
    then show ?thesis
      by (rule runs_post) (use True in \<open>auto simp: partition_up_def partition_img_def octets_of_concat comp_def add.assoc\<close>)
  next
    case False
    then have "partition_up ready sectors p d = (\<lambda>_. False)"
      by (auto simp: partition_up_def fun_eq_iff)
    then show ?thesis by simp
  qed
qed

section \<open>Results on a working disk\<close>

definition returns ::
    "('h mbr_disk \<Rightarrow> bus \<Rightarrow> bool) \<Rightarrow> ('h, 'a) fat \<Rightarrow> 'h fat_sys \<Rightarrow> ('a \<Rightarrow> 'h fat_sys \<Rightarrow> bool) \<Rightarrow> bool" where
  "returns up m s Q \<longleftrightarrow> runs (up (dsk s)) (m s) (\<lambda>(x, t) b. Q x t \<and> up (dsk t) b)"

named_theorems return_intros "rules that execute file system actions"

lemma returns_fret [return_intros]: "Q x s \<Longrightarrow> returns up (fret x) s Q"
  by (simp add: returns_def fret_def runs_ret)

lemma returns_bind:
  assumes "returns up m s R" and "\<And>x t. R x t \<Longrightarrow> returns up (k x) t Q"
  shows "returns up (fbind m k) s Q"
  unfolding returns_def fbind_def
  apply (rule runs_bind [OF assms(1) [unfolded returns_def]])
  subgoal for x
    by (cases x) (auto intro!: runs_conj dest!: assms(2) simp: returns_def)
  done

lemma returns_get [return_intros]: "Q (f s) s \<Longrightarrow> returns up (fget f) s Q"
  by (simp add: returns_def fget_def runs_ret)

lemma returns_get_bind [return_intros]: "returns up (k (f s)) s Q \<Longrightarrow> returns up (fbind (fget f) k) s Q"
  by (rule returns_bind [where R = "\<lambda>x t. x = f s \<and> t = s"]) (auto intro: returns_get)

lemma returns_ret_bind [return_intros]: "returns up (k x) s Q \<Longrightarrow> returns up (fbind (fret x) k) s Q"
  by (rule returns_bind [where R = "\<lambda>y t. y = x \<and> t = s"]) (auto intro: returns_fret)

lemma returns_put_bind [return_intros]:
  assumes "\<And>s. dsk (f s) = dsk s" and "returns up (k ()) (f s) Q"
  shows "returns up (fbind (fput f) k) s Q"
proof (rule returns_bind [where R = "\<lambda>_ t. t = f s"])
  show "returns up (fput f) s (\<lambda>_ t. t = f s)"
    by (simp add: returns_def fput_def assms(1) runs_ret)
qed (use assms(2) in simp)

lemma returns_weaken: "returns up m s R \<Longrightarrow> (\<And>x t. R x t \<Longrightarrow> Q x t) \<Longrightarrow> returns up m s Q"
  unfolding returns_def by (erule runs_post) auto

lemma dsk_upd_fs [simp]: "dsk (upd_fs a f s) = dsk s"
  by (simp add: upd_fs_def)

lemma fs_at_upd_fs [simp]: "fs_at (upd_fs a f s) a = f (fs_at s a)"
  by (simp add: upd_fs_def)

lemma FatFs_upd_fs [simp]: "FatFs (upd_fs a f s) = FatFs s" "Fsid (upd_fs a f s) = Fsid s"
  by (simp_all add: upd_fs_def)

context volume_disk begin

lemma disk_start_ok: "returns up (disk_start 0) s (\<lambda>stat t. stat = 0 \<and> t = s\<lparr>disk_up := True\<rparr>)"
  unfolding returns_def disk_start_def runs_def ret_def Let_def
  using start_ok [of "dsk s" _ "disk_up s"] by (auto split: prod.splits)

lemma disk_stat_ok: "returns up (disk_stat 0) s (\<lambda>stat t. stat = 0 \<and> t = s\<lparr>disk_up := True\<rparr>)"
  unfolding returns_def disk_stat_def disk_status_def runs_def ret_def Let_def
  using start_ok [of "dsk s" _ "disk_up s"] by (auto split: prod.splits)

lemma disk_fetch_ok:
  assumes "unat sector + unat n \<le> vsectors" and "unat n < 2 ^ 23"
  shows "returns up (disk_fetch dev 0 sector n) s (\<lambda>(r, data) t. r = RES_OK
    \<and> data = concat (map (\<lambda>i. img (sector + of_nat i)) [0..<unat n]) \<and> (\<exists>d. t = s\<lparr>dsk := d\<rparr>))"
  unfolding returns_def disk_fetch_def
  apply (rule runs_bind [OF fetch_ok [OF assms]])
  subgoal for x
    by (cases x) (auto intro!: runs_conj runs_ret)
  done

lemma disk_fetch_one:
  assumes "unat sector < vsectors"
  shows "returns up (disk_fetch dev 0 sector 1) s (\<lambda>(r, data) t. r = RES_OK \<and> data = img sector
    \<and> (\<exists>d. t = s\<lparr>dsk := d\<rparr>))"
  by (rule returns_weaken [OF disk_fetch_ok]) (use assms in auto)

end

end
