(* ===== verification/FatVolume.thy ===== *)
theory FatVolume
  imports FatDisk
begin

unbundle bit_operations_syntax

text \<open>
  A mounted volume and its allocation table. \<open>layout n V\<close> are the relations between the fields
  of a volume that mounting establishes, on \<open>n\<close> sectors; \<open>mounted\<close> is the invariant of the
  module: the volume's fields stay as mounted, and the window is invalid or holds the sector it
  names. \<open>fat_entry\<close> is the table as an array of entries.
\<close>

section \<open>The volume\<close>

definition cs :: "FATFS \<Rightarrow> nat" where
  "cs V = unat (csize V)"

text \<open>The bytes that the entries of all clusters take.\<close>

definition fat_need :: "FATFS \<Rightarrow> nat" where
  "fat_need V = (let n = unat (n_fatent V) in
     if fs_type V = FS_FAT32 then n * 4 else if fs_type V = FS_FAT16 then n * 2 else n * 3 div 2 + n mod 2)"

definition layout :: "nat \<Rightarrow> FATFS \<Rightarrow> bool" where
  "layout n V \<longleftrightarrow>
     fs_drv V = 0 \<and> (fs_type V = FS_FAT12 \<or> fs_type V = FS_FAT16 \<or> fs_type V = FS_FAT32)
     \<and> csize V \<in> {1, 2, 4, 8, 16, 32, 64, 128} \<and> 2 < unat (n_fatent V)
     \<and> (fs_type V = FS_FAT12 \<longrightarrow> unat (n_fatent V) \<le> 4087)
     \<and> fat_need V \<le> 512 * unat (fsize V) \<and> 0 < unat (fatbase V)
     \<and> unat (fatbase V) + unat (fsize V) \<le> unat (database V)
     \<and> unat (database V) + (unat (n_fatent V) - 2) * cs V \<le> n \<and> n < 2 ^ 32
     \<and> (if fs_type V = FS_FAT32 then n_rootdir V = 0
        else unat (dirbase V) + unat (n_rootdir V) div 16 \<le> unat (database V)
          \<and> 0 < unat (n_rootdir V) \<and> unat (n_rootdir V) mod 16 = 0 \<and> 0 < unat (dirbase V))"

lemma layoutD:
  assumes "layout n V"
  shows "fs_drv V = 0" "fs_type V = FS_FAT12 \<or> fs_type V = FS_FAT16 \<or> fs_type V = FS_FAT32"
    "2 < unat (n_fatent V)" "fat_need V \<le> 512 * unat (fsize V)" "0 < unat (fatbase V)"
    "unat (fatbase V) + unat (fsize V) \<le> unat (database V)"
    "unat (database V) + (unat (n_fatent V) - 2) * cs V \<le> n" "n < 2 ^ 32"
    "csize V \<in> {1, 2, 4, 8, 16, 32, 64, 128}" "fs_type V = FS_FAT12 \<Longrightarrow> unat (n_fatent V) \<le> 4087"
  using assms unfolding layout_def by blast+

definition mounted :: "nat \<Rightarrow> (u32 \<Rightarrow> u8 list) \<Rightarrow> FATFS \<Rightarrow> nat \<Rightarrow> 'h fat_sys \<Rightarrow> bool" where
  "mounted n img V a s \<longleftrightarrow> a \<noteq> 0 \<and> FatFs s = [a] \<and> layout n V
     \<and> (\<exists>k w. fs_at s a = V\<lparr>winsect := k, win := w\<rparr> \<and> (k = 0xFFFFFFFF \<or> w = img k))"

lemma mounted_simps:
  assumes "mounted n img V a s"
  shows "layout n V" "fs_type (fs_at s a) = fs_type V" "fs_drv (fs_at s a) = 0" "fs_id (fs_at s a) = fs_id V"
    "n_rootdir (fs_at s a) = n_rootdir V" "csize (fs_at s a) = csize V" "n_fatent (fs_at s a) = n_fatent V"
    "fatbase (fs_at s a) = fatbase V" "dirbase (fs_at s a) = dirbase V" "database (fs_at s a) = database V"
    "clust2sect (fs_at s a) c = clust2sect V c" "ld_clust (fs_at s a) p i = ld_clust V p i"
    "a \<noteq> 0" "FatFs s ! 0 = a"
proof -
  obtain k w where f: "fs_at s a = V\<lparr>winsect := k, win := w\<rparr>" and l: "layout n V"
    using assms by (auto simp: mounted_def)
  show "layout n V" "fs_type (fs_at s a) = fs_type V" "fs_drv (fs_at s a) = 0" "fs_id (fs_at s a) = fs_id V"
    "n_rootdir (fs_at s a) = n_rootdir V" "csize (fs_at s a) = csize V" "n_fatent (fs_at s a) = n_fatent V"
    "fatbase (fs_at s a) = fatbase V" "dirbase (fs_at s a) = dirbase V" "database (fs_at s a) = database V"
    "clust2sect (fs_at s a) c = clust2sect V c" "ld_clust (fs_at s a) p i = ld_clust V p i"
    using l layoutD(1) [OF l] by (simp_all add: f clust2sect_def ld_clust_def Let_def)
  show "a \<noteq> 0" "FatFs s ! 0 = a"
    using assms by (simp_all add: mounted_def)
qed

lemma mounted_dsk [simp]: "mounted n img V a (s\<lparr>dsk := d\<rparr>) = mounted n img V a s"
  "mounted n img V a (s\<lparr>disk_up := u\<rparr>) = mounted n img V a s"
  by (simp_all add: mounted_def)

lemma mounted_type: "mounted n img V a s \<Longrightarrow> fs_type (fs_at s a) \<noteq> 0"
  using layoutD(2) [of n V] mounted_simps(1,2) [of n img V a s]
  by (auto simp: FS_FAT12_def FS_FAT16_def FS_FAT32_def)

lemma mounted_window:
  assumes "mounted n img V a s"
  shows "mounted n img V a (upd_fs a (\<lambda>fs. fs\<lparr>win := img k, winsect := k\<rparr>) s)"
proof -
  obtain j w where "fs_at s a = V\<lparr>winsect := j, win := w\<rparr>"
    using assms by (auto simp: mounted_def)
  then have "fs_at (upd_fs a (\<lambda>fs. fs\<lparr>win := img k, winsect := k\<rparr>) s) a = V\<lparr>winsect := k, win := img k\<rparr>"
    by simp
  then show ?thesis
    using assms unfolding mounted_def FatFs_upd_fs by blast
qed

lemma csize_pow:
  assumes "layout n V"
  obtains k where "k < 8" "csize V = 2 ^ k" "cs V = 2 ^ k"
proof -
  have "csize V \<in> {1, 2, 4, 8, 16, 32, 64, 128}"
    using assms by (rule layoutD)
  then show ?thesis
    using that [of 0] that [of 1] that [of 2] that [of 3] that [of 4] that [of 5] that [of 6] that [of 7]
    by (auto simp: cs_def)
qed

lemma cs_pos: "layout n V \<Longrightarrow> 0 < cs V"
  by (rule csize_pow [of n V]) auto

lemma cs_le: "layout n V \<Longrightarrow> cs V \<le> 128"
proof (erule csize_pow)
  fix k assume "k < 8" "cs V = 2 ^ k"
  then show "cs V \<le> 128"
    using power_increasing [of k 7 "2 :: nat"] by simp
qed

lemma csize_32: "layout n V \<Longrightarrow> ucast (csize V) = (of_nat (cs V) :: u32)"
  by (simp add: cs_def)

text \<open>The source takes the sector in the cluster with a mask.\<close>

lemma sector_in_cluster:
  assumes "layout n V"
  shows "unat ((x :: u32) AND (ucast (csize V) - 1)) = unat x mod cs V"
proof -
  obtain k where k: "k < 8" "csize V = 2 ^ k" "cs V = 2 ^ k"
    by (rule csize_pow [OF assms])
  have "(ucast (csize V) :: u32) = 2 ^ k"
    by (simp only: csize_32 [OF assms] k(3) of_nat_power of_nat_numeral)
  then have "x AND (ucast (csize V) - 1) = take_bit k x"
    by (simp add: take_bit_eq_mask mask_eq_exp_minus_1)
  then have "unat (x AND (ucast (csize V) - 1)) = take_bit k (unat x)"
    by (simp only: unsigned_take_bit_eq)
  then show ?thesis
    using k by (simp only: take_bit_eq_mod)
qed

section \<open>Areas of bytes and the allocation table\<close>

definition area :: "(u32 \<Rightarrow> u8 list) \<Rightarrow> u32 \<Rightarrow> nat \<Rightarrow> u8" where
  "area img base i = img (base + of_nat (i div 512)) ! (i mod 512)"

definition fat_entry :: "(u32 \<Rightarrow> u8 list) \<Rightarrow> FATFS \<Rightarrow> u32 \<Rightarrow> u32" where
  "fat_entry img V c = (let B = (\<lambda>i. unat (area img (fatbase V) i)); k = unat c in
     of_nat (if fs_type V = FS_FAT12
             then let w = B (k + k div 2) + 256 * B (k + k div 2 + 1)
                  in if odd k then w div 16 else w mod 4096
             else if fs_type V = FS_FAT16 then B (2 * k) + 256 * B (2 * k + 1)
             else (B (4 * k) + 256 * B (4 * k + 1) + 65536 * B (4 * k + 2) + 16777216 * B (4 * k + 3))
                  mod 268435456))"

definition cluster_ok :: "FATFS \<Rightarrow> u32 \<Rightarrow> bool" where
  "cluster_ok V c \<longleftrightarrow> 2 \<le> c \<and> c < n_fatent V"

lemma cluster_okD:
  assumes "cluster_ok V c"
  shows "unat c < unat (n_fatent V)" "2 \<le> unat c" "(c < 2 \<or> n_fatent V \<le> c) = False"
  using assms by (auto simp: cluster_ok_def word_less_nat_alt word_le_nat_alt)

definition cluster_base :: "FATFS \<Rightarrow> u32 \<Rightarrow> nat" where
  "cluster_base V c = unat (database V) + (unat c - 2) * cs V"

lemma cluster_base_bound:
  assumes "layout n V" and "cluster_ok V c" and "j < cs V"
  shows "cluster_base V c + j < n" "0 < cluster_base V c"
proof -
  have "(unat c - 2) * cs V + cs V \<le> (unat (n_fatent V) - 2) * cs V"
  proof -
    have "2 \<le> unat c" "unat c < unat (n_fatent V)"
      using assms(2) by (simp_all add: cluster_ok_def word_less_nat_alt word_le_nat_alt)
    then have "unat c - 2 + 1 \<le> unat (n_fatent V) - 2" by linarith
    then have "(unat c - 2 + 1) * cs V \<le> (unat (n_fatent V) - 2) * cs V"
      by (rule mult_right_mono) simp
    then show ?thesis by simp
  qed
  then show "cluster_base V c + j < n"
    using assms(3) layoutD(7) [OF assms(1)] by (simp add: cluster_base_def)
  show "0 < cluster_base V c"
    using layoutD(5,6) [OF assms(1)] by (simp add: cluster_base_def)
qed

lemma clust2sect_ok:
  assumes "layout n V" and "cluster_ok V c"
  shows "unat (clust2sect V c) = cluster_base V c" "clust2sect V c \<noteq> 0"
proof -
  have b: "cluster_base V c < n" "0 < cluster_base V c" "n < 2 ^ 32"
    using cluster_base_bound [OF assms, of 0] cs_pos [OF assms(1)] layoutD(8) [OF assms(1)] by auto
  have c: "unat (c - 2) = unat c - 2"
    using assms(2) by (simp add: cluster_ok_def unat_sub)
  have "\<not> n_fatent V - 2 \<le> c - 2"
  proof -
    have "unat (n_fatent V - 2) = unat (n_fatent V) - 2"
      using layoutD(3) [OF assms(1)] by (simp add: unat_sub word_le_nat_alt)
    then show ?thesis
      using assms(2) c by (auto simp: cluster_ok_def word_le_nat_alt word_less_nat_alt)
  qed
  then have sect: "clust2sect V c = (c - 2) * ucast (csize V) + database V"
    by (simp add: clust2sect_def Let_def)
  have base: "cluster_base V c = unat (c - 2) * unat (csize V) + unat (database V)"
    by (simp add: cluster_base_def c cs_def)
  show "unat (clust2sect V c) = cluster_base V c"
    using b(1,3) unfolding sect base
    by (simp add: unat_word_ariths unat_ucast_up)
  with b(2) show "clust2sect V c \<noteq> 0" by auto
qed

lemma clust2sect_bad:
  assumes "layout n V" and "\<not> cluster_ok V c"
  shows "clust2sect V c = 0"
proof -
  have n: "2 < unat (n_fatent V)"
    using assms(1) by (rule layoutD)
  have "n_fatent V - 2 \<le> c - 2"
  proof (cases "2 \<le> c")
    case True
    then have "n_fatent V \<le> c" using assms(2) by (simp add: cluster_ok_def)
    then show ?thesis
      using True n by (simp add: word_le_nat_alt unat_sub)
  next
    case False
    then have "unat c = unat (0 :: u32) \<or> unat c = unat (1 :: u32)"
      by (auto simp: word_le_nat_alt)
    then have "c = 0 \<or> c = 1"
      by (simp only: unsigned_word_eqI word_unat_eq_iff)
    then show ?thesis
    proof
      assume "c = 0"
      then have "unat (c - 2) = 2 ^ 32 - 2" by simp
      then show ?thesis
        using n unsigned_less [of "n_fatent V", where ?'a = nat] by (simp add: word_le_nat_alt unat_sub)
    next
      assume "c = 1"
      moreover have "unat (1 - 2 :: u32) = 2 ^ 32 - 1" unfolding unat_sub_if' by simp
      ultimately have "unat (c - 2) = 2 ^ 32 - 1" by (simp only:)
      then show ?thesis
        using n unsigned_less [of "n_fatent V", where ?'a = nat] by (simp add: word_le_nat_alt unat_sub)
    qed
  qed
  then show ?thesis by (simp add: clust2sect_def)
qed

section \<open>Reading the allocation table\<close>

lemma ld_word_sum: "unat (ld_word p i) = unat (p ! i) + 256 * unat (p ! (i + 1))"
proof -
  have "ld_word p i = of_nat (unat (p ! i) + 256 * unat (p ! (i + 1)))"
  proof -
    have disj: "push_bit 8 (ucast (p ! (i + 1)) :: u16) AND ucast (p ! i) = 0"
      by (rule bit_word_eqI) (auto simp: bit_simps dest: bit_imp_le_length)
    have "ld_word p i = push_bit 8 (ucast (p ! (i + 1))) + ucast (p ! i)"
      unfolding ld_word_def by (rule disjunctive_add_eq_or [OF disj, symmetric])
    then show ?thesis
      by (simp add: push_bit_eq_mult)
  qed
  moreover have "unat (p ! i) + 256 * unat (p ! (i + 1)) < 2 ^ LENGTH(16)"
    using unsigned_less [of "p ! i", where ?'a = nat] unsigned_less [of "p ! (i + 1)", where ?'a = nat] by simp
  ultimately show ?thesis
    by (simp only: unat_of_nat_small)
qed

lemma push_8_or:
  assumes "LENGTH('a) \<ge> 8" and "unat (x :: 'a::len word) < 2 ^ (LENGTH('a) - 8)"
  shows "unat (push_bit 8 x OR ucast (y :: u8)) = 256 * unat x + unat y"
proof -
  have disj: "push_bit 8 x AND ucast y = 0"
    by (rule bit_word_eqI) (auto simp: bit_simps dest: bit_imp_le_length)
  have "(2 :: nat) ^ LENGTH('a) = 2 ^ (LENGTH('a) - 8) * 256"
    using power_add [of "2 :: nat" "LENGTH('a) - 8" 8] assms(1) by simp
  then have lim: "256 * unat x + unat y < 2 ^ LENGTH('a)"
    using assms(2) unsigned_less [of y, where ?'a = nat] by simp
  have "push_bit 8 x OR ucast y = push_bit 8 x + ucast y"
    by (rule disjunctive_add_eq_or [OF disj, symmetric])
  also have "\<dots> = of_nat (256 * unat x + unat y)"
    by (simp add: push_bit_eq_mult)
  finally show ?thesis
    by (simp only: unat_of_nat_small [OF lim])
qed

lemma join_bytes:
  "unat (push_bit 8 (push_bit 8 (push_bit 8 (ucast (b3 :: u8)) OR ucast (b2 :: u8)) OR ucast (b1 :: u8))
      OR ucast (b0 :: u8) :: u32)
   = unat b0 + 256 * unat b1 + 65536 * unat b2 + 16777216 * unat b3"
proof -
  have b: "unat (x :: u8) < 256" for x
    using unsigned_less [of x, where ?'a = nat] by simp
  have x3: "unat (ucast b3 :: u32) = unat b3"
    by (simp add: unat_ucast_up)
  have x2: "unat (push_bit 8 (ucast b3) OR ucast b2 :: u32) = 256 * unat b3 + unat b2"
    using b [of b3] by (subst push_8_or) (simp_all add: x3)
  have x1: "unat (push_bit 8 (push_bit 8 (ucast b3) OR ucast b2) OR ucast b1 :: u32)
      = 256 * (256 * unat b3 + unat b2) + unat b1"
    using b [of b3] b [of b2] by (subst push_8_or) (simp_all add: x2)
  have "unat (push_bit 8 (ucast b3) OR ucast b2 :: u32) < 2 ^ 16"
    using b [of b3] b [of b2] by (simp only: x2) simp
  have small: "unat (push_bit 8 (push_bit 8 (ucast b3) OR ucast b2) OR ucast b1 :: u32) < 2 ^ (LENGTH(32) - 8)"
    using b [of b3] b [of b2] b [of b1] by (simp only: x1) simp
  have "8 \<le> LENGTH(32)" by simp
  from push_8_or [OF this small, of b0] show ?thesis
    by (simp only: x1) (simp add: algebra_simps)
qed

lemma ld_dword_sum:
  "unat (ld_dword p i) = unat (p ! i) + 256 * unat (p ! (i + 1)) + 65536 * unat (p ! (i + 2))
     + 16777216 * unat (p ! (i + 3))"
  unfolding ld_dword_def by (rule join_bytes)

lemma fat_sector:
  assumes l: "layout n V" and i: "i < fat_need V"
  shows "unat (fatbase V + of_nat (i div 512)) < n"
proof -
  have "i div 512 < unat (fsize V)"
    using i layoutD(4) [OF l] by (simp add: less_mult_imp_div_less mult.commute)
  moreover have "unat (fatbase V + of_nat (i div 512)) \<le> unat (fatbase V) + i div 512"
    by (simp add: unat_word_ariths unat_of_nat)
  ultimately show ?thesis
    using layoutD(6,7) [OF l] by linarith
qed

lemma word_div_of_nat: "(c :: u32) div of_nat (512 div k) = of_nat (k * unat c div 512)"
  if "k dvd 512" "0 < k"
proof -
  have "512 div k < 2 ^ 32"
    by (rule le_less_trans [OF div_le_dividend]) simp
  then have "unat (of_nat (512 div k) :: u32) = 512 div k"
    by (simp add: unat_of_nat)
  moreover have "k * unat c div 512 = unat c div (512 div k)"
    using that by (metis div_mult_mult1 dvd_div_mult_self mult.commute not_less0)
  ultimately have "unat (c div of_nat (512 div k)) = k * unat c div 512"
    by (simp add: unat_div)
  then show ?thesis
    by (metis of_nat_unat ucast_id)
qed

lemma same_block:
  assumes "k dvd 512" and "m < (k :: nat)"
  shows "(k * j + m) div 512 = k * j div 512" "(k * j + m) mod 512 = k * j mod 512 + m"
proof -
  obtain q where q: "512 = k * q" using assms(1) by (elim dvdE)
  show d: "(k * j + m) div 512 = k * j div 512"
    using assms(2) by (simp add: q div_mult2_eq)
  have "(k * j + m) mod 512 + 512 * ((k * j + m) div 512) = k * j mod 512 + 512 * (k * j div 512) + m"
    by simp
  then show "(k * j + m) mod 512 = k * j mod 512 + m"
    unfolding d by linarith
qed

lemma fat_types [simp]:
  "FS_FAT12 \<noteq> FS_FAT16" "FS_FAT12 \<noteq> FS_FAT32" "FS_FAT16 \<noteq> FS_FAT32"
  "FS_FAT16 \<noteq> FS_FAT12" "FS_FAT32 \<noteq> FS_FAT12" "FS_FAT32 \<noteq> FS_FAT16"
  by (simp_all add: FS_FAT12_def FS_FAT16_def FS_FAT32_def)

lemma word_of_unat: "unat (w :: u32) = k \<Longrightarrow> w = of_nat k"
  by (metis of_nat_unat ucast_id)

lemma low_12_bits: "(w :: u32) AND 0xFFF = of_nat (unat w mod 4096)"
proof (rule word_of_unat)
  have "w AND 0xFFF = take_bit 12 w"
    by (simp add: take_bit_eq_mask mask_eq_exp_minus_1)
  then have "unat (w AND 0xFFF) = take_bit 12 (unat w)"
    by (simp only: unsigned_take_bit_eq)
  then show "unat (w AND 0xFFF) = unat w mod 4096"
    by (simp add: take_bit_eq_mod)
qed

lemma fat12_fits: "k + 1 \<le> n \<Longrightarrow> k + k div 2 + 1 < n * 3 div 2 + n mod (2 :: nat)"
proof -
  assume le: "k + 1 \<le> n"
  consider a b where "k = 2 * a" "n = 2 * b" | a b where "k = 2 * a" "n = 2 * b + 1"
    | a b where "k = 2 * a + 1" "n = 2 * b" | a b where "k = 2 * a + 1" "n = 2 * b + 1"
    by (metis evenE oddE)
  then show ?thesis
  proof cases
    case (2 a b)
    have "(2 * b + 1) * 3 div 2 = 3 * b + 1" by simp
    with 2 le show ?thesis by simp
  next
    case (4 a b)
    have "(2 * b + 1) * 3 div 2 = 3 * b + 1" by simp
    with 4 le show ?thesis by simp
  qed (use le in simp_all)
qed

context volume_disk begin

lemma move_window_ok:
  assumes m: "mounted vsectors img V a s" and k: "unat k < vsectors"
  shows "returns up (move_window dev a k) s (\<lambda>r t. r = FR_OK \<and> mounted vsectors img V a t \<and> win_of a t = img k)"
proof (cases "k = winsect (fs_at s a)")
  case False
  show ?thesis
    unfolding move_window_def
    apply (rule returns_get_bind)
    apply (simp only: False mounted_simps(3) [OF m] not_False_eq_True if_True)
    apply (rule returns_bind [OF disk_fetch_one [OF k]])
    using m by (auto intro!: return_intros mounted_window simp: win_of_def)
next
  case True
  obtain j w where w: "fs_at s a = V\<lparr>winsect := j, win := w\<rparr>" "j = 0xFFFFFFFF \<or> w = img j"
    and l: "layout vsectors V"
    using m by (auto simp: mounted_def)
  have "k \<noteq> 0xFFFFFFFF"
    using k layoutD(8) [OF l] by auto
  then have "win_of a s = img k"
    using w True by (auto simp: win_of_def)
  then show ?thesis
    unfolding move_window_def using True m by (auto intro!: return_intros)
qed

lemma get_fat_bad:
  assumes m: "mounted vsectors img V a s" and a: "obj_fs obj = a" and c: "\<not> cluster_ok V c"
  shows "returns up (get_fat dev obj c) s (\<lambda>v t. v = 1 \<and> t = s)"
  unfolding get_fat_def Let_def a
  using c by (auto intro!: return_intros simp: mounted_simps [OF m] cluster_ok_def not_le not_less)

lemma area_window:
  assumes "mounted vsectors img V a s" and "i < fat_need V" and "k = fatbase V + of_nat (i div 512)"
  shows "returns up (move_window dev a k) s (\<lambda>r t. r = FR_OK \<and> mounted vsectors img V a t
    \<and> win_of a t = img (fatbase V + of_nat (i div 512)))"
  unfolding assms(3)
  by (rule move_window_ok [OF assms(1) fat_sector [OF mounted_simps(1) [OF assms(1)] assms(2)]])

lemma get_fat16:
  assumes m: "mounted vsectors img V a s" and a: "obj_fs obj = a" and c: "cluster_ok V c"
    and ty: "fs_type V = FS_FAT16"
  shows "returns up (get_fat dev obj c) s (\<lambda>v t. v = fat_entry img V c \<and> mounted vsectors img V a t)"
proof -
  let ?i = "2 * unat c"
  have i: "?i < fat_need V" and range: "(c < 2 \<or> n_fatent V \<le> c) = False"
    using cluster_okD [OF c] by (simp_all add: fat_need_def ty Let_def)
  have sect: "fatbase V + c div 256 = fatbase V + of_nat (?i div 512)"
    using word_div_of_nat [of 2 c] by simp
  have ofs: "unat (c * 2 mod 512) = ?i mod 512"
    by (simp add: unat_mod unat_word_ariths mult.commute mod_mod_cancel)
  have nx: "?i mod 512 + 1 = (?i + 1) mod 512" "(?i + 1) div 512 = ?i div 512"
    using same_block [of 2 1 "unat c"] by simp_all
  have val: "ucast (ld_word w (unat (c * 2 mod 512))) = fat_entry img V c"
    if "w = img (fatbase V + of_nat (?i div 512))" for w
  proof -
    have "ucast (ld_word w (?i mod 512)) = (of_nat (unat (ld_word w (?i mod 512))) :: u32)"
      by simp
    then show ?thesis
      unfolding ofs ld_word_sum that
      using nx by (simp add: fat_entry_def ty Let_def area_def)
  qed
  show ?thesis
    unfolding get_fat_def Let_def a
    apply (rule returns_get_bind)
    apply (simp only: mounted_simps [OF m] ty range fat_types if_True if_False simp_thms)
    apply (rule returns_bind [OF area_window [OF m i sect]])
    by (auto intro!: return_intros val)
qed

lemma get_fat32:
  assumes m: "mounted vsectors img V a s" and a: "obj_fs obj = a" and c: "cluster_ok V c"
    and ty: "fs_type V = FS_FAT32"
  shows "returns up (get_fat dev obj c) s (\<lambda>v t. v = fat_entry img V c \<and> mounted vsectors img V a t)"
proof -
  let ?i = "4 * unat c"
  have i: "?i < fat_need V" and range: "(c < 2 \<or> n_fatent V \<le> c) = False"
    using cluster_okD [OF c] by (simp_all add: fat_need_def ty Let_def)
  have sect: "fatbase V + c div 128 = fatbase V + of_nat (?i div 512)"
    using word_div_of_nat [of 4 c] by simp
  have ofs: "unat (c * 4 mod 512) = ?i mod 512"
    by (simp add: unat_mod unat_word_ariths mult.commute mod_mod_cancel)
  have nx: "?i mod 512 + j = (?i + j) mod 512" "?i div 512 = (?i + j) div 512" if "j < 4" for j
    using same_block [of 4 j "unat c"] that by simp_all
  have val: "ld_dword w (unat (c * 4 mod 512)) AND 0x0FFFFFFF = fat_entry img V c"
    if "w = img (fatbase V + of_nat (?i div 512))" for w
  proof -
    have b: "w ! (?i mod 512 + j) = area img (fatbase V) (?i + j)" if "j < 4" for j
      unfolding area_def \<open>w = _\<close> using nx [OF that] by simp
    have "ld_dword w (?i mod 512) AND 0x0FFFFFFF = take_bit 28 (ld_dword w (?i mod 512))"
      by (simp add: take_bit_eq_mask mask_eq_exp_minus_1)
    also have "\<dots> = of_nat (unat (ld_dword w (?i mod 512)) mod 2 ^ 28)"
      by (metis of_nat_unat ucast_id unsigned_take_bit_eq take_bit_eq_mod)
    finally show ?thesis
      unfolding ofs ld_dword_sum using b [of 0] b [of 1] b [of 2] b [of 3]
      by (simp add: fat_entry_def ty Let_def)
  qed
  show ?thesis
    unfolding get_fat_def Let_def a
    apply (rule returns_get_bind)
    apply (simp only: mounted_simps [OF m] ty range fat_types if_True if_False simp_thms)
    apply (rule returns_bind [OF area_window [OF m i sect]])
    by (auto intro!: return_intros val)
qed

lemma get_fat12:
  assumes m: "mounted vsectors img V a s" and a: "obj_fs obj = a" and c: "cluster_ok V c"
    and ty: "fs_type V = FS_FAT12"
  shows "returns up (get_fat dev obj c) s (\<lambda>v t. v = fat_entry img V c \<and> mounted vsectors img V a t)"
proof -
  let ?k = "unat c"
  let ?i = "?k + ?k div 2"
  let ?B = "area img (fatbase V)"
  let ?bc = "c + c div 2"
  have n: "unat (n_fatent V) \<le> 4087"
    by (rule layoutD(10) [OF mounted_simps(1) [OF m] ty])
  have range: "(c < 2 \<or> n_fatent V \<le> c) = False"
    by (rule cluster_okD(3) [OF c])
  have i: "?i + 1 < fat_need V"
  proof -
    have "?k + 1 \<le> unat (n_fatent V)" using cluster_okD(1) [OF c] by simp
    then have "?i + 1 < unat (n_fatent V) * 3 div 2 + unat (n_fatent V) mod 2"
      by (rule fat12_fits)
    then show ?thesis by (simp add: fat_need_def ty Let_def)
  qed
  have bc: "unat ?bc = ?i" "unat (?bc + 1) = ?i + 1"
    using cluster_okD(1) [OF c] n by (simp_all add: unat_word_ariths unat_div)
  have word: "w div 512 = of_nat (unat w div 512)" "unat (w mod 512) = unat w mod 512" for w :: u32
    using word_div_of_nat [of 1 w] by (simp_all add: unat_mod)
  have sect: "fatbase V + ?bc div 512 = fatbase V + of_nat (?i div 512)"
    "fatbase V + (?bc + 1) div 512 = fatbase V + of_nat ((?i + 1) div 512)"
    by (simp_all only: word bc)
  have i': "?i < fat_need V" using i by simp
  let ?wc = "ucast (?B ?i) OR push_bit 8 (ucast (?B (?i + 1))) :: u32"
  have wc: "unat ?wc = unat (?B ?i) + 256 * unat (?B (?i + 1))"
  proof -
    have "unat (ucast (?B (?i + 1)) :: u32) < 2 ^ (LENGTH(32) - 8)"
      using unsigned_less [of "?B (?i + 1)", where ?'a = nat] by (simp add: unat_ucast_up)
    from push_8_or [OF _ this, of "?B ?i"] show ?thesis
      by (simp add: or.commute unat_ucast_up)
  qed
  have odd: "c AND 1 \<noteq> 0 \<longleftrightarrow> odd ?k"
  proof -
    have "c AND 1 \<noteq> 0 \<longleftrightarrow> odd c" by (simp add: and_one_eq odd_iff_mod_2_eq_one)
    also have "\<dots> \<longleftrightarrow> bit ?k 0" by (simp add: bit_0 [symmetric] bit_simps)
    finally show ?thesis by (simp add: bit_0)
  qed
  have mask: "?wc AND 0xFFF = of_nat (unat ?wc mod 4096)"
    by (rule low_12_bits)
  have shift: "drop_bit 4 ?wc = of_nat (unat ?wc div 16)"
    using unat_drop_bit_div [of 4 ?wc] by (intro word_of_unat) simp
  have val: "(if c AND 1 \<noteq> 0 then drop_bit 4 ?wc else ?wc AND 0xFFF) = fat_entry img V c"
    unfolding odd mask shift wc by (simp add: fat_entry_def ty Let_def)
  show ?thesis
    unfolding get_fat_def Let_def a
    apply (rule returns_get_bind)
    apply (simp only: mounted_simps [OF m] ty range fat_types if_True if_False simp_thms)
    apply (rule returns_bind [OF area_window [OF m i' sect(1)]])
    apply (simp only: simp_thms if_False)
    apply (intro returns_get_bind)
    apply (rule returns_bind [OF area_window [OF _ i sect(2)]], blast)
    apply (simp only: simp_thms if_False)
    apply (intro return_intros)
    by (elim conjE) (simp only: word bc area_def [symmetric] val simp_thms)
qed

text \<open>On a volume every entry is read as it stands in the table.\<close>

lemma get_fat_ok:
  assumes m: "mounted vsectors img V a s" and "obj_fs obj = a" and "cluster_ok V c"
  shows "returns up (get_fat dev obj c) s (\<lambda>v t. v = fat_entry img V c \<and> mounted vsectors img V a t)"
  using layoutD(2) [OF mounted_simps(1) [OF m]] get_fat12 [OF assms] get_fat16 [OF assms] get_fat32 [OF assms]
  by blast

end

end
