(* ===== verification/FatMount.thy ===== *)
theory FatMount
  imports FatVolume
begin

unbundle bit_operations_syntax

text \<open>
  Mounting. \<open>bpb_ok w n\<close> says that \<open>w\<close> is the boot sector of a FAT volume that fits on \<open>n\<close>
  sectors, in the numbers of the FAT specification. On such a volume \<open>f_mount\<close> succeeds and
  establishes the invariant \<open>mounted\<close> with the layout the boot sector describes.
\<close>

section \<open>Boot sectors\<close>

record bpb =
  bpb_spc :: nat
  bpb_rsv :: nat
  bpb_fats :: nat
  bpb_root :: nat
  bpb_total :: nat
  bpb_fatsz :: nat

definition bpb_of :: "u8 list \<Rightarrow> bpb" where
  "bpb_of w =
     \<lparr>bpb_spc = unat (w ! 13), bpb_rsv = unat (ld_word w 14), bpb_fats = unat (w ! 16),
      bpb_root = unat (ld_word w 17),
      bpb_total = (if ld_word w 19 = 0 then unat (ld_dword w 32) else unat (ld_word w 19)),
      bpb_fatsz = (if ld_word w 22 = 0 then unat (ld_dword w 36) else unat (ld_word w 22))\<rparr>"

text \<open>The sectors before the data, and the number of clusters.\<close>

definition bpb_system :: "bpb \<Rightarrow> nat" where
  "bpb_system p = bpb_rsv p + bpb_fats p * bpb_fatsz p + bpb_root p div 16"

definition bpb_clusters :: "bpb \<Rightarrow> nat" where
  "bpb_clusters p = (bpb_total p - bpb_system p) div bpb_spc p"

definition bpb_type :: "bpb \<Rightarrow> u8" where
  "bpb_type p = (if bpb_clusters p \<ge> 65526 then FS_FAT32 else if bpb_clusters p \<ge> 4086 then FS_FAT16 else FS_FAT12)"

text \<open>The bytes that the entries of the clusters and the two reserved ones take.\<close>

definition bpb_need :: "bpb \<Rightarrow> nat" where
  "bpb_need p = (let n = bpb_clusters p + 2 in
     if bpb_type p = FS_FAT32 then n * 4 else if bpb_type p = FS_FAT16 then n * 2 else n * 3 div 2 + n mod 2)"

definition bpb_ok :: "u8 list \<Rightarrow> nat \<Rightarrow> bool" where
  "bpb_ok w n \<longleftrightarrow> (let p = bpb_of w in
     ld_word w 510 = 0xAA55 \<and> (take 3 (drop 54 w) = [0x46, 0x41, 0x54] \<or> take 3 (drop 82 w) = [0x46, 0x41, 0x54])
     \<and> ld_word w 11 = 512 \<and> bpb_spc p \<in> {1, 2, 4, 8, 16, 32, 64, 128} \<and> 0 < bpb_rsv p \<and> bpb_fats p \<in> {1, 2}
     \<and> bpb_root p mod 16 = 0 \<and> bpb_system p \<le> bpb_total p \<and> bpb_total p \<le> n \<and> n < 2 ^ 32
     \<and> 0 < bpb_clusters p \<and> bpb_clusters p < 2 ^ 28 \<and> bpb_need p \<le> 512 * bpb_fatsz p
     \<and> (if bpb_type p = FS_FAT32 then ld_word w 42 = 0 \<and> bpb_root p = 0 else 0 < bpb_root p))"

text \<open>The volume that a boot sector describes.\<close>

definition describes :: "u8 list \<Rightarrow> FATFS \<Rightarrow> bool" where
  "describes w V \<longleftrightarrow> (let p = bpb_of w in
     fs_type V = bpb_type p \<and> unat (csize V) = bpb_spc p \<and> unat (n_fats V) = bpb_fats p
     \<and> unat (n_rootdir V) = bpb_root p \<and> unat (fsize V) = bpb_fatsz p
     \<and> unat (n_fatent V) = bpb_clusters p + 2 \<and> unat (fatbase V) = bpb_rsv p
     \<and> unat (database V) = bpb_system p
     \<and> (if bpb_type p = FS_FAT32 then dirbase V = ld_dword w 44
        else unat (dirbase V) = bpb_rsv p + bpb_fats p * bpb_fatsz p))"

lemma bpb_okD:
  assumes "bpb_ok w n" and "p = bpb_of w"
  shows "ld_word w 510 = 0xAA55" "take 3 (drop 54 w) = [0x46, 0x41, 0x54] \<or> take 3 (drop 82 w) = [0x46, 0x41, 0x54]"
    "ld_word w 11 = 512" "bpb_spc p \<in> {1, 2, 4, 8, 16, 32, 64, 128}" "0 < bpb_rsv p" "bpb_fats p \<in> {1, 2}"
    "bpb_root p mod 16 = 0" "bpb_system p \<le> bpb_total p" "bpb_total p \<le> n" "n < 2 ^ 32"
    "0 < bpb_clusters p" "bpb_clusters p < 2 ^ 28" "bpb_need p \<le> 512 * bpb_fatsz p"
    "bpb_type p = FS_FAT32 \<Longrightarrow> ld_word w 42 = 0 \<and> bpb_root p = 0"
    "bpb_type p \<noteq> FS_FAT32 \<Longrightarrow> 0 < bpb_root p"
  using assms unfolding bpb_ok_def Let_def by (simp_all only: if_True if_False simp_thms)

section \<open>The analysis of a boot sector\<close>

text \<open>The numbers that \<open>analyze_bpb\<close> computes on the way, in its 32-bit arithmetic: sectors of a table, of the
  volume, of all tables, in front of the data, the clusters and the bytes a table takes.\<close>

definition boot_fatsz :: "u8 list \<Rightarrow> u32" where
  "boot_fatsz w = (if ld_word w 22 = 0 then ld_dword w 36 else ucast (ld_word w 22))"

definition boot_total :: "u8 list \<Rightarrow> u32" where
  "boot_total w = (if ld_word w 19 = 0 then ld_dword w 32 else ucast (ld_word w 19))"

definition boot_tables :: "u8 list \<Rightarrow> u32" where
  "boot_tables w = boot_fatsz w * ucast (w ! 16)"

definition boot_system :: "u8 list \<Rightarrow> u32" where
  "boot_system w = ucast (ld_word w 14) + boot_tables w + ucast (ld_word w 17 div 16)"

definition boot_clusters :: "u8 list \<Rightarrow> u32" where
  "boot_clusters w = (boot_total w - boot_system w) div ucast (ucast (w ! 13) :: u16)"

definition boot_need :: "u8 list \<Rightarrow> u32" where
  "boot_need w = (if bpb_type (bpb_of w) = FS_FAT32 then (boot_clusters w + 2) * 4
    else if bpb_type (bpb_of w) = FS_FAT16 then (boot_clusters w + 2) * 2
    else (boot_clusters w + 2) * 3 div 2 + (boot_clusters w + 2 AND 1))"

lemma boot_sizes:
  assumes ok: "bpb_ok w n" and p: "p = bpb_of w"
  shows "unat (boot_fatsz w) = bpb_fatsz p" "unat (boot_total w) = bpb_total p"
    "unat (boot_tables w) = bpb_fats p * bpb_fatsz p" "unat (boot_system w) = bpb_system p"
    "unat (boot_clusters w) = bpb_clusters p"
proof -
  note d = bpb_okD [OF ok p]
  show F: "unat (boot_fatsz w) = bpb_fatsz p" and T: "unat (boot_total w) = bpb_total p"
    by (simp_all add: boot_fatsz_def boot_total_def p bpb_of_def unat_ucast_up)
  have sys: "bpb_system p < 2 ^ 32" using d(8-10) by linarith
  then show A: "unat (boot_tables w) = bpb_fats p * bpb_fatsz p"
    using F by (simp add: boot_tables_def unat_word_ariths unat_ucast_up p bpb_of_def bpb_system_def mult.commute)
  have r: "unat (ucast (ld_word w 17 div 16) :: u32) = bpb_root p div 16"
    by (subst unat_ucast_up) (simp_all add: unat_div p bpb_of_def)
  have v: "unat (ucast (ld_word w 14) :: u32) = bpb_rsv p"
    by (simp add: unat_ucast_up p bpb_of_def)
  have le: "unat (ucast (ld_word w 14) :: u32) + unat (boot_tables w) < 2 ^ LENGTH(32)"
    using sys by (simp add: v A bpb_system_def)
  have le2: "unat (ucast (ld_word w 14) + boot_tables w) + unat (ucast (ld_word w 17 div 16) :: u32) < 2 ^ LENGTH(32)"
    using sys by (simp add: unat_add_small [OF le] v A r bpb_system_def)
  show S: "unat (boot_system w) = bpb_system p"
    unfolding boot_system_def unat_add_small [OF le2] unat_add_small [OF le] v A r bpb_system_def ..
  have spc: "unat (ucast (ucast (w ! 13) :: u16) :: u32) = bpb_spc p"
    by (simp add: unat_ucast_up p bpb_of_def)
  show "unat (boot_clusters w) = bpb_clusters p"
    using d(8) by (simp add: boot_clusters_def unat_div spc bpb_clusters_def unat_sub word_le_nat_alt S T)
qed

lemma boot_need_ok:
  assumes ok: "bpb_ok w n" and p: "p = bpb_of w"
  shows "unat (boot_clusters w + 2) = bpb_clusters p + 2" "unat (boot_need w) = bpb_need p"
proof -
  note d = bpb_okD [OF ok p]
  define M where "M = boot_clusters w + 2"
  have M: "unat M = bpb_clusters p + 2"
    using d(12) by (simp add: M_def unat_word_ariths boot_sizes(5) [OF ok p])
  then show "unat (boot_clusters w + 2) = bpb_clusters p + 2" by (simp add: M_def)
  have odd: "unat (M AND 1) = (bpb_clusters p + 2) mod 2"
    by (simp add: and_one_eq unat_mod M)
  have small: "bpb_clusters p < 4086" if "bpb_type p = FS_FAT12"
    using that by (auto simp: bpb_type_def split: if_splits)
  have "unat (M * 4) = (bpb_clusters p + 2) * 4" "unat (M * 2) = (bpb_clusters p + 2) * 2"
    using d(12) by (simp_all add: unat_word_ariths M)
  moreover have "unat (M * 3 div 2 + (M AND 1)) = (bpb_clusters p + 2) * 3 div 2 + (bpb_clusters p + 2) mod 2"
    if "bpb_type p = FS_FAT12"
  proof -
    have "unat (M * 3) = (bpb_clusters p + 2) * 3"
      using small [OF that] by (simp add: unat_word_ariths M)
    then have "unat (M * 3 div 2) = (bpb_clusters p + 2) * 3 div 2" by (simp only: unat_div) simp
    then show ?thesis
      using small [OF that] by (simp only: unat_word_ariths(1) odd) simp
  qed
  moreover have "bpb_type p = FS_FAT12" if "bpb_type p \<noteq> FS_FAT16" "bpb_type p \<noteq> FS_FAT32"
    using that by (auto simp: bpb_type_def split: if_splits)
  ultimately show "unat (boot_need w) = bpb_need p"
    by (auto simp add: boot_need_def bpb_need_def Let_def simp flip: M_def p)
qed

lemma boot_table_fits:
  assumes ok: "bpb_ok w n"
  shows "\<not> boot_fatsz w < (boot_need w + 511) div 512"
proof -
  define p where "p = bpb_of w"
  note d = bpb_okD [OF ok p_def] and Z = boot_need_ok(2) [OF ok p_def]
  have "k * 3 div 2 + k mod 2 \<le> k * 4" for k :: nat
  proof -
    have "k * 3 div 2 \<le> k * 3" "k mod 2 \<le> k" by simp_all
    then show ?thesis by linarith
  qed
  then have "bpb_need p \<le> (bpb_clusters p + 2) * 4"
    unfolding bpb_need_def Let_def by (simp only: split: if_split) simp
  then have "unat (boot_need w) < 2 ^ 31" using d(12) by (simp add: Z)
  then have "unat (boot_need w + 511) = bpb_need p + 511"
    by (simp add: unat_word_ariths Z)
  then show ?thesis
    using d(13) by (simp add: word_less_nat_alt unat_div boot_sizes(1) [OF ok p_def] not_less)
qed

text \<open>None of the checks rejects the sector.\<close>

lemma boot_checks:
  assumes ok: "bpb_ok w n" and p: "p = bpb_of w"
  shows "(ld_word w 11 \<noteq> 512) = False" "(w ! 16 \<noteq> 1 \<and> w ! 16 \<noteq> 2) = False"
    "((ucast (w ! 13) :: u16) = 0 \<or> ucast (w ! 13) AND (ucast (w ! 13) - 1) \<noteq> (0 :: u16)) = False"
    "(ld_word w 17 mod 16 \<noteq> 0) = False" "(ld_word w 14 = 0) = False" "(boot_total w < boot_system w) = False"
    "(boot_clusters w = 0) = False"
    "(bpb_type p = FS_FAT32 \<and> (ld_word w 42 \<noteq> 0 \<or> ld_word w 17 \<noteq> 0)) = False"
    "(bpb_type p \<noteq> FS_FAT32 \<and> ld_word w 17 = 0) = False"
    "(if 65526 \<le> boot_clusters w then FS_FAT32 else if 4086 \<le> boot_clusters w then FS_FAT16 else FS_FAT12) = bpb_type p"
proof -
  note d = bpb_okD [OF ok p] and s = boot_sizes [OF ok p]
  have c1: "w ! 16 = 1 \<or> w ! 16 = 2"
    using d(6) by (auto simp: p bpb_of_def word_unat_eq_iff)
  have "w ! 13 \<in> {1, 2, 4, 8, 16, 32, 64, 128}"
    using d(4) by (auto simp: p bpb_of_def word_unat_eq_iff)
  then have c2: "(ucast (w ! 13) :: u16) \<noteq> 0" "ucast (w ! 13) AND (ucast (w ! 13) - 1) = (0 :: u16)"
    by auto
  have c3: "ld_word w 17 mod 16 = 0" "ld_word w 14 \<noteq> 0" "\<not> boot_total w < boot_system w" "boot_clusters w \<noteq> 0"
    using d(5,7,8,11) by (auto simp: p bpb_of_def word_unat_eq_iff unat_mod word_less_nat_alt s [unfolded p bpb_of_def])
  show "(ld_word w 11 \<noteq> 512) = False" "(w ! 16 \<noteq> 1 \<and> w ! 16 \<noteq> 2) = False"
    "((ucast (w ! 13) :: u16) = 0 \<or> ucast (w ! 13) AND (ucast (w ! 13) - 1) \<noteq> (0 :: u16)) = False"
    "(ld_word w 17 mod 16 \<noteq> 0) = False" "(ld_word w 14 = 0) = False" "(boot_total w < boot_system w) = False"
    "(boot_clusters w = 0) = False"
    "(bpb_type p = FS_FAT32 \<and> (ld_word w 42 \<noteq> 0 \<or> ld_word w 17 \<noteq> 0)) = False"
    "(bpb_type p \<noteq> FS_FAT32 \<and> ld_word w 17 = 0) = False"
    using d(3) c1 c2 c3 d(14,15) by (auto simp: p bpb_of_def unat_eq_0)
  show "(if 65526 \<le> boot_clusters w then FS_FAT32 else if 4086 \<le> boot_clusters w then FS_FAT16 else FS_FAT12) = bpb_type p"
    by (simp add: bpb_type_def word_le_nat_alt s)
qed

lemma analyze_describes:
  assumes ok: "bpb_ok w n"
  obtains V where "analyze_bpb w 0 fs = (Some (bpb_type (bpb_of w)), V)"
    "describes w (V\<lparr>fs_type := bpb_type (bpb_of w)\<rparr>)" "fs_drv V = fs_drv fs" "fs_id V = fs_id fs"
    "win V = win fs" "winsect V = winsect fs" "wflag V = wflag fs" "fs_type V = fs_type fs"
proof -
  define p where "p = bpb_of w"
  note d = bpb_okD [OF ok p_def] and s = boot_sizes [OF ok p_def]
  define V0 where "V0 = fs\<lparr>fsize := boot_fatsz w, n_fats := w ! 16, csize := ucast (w ! 13), n_rootdir := ld_word w 17,
    n_fatent := boot_clusters w + 2, volbase := 0, fatbase := ucast (ld_word w 14), database := boot_system w,
    dirbase := (if bpb_type p = FS_FAT32 then ld_dword w 44 else ucast (ld_word w 14) + boot_tables w)\<rparr>"
  have sel: "n_fats (f\<lparr>n_fats := b\<rparr>) = b" "csize (f\<lparr>csize := x\<rparr>) = x" "csize (f\<lparr>n_rootdir := x\<rparr>) = csize f"
    "n_rootdir (f\<lparr>n_rootdir := x\<rparr>) = x"
    "n_rootdir (f\<lparr>n_fatent := i, volbase := j, fatbase := k, database := l\<rparr>) = n_rootdir f"
    "fatbase (f\<lparr>n_fatent := i, volbase := j, fatbase := k, database := l\<rparr>) = k"
    "n_fatent (f\<lparr>n_fatent := i, volbase := j, fatbase := k, database := l, dirbase := o'\<rparr>) = i"
    "fsize (f\<lparr>n_fatent := i, volbase := j, fatbase := k, database := l, dirbase := o'\<rparr>) = fsize f"
    "fsize (f\<lparr>fsize := i, n_fats := b, csize := x, n_rootdir := y\<rparr>) = i"
    for f :: FATFS and b x y i j k l o' by simp_all
  note names = boot_fatsz_def [symmetric] boot_total_def [symmetric] boot_tables_def [symmetric] boot_system_def [symmetric]
    boot_clusters_def [symmetric] boot_need_def [of w, folded p_def, symmetric]
  have "analyze_bpb w 0 fs = (Some (bpb_type p), V0)"
    by (simp only: analyze_bpb_def Let_def sel names boot_checks [OF ok p_def] if_False add_0 boot_table_fits [OF ok] V0_def)
  moreover have "unat (ucast (ld_word w 14) + boot_tables w) = bpb_rsv p + bpb_fats p * bpb_fatsz p"
    using d(8-10) s by (simp add: unat_word_ariths unat_ucast_up p_def bpb_of_def bpb_system_def)
  then have "describes w (V0\<lparr>fs_type := bpb_type p\<rparr>)"
    by (simp add: describes_def Let_def V0_def p_def [symmetric] s boot_need_ok(1) [OF ok p_def])
      (simp add: p_def bpb_of_def unat_ucast_up)
  ultimately show ?thesis
    by (intro that [of V0]) (simp_all add: V0_def p_def)
qed

lemma describes_layout:
  assumes ok: "bpb_ok w n" and V: "describes w V" "fs_drv V = 0"
  shows "layout n V"
proof -
  define p where "p = bpb_of w"
  note d = bpb_okD [OF ok p_def]
  have v: "fs_type V = bpb_type p" "unat (csize V) = bpb_spc p" "unat (n_rootdir V) = bpb_root p"
    "unat (fsize V) = bpb_fatsz p" "unat (n_fatent V) = bpb_clusters p + 2" "unat (fatbase V) = bpb_rsv p"
    "unat (database V) = bpb_system p"
    "bpb_type p \<noteq> FS_FAT32 \<Longrightarrow> unat (dirbase V) = bpb_rsv p + bpb_fats p * bpb_fatsz p"
    using V(1) by (simp_all add: describes_def p_def Let_def)
  have ty: "bpb_type p = FS_FAT12 \<or> bpb_type p = FS_FAT16 \<or> bpb_type p = FS_FAT32"
    by (simp add: bpb_type_def)
  have cs: "csize V \<in> {1, 2, 4, 8, 16, 32, 64, 128}"
    using d(4) by (auto simp: v(2) [symmetric] word_unat_eq_iff)
  have need: "fat_need V = bpb_need p"
    by (simp add: fat_need_def bpb_need_def v Let_def)
  have small: "bpb_type p = FS_FAT12 \<Longrightarrow> bpb_clusters p + 2 \<le> 4087"
    by (auto simp: bpb_type_def split: if_splits)
  have fat: "bpb_rsv p + bpb_fatsz p \<le> bpb_system p"
    using d(6) by (auto simp: bpb_system_def)
  have data: "bpb_system p + bpb_clusters p * cs V \<le> n"
  proof -
    have "bpb_clusters p * bpb_spc p \<le> bpb_total p - bpb_system p"
      by (simp add: bpb_clusters_def)
    then show ?thesis using d(8,9) by (simp add: cs_def v)
  qed
  have root: "if bpb_type p = FS_FAT32 then n_rootdir V = 0
      else unat (dirbase V) + unat (n_rootdir V) div 16 \<le> unat (database V)
        \<and> 0 < unat (n_rootdir V) \<and> unat (n_rootdir V) mod 16 = 0 \<and> 0 < unat (dirbase V)"
    using d(5,7,14,15) v by (auto simp: bpb_system_def unat_eq_0)
  show ?thesis
    unfolding layout_def using V(2) ty cs d(5,10,11,13) small fat data root
    by (simp add: v need)
qed

lemma fat_string:
  assumes "take 3 (drop i w) = [0x46, 0x41, 0x54]" and "length w = 512"
  shows "ld_dword w i AND 0xFFFFFF = 0x544146"
proof -
  have "i + 2 < length w"
    using arg_cong [OF assms(1), of length] by (simp split: if_splits)
  then have b: "w ! i = 0x46" "w ! (i + 1) = 0x41" "w ! (i + 2) = 0x54"
    using arg_cong [OF assms(1), of "\<lambda>l. l ! 0"] arg_cong [OF assms(1), of "\<lambda>l. l ! 1"]
      arg_cong [OF assms(1), of "\<lambda>l. l ! 2"] by simp_all
  have "ld_dword w i AND 0xFFFFFF = take_bit 24 (ld_dword w i)"
    by (simp add: take_bit_eq_mask mask_eq_exp_minus_1)
  then have "unat (ld_dword w i AND 0xFFFFFF) = unat (ld_dword w i) mod 2 ^ 24"
    by (simp only: unsigned_take_bit_eq) (simp only: take_bit_eq_mod)
  also have "\<dots> = 0x544146"
    using b by (simp add: ld_dword_sum)
  finally show ?thesis
    by (simp add: word_unat_eq_iff)
qed

lemma is_fat_string:
  assumes "bpb_ok w n" and "length w = 512"
  shows "ld_dword w 54 AND 0xFFFFFF = 0x544146 \<or> ld_dword w 82 AND 0xFFFFFF = 0x544146"
  using bpb_okD(2) [OF assms(1) refl] fat_string [OF _ assms(2)] by blast

text \<open>The object after its boot sector is in the window.\<close>

definition booting :: "u8 list \<Rightarrow> FATFS \<Rightarrow> FATFS" where
  "booting w V = V\<lparr>wflag := 0, winsect := 0, win := w\<rparr>"

lemma booting_simps [simp]: "win (booting w V) = w" "fs_drv (booting w V) = fs_drv V"
  "fs_type (booting w V) = fs_type V" "winsect (booting w V) = 0"
  by (simp_all add: booting_def)

lemma window_same: "winsect V = k \<Longrightarrow> win V = w \<Longrightarrow> V = V\<lparr>winsect := k, win := w\<rparr>"
  by simp

context volume_disk begin

lemma has_boot_sector:
  assumes "bpb_ok (img 0) vsectors"
  shows "unat (0 :: u32) < vsectors"
  using bpb_okD(8,9,11) [OF assms refl] by (cases "bpb_total (bpb_of (img 0)) = 0") (auto simp: bpb_clusters_def)

lemma check_fs_ok:
  assumes w: "bpb_ok (img 0) vsectors" and drv: "fs_drv (fs_at s a) = 0"
  shows "returns up (check_fs dev a 0) s (\<lambda>fmt t. fmt = 0 \<and> (\<exists>d. t = (upd_fs a (booting (img 0)) s)\<lparr>dsk := d\<rparr>))"
proof -
  let ?inv = "upd_fs a (\<lambda>fs. fs\<lparr>wflag := 0, winsect := 0xFFFFFFFF\<rparr>) s"
  have window: "returns up (move_window dev a 0) ?inv
      (\<lambda>r t. r = FR_OK \<and> (\<exists>d. t = (upd_fs a (booting (img 0)) s)\<lparr>dsk := d\<rparr>))"
    unfolding move_window_def
    apply (rule returns_get_bind)
    apply (simp add: drv)
    apply (rule returns_bind [OF disk_fetch_one [OF has_boot_sector [OF w]]])
    apply (auto intro!: return_intros simp: upd_fs_def booting_def)
    subgoal for d by (intro exI [of _ d]) (rule fat_sys.equality; auto)
    done
  show ?thesis
    unfolding check_fs_def
    apply (rule returns_put_bind, simp)
    apply (rule returns_bind [OF window])
    using bpb_okD(1) [OF w refl] is_fat_string [OF w img_length]
    apply (auto intro!: return_intros simp: win_of_def upd_fs_def)
    done
qed

lemma find_volume_mounted:
  assumes m: "mounted vsectors img V a s" and path: "get_ldnumber path = (0, rest)"
  shows "returns up (find_volume dev path) s (\<lambda>(res, a', path') t.
    res = FR_OK \<and> a' = a \<and> path' = rest \<and> mounted vsectors img V a t)"
proof -
  note f = mounted_simps [OF m]
  have vol: "a \<noteq> 0" "FatFs s ! nat 0 = a" using f(13,14) by simp_all
  have status: "returns up (if fs_type (fs_at s a) \<noteq> 0 then disk_stat (fs_drv (fs_at s a)) else fret STA_NOINIT) s
      (\<lambda>stat t. stat = 0 \<and> t = s\<lparr>disk_up := True\<rparr>)"
    using mounted_type [OF m] disk_stat_ok by (simp add: f(3))
  show ?thesis
    unfolding find_volume_def path
    apply (simp only: prod.case less_irrefl if_False)
    apply (rule returns_get_bind)
    apply (simp only: vol if_False)
    apply (rule returns_get_bind)
    apply (rule returns_bind [OF status])
    using mounted_type [OF m] m by (auto intro!: return_intros)
qed

lemma find_volume_fresh:
  assumes w: "bpb_ok (img 0) vsectors" and vol: "FatFs s = [a]" "a \<noteq> 0" "fs_type (fs_at s a) = 0"
    and path: "get_ldnumber path = (0, rest)"
  shows "returns up (find_volume dev path) s (\<lambda>(res, a', path') t.
    res = FR_OK \<and> a' = a \<and> path' = rest \<and> (\<exists>V. describes (img 0) V \<and> mounted vsectors img V a t))"
proof -
  have vol0: "FatFs s ! nat 0 = a" by (simp add: vol)
  let ?s = "(upd_fs a (\<lambda>fs. fs\<lparr>fs_type := 0, fs_drv := word_of_int 0\<rparr>) s)\<lparr>disk_up := True\<rparr>"
  have drv: "fs_drv (fs_at ?s a) = 0" by simp
  have fin: "returns up (fbind (fget (\<lambda>s. fs_at s a)) (\<lambda>fs. case analyze_bpb (win fs) 0 fs of
        (None, fs) \<Rightarrow> fbind (fput (upd_fs a (\<lambda>_. fs))) (\<lambda>_. fret (FR_NO_FILESYSTEM, a, rest))
      | (Some fmt, fs) \<Rightarrow> fbind (fput (\<lambda>s. upd_fs a (\<lambda>_. fs\<lparr>fs_type := fmt, fs_id := Fsid s + 1\<rparr>)
            (s\<lparr>Fsid := Fsid s + 1\<rparr>))) (\<lambda>_. fret (FR_OK, a, rest)))) t
      (\<lambda>(res, a', path') t. res = FR_OK \<and> a' = a \<and> path' = rest
         \<and> (\<exists>V. describes (img 0) V \<and> mounted vsectors img V a t))"
    if t: "fs_at t a = booting (img 0) F" "FatFs t = [a]" "fs_drv F = 0" for t F
  proof -
    obtain U where U: "analyze_bpb (img 0) 0 (booting (img 0) F) = (Some (bpb_type (bpb_of (img 0))), U)"
      "describes (img 0) (U\<lparr>fs_type := bpb_type (bpb_of (img 0))\<rparr>)" "fs_drv U = 0" "win U = img 0" "winsect U = 0"
      using analyze_describes [OF w, of "booting (img 0) F"] t(3) unfolding booting_simps by metis
    let ?V = "U\<lparr>fs_type := bpb_type (bpb_of (img 0)), fs_id := Fsid t + 1\<rparr>"
    have d: "describes (img 0) ?V"
      using U(2) by (simp add: describes_def Let_def split: if_splits)
    then have l: "layout vsectors ?V"
      using describes_layout [OF w d] U(3) by simp
    have "?V = ?V\<lparr>winsect := 0, win := img 0\<rparr>"
      by (rule window_same) (use U in simp_all)
    then have "mounted vsectors img ?V a (upd_fs a (\<lambda>_. ?V) (t\<lparr>Fsid := Fsid t + 1\<rparr>))"
      using vol(2) t(2) l unfolding mounted_def by (intro conjI exI [of _ 0] exI [of _ "img 0"]) simp_all
    with d show ?thesis
      by (auto intro!: return_intros simp: t(1) U(1))
  qed
  show ?thesis
    unfolding find_volume_def path
    apply (simp only: prod.case less_irrefl if_False)
    apply (rule returns_get_bind)
    apply (simp only: vol0 vol(2) if_False)
    apply (rule returns_get_bind)
    apply (simp only: vol(3) simp_thms if_False)
    apply (rule returns_ret_bind)
    apply (rule returns_put_bind, simp)
    apply (simp only: word_of_int_0)
    apply (rule returns_bind [OF disk_start_ok])
    apply (simp add: STA_NOINIT_def)
    apply (rule returns_bind [OF check_fs_ok [OF w]])
     apply simp
    apply clarsimp
    apply (rule returns_ret_bind)
    apply (simp only: prod.case)
    apply simp
    apply (rule fin)
    apply (auto simp: upd_fs_def vol)
    done
qed

lemma f_mount_ok:
  assumes w: "bpb_ok (img 0) vsectors" and vol: "length (FatFs s) = 1" "a \<noteq> 0" "get_ldnumber path = (0, rest)"
  shows "returns up (f_mount dev a path 1) s
    (\<lambda>res t. res = FR_OK \<and> (\<exists>V. describes (img 0) V \<and> mounted vsectors img V a t))"
proof -
  obtain c where c: "FatFs s = [c]"
    using vol(1) by (cases "FatFs s") auto
  let ?clear = "\<lambda>c. upd_fs c (\<lambda>fs. fs\<lparr>fs_type := 0\<rparr>)"
  let ?s = "?clear a (if c = 0 then s else ?clear c s)\<lparr>FatFs := [a]\<rparr>"
  have fresh: "FatFs ?s = [a]" "fs_type (fs_at ?s a) = 0"
    by (simp_all add: upd_fs_def)
  have "returns up (fbind (find_volume dev path) (\<lambda>(res, _). fret res)) ?s
      (\<lambda>res t. res = FR_OK \<and> (\<exists>V. describes (img 0) V \<and> mounted vsectors img V a t))"
    by (rule returns_bind [OF find_volume_fresh [OF w fresh(1) vol(2) fresh(2) vol(3)]])
      (auto intro!: return_intros)
  then show ?thesis
    unfolding f_mount_def vol(3) using vol(2) c
    by (cases "c = 0") (auto intro!: returns_get_bind returns_put_bind returns_ret_bind)
qed

end

end
