(* ===== verification/FatFile.thy ===== *)
theory FatFile
  imports FatVolume
begin

unbundle bit_operations_syntax

text \<open>
  Files. The bytes of a file are a function of the position: the cluster of the chain, the sector
  in the cluster, the byte in the sector. \<open>fil_ok\<close> is the invariant of an open file object
  between calls; reading and seeking keep it, and reading returns the bytes of the file.
\<close>

section \<open>The bytes of a file\<close>

definition CS :: "FATFS \<Rightarrow> nat" where
  "CS V = 512 * cs V"

definition cluster_at :: "(u32 \<Rightarrow> u8 list) \<Rightarrow> FATFS \<Rightarrow> u32 \<Rightarrow> nat \<Rightarrow> u32" where
  "cluster_at img V c i = (fat_entry img V ^^ i) c"

definition sector_at :: "(u32 \<Rightarrow> u8 list) \<Rightarrow> FATFS \<Rightarrow> u32 \<Rightarrow> nat \<Rightarrow> nat" where
  "sector_at img V c k = cluster_base V (cluster_at img V c (k div CS V)) + k div 512 mod cs V"

definition file_byte :: "(u32 \<Rightarrow> u8 list) \<Rightarrow> FATFS \<Rightarrow> u32 \<Rightarrow> nat \<Rightarrow> u8" where
  "file_byte img V c k = img (of_nat (sector_at img V c k)) ! (k mod 512)"

definition file_bytes :: "(u32 \<Rightarrow> u8 list) \<Rightarrow> FATFS \<Rightarrow> u32 \<Rightarrow> nat \<Rightarrow> u8 list" where
  "file_bytes img V c n = map (file_byte img V c) [0..<n]"

text \<open>Every byte of the file is in a cluster of the volume.\<close>

definition stored :: "(u32 \<Rightarrow> u8 list) \<Rightarrow> FATFS \<Rightarrow> u32 \<Rightarrow> nat \<Rightarrow> bool" where
  "stored img V c n \<longleftrightarrow> (\<forall>k<n. cluster_ok V (cluster_at img V c (k div CS V)))"

lemma cluster_at_simps [simp]:
  "cluster_at img V c 0 = c" "cluster_at img V c (Suc i) = fat_entry img V (cluster_at img V c i)"
  by (simp_all add: cluster_at_def)

lemma bcs_CS: "layout n V \<Longrightarrow> unat (ucast (csize V) * 512 :: u32) = CS V"
  using cs_le [of n V] by (simp add: unat_word_ariths CS_def unat_ucast_up cs_def)

lemma div_CS: "k div CS V = k div 512 div cs V"
  by (simp add: CS_def div_mult2_eq)

lemma same_sector:
  assumes "j div 512 = k div (512 :: nat)"
  shows "j div CS V = k div CS V" "sector_at img V c j = sector_at img V c k"
  using assms by (simp_all add: div_CS sector_at_def)

lemma add_below:
  assumes "a mod c + t < (c :: nat)"
  shows "(a + t) div c = a div c" "(a + t) mod c = a mod c + t"
proof -
  have c: "c \<noteq> 0" using assms by (cases c) auto
  have "a + t = a div c * c + (a mod c + t)" by simp
  moreover have "(a div c * c + (a mod c + t)) div c = a div c"
    using assms c by (simp only: div_mult_self3 div_less add_0_right not_False_eq_True simp_thms)
  moreover have "(a div c * c + (a mod c + t)) mod c = a mod c + t"
    using assms by (simp only: mod_mult_self3 mod_less)
  ultimately show "(a + t) div c = a div c" "(a + t) mod c = a mod c + t" by metis+
qed

lemma sector_run:
  assumes "k mod 512 = 0" and "k div 512 mod cs V + j div 512 < cs V"
  shows "(k + j) div CS V = k div CS V" "sector_at img V c (k + j) = sector_at img V c k + j div 512"
    "(k + j) mod 512 = j mod 512"
proof -
  have q: "(k + j) div 512 = k div 512 + j div 512"
    using assms(1) by (auto simp: mod_eq_0_iff_dvd elim!: dvdE)
  have d: "(k div 512 + j div 512) div cs V = k div 512 div cs V"
    "(k div 512 + j div 512) mod cs V = k div 512 mod cs V + j div 512"
    using add_below [OF assms(2)] .
  show "(k + j) div CS V = k div CS V" "sector_at img V c (k + j) = sector_at img V c k + j div 512"
    by (simp_all add: div_CS sector_at_def q d)
  show "(k + j) mod 512 = j mod 512"
    using assms(1) by (simp add: mod_add_left_eq [symmetric])
qed

lemma sector_bound:
  assumes l: "layout n V" and c: "cluster_ok V (cluster_at img V c (k div CS V))"
    and m: "k div 512 mod cs V + m \<le> cs V" "0 < m"
  shows "sector_at img V c k + m \<le> n" "0 < sector_at img V c k" "sector_at img V c k < 2 ^ 32"
proof -
  obtain j where j: "m = Suc j" using m(2) by (cases m) auto
  show 1: "sector_at img V c k + m \<le> n"
    using cluster_base_bound(1) [OF l c, of "k div 512 mod cs V + j"] m(1) by (simp add: sector_at_def j)
  show "0 < sector_at img V c k"
    using cluster_base_bound(2) [OF l c] cs_pos [OF l] by (simp add: sector_at_def)
  show "sector_at img V c k < 2 ^ 32"
    using 1 m(2) layoutD(8) [OF l] by linarith
qed

text \<open>Whole sectors of one cluster are a stretch of the file.\<close>

lemma sectors_are_bytes:
  assumes run: "k mod 512 = 0" "k div 512 mod cs V + m \<le> cs V" and len: "\<And>s. length (img s) = 512"
  shows "concat (map (\<lambda>i. img (of_nat (sector_at img V c k) + of_nat i)) [0..<m])
    = map (file_byte img V c) [k..<k + 512 * m]"
  using run(2)
proof (induction m)
  case (Suc m)
  have sect: "file_byte img V c (k + 512 * m + j) = img (of_nat (sector_at img V c k) + of_nat m) ! j" if "j < 512" for j
  proof -
    have d: "(512 * m + j) div 512 = m" "(512 * m + j) mod 512 = j"
      using that by simp_all
    then have "sector_at img V c (k + (512 * m + j)) = sector_at img V c k + m"
      using sector_run(2) [of k V "512 * m + j"] run(1) Suc.prems by simp
    moreover have "(k + (512 * m + j)) mod 512 = j"
      using sector_run(3) [of k V "512 * m + j"] run(1) Suc.prems d by simp
    ultimately show ?thesis
      by (simp only: file_byte_def add.assoc of_nat_add)
  qed
  have "map (file_byte img V c) [k + 512 * m..<k + 512 * m + 512] = img (of_nat (sector_at img V c k) + of_nat m)"
    by (rule nth_equalityI) (simp_all add: len sect)
  moreover have "[k..<k + 512 * Suc m] = [k..<k + 512 * m] @ [k + 512 * m..<k + 512 * m + 512]"
    using upt_add_eq_append [of k "k + 512 * m" 512] by (simp add: algebra_simps)
  ultimately show ?case
    using Suc by simp
qed simp

text \<open>A part of one sector.\<close>

lemma part_is_bytes:
  assumes "k mod 512 + m \<le> 512" and "length (img (of_nat (sector_at img V c k))) = 512"
  shows "take m (drop (k mod 512) (img (of_nat (sector_at img V c k)))) = map (file_byte img V c) [k..<k + m]"
proof (rule nth_equalityI)
  fix j assume "j < length (take m (drop (k mod 512) (img (of_nat (sector_at img V c k)))))"
  then have j: "j < m" "k mod 512 + j < 512" using assms by simp_all
  have d: "(k + j) div 512 = k div 512" "(k + j) mod 512 = k mod 512 + j"
    using add_below [OF j(2)] .
  show "take m (drop (k mod 512) (img (of_nat (sector_at img V c k)))) ! j = map (file_byte img V c) [k..<k + m] ! j"
    using j assms by (simp add: file_byte_def d(2) same_sector(2) [OF d(1)])
qed (use assms in simp)

section \<open>Open files\<close>

definition fil_size :: "FIL \<Rightarrow> nat" where
  "fil_size fp = unat (objsize (fil_obj fp))"

text \<open>The object belongs to the volume and is open for reading.\<close>

definition fil_open :: "FATFS \<Rightarrow> nat \<Rightarrow> FIL \<Rightarrow> bool" where
  "fil_open V a fp \<longleftrightarrow> obj_fs (fil_obj fp) = a \<and> obj_id (fil_obj fp) = fs_id V \<and> fil_err fp = FR_OK
     \<and> fil_flag fp AND FA_READ \<noteq> 0"

text \<open>
  The invariant: the pointer is in the file, the current cluster is the one of the byte before the
  pointer, the buffer holds the sector it names, and inside a sector it is the one of the pointer.
\<close>

definition fil_ok :: "(u32 \<Rightarrow> u8 list) \<Rightarrow> FATFS \<Rightarrow> nat \<Rightarrow> FIL \<Rightarrow> bool" where
  "fil_ok img V a fp \<longleftrightarrow> fil_open V a fp
     \<and> stored img V (sclust (fil_obj fp)) (fil_size fp) \<and> unat (fptr fp) \<le> fil_size fp
     \<and> (unat (fptr fp) \<noteq> 0 \<longrightarrow>
          fil_clust fp = cluster_at img V (sclust (fil_obj fp)) ((unat (fptr fp) - 1) div CS V))
     \<and> (fil_sect fp \<noteq> 0 \<longrightarrow> fil_buf fp = img (fil_sect fp))
     \<and> (unat (fptr fp) mod 512 \<noteq> 0 \<longrightarrow>
          unat (fil_sect fp) = sector_at img V (sclust (fil_obj fp)) (unat (fptr fp)))"

lemma fil_okD:
  assumes "fil_ok img V a fp"
  shows "fil_open V a fp" "obj_fs (fil_obj fp) = a" "unat (fptr fp) \<le> fil_size fp"
    "stored img V (sclust (fil_obj fp)) (fil_size fp)"
  using assms by (simp_all add: fil_ok_def fil_open_def)

lemma fil_open_fptr [simp]: "fil_open V a (fp\<lparr>fptr := p\<rparr>) = fil_open V a fp"
  "fil_open V a (fp\<lparr>fil_clust := c\<rparr>) = fil_open V a fp" "fil_open V a (fp\<lparr>fil_buf := b\<rparr>) = fil_open V a fp"
  "fil_open V a (fp\<lparr>fil_sect := k\<rparr>) = fil_open V a fp"
  by (simp_all add: fil_open_def)

lemma fil_size_simps [simp]: "fil_size (fp\<lparr>fptr := p\<rparr>) = fil_size fp"
  "fil_size (fp\<lparr>fil_clust := c\<rparr>) = fil_size fp" "fil_size (fp\<lparr>fil_buf := b\<rparr>) = fil_size fp"
  "fil_size (fp\<lparr>fil_sect := k\<rparr>) = fil_size fp"
  by (simp_all add: fil_size_def)

text \<open>The byte before a sector boundary that is no cluster boundary is in the same cluster.\<close>

lemma cluster_before:
  assumes "k mod 512 = 0" and "0 < k" and "0 < cs V"
  shows "k div 512 mod cs V = 0 \<Longrightarrow> k div CS V = Suc ((k - 1) div CS V)"
    "k div 512 mod cs V \<noteq> 0 \<Longrightarrow> (k - 1) div CS V = k div CS V"
proof -
  have whole: "k = 512 * (k div 512)"
    using mult_div_mod_eq [of 512 k] assms(1) by simp
  then obtain q where "k div 512 = Suc q"
    using assms(2) by (cases "k div 512") simp_all
  then have q: "k = 512 * Suc q" using whole by simp
  have "k - 1 = 512 * q + 511" by (simp add: q)
  then have d: "(k - 1) div 512 = q" "k div 512 = Suc q" by (simp_all add: q)
  show "k div CS V = Suc ((k - 1) div CS V)" if "k div 512 mod cs V = 0"
    using that assms(3) unfolding div_CS d div_Suc by simp
  show "(k - 1) div CS V = k div CS V" if "k div 512 mod cs V \<noteq> 0"
    using that assms(3) unfolding div_CS d div_Suc by simp
qed

text \<open>The buffer and the cluster are those of the pointer.\<close>

definition at_sector :: "(u32 \<Rightarrow> u8 list) \<Rightarrow> FATFS \<Rightarrow> FIL \<Rightarrow> bool" where
  "at_sector img V fp \<longleftrightarrow> fil_buf fp = img (fil_sect fp)
     \<and> fil_clust fp = cluster_at img V (sclust (fil_obj fp)) (unat (fptr fp) div CS V)
     \<and> unat (fil_sect fp) = sector_at img V (sclust (fil_obj fp)) (unat (fptr fp))"

lemma inside_sector:
  assumes l: "layout n V" and ok: "fil_ok img V a fp" and k: "unat (fptr fp) mod 512 \<noteq> 0" "unat (fptr fp) < fil_size fp"
  shows "at_sector img V fp"
proof -
  let ?k = "unat (fptr fp)" and ?c = "sclust (fil_obj fp)"
  have sect: "unat (fil_sect fp) = sector_at img V ?c ?k"
    using ok k(1) by (simp add: fil_ok_def)
  have c: "cluster_ok V (cluster_at img V ?c (?k div CS V))"
    using fil_okD(4) [OF ok] k(2) by (simp add: stored_def)
  have "0 < sector_at img V ?c ?k"
    using cluster_base_bound(2) [OF l c] cs_pos [OF l] by (simp add: sector_at_def)
  then have "fil_sect fp \<noteq> 0" using sect by auto
  moreover have "?k \<noteq> 0" using k(1) by (cases "?k = 0") simp_all
  moreover have "(?k - 1) div 512 = ?k div 512"
    using k(1) by (metis \<open>?k \<noteq> 0\<close> Suc_diff_1 div_Suc neq0_conv)
  ultimately show ?thesis
    using ok sect same_sector(1) [of "?k - 1" ?k V] by (simp add: fil_ok_def at_sector_def)
qed

lemma advance:
  assumes "fil_open V a fp" and "stored img V (sclust (fil_obj fp)) (fil_size fp)"
    and buf: "fil_sect fp \<noteq> 0 \<longrightarrow> fil_buf fp = img (fil_sect fp)"
    and m: "0 < m" "unat (fptr fp) + m \<le> fil_size fp" "unat d = m"
    and cl: "fil_clust fp = cluster_at img V (sclust (fil_obj fp)) ((unat (fptr fp) + m - 1) div CS V)"
    and sect: "(unat (fptr fp) + m) mod 512 \<noteq> 0 \<Longrightarrow>
      unat (fil_sect fp) = sector_at img V (sclust (fil_obj fp)) (unat (fptr fp) + m)"
  shows "fil_ok img V a (fp\<lparr>fptr := fptr fp + d\<rparr>)" "unat (fptr fp + d) = unat (fptr fp) + m"
proof -
  have "unat (fptr fp) + m < 2 ^ 32"
    using m(2) unsigned_less [of "objsize (fil_obj fp)", where ?'a = nat] by (simp add: fil_size_def)
  then show p: "unat (fptr fp + d) = unat (fptr fp) + m"
    using m(3) by (simp add: unat_word_ariths)
  show "fil_ok img V a (fp\<lparr>fptr := fptr fp + d\<rparr>)"
    using assms by (simp add: fil_ok_def p)
qed

lemma part_step:
  assumes l: "layout n V" and len: "\<And>s. length (img s) = 512" and op: "fil_open V a fp"
    and st: "stored img V (sclust (fil_obj fp)) (fil_size fp)" and at: "at_sector img V fp"
    and btr: "btr \<noteq> 0" "unat (fptr fp) + unat btr \<le> fil_size fp"
  shows "fil_ok img V a (fp\<lparr>fptr := fptr fp + part_count btr fp\<rparr>)"
    "unat (fptr fp + part_count btr fp) = unat (fptr fp) + unat (part_count btr fp)"
    "0 < unat (part_count btr fp)" "unat (part_count btr fp) \<le> unat btr"
    "part_data btr fp = map (file_byte img V (sclust (fil_obj fp)))
       [unat (fptr fp)..<unat (fptr fp) + unat (part_count btr fp)]"
proof -
  let ?k = "unat (fptr fp)" and ?c = "sclust (fil_obj fp)" and ?m = "unat (part_count btr fp)"
  have md: "unat (fptr fp mod 512) = ?k mod 512" by (simp add: unat_mod)
  have rest: "unat (512 - fptr fp mod 512) = 512 - ?k mod 512"
    by (simp add: unat_sub word_le_nat_alt md)
  have m: "?m = min (unat btr) (512 - ?k mod 512)"
    unfolding part_count_def Let_def by (simp add: word_less_nat_alt rest min_def)
  have b: "0 < unat btr" using btr(1) by (simp add: unat_gt_0)
  have k: "?k mod 512 < 512" by simp
  show pos: "0 < ?m" "?m \<le> unat btr" using m b k by linarith+
  have low: "?k mod 512 + ?m \<le> 512" using m k by linarith
  have c: "fil_clust fp = cluster_at img V ?c ((?k + ?m - 1) div CS V)"
  proof -
    have "?k mod 512 + (?m - 1) < 512" using low pos by linarith
    from add_below(1) [OF this] have "(?k + ?m - 1) div 512 = ?k div 512"
      using pos by simp
    from same_sector(1) [OF this] show ?thesis using at by (simp add: at_sector_def)
  qed
  have sect: "unat (fil_sect fp) = sector_at img V ?c (?k + ?m)" if "(?k + ?m) mod 512 \<noteq> 0"
  proof -
    have "?k mod 512 + ?m \<noteq> 512"
    proof
      assume "?k mod 512 + ?m = 512"
      then have "(?k + ?m) mod 512 = 0" by (metis mod_add_left_eq mod_self)
      with that show False by simp
    qed
    then have "?k mod 512 + ?m < 512" using low by simp
    from same_sector(2) [OF add_below(1) [OF this]] show ?thesis using at by (simp add: at_sector_def)
  qed
  have fits: "?k + ?m \<le> fil_size fp" using btr(2) pos by linarith
  have buf: "fil_buf fp = img (fil_sect fp)" using at by (simp add: at_sector_def)
  show "fil_ok img V a (fp\<lparr>fptr := fptr fp + part_count btr fp\<rparr>)"
    "unat (fptr fp + part_count btr fp) = ?k + ?m"
    using advance [OF op st _ pos(1) fits refl c sect] buf by auto
  have "fil_sect fp = of_nat (sector_at img V ?c ?k)"
    using at by (intro word_of_unat) (simp add: at_sector_def)
  then show "part_data btr fp = map (file_byte img V ?c) [?k..<?k + ?m]"
    using part_is_bytes [OF low len] buf by (simp add: part_data_def md)
qed

context volume_disk begin

lemma load_sector_ok:
  assumes m: "mounted vsectors img V a s" and drv: "fs_drv fs = 0" and sect: "unat sect < vsectors" "sect \<noteq> 0"
    and buf: "fil_sect fp \<noteq> 0 \<longrightarrow> fil_buf fp = img (fil_sect fp)"
  shows "returns up (load_sector dev fs sect fp) s (\<lambda>(res, fp') t. res = FR_OK \<and> mounted vsectors img V a t
    \<and> fp' = fp\<lparr>fil_buf := img sect, fil_sect := sect\<rparr>)"
proof (cases "fil_sect fp = sect")
  case True
  then show ?thesis
    using m buf sect(2) by (auto simp: load_sector_def intro!: return_intros)
next
  case False
  show ?thesis
    unfolding load_sector_def
    apply (simp only: False drv simp_thms if_True)
    apply (rule returns_bind [where R = "\<lambda>(res, fp') t. res = FR_OK \<and> mounted vsectors img V a t
      \<and> fp' = fp\<lparr>fil_buf := img sect\<rparr>"])
     apply (rule returns_bind [OF disk_fetch_one [OF sect(1)]])
    using m by (auto intro!: return_intros)
qed

lemma read_cluster_ok:
  assumes m: "mounted vsectors img V a s" and ok: "fil_ok img V a fp"
    and ptr: "unat (fptr fp) mod 512 = 0" "unat (fptr fp) < fil_size fp"
    and csect: "unat csect = unat (fptr fp) div 512 mod cs V"
  shows "returns up (read_cluster dev csect fp) s (\<lambda>(res, fp') t. res = FR_OK \<and> mounted vsectors img V a t
    \<and> fp' = fp\<lparr>fil_clust := cluster_at img V (sclust (fil_obj fp)) (unat (fptr fp) div CS V)\<rparr>)"
proof -
  let ?k = "unat (fptr fp)" and ?c = "sclust (fil_obj fp)"
  have l: "layout vsectors V" by (rule mounted_simps(1) [OF m])
  note pos = cs_pos [OF l]
  have here: "cluster_ok V (cluster_at img V ?c (?k div CS V))"
    using fil_okD(4) [OF ok] ptr(2) by (simp add: stored_def)
  have nofail: "\<not> cluster_at img V ?c (?k div CS V) < 2" "cluster_at img V ?c (?k div CS V) \<noteq> 0xFFFFFFFF"
    using cluster_okD [OF here] layoutD(8) [OF l] unsigned_less [of "n_fatent V", where ?'a = nat]
    by (auto simp: word_less_nat_alt)
  have zero: "csect = 0 \<longleftrightarrow> ?k div 512 mod cs V = 0"
    using csect by (metis unat_eq_0)
  show ?thesis
  proof (cases "csect = 0")
    case False
    then have ne: "?k div 512 mod cs V \<noteq> 0" using zero by simp
    then have "?k \<noteq> 0" by (cases "?k = 0") simp_all
    moreover from this ne have "(?k - 1) div CS V = ?k div CS V"
      using cluster_before(2) [OF ptr(1) _ pos] by simp
    ultimately have "fil_clust fp = cluster_at img V ?c (?k div CS V)"
      using ok by (simp add: fil_ok_def)
    then show ?thesis
      using False m by (auto simp: read_cluster_def intro!: return_intros)
  next
    case True
    have step: "returns up (if fptr fp = 0 then fret ?c else get_fat dev (fil_obj fp) (fil_clust fp)) s
      (\<lambda>v t. v = cluster_at img V ?c (?k div CS V) \<and> mounted vsectors img V a t)"
    proof (cases "fptr fp = 0")
      case True
      then show ?thesis using m by (auto intro!: return_intros)
    next
      case False
      then have k: "?k \<noteq> 0" by (simp add: unat_eq_0)
      then have next_cl: "?k div CS V = Suc ((?k - 1) div CS V)"
        using cluster_before(1) [OF ptr(1) _ pos] zero \<open>csect = 0\<close> by simp
      have clust: "fil_clust fp = cluster_at img V ?c ((?k - 1) div CS V)"
        using ok k by (simp add: fil_ok_def)
      have "cluster_ok V (fil_clust fp)"
        unfolding clust using fil_okD(4) [OF ok] ptr(2) k by (auto simp: stored_def)
      from get_fat_ok [OF m fil_okD(2) [OF ok] this] show ?thesis
        using False by (simp add: next_cl clust)
    qed
    show ?thesis
      unfolding read_cluster_def
      apply (simp only: True simp_thms if_True)
      apply (rule returns_bind [OF step])
      using nofail by (auto intro!: return_intros)
  qed
qed

text \<open>What a call of the loop promises: \<open>m\<close> bytes from the pointer on, and the object kept.\<close>

definition read_result :: "nat \<Rightarrow> FATFS \<Rightarrow> nat \<Rightarrow> FIL \<Rightarrow> nat \<Rightarrow> u8 list \<Rightarrow> nat \<Rightarrow>
    FRESULT \<times> FIL \<times> u32 \<times> u8 list \<Rightarrow> 'b fat_sys \<Rightarrow> bool" where
  "read_result n V a fp m acc r0 = (\<lambda>(res, fp', r, data) t. res = FR_OK \<and> mounted n img V a t
     \<and> fil_ok img V a fp' \<and> fil_obj fp' = fil_obj fp \<and> unat (fptr fp') = unat (fptr fp) + m
     \<and> unat r = r0 + m
     \<and> data = acc @ map (file_byte img V (sclust (fil_obj fp))) [unat (fptr fp)..<unat (fptr fp) + m])"

lemma read_result_step:
  assumes "read_result n V a fp' m' (acc @ map (file_byte img V (sclust (fil_obj fp))) [unat (fptr fp)..<unat (fptr fp) + d])
      (r0 + d) x t"
    and "fil_obj fp' = fil_obj fp" and "unat (fptr fp') = unat (fptr fp) + d" and "m = d + m'"
  shows "read_result n V a fp m acc r0 x t"
  using assms upt_add_eq_append [of "unat (fptr fp)" "unat (fptr fp) + d" m']
  by (auto simp: read_result_def add.assoc simp flip: map_append)

text \<open>How many sectors are read at once: all that are wanted, but no more than are left in the cluster.\<close>

definition chunk :: "FATFS \<Rightarrow> u32 \<Rightarrow> u32 \<Rightarrow> u32" where
  "chunk V c btr = (if ucast (csize V) < c + btr div 512 then ucast (csize V) - c else btr div 512)"

lemma chunk_ok:
  assumes l: "layout n V" and lt: "unat c < cs V"
  shows "unat (chunk V c btr) = min (unat btr div 512) (cs V - unat c)"
proof -
  have csz: "unat (ucast (csize V) :: u32) = cs V"
    by (simp add: cs_def unat_ucast_up)
  have sum: "unat (c + btr div 512) = unat c + unat btr div 512"
    using lt cs_le [OF l] unsigned_less [of btr, where ?'a = nat]
    by (simp add: unat_word_ariths unat_div)
  show ?thesis
    using lt by (simp add: chunk_def word_less_nat_alt csz sum unat_sub word_le_nat_alt unat_div min_def)
qed

lemma sector_word:
  assumes l: "layout n V" and c: "cluster_ok V (cluster_at img V c (k div CS V))" and cs: "unat s = k div 512 mod cs V"
  shows "unat (clust2sect V (cluster_at img V c (k div CS V)) + s) = sector_at img V c k"
    "unat (clust2sect V (cluster_at img V c (k div CS V)) + s) < n"
    "clust2sect V (cluster_at img V c (k div CS V)) + s \<noteq> 0"
proof -
  have "k div 512 mod cs V + 1 \<le> cs V" using cs_pos [OF l] by (simp add: Suc_le_eq)
  note sb = sector_bound [OF l c this]
  show u: "unat (clust2sect V (cluster_at img V c (k div CS V)) + s) = sector_at img V c k"
    using sb(3) by (simp add: unat_word_ariths clust2sect_ok(1) [OF l c] cs sector_at_def)
  show "unat (clust2sect V (cluster_at img V c (k div CS V)) + s) < n" using sb(1) by (simp add: u)
  show "clust2sect V (cluster_at img V c (k div CS V)) + s \<noteq> 0"
    using u sb(2) by (metis less_irrefl unat_0 zero_less_one)
qed

text \<open>Whole sectors go to the caller's buffer directly.\<close>

lemma read_whole:
  fixes fp :: FIL and w sect :: u32
  defines "k \<equiv> unat (fptr fp)" and "c \<equiv> sclust (fil_obj fp)"
  assumes t: "mounted vsectors img V a t" and fp: "fil_open V a fp" "stored img V c (fil_size fp)"
    "fil_sect fp \<noteq> 0 \<longrightarrow> fil_buf fp = img (fil_sect fp)" "fil_clust fp = cluster_at img V c (k div CS V)"
    and start: "k mod 512 = 0" "unat sect = sector_at img V c k"
    and w: "0 < unat w" "k div 512 mod cs V + unat w \<le> cs V" "k + 512 * unat w \<le> fil_size fp"
    and "next": "\<And>t. mounted vsectors img V a t \<Longrightarrow> fil_ok img V a (fp\<lparr>fptr := fptr fp + 512 * w\<rparr>) \<Longrightarrow>
      unat (fptr fp + 512 * w) = k + 512 * unat w \<Longrightarrow> unat (512 * w) = 512 * unat w \<Longrightarrow>
      returns up (K (map (file_byte img V c) [k..<k + 512 * unat w])) t Q"
  shows "returns up (fbind (disk_fetch dev 0 sect w) (\<lambda>(r, data). if r \<noteq> RES_OK then E data else K data)) t Q"
proof -
  have l: "layout vsectors V" by (rule mounted_simps(1) [OF t])
  have fsz: "fil_size fp < 2 ^ 32"
    using unsigned_less [of "objsize (fil_obj fp)", where ?'a = nat] by (simp add: fil_size_def)
  then have small: "unat w < 2 ^ 23" using w(3) by simp
  then have u: "unat (512 * w) = 512 * unat w" by (simp add: unat_word_ariths)
  have "k < fil_size fp" using w by simp
  then have cok: "cluster_ok V (cluster_at img V c (k div CS V))"
    using fp(2) by (simp add: stored_def)
  have inside: "unat sect + unat w \<le> vsectors"
    using sector_bound(1) [OF l cok w(2,1)] by (simp add: start(2))
  have bytes: "concat (map (\<lambda>i. img (sect + of_nat i)) [0..<unat w]) = map (file_byte img V c) [k..<k + 512 * unat w]"
    unfolding word_of_unat [OF start(2)] by (rule sectors_are_bytes [OF start(1) w(2) img_length])
  have last: "(k + (512 * unat w - 1)) div CS V = k div CS V"
    by (rule sector_run(1) [OF start(1)]) (use w(1,2) in linarith)
  have cl: "fil_clust fp = cluster_at img V (sclust (fil_obj fp)) ((unat (fptr fp) + 512 * unat w - 1) div CS V)"
    using last w(1) fp(4) by (simp add: k_def c_def)
  have whole: "(unat (fptr fp) + 512 * unat w) mod 512 = 0" using start(1) by (simp add: k_def)
  have adv: "fil_ok img V a (fp\<lparr>fptr := fptr fp + 512 * w\<rparr>)" "unat (fptr fp + 512 * w) = unat (fptr fp) + 512 * unat w"
    using advance [OF fp(1) fp(2) [unfolded c_def] fp(3) _ w(3) [unfolded k_def] u cl] w(1) whole by auto
  show ?thesis
    apply (rule returns_bind [OF disk_fetch_ok [OF inside small]])
    apply (clarsimp simp only: simp_thms if_False split: prod.splits)
    apply (simp only: bytes)
    by (rule "next") (use t adv u in \<open>simp_all add: k_def\<close>)
qed

lemma read_loop_ok:
  assumes "mounted vsectors img V a s" and "fil_ok img V a fp" and "unat (fptr fp) + unat btr \<le> fil_size fp"
    and "unat btr < n" and "unat br + unat btr < 2 ^ 32"
  shows "returns up (read_loop n dev fp btr br acc) s (read_result vsectors V a fp (unat btr) acc (unat br))"
  using assms
proof (induction n arbitrary: s fp btr br acc)
  case (Suc n)
  note m = Suc.prems(1) and ok = Suc.prems(2)
  let ?k = "unat (fptr fp)" and ?c = "sclust (fil_obj fp)" and ?B = "file_byte img V (sclust (fil_obj fp))"
  have l: "layout vsectors V" by (rule mounted_simps(1) [OF m])
  have op: "fil_open V a fp" and own: "obj_fs (fil_obj fp) = a" and st: "stored img V ?c (fil_size fp)"
    using fil_okD [OF ok] by auto
  show ?case
  proof (cases "btr = 0")
    case True
    then show ?thesis
      using m ok by (auto intro!: return_intros simp: read_result_def)
  next
    case False
    then have btr: "0 < unat btr" by (simp add: unat_gt_0)
    have k: "?k < fil_size fp" using btr Suc.prems(3) by linarith
    have rest: "returns up (read_loop n dev fp' (btr - d) (br + d) (acc @ data)) t
        (read_result vsectors V a fp (unat btr) acc (unat br))"
      if "mounted vsectors img V a t" "fil_ok img V a fp'" "fil_obj fp' = fil_obj fp"
        "unat (fptr fp') = ?k + unat d" "0 < unat d" "unat d \<le> unat btr" "data = map ?B [?k..<?k + unat d]" for t fp' d data
    proof -
      have sub: "unat (btr - d) = unat btr - unat d"
        using that(6) by (simp add: unat_sub word_le_nat_alt)
      have add: "unat (br + d) = unat br + unat d"
        using that(6) Suc.prems(5) by (simp add: unat_word_ariths)
      have "returns up (read_loop n dev fp' (btr - d) (br + d) (acc @ data)) t
          (read_result vsectors V a fp' (unat (btr - d)) (acc @ data) (unat (br + d)))"
      proof (rule Suc.IH)
        show "unat (fptr fp') + unat (btr - d) \<le> fil_size fp'"
          using Suc.prems(3) that(6) by (simp add: that(3,4) sub fil_size_def)
        show "unat (btr - d) < n" "unat (br + d) + unat (btr - d) < 2 ^ 32"
          using Suc.prems(4,5) that(5,6) by (simp_all add: sub add)
      qed (use that in simp_all)
      then show ?thesis
        unfolding sub add that(7)
        by (rule returns_weaken) (erule read_result_step, use that in simp_all)
    qed
    have partial: "returns up (read_loop n dev (fp'\<lparr>fptr := fptr fp' + part_count btr fp'\<rparr>)
          (btr - part_count btr fp') (br + part_count btr fp') (acc @ part_data btr fp')) t
        (read_result vsectors V a fp (unat btr) acc (unat br))"
      if t: "mounted vsectors img V a t" and fp': "fil_open V a fp'" "fil_obj fp' = fil_obj fp" "fptr fp' = fptr fp"
        "at_sector img V fp'" for t fp'
    proof -
      have st': "stored img V (sclust (fil_obj fp')) (fil_size fp')"
        and fit: "unat (fptr fp') + unat btr \<le> fil_size fp'"
        using st Suc.prems(3) by (simp_all add: fp' fil_size_def)
      note ps = part_step [OF l img_length fp'(1) st' fp'(4) False fit]
      show ?thesis
        by (rule rest [OF t ps(1)]) (use ps(2-5) in \<open>simp_all add: fp'\<close>)
    qed
    have mod_word: "fptr fp mod 512 = 0 \<longleftrightarrow> ?k mod 512 = 0"
      by (simp add: unat_eq_0 [symmetric] unat_mod)
    show ?thesis
    proof (cases "?k mod 512 = 0")
      case False
      have at: "at_sector img V fp" by (rule inside_sector [OF l ok False k])
      show ?thesis
        using \<open>btr \<noteq> 0\<close> False partial [OF m op refl refl at]
        by (auto simp: mod_word Let_def intro!: return_intros)
    next
      case True
      let ?cs = "fptr fp div 512 AND (ucast (csize V) - 1)"
      let ?fp = "fp\<lparr>fil_clust := cluster_at img V ?c (?k div CS V)\<rparr>"
      have csect: "unat ?cs = ?k div 512 mod cs V"
        by (simp add: sector_in_cluster [OF l] unat_div)
      have cok: "cluster_ok V (cluster_at img V ?c (?k div CS V))"
        using st k by (simp add: stored_def)
      let ?sect = "clust2sect V (cluster_at img V ?c (?k div CS V)) + ?cs"
      note sect = sector_word [OF l cok csect]
      have nz: "clust2sect V (cluster_at img V ?c (?k div CS V)) \<noteq> 0"
        by (rule clust2sect_ok(2) [OF l cok])
      have fp: "fil_open V a ?fp" "fil_obj ?fp = fil_obj fp" "fptr ?fp = fptr fp"
        "fil_sect ?fp \<noteq> 0 \<longrightarrow> fil_buf ?fp = img (fil_sect ?fp)" "stored img V (sclust (fil_obj ?fp)) (fil_size ?fp)"
        using op ok st by (simp_all add: fil_ok_def)
      have clust: "fil_clust ?fp = cluster_at img V ?c (?k div CS V)" by simp
      have lt: "unat ?cs < cs V" using cs_pos [OF l] by (simp add: csect)
      let ?cc = "chunk V ?cs btr"
      note cc = chunk_ok [OF l lt, of btr]
      have direct: "returns up (fbind (disk_fetch dev 0 ?sect ?cc) (\<lambda>(r, data).
            if r \<noteq> RES_OK then fret (FR_DISK_ERR, fil_abort FR_DISK_ERR ?fp, br, acc @ data)
            else read_loop n dev (?fp\<lparr>fptr := fptr ?fp + 512 * ?cc\<rparr>) (btr - 512 * ?cc) (br + 512 * ?cc) (acc @ data))) t
          (read_result vsectors V a fp (unat btr) acc (unat br))"
        if t: "mounted vsectors img V a t" and "btr div 512 \<noteq> 0" for t
      proof (rule read_whole [OF t fp(1,5,4)])
        have "0 < unat btr div 512" using that(2) by (simp add: unat_gt_0 [symmetric] unat_div)
        then show pos: "0 < unat ?cc" using lt unfolding cc by simp
        show "unat (fptr ?fp) div 512 mod cs V + unat ?cc \<le> cs V" using lt unfolding cc csect by simp
        have room: "512 * unat ?cc \<le> unat btr" unfolding cc by simp
        then show "unat (fptr ?fp) + 512 * unat ?cc \<le> fil_size ?fp" using Suc.prems(3) by simp
        show "returns up (read_loop n dev (?fp\<lparr>fptr := fptr ?fp + 512 * ?cc\<rparr>) (btr - 512 * ?cc) (br + 512 * ?cc)
            (acc @ map (file_byte img V (sclust (fil_obj ?fp))) [unat (fptr ?fp)..<unat (fptr ?fp) + 512 * unat ?cc])) t
          (read_result vsectors V a fp (unat btr) acc (unat br))"
          if "mounted vsectors img V a t" "fil_ok img V a (?fp\<lparr>fptr := fptr ?fp + 512 * ?cc\<rparr>)"
            "unat (fptr ?fp + 512 * ?cc) = unat (fptr ?fp) + 512 * unat ?cc" "unat (512 * ?cc) = 512 * unat ?cc" for t
          by (rule rest [OF that(1,2)]) (use that(3,4) pos room in simp_all)
      qed (use True sect(1) in simp_all)
      have buffered: "returns up (fbind (load_sector dev (fs_at s a) ?sect ?fp) (\<lambda>(res, fp).
            if res \<noteq> FR_OK then fret (res, fil_abort res fp, br, acc)
            else read_loop n dev (fp\<lparr>fptr := fptr fp + part_count btr fp\<rparr>) (btr - part_count btr fp)
                   (br + part_count btr fp) (acc @ part_data btr fp))) t
          (read_result vsectors V a fp (unat btr) acc (unat br))"
        if t: "mounted vsectors img V a t" for t
      proof -
        have at: "at_sector img V (?fp\<lparr>fil_buf := img ?sect, fil_sect := ?sect\<rparr>)" using sect(1) by (simp add: at_sector_def)
        show ?thesis
          apply (rule returns_bind [OF load_sector_ok [OF t mounted_simps(3) [OF m] sect(2,3) fp(4)]])
          apply (clarsimp simp only: simp_thms if_False)
          by (rule partial) (use fp at in simp_all)
      qed
      show ?thesis
        apply (simp only: read_loop.simps \<open>btr \<noteq> 0\<close> if_False Let_def own)
        apply (rule returns_get_bind)
        apply (simp only: own mounted_simps [OF m] mod_word True simp_thms if_True)
        apply (rule returns_bind [OF read_cluster_ok [OF m ok True k csect]])
        apply (clarsimp simp only: simp_thms if_False nz)
        apply (simp only: clust nz if_False chunk_def [symmetric])
        by (cases "btr div 512 = 0") (simp_all only: direct buffered simp_thms if_True if_False)
    qed
  qed
qed simp

lemma validate_ok:
  assumes m: "mounted vsectors img V a s" and "obj_fs obj = a" "obj_id obj = fs_id V"
  shows "returns up (validate obj) s (\<lambda>(res, x) t. res = FR_OK \<and> x = a \<and> mounted vsectors img V a t)"
proof -
  have guard: "(obj_fs obj = 0 \<or> fs_type (fs_at s (obj_fs obj)) = 0 \<or> fs_id (fs_at s (obj_fs obj)) \<noteq> obj_id obj) = False"
    using assms mounted_simps(4,13) [OF m] mounted_type [OF m] by simp
  show ?thesis
    unfolding validate_def
    apply (rule returns_get_bind)
    apply (simp only: guard if_False)
    apply (simp only: assms(2) mounted_simps(3) [OF m])
    apply (rule returns_bind [OF disk_stat_ok])
    using m by (auto intro!: return_intros)
qed

lemma f_read_ok:
  assumes m: "mounted vsectors img V a s" and ok: "fil_ok img V a fp"
    and n: "n = min (unat btr) (fil_size fp - unat (fptr fp))"
  shows "returns up (f_read dev fp btr) s (read_result vsectors V a fp n [] 0)"
proof -
  have op: "obj_fs (fil_obj fp) = a" "obj_id (fil_obj fp) = fs_id V" "fil_err fp = FR_OK" "fil_flag fp AND FA_READ \<noteq> 0"
    using fil_okD(1) [OF ok] by (simp_all add: fil_open_def)
  let ?rem = "objsize (fil_obj fp) - fptr fp"
  let ?btr = "if ?rem < btr then ?rem else btr"
  have rem: "unat ?rem = fil_size fp - unat (fptr fp)"
    using fil_okD(3) [OF ok] by (simp add: fil_size_def unat_sub word_le_nat_alt)
  then have len: "unat ?btr = n"
    unfolding n by (simp add: word_less_nat_alt)
  have fit: "unat (fptr fp) + unat ?btr \<le> fil_size fp"
    unfolding len n using fil_okD(3) [OF ok] by simp
  have loop: "returns up (read_loop (unat ?btr + 1) dev fp ?btr 0 []) t (read_result vsectors V a fp n [] 0)"
    if "mounted vsectors img V a t" for t
    using read_loop_ok [OF that ok fit, of "unat ?btr + 1" 0 "[]"] unsigned_less [of ?btr, where ?'a = nat]
    unfolding len by simp
  show ?thesis
    unfolding f_read_def
    apply (rule returns_bind [OF validate_ok [OF m op(1,2)]])
    apply (clarsimp simp only: simp_thms if_False op Let_def)
    by (rule loop)
qed

lemma seek_loop_ok:
  assumes "mounted vsectors img V a s" and "obj_fs (fil_obj fp) = a" and bcs: "unat bcs = CS V"
    and c: "c = sclust (fil_obj fp)" and "stored img V c (unat (fptr fp) + unat ofs)"
    and "unat (fptr fp) = j * CS V" and "clst = cluster_at img V c j" and "fil_clust fp = clst"
    and "0 < unat ofs" and "unat ofs div CS V < n" and "unat (fptr fp) + unat ofs < 2 ^ 32"
  shows "returns up (seek_loop n dev bcs fp clst ofs) s (\<lambda>(res, fp', clst', ofs') t. res = FR_OK
    \<and> mounted vsectors img V a t \<and> (\<exists>i p. fp' = fp\<lparr>fil_clust := clst', fptr := p\<rparr>
    \<and> clst' = cluster_at img V c i \<and> unat p = i * CS V \<and> 0 < unat ofs' \<and> unat ofs' \<le> CS V
    \<and> unat p + unat ofs' = unat (fptr fp) + unat ofs))"
  using assms(1,2,4-)
proof (induction n arbitrary: s fp clst ofs j)
  case (Suc n)
  note m = Suc.prems(1)
  have l: "layout vsectors V" by (rule mounted_simps(1) [OF m])
  have pos: "0 < CS V" using cs_pos [OF l] by (simp add: CS_def)
  show ?case
  proof (cases "bcs < ofs")
    case False
    then have "unat ofs \<le> CS V" using bcs by (simp add: word_less_nat_alt)
    then show ?thesis
      using False Suc.prems by (auto intro!: return_intros exI [of _ j] exI [of _ "fptr fp"])
  next
    case True
    then have big: "CS V < unat ofs" using bcs by (simp add: word_less_nat_alt)
    have ok1: "cluster_ok V clst" and ok2: "cluster_ok V (fat_entry img V clst)"
    proof -
      have "j * CS V < unat (fptr fp) + unat ofs" "Suc j * CS V < unat (fptr fp) + unat ofs"
        using big Suc.prems(5) by simp_all
      then have "cluster_ok V (cluster_at img V c (j * CS V div CS V))"
        "cluster_ok V (cluster_at img V c (Suc j * CS V div CS V))"
        using Suc.prems(4) unfolding stored_def by blast+
      then show "cluster_ok V clst" "cluster_ok V (fat_entry img V clst)"
        using pos Suc.prems(6) by simp_all
    qed
    let ?clst = "fat_entry img V clst"
    let ?fp = "fp\<lparr>fil_clust := ?clst, fptr := fptr fp + bcs\<rparr>"
    have nofail: "(?clst = 0xFFFFFFFF) = False" "(?clst \<le> 1 \<or> n_fatent V \<le> ?clst) = False"
      using cluster_okD [OF ok2] unsigned_less [of "n_fatent V", where ?'a = nat]
      by (auto simp: word_less_nat_alt word_le_nat_alt)
    have p: "unat (fptr fp + bcs) = unat (fptr fp) + CS V" "unat (ofs - bcs) = unat ofs - CS V"
      using big Suc.prems(10) True by (simp_all add: unat_word_ariths bcs unat_sub word_le_nat_alt)
    have total: "unat (fptr fp + bcs) + unat (ofs - bcs) = unat (fptr fp) + unat ofs"
      using p big by simp
    have IH: "returns up (seek_loop n dev bcs ?fp ?clst (ofs - bcs)) t (\<lambda>(res, fp', clst', ofs') t. res = FR_OK
      \<and> mounted vsectors img V a t \<and> (\<exists>i p. fp' = ?fp\<lparr>fil_clust := clst', fptr := p\<rparr>
      \<and> clst' = cluster_at img V c i \<and> unat p = i * CS V \<and> 0 < unat ofs' \<and> unat ofs' \<le> CS V
      \<and> unat p + unat ofs' = unat (fptr ?fp) + unat (ofs - bcs)))" if "mounted vsectors img V a t" for t
    proof (rule Suc.IH [OF that])
      have "unat ofs div CS V = Suc ((unat ofs - CS V) div CS V)"
        using big pos by (simp add: le_div_geq)
      then show "unat (ofs - bcs) div CS V < n" using Suc.prems(9) p by simp
      show "unat (fptr ?fp) = Suc j * CS V" using p Suc.prems(5) by simp
    qed (use Suc.prems p big total in simp_all)
    show ?thesis
      apply (simp only: seek_loop.simps True if_True)
      apply (rule returns_bind [OF get_fat_ok [OF m Suc.prems(2) ok1]])
      apply (clarsimp simp only:)
      apply (rule returns_get_bind)
      apply (simp only: Suc.prems(2) mounted_simps nofail if_False)
      apply (rule returns_weaken [OF IH])
      by (auto simp: total)
  qed
qed simp

end

end
