(* ===== verification/FatDir.thy ===== *)
theory FatDir
  imports FatFile
begin

unbundle bit_operations_syntax

text \<open>
  Directories. A directory is a sequence of records of 32 bytes, the fixed root table of a FAT12 or
  FAT16 volume or the clusters of a chain; \<open>dir_at\<close> says that a directory object stands at a
  record. \<open>dir_find\<close> and \<open>dir_read\<close> return on every volume, whatever its table and its
  directories hold: a chain that never ends is cut off at 65536 records.
\<close>

lemma returns_bind2:
  assumes "returns up m s (\<lambda>(x, y) t. R x y t)" and "\<And>x y t. R x y t \<Longrightarrow> returns up (k (x, y)) t Q"
  shows "returns up (fbind m k) s Q"
  by (rule returns_bind [OF assms(1)]) (use assms(2) in auto)

section \<open>The records of a directory\<close>

text \<open>Cluster zero is the root directory.\<close>

definition dstart :: "FATFS \<Rightarrow> u32 \<Rightarrow> u32" where
  "dstart V c = (if c = 0 \<and> fs_type V = FS_FAT32 then dirbase V else c)"

definition dir_sector :: "(u32 \<Rightarrow> u8 list) \<Rightarrow> FATFS \<Rightarrow> u32 \<Rightarrow> nat \<Rightarrow> nat" where
  "dir_sector img V c k =
     (if dstart V c = 0 then unat (dirbase V) + k div 16 else sector_at img V (dstart V c) (32 * k))"

definition dir_rec :: "(u32 \<Rightarrow> u8 list) \<Rightarrow> FATFS \<Rightarrow> u32 \<Rightarrow> nat \<Rightarrow> u8 list" where
  "dir_rec img V c k = take 32 (drop (32 * k mod 512) (img (of_nat (dir_sector img V c k))))"

definition dir_has :: "(u32 \<Rightarrow> u8 list) \<Rightarrow> FATFS \<Rightarrow> u32 \<Rightarrow> nat \<Rightarrow> bool" where
  "dir_has img V c k \<longleftrightarrow> k < 65536 \<and>
     (if dstart V c = 0 then k < unat (n_rootdir V)
      else \<forall>j\<le>k. cluster_ok V (cluster_at img V (dstart V c) (32 * j div CS V)))"

text \<open>How the sequence ends behind its last record \<open>k\<close>: properly or with a broken chain.\<close>

definition dir_end :: "(u32 \<Rightarrow> u8 list) \<Rightarrow> FATFS \<Rightarrow> u32 \<Rightarrow> nat \<Rightarrow> FRESULT" where
  "dir_end img V c k =
     (if Suc k = 65536 \<or> dstart V c = 0 \<or> 1 < fat_entry img V (cluster_at img V (dstart V c) (32 * k div CS V))
      then FR_NO_FILE else FR_INT_ERR)"

definition dir_at :: "(u32 \<Rightarrow> u8 list) \<Rightarrow> FATFS \<Rightarrow> nat \<Rightarrow> u32 \<Rightarrow> nat \<Rightarrow> DIR \<Rightarrow> bool" where
  "dir_at img V a c k dp \<longleftrightarrow> obj_fs (dir_obj dp) = a \<and> sclust (dir_obj dp) = c \<and> dir_has img V c k
     \<and> unat (dptr dp) = 32 * k \<and> dir_ofs dp = 32 * k mod 512
     \<and> dir_clust dp = (if dstart V c = 0 then 0 else cluster_at img V (dstart V c) (32 * k div CS V))
     \<and> unat (dir_sect dp) = dir_sector img V c k"

lemma layout_root:
  assumes "layout n V"
  shows "fs_type V = FS_FAT32 \<Longrightarrow> n_rootdir V = 0"
    "fs_type V \<noteq> FS_FAT32 \<Longrightarrow> unat (dirbase V) + unat (n_rootdir V) div 16 \<le> unat (database V)
      \<and> 0 < unat (n_rootdir V) \<and> unat (n_rootdir V) mod 16 = 0 \<and> 0 < unat (dirbase V)"
proof -
  have "if fs_type V = FS_FAT32 then n_rootdir V = 0
        else unat (dirbase V) + unat (n_rootdir V) div 16 \<le> unat (database V)
          \<and> 0 < unat (n_rootdir V) \<and> unat (n_rootdir V) mod 16 = 0 \<and> 0 < unat (dirbase V)"
    using assms unfolding layout_def by blast
  then show "fs_type V = FS_FAT32 \<Longrightarrow> n_rootdir V = 0"
    "fs_type V \<noteq> FS_FAT32 \<Longrightarrow> unat (dirbase V) + unat (n_rootdir V) div 16 \<le> unat (database V)
      \<and> 0 < unat (n_rootdir V) \<and> unat (n_rootdir V) mod 16 = 0 \<and> 0 < unat (dirbase V)"
    by (simp_all split: if_splits)
qed

lemma dir_has_Suc: "dir_has img V c (Suc k) \<Longrightarrow> dir_has img V c k"
  by (auto simp: dir_has_def split: if_splits)

lemma dir_sector_bound:
  assumes l: "layout n V" and h: "dir_has img V c k"
  shows "0 < dir_sector img V c k" "dir_sector img V c k < n"
proof -
  have "0 < dir_sector img V c k \<and> dir_sector img V c k < n"
  proof (cases "dstart V c = 0")
    case True
    then have k: "k < unat (n_rootdir V)" using h by (simp add: dir_has_def)
    then have ty: "fs_type V \<noteq> FS_FAT32" using layout_root(1) [OF l] by auto
    note r = layout_root(2) [OF l ty]
    have "k div 16 < unat (n_rootdir V) div 16"
      using k r by (metis div_less_mono mult_div_mod_eq add.right_neutral less_mult_imp_div_less mult.commute)
    then show ?thesis
      using r layoutD(7) [OF l] True by (simp add: dir_sector_def)
  next
    case False
    have "cluster_ok V (cluster_at img V (dstart V c) (32 * k div CS V))"
      using h False by (simp add: dir_has_def)
    then show ?thesis
      using sector_bound [OF l, of img "dstart V c" "32 * k" 1] cs_pos [OF l] False
      by (simp add: dir_sector_def Suc_leI)
  qed
  then show "0 < dir_sector img V c k" "dir_sector img V c k < n" by auto
qed

text \<open>Sixteen records to a sector.\<close>

lemma rec_pos:
  "32 * k div 512 = k div (16 :: nat)" "32 * k mod 512 = 32 * (k mod 16)"
  "32 * k div CS V = k div 16 div cs V"
proof -
  show 1: "32 * k div 512 = k div (16 :: nat)"
    using div_mult_mult1 [of 32 k 16] by simp
  show "32 * k mod 512 = 32 * (k mod 16)"
    using mult_mod_right [of 32 k 16] by simp
  show "32 * k div CS V = k div 16 div cs V"
    by (simp only: div_CS 1)
qed

lemma dir_has_Suc_iff:
  assumes "dir_has img V c k"
  shows "dir_has img V c (Suc k) \<longleftrightarrow> Suc k < 65536 \<and>
    (if dstart V c = 0 then Suc k < unat (n_rootdir V)
     else cluster_ok V (cluster_at img V (dstart V c) (32 * Suc k div CS V)))"
  using assms by (auto simp: dir_has_def le_Suc_eq)

lemma fat_entry_small: "unat (fat_entry img V c) < 2 ^ 28"
proof -
  have b: "unat (x :: u8) < 256" for x
    using unsigned_less [of x, where ?'a = nat] by simp
  have lim: "w < 2 ^ 28 \<Longrightarrow> unat (of_nat w :: u32) < 2 ^ 28" for w
    by (subst unat_of_nat_small) simp_all
  have two: "unat x + 256 * unat y < 65536" for x y :: u8
    using b [of x] b [of y] by linarith
  have 12: "w div 16 < 2 ^ 28" "w mod 4096 < 2 ^ 28" "w < 2 ^ 28" if "w < 65536" for w :: nat
    using that by (auto intro: le_less_trans [OF div_le_dividend] less_trans [OF mod_less_divisor])
  show ?thesis
    unfolding fat_entry_def Let_def
    by (rule lim) (use 12 [OF two] in simp)
qed

lemma dir_at_set_attr [simp]: "dir_at img V a c k (set_attr v dp) = dir_at img V a c k dp"
  "dir_at img V a c k (dp\<lparr>dir_fn := f\<rparr>) = dir_at img V a c k dp"
  by (simp_all add: dir_at_def set_attr_def)

context volume_disk begin

lemma dir_sdi_ok:
  assumes m: "mounted vsectors img V a s" and dp: "obj_fs (dir_obj dp) = a" "sclust (dir_obj dp) = c"
  shows "returns up (dir_sdi dev dp 0) s (\<lambda>(res, dp') t. mounted vsectors img V a t
    \<and> dir_fn dp' = dir_fn dp \<and> dir_obj dp' = dir_obj dp \<and> obj_fs (dir_obj dp') = a
    \<and> (if dir_has img V c 0 then res = FR_OK \<and> dir_at img V a c 0 dp' else res = FR_INT_ERR))"
proof -
  have l: "layout vsectors V" by (rule mounted_simps(1) [OF m])
  have d: "(if c = 0 \<and> FS_FAT32 \<le> fs_type V then dirbase V else c) = dstart V c"
    using layoutD(2) [OF l] by (auto simp: dstart_def word_le_nat_alt FS_FAT12_def FS_FAT16_def FS_FAT32_def)
  have csz: "(ucast (csize V) * 512 \<le> (0 :: u32)) = False"
    using bcs_CS [OF l] cs_pos [OF l] by (simp add: word_le_nat_alt CS_def)
  have start: "(MAX_DIR \<le> (0 :: u32) \<or> (0 :: u32) mod 32 \<noteq> 0) = False"
    by (simp add: MAX_DIR_def)
  have root: "(ucast (n_rootdir V) \<le> (0 :: u32) div 32) \<longleftrightarrow> unat (n_rootdir V) = 0"
    by (simp add: word_le_nat_alt unat_ucast_up)
  have upd: "dir_obj (dp\<lparr>dptr := x\<rparr>) = dir_obj dp" for x by simp
  note simps = upd dp mounted_simps [OF m] Let_def d start csz root sdi_walk.simps if_False
  show ?thesis
  proof (cases "dstart V c = 0")
    case True
    have "dirbase V \<noteq> 0" if "unat (n_rootdir V) \<noteq> 0"
      using layout_root [OF l] that by (metis less_irrefl unat_0)
    then show ?thesis
      unfolding dir_sdi_def
      apply (intro returns_get_bind)
      apply (simp only: simps True if_True)
      using m True dp by (auto simp: dir_has_def dir_at_def dir_sector_def intro!: return_intros)
  next
    case False
    have "dir_has img V c 0 \<longleftrightarrow> cluster_ok V (dstart V c)"
      using False by (simp add: dir_has_def)
    then show ?thesis
      unfolding dir_sdi_def
      apply (intro returns_get_bind)
      apply (simp only: simps False if_True unat_0 div_0 add_0 One_nat_def)
      using m False dp clust2sect_ok [OF l, of "dstart V c"] clust2sect_bad [OF l, of "dstart V c"]
      by (auto simp: dir_at_def dir_sector_def sector_at_def intro!: return_intros)
  qed
qed

end

text \<open>What \<open>dir_next\<close> makes of the object at record \<open>k\<close>: the next record, or the end of the directory.
  At the end the object names no sector, but behind the last of 65536 records it stays as it is.\<close>

definition dir_stepped :: "(u32 \<Rightarrow> u8 list) \<Rightarrow> FATFS \<Rightarrow> nat \<Rightarrow> u32 \<Rightarrow> nat \<Rightarrow> DIR \<Rightarrow> FRESULT \<Rightarrow> DIR \<Rightarrow> bool" where
  "dir_stepped img V a c k dp res dp' \<longleftrightarrow> dir_fn dp' = dir_fn dp \<and> dir_obj dp' = dir_obj dp
     \<and> (if dir_has img V c (Suc k) then res = FR_OK \<and> dir_at img V a c (Suc k) dp'
        else res = dir_end img V c k
          \<and> (res = FR_NO_FILE \<longrightarrow> (if Suc k = 65536 then dp' = dp else dir_sect dp' = 0)))"

lemma dir_at_own:
  assumes "dir_at img V a c k dp"
  shows "obj_fs (dir_obj dp) = a" "sclust (dir_obj dp) = c" "dir_has img V c k" "k < 65536"
    "unat (dptr dp) = 32 * k" "dir_ofs dp = 32 * k mod 512" "unat (dir_sect dp) = dir_sector img V c k"
    "dir_clust dp = (if dstart V c = 0 then 0 else cluster_at img V (dstart V c) (32 * k div CS V))"
  using assms by (simp_all add: dir_at_def dir_has_def)

text \<open>The tests of \<open>dir_next\<close> in terms of the index of the record.\<close>

lemma dir_next_guards:
  assumes l: "layout n V" and at: "dir_at img V a c k dp"
  shows "unat (dptr dp + 32) = 32 * Suc k" "(dir_sect dp = 0) = False"
    "MAX_DIR \<le> dptr dp + 32 \<longleftrightarrow> Suc k = 65536"
    "(dptr dp + 32) mod 512 = 0 \<longleftrightarrow> Suc k mod 16 = 0"
    "unat ((dptr dp + 32) mod 512) = 32 * Suc k mod 512"
    "ucast (n_rootdir V) \<le> (dptr dp + 32) div 32 \<longleftrightarrow> unat (n_rootdir V) \<le> Suc k"
    "((dptr dp + 32) div 512 AND (ucast (csize V) - 1) = 0) \<longleftrightarrow> Suc k div 16 mod cs V = 0"
proof -
  note own = dir_at_own [OF at]
  have k: "k < 65536" by (rule own(4))
  let ?ofs = "dptr dp + 32"
  show o: "unat ?ofs = 32 * Suc k" using k own(5) by (simp add: unat_word_ariths)
  show "(dir_sect dp = 0) = False"
    using dir_sector_bound(1) [OF l own(3)] own(7) by auto
  show "MAX_DIR \<le> ?ofs \<longleftrightarrow> Suc k = 65536"
    unfolding word_le_nat_alt o using k by (auto simp: MAX_DIR_def)
  show "?ofs mod 512 = 0 \<longleftrightarrow> Suc k mod 16 = 0"
    by (simp only: unat_eq_0 [symmetric] unat_mod o) (simp add: rec_pos(2) [of "Suc k", simplified])
  show "unat (?ofs mod 512) = 32 * Suc k mod 512"
    by (simp only: unat_mod o) simp
  show "ucast (n_rootdir V) \<le> ?ofs div 32 \<longleftrightarrow> unat (n_rootdir V) \<le> Suc k"
    by (simp only: word_le_nat_alt unat_div o) (simp add: unat_ucast_up)
  show "(?ofs div 512 AND (ucast (csize V) - 1) = 0) \<longleftrightarrow> Suc k div 16 mod cs V = 0"
    by (simp only: unat_eq_0 [symmetric] sector_in_cluster [OF l] unat_div o) (simp add: rec_pos(1) [of "Suc k", simplified])
qed

text \<open>The places of neighbouring records: in the same sector, in the next sector of the same area or
  cluster, and in the next cluster.\<close>

lemma dir_neighbour:
  assumes l: "layout n V" and has: "dir_has img V c k" and below: "Suc k \<noteq> 65536"
  shows "Suc k mod 16 \<noteq> 0 \<Longrightarrow> dir_has img V c (Suc k) \<and> dir_sector img V c (Suc k) = dir_sector img V c k
      \<and> 32 * Suc k div CS V = 32 * k div CS V"
    "Suc k mod 16 = 0 \<Longrightarrow> dstart V c = 0 \<Longrightarrow> dir_sector img V c (Suc k) = Suc (dir_sector img V c k)"
    "Suc k mod 16 = 0 \<Longrightarrow> dstart V c \<noteq> 0 \<Longrightarrow> Suc k div 16 mod cs V \<noteq> 0 \<Longrightarrow> dir_has img V c (Suc k)
      \<and> dir_sector img V c (Suc k) = Suc (dir_sector img V c k) \<and> 32 * Suc k div CS V = 32 * k div CS V"
    "Suc k mod 16 = 0 \<Longrightarrow> Suc k div 16 mod cs V = 0 \<Longrightarrow> 32 * Suc k div CS V = Suc (32 * k div CS V)"
proof -
  show "dir_has img V c (Suc k) \<and> dir_sector img V c (Suc k) = dir_sector img V c k
      \<and> 32 * Suc k div CS V = 32 * k div CS V" if ns: "Suc k mod 16 \<noteq> 0"
  proof -
    have sec: "Suc k div 16 = k div 16" using ns by (simp add: div_Suc)
    have r: "unat (n_rootdir V) \<noteq> Suc k"
      using ns layout_root [OF l] by (cases "fs_type V = FS_FAT32") auto
    have cls: "32 * Suc k div CS V = 32 * k div CS V" by (simp only: rec_pos sec)
    have "dir_has img V c (Suc k)"
      unfolding dir_has_Suc_iff [OF has] cls using has below r by (auto simp: dir_has_def)
    then show ?thesis by (simp only: cls dir_sector_def sector_at_def rec_pos sec simp_thms)
  qed
  assume sector: "Suc k mod 16 = 0"
  have sec: "Suc k div 16 = Suc (k div 16)" using sector by (simp add: div_Suc)
  show "dir_sector img V c (Suc k) = Suc (dir_sector img V c k)" if "dstart V c = 0"
    using that by (simp add: dir_sector_def sec)
  show "32 * Suc k div CS V = Suc (32 * k div CS V)" if "Suc k div 16 mod cs V = 0"
    unfolding rec_pos sec using that [unfolded sec] by (simp add: div_Suc)
  show "dir_has img V c (Suc k) \<and> dir_sector img V c (Suc k) = Suc (dir_sector img V c k)
      \<and> 32 * Suc k div CS V = 32 * k div CS V"
    if chain: "dstart V c \<noteq> 0" and inside: "Suc k div 16 mod cs V \<noteq> 0"
  proof -
    have cls: "32 * Suc k div CS V = 32 * k div CS V"
      unfolding rec_pos sec using inside [unfolded sec] by (simp add: div_Suc)
    have "dir_has img V c (Suc k)"
      unfolding dir_has_Suc_iff [OF has] cls using below has chain by (auto simp: dir_has_def)
    moreover have "dir_sector img V c (Suc k) = Suc (dir_sector img V c k)"
      using chain inside [unfolded sec]
      by (simp only: dir_sector_def sector_at_def cls rec_pos(1) sec) (simp add: mod_Suc split: if_splits)
    ultimately show ?thesis using cls by simp
  qed
qed

context volume_disk begin

lemma dir_next_finish:
  assumes "mounted vsectors img V a t" "layout n V" "dir_at img V a c k dp" "dir_has img V c (Suc k)"
    and "dir_obj dp' = dir_obj dp" "dir_fn dp' = dir_fn dp"
    and "dir_clust dp' = (if dstart V c = 0 then 0 else cluster_at img V (dstart V c) (32 * Suc k div CS V))"
    and "unat (dir_sect dp') = dir_sector img V c (Suc k)"
  shows "returns up (fret (FR_OK, dp'\<lparr>dptr := dptr dp + 32, dir_ofs := unat ((dptr dp + 32) mod 512)\<rparr>)) t
      (\<lambda>(res, dp') t. mounted vsectors img V a t \<and> dir_stepped img V a c k dp res dp')"
  using assms dir_at_own(1,2) [OF assms(3)] dir_next_guards(1,5) [OF assms(2,3)]
  by (auto intro!: return_intros simp: dir_stepped_def dir_at_def)

text \<open>At a cluster boundary the chain is followed.\<close>

lemma dir_next_cluster:
  assumes m: "mounted vsectors img V a s" and at: "dir_at img V a c k dp" and below: "Suc k \<noteq> 65536"
    and pos: "Suc k mod 16 = 0" "dstart V c \<noteq> 0" "Suc k div 16 mod cs V = 0"
    and fs: "fs = fs_at s a" and dp: "dp1 = dp\<lparr>dir_sect := x\<rparr>"
  shows "returns up (fbind (get_fat dev (dir_obj dp) (dir_clust dp)) (\<lambda>clst.
       if clst \<le> 1 then fret (FR_INT_ERR, dp1)
       else if clst = 0xFFFFFFFF then fret (FR_DISK_ERR, dp1)
       else if clst \<ge> n_fatent fs then fret (FR_NO_FILE, dp1\<lparr>dir_sect := 0\<rparr>)
       else fret (FR_OK, dp1\<lparr>dir_clust := clst, dir_sect := clust2sect fs clst\<rparr>
              \<lparr>dptr := dptr dp + 32, dir_ofs := unat ((dptr dp + 32) mod 512)\<rparr>))) s
    (\<lambda>(res, dp') t. mounted vsectors img V a t \<and> dir_stepped img V a c k dp res dp')"
proof -
  have l: "layout vsectors V" by (rule mounted_simps(1) [OF m])
  note own = dir_at_own [OF at]
  let ?cl = "cluster_at img V (dstart V c) (32 * k div CS V)" and ?next = "fat_entry img V (dir_clust dp)"
  have cl: "dir_clust dp = ?cl" using own(8) pos(2) by simp
  have cok: "cluster_ok V (dir_clust dp)" using own(3) pos(2) cl by (simp add: dir_has_def)
  note cls = dir_neighbour(4) [OF l own(3) below pos(1,3)]
  have at_next: "cluster_at img V (dstart V c) (32 * Suc k div CS V) = ?next"
    by (simp add: cls cl del: mult_Suc_right)
  have has': "dir_has img V c (Suc k) \<longleftrightarrow> cluster_ok V ?next"
    unfolding dir_has_Suc_iff [OF own(3)] at_next using below own(4) pos(2) by auto
  have no_err: "(?next = 0xFFFFFFFF) = False"
    using fat_entry_small [of img V "dir_clust dp"] by auto
  have sct: "dir_sector img V c (Suc k) = cluster_base V ?next"
    unfolding dir_sector_def sector_at_def at_next using pos(2,3) by (simp only: rec_pos(1)) simp
  show ?thesis
  proof (cases "cluster_ok V ?next")
    case True
    then have no: "(?next \<le> 1) = False" "(n_fatent V \<le> ?next) = False"
      by (auto simp: cluster_ok_def word_le_nat_alt word_less_nat_alt)
    show ?thesis
      apply (rule returns_bind [OF get_fat_ok [OF m own(1) cok]])
      apply (elim conjE, simp only: no_err no fs mounted_simps [OF m] if_False)
      by (rule dir_next_finish [OF _ l at])
        (use pos(2) at_next sct clust2sect_ok [OF l True] True has' in \<open>simp_all add: dp\<close>)
  next
    case False
    have "dir_end img V c k = (if ?next \<le> 1 then FR_INT_ERR else FR_NO_FILE)"
      using below pos(2) cl by (simp add: dir_end_def not_le [symmetric])
    moreover have "?next \<le> 1 \<or> n_fatent V \<le> ?next"
      using False by (auto simp: cluster_ok_def word_le_nat_alt word_less_nat_alt)
    ultimately show ?thesis
      apply -
      apply (rule returns_bind [OF get_fat_ok [OF m own(1) cok]])
      using False has' below
      by (auto intro!: return_intros simp: no_err dp dir_stepped_def fs mounted_simps [OF m])
  qed
qed

lemma dir_next_ok:
  assumes m: "mounted vsectors img V a s" and at: "dir_at img V a c k dp"
  shows "returns up (dir_next dev dp) s (\<lambda>(res, dp') t. mounted vsectors img V a t
    \<and> dir_stepped img V a c k dp res dp')"
proof -
  have l: "layout vsectors V" by (rule mounted_simps(1) [OF m])
  note own = dir_at_own [OF at] and g = dir_next_guards [OF l at] and finish = dir_next_finish [OF m l at]
  let ?dp = "dp\<lparr>dir_sect := dir_sect dp + 1\<rparr>"
  have sel: "dir_clust ?dp = dir_clust dp" "dir_obj ?dp = dir_obj dp" by simp_all
  have up: "unat (dir_sect dp + 1) = Suc (dir_sector img V c k)" if "dir_has img V c (Suc k)"
    "dir_sector img V c (Suc k) = Suc (dir_sector img V c k)"
    using dir_sector_bound(2) [OF l that(1)] layoutD(8) [OF l] own(7) that(2) by (simp add: unat_word_ariths)
  show ?thesis
  proof (cases "Suc k = 65536")
    case True
    then show ?thesis
      unfolding dir_next_def using m own(1) g(3)
      by (auto intro!: return_intros simp: mounted_simps [OF m] dir_has_def dir_end_def dir_stepped_def)
  next
    case below: False
    note near = dir_neighbour [OF l own(3) below]
    note simps = Let_def own(1) mounted_simps [OF m] g(2) g(3,4) below if_False if_True simp_thms sel
    show ?thesis
    proof (cases "Suc k mod 16 = 0")
      case False
      show ?thesis
        unfolding dir_next_def
        apply (intro returns_get_bind)
        apply (simp only: simps False)
        by (rule finish) (use near(1) [OF False] own(7,8) in simp_all)
    next
      case sector: True
      show ?thesis
      proof (cases "dstart V c = 0")
        case root: True
        have last: "ucast (n_rootdir V) \<le> (dptr dp + 32) div 32 \<longleftrightarrow> \<not> dir_has img V c (Suc k)"
          unfolding g(6) using below own(4) by (auto simp: dir_has_Suc_iff [OF own(3)] root)
        have cl0: "(dir_clust dp = 0) = True" using own(8) root by simp
        show ?thesis
        proof (cases "dir_has img V c (Suc k)")
          case True
          show ?thesis
            unfolding dir_next_def
            apply (intro returns_get_bind)
            apply (simp only: simps sector cl0 last True)
            by (rule finish) (use up near(2) [OF sector root] root own(8) True in simp_all)
        next
          case False
          then show ?thesis
            unfolding dir_next_def
            apply -
            apply (intro returns_get_bind)
            apply (simp only: simps sector cl0 last)
            using m own(1) root below by (auto intro!: return_intros simp: dir_end_def dir_stepped_def)
        qed
      next
        case chain: False
        have cl: "(dir_clust dp = 0) = False"
          using own(3,8) chain by (auto simp: dir_has_def cluster_ok_def)
        show ?thesis
        proof (cases "Suc k div 16 mod cs V = 0")
          case False
          note n3 = near(3) [OF sector chain False]
          show ?thesis
            unfolding dir_next_def
            apply (intro returns_get_bind)
            apply (simp only: simps sector cl g(7) False)
            by (rule finish) (use n3 up own(8) chain in simp_all)
        next
          case True
          show ?thesis
            unfolding dir_next_def
            apply (intro returns_get_bind)
            apply (simp only: simps sector cl g(7) True)
            using dir_next_cluster [OF m at below sector chain True refl refl]
            by (simp only: mounted_simps [OF m])
        qed
      qed
    qed
  qed
qed

end

section \<open>Looking up a name\<close>

definition rec_matches :: "u8 list \<Rightarrow> u8 list \<Rightarrow> bool" where
  "rec_matches name e \<longleftrightarrow> e ! 11 AND AM_VOL = 0 \<and> take 11 e = name"

text \<open>The first record with the name, before the end mark.\<close>

definition dir_finds :: "(u32 \<Rightarrow> u8 list) \<Rightarrow> FATFS \<Rightarrow> u32 \<Rightarrow> u8 list \<Rightarrow> nat \<Rightarrow> bool" where
  "dir_finds img V c name k \<longleftrightarrow> dir_has img V c k \<and> (\<forall>j\<le>k. dir_rec img V c j ! 0 \<noteq> 0)
     \<and> rec_matches name (dir_rec img V c k) \<and> (\<forall>j<k. \<not> rec_matches name (dir_rec img V c j))"

fun dir_scan :: "nat \<Rightarrow> (u32 \<Rightarrow> u8 list) \<Rightarrow> FATFS \<Rightarrow> u32 \<Rightarrow> u8 list \<Rightarrow> nat \<Rightarrow> FRESULT + nat" where
  "dir_scan 0 img V c name k = Inl FR_INT_ERR"
| "dir_scan (Suc n) img V c name k =
     (if dir_rec img V c k ! 0 = 0 then Inl FR_NO_FILE
      else if rec_matches name (dir_rec img V c k) then Inr k
      else if dir_has img V c (Suc k) then dir_scan n img V c name (Suc k)
      else Inl (dir_end img V c k))"

definition dir_lookup :: "(u32 \<Rightarrow> u8 list) \<Rightarrow> FATFS \<Rightarrow> u32 \<Rightarrow> u8 list \<Rightarrow> FRESULT + nat" where
  "dir_lookup img V c name = (if dir_has img V c 0 then dir_scan 65536 img V c name 0 else Inl FR_INT_ERR)"

lemma dir_has_le: "dir_has img V c k \<Longrightarrow> j \<le> k \<Longrightarrow> dir_has img V c j"
proof (induction k)
  case (Suc k)
  then show ?case using dir_has_Suc by (cases "j = Suc k") auto
qed simp

lemma dir_scan_finds:
  assumes "dir_has img V c k" and "k + n = 65536"
    and "\<forall>j<k. dir_rec img V c j ! 0 \<noteq> 0 \<and> \<not> rec_matches name (dir_rec img V c j)"
  shows "dir_scan n img V c name k = Inr i \<longleftrightarrow> dir_finds img V c name i"
  using assms
proof (induction n arbitrary: k)
  case 0
  then show ?case by (simp add: dir_has_def)
next
  case (Suc n)
  have later: "dir_finds img V c name i \<Longrightarrow> k \<le> i"
    using Suc.prems(3) by (metis dir_finds_def not_le)
  show ?case
  proof (cases "dir_rec img V c k ! 0 = 0 \<or> rec_matches name (dir_rec img V c k)")
    case True
    then show ?thesis
      using Suc.prems later by (auto simp: dir_finds_def le_less dest: le_neq_implies_less)
  next
    case no: False
    show ?thesis
    proof (cases "dir_has img V c (Suc k)")
      case True
      have "\<forall>j<Suc k. dir_rec img V c j ! 0 \<noteq> 0 \<and> \<not> rec_matches name (dir_rec img V c j)"
        using no Suc.prems(3) by (simp add: less_Suc_eq)
      then show ?thesis
        using no True Suc.IH [OF True] Suc.prems(2) by simp
    next
      case False
      have "\<not> dir_finds img V c name i"
      proof
        assume f: "dir_finds img V c name i"
        then have "i \<noteq> k" using no by (auto simp: dir_finds_def)
        with later [OF f] have "Suc k \<le> i" by simp
        with f False show False using dir_has_le by (auto simp: dir_finds_def)
      qed
      then show ?thesis using no False by simp
    qed
  qed
qed

lemma dir_lookup_finds: "dir_lookup img V c name = Inr k \<longleftrightarrow> dir_finds img V c name k"
proof (cases "dir_has img V c 0")
  case True
  then show ?thesis using dir_scan_finds [OF True, of 65536 name k] by (simp add: dir_lookup_def)
next
  case False
  then show ?thesis using dir_has_le [of img V c k 0] by (auto simp: dir_lookup_def dir_finds_def)
qed

lemma mem_cmp_zero: "n \<le> length d \<Longrightarrow> n \<le> length s \<Longrightarrow> mem_cmp d s n = 0 \<longleftrightarrow> take n d = take n s"
proof (induction n arbitrary: d s)
  case (Suc n)
  then obtain x d' y s' where ds: "d = x # d'" "s = y # s'" by (cases d; cases s) auto
  have xy: "uint x - uint y = 0 \<longleftrightarrow> x = y" by (simp add: word_uint_eq_iff)
  show ?case
    using Suc ds xy by (cases n) (auto simp: Let_def)
qed simp

text \<open>The bytes of the record, in the window.\<close>

lemma rec_bytes:
  assumes "length w = 512" and "o' = 32 * k mod 512" and "w = img (of_nat (dir_sector img V c k))"
  shows "i < 32 \<Longrightarrow> w ! (o' + i) = dir_rec img V c k ! i"
    "take 11 (drop o' w) = take 11 (dir_rec img V c k)" "o' \<le> 480" "length (dir_rec img V c k) = 32"
proof -
  show o: "o' \<le> 480"
    using assms(2) by (simp add: rec_pos(2))
  show "w ! (o' + i) = dir_rec img V c k ! i" if "i < 32"
    using assms o that by (simp add: dir_rec_def)
  show "take 11 (drop o' w) = take 11 (dir_rec img V c k)" "length (dir_rec img V c k) = 32"
    using assms o by (simp_all add: dir_rec_def)
qed

context volume_disk begin

lemma dir_window:
  assumes m: "mounted vsectors img V a s" and at: "dir_at img V a c k dp"
  shows "returns up (move_window dev a (dir_sect dp)) s (\<lambda>r t. r = FR_OK \<and> mounted vsectors img V a t
    \<and> win_of a t = img (of_nat (dir_sector img V c k)))"
proof -
  have l: "layout vsectors V" by (rule mounted_simps(1) [OF m])
  have h: "dir_has img V c k" and s: "unat (dir_sect dp) = dir_sector img V c k"
    using at by (simp_all add: dir_at_def)
  show ?thesis
    using move_window_ok [OF m, of "dir_sect dp"] dir_sector_bound(2) [OF l h] word_of_unat [OF s] s by simp
qed

lemma dir_find_loop_ok:
  assumes "mounted vsectors img V a s" and "dir_at img V a c k dp" and "k + n = 65536"
    and "length (dir_fn dp) = 12" and "name = take 11 (dir_fn dp)"
  shows "returns up (dir_find_loop n dev dp) s (\<lambda>(res, dp') t. mounted vsectors img V a t
    \<and> dir_fn dp' = dir_fn dp \<and> obj_fs (dir_obj dp') = a
    \<and> (case dir_scan n img V c name k of Inl e \<Rightarrow> res = e
       | Inr i \<Rightarrow> res = FR_OK \<and> dir_at img V a c i dp' \<and> win_of a t = img (of_nat (dir_sector img V c i))
           \<and> obj_attr (dir_obj dp') = dir_rec img V c i ! 11 AND AM_MASK))"
  using assms
proof (induction n arbitrary: s k dp)
  case 0
  then show ?case by (simp add: dir_at_def dir_has_def)
next
  case (Suc n)
  note m = Suc.prems(1) and at = Suc.prems(2)
  have own: "obj_fs (dir_obj dp) = a" "dir_ofs dp = 32 * k mod 512"
    using at by (simp_all add: dir_at_def)
  let ?r = "dir_rec img V c k" and ?w = "img (of_nat (dir_sector img V c k))"
  note rb = rec_bytes [where img = img and V = V and c = c and k = k, OF img_length own(2) refl]
  have byte: "?w ! dir_ofs dp = ?r ! 0" "?w ! (dir_ofs dp + 11) = ?r ! 11"
    using rb(1) [of 0] rb(1) [of 11] by simp_all
  have cmp: "mem_cmp (drop (dir_ofs dp) ?w) (dir_fn dp) 11 = 0 \<longleftrightarrow> take 11 ?r = name"
    using rb(2,3) Suc.prems(4,5) img_length [of "of_nat (dir_sector img V c k)"]
    by (simp add: mem_cmp_zero)
  let ?dp = "set_attr (?r ! 11 AND AM_MASK) dp"
  have dp': "dir_at img V a c k ?dp" "dir_fn ?dp = dir_fn dp" "obj_attr (dir_obj ?dp) = ?r ! 11 AND AM_MASK"
    "obj_fs (dir_obj ?dp) = a" "dir_ofs ?dp = dir_ofs dp"
    using at own by (simp_all add: set_attr_def dir_at_def)
  have match: "?r ! 11 AND AM_VOL = 0 \<and> take 11 ?r = name \<longleftrightarrow> rec_matches name ?r"
    by (simp add: rec_matches_def)
  have next_rec: "returns up (dir_find_loop n dev dp2) t2 (\<lambda>(res, dp') t. mounted vsectors img V a t
    \<and> dir_fn dp' = dir_fn dp \<and> obj_fs (dir_obj dp') = a
    \<and> (case dir_scan n img V c name (Suc k) of Inl e \<Rightarrow> res = e
       | Inr i \<Rightarrow> res = FR_OK \<and> dir_at img V a c i dp' \<and> win_of a t = img (of_nat (dir_sector img V c i))
           \<and> obj_attr (dir_obj dp') = dir_rec img V c i ! 11 AND AM_MASK))"
    if "mounted vsectors img V a t2" "dir_at img V a c (Suc k) dp2" "dir_fn dp2 = dir_fn dp" for t2 dp2
    using Suc.IH [OF that(1,2)] Suc.prems(3-5) that(3) by simp
  have last: "dir_end img V c k \<noteq> FR_OK" by (simp add: dir_end_def)
  show ?case
    apply (simp only: dir_find_loop.simps own(1) Let_def)
    apply (rule returns_bind [OF dir_window [OF m at]])
    apply (elim conjE, simp only: simp_thms if_False)
    apply (rule returns_get_bind)
    apply (simp only: byte dp' cmp match dir_scan.simps)
    subgoal for _ t
      apply (cases "?r ! 0 = 0")
       apply (auto intro!: return_intros simp: own)[1]
      apply (cases "rec_matches name ?r")
       apply (auto intro!: return_intros simp: own dp' at)[1]
      apply (simp only: if_False)
      apply (rule returns_bind2 [OF dir_next_ok [OF _ dp'(1)]], assumption)
      apply (cases "dir_has img V c (Suc k)")
       apply (simp only: dp' dir_stepped_def prod.case simp_thms if_True if_False next_rec)
      using last by (auto intro!: return_intros simp: dp' dir_stepped_def)
    done
qed

lemma dir_find_ok:
  assumes m: "mounted vsectors img V a s" and dp: "obj_fs (dir_obj dp) = a" "sclust (dir_obj dp) = c"
    and fn: "length (dir_fn dp) = 12" "name = take 11 (dir_fn dp)"
  shows "returns up (dir_find dev dp) s (\<lambda>(res, dp') t. mounted vsectors img V a t
    \<and> dir_fn dp' = dir_fn dp \<and> obj_fs (dir_obj dp') = a
    \<and> (case dir_lookup img V c name of Inl e \<Rightarrow> res = e
       | Inr i \<Rightarrow> res = FR_OK \<and> dir_at img V a c i dp' \<and> win_of a t = img (of_nat (dir_sector img V c i))
           \<and> obj_attr (dir_obj dp') = dir_rec img V c i ! 11 AND AM_MASK))"
proof (cases "dir_has img V c 0")
  case False
  then show ?thesis
    unfolding dir_find_def dir_lookup_def
    apply -
    apply (rule returns_bind2 [OF dir_sdi_ok [OF m dp]])
    using dp by (auto intro!: return_intros)
next
  case True
  have fuel: "unat (MAX_DIR div 32) = 65536"
    by (simp add: MAX_DIR_def)
  show ?thesis
    unfolding dir_find_def dir_lookup_def fuel
    apply (rule returns_bind2 [OF dir_sdi_ok [OF m dp]])
    apply (simp only: True if_True)
    apply (elim conjE)
    apply (simp only: prod.case simp_thms if_False)
    apply (rule returns_weaken [OF dir_find_loop_ok])
    using fn dp by auto
qed

end

end
