(* ===== verification/FatPath.thy ===== *)
theory FatPath
  imports FatDir
begin

unbundle bit_operations_syntax

text \<open>
  Names and paths: what \<open>create_name\<close> takes from a path, and the refinement of \<open>follow_path\<close>
  to a walk over the image of the volume.
\<close>

section \<open>Paths\<close>

text \<open>
  The walk along a path on the image: each name is looked up in the directory reached so far.
  \<open>Inr (c, k)\<close> is record \<open>k\<close> of the directory at cluster \<open>c\<close>.
\<close>

fun fat_walk :: "nat \<Rightarrow> (u32 \<Rightarrow> u8 list) \<Rightarrow> FATFS \<Rightarrow> u32 \<Rightarrow> u8 list \<Rightarrow> FRESULT + (u32 \<times> nat)" where
  "fat_walk 0 img V c path = Inl FR_INVALID_NAME"
| "fat_walk (Suc n) img V c path =
     (case create_name path of (res, sfn, rest) \<Rightarrow>
      if res \<noteq> FR_OK then Inl res
      else let last = sfn ! 11 AND NS_LAST \<noteq> 0
        in case dir_lookup img V c (take 11 sfn) of
             Inl e \<Rightarrow> Inl (if e = FR_NO_FILE \<and> \<not> last then FR_NO_PATH else e)
           | Inr k \<Rightarrow> if last then Inr (c, k)
               else if dir_rec img V c k ! 11 AND AM_DIR = 0 then Inl FR_NO_PATH
               else fat_walk n img V (ld_clust V (dir_rec img V c k) 0) rest)"

lemma name_loop_result:
  "name_loop p i ni b sfn = Some (c, rest, i', ni', b', sfn') \<Longrightarrow>
    length sfn' = length sfn \<and> length rest \<le> length p \<and> (p = [] \<longrightarrow> c = 0) \<and> (p \<noteq> [] \<longrightarrow> length rest < length p)"
proof (induction p i ni b sfn rule: name_loop.induct)
  case (2 d p i ni b sfn)
  show ?case
  proof (cases "d \<le> 0x20 \<or> separator d")
    case True
    then show ?thesis using 2(5) by (auto simp: le_imp_less_Suc le_SucI length_dropWhile_le)
  next
    case seg: False
    note loop = 2(5) [unfolded name_loop.simps(2), simplified seg if_False]
    show ?thesis
    proof (cases "d = 0x2E \<or> i \<ge> ni")
      case True
      have dot: "\<not> (ni \<noteq> 8 \<or> d \<noteq> 0x2E)" using loop True by (cases "ni \<noteq> 8 \<or> d \<noteq> 0x2E") simp_all
      with loop True have "name_loop p 8 11 (push_bit 2 b) sfn = Some (c, rest, i', ni', b', sfn')" by simp
      from 2(1) [OF seg True dot this] show ?thesis by simp
    next
      case chr: False
      have ok: "\<not> d \<ge> 0x80" "\<not> chk_chr illegal_chrs d" using loop chr by (auto split: if_splits)
      note loop' = loop [simplified chr ok if_False]
      consider "IsUpper d" | "\<not> IsUpper d" "IsLower d" | "\<not> IsUpper d" "\<not> IsLower d" by blast
      then obtain b1 d1 where "name_loop p (i + 1) ni b1 (sfn[i := d1]) = Some (c, rest, i', ni', b', sfn')"
        "length sfn' = length (sfn[i := d1]) \<and> length rest \<le> length p \<and> (p = [] \<longrightarrow> c = 0)
          \<and> (p \<noteq> [] \<longrightarrow> length rest < length p)"
      proof cases
        case 1
        from loop' have "name_loop p (i + 1) ni (b OR 2) (sfn[i := d]) = Some (c, rest, i', ni', b', sfn')"
          by (simp only: 1 if_True)
        from that [OF this 2(2) [OF seg chr ok 1 this]] show ?thesis .
      next
        case low: 2
        from loop' have "name_loop p (i + 1) ni (b OR 1) (sfn[i := d - 0x20]) = Some (c, rest, i', ni', b', sfn')"
          by (simp only: low if_True if_False)
        from that [OF this "2.IH"(3) [OF seg chr ok low this]] show ?thesis .
      next
        case 3
        from loop' have "name_loop p (i + 1) ni b (sfn[i := d]) = Some (c, rest, i', ni', b', sfn')"
          by (simp only: 3 if_False)
        from that [OF this "2.IH"(4) [OF seg chr ok 3 this]] show ?thesis .
      qed
      then show ?thesis by auto
    qed
  qed
qed auto

lemma create_name_result:
  assumes "create_name path = (FR_OK, sfn, rest)"
  shows "length sfn = 12" "sfn ! 11 AND NS_NONAME = 0" "sfn ! 11 AND NS_LAST = 0 \<Longrightarrow> length rest < length path"
proof -
  obtain c i ni b sfn0 where loop: "name_loop path 0 8 0 (replicate 11 0x20 @ [0]) = Some (c, rest, i, ni, b, sfn0)"
    and i: "i \<noteq> 0"
    using assms by (auto simp: create_name_def Let_def split: option.splits if_splits)
  note r = name_loop_result [OF loop]
  let ?ns = "if c \<le> 0x20 then NS_LAST else 0" and ?b = "if ni = 8 then push_bit 2 b else b"
  let ?ext = "if ?b AND 0x03 = 0x01 then ?ns OR NS_EXT else ?ns"
  have sfn: "sfn = (if sfn0 ! 0 = 0xE5 then sfn0[0 := 0x05] else sfn0)
      [11 := if ?b AND 0x0C = 0x04 then ?ext OR NS_BODY else ?ext]"
    using assms i by (simp only: create_name_def loop option.case prod.case Let_def if_False prod.inject)
  show len: "length sfn = 12" using r by (subst sfn) simp
  have flag: "sfn ! 11 = (if ?b AND 0x0C = 0x04 then ?ext OR NS_BODY else ?ext)"
    using r by (subst sfn) simp
  then show "sfn ! 11 AND NS_NONAME = 0"
    by (auto simp: NS_LAST_def NS_EXT_def NS_BODY_def NS_NONAME_def)
  show "length rest < length path" if last: "sfn ! 11 AND NS_LAST = 0"
  proof -
    have keep: "(x OR NS_EXT) AND NS_LAST = x AND NS_LAST" "(x OR NS_BODY) AND NS_LAST = x AND NS_LAST" for x
      by (simp_all add: NS_LAST_def NS_EXT_def NS_BODY_def bit.conj_disj_distrib2)
    from flag have "?ns AND NS_LAST = 0"
      using last keep by (auto split: if_splits)
    then have "\<not> c \<le> 0x20" by (auto simp: NS_LAST_def)
    then show ?thesis using r by (cases "path = []") auto
  qed
qed

lemma dir_scan_error: "dir_scan n img V c name k = Inl e \<Longrightarrow> e \<noteq> FR_OK"
  by (induction n arbitrary: k) (auto simp: dir_end_def split: if_splits)

lemma dir_lookup_error: "dir_lookup img V c name = Inl e \<Longrightarrow> e \<noteq> FR_OK"
  by (auto simp: dir_lookup_def dest: dir_scan_error split: if_splits)

lemma fat_walk_error: "fat_walk n img V c path = Inl e \<Longrightarrow> e \<noteq> FR_OK"
proof (induction n arbitrary: c path)
  case (Suc n)
  then show ?case
    by (auto simp: Let_def dest: dir_lookup_error split: prod.splits if_splits sum.splits)
qed simp

text \<open>The fields of the record in the window.\<close>

lemma rec_fields:
  assumes "length (img (of_nat (dir_sector img V c k))) = 512" and "o' = 32 * k mod 512"
    and "w = img (of_nat (dir_sector img V c k))"
  shows "ld_clust V w o' = ld_clust V (dir_rec img V c k) 0"
    "ld_dword w (o' + 28) = ld_dword (dir_rec img V c k) 28"
proof -
  have w: "w ! (o' + i) = dir_rec img V c k ! i" if "i < 32" for i
    using rec_bytes(1) [where img = img and V = V and c = c, of w o' k i] assms that by simp
  show "ld_clust V w o' = ld_clust V (dir_rec img V c k) 0"
    using w [of 20] w [of 21] w [of 26] w [of 27] by (simp add: ld_clust_def ld_word_def Let_def add.commute)
  show "ld_dword w (o' + 28) = ld_dword (dir_rec img V c k) 28"
    using w [of 28] w [of 29] w [of 30] w [of 31] by (simp add: ld_dword_def add.commute)
qed

definition found :: "(u32 \<Rightarrow> u8 list) \<Rightarrow> FATFS \<Rightarrow> nat \<Rightarrow> FRESULT + (u32 \<times> nat) \<Rightarrow> FRESULT \<Rightarrow> DIR \<Rightarrow> 'h fat_sys \<Rightarrow> bool" where
  "found img V a q res dp t \<longleftrightarrow> (case q of Inl e \<Rightarrow> res = e
     | Inr (c, k) \<Rightarrow> res = FR_OK \<and> dir_at img V a c k dp \<and> win_of a t = img (of_nat (dir_sector img V c k))
         \<and> obj_attr (dir_obj dp) = dir_rec img V c k ! 11 AND AM_MASK \<and> dir_fn dp ! 11 AND NS_NONAME = 0)"

context volume_disk begin

lemma follow_loop_ok:
  assumes "mounted vsectors img V a s" and "obj_fs (dir_obj dp) = a" and "sclust (dir_obj dp) = c"
    and "length path < n"
  shows "returns up (follow_loop n dev dp path) s (\<lambda>(res, dp') t. mounted vsectors img V a t
    \<and> found img V a (fat_walk n img V c path) res dp' t)"
  using assms
proof (induction n arbitrary: s dp c path)
  case (Suc n)
  note m = Suc.prems(1)
  obtain res sfn rest where cn: "create_name path = (res, sfn, rest)" by (metis prod_cases3)
  show ?case
  proof (cases "res = FR_OK")
    case False
    then show ?thesis using m cn by (auto intro!: return_intros simp: found_def)
  next
    case True
    note cn = cn [unfolded True]
    have len: "length sfn = 12" and name: "sfn ! 11 AND NS_NONAME = 0"
      using create_name_result(1,2) [OF cn] by auto
    let ?dp = "dp\<lparr>dir_fn := sfn\<rparr>"
    have dp: "obj_fs (dir_obj ?dp) = a" "sclust (dir_obj ?dp) = c" "length (dir_fn ?dp) = 12"
      "take 11 sfn = take 11 (dir_fn ?dp)" "dir_fn ?dp = sfn"
      using Suc.prems len by simp_all
    have next_dir: "returns up (follow_loop n dev (set_sclust c' dp2) rest) t2
        (\<lambda>(res, dp') t. mounted vsectors img V a t \<and> found img V a (fat_walk n img V c' rest) res dp' t)"
      if "mounted vsectors img V a t2" "obj_fs (dir_obj dp2) = a" "sfn ! 11 AND NS_LAST = 0" for c' t2 dp2
      by (rule Suc.IH) (use that create_name_result(3) [OF cn] Suc.prems(4) in \<open>simp_all add: set_sclust_def\<close>)
    show ?thesis
      apply (simp only: follow_loop.simps fat_walk.simps cn prod.case simp_thms if_False)
      apply (rule returns_bind2 [OF dir_find_ok [OF m dp(1-4)]])
      subgoal for res dp2 t
      proof (cases "dir_lookup img V c (take 11 sfn)")
        case (Inl e)
        assume x: "mounted vsectors img V a t \<and> dir_fn dp2 = dir_fn ?dp \<and> obj_fs (dir_obj dp2) = a \<and>
          (case dir_lookup img V c (take 11 sfn) of Inl e \<Rightarrow> res = e
           | Inr i \<Rightarrow> res = FR_OK \<and> dir_at img V a c i dp2 \<and> win_of a t = img (of_nat (dir_sector img V c i))
             \<and> obj_attr (dir_obj dp2) = dir_rec img V c i ! 11 AND AM_MASK)"
        then show ?thesis
          using Inl dir_lookup_error [OF Inl] by (auto intro!: return_intros simp: found_def Let_def)
      next
        case (Inr k)
        assume x: "mounted vsectors img V a t \<and> dir_fn dp2 = dir_fn ?dp \<and> obj_fs (dir_obj dp2) = a \<and>
          (case dir_lookup img V c (take 11 sfn) of Inl e \<Rightarrow> res = e
           | Inr i \<Rightarrow> res = FR_OK \<and> dir_at img V a c i dp2 \<and> win_of a t = img (of_nat (dir_sector img V c i))
             \<and> obj_attr (dir_obj dp2) = dir_rec img V c i ! 11 AND AM_MASK)"
        then have t: "mounted vsectors img V a t" "obj_fs (dir_obj dp2) = a"
          and f: "res = FR_OK" "dir_at img V a c k dp2" "win_of a t = img (of_nat (dir_sector img V c k))"
            "obj_attr (dir_obj dp2) = dir_rec img V c k ! 11 AND AM_MASK" "dir_fn dp2 = sfn"
          using Inr by simp_all
        have attr: "(obj_attr (dir_obj dp2) AND AM_DIR = 0) = (dir_rec img V c k ! 11 AND AM_DIR = 0)"
          by (simp add: f(4) and.assoc AM_MASK_def AM_DIR_def)
        have o: "unat (dptr dp2 mod 512) = 32 * k mod 512"
          using f(2) by (simp add: dir_at_def unat_mod)
        have clu: "ld_clust (fs_at t a) (win (fs_at t a)) (unat (dptr dp2 mod 512)) = ld_clust V (dir_rec img V c k) 0"
          using rec_fields(1) [OF img_length o] f(3) by (simp add: mounted_simps [OF t(1)] win_of_def)
        show ?thesis
        proof (cases "sfn ! 11 AND NS_LAST = 0")
          case False
          then show ?thesis
            using t f name by (auto intro!: return_intros simp: found_def Let_def Inr)
        next
          case True
          show ?thesis
            apply (simp only: prod.case Let_def f(1,5) attr Inr True simp_thms if_False if_True sum.case)
            apply (cases "dir_rec img V c k ! 11 AND AM_DIR = 0")
             apply (simp only: simp_thms if_True)
             apply (rule return_intros)
             apply (simp add: found_def t)
            apply (simp only: simp_thms if_False)
            apply (rule returns_get_bind)
            apply (simp only: t(2) clu)
            by (rule next_dir [OF t True])
        qed
      qed
      done
  qed
qed simp

end

text \<open>
  The file that a path names, or why it names none: the answer of \<open>f_open\<close> and \<open>f_stat\<close> up to
  the kind of the object.
\<close>

definition fat_find :: "(u32 \<Rightarrow> u8 list) \<Rightarrow> FATFS \<Rightarrow> u8 list \<Rightarrow> FRESULT + (u32 \<times> nat)" where
  "fat_find img V path =
     (let p = dropWhile separator path
      in if p = [] \<or> hd p < 0x20 then Inl (if dir_has img V 0 0 then FR_INVALID_NAME else FR_INT_ERR)
         else fat_walk (length p + 1) img V 0 p)"

context volume_disk begin

lemma follow_path_ok:
  assumes m: "mounted vsectors img V a s" and dp: "obj_fs (dir_obj dp) = a" "length (dir_fn dp) = 12"
  shows "returns up (follow_path dev dp path) s (\<lambda>(res, dp') t. mounted vsectors img V a t
    \<and> found img V a (fat_find img V path)
        (if res = FR_OK \<and> dir_fn dp' ! 11 AND NS_NONAME \<noteq> 0 then FR_INVALID_NAME else res) dp' t)"
proof -
  let ?p = "dropWhile separator path" and ?dp = "set_sclust 0 dp"
  have dp': "obj_fs (dir_obj ?dp) = a" "sclust (dir_obj ?dp) = 0" "dir_fn ?dp = dir_fn dp"
    using dp by (simp_all add: set_sclust_def)
  show ?thesis
  proof (cases "?p = [] \<or> hd ?p < 0x20")
    case True
    let ?dp' = "?dp\<lparr>dir_fn := (dir_fn ?dp)[11 := NS_NONAME]\<rparr>"
    have d: "obj_fs (dir_obj ?dp') = a" "sclust (dir_obj ?dp') = 0" "dir_fn ?dp' ! 11 AND NS_NONAME \<noteq> 0"
      using dp dp' by (simp_all add: NS_NONAME_def)
    show ?thesis
      apply (simp only: follow_path_def fat_find_def Let_def True if_True)
      apply (rule returns_weaken [OF dir_sdi_ok [OF m d(1,2)]])
      using d(3) by (auto simp: found_def split: if_splits)
  next
    case False
    show ?thesis
      apply (simp only: follow_path_def fat_find_def Let_def False if_False)
      apply (rule returns_weaken [OF follow_loop_ok [OF m dp'(1,2)]])
      by (auto simp: found_def simp del: fat_walk.simps dest: fat_walk_error split: sum.splits)
  qed
qed

end

end
