(* ===== verification/FatSeek.thy ===== *)
theory FatSeek
  imports FatFile
begin

unbundle bit_operations_syntax

text \<open>
  Seeking. \<open>f_lseek\<close> keeps the invariant of an open file and sets the pointer to the position
  asked for, clipped to the size of the file; it starts from the current cluster or the first one.
\<close>

lemma fil_size_obj: "fil_obj fp' = fil_obj fp \<Longrightarrow> fil_size fp' = fil_size fp"
  by (simp add: fil_size_def)

text \<open>The mask rounds down to the start of the cluster.\<close>

lemma round_down:
  assumes "layout n V"
  shows "unat ((x :: u32) AND NOT (ucast (csize V) * 512 - 1)) = unat x div CS V * CS V"
proof -
  obtain k where k: "k < 8" "csize V = 2 ^ k" "cs V = 2 ^ k"
    by (rule csize_pow [OF assms])
  let ?m = "k + 9"
  have "(ucast (csize V) * 512 :: u32) = 2 ^ ?m"
    by (simp add: csize_32 [OF assms] k(3) power_add)
  then have "x AND NOT (ucast (csize V) * 512 - 1) = x AND NOT (mask ?m)"
    by (simp only: mask_eq_exp_minus_1)
  also have "\<dots> = push_bit ?m (drop_bit ?m x)"
    by (rule bit_word_eqI) (auto simp: bit_simps)
  finally have eq: "x AND NOT (ucast (csize V) * 512 - 1) = push_bit ?m (drop_bit ?m x)" .
  have CS: "CS V = 2 ^ ?m" by (simp add: CS_def k(3) power_add)
  have "unat (drop_bit ?m x) * 2 ^ ?m < 2 ^ LENGTH(32)"
    using unsigned_less [of x, where ?'a = nat]
    by (simp only: unat_drop_bit_div) (rule le_less_trans [OF div_times_less_eq_dividend])
  then show ?thesis
    by (simp only: eq CS unat_push_bit_small unat_drop_bit_div)
qed

text \<open>The state in which the cluster chain is followed.\<close>

definition seek_state :: "(u32 \<Rightarrow> u8 list) \<Rightarrow> FATFS \<Rightarrow> FIL \<Rightarrow> FIL \<Rightarrow> nat \<Rightarrow> u32 \<Rightarrow> nat \<Rightarrow> bool" where
  "seek_state img V fp0 fp j ofs pos \<longleftrightarrow>
     (\<exists>p. fp = fp0\<lparr>fil_clust := cluster_at img V (sclust (fil_obj fp0)) j, fptr := p\<rparr>
        \<and> unat p = j * CS V \<and> 0 < unat ofs \<and> unat p + unat ofs = pos)"

lemma seek_start_ok:
  assumes l: "layout n V" and ok: "fil_ok img V a fp" and ofs: "0 < unat ofs" "unat ofs \<le> fil_size fp"
    and fs: "csize fs = csize V" and st: "seek_start fs (fptr fp) ofs (fp\<lparr>fptr := 0\<rparr>) = (fp', ofs')"
  shows "\<exists>j. seek_state img V fp fp' j ofs' (unat ofs)"
proof (cases "fptr fp > 0 \<and> (ofs - 1) div (ucast (csize V) * 512) \<ge> (fptr fp - 1) div (ucast (csize V) * 512)")
  case False
  then have "fp' = fp\<lparr>fptr := 0, fil_clust := sclust (fil_obj fp)\<rparr>" "ofs' = ofs"
    using st by (auto simp: seek_start_def fs Let_def)
  then show ?thesis
    using ofs by (auto simp: seek_state_def intro!: exI [of _ 0])
next
  case True
  let ?p = "(fptr fp - 1) AND NOT (ucast (csize V) * 512 - 1)" and ?j = "(unat (fptr fp) - 1) div CS V"
  have fp': "fp' = fp\<lparr>fptr := ?p\<rparr>" "ofs' = ofs - ?p"
    using True st by (auto simp: seek_start_def fs Let_def)
  have k: "unat (fptr fp) \<noteq> 0" using True by (simp add: unat_eq_0 word_neq_0_conv)
  have d: "unat (fptr fp - 1) = unat (fptr fp) - 1" "unat (ofs - 1) = unat ofs - 1"
    using k ofs(1) by (simp_all add: unat_sub word_le_nat_alt)
  have p: "unat ?p = ?j * CS V" using round_down [OF l, of "fptr fp - 1"] d by simp
  have "?j \<le> (unat ofs - 1) div CS V"
    using True by (simp add: word_le_nat_alt unat_div bcs_CS [OF l] d)
  then have "?j * CS V \<le> (unat ofs - 1) div CS V * CS V" by (rule mult_right_mono) simp
  then have below: "?j * CS V < unat ofs"
    using div_times_less_eq_dividend [of "unat ofs - 1" "CS V"] ofs(1) by linarith
  have "unat ofs' = unat ofs - ?j * CS V"
    using below by (simp add: fp' unat_sub word_le_nat_alt p)
  then have "seek_state img V fp fp' ?j ofs' (unat ofs)"
    using ok k below by (auto simp: seek_state_def fp'(1) p fil_ok_def intro!: exI [of _ ?p])
  then show ?thesis by blast
qed

text \<open>At a position inside a sector, the sector that \<open>f_lseek\<close> computes is the one of the position.\<close>

lemma seek_sector:
  assumes l: "layout n V" and c: "cluster_ok V (cluster_at img V c i)"
    and ofs: "unat ofs mod 512 \<noteq> 0" "unat ofs \<le> CS V"
  shows "unat (clust2sect V (cluster_at img V c i) + ofs div 512) = sector_at img V c (i * CS V + unat ofs)"
    "sector_at img V c (i * CS V + unat ofs) < n"
proof -
  have "unat ofs \<noteq> CS V" using ofs(1) by (auto simp: CS_def)
  then have lt: "unat ofs < CS V" using ofs(2) by simp
  then have q: "unat ofs div 512 < cs V" by (simp add: CS_def less_mult_imp_div_less mult.commute)
  have "0 < CS V" using lt by simp
  then have d: "(i * CS V + unat ofs) div CS V = i" using lt by simp
  have "(i * CS V + unat ofs) div 512 = i * cs V + unat ofs div 512"
    by (simp add: CS_def mult.left_commute)
  then have r: "(i * CS V + unat ofs) div 512 mod cs V = unat ofs div 512" using q by simp
  have sect: "sector_at img V c (i * CS V + unat ofs) = cluster_base V (cluster_at img V c i) + unat ofs div 512"
    by (simp only: sector_at_def d r)
  show lim: "sector_at img V c (i * CS V + unat ofs) < n"
    unfolding sect by (rule cluster_base_bound(1) [OF l c q])
  show "unat (clust2sect V (cluster_at img V c i) + ofs div 512) = sector_at img V c (i * CS V + unat ofs)"
    using lim layoutD(8) [OF l] unfolding sect
    by (simp add: unat_word_ariths clust2sect_ok(1) [OF l c] unat_div)
qed

context volume_disk begin

lemma seek_fill_ok:
  assumes "mounted vsectors img V a s" and "fs_drv fs = 0"
    and "fil_sect fp \<noteq> 0 \<longrightarrow> fil_buf fp = img (fil_sect fp)"
    and "unat (fptr fp) mod 512 \<noteq> 0 \<Longrightarrow> unat nsect < vsectors"
  shows "returns up (seek_fill dev fs nsect fp) s (\<lambda>(res, fp') t. res = FR_OK \<and> mounted vsectors img V a t
    \<and> (\<exists>b k. fp' = fp\<lparr>fil_buf := b, fil_sect := k\<rparr> \<and> (k \<noteq> 0 \<longrightarrow> b = img k)
      \<and> (unat (fptr fp) mod 512 \<noteq> 0 \<longrightarrow> k = nsect)))"
proof (cases "fptr fp mod 512 \<noteq> 0 \<and> nsect \<noteq> fil_sect fp")
  case False
  then show ?thesis
    using assms(1,3)
    by (auto simp: seek_fill_def unat_eq_0 [symmetric] unat_mod
        intro!: return_intros exI [of _ "fil_buf fp"] exI [of _ "fil_sect fp"])
next
  case True
  then have "unat (fptr fp) mod 512 \<noteq> 0" by (simp add: unat_eq_0 [symmetric] unat_mod)
  from assms(4) [OF this] have sect: "unat nsect < vsectors" .
  show ?thesis
    unfolding seek_fill_def
    apply (simp only: True assms(2) simp_thms if_True)
    apply (rule returns_bind [OF disk_fetch_one [OF sect]])
    using assms(1) by (auto intro!: return_intros exI [of _ "img nsect"])
qed

lemma seek_done:
  assumes m: "mounted vsectors img V a s" and drv: "fs_drv fs = 0" and ok: "fil_ok img V a fp"
    and st: "seek_state img V fp fp1 j ofs pos" and le: "unat ofs \<le> CS V" "pos \<le> fil_size fp"
    and fs: "clust2sect fs clst = clust2sect V clst" and clst: "clst = fil_clust fp1"
  shows "returns up (let fp = fp1\<lparr>fptr := fptr fp1 + ofs\<rparr>
      in if ofs mod 512 \<noteq> 0
         then let nsect = clust2sect fs clst
           in if nsect = 0 then fret (FR_INT_ERR, fil_abort FR_INT_ERR fp)
              else seek_fill dev fs (nsect + ofs div 512) fp
         else seek_fill dev fs 0 fp) s
    (\<lambda>(res, fp') t. res = FR_OK \<and> mounted vsectors img V a t \<and> fil_ok img V a fp'
      \<and> fil_obj fp' = fil_obj fp \<and> unat (fptr fp') = pos)"
proof -
  let ?c = "sclust (fil_obj fp)" and ?p = "fptr fp1 + ofs"
  have l: "layout vsectors V" by (rule mounted_simps(1) [OF m])
  have pos: "0 < CS V" using cs_pos [OF l] by (simp add: CS_def)
  obtain p1 where fp1: "fp1 = fp\<lparr>fil_clust := cluster_at img V ?c j, fptr := p1\<rparr>"
    and ptr: "unat (fptr fp1) = j * CS V" "0 < unat ofs" "unat (fptr fp1) + unat ofs = pos"
    using st by (auto simp: seek_state_def)
  have p: "unat ?p = pos"
    using ptr(3) le(2) unsigned_less [of "objsize (fil_obj fp)", where ?'a = nat]
    by (simp add: unat_word_ariths fil_size_def)
  have "j * CS V < fil_size fp" using ptr le(2) by linarith
  then have cok: "cluster_ok V (cluster_at img V ?c j)"
    using fil_okD(4) [OF ok] pos unfolding stored_def by (metis nonzero_mult_div_cancel_right less_numeral_extra(3))
  have last: "(pos - 1) div CS V = j"
  proof -
    obtain q where q: "unat ofs = Suc q" using ptr(2) by (cases "unat ofs") auto
    then have "pos - 1 = j * CS V + q" "q < CS V" using ptr le(1) by simp_all
    then show ?thesis by simp
  qed
  have m512: "pos mod 512 = unat ofs mod 512"
    using ptr(1,3) by (auto simp: CS_def mod_add_left_eq [symmetric])
  let ?fp = "fp1\<lparr>fptr := ?p\<rparr>"
  have coh: "fil_sect ?fp \<noteq> 0 \<longrightarrow> fil_buf ?fp = img (fil_sect ?fp)"
    using ok by (simp add: fp1 fil_ok_def)
  have finish: "returns up (seek_fill dev fs nsect ?fp) s
    (\<lambda>(res, fp') t. res = FR_OK \<and> mounted vsectors img V a t \<and> fil_ok img V a fp'
      \<and> fil_obj fp' = fil_obj fp \<and> unat (fptr fp') = pos)"
    if "pos mod 512 \<noteq> 0 \<Longrightarrow> unat nsect = sector_at img V ?c pos \<and> unat nsect < vsectors" for nsect
  proof -
    have lim: "unat nsect < vsectors" if "unat (fptr ?fp) mod 512 \<noteq> 0"
      using \<open>pos mod 512 \<noteq> 0 \<Longrightarrow> _\<close> that by (simp add: p)
    have good: "fil_ok img V a fp' \<and> fil_obj fp' = fil_obj fp \<and> unat (fptr fp') = pos"
      if "fp' = ?fp\<lparr>fil_buf := b, fil_sect := k\<rparr>" "k \<noteq> 0 \<longrightarrow> b = img k"
        "unat (fptr ?fp) mod 512 \<noteq> 0 \<longrightarrow> k = nsect" for fp' b k
    proof -
      have eq: "fil_obj fp' = fil_obj fp" "fptr fp' = ?p" "fil_clust fp' = cluster_at img V ?c j"
        "fil_err fp' = fil_err fp" "fil_flag fp' = fil_flag fp" "fil_buf fp' = b" "fil_sect fp' = k"
        by (simp_all add: that(1) fp1)
      show ?thesis
        using ok that(2,3) le(2) \<open>pos mod 512 \<noteq> 0 \<Longrightarrow> _\<close> last
        by (auto simp: fil_ok_def fil_open_def eq p fil_size_obj [OF eq(1)])
    qed
    show ?thesis
      apply (rule returns_weaken [OF seek_fill_ok [OF m drv coh]], erule lim)
      subgoal for x t using good by (cases x) (simp only: prod.case, blast)
      done
  qed
  have c1: "clst = cluster_at img V ?c j" by (simp add: fp1 clst)
  have ow: "ofs mod 512 \<noteq> 0 \<longleftrightarrow> unat ofs mod 512 \<noteq> 0" by (simp add: unat_eq_0 [symmetric] unat_mod)
  have nz: "(clust2sect fs clst = 0) = False"
    using clust2sect_ok(2) [OF l cok] by (simp only: fs) (simp only: c1)
  show ?thesis
  proof (cases "unat ofs mod 512 = 0")
    case True
    then have "(ofs mod 512 \<noteq> 0) = False" "pos mod 512 = 0" using ow m512 by simp_all
    then show ?thesis
      by (simp only: Let_def if_False) (rule finish, simp)
  next
    case False
    then have word: "(ofs mod 512 \<noteq> 0) = True" using ow by simp
    have "unat (clust2sect fs clst + ofs div 512) = sector_at img V ?c pos"
      "sector_at img V ?c pos < vsectors"
      using seek_sector [OF l cok False le(1)] ptr(1,3) by (simp_all only: fs) (simp_all add: c1)
    then show ?thesis
      by (simp only: Let_def word nz if_True if_False) (rule finish, simp)
  qed
qed

text \<open>The function behind the checks, for a position in the file.\<close>

lemma seek_main:
  assumes m: "mounted vsectors img V a s" and fs: "csize fs = csize V" "fs_drv fs = 0"
      "\<And>c. clust2sect fs c = clust2sect V c"
    and ok: "fil_ok img V a fp" and ofs: "ofs \<noteq> 0" "unat ofs \<le> fil_size fp"
  shows "returns up (case seek_start fs (fptr fp) ofs (fp\<lparr>fptr := 0\<rparr>) of (fp, ofs) \<Rightarrow>
      if fil_clust fp = 0 then seek_fill dev fs 0 fp
      else fbind (seek_loop (unat ofs div 512 + 1) dev (ucast (csize fs) * 512) fp (fil_clust fp) ofs)
        (\<lambda>(res, fp, clst, ofs).
        if res \<noteq> FR_OK then fret (res, fil_abort res fp)
        else let fp = fp\<lparr>fptr := fptr fp + ofs\<rparr>
          in if ofs mod 512 \<noteq> 0
             then let nsect = clust2sect fs clst
               in if nsect = 0 then fret (FR_INT_ERR, fil_abort FR_INT_ERR fp)
                  else seek_fill dev fs (nsect + ofs div 512) fp
             else seek_fill dev fs 0 fp)) s
    (\<lambda>(res, fp') t. res = FR_OK \<and> mounted vsectors img V a t
      \<and> fil_ok img V a fp' \<and> fil_obj fp' = fil_obj fp \<and> unat (fptr fp') = unat ofs)"
proof -
  let ?c = "sclust (fil_obj fp)"
  have l: "layout vsectors V" by (rule mounted_simps(1) [OF m])
  have pos: "0 < CS V" using cs_pos [OF l] by (simp add: CS_def)
  have u: "0 < unat ofs" using ofs(1) by (simp add: unat_gt_0)
  obtain fp1 ofs1 where st: "seek_start fs (fptr fp) ofs (fp\<lparr>fptr := 0\<rparr>) = (fp1, ofs1)"
    by (rule prod.exhaust)
  obtain j where "seek_state img V fp fp1 j ofs1 (unat ofs)"
    using seek_start_ok [OF l ok u ofs(2) fs(1) st] by blast
  then obtain p1 where fp1: "fp1 = fp\<lparr>fil_clust := cluster_at img V ?c j, fptr := p1\<rparr>"
    and p1: "unat p1 = j * CS V" "0 < unat ofs1" "unat p1 + unat ofs1 = unat ofs"
    by (auto simp: seek_state_def)
  have sel: "fil_obj fp1 = fil_obj fp" "fil_clust fp1 = cluster_at img V ?c j" "fptr fp1 = p1"
    by (simp_all add: fp1)
  have "j * CS V < fil_size fp"
    using p1 ofs(2) by linarith
  then have "cluster_ok V (cluster_at img V ?c (j * CS V div CS V))"
    using fil_okD(4) [OF ok] unfolding stored_def by blast
  then have "cluster_ok V (cluster_at img V ?c j)"
    using pos by simp
  then have nz: "(fil_clust fp1 = 0) = False"
    by (auto simp: sel cluster_ok_def)
  have loop: "returns up (seek_loop (unat ofs1 div 512 + 1) dev (ucast (csize fs) * 512) fp1 (fil_clust fp1) ofs1) s
    (\<lambda>(res, fp', clst', ofs') t. res = FR_OK
      \<and> mounted vsectors img V a t \<and> (\<exists>i p. fp' = fp1\<lparr>fil_clust := clst', fptr := p\<rparr>
      \<and> clst' = cluster_at img V ?c i \<and> unat p = i * CS V \<and> 0 < unat ofs'
      \<and> unat ofs' \<le> CS V \<and> unat p + unat ofs' = unat (fptr fp1) + unat ofs1))"
  proof (rule seek_loop_ok [OF m])
    show "stored img V ?c (unat (fptr fp1) + unat ofs1)"
      using fil_okD(4) [OF ok] p1(3) ofs(2) by (simp add: stored_def sel)
    show "unat ofs1 div CS V < unat ofs1 div 512 + 1"
      by (simp add: div_CS le_imp_less_Suc)
    show "unat (fptr fp1) + unat ofs1 < 2 ^ 32"
      using p1(3) unsigned_less [of ofs, where ?'a = nat] by (simp add: sel)
    show "unat (ucast (csize fs) * 512 :: u32) = CS V"
      by (simp only: fs(1) bcs_CS [OF l])
    show "obj_fs (fil_obj fp1) = a"
      using fil_okD(2) [OF ok] by (simp add: sel)
  qed (simp_all add: sel p1)
  have state: "seek_state img V fp (fp1\<lparr>fil_clust := cluster_at img V ?c i, fptr := p\<rparr>) i ofs2 (unat ofs)"
    if "unat p = i * CS V" "0 < unat ofs2" "unat p + unat ofs2 = unat (fptr fp1) + unat ofs1" for p i ofs2
    using that p1(3) by (auto simp: seek_state_def sel fp1)
  show ?thesis
    apply (simp only: st prod.case nz if_False)
    apply (rule returns_bind [OF loop])
    apply (clarsimp simp only: simp_thms if_False)
    subgoal for _ _ _ ofs2 t i p
      by (rule seek_done [OF _ fs(2) ok state _ ofs(2) fs(3)]) simp_all
    done
qed

lemma f_lseek_ok:
  assumes m: "mounted vsectors img V a s" and ok: "fil_ok img V a fp"
  shows "returns up (f_lseek dev fp ofs) s (\<lambda>(res, fp') t. res = FR_OK \<and> mounted vsectors img V a t
    \<and> fil_ok img V a fp' \<and> fil_obj fp' = fil_obj fp \<and> unat (fptr fp') = min (unat ofs) (fil_size fp))"
proof -
  have op: "obj_fs (fil_obj fp) = a" "obj_id (fil_obj fp) = fs_id V" "fil_err fp = FR_OK"
    using fil_okD(1) [OF ok] by (simp_all add: fil_open_def)
  have l: "layout vsectors V" by (rule mounted_simps(1) [OF m])
  let ?ofs = "if objsize (fil_obj fp) < ofs then objsize (fil_obj fp) else ofs"
  let ?pos = "min (unat ofs) (fil_size fp)"
  have pos: "unat ?ofs = ?pos" by (simp add: fil_size_def word_less_nat_alt)
  have good: "fil_ok img V a fp' \<and> fil_obj fp' = fil_obj fp \<and> unat (fptr fp') = 0"
    if "fp' = fp\<lparr>fptr := 0, fil_buf := b, fil_sect := k\<rparr>" "k \<noteq> 0 \<longrightarrow> b = img k" for fp' b k
    using ok that by (simp add: fil_ok_def fil_open_def fil_size_def)
  have coh: "fil_sect (fp\<lparr>fptr := 0\<rparr>) \<noteq> 0 \<longrightarrow> fil_buf (fp\<lparr>fptr := 0\<rparr>) = img (fil_sect (fp\<lparr>fptr := 0\<rparr>))"
    using ok by (simp add: fil_ok_def)
  have zero: "returns up (seek_fill dev (fs_at t a) 0 (fp\<lparr>fptr := 0\<rparr>)) t
      (\<lambda>(res, fp') t. res = FR_OK \<and> mounted vsectors img V a t
        \<and> fil_ok img V a fp' \<and> fil_obj fp' = fil_obj fp \<and> unat (fptr fp') = unat (0 :: u32))"
    if t: "mounted vsectors img V a t" for t
    apply (rule returns_weaken [OF seek_fill_ok [OF t mounted_simps(3) [OF t] coh]], simp)
    using good by (clarsimp simp only: unat_0) blast
  have le: "unat ?ofs \<le> fil_size fp" unfolding pos by simp
  note main = seek_main [OF _ _ _ _ ok _ le, unfolded Let_def]
  show ?thesis
    unfolding f_lseek_def pos [symmetric]
    apply (rule returns_bind [OF validate_ok [OF m op(1,2)]])
    apply (clarsimp simp only: simp_thms if_False op Let_def)
    apply (rule returns_get_bind)
    subgoal for t
      apply (cases "?ofs = 0")
       apply (simp only: if_True simp_thms)
       apply (erule zero)
      apply (simp only: if_False)
      apply (rule main)
      by (assumption | erule mounted_simps)+
    done
qed

end

end
