(* ===== verification/FatOpen.thy ===== *)
theory FatOpen
  imports FatMount FatPath FatSeek
begin

unbundle bit_operations_syntax

text \<open>
  Files by their path: what \<open>f_open\<close>, \<open>f_stat\<close> and \<open>f_close\<close> do on a mounted volume, and the
  contents a program gets that opens a file and reads it.
\<close>

section \<open>Records of files\<close>

text \<open>The record of the file that a path names; a directory is no file.\<close>

definition fat_file :: "(u32 \<Rightarrow> u8 list) \<Rightarrow> FATFS \<Rightarrow> u8 list \<Rightarrow> FRESULT + u8 list" where
  "fat_file img V path = (case fat_find img V path of Inl e \<Rightarrow> Inl e
     | Inr (c, k) \<Rightarrow> if dir_rec img V c k ! 11 AND AM_DIR \<noteq> 0 then Inl FR_NO_FILE else Inr (dir_rec img V c k))"

text \<open>What \<open>get_fileinfo\<close> takes from a record.\<close>

definition rec_info :: "u8 list \<Rightarrow> FILINFO \<Rightarrow> FILINFO" where
  "rec_info p info = info\<lparr>fno_name := info_name (take 11 p) 0, fno_attrib := p ! 11, fno_size := ld_dword p 28,
     fno_date := ld_word p 24, fno_time := ld_word p 22\<rparr>"

lemma fat_find_error: "fat_find img V path = Inl e \<Longrightarrow> e \<noteq> FR_OK"
  by (auto simp: fat_find_def Let_def simp del: fat_walk.simps dest: fat_walk_error split: if_splits)

lemma fat_file_error: "fat_file img V path = Inl e \<Longrightarrow> e \<noteq> FR_OK"
  by (auto simp: fat_file_def dest: fat_find_error split: sum.splits if_splits)

lemma dir_at_sector:
  assumes "layout n V" and "dir_at img V a c k dp"
  shows "dir_sect dp \<noteq> 0"
proof -
  have "0 < dir_sector img V c k"
    using dir_sector_bound [OF assms(1)] assms(2) by (simp add: dir_at_def)
  then show ?thesis
    using assms(2) by (auto simp: dir_at_def)
qed

context volume_disk begin

lemma get_fileinfo_ok:
  assumes m: "mounted vsectors img V a s" and at: "dir_at img V a c k dp"
    and w: "win_of a s = img (of_nat (dir_sector img V c k))"
  shows "returns up (get_fileinfo dp info) s (\<lambda>i t. i = rec_info (dir_rec img V c k) info \<and> t = s)"
proof -
  have o: "dir_ofs dp = 32 * k mod 512" and obj: "obj_fs (dir_obj dp) = a"
    using at by (simp_all add: dir_at_def)
  let ?w = "img (of_nat (dir_sector img V c k))" and ?r = "dir_rec img V c k"
  have b: "drop (32 * k mod 512) ?w ! i = ?r ! i" if "i < 32" for i
    using that by (simp add: dir_rec_def)
  have "take 11 ?r = take 11 (drop (32 * k mod 512) ?w)"
    by (simp add: dir_rec_def)
  then show ?thesis
    unfolding get_fileinfo_def
    using dir_at_sector [OF mounted_simps(1) [OF m] at]
    by (auto intro!: returns_get_bind returns_fret
      simp: obj w o Let_def rec_info_def ld_word_def ld_dword_def b)
qed

lemma f_stat_ok:
  assumes m: "mounted vsectors img V a s" and path: "get_ldnumber path = (0, rest)"
  shows "returns up (f_stat dev path fno) s (\<lambda>(res, fno') t. mounted vsectors img V a t
    \<and> (case fat_find img V rest of Inl e \<Rightarrow> res = e \<and> fno' = fno
       | Inr (c, k) \<Rightarrow> res = FR_OK \<and> fno' = map_option (rec_info (dir_rec img V c k)) fno))"
proof -
  have b: "obj_fs (dir_obj (blank_dir a)) = a" "length (dir_fn (blank_dir a)) = 12"
    by (simp_all add: blank_dir_def)
  show ?thesis
    unfolding f_stat_def
    apply (rule returns_bind [OF find_volume_mounted [OF m path]])
    apply (clarsimp simp only: simp_thms if_False)
    apply (rule returns_bind2 [OF follow_path_ok [OF _ b]], assumption)
    subgoal for t res dj t2
      apply (cases "fat_find img V rest")
      subgoal for e
        using fat_find_error [of img V rest e]
        by (auto intro!: returns_fret simp: found_def split: if_splits)
      subgoal for q
        apply (cases q)
        subgoal for c k
          by (auto intro!: returns_fret returns_bind [OF get_fileinfo_ok] simp: found_def split: if_splits option.split)
        done
      done
    done
qed

end

section \<open>Opening, reading and closing\<close>

text \<open>The object that \<open>f_open\<close> leaves for the file of a record.\<close>

definition opened :: "FATFS \<Rightarrow> nat \<Rightarrow> u8 list \<Rightarrow> FIL \<Rightarrow> bool" where
  "opened V a p fp \<longleftrightarrow> fil_open V a fp \<and> sclust (fil_obj fp) = ld_clust V p 0
     \<and> objsize (fil_obj fp) = ld_dword p 28 \<and> fptr fp = 0 \<and> fil_sect fp = 0"

text \<open>The contents of the file of a record.\<close>

definition rec_bytes_of :: "(u32 \<Rightarrow> u8 list) \<Rightarrow> FATFS \<Rightarrow> u8 list \<Rightarrow> u8 list" where
  "rec_bytes_of img V p = file_bytes img V (ld_clust V p 0) (unat (ld_dword p 28))"

definition rec_stored :: "(u32 \<Rightarrow> u8 list) \<Rightarrow> FATFS \<Rightarrow> u8 list \<Rightarrow> bool" where
  "rec_stored img V p \<longleftrightarrow> stored img V (ld_clust V p 0) (unat (ld_dword p 28))"

lemma opened_ok: "opened V a p fp \<Longrightarrow> rec_stored img V p \<Longrightarrow> fil_ok img V a fp"
  by (simp add: opened_def rec_stored_def fil_ok_def fil_size_def)

context volume_disk begin

text \<open>The end of \<open>f_open\<close>, from the answer of \<open>follow_path\<close> on.\<close>

lemma f_open_end:
  assumes t: "mounted vsectors img V a t" and obj: "obj_fs (fil_obj fp) = 0" and mode: "mode AND FA_READ \<noteq> 0"
    and f: "found img V a (fat_find img V path)
      (if res = FR_OK \<and> dir_fn dj ! 11 AND NS_NONAME \<noteq> 0 then FR_INVALID_NAME else res) dj t"
    and res': "res' = (if res = FR_OK
      then if dir_fn dj ! 11 AND NS_NONAME \<noteq> 0 then FR_INVALID_NAME
           else if obj_attr (dir_obj dj) AND AM_DIR \<noteq> 0 then FR_NO_FILE else res
      else res)"
  shows "returns up (if res' \<noteq> FR_OK then fret (res', fp)
      else fbind (fget (\<lambda>s. fs_at s a)) (\<lambda>fs.
        fret (res', fp\<lparr>fil_obj := (fil_obj fp)\<lparr>sclust := ld_clust fs (win fs) (dir_ofs dj),
                        objsize := ld_dword (win fs) (dir_ofs dj + 28), obj_fs := a, obj_id := fs_id fs\<rparr>,
                      fil_err := FR_OK, fptr := 0, fil_sect := 0, fil_flag := mode\<rparr>))) t
    (\<lambda>(res, fp') t. mounted vsectors img V a t
      \<and> (case fat_file img V path of Inl e \<Rightarrow> res = e \<and> obj_fs (fil_obj fp') = 0
         | Inr p \<Rightarrow> res = FR_OK \<and> opened V a p fp'))"
proof (cases "fat_find img V path")
  case (Inl e)
  with f have "res' = e" "e \<noteq> FR_OK"
    using fat_find_error [OF Inl] by (auto simp: found_def res' split: if_splits)
  then show ?thesis
    using t obj by (auto intro!: returns_fret simp: fat_file_def Inl)
next
  case (Inr q)
  obtain c k where q: "q = (c, k)" by fastforce
  have g: "res = FR_OK" "dir_fn dj ! 11 AND NS_NONAME = 0"
    "dir_at img V a c k dj" "win (fs_at t a) = img (of_nat (dir_sector img V c k))"
    "obj_attr (dir_obj dj) = dir_rec img V c k ! 11 AND AM_MASK"
    using f by (auto simp: found_def Inr q win_of_def split: if_splits)
  have attr: "(obj_attr (dir_obj dj) AND AM_DIR = 0) = (dir_rec img V c k ! 11 AND AM_DIR = 0)"
    by (simp add: g(5) and.assoc AM_MASK_def AM_DIR_def)
  have o: "dir_ofs dj = 32 * k mod 512" using g(3) by (simp add: dir_at_def)
  note fields = rec_fields [where img = img, OF img_length o g(4)]
  show ?thesis
    using t obj mode
    by (auto intro!: returns_fret returns_get_bind simp: fat_file_def Inr q res' g(1,2) attr opened_def fil_open_def
      fields mounted_simps [OF t])
qed

lemma f_open_ok:
  assumes m: "mounted vsectors img V a s" and path: "get_ldnumber path = (0, rest)" and mode: "mode AND FA_READ \<noteq> 0"
  shows "returns up (f_open dev fp path mode) s (\<lambda>(res, fp') t. mounted vsectors img V a t
    \<and> (case fat_file img V rest of Inl e \<Rightarrow> res = e \<and> obj_fs (fil_obj fp') = 0
       | Inr p \<Rightarrow> res = FR_OK \<and> opened V a p fp'))"
proof -
  have b: "obj_fs (dir_obj (blank_dir a)) = a" "length (dir_fn (blank_dir a)) = 12"
    by (simp_all add: blank_dir_def)
  have mode': "(mode AND FA_READ) AND FA_READ \<noteq> 0" using mode by (simp add: and.assoc)
  show ?thesis
    unfolding f_open_def Let_def
    apply (rule returns_bind [OF find_volume_mounted [OF m path]])
    apply (clarsimp simp only: simp_thms if_False)
    apply (rule returns_bind2 [OF follow_path_ok [OF _ b]], assumption)
    apply (erule conjE)
    apply (simp only: prod.case)
    apply (rule f_open_end [OF _ _ mode'])
    by (assumption | simp)+
qed

lemma f_close_ok:
  assumes m: "mounted vsectors img V a s" and "fil_open V a fp"
  shows "returns up (f_close fp) s (\<lambda>(res, fp') t. res = FR_OK \<and> obj_fs (fil_obj fp') = 0
    \<and> mounted vsectors img V a t)"
  unfolding f_close_def
  apply (rule returns_bind [OF validate_ok [OF m]])
  using assms(2) by (auto intro!: returns_fret simp: fil_open_def)

end

section \<open>Whole files\<close>

definition file_at :: "(u32 \<Rightarrow> u8 list) \<Rightarrow> FATFS \<Rightarrow> u8 list \<Rightarrow> u8 list \<Rightarrow> bool" where
  "file_at img V path data \<longleftrightarrow>
     (\<exists>p. fat_file img V path = Inr p \<and> rec_stored img V p \<and> data = rec_bytes_of img V p)"

lemma file_at_find: "file_at img V path data \<Longrightarrow> \<exists>q. fat_find img V path = Inr q"
  by (auto simp: file_at_def fat_file_def split: sum.splits)

text \<open>The object open at the start of a file with the contents \<open>data\<close>.\<close>

definition opened_on :: "(u32 \<Rightarrow> u8 list) \<Rightarrow> FATFS \<Rightarrow> nat \<Rightarrow> u8 list \<Rightarrow> FIL \<Rightarrow> bool" where
  "opened_on img V a data fp \<longleftrightarrow> fil_ok img V a fp \<and> fptr fp = 0
     \<and> data = file_bytes img V (sclust (fil_obj fp)) (fil_size fp)"

lemma opened_on_size: "opened_on img V a data fp \<Longrightarrow> unat (f_size fp) = length data"
  by (simp add: opened_on_def file_bytes_def f_size_def fil_size_def)

context volume_disk begin

lemma f_open_file:
  assumes "mounted vsectors img V a s" and "get_ldnumber path = (0, rest)" and "file_at img V rest data"
  shows "returns up (f_open dev fp path FA_READ) s
    (\<lambda>(res, fp') t. res = FR_OK \<and> mounted vsectors img V a t \<and> opened_on img V a data fp')"
proof -
  obtain p where p: "fat_file img V rest = Inr p" "rec_stored img V p" "data = rec_bytes_of img V p"
    using assms(3) by (auto simp: file_at_def)
  have mode: "FA_READ AND FA_READ \<noteq> 0" by (simp add: FA_READ_def)
  show ?thesis
    apply (rule returns_weaken [OF f_open_ok [OF assms(1,2) mode]])
    using p opened_ok [OF _ p(2)]
    by (auto simp: opened_on_def rec_bytes_of_def opened_def fil_size_def)
qed

lemma f_read_all:
  assumes m: "mounted vsectors img V a s" and fp: "opened_on img V a data fp"
  shows "returns up (f_read dev fp (f_size fp)) s (\<lambda>(res, fp', br, bytes) t. res = FR_OK \<and> bytes = data
    \<and> unat br = length data \<and> fil_open V a fp' \<and> mounted vsectors img V a t)"
proof -
  have ok: "fil_ok img V a fp" "fptr fp = 0" "data = file_bytes img V (sclust (fil_obj fp)) (fil_size fp)"
    using fp by (simp_all add: opened_on_def)
  have n: "fil_size fp = min (unat (f_size fp)) (fil_size fp - unat (fptr fp))"
    by (simp add: ok(2) fil_size_def f_size_def)
  show ?thesis
    by (rule returns_weaken [OF f_read_ok [OF m ok(1) n]])
      (auto simp: read_result_def ok(2,3) file_bytes_def dest: fil_okD(1))
qed

lemma f_stat_file:
  assumes "mounted vsectors img V a s" and "get_ldnumber path = (0, rest)" and "file_at img V rest data"
  shows "returns up (f_stat dev path fno) s (\<lambda>(res, fno') t. res = FR_OK \<and> mounted vsectors img V a t)"
  by (rule returns_weaken [OF f_stat_ok [OF assms(1,2)]]) (use file_at_find [OF assms(3)] in auto)

end

section \<open>The partition on the card\<close>

abbreviation sd_up :: "sdcard \<Rightarrow> MbrPartition \<Rightarrow> sdhost mbr_disk \<Rightarrow> bus \<Rightarrow> bool" where
  "sd_up d p \<equiv> partition_up (sd_ready d) (sd_sectors d) p"

abbreviation sd_img :: "sdcard \<Rightarrow> MbrPartition \<Rightarrow> u32 \<Rightarrow> u8 list" where
  "sd_img d p \<equiv> partition_img (sd_content d) p"

abbreviation sd_size :: "sdcard \<Rightarrow> MbrPartition \<Rightarrow> nat" where
  "sd_size d p \<equiv> sd_sectors d - unat (part_start p)"

end
