(* ===== verification/FatSample.thy ===== *)
theory FatSample
  imports FdtSpec FatOpen
begin

unbundle bit_operations_syntax

text \<open>
  A small FAT12 volume with five files, in the bytes of its sectors, and an SD card with it in the
  first partition: the input of the examples. It has one table, one sector per cluster and seven
  clusters; the last file takes two of them. The chain of the last cluster is a cycle: read as a directory
  it has 65536 records.
\<close>

section \<open>The volume\<close>

definition pad :: "nat \<Rightarrow> u8 list \<Rightarrow> u8 list" where
  "pad n xs = xs @ replicate (n - length xs) 0"

lemma length_pad: "length xs \<le> n \<Longrightarrow> length (pad n xs) = n"
  by (simp add: pad_def)

lemma nth_pad: "i < n \<Longrightarrow> pad n xs ! i = (if i < length xs then xs ! i else 0)"
  by (simp add: pad_def nth_append)

lemma take_pad: "k \<le> length xs \<Longrightarrow> take k (pad n xs) = take k xs"
  by (simp add: pad_def)

definition sample_boot :: "u8 list" where
  "sample_boot = pad 510
     ([0xEB, 0x3C, 0x90] @ ascii ''MSDOS5.0'' @ [0, 2, 1, 1, 0, 1, 16, 0, 10, 0, 0xF8, 1, 0] @ replicate 30 0
      @ ascii ''FAT12   '') @ [0x55, 0xAA]"

definition sample_fat :: "u8 list" where
  "sample_fat = pad 512 [0xF8, 0xFF, 0xFF, 0xFF, 0xFF, 0xFF, 0xFF, 0xFF, 0xFF, 0x07, 0xF0, 0xFF, 0x08]"

text \<open>A record: the name in directory form, the attributes, the first cluster and the size.\<close>

definition sample_rec :: "string \<Rightarrow> u8 \<Rightarrow> u8 \<Rightarrow> u8 \<Rightarrow> u8 \<Rightarrow> u8 list" where
  "sample_rec name attr c lo hi = ascii name @ [attr] @ replicate 14 0 @ [c, 0, lo, hi, 0, 0]"

definition sample_recs :: "u8 list list" where
  "sample_recs =
     [sample_rec ''BOOT VOLUME'' 0x08 0 0 0, sample_rec ''ZIMAGE     '' 0x20 2 4 0,
      sample_rec ''INITRD     '' 0x20 3 2 0, sample_rec ''CMDLINE TXT'' 0x20 4 2 0,
      sample_rec ''RPI2    DTB'' 0x20 5 186 0, sample_rec ''TWO     BIN'' 0x20 6 2 2]"

definition sample_two :: "u8 list" where
  "sample_two = replicate 512 7 @ [8, 9]"

lemma take_drop_concat: "\<forall>x \<in> set xs. length x = n \<Longrightarrow> k < length xs \<Longrightarrow> take n (drop (n * k) (concat xs)) = xs ! k"
proof (induction xs arbitrary: k)
  case (Cons x xs)
  then show ?case by (cases k) simp_all
qed simp

definition sample_again :: "u8 list" where
  "sample_again = concat (replicate 16 (sample_rec ''AGAIN      '' 0x20 0 0 0))"

lemma length_sample_rec: "length (sample_rec name attr c lo hi) = length name + 21"
  by (simp add: sample_rec_def ascii_def)

lemma length_sample_again: "length sample_again = 512"
  by (simp add: sample_again_def length_concat sum_list_replicate length_sample_rec)

lemma drop_sample_again: "k < 16 \<Longrightarrow> take 32 (drop (32 * k) sample_again) = sample_rec ''AGAIN      '' 0x20 0 0 0"
  unfolding sample_again_def by (subst take_drop_concat) (simp_all add: length_sample_rec)

definition sample_data :: "u8 list list" where
  "sample_data = [[1, 2, 3, 4], [5, 6], ascii ''rw'', sample_bytes, replicate 512 7, [8, 9], sample_again]"

definition sample_sectors :: "u8 list list" where
  "sample_sectors = [sample_boot, sample_fat, pad 512 (concat sample_recs)] @ map (pad 512) sample_data"

text \<open>The sectors of the card counted from the start of the partition: its boot record lies 8192 sectors before.\<close>

definition sample_img :: "u32 \<Rightarrow> u8 list" where
  "sample_img s = (if unat s < 10 then sample_sectors ! unat s
     else if s = - 8192 then mbr_bytes example_mbr else pad 512 [])"

lemma sample_img_simps:
  "sample_img 0 = sample_boot" "sample_img 1 = sample_fat" "sample_img 2 = pad 512 (concat sample_recs)"
  "k < 7 \<Longrightarrow> sample_img (of_nat (3 + k)) = pad 512 (sample_data ! k)"
proof -
  assume k: "k < 7"
  then have "unat (of_nat (3 + k) :: u32) = 3 + k" by (simp add: unat_of_nat del: of_nat_add)
  moreover have "length sample_data = 7" by (simp add: sample_data_def)
  ultimately show "sample_img (of_nat (3 + k)) = pad 512 (sample_data ! k)"
    using k unfolding sample_img_def sample_sectors_def by (simp add: nth_append del: of_nat_add)
qed (simp_all add: sample_img_def sample_sectors_def)

lemma length_sample_bytes: "length sample_bytes = 186"
  by (simp add: sample_bytes_def)

lemma length_sample_recs: "length (concat sample_recs) = 192"
  by (simp add: sample_recs_def sample_rec_def ascii_def)

lemma length_sample_img: "length (sample_img s) = 512"
proof -
  have "\<forall>x \<in> set sample_sectors. length x = 512"
    by (simp add: sample_sectors_def sample_data_def length_pad length_sample_recs length_sample_bytes
      sample_boot_def sample_fat_def length_sample_again ascii_def)
  moreover have "length sample_sectors = 10" by (simp add: sample_sectors_def sample_data_def)
  moreover have "length (mbr_bytes example_mbr) = 512" by (simp add: mbr_bytes_def example_mbr_def)
  ultimately show ?thesis
    by (simp add: sample_img_def length_pad)
qed

section \<open>Its boot sector\<close>

lemma sample_boot_nth: "i < 510 \<Longrightarrow> sample_boot ! i =
    (if i < 62 then ([0xEB, 0x3C, 0x90] @ ascii ''MSDOS5.0'' @ [0, 2, 1, 1, 0, 1, 16, 0, 10, 0, 0xF8, 1, 0]
      @ replicate 30 0 @ ascii ''FAT12   '') ! i else 0)"
  by (simp add: sample_boot_def nth_append length_pad nth_pad ascii_def)

lemma sample_bpb:
  "bpb_of sample_boot = \<lparr>bpb_spc = 1, bpb_rsv = 1, bpb_fats = 1, bpb_root = 16, bpb_total = 10, bpb_fatsz = 1\<rparr>"
  by (simp add: bpb_of_def ld_word_def ld_dword_def sample_boot_nth) (simp add: ascii_def)

lemma sample_bpb_values:
  "bpb_system (bpb_of sample_boot) = 3" "bpb_clusters (bpb_of sample_boot) = 7"
  "bpb_type (bpb_of sample_boot) = FS_FAT12" "bpb_need (bpb_of sample_boot) = 14"
  by (simp_all add: sample_bpb bpb_system_def bpb_clusters_def bpb_type_def bpb_need_def)

lemma sample_bpb_ok: "10 \<le> n \<Longrightarrow> n < 2 ^ 32 \<Longrightarrow> bpb_ok sample_boot n"
proof -
  have "ld_word sample_boot 510 = 0xAA55"
    by (simp add: ld_word_def sample_boot_def nth_append length_pad ascii_def)
  moreover have "take 3 (drop 54 sample_boot) = [0x46, 0x41, 0x54]"
    by (simp add: sample_boot_def pad_def ascii_def)
  moreover have "ld_word sample_boot 11 = 512"
    by (simp add: ld_word_def sample_boot_nth) (simp add: ascii_def)
  ultimately show "10 \<le> n \<Longrightarrow> n < 2 ^ 32 \<Longrightarrow> bpb_ok sample_boot n"
    by (simp add: bpb_ok_def sample_bpb_values Let_def) (simp add: sample_bpb)
qed

section \<open>Its files\<close>

text \<open>What every volume that the boot sector describes has.\<close>

lemma sample_fields:
  assumes "describes sample_boot V"
  shows "fs_type V = FS_FAT12" "csize V = 1" "unat (n_rootdir V) = 16" "n_fatent V = 9" "fatbase V = 1"
    "unat (database V) = 3" "unat (dirbase V) = 2"
proof -
  have u: "w = of_nat k" if "unat w = k" for w :: "'a::len word" and k
    using that by auto
  show "fs_type V = FS_FAT12" "csize V = 1" "unat (n_rootdir V) = 16" "n_fatent V = 9" "fatbase V = 1"
    "unat (database V) = 3" "unat (dirbase V) = 2"
    using assms by (auto simp: describes_def sample_bpb_values Let_def) (auto simp: sample_bpb dest!: u)
qed

lemma sample_area: "k < 512 \<Longrightarrow> area sample_img 1 k = (if k < 13 then
    [0xF8, 0xFF, 0xFF, 0xFF, 0xFF, 0xFF, 0xFF, 0xFF, 0xFF, 0x07, 0xF0, 0xFF, 0x08] ! k else 0)"
  by (simp add: area_def sample_img_simps sample_fat_def nth_pad)

lemma sample_geometry:
  assumes "describes sample_boot V"
  shows "cs V = 1" "CS V = 512" "dstart V 0 = 0" "cluster_ok V c = (2 \<le> c \<and> c < 9)" "cluster_base V c = 3 + (unat c - 2)"
  using sample_fields [OF assms] by (simp_all add: cs_def CS_def dstart_def cluster_ok_def cluster_base_def)

lemma sample_recs_length: "length sample_recs = 6" "\<forall>e \<in> set sample_recs. length e = 32"
  by (simp_all add: sample_recs_def sample_rec_def ascii_def)

lemma sample_dir_rec:
  assumes "describes sample_boot V" and "k < 6"
  shows "dir_rec sample_img V 0 k = sample_recs ! k"
proof -
  have "dir_sector sample_img V 0 k = 2"
    using assms(2) sample_fields(7) [OF assms(1)] sample_geometry(3) [OF assms(1)] by (simp add: dir_sector_def)
  then have "dir_rec sample_img V 0 k = take 32 (drop (32 * k) (pad 512 (concat sample_recs)))"
    using assms(2) by (simp add: dir_rec_def sample_img_simps)
  also have "\<dots> = take 32 (drop (32 * k) (concat sample_recs))"
    using assms(2) by (simp add: pad_def length_sample_recs)
  also have "\<dots> = sample_recs ! k"
    by (rule take_drop_concat [OF sample_recs_length(2)]) (simp add: assms(2) sample_recs_length)
  finally show ?thesis .
qed

lemma sample_dir_has: "describes sample_boot V \<Longrightarrow> k < 6 \<Longrightarrow> dir_has sample_img V 0 k"
  using sample_fields(3) [of V] sample_geometry(3) [of V] by (simp add: dir_has_def)

lemma sample_lookup:
  assumes V: "describes sample_boot V" and k: "k < 6" "sample_recs ! k ! 11 AND AM_VOL = 0"
    and first: "\<forall>j<k. take 11 (sample_recs ! j) \<noteq> take 11 (sample_recs ! k)"
  shows "dir_lookup sample_img V 0 (take 11 (sample_recs ! k)) = Inr k"
proof -
  have "\<forall>e \<in> set sample_recs. e ! 0 \<noteq> 0"
    by (simp add: sample_recs_def sample_rec_def ascii_def)
  then have "\<forall>j<6. sample_recs ! j ! 0 \<noteq> 0"
    using sample_recs_length(1) by simp
  then show ?thesis
    unfolding dir_lookup_finds dir_finds_def rec_matches_def
    using k first by (auto simp: sample_dir_has [OF V] sample_dir_rec [OF V])
qed

text \<open>A name in the root directory, given in directory form by \<open>create_name\<close>.\<close>

lemma sample_find:
  assumes V: "describes sample_boot V" and k: "k < 6" "sample_recs ! k ! 11 AND AM_VOL = 0"
    "\<forall>j<k. take 11 (sample_recs ! j) \<noteq> take 11 (sample_recs ! k)"
    and path: "dropWhile separator path = path" "path \<noteq> []" "\<not> hd path < 0x20"
    and name: "create_name path = (FR_OK, take 11 (sample_recs ! k) @ [NS_LAST OR x], rest)"
  shows "fat_find sample_img V path = Inr (0, k)"
proof -
  have "length (take 11 (sample_recs ! k)) = 11"
    using sample_recs_length k(1) by simp
  moreover have "(NS_LAST OR x) AND NS_LAST \<noteq> 0"
    by (simp add: NS_LAST_def bit.conj_disj_distrib2)
  ultimately show ?thesis
    using path name sample_lookup [OF V k] by (simp add: fat_find_def Let_def nth_append)
qed

lemma sample_names:
  "create_name (ascii ''zImage'') = (FR_OK, take 11 (sample_recs ! 1) @ [NS_LAST OR 0], [])"
  "create_name (ascii ''initrd'') = (FR_OK, take 11 (sample_recs ! 2) @ [NS_LAST OR NS_BODY], [])"
  "create_name (ascii ''cmdline.txt'') = (FR_OK, take 11 (sample_recs ! 3) @ [NS_LAST OR (NS_EXT OR NS_BODY)], [])"
  "create_name (ascii ''rpi2.dtb'') = (FR_OK, take 11 (sample_recs ! 4) @ [NS_LAST OR (NS_EXT OR NS_BODY)], [])"
  "create_name (ascii ''two.bin'') = (FR_OK, take 11 (sample_recs ! 5) @ [NS_LAST OR (NS_EXT OR NS_BODY)], [])"
  by code_simp+

lemma sample_finds:
  assumes "describes sample_boot V"
  shows "fat_find sample_img V (ascii ''zImage'') = Inr (0, 1)" "fat_find sample_img V (ascii ''initrd'') = Inr (0, 2)"
    "fat_find sample_img V (ascii ''cmdline.txt'') = Inr (0, 3)" "fat_find sample_img V (ascii ''rpi2.dtb'') = Inr (0, 4)"
    "fat_find sample_img V (ascii ''two.bin'') = Inr (0, 5)"
proof -
  show "fat_find sample_img V (ascii ''zImage'') = Inr (0, 1)"
    by (rule sample_find [OF assms _ _ _ _ _ _ sample_names(1)]; code_simp)
  show "fat_find sample_img V (ascii ''initrd'') = Inr (0, 2)"
    by (rule sample_find [OF assms _ _ _ _ _ _ sample_names(2)]; code_simp)
  show "fat_find sample_img V (ascii ''cmdline.txt'') = Inr (0, 3)"
    by (rule sample_find [OF assms _ _ _ _ _ _ sample_names(3)]; code_simp)
  show "fat_find sample_img V (ascii ''rpi2.dtb'') = Inr (0, 4)"
    by (rule sample_find [OF assms _ _ _ _ _ _ sample_names(4)]; code_simp)
  show "fat_find sample_img V (ascii ''two.bin'') = Inr (0, 5)"
    by (rule sample_find [OF assms _ _ _ _ _ _ sample_names(5)]; code_simp)
qed

text \<open>A file in one cluster.\<close>

lemma sample_one_cluster:
  assumes V: "describes sample_boot V" and c: "k < 6" "c = of_nat (2 + k)" and n: "n \<le> length (sample_data ! k)" "n \<le> 512"
  shows "stored sample_img V c n" "file_bytes sample_img V c n = take n (sample_data ! k)"
proof -
  have u: "unat c = 2 + k" unfolding c(2) unat_of_nat using c(1) by simp
  have ok: "cluster_ok V c"
    using c u by (simp add: sample_geometry [OF V] word_less_nat_alt word_le_nat_alt)
  have i: "cluster_at sample_img V c (j div CS V) = c" if "j < n" for j
    using that n by (simp add: sample_geometry [OF V])
  show "stored sample_img V c n"
    using ok i by (simp add: stored_def)
  have "file_byte sample_img V c j = sample_data ! k ! j" if "j < n" for j
  proof -
    have "sector_at sample_img V c j = 3 + k"
      using i [OF that] by (simp add: sector_at_def sample_geometry [OF V] u)
    then have "file_byte sample_img V c j = pad 512 (sample_data ! k) ! j"
      using that n sample_img_simps(4) [of k] c(1) by (simp add: file_byte_def del: of_nat_add)
    then show ?thesis using that n by (simp add: nth_pad)
  qed
  then show "file_bytes sample_img V c n = take n (sample_data ! k)"
    using n by (intro nth_equalityI) (simp_all add: file_bytes_def)
qed

text \<open>The file in the clusters 6 and 7.\<close>

lemma sample_chain:
  assumes "describes sample_boot V"
  shows "fat_entry sample_img V 6 = 7"
  by (simp add: fat_entry_def Let_def sample_fields [OF assms] sample_area)

lemma sample_two_clusters:
  assumes V: "describes sample_boot V"
  shows "stored sample_img V 6 514" "file_bytes sample_img V 6 514 = sample_two"
proof -
  have i: "cluster_at sample_img V 6 (j div CS V) = (if j < 512 then 6 else 7)" if "j < 514" for j
  proof (cases "j < 512")
    case False
    then have "j div 512 = 1" using that by simp
    then show ?thesis using False sample_chain [OF V] by (simp add: sample_geometry [OF V])
  qed (simp add: sample_geometry [OF V])
  then show "stored sample_img V 6 514"
    by (simp add: stored_def sample_geometry [OF V])
  have img: "sample_img 7 = pad 512 (replicate 512 7)" "sample_img 8 = pad 512 [8, 9]"
    using sample_img_simps(4) [of 4] sample_img_simps(4) [of 5] by (simp_all add: sample_data_def)
  have "file_byte sample_img V 6 j = sample_two ! j" if "j < 514" for j
  proof (cases "j < 512")
    case True
    then have "sector_at sample_img V 6 j = 7"
      using i [OF that] by (simp add: sector_at_def sample_geometry [OF V])
    then show ?thesis
      using True by (simp add: file_byte_def img nth_pad sample_two_def nth_append)
  next
    case False
    then obtain q where "j = 512 + q" by (metis le_add_diff_inverse not_less)
    then have q: "j = 512 + q" "q < 2" using that by simp_all
    then have "sector_at sample_img V 6 j = 8"
      using i [OF that] by (simp add: sector_at_def sample_geometry [OF V])
    then show ?thesis
      using q by (simp add: file_byte_def img nth_pad sample_two_def nth_append)
  qed
  then show "file_bytes sample_img V 6 514 = sample_two"
    by (intro nth_equalityI) (simp_all add: file_bytes_def sample_two_def)
qed

lemma sample_file_at:
  assumes V: "describes sample_boot V" and "fat_find sample_img V path = Inr (0, k)" and k: "k < 6"
    and p: "p = sample_recs ! k" "p ! 11 AND AM_DIR = 0"
    and c: "ld_clust V p 0 = c" "unat (ld_dword p 28) = n"
    and st: "stored sample_img V c n" "file_bytes sample_img V c n = data"
  shows "file_at sample_img V path data"
  using assms(2) p(2) st c sample_dir_rec [OF V k] unfolding p(1)
  by (simp add: file_at_def fat_file_def rec_stored_def rec_bytes_of_def)

lemma sample_sizes:
  assumes "describes sample_boot V"
  shows "ld_clust V (sample_recs ! 1) 0 = 2" "ld_clust V (sample_recs ! 2) 0 = 3" "ld_clust V (sample_recs ! 3) 0 = 4"
    "ld_clust V (sample_recs ! 4) 0 = 5" "ld_clust V (sample_recs ! 5) 0 = 6"
    "unat (ld_dword (sample_recs ! 1) 28) = 4" "unat (ld_dword (sample_recs ! 2) 28) = 2"
    "unat (ld_dword (sample_recs ! 3) 28) = 2" "unat (ld_dword (sample_recs ! 4) 28) = 186"
    "unat (ld_dword (sample_recs ! 5) 28) = 514"
  by (simp_all add: ld_clust_def sample_fields [OF assms] ld_word_def ld_dword_def Let_def
    sample_recs_def sample_rec_def ascii_def nth_append)

lemma sample_files:
  assumes V: "describes sample_boot V"
  shows "file_at sample_img V (ascii ''zImage'') [1, 2, 3, 4]" "file_at sample_img V (ascii ''initrd'') [5, 6]"
    "file_at sample_img V (ascii ''cmdline.txt'') (ascii ''rw'')"
    "file_at sample_img V (ascii ''rpi2.dtb'') sample_bytes" "file_at sample_img V (ascii ''two.bin'') sample_two"
proof -
  have "\<forall>e \<in> set sample_recs. e ! 11 AND AM_DIR = 0"
    by (simp add: sample_recs_def sample_rec_def ascii_def AM_DIR_def)
  then have attr: "sample_recs ! k ! 11 AND AM_DIR = 0" if "k < 6" for k
    using that by (simp add: sample_recs_length(1))
  note f = sample_file_at [OF V _ _ refl attr] and s = sample_sizes [OF V] and one = sample_one_cluster [OF V]
  show "file_at sample_img V (ascii ''zImage'') [1, 2, 3, 4]"
    by (rule f [OF sample_finds(1) [OF V] _ _ s(1,6)]) (use one [of 0 2 4] in \<open>simp_all add: sample_data_def\<close>)
  show "file_at sample_img V (ascii ''initrd'') [5, 6]"
    by (rule f [OF sample_finds(2) [OF V] _ _ s(2,7)]) (use one [of 1 3 2] in \<open>simp_all add: sample_data_def\<close>)
  show "file_at sample_img V (ascii ''cmdline.txt'') (ascii ''rw'')"
    by (rule f [OF sample_finds(3) [OF V] _ _ s(3,8)]) (use one [of 2 4 2] in \<open>simp_all add: sample_data_def ascii_def\<close>)
  show "file_at sample_img V (ascii ''rpi2.dtb'') sample_bytes"
    by (rule f [OF sample_finds(4) [OF V] _ _ s(4,9)])
      (use one [of 3 5 186] in \<open>simp_all add: sample_data_def length_sample_bytes\<close>)
  show "file_at sample_img V (ascii ''two.bin'') sample_two"
    by (rule f [OF sample_finds(5) [OF V] _ _ s(5,10)]) (use sample_two_clusters [OF V] in simp_all)
qed

text \<open>The directory in the cluster 8, whose chain is a cycle.\<close>

lemma sample_cycle:
  assumes V: "describes sample_boot V"
  shows "cluster_at sample_img V 8 k = 8" "k < 65536 \<Longrightarrow> dir_has sample_img V 8 k"
    "dir_rec sample_img V 8 k = sample_rec ''AGAIN      '' 0x20 0 0 0"
proof -
  have e: "fat_entry sample_img V 8 = 8"
    by (simp add: fat_entry_def Let_def sample_fields [OF V] sample_area)
  show i: "cluster_at sample_img V 8 k = 8" for k
    by (induction k) (simp_all add: cluster_at_def e)
  have d: "dstart V 8 = 8" by (simp add: dstart_def)
  show "k < 65536 \<Longrightarrow> dir_has sample_img V 8 k"
    by (simp add: dir_has_def d i sample_geometry [OF V])
  have "dir_sector sample_img V 8 k = 9"
    by (simp add: dir_sector_def d i sector_at_def sample_geometry [OF V])
  moreover have "sample_img 9 = sample_again"
  proof -
    have "sample_data ! 6 = sample_again" by (simp add: sample_data_def)
    moreover have "pad 512 sample_again = sample_again" by (simp add: pad_def length_sample_again)
    ultimately show ?thesis using sample_img_simps(4) [of 6] by simp
  qed
  moreover have "32 * k mod 512 = 32 * (k mod 16)"
    using mult_mod_right [of 32 k 16] by simp
  ultimately show "dir_rec sample_img V 8 k = sample_rec ''AGAIN      '' 0x20 0 0 0"
    using drop_sample_again [of "k mod 16"] by (simp add: dir_rec_def)
qed

section \<open>The card\<close>

lemma octets_of_sector_words:
  assumes "4 dvd length bs"
  shows "octets_of (sector_words bs) = bs"
proof (rule nth_equalityI)
  have len: "4 * (length bs div 4) = length bs" using assms by simp
  then show "length (octets_of (sector_words bs)) = length bs"
    by (simp add: sector_words_def)
  fix i assume "i < length (octets_of (sector_words bs))"
  then have "i < length bs" "i < 4 * length (sector_words bs)" using len by (simp_all add: sector_words_def)
  then show "octets_of (sector_words bs) ! i = bs ! i"
    by (simp add: nth_octets_of byte_at_sector_words [OF _ assms])
qed

definition sample_card :: sdcard where
  "sample_card = example_card\<lparr>hc := True, disk := \<lambda>s. sector_words (sample_img (s - 8192))\<rparr>"

lemma sample_content: "sd_content sample_card s = sector_words (sample_img (s - 8192))"
proof -
  have "length (sector_words (sample_img (s - 8192))) = 128"
    by (simp add: sector_words_def length_sample_img)
  then show ?thesis
    by (intro nth_equalityI) (simp_all add: sd_content_def sample_card_def)
qed

lemma sample_card_img: "partition_img (sd_content sample_card) example_partition = sample_img"
proof
  fix s
  have "4 dvd length (sample_img s)" by (simp add: length_sample_img)
  then show "partition_img (sd_content sample_card) example_partition s = sample_img s"
    by (simp add: partition_img_def sample_content example_partition_def octets_of_sector_words)
qed

lemma sample_card_mbr: "mbr_view (sd_content sample_card 0) = example_mbr"
proof -
  have "sample_img (- 8192) = mbr_bytes example_mbr" by (simp add: sample_img_def)
  then show ?thesis
    by (simp add: sample_content example_mbr_view)
qed

lemma sample_card_size: "sd_sectors sample_card - unat (part_start example_partition) = 4294959104"
  by (simp add: sd_sectors_def sample_card_def example_partition_def)

lemma sample_card_ok:
  "well_formed sample_card" "csd_capacity (card_csd sample_card) = Some (512, 524288)"
  "fault sample_card AND SDHSTS_ERROR_MASK = 0" "validate_signature (mbr_view (sd_content sample_card 0))"
  "example_partition = mbr_part (mbr_view (sd_content sample_card 0)) ! 0"
  "unat (part_start example_partition) \<le> sd_sectors sample_card"
  "part_typ example_partition \<in> {MBR_FAT32_INT13, MBR_FAT16_INT13, MBR_FAT32, MBR_FAT16}"
proof -
  show "csd_capacity (card_csd sample_card) = Some (512, 524288)"
    by (simp add: sample_card_def example_card_def) code_simp
  show "well_formed sample_card" "fault sample_card AND SDHSTS_ERROR_MASK = 0"
    by (simp_all add: sample_card_def example_card_def well_formed_def)
  show "validate_signature (mbr_view (sd_content sample_card 0))"
    "example_partition = mbr_part (mbr_view (sd_content sample_card 0)) ! 0"
    unfolding sample_card_mbr by (simp_all add: validate_signature_def example_mbr_def MBR_SIG_def)
  show "unat (part_start example_partition) \<le> sd_sectors sample_card"
    "part_typ example_partition \<in> {MBR_FAT32_INT13, MBR_FAT16_INT13, MBR_FAT32, MBR_FAT16}"
    by (simp_all add: sd_sectors_def sample_card_def example_partition_def MBR_FAT32_INT13_def MBR_FAT16_INT13_def
      MBR_FAT32_def MBR_FAT16_def)
qed

lemma sample_card_bpb: "bpb_ok (sd_img sample_card example_partition 0) (sd_size sample_card example_partition)"
  unfolding sample_card_img sample_card_size sample_img_simps(1) by (rule sample_bpb_ok) simp_all

section \<open>The module before and after mounting it\<close>

definition sample_sys :: "sdhost fat_sys" where
  "sample_sys = \<lparr>FatFs = [0], Fsid = 0,
     fs_at = \<lambda>_. \<lparr>fs_type = 0, fs_drv = 0, n_fats = 0, wflag = 0, fs_id = 0, n_rootdir = 0, csize = 0,
       n_fatent = 0, fsize = 0, volbase = 0, fatbase = 0, dirbase = 0, database = 0, winsect = 0, win = []\<rparr>,
     disk_up = False, dsk = \<lparr>mbr = example_mbr, mmc = example_host\<rparr>\<rparr>"

definition sample_volume :: FATFS where
  "sample_volume = \<lparr>fs_type = FS_FAT12, fs_drv = 0, n_fats = 1, wflag = 0, fs_id = 7, n_rootdir = 16, csize = 1,
     n_fatent = 9, fsize = 1, volbase = 0, fatbase = 1, dirbase = 2, database = 3, winsect = 0, win = sample_boot\<rparr>"

definition sample_mounted :: "sdhost fat_sys" where
  "sample_mounted = sample_sys\<lparr>FatFs := [0x8000], fs_at := \<lambda>_. sample_volume, disk_up := True\<rparr>"

lemma sample_describes: "describes sample_boot sample_volume"
  by (simp add: describes_def Let_def sample_bpb_values) (simp add: sample_bpb sample_volume_def)

lemma sample_is_mounted:
  "mounted (sd_size sample_card example_partition) (sd_img sample_card example_partition)
     sample_volume 0x8000 sample_mounted"
proof -
  have w: "winsect sample_volume = 0" "win sample_volume = sample_img 0"
    by (simp_all add: sample_volume_def sample_img_simps)
  have "layout (sd_size sample_card example_partition) sample_volume"
    using describes_layout [OF sample_card_bpb] sample_describes
    by (simp add: sample_card_img sample_img_simps sample_volume_def)
  then show ?thesis
    unfolding mounted_def sample_card_img
    by (intro conjI exI [of _ 0] exI [of _ "sample_img 0"])
      (simp_all add: sample_mounted_def window_same [OF w, symmetric])
qed

end
