(* ===== verification/FatList.thy ===== *)
theory FatList
  imports FatOpen
begin

unbundle bit_operations_syntax

text \<open>
  Listing a directory: \<open>f_opendir\<close> and \<open>f_readdir\<close> against the sequence of its visible records.
\<close>

section \<open>Visible records\<close>

text \<open>No deleted record, no dot entry, no part of a long name and no volume label.\<close>

definition rec_visible :: "u8 list \<Rightarrow> bool" where
  "rec_visible e \<longleftrightarrow> e ! 0 \<noteq> 0xE5 \<and> e ! 0 \<noteq> 0x2E \<and> e ! 11 AND AM_MASK \<noteq> AM_LFN
     \<and> (e ! 11 AND AM_MASK) AND NOT AM_ARC \<noteq> AM_VOL"

text \<open>The first visible record from \<open>k\<close> on, or how the directory ends without one.\<close>

fun dir_seek :: "nat \<Rightarrow> (u32 \<Rightarrow> u8 list) \<Rightarrow> FATFS \<Rightarrow> u32 \<Rightarrow> nat \<Rightarrow> FRESULT + nat" where
  "dir_seek 0 img V c k = Inl FR_INT_ERR"
| "dir_seek (Suc n) img V c k =
     (if dir_rec img V c k ! 0 = 0 then Inl FR_NO_FILE
      else if rec_visible (dir_rec img V c k) then Inr k
      else if dir_has img V c (Suc k) then dir_seek n img V c (Suc k)
      else Inl (dir_end img V c k))"

lemma dir_end_error: "dir_end img V c k \<noteq> FR_OK"
  by (simp add: dir_end_def)

lemma dir_seek_error: "dir_seek n img V c k = Inl e \<Longrightarrow> e \<noteq> FR_OK"
  by (induction n arbitrary: k) (auto simp: dir_end_error split: if_splits)

lemma dir_seek_found:
  "dir_seek n img V c k = Inr i \<Longrightarrow> dir_has img V c k \<Longrightarrow>
    k \<le> i \<and> dir_has img V c i \<and> rec_visible (dir_rec img V c i) \<and> dir_rec img V c i ! 0 \<noteq> 0
    \<and> (\<forall>j. k \<le> j \<and> j < i \<longrightarrow> \<not> rec_visible (dir_rec img V c j))"
proof (induction n arbitrary: k)
  case (Suc n)
  show ?case
  proof (cases "i = k")
    case True
    then show ?thesis
      using Suc.prems Suc.IH [of "Suc k"] by (auto split: if_splits)
  next
    case False
    then have r: "dir_seek n img V c (Suc k) = Inr i" "dir_has img V c (Suc k)" "\<not> rec_visible (dir_rec img V c k)"
      using Suc.prems(1) by (auto split: if_splits)
    then show ?thesis
      using Suc.IH [OF r(1,2)] by (auto simp: Suc_le_eq dest: le_neq_implies_less)
  qed
qed simp

context volume_disk begin

lemma dir_read_loop_ok:
  assumes "mounted vsectors img V a s" and "dir_at img V a c k dp" and "65536 \<le> k + n"
  shows "returns up (dir_read_loop n dev False r0 dp) s (\<lambda>(res, dp') t. mounted vsectors img V a t
    \<and> obj_fs (dir_obj dp') = a \<and> obj_id (dir_obj dp') = obj_id (dir_obj dp) \<and> sclust (dir_obj dp') = c
    \<and> (case dir_seek n img V c k of Inl e \<Rightarrow> res = e
       | Inr i \<Rightarrow> res = FR_OK \<and> dir_at img V a c i dp' \<and> win_of a t = img (of_nat (dir_sector img V c i))))"
  using assms
proof (induction n arbitrary: s k dp r0)
  case 0
  then show ?case by (simp add: dir_at_def dir_has_def)
next
  case (Suc n)
  note m = Suc.prems(1) and at = Suc.prems(2)
  note own = dir_at_own [OF at]
  have nz: "(dir_sect dp = 0) = False"
    by (rule dir_next_guards(2) [OF mounted_simps(1) [OF m] at])
  let ?r = "dir_rec img V c k" and ?w = "img (of_nat (dir_sector img V c k))"
  note rb = rec_bytes [where img = img and V = V and c = c and k = k, OF img_length own(6) refl]
  have byte: "?w ! dir_ofs dp = ?r ! 0" "?w ! (dir_ofs dp + 11) = ?r ! 11"
    using rb(1) [of 0] rb(1) [of 11] by simp_all
  let ?dp = "set_attr (?r ! 11 AND AM_MASK) dp"
  have dp': "dir_at img V a c k ?dp" "obj_fs (dir_obj ?dp) = a" "dir_ofs ?dp = dir_ofs dp"
    "obj_id (dir_obj ?dp) = obj_id (dir_obj dp)" "sclust (dir_obj ?dp) = c"
    using at own by (simp_all add: set_attr_def dir_at_def)
  have vis: "?r ! 0 \<noteq> 0xE5 \<and> ?r ! 0 \<noteq> 0x2E \<and> ?r ! 11 AND AM_MASK \<noteq> AM_LFN
      \<and> (?r ! 11 AND AM_MASK) AND NOT AM_ARC \<noteq> AM_VOL \<longleftrightarrow> rec_visible ?r"
    by (simp add: rec_visible_def)
  have next_rec: "returns up (dir_read_loop n dev False r1 dp2) t2 (\<lambda>(res, dp') t. mounted vsectors img V a t
    \<and> obj_fs (dir_obj dp') = a \<and> obj_id (dir_obj dp') = obj_id (dir_obj dp) \<and> sclust (dir_obj dp') = c
    \<and> (case dir_seek n img V c (Suc k) of Inl e \<Rightarrow> res = e
       | Inr i \<Rightarrow> res = FR_OK \<and> dir_at img V a c i dp' \<and> win_of a t = img (of_nat (dir_sector img V c i))))"
    if "mounted vsectors img V a t2" "dir_at img V a c (Suc k) dp2" "obj_id (dir_obj dp2) = obj_id (dir_obj dp)"
    for t2 dp2 r1
    using Suc.IH [OF that(1,2)] Suc.prems(3) that(3) by simp
  show ?case
    apply (simp only: dir_read_loop.simps own(1) nz if_False Let_def)
    apply (rule returns_bind [OF dir_window [OF m at]])
    apply (elim conjE, simp only: simp_thms if_False)
    apply (rule returns_get_bind)
    apply (simp only: byte dp' vis dir_seek.simps)
    subgoal for _ t
      apply (cases "?r ! 0 = 0")
       apply (auto intro!: return_intros simp: own)[1]
      apply (cases "rec_visible ?r")
       apply (auto intro!: return_intros simp: own dp' at)[1]
      apply (simp only: if_False)
      apply (rule returns_bind2 [OF dir_next_ok [OF _ dp'(1)]], assumption)
      apply (cases "dir_has img V c (Suc k)")
       apply (simp only: dp' dir_stepped_def prod.case simp_thms if_True if_False next_rec)
      using dir_end_error by (auto intro!: return_intros simp: dp' dir_stepped_def)
    done
qed

end

section \<open>The sequence\<close>

text \<open>
  Where a directory object stands: at record \<open>k\<close>, or, with no sector, behind the last one.
\<close>

definition dir_pos :: "(u32 \<Rightarrow> u8 list) \<Rightarrow> FATFS \<Rightarrow> nat \<Rightarrow> u32 \<Rightarrow> nat option \<Rightarrow> DIR \<Rightarrow> bool" where
  "dir_pos img V a c q dp \<longleftrightarrow> obj_fs (dir_obj dp) = a \<and> obj_id (dir_obj dp) = fs_id V \<and> sclust (dir_obj dp) = c
     \<and> (case q of None \<Rightarrow> dir_sect dp = 0 | Some k \<Rightarrow> dir_at img V a c k dp)"

text \<open>What one call of \<open>f_readdir\<close> answers at a position, and where it leaves the object. The name is empty
  behind the last record.\<close>

definition next_pos :: "(u32 \<Rightarrow> u8 list) \<Rightarrow> FATFS \<Rightarrow> u32 \<Rightarrow> nat \<Rightarrow> nat option" where
  "next_pos img V c k = (if dir_has img V c (Suc k) then Some (Suc k) else if Suc k = 65536 then Some k else None)"

definition readdir_spec :: "(u32 \<Rightarrow> u8 list) \<Rightarrow> FATFS \<Rightarrow> u32 \<Rightarrow> nat option \<Rightarrow> FILINFO \<Rightarrow> FRESULT \<times> nat option \<times> FILINFO" where
  "readdir_spec img V c q info = (case q of
       None \<Rightarrow> (FR_OK, None, info\<lparr>fno_name := []\<rparr>)
     | Some k \<Rightarrow> (case dir_seek 65536 img V c k of
          Inl e \<Rightarrow> if e = FR_NO_FILE then (FR_OK, None, info\<lparr>fno_name := []\<rparr>) else (e, None, info)
        | Inr i \<Rightarrow> (if dir_has img V c (Suc i) \<or> dir_end img V c i = FR_NO_FILE then FR_OK else dir_end img V c i,
                    next_pos img V c i, rec_info (dir_rec img V c i) info)))"

context volume_disk begin

lemma dir_read_ok:
  assumes m: "mounted vsectors img V a s" and at: "dir_at img V a c k dp"
  shows "returns up (dir_read dev dp False) s (\<lambda>(res, dp') t. mounted vsectors img V a t
    \<and> obj_fs (dir_obj dp') = a \<and> obj_id (dir_obj dp') = obj_id (dir_obj dp) \<and> sclust (dir_obj dp') = c
    \<and> (case dir_seek 65536 img V c k of Inl e \<Rightarrow> res = e \<and> dir_sect dp' = 0
       | Inr i \<Rightarrow> res = FR_OK \<and> dir_at img V a c i dp' \<and> win_of a t = img (of_nat (dir_sector img V c i))))"
proof -
  have fuel: "unat (MAX_DIR div 32) = 65536"
    by (simp add: MAX_DIR_def)
  have enough: "65536 \<le> k + 65536" by simp
  show ?thesis
    unfolding dir_read_def fuel
    apply (rule returns_bind2 [OF dir_read_loop_ok [OF m at enough]])
    using dir_seek_error by (auto intro!: return_intros split: sum.splits)
qed

lemma dir_read_behind:
  assumes "dir_sect dp = 0"
  shows "returns up (dir_read dev dp False) s (\<lambda>(res, dp') t. res = FR_NO_FILE \<and> dp' = dp \<and> t = s)"
proof -
  have same: "dp\<lparr>dir_sect := 0\<rparr> = dp" using assms by simp
  have fuel: "unat (MAX_DIR div 32) = Suc 65535"
    by (simp add: MAX_DIR_def)
  show ?thesis
    unfolding dir_read_def fuel dir_read_loop.simps
    by (auto intro!: return_intros simp: assms same)
qed

lemma dir_next_behind:
  assumes "dir_sect dp = 0"
  shows "returns up (dir_next dev dp) s (\<lambda>(res, dp') t. res = FR_NO_FILE \<and> dp' = dp \<and> t = s)"
  unfolding dir_next_def Let_def by (auto intro!: return_intros simp: assms)

text \<open>The end of \<open>f_readdir\<close> at a record and behind the last one.\<close>

lemma readdir_record:
  assumes m: "mounted vsectors img V a t" and at: "dir_at img V a c i dp" and id: "obj_id (dir_obj dp) = fs_id V"
    and w: "win_of a t = img (of_nat (dir_sector img V c i))"
  shows "returns up (fbind (get_fileinfo dp info) (\<lambda>info. fbind (dir_next dev dp) (\<lambda>(res, dp).
      fret (if res = FR_NO_FILE then FR_OK else res, dp, Some info)))) t
    (\<lambda>(res, dp', info') t. mounted vsectors img V a t
      \<and> res = (if dir_has img V c (Suc i) \<or> dir_end img V c i = FR_NO_FILE then FR_OK else dir_end img V c i)
      \<and> info' = Some (rec_info (dir_rec img V c i) info)
      \<and> (res = FR_OK \<longrightarrow> dir_pos img V a c (next_pos img V c i) dp'))"
proof -
  note own = dir_at_own [OF at]
  have step: "dir_pos img V a c (next_pos img V c i) dp'"
    if "dir_stepped img V a c i dp r dp'" "r = FR_OK \<or> r = FR_NO_FILE" for r dp'
    using that own(1,2) id at dir_end_error [of img V c i]
    by (cases "dir_has img V c (Suc i)") (auto simp: dir_stepped_def dir_pos_def next_pos_def)
  show ?thesis
    apply (rule returns_bind [OF get_fileinfo_ok [OF m at w]], clarify)
    apply (rule returns_bind2 [OF dir_next_ok [OF m at]])
    subgoal for _ _ r dp' t'
      using step [of r dp']
      by (auto intro!: returns_fret simp: dir_stepped_def split: if_splits)
    done
qed

lemma readdir_behind:
  assumes "mounted vsectors img V a t" and "obj_fs (dir_obj dp) = a" "obj_id (dir_obj dp) = fs_id V"
    "sclust (dir_obj dp) = c" "dir_sect dp = 0"
  shows "returns up (fbind (get_fileinfo dp info) (\<lambda>info. fbind (dir_next dev dp) (\<lambda>(res, dp).
      fret (if res = FR_NO_FILE then FR_OK else res, dp, Some info)))) t
    (\<lambda>(res, dp', info') t. mounted vsectors img V a t \<and> res = FR_OK \<and> info' = Some (info\<lparr>fno_name := []\<rparr>)
      \<and> dir_pos img V a c None dp')"
proof -
  have "returns up (get_fileinfo dp info) t (\<lambda>i u. i = info\<lparr>fno_name := []\<rparr> \<and> u = t)"
    unfolding get_fileinfo_def by (auto intro!: return_intros simp: assms(5))
  then show ?thesis
    apply (rule returns_bind, clarify)
    apply (rule returns_bind2 [OF dir_next_behind [OF assms(5)]])
    using assms by (auto intro!: returns_fret simp: dir_pos_def)
qed

lemma f_readdir_ok:
  assumes m: "mounted vsectors img V a s" and pos: "dir_pos img V a c q dp"
  shows "returns up (f_readdir dev dp (Some info)) s (\<lambda>(res, dp', info') t. mounted vsectors img V a t
    \<and> (case readdir_spec img V c q info of (e, q', i) \<Rightarrow> res = e
         \<and> (res = FR_OK \<longrightarrow> info' = Some i \<and> dir_pos img V a c q' dp')))"
proof -
  have own: "obj_fs (dir_obj dp) = a" "obj_id (dir_obj dp) = fs_id V" "sclust (dir_obj dp) = c"
    using pos by (simp_all add: dir_pos_def)
  note behind = readdir_behind [where c = c and info = info]
  have rest: "returns up (fbind (dir_read dev dp False) (\<lambda>(res, dp).
      if res \<noteq> FR_OK \<and> res \<noteq> FR_NO_FILE then fret (res, dp, Some info)
      else fbind (get_fileinfo dp info) (\<lambda>info. fbind (dir_next dev dp) (\<lambda>(res, dp).
           fret (if res = FR_NO_FILE then FR_OK else res, dp, Some info))))) t
    (\<lambda>(res, dp', info') t. mounted vsectors img V a t
    \<and> (case readdir_spec img V c q info of (e, q', i) \<Rightarrow> res = e
         \<and> (res = FR_OK \<longrightarrow> info' = Some i \<and> dir_pos img V a c q' dp')))"
    if t: "mounted vsectors img V a t" for t
  proof (cases q)
    case None
    then have d: "dir_sect dp = 0" using pos by (simp add: dir_pos_def)
    show ?thesis
      apply (rule returns_bind2 [OF dir_read_behind [OF d]], clarify)
      apply (simp only: simp_thms if_False prod.case FRESULT.distinct)
      apply (rule returns_weaken [OF behind [OF t own d]])
      by (auto simp: readdir_spec_def None)
  next
    case (Some k)
    then have at: "dir_at img V a c k dp" using pos by (simp add: dir_pos_def)
    show ?thesis
    proof (cases "dir_seek 65536 img V c k")
      case (Inl e)
      then show ?thesis
        using dir_seek_error [OF Inl] own
        apply -
        apply (rule returns_bind2 [OF dir_read_ok [OF t at]])
        apply (simp only: sum.case prod.case)
        apply (cases "e = FR_NO_FILE")
         apply clarsimp
         apply (rule returns_weaken [OF behind])
        by (auto intro!: returns_fret simp: readdir_spec_def Some)
    next
      case (Inr i)
      have sp: "readdir_spec img V c q info
          = (if dir_has img V c (Suc i) \<or> dir_end img V c i = FR_NO_FILE then FR_OK else dir_end img V c i,
             next_pos img V c i, rec_info (dir_rec img V c i) info)"
        by (simp add: readdir_spec_def Some Inr)
      show ?thesis
        unfolding sp prod.case
        apply (rule returns_bind2 [OF dir_read_ok [OF t at]])
        apply (simp only: sum.case prod.case Inr)
        apply (elim conjE)
        apply (simp only: simp_thms if_False)
        apply (rule returns_weaken [OF readdir_record], assumption+)
        using own by auto
    qed
  qed
  show ?thesis
    unfolding f_readdir_def
    apply (rule returns_bind [OF validate_ok [OF m own(1,2)]])
    apply (clarsimp simp only: simp_thms if_False option.case)
    by (rule rest)
qed

end

section \<open>Opening a directory\<close>

text \<open>The cluster of the directory that a path names; the path of no name is the root directory.\<close>

definition fat_dir :: "(u32 \<Rightarrow> u8 list) \<Rightarrow> FATFS \<Rightarrow> u8 list \<Rightarrow> FRESULT + u32" where
  "fat_dir img V path =
     (let p = dropWhile separator path
      in if p = [] \<or> hd p < 0x20 then Inr 0
         else case fat_walk (length p + 1) img V 0 p of
           Inl e \<Rightarrow> Inl (if e = FR_NO_FILE then FR_NO_PATH else e)
         | Inr (c, k) \<Rightarrow> if dir_rec img V c k ! 11 AND AM_DIR = 0 then Inl FR_NO_PATH
             else Inr (ld_clust V (dir_rec img V c k) 0))"

definition opendir_spec :: "(u32 \<Rightarrow> u8 list) \<Rightarrow> FATFS \<Rightarrow> u8 list \<Rightarrow> FRESULT + u32" where
  "opendir_spec img V path = (case fat_dir img V path of Inl e \<Rightarrow> Inl e
     | Inr c \<Rightarrow> if dir_has img V c 0 then Inr c else Inl FR_INT_ERR)"

lemma fat_dir_error: "fat_dir img V path = Inl e \<Longrightarrow> e \<noteq> FR_OK"
  by (auto simp: fat_dir_def Let_def simp del: fat_walk.simps dest: fat_walk_error split: if_splits sum.splits)

lemma opendir_spec_error: "opendir_spec img V path = Inl e \<Longrightarrow> e \<noteq> FR_OK"
  by (auto simp: opendir_spec_def dest: fat_dir_error split: sum.splits if_splits)

context volume_disk begin

text \<open>The two ways \<open>follow_path\<close> ends: at the root directory itself, or at a record.\<close>

lemma follow_origin:
  assumes m: "mounted vsectors img V a s" and dp: "obj_fs (dir_obj dp) = a" "length (dir_fn dp) = 12"
    and p: "dropWhile separator path = [] \<or> hd (dropWhile separator path) < 0x20"
  shows "returns up (follow_path dev dp path) s (\<lambda>(res, dp') t. mounted vsectors img V a t
    \<and> obj_fs (dir_obj dp') = a \<and> dir_fn dp' ! 11 AND NS_NONAME \<noteq> 0
    \<and> res = (if dir_has img V 0 0 then FR_OK else FR_INT_ERR) \<and> (res = FR_OK \<longrightarrow> sclust (dir_obj dp') = 0))"
proof -
  let ?dp = "set_sclust 0 dp" and ?dp' = "set_sclust 0 dp\<lparr>dir_fn := (dir_fn (set_sclust 0 dp))[11 := NS_NONAME]\<rparr>"
  have d: "obj_fs (dir_obj ?dp') = a" "sclust (dir_obj ?dp') = 0" "dir_fn ?dp' ! 11 AND NS_NONAME \<noteq> 0"
    using dp by (simp_all add: set_sclust_def NS_NONAME_def)
  show ?thesis
    unfolding follow_path_def Let_def
    apply (simp only: p if_True)
    apply (rule returns_weaken [OF dir_sdi_ok [OF m d(1,2)]])
    using d by (auto simp: dir_at_def split: if_splits)
qed

lemma follow_record:
  assumes m: "mounted vsectors img V a s" and dp: "obj_fs (dir_obj dp) = a" "length (dir_fn dp) = 12"
    and p: "\<not> (dropWhile separator path = [] \<or> hd (dropWhile separator path) < 0x20)"
  shows "returns up (follow_path dev dp path) s (\<lambda>(res, dp') t. mounted vsectors img V a t
    \<and> found img V a (fat_walk (length (dropWhile separator path) + 1) img V 0 (dropWhile separator path)) res dp' t)"
proof -
  have "obj_fs (dir_obj (set_sclust 0 dp)) = a" "sclust (dir_obj (set_sclust 0 dp)) = 0"
    using dp by (simp_all add: set_sclust_def)
  then show ?thesis
    by (simp only: follow_path_def Let_def p if_False) (rule follow_loop_ok [OF m]; simp)
qed

text \<open>The part of \<open>f_opendir\<close> behind the choice of the directory \<open>q\<close>.\<close>

lemma opendir_end:
  assumes m: "mounted vsectors img V a t" and q: "case q of Inl e \<Rightarrow> res = e \<and> e \<noteq> FR_OK
      | Inr c \<Rightarrow> res = FR_OK \<and> obj_fs (dir_obj dp) = a \<and> sclust (dir_obj dp) = c"
  shows "returns up (fbind (if res = FR_OK then dir_sdi dev (dp\<lparr>dir_obj := (dir_obj dp)\<lparr>obj_id := fs_id V\<rparr>\<rparr>) 0
                            else fret (res, dp)) (\<lambda>(res, dp).
      let res = (if res = FR_NO_FILE then FR_NO_PATH else res)
      in fret (res, if res \<noteq> FR_OK then dp\<lparr>dir_obj := (dir_obj dp)\<lparr>obj_fs := 0\<rparr>\<rparr> else dp))) t
    (\<lambda>(res, dp') t. mounted vsectors img V a t
      \<and> (case q of Inl e \<Rightarrow> res = (if e = FR_NO_FILE then FR_NO_PATH else e) \<and> obj_fs (dir_obj dp') = 0
         | Inr c \<Rightarrow> if dir_has img V c 0 then res = FR_OK \<and> dir_pos img V a c (Some 0) dp'
             else res = FR_INT_ERR \<and> obj_fs (dir_obj dp') = 0))"
proof (cases q)
  case (Inl e)
  then show ?thesis
    using m q by (auto intro!: return_intros simp: Let_def)
next
  case (Inr c)
  let ?dp = "dp\<lparr>dir_obj := (dir_obj dp)\<lparr>obj_id := fs_id V\<rparr>\<rparr>"
  have res: "res = FR_OK" and d: "obj_fs (dir_obj ?dp) = a" "sclust (dir_obj ?dp) = c"
    using q Inr by simp_all
  show ?thesis
    apply (simp only: Inr sum.case res simp_thms if_True)
    apply (rule returns_bind2 [OF dir_sdi_ok [OF m d]])
    by (auto intro!: returns_fret simp: dir_pos_def dir_at_def Let_def split: if_splits)
qed

text \<open>The choice itself.\<close>

lemma f_opendir_ok:
  assumes m: "mounted vsectors img V a s" and path: "get_ldnumber path = (0, rest)"
  shows "returns up (f_opendir dev dp path) s (\<lambda>(res, dp') t. mounted vsectors img V a t
    \<and> (case opendir_spec img V rest of Inl e \<Rightarrow> res = e \<and> obj_fs (dir_obj dp') = 0
       | Inr c \<Rightarrow> res = FR_OK \<and> dir_pos img V a c (Some 0) dp'))"
proof -
  let ?p = "dropWhile separator rest" and ?dp = "dp\<lparr>dir_obj := (dir_obj dp)\<lparr>obj_fs := a\<rparr>, dir_fn := replicate 12 0\<rparr>"
  have d: "obj_fs (dir_obj ?dp) = a" "length (dir_fn ?dp) = 12" by simp_all
  have conclude: "mounted vsectors img V a t \<and> (case opendir_spec img V rest of Inl e \<Rightarrow> res = e \<and> obj_fs (dir_obj dp') = 0
       | Inr c \<Rightarrow> res = FR_OK \<and> dir_pos img V a c (Some 0) dp')"
    if "mounted vsectors img V a t \<and> (case q of Inl e \<Rightarrow> res = (if e = FR_NO_FILE then FR_NO_PATH else e) \<and> obj_fs (dir_obj dp') = 0
         | Inr c \<Rightarrow> if dir_has img V c 0 then res = FR_OK \<and> dir_pos img V a c (Some 0) dp'
             else res = FR_INT_ERR \<and> obj_fs (dir_obj dp') = 0)"
      and "opendir_spec img V rest = (case q of Inl e \<Rightarrow> Inl (if e = FR_NO_FILE then FR_NO_PATH else e)
         | Inr c \<Rightarrow> if dir_has img V c 0 then Inr c else Inl FR_INT_ERR)" for q res dp' t
    using that by (auto split: sum.splits if_splits)
  let ?choice = "\<lambda>fs res dp. if res = FR_OK \<and> dir_fn dp ! 11 AND NS_NONAME = 0
      then if obj_attr (dir_obj dp) AND AM_DIR \<noteq> 0 then (res, set_sclust (ld_clust fs (win fs) (dir_ofs dp)) dp)
           else (FR_NO_PATH, dp)
      else (res, dp)"
  have all: ?thesis
    if spec: "opendir_spec img V rest = (case q of Inl e \<Rightarrow> Inl (if e = FR_NO_FILE then FR_NO_PATH else e)
         | Inr c \<Rightarrow> if dir_has img V c 0 then Inr c else Inl FR_INT_ERR)"
      and path: "\<And>t. mounted vsectors img V a t \<Longrightarrow> returns up (follow_path dev ?dp rest) t (\<lambda>(res, dp') t.
        mounted vsectors img V a t \<and> (case ?choice (fs_at t a) res dp' of (res, dp) \<Rightarrow>
         case q of Inl e \<Rightarrow> res = e \<and> e \<noteq> FR_OK
         | Inr c \<Rightarrow> res = FR_OK \<and> obj_fs (dir_obj dp) = a \<and> sclust (dir_obj dp) = c))" for q
    unfolding f_opendir_def Let_def
    apply (rule returns_bind [OF find_volume_mounted [OF m assms(2)]])
    apply (clarsimp simp only: simp_thms if_False)
    apply (rule returns_bind2 [OF path], assumption)
    apply (erule conjE)
    apply (simp only: prod.case)
    apply (rule returns_get_bind)
    subgoal for _ _ _ t res dp' t'
      apply (cases "?choice (fs_at t' a) res dp'")
      apply (simp only: prod.case mounted_simps(4))
      apply (rule returns_weaken [OF opendir_end [unfolded Let_def]], assumption+)
      using conclude [OF _ spec] by auto
    done
  show ?thesis
  proof (cases "?p = [] \<or> hd ?p < 0x20")
    case True
    show ?thesis
    proof (rule all [of "if dir_has img V 0 0 then Inr 0 else Inl FR_INT_ERR"])
    qed (use True in \<open>auto simp: opendir_spec_def fat_dir_def intro!: returns_weaken [OF follow_origin [OF _ d True]] split: if_splits\<close>)
  next
    case False
    let ?q = "case fat_walk (length ?p + 1) img V 0 ?p of Inl e \<Rightarrow> Inl e
           | Inr (c, k) \<Rightarrow> if dir_rec img V c k ! 11 AND AM_DIR = 0 then Inl FR_NO_PATH
               else Inr (ld_clust V (dir_rec img V c k) 0)"
    show ?thesis
    proof (rule all [of ?q])
      show "opendir_spec img V rest = (case ?q of Inl e \<Rightarrow> Inl (if e = FR_NO_FILE then FR_NO_PATH else e)
         | Inr c \<Rightarrow> if dir_has img V c 0 then Inr c else Inl FR_INT_ERR)"
        by (simp only: opendir_spec_def fat_dir_def Let_def False if_False)
          (auto simp del: fat_walk.simps split: sum.splits if_splits)
    next
      show "returns up (follow_path dev ?dp rest) t (\<lambda>(res, dp') t. mounted vsectors img V a t
          \<and> (case ?choice (fs_at t a) res dp' of (res, dp) \<Rightarrow> case ?q of Inl e \<Rightarrow> res = e \<and> e \<noteq> FR_OK
            | Inr c \<Rightarrow> res = FR_OK \<and> obj_fs (dir_obj dp) = a \<and> sclust (dir_obj dp) = c))"
        if "mounted vsectors img V a t" for t
        apply (rule returns_weaken [OF follow_record [OF that d False]])
        subgoal for r t'
          apply (cases r, simp only: prod.case)
          apply (cases "fat_walk (length ?p + 1) img V 0 ?p")
          subgoal for res dp' e
            using fat_walk_error [of "length ?p + 1" img V 0 ?p e] by (auto simp: found_def)
          subgoal for res dp' i
          proof (cases i)
            case (Pair c k)
            assume f: "fat_walk (length ?p + 1) img V 0 ?p = Inr i"
              "mounted vsectors img V a t' \<and> found img V a (fat_walk (length ?p + 1) img V 0 ?p) res dp' t'"
            then have at: "dir_at img V a c k dp'" and m: "mounted vsectors img V a t'" and w: "win (fs_at t' a) = img (of_nat (dir_sector img V c k))"
              by (simp_all add: found_def Pair win_of_def)
            have o: "dir_ofs dp' = 32 * k mod 512" by (rule dir_at_own(6) [OF at])
            have attr: "(dir_rec img V c k ! 11 AND AM_MASK) AND AM_DIR = dir_rec img V c k ! 11 AND AM_DIR"
              by (simp add: and.assoc AM_MASK_def AM_DIR_def)
            show ?thesis
              using f dir_at_own(1) [OF at]
              by (simp add: found_def Pair attr mounted_simps(12) [OF m] rec_fields(1) [where img = img, OF img_length o w]
                set_sclust_def del: fat_walk.simps)
          qed
          done
        done
    qed
  qed
qed

end

section \<open>Reading to the end\<close>

text \<open>The records of a directory up to the one with first byte 0, or up to the last one when there is none:
  \<open>m\<close> of them.\<close>

definition dir_span :: "(u32 \<Rightarrow> u8 list) \<Rightarrow> FATFS \<Rightarrow> u32 \<Rightarrow> nat \<Rightarrow> bool" where
  "dir_span img V c m \<longleftrightarrow> m < 65536 \<and> (\<forall>k<m. dir_has img V c k \<and> dir_rec img V c k ! 0 \<noteq> 0)
     \<and> (if dir_has img V c m then dir_rec img V c m ! 0 = 0 else 0 < m \<and> dir_end img V c (m - 1) = FR_NO_FILE)"

text \<open>The visible ones from \<open>k\<close> on.\<close>

definition visible_from :: "(u32 \<Rightarrow> u8 list) \<Rightarrow> FATFS \<Rightarrow> u32 \<Rightarrow> nat \<Rightarrow> nat \<Rightarrow> nat list" where
  "visible_from img V c m k = filter (\<lambda>j. rec_visible (dir_rec img V c j)) [k..<m]"

lemma visible_from_step:
  "k < m \<Longrightarrow> visible_from img V c m k =
     (if rec_visible (dir_rec img V c k) then k # visible_from img V c m (Suc k) else visible_from img V c m (Suc k))"
  by (simp add: visible_from_def upt_conv_Cons)

lemma visible_from_end [simp]: "visible_from img V c m m = []"
  by (simp add: visible_from_def)

lemma visible_from_Cons:
  "visible_from img V c m k = j # js \<Longrightarrow> k \<le> j \<and> j < m \<and> js = visible_from img V c m (Suc j)"
proof (induction "m - k" arbitrary: k)
  case 0
  then show ?case by (simp add: visible_from_def)
next
  case (Suc n)
  then have "k < m" by simp
  moreover have "n = m - Suc k" using Suc.hyps(2) by simp
  ultimately show ?case
    using Suc.hyps(1) [of "Suc k"] Suc.prems
    by (auto simp: visible_from_step split: if_splits)
qed

lemma dir_seek_visible:
  assumes "dir_span img V c m" and "dir_has img V c k" and "k \<le> m" and "m - k < n"
  shows "dir_seek n img V c k = (case visible_from img V c m k of [] \<Rightarrow> Inl FR_NO_FILE | j # _ \<Rightarrow> Inr j)"
  using assms(2-4)
proof (induction n arbitrary: k)
  case (Suc n)
  show ?case
  proof (cases "k = m")
    case True
    then show ?thesis using Suc.prems(1) assms(1) by (simp add: dir_span_def)
  next
    case False
    then have k: "k < m" "dir_rec img V c k ! 0 \<noteq> 0" using Suc.prems(2) assms(1) by (simp_all add: dir_span_def)
    have "dir_end img V c k = FR_NO_FILE \<and> Suc k = m" if "\<not> dir_has img V c (Suc k)"
      using that k(1) assms(1) by (cases "Suc k = m") (auto simp: dir_span_def)
    then show ?thesis
      using Suc.IH [of "Suc k"] Suc.prems k by (auto simp: visible_from_step)
  qed
qed simp

text \<open>What is left to list at a position.\<close>

definition pending :: "(u32 \<Rightarrow> u8 list) \<Rightarrow> FATFS \<Rightarrow> u32 \<Rightarrow> nat \<Rightarrow> nat option \<Rightarrow> nat list" where
  "pending img V c m q = (case q of None \<Rightarrow> [] | Some k \<Rightarrow> visible_from img V c m k)"

definition pos_ok :: "(u32 \<Rightarrow> u8 list) \<Rightarrow> FATFS \<Rightarrow> u32 \<Rightarrow> nat \<Rightarrow> nat option \<Rightarrow> bool" where
  "pos_ok img V c m q \<longleftrightarrow> (case q of None \<Rightarrow> True | Some k \<Rightarrow> k \<le> m \<and> dir_has img V c k)"

definition listed :: "(u32 \<Rightarrow> u8 list) \<Rightarrow> FATFS \<Rightarrow> u32 \<Rightarrow> FILINFO \<Rightarrow> nat list \<Rightarrow> FILINFO" where
  "listed img V c info js = (case js of [] \<Rightarrow> info\<lparr>fno_name := []\<rparr> | j # _ \<Rightarrow> rec_info (dir_rec img V c j) info)"

lemma readdir_spec_pending:
  assumes sp: "dir_span img V c m" and q: "pos_ok img V c m q"
  obtains q' where "readdir_spec img V c q info = (FR_OK, q', listed img V c info (pending img V c m q))"
    "pos_ok img V c m q'" "pending img V c m q' = tl (pending img V c m q)"
proof (cases q)
  case None
  with that [of None] show thesis by (simp add: readdir_spec_def listed_def pending_def pos_ok_def)
next
  case (Some k)
  have k: "k \<le> m" "dir_has img V c k" "m < 65536" using q sp by (simp_all add: Some pos_ok_def dir_span_def)
  note seek = dir_seek_visible [OF sp k(2,1), of 65536]
  show thesis
  proof (cases "visible_from img V c m k")
    case Nil
    with that [of None] seek k show thesis by (simp add: readdir_spec_def Some listed_def pending_def pos_ok_def)
  next
    case (Cons j js)
    from visible_from_Cons [OF Cons] have j: "j < m" "js = visible_from img V c m (Suc j)" by simp_all
    have last: "dir_end img V c j = FR_NO_FILE \<and> Suc j = m" if "\<not> dir_has img V c (Suc j)"
      using that j(1) sp by (cases "Suc j = m") (auto simp: dir_span_def)
    show thesis
      using that [of "next_pos img V c j"] seek k j last
      by (cases "dir_has img V c (Suc j)")
        (auto simp: readdir_spec_def Some listed_def pending_def pos_ok_def next_pos_def Cons)
  qed
qed

text \<open>A program that calls \<open>f_readdir\<close> \<open>n\<close> times.\<close>

primrec readdir_times :: "nat \<Rightarrow> 'h dev \<Rightarrow> DIR \<Rightarrow> FILINFO \<Rightarrow> ('h, (FRESULT \<times> FILINFO option) list) fat" where
  "readdir_times 0 dev dp info = fret []"
| "readdir_times (Suc n) dev dp info = fbind (f_readdir dev dp (Some info)) (\<lambda>(res, dp, i).
     fbind (readdir_times n dev dp info) (\<lambda>l. fret ((res, i) # l)))"

definition listing :: "(u32 \<Rightarrow> u8 list) \<Rightarrow> FATFS \<Rightarrow> u32 \<Rightarrow> FILINFO \<Rightarrow> nat \<Rightarrow> nat list \<Rightarrow> (FRESULT \<times> FILINFO option) list" where
  "listing img V c info n js = map (\<lambda>i. (FR_OK, Some i))
     (take n (map (\<lambda>j. rec_info (dir_rec img V c j) info) js @ replicate n (info\<lparr>fno_name := []\<rparr>)))"

lemma listing_0: "listing img V c info 0 js = []"
  by (simp add: listing_def)

lemma listing_Suc:
  "listing img V c info (Suc n) js = (FR_OK, Some (listed img V c info js)) # listing img V c info n (tl js)"
proof -
  have fill: "take n (xs @ replicate (Suc n) y) = take n (xs @ replicate n y)" for xs :: "FILINFO list" and y
    by (simp add: min_def del: replicate_Suc)
  show ?thesis
    by (cases js) (simp_all only: listing_def listed_def list.case list.map append_Cons append_Nil take_Suc_Cons list.sel
      fill [unfolded replicate_Suc] replicate_Suc take_replicate min.idem)
qed

context volume_disk begin

lemma readdir_times_ok:
  assumes sp: "dir_span img V c m"
  shows "mounted vsectors img V a s \<Longrightarrow> dir_pos img V a c q dp \<Longrightarrow> pos_ok img V c m q \<Longrightarrow>
    returns up (readdir_times n dev dp info) s (\<lambda>l t. mounted vsectors img V a t
      \<and> l = listing img V c info n (pending img V c m q))"
proof (induction n arbitrary: s dp q)
  case 0
  then show ?case by (simp add: listing_0 returns_fret)
next
  case (Suc n)
  obtain q' where q': "readdir_spec img V c q info = (FR_OK, q', listed img V c info (pending img V c m q))"
    "pos_ok img V c m q'" "pending img V c m q' = tl (pending img V c m q)"
    by (rule readdir_spec_pending [OF sp Suc.prems(3)])
  show ?case
    apply (simp only: readdir_times.simps)
    apply (rule returns_bind2 [OF f_readdir_ok [OF Suc.prems(1,2), where info = info]])
    apply (clarsimp simp only: q'(1) prod.case simp_thms)
    apply (rule returns_bind [OF Suc.IH [OF _ _ q'(2)]], assumption+)
    by (auto intro!: returns_fret simp: listing_Suc q'(3))
qed

text \<open>Behind the last of 65536 records \<open>f_readdir\<close> never ends.\<close>

lemma readdir_times_last:
  assumes vis: "rec_visible (dir_rec img V c 65535)" "dir_rec img V c 65535 ! 0 \<noteq> 0"
  shows "mounted vsectors img V a s \<Longrightarrow> dir_pos img V a c (Some 65535) dp \<Longrightarrow>
    returns up (readdir_times n dev dp info) s (\<lambda>l t. mounted vsectors img V a t
      \<and> l = replicate n (FR_OK, Some (rec_info (dir_rec img V c 65535) info)))"
proof (induction n arbitrary: s dp)
  case 0
  then show ?case by (simp add: returns_fret)
next
  case (Suc n)
  have seek: "dir_seek 65536 img V c 65535 = Inr 65535"
    using vis dir_seek.simps(2) [of 65535] by simp
  have sp: "readdir_spec img V c (Some 65535) info
      = (FR_OK, Some 65535, rec_info (dir_rec img V c 65535) info)"
    by (simp add: readdir_spec_def seek next_pos_def dir_end_def dir_has_def)
  show ?case
    apply (simp only: readdir_times.simps)
    apply (rule returns_bind2 [OF f_readdir_ok [OF Suc.prems, where info = info]])
    apply (clarsimp simp only: sp prod.case simp_thms)
    apply (rule returns_bind [OF Suc.IH], assumption+)
    by (auto intro!: returns_fret)
qed

end

end
