(* ===== verification/FatSpec.thy ===== *)
theory FatSpec
  imports FatNames FatSample FatList
begin

unbundle bit_operations_syntax

text \<open>
  What FatFs promises on the FAT partition of an SD card: the facts of the interface
  \<open>volume_disk\<close> on the SD host driver below the partition layer. \<open>mounted n img V a s\<close> is the
  invariant of the module: the object at \<open>a\<close> describes the volume \<open>V\<close>, which fits on the \<open>n\<close>
  sectors \<open>img\<close>, and its window is coherent. The conclusions say that the operation returns, with
  every sector it reads inside the partition.
\<close>

section \<open>Mounting and the allocation table\<close>

text \<open>C8: Mounting a partition whose boot sector is that of a FAT volume that fits on it succeeds,
  whatever the object and the disk's state were before, and establishes the module's invariant with the
  geometry the boot sector describes: type, cluster size, table, root directory and data area
  lie inside the partition and do not overlap.\<close>
theorem f_mount_establishes_volume:
  assumes "bpb_ok (sd_img d p 0) (sd_size d p)" and "length (FatFs s) = 1" and "a \<noteq> 0"
    and "get_ldnumber path = (0, rest)"
  shows "returns (sd_up d p) (f_mount read_block a path 1) s (\<lambda>res t. res = FR_OK
    \<and> (\<exists>V. describes (sd_img d p 0) V \<and> layout (sd_size d p) V \<and> mounted (sd_size d p) (sd_img d p) V a t))"
  by (rule returns_weaken [OF sd.vol.f_mount_ok [OF assms]]) (auto dest: mounted_simps(1))

theorem f_mount_establishes_volume_witness:
  "returns (sd_up sample_card example_partition) (f_mount read_block 0x8000 (ascii ''0:'') 1) sample_sys
    (\<lambda>res t. res = FR_OK \<and> (\<exists>V. describes (sd_img sample_card example_partition 0) V
       \<and> layout (sd_size sample_card example_partition) V
       \<and> mounted (sd_size sample_card example_partition) (sd_img sample_card example_partition) V 0x8000 t))"
proof (rule f_mount_establishes_volume [OF sample_card_bpb])
  show "get_ldnumber (ascii ''0:'') = (0, [])" by code_simp
qed (simp_all add: sample_sys_def)

text \<open>C11: The module reads the allocation table as the array of entries it is, in each of the three
  packings: 12 bits with entries that cross a sector boundary, 16 bits, and 28 of 32 bits.\<close>
theorem get_fat_reads_entry:
  assumes "mounted (sd_size d p) (sd_img d p) V a s" and "obj_fs obj = a" and "cluster_ok V c"
  shows "returns (sd_up d p) (get_fat read_block obj c) s
    (\<lambda>v t. v = fat_entry (sd_img d p) V c \<and> mounted (sd_size d p) (sd_img d p) V a t)"
  by (rule sd.vol.get_fat_ok [OF assms])

theorem get_fat_reads_entry_witness:
  "returns (sd_up sample_card example_partition)
    (get_fat read_block \<lparr>obj_fs = 0x8000, obj_id = 7, obj_attr = 0, sclust = 6, objsize = 514\<rparr> 6) sample_mounted
    (\<lambda>v t. v = 7 \<and> mounted (sd_size sample_card example_partition) (sd_img sample_card example_partition)
       sample_volume 0x8000 t)"
proof -
  have "fat_entry (sd_img sample_card example_partition) sample_volume 6 = 7"
    unfolding sample_card_img by (rule sample_chain [OF sample_describes])
  moreover have "cluster_ok sample_volume 6" by (simp add: cluster_ok_def sample_volume_def)
  ultimately show ?thesis
    using get_fat_reads_entry [OF sample_is_mounted, of "\<lparr>obj_fs = 0x8000, obj_id = 7, obj_attr = 0, sclust = 6, objsize = 514\<rparr>" 6]
    by simp
qed

section \<open>Files\<close>

definition fil_contents :: "(u32 \<Rightarrow> u8 list) \<Rightarrow> FATFS \<Rightarrow> FIL \<Rightarrow> u8 list" where
  "fil_contents img V fp = file_bytes img V (sclust (fil_obj fp)) (fil_size fp)"

lemma slice_bytes:
  "map (file_byte img V c) [min k n ..< min k n + min m (n - min k n)] = take m (drop k (file_bytes img V c n))"
proof (cases "k \<le> n")
  case True
  then have "[k..<k + min m (n - k)] = take m [k..<n]" by (simp add: min_def)
  then show ?thesis using True by (simp add: file_bytes_def drop_map take_map)
qed (simp add: file_bytes_def)

text \<open>C3: Seeking to a position of an open file and reading from there gives the bytes of the file's
  cluster chain from that position on, as many as were asked for or as there are, through every
  cluster and sector boundary and both the buffered and the direct transfers; a position behind the
  end is the end. The object stays coherent.\<close>
theorem seek_then_read:
  assumes "mounted (sd_size d p) (sd_img d p) V a s" and "fil_ok (sd_img d p) V a fp"
  shows "returns (sd_up d p) (fbind (f_lseek read_block fp ofs) (\<lambda>(_, fp'). f_read read_block fp' btr)) s
    (\<lambda>(res, fp', br, data) t. res = FR_OK
       \<and> data = take (unat btr) (drop (unat ofs) (fil_contents (sd_img d p) V fp)) \<and> unat br = length data
       \<and> fil_ok (sd_img d p) V a fp' \<and> mounted (sd_size d p) (sd_img d p) V a t)"
proof -
  have read: "returns (sd_up d p) (f_read read_block fp' btr) t (\<lambda>(res, fp'', br, data) u. res = FR_OK
       \<and> data = take (unat btr) (drop (unat ofs) (fil_contents (sd_img d p) V fp)) \<and> unat br = length data
       \<and> fil_ok (sd_img d p) V a fp'' \<and> mounted (sd_size d p) (sd_img d p) V a u)"
    if t: "mounted (sd_size d p) (sd_img d p) V a t" and fp': "fil_ok (sd_img d p) V a fp'"
      and obj: "fil_obj fp' = fil_obj fp" and ptr: "unat (fptr fp') = min (unat ofs) (fil_size fp)" for t fp'
  proof -
    have sz: "fil_size fp' = fil_size fp" by (simp add: fil_size_def obj)
    show ?thesis
      apply (rule returns_weaken [OF sd.vol.f_read_ok [OF t fp' refl]])
      unfolding sd.vol.read_result_def ptr sz obj fil_contents_def
      by (auto simp: slice_bytes) (simp add: file_bytes_def min_def)
  qed
  show ?thesis
    apply (rule returns_bind2 [OF sd.vol.f_lseek_ok [OF assms]])
    apply (simp only: prod.case)
    by (rule read) simp_all
qed

definition sample_fil :: FIL where
  "sample_fil = \<lparr>fil_obj = \<lparr>obj_fs = 0x8000, obj_id = 7, obj_attr = 0x20, sclust = 6, objsize = 514\<rparr>, fil_flag = FA_READ,
     fil_err = FR_OK, fptr = 0, fil_clust = 0, fil_sect = 0, fil_buf = []\<rparr>"

lemma sample_fil_ok: "fil_ok (sd_img sample_card example_partition) sample_volume 0x8000 sample_fil"
  "fil_contents (sd_img sample_card example_partition) sample_volume sample_fil = sample_two"
  using sample_two_clusters [OF sample_describes] unfolding sample_card_img
  by (simp_all add: fil_ok_def fil_open_def fil_contents_def sample_fil_def fil_size_def sample_volume_def FA_READ_def)

theorem seek_then_read_witness:
  "returns (sd_up sample_card example_partition)
    (fbind (f_lseek read_block sample_fil 511) (\<lambda>(_, fp'). f_read read_block fp' 100)) sample_mounted
    (\<lambda>(res, fp', br, data) t. res = FR_OK \<and> data = [7, 8, 9] \<and> unat br = 3
       \<and> fil_ok (sd_img sample_card example_partition) sample_volume 0x8000 fp'
       \<and> mounted (sd_size sample_card example_partition) (sd_img sample_card example_partition) sample_volume 0x8000 t)"
proof -
  have data: "take (unat (100 :: u32)) (drop (unat (511 :: u32)) sample_two) = [7, 8, 9]"
    by (simp add: sample_two_def)
  show ?thesis
    by (rule returns_weaken [OF seek_then_read [OF sample_is_mounted sample_fil_ok(1), of 511 100, unfolded sample_fil_ok(2) data]])
      auto
qed

text \<open>C2: Opening a file by its path and reading all of it gives the contents of the file, or the
  error of the look-up, with the object closed: no such file or path, an invalid name, a directory
  in the place of the file. The path is walked on the image of the volume, one directory after the
  other.\<close>
theorem open_then_read:
  assumes "mounted (sd_size d p) (sd_img d p) V a s" and "get_ldnumber path = (0, rest)"
    and "\<And>e. fat_file (sd_img d p) V rest = Inr e \<Longrightarrow> rec_stored (sd_img d p) V e"
  shows "returns (sd_up d p) (fbind (f_open read_block fp path FA_READ) (\<lambda>(res, fp).
       if res \<noteq> FR_OK then fret (Inl (res, obj_fs (fil_obj fp)))
       else fbind (f_read read_block fp (f_size fp)) (\<lambda>(res, _, _, data). fret (Inr (res, data))))) s
    (\<lambda>r t. mounted (sd_size d p) (sd_img d p) V a t
       \<and> r = (case fat_file (sd_img d p) V rest of Inl e \<Rightarrow> Inl (e, 0)
              | Inr e \<Rightarrow> Inr (FR_OK, rec_bytes_of (sd_img d p) V e)))"
proof -
  have mode: "FA_READ AND FA_READ \<noteq> 0" by (simp add: FA_READ_def)
  note f_open = sd.vol.f_open_ok [OF assms(1,2) mode]
  show ?thesis
  proof (cases "fat_file (sd_img d p) V rest")
    case (Inl e)
    then show ?thesis
      using fat_file_error [OF Inl]
      by (auto intro!: returns_bind2 [OF f_open] returns_fret)
  next
    case (Inr e)
    have on: "opened_on (sd_img d p) V a (rec_bytes_of (sd_img d p) V e) fp'" if "opened V a e fp'" for fp'
      using that opened_ok [OF that assms(3) [OF Inr]]
      by (auto simp: opened_on_def rec_bytes_of_def opened_def fil_size_def)
    show ?thesis
      unfolding Inr sum.case
      apply (rule returns_bind2 [OF f_open])
      apply (clarsimp simp: Inr)
      apply (rule returns_bind [OF sd.vol.f_read_all [OF _ on]], assumption+)
      by (auto intro!: returns_fret)
  qed
qed

theorem open_then_read_witness:
  "returns (sd_up sample_card example_partition) (fbind (f_open read_block sample_fil (ascii ''two.bin'') FA_READ) (\<lambda>(res, fp).
       if res \<noteq> FR_OK then fret (Inl (res, obj_fs (fil_obj fp)))
       else fbind (f_read read_block fp (f_size fp)) (\<lambda>(res, _, _, data). fret (Inr (res, data))))) sample_mounted
    (\<lambda>r t. mounted (sd_size sample_card example_partition) (sd_img sample_card example_partition) sample_volume 0x8000 t
       \<and> r = Inr (FR_OK, sample_two))"
proof -
  obtain e where e: "fat_file sample_img sample_volume (ascii ''two.bin'') = Inr e" "rec_stored sample_img sample_volume e"
    "sample_two = rec_bytes_of sample_img sample_volume e"
    using sample_files(5) [OF sample_describes] by (auto simp: file_at_def)
  have path: "get_ldnumber (ascii ''two.bin'') = (0, ascii ''two.bin'')" by code_simp
  show ?thesis
    by (rule returns_weaken [OF open_then_read [OF sample_is_mounted path, unfolded sample_card_img e(1)]])
      (use e in \<open>auto simp: sample_card_img\<close>)
qed

section \<open>Directories and names\<close>

text \<open>C12: Looking up a name in a directory finds the first record with that name that is no volume
  label, and finds one exactly when there is one before the directory's end: on the root
  directory of FAT12 and FAT16 and on every chain of clusters, whatever the disk holds.\<close>
theorem dir_find_first:
  assumes "mounted (sd_size d p) (sd_img d p) V a s" and "obj_fs (dir_obj dp) = a" "sclust (dir_obj dp) = c"
    and "length (dir_fn dp) = 12"
  shows "returns (sd_up d p) (dir_find read_block dp) s (\<lambda>(res, dp') t.
      (res = FR_OK \<longleftrightarrow> (\<exists>k. dir_finds (sd_img d p) V c (take 11 (dir_fn dp)) k))
    \<and> (res = FR_OK \<longrightarrow> dir_finds (sd_img d p) V c (take 11 (dir_fn dp)) (unat (dptr dp') div 32))
    \<and> mounted (sd_size d p) (sd_img d p) V a t)"
proof -
  let ?img = "sd_img d p" and ?name = "take 11 (dir_fn dp)"
  have none: "\<not> dir_finds ?img V c ?name k" if "dir_lookup ?img V c ?name = Inl e" for e k
    using that by (simp flip: dir_lookup_finds)
  have pos: "unat (dptr dp') div 32 = k" if "dir_at ?img V a c k dp'" for k dp'
    using that by (simp add: dir_at_def)
  show ?thesis
    apply (rule returns_weaken [OF sd.vol.dir_find_ok [OF assms refl]])
    by (cases "dir_lookup ?img V c ?name") (auto dest: dir_lookup_error simp: pos none dir_lookup_finds)
qed

definition sample_dir :: DIR where
  "sample_dir = (blank_dir 0x8000)\<lparr>dir_fn := ascii ''RPI2    DTB'' @ [NS_LAST]\<rparr>"

theorem dir_find_first_witness:
  "returns (sd_up sample_card example_partition) (dir_find read_block sample_dir) sample_mounted (\<lambda>(res, dp') t.
     res = FR_OK \<and> dir_finds sample_img sample_volume 0 (ascii ''RPI2    DTB'') (unat (dptr dp') div 32))"
proof -
  have name: "take 11 (dir_fn sample_dir) = ascii ''RPI2    DTB''" by code_simp
  have dp: "obj_fs (dir_obj sample_dir) = 0x8000" "sclust (dir_obj sample_dir) = 0" "length (dir_fn sample_dir) = 12"
    by (simp_all add: sample_dir_def blank_dir_def ascii_def)
  have "dir_lookup sample_img sample_volume 0 (take 11 (sample_recs ! 4)) = Inr 4"
    by (rule sample_lookup [OF sample_describes]) code_simp+
  moreover have "take 11 (sample_recs ! 4) = ascii ''RPI2    DTB''" by code_simp
  ultimately have "dir_finds sample_img sample_volume 0 (ascii ''RPI2    DTB'') 4"
    by (simp add: dir_lookup_finds)
  then show ?thesis
    by (intro returns_weaken [OF dir_find_first [OF sample_is_mounted dp, unfolded name sample_card_img]]) auto
qed

text \<open>C14: \<open>f_stat\<close> returns for every path and every contents of the disk, cyclic directories and broken chains
  included: it succeeds exactly when the walk along the path ends at a record, and then reports
  the record's name, attributes, size and times. No call runs on for ever, since a directory is read for
  at most 65536 records and each directory level takes a character of the path.\<close>
theorem f_stat_returns:
  assumes "mounted (sd_size d p) (sd_img d p) V a s" and "get_ldnumber path = (0, rest)"
  shows "returns (sd_up d p) (f_stat read_block path (Some info)) s (\<lambda>(res, info') t.
      mounted (sd_size d p) (sd_img d p) V a t
    \<and> (case fat_find (sd_img d p) V rest of Inl e \<Rightarrow> res = e \<and> e \<noteq> FR_OK \<and> info' = Some info
       | Inr (c, k) \<Rightarrow> res = FR_OK \<and> info' = Some (rec_info (dir_rec (sd_img d p) V c k) info)))"
  by (rule returns_weaken [OF sd.vol.f_stat_ok [OF assms]])
    (auto dest: fat_find_error split: sum.splits)

definition blank_info :: FILINFO where
  "blank_info = \<lparr>fno_size = 0, fno_date = 0, fno_time = 0, fno_attrib = 0, fno_name = []\<rparr>"

theorem f_stat_returns_witness:
  "returns (sd_up sample_card example_partition) (f_stat read_block (ascii ''two.bin'') (Some blank_info)) sample_mounted
    (\<lambda>(res, info') t. res = FR_OK \<and> info' = Some
       \<lparr>fno_size = 514, fno_date = 0, fno_time = 0, fno_attrib = 0x20, fno_name = ascii ''TWO.BIN''\<rparr>)"
proof -
  have path: "get_ldnumber (ascii ''two.bin'') = (0, ascii ''two.bin'')" by code_simp
  have "dir_rec sample_img sample_volume 0 5 = sample_recs ! 5"
    by (rule sample_dir_rec [OF sample_describes]) simp
  moreover have "rec_info (sample_recs ! 5) blank_info
      = \<lparr>fno_size = 514, fno_date = 0, fno_time = 0, fno_attrib = 0x20, fno_name = ascii ''TWO.BIN''\<rparr>"
    by code_simp
  ultimately show ?thesis
    by (intro returns_weaken [OF f_stat_returns [OF sample_is_mounted path, unfolded sample_card_img
          sample_finds(5) [OF sample_describes]]]) auto
qed

text \<open>C13: Opening a directory and calling \<open>f_readdir\<close> again and again lists its visible records: each of them once,
  in the order of the disk, and then an empty name with every further call. Deleted records, dot
  entries, parts of long names and volume labels are left out. An open that fails reports why the path
  names no directory.\<close>
theorem directory_listing:
  assumes "mounted (sd_size d p) (sd_img d p) V a s" and "get_ldnumber path = (0, rest)"
    and "\<And>c. opendir_spec (sd_img d p) V rest = Inr c \<Longrightarrow> dir_span (sd_img d p) V c m"
  shows "returns (sd_up d p) (fbind (f_opendir read_block dp path) (\<lambda>(res, dp).
       if res \<noteq> FR_OK then fret (Inl (res, obj_fs (dir_obj dp)))
       else fbind (readdir_times n read_block dp info) (\<lambda>l. fret (Inr l)))) s
    (\<lambda>r t. mounted (sd_size d p) (sd_img d p) V a t
       \<and> r = (case opendir_spec (sd_img d p) V rest of Inl e \<Rightarrow> Inl (e, 0)
              | Inr c \<Rightarrow> Inr (listing (sd_img d p) V c info n (visible_from (sd_img d p) V c m 0))))"
proof -
  note f_opendir = sd.vol.f_opendir_ok [OF assms(1,2)]
  show ?thesis
  proof (cases "opendir_spec (sd_img d p) V rest")
    case (Inl e)
    then show ?thesis
      using opendir_spec_error [OF Inl]
      by (auto intro!: returns_bind2 [OF f_opendir] returns_fret)
  next
    case (Inr c)
    then have pos: "pos_ok (sd_img d p) V c m (Some 0)"
      by (auto simp: pos_ok_def opendir_spec_def split: sum.splits if_splits)
    show ?thesis
      unfolding Inr sum.case
      apply (rule returns_bind2 [OF f_opendir])
      apply (clarsimp simp: Inr)
      apply (rule returns_bind [OF sd.vol.readdir_times_ok [OF assms(3) [OF Inr] _ _ pos]], assumption+)
      by (auto intro!: returns_fret simp: pending_def)
  qed
qed

lemma sample_listing:
  assumes V: "describes sample_boot V"
  shows "dir_span sample_img V 0 6" "visible_from sample_img V 0 6 0 = [1, 2, 3, 4, 5]"
proof -
  have "dir_sector sample_img V 0 6 = 2"
    using sample_fields(7) [OF V] sample_geometry(3) [OF V] by (simp add: dir_sector_def)
  then have "dir_rec sample_img V 0 6 ! 0 = 0"
    by (simp add: dir_rec_def sample_img_simps nth_pad length_sample_recs pad_def)
  moreover have "dir_has sample_img V 0 6"
    by (simp add: dir_has_def sample_fields [OF V] sample_geometry [OF V])
  moreover have "\<forall>e \<in> set sample_recs. e ! 0 \<noteq> 0"
    by (simp add: sample_recs_def sample_rec_def ascii_def)
  then have "sample_recs ! k ! 0 \<noteq> 0" if "k < 6" for k
    using that by (simp add: sample_recs_length(1))
  ultimately show "dir_span sample_img V 0 6"
    by (simp add: dir_span_def sample_dir_has [OF V] sample_dir_rec [OF V])
  have "visible_from sample_img V 0 6 0 = filter (\<lambda>j. rec_visible (sample_recs ! j)) [0..<6]"
    unfolding visible_from_def by (rule filter_cong [OF refl]) (simp add: sample_dir_rec [OF V])
  also have "\<dots> = [1, 2, 3, 4, 5]" by code_simp
  finally show "visible_from sample_img V 0 6 0 = [1, 2, 3, 4, 5]" .
qed

theorem directory_listing_witness:
  "returns (sd_up sample_card example_partition) (fbind (f_opendir read_block sample_dir (ascii ''/'')) (\<lambda>(res, dp).
       if res \<noteq> FR_OK then fret (Inl (res, obj_fs (dir_obj dp)))
       else fbind (readdir_times 7 read_block dp blank_info) (\<lambda>l. fret (Inr l)))) sample_mounted
    (\<lambda>r t. \<exists>l. r = Inr l \<and> map (\<lambda>(res, i). (res, map_option fno_name i)) l
       = map (\<lambda>n. (FR_OK, Some (ascii n))) [''ZIMAGE'', ''INITRD'', ''CMDLINE.TXT'', ''RPI2.DTB'', ''TWO.BIN'', [], []])"
proof -
  have path: "get_ldnumber (ascii ''/'') = (0, ascii ''/'')" by code_simp
  have sp: "opendir_spec sample_img sample_volume (ascii ''/'') = Inr 0"
    using sample_dir_has [OF sample_describes, of 0] by (simp add: opendir_spec_def fat_dir_def ascii_def separator_def)
  have l: "listing sample_img sample_volume 0 blank_info 7 (visible_from sample_img sample_volume 0 6 0)
      = map (\<lambda>i. (FR_OK, Some i)) (map (\<lambda>j. rec_info (sample_recs ! j) blank_info) [1, 2, 3, 4, 5]
          @ [blank_info, blank_info])"
  proof -
    have "take 7 (map f [1, 2, 3, 4, 5 :: nat] @ replicate 7 y) = map f [1, 2, 3, 4, 5] @ [y, y]" for f :: "nat \<Rightarrow> FILINFO" and y
      by (simp add: numeral_2_eq_2)
    moreover have "blank_info\<lparr>fno_name := []\<rparr> = blank_info" by (simp add: blank_info_def)
    moreover have "map (\<lambda>j. rec_info (dir_rec sample_img sample_volume 0 j) blank_info) [1, 2, 3, 4, 5]
        = map (\<lambda>j. rec_info (sample_recs ! j) blank_info) [1, 2, 3, 4, 5]"
      by (simp add: sample_dir_rec [OF sample_describes])
    ultimately show ?thesis
      by (simp only: listing_def sample_listing(2) [OF sample_describes])
  qed
  have n: "map (\<lambda>i. fno_name i) (map (\<lambda>j. rec_info (sample_recs ! j) blank_info) [1, 2, 3, 4, 5] @ [blank_info, blank_info])
      = map ascii [''ZIMAGE'', ''INITRD'', ''CMDLINE.TXT'', ''RPI2.DTB'', ''TWO.BIN'', [], []]"
    by code_simp
  show ?thesis
    apply (rule returns_weaken [OF directory_listing [OF sample_is_mounted path, where m = 6, unfolded sample_card_img sp]])
    using sample_listing(1) [OF sample_describes] n by (auto simp: l)
qed

text \<open>C37: In a directory of 65536 records, the most that the format has, the listing has no end: when the last
  record is visible, every further call of \<open>f_readdir\<close> returns that record again, since
  \<open>dir_next\<close> reports the end there without giving up the sector.\<close>
theorem readdir_repeats_last:
  assumes "mounted (sd_size d p) (sd_img d p) V a s" and "dir_pos (sd_img d p) V a c (Some 65535) dp"
    and "rec_visible (dir_rec (sd_img d p) V c 65535)" and "dir_rec (sd_img d p) V c 65535 ! 0 \<noteq> 0"
  shows "returns (sd_up d p) (readdir_times n read_block dp info) s
    (\<lambda>l t. l = replicate n (FR_OK, Some (rec_info (dir_rec (sd_img d p) V c 65535) info)))"
  by (rule returns_weaken [OF sd.vol.readdir_times_last [OF assms(3,4,1,2)]]) simp

definition sample_last :: DIR where
  "sample_last = \<lparr>dir_obj = \<lparr>obj_fs = 0x8000, obj_id = 7, obj_attr = 0, sclust = 8, objsize = 0\<rparr>, dptr = 0x1FFFE0,
     dir_clust = 8, dir_sect = 9, dir_ofs = 480, dir_fn = replicate 12 0\<rparr>"

theorem readdir_repeats_last_witness:
  "returns (sd_up sample_card example_partition) (readdir_times 3 read_block sample_last blank_info) sample_mounted
    (\<lambda>l t. map (\<lambda>(res, i). (res, map_option fno_name i)) l = replicate 3 (FR_OK, Some (ascii ''AGAIN'')))"
proof -
  note cycle = sample_cycle [OF sample_describes]
  have "dir_sector sample_img sample_volume 8 65535 = 9" "dstart sample_volume 8 = 8"
    by (simp_all add: dir_sector_def sector_at_def cycle sample_geometry [OF sample_describes] dstart_def)
  moreover have "fs_id sample_volume = 7" by (simp add: sample_volume_def)
  ultimately have pos: "dir_pos sample_img sample_volume 0x8000 8 (Some 65535) sample_last"
    by (simp add: dir_pos_def dir_at_def sample_last_def cycle)
  have vis: "rec_visible (sample_rec ''AGAIN      '' 0x20 0 0 0)" "sample_rec ''AGAIN      '' 0x20 0 0 0 ! 0 \<noteq> 0"
    "fno_name (rec_info (sample_rec ''AGAIN      '' 0x20 0 0 0) blank_info) = ascii ''AGAIN''"
    by code_simp+
  show ?thesis
    apply (rule returns_weaken [OF readdir_repeats_last [OF sample_is_mounted, where c = 8,
        unfolded sample_card_img cycle(3), OF pos vis(1,2)]])
    by (simp add: vis(3))
qed

text \<open>C35: A name in the 8.3 form survives both ways: taken from a path into the form of a record and
  printed again it is the same, and the record's form is the one with the blanks filled in and
  the mark of the last segment.\<close>
theorem short_name_roundtrip:
  assumes "sfn_name body ext"
  shows "create_name (sfn_text body ext) = (FR_OK, sfn_entry body ext @ [NS_LAST], [])
    \<and> info_name (sfn_entry body ext) 0 = sfn_text body ext"
  using create_name_entry [OF assms] info_name_entry [OF assms] by simp

theorem short_name_roundtrip_witness:
  "create_name (ascii ''A-1.TXT'') = (FR_OK, ascii ''A-1     TXT'' @ [NS_LAST], [])
   \<and> info_name (ascii ''A-1     TXT'') 0 = ascii ''A-1.TXT''"
proof -
  have n: "sfn_name (ascii ''A-1'') (ascii ''TXT'')" by code_simp
  have t: "sfn_text (ascii ''A-1'') (ascii ''TXT'') = ascii ''A-1.TXT''"
    "sfn_entry (ascii ''A-1'') (ascii ''TXT'') = ascii ''A-1     TXT''" by code_simp+
  show ?thesis
    using short_name_roundtrip [OF n] unfolding t by simp
qed

section \<open>A volume with too short a table\<close>

text \<open>The boot sector of a FAT32 volume with 1073741822 clusters and tables of one sector.\<close>

definition short_fat_head :: "u8 list" where
  "short_fat_head = replicate 11 0 @ [0, 2, 1, 32, 0, 2, 0, 0, 0, 0, 0xF8, 0, 0] @ replicate 8 0
     @ [0x20, 0, 0, 0x40, 1, 0, 0, 0] @ replicate 4 0 @ [2, 0, 0, 0]"

definition short_fat_boot :: "u8 list" where
  "short_fat_boot = pad 510 (short_fat_head @ replicate 34 0 @ ascii ''FAT32   '') @ [0x55, 0xAA]"

text \<open>The check that the allocation table is long enough wraps around: with 0x40000000 entries of four
  bytes the size needed is computed as 0, and a volume is mounted whose table has 128 entries. The
  module misses the limit of 0x0FFFFFF5 clusters that the format has.\<close>
theorem mount_accepts_short_table:
  "\<exists>V. analyze_bpb short_fat_boot 0 fs = (Some FS_FAT32, V) \<and> n_fatent V = 0x40000000 \<and> fsize V = 1
     \<and> 512 * unat (fsize V) < 4 * unat (n_fatent V)"
proof -
  have len: "length short_fat_head = 48" by (simp add: short_fat_head_def)
  then have w: "short_fat_boot ! i = short_fat_head ! i" if "i < 48" for i
    using that by (simp add: short_fat_boot_def pad_def nth_append)
  have h: "short_fat_head ! i = (replicate 11 0 @ [0, 2, 1, 32, 0, 2, 0, 0, 0, 0, 0xF8, 0, 0] @ replicate 8 0
      @ [0x20, 0, 0, 0x40, 1, 0, 0, 0] @ replicate 4 0 @ [2, 0, 0, 0]) ! i" for i
    by (simp add: short_fat_head_def)
  show ?thesis
    by (simp add: analyze_bpb_def Let_def w h ld_word_def ld_dword_def nth_append FS_FAT32_def FS_FAT16_def)
qed

end
