(* ===== verification/FdtSw.thy ===== *)
theory FdtSw
  imports FdtWrite
begin

unbundle bit_operations_syntax

text \<open>
  Writing a device tree sequentially: \<^verbatim>\<open>fdt_sw.c\<close>, \<^verbatim>\<open>fdt_empty_tree.c\<close> and \<^verbatim>\<open>fdt_strerror.c\<close> of
  \<^verbatim>\<open>src/arm_chainloader/drivers/libfdt\<close>. While a tree is written the structure block grows upwards and
  the strings block downwards from the end of the buffer; \<open>fdt_finish\<close> moves the strings up to the structure
  and corrects their offsets.
\<close>

section \<open>The functions\<close>

definition fdt_sw_check_header :: "blob \<Rightarrow> int" where
  "fdt_sw_check_header b = (if fdt_magic b \<noteq> FDT_SW_MAGIC then - FDT_ERR_BADMAGIC else 0)"

definition fdt_grab_space :: "blob \<Rightarrow> int \<Rightarrow> int option \<times> blob" where
  "fdt_grab_space b len =
     (let offset = c_int (fdt_size_dt_struct b);
          spaceleft = c_int (fdt_totalsize b - fdt_off_dt_struct b - fdt_size_dt_strings b)
      in if c_unsigned (offset + len) < c_unsigned offset \<or> c_unsigned (offset + len) > c_unsigned spaceleft
         then (None, b)
         else let b = fdt_set_size_dt_struct b (offset + len) in (Some (fdt_struct_ptr b offset), b))"

definition memset :: "blob \<Rightarrow> int \<Rightarrow> u8 \<Rightarrow> int \<Rightarrow> blob" where
  "memset b p v n = (\<lambda>a. if p \<le> a \<and> a < p + n then v else b a)"

definition fdt_create :: "blob \<Rightarrow> int \<Rightarrow> int \<times> blob" where
  "fdt_create b bufsize =
     (if c_unsigned bufsize < 40 then (- FDT_ERR_NOSPACE, b)
      else let b = memset b 0 0 (c_unsigned bufsize);
               b = fdt_set_magic b FDT_SW_MAGIC;
               b = fdt_set_version b FDT_LAST_SUPPORTED_VERSION;
               b = fdt_set_last_comp_version b FDT_FIRST_SUPPORTED_VERSION;
               b = fdt_set_totalsize b bufsize;
               b = fdt_set_off_mem_rsvmap b (FDT_ALIGN 40 16);
               b = fdt_set_off_dt_struct b (fdt_off_mem_rsvmap b);
               b = fdt_set_off_dt_strings b bufsize
           in (0, b))"

text \<open>Here \<^verbatim>\<open>fdt\<close> and \<^verbatim>\<open>buf\<close> are two places in one memory.\<close>

definition fdt_resize :: "blob \<Rightarrow> int \<Rightarrow> int \<Rightarrow> int \<Rightarrow> int \<times> blob" where
  "fdt_resize m fdt buf bufsize =
     (let b = view_at m fdt
      in if fdt_sw_check_header b \<noteq> 0 then (fdt_sw_check_header b, m)
         else let headsize = fdt_off_dt_struct b;
                  tailsize = fdt_size_dt_strings b
              in if c_unsigned (headsize + tailsize) > c_unsigned bufsize then (- FDT_ERR_NOSPACE, m)
                 else let oldtail = fdt + fdt_totalsize b - tailsize;
                          newtail = buf + bufsize - tailsize;
                          m = (if buf \<le> fdt then memmove (memmove m buf fdt headsize) newtail oldtail tailsize
                               else memmove (memmove m newtail oldtail tailsize) buf fdt headsize);
                          m = at_blob m buf (\<lambda>b. fdt_set_off_dt_strings b bufsize)
                      in (0, at_blob m buf (\<lambda>b. fdt_set_totalsize b bufsize)))"

definition fdt_add_reservemap_entry :: "blob \<Rightarrow> int \<Rightarrow> int \<Rightarrow> int \<times> blob" where
  "fdt_add_reservemap_entry b addr sz =
     (if fdt_sw_check_header b \<noteq> 0 then (fdt_sw_check_header b, b)
      else if fdt_size_dt_struct b \<noteq> 0 then (- FDT_ERR_BADSTATE, b)
      else let offset = c_int (fdt_off_dt_struct b)
           in if c_unsigned (offset + 16) > fdt_totalsize b then (- FDT_ERR_NOSPACE, b)
              else let b = put64 b offset addr;
                       b = put64 b (offset + 8) sz
                   in (0, fdt_set_off_dt_struct b (offset + 16)))"

definition fdt_finish_reservemap :: "blob \<Rightarrow> int \<times> blob" where
  "fdt_finish_reservemap b = fdt_add_reservemap_entry b 0 0"

definition fdt_begin_node :: "blob \<Rightarrow> octets \<Rightarrow> int \<times> blob" where
  "fdt_begin_node b name =
     (let namelen = int (length name) + 1
      in if fdt_sw_check_header b \<noteq> 0 then (fdt_sw_check_header b, b)
         else case fdt_grab_space b (4 + FDT_TAGALIGN namelen) of
           (None, b) \<Rightarrow> (- FDT_ERR_NOSPACE, b)
         | (Some nh, b) \<Rightarrow> (0, copy_in (put32 b nh FDT_BEGIN_NODE) (nh + 4) (name @ [0])))"

definition fdt_end_node :: "blob \<Rightarrow> int \<times> blob" where
  "fdt_end_node b =
     (if fdt_sw_check_header b \<noteq> 0 then (fdt_sw_check_header b, b)
      else case fdt_grab_space b 4 of
        (None, b) \<Rightarrow> (- FDT_ERR_NOSPACE, b)
      | (Some en, b) \<Rightarrow> (0, put32 b en FDT_END_NODE))"

text \<open>The offset of the string from the end of the buffer, which is negative; 0 says that there is no room.\<close>

definition sw_find_add_string :: "blob \<Rightarrow> octets \<Rightarrow> int \<times> blob" where
  "sw_find_add_string b s =
     (let strtab = fdt_totalsize b; strtabsize = c_int (fdt_size_dt_strings b); len = int (length s) + 1
      in case fdt_find_string b (strtab - strtabsize) strtabsize s of
           Some p \<Rightarrow> (strtab - strtabsize + p - strtab, b)
         | None \<Rightarrow>
             let offset = - strtabsize - len;
                 struct_top = c_int (fdt_off_dt_struct b + fdt_size_dt_struct b)
             in if c_unsigned (fdt_totalsize b + offset) < c_unsigned struct_top then (0, b)
                else let b = copy_in b (strtab + offset) (s @ [0])
                     in (offset, fdt_set_size_dt_strings b (strtabsize + len)))"

definition fdt_property :: "blob \<Rightarrow> octets \<Rightarrow> octets \<Rightarrow> int \<times> blob" where
  "fdt_property b name val =
     (let len = int (length val)
      in if fdt_sw_check_header b \<noteq> 0 then (fdt_sw_check_header b, b)
         else case sw_find_add_string b name of (nameoff, b) \<Rightarrow>
           if nameoff = 0 then (- FDT_ERR_NOSPACE, b)
           else case fdt_grab_space b (12 + FDT_TAGALIGN len) of
             (None, b) \<Rightarrow> (- FDT_ERR_NOSPACE, b)
           | (Some prop, b) \<Rightarrow>
               (0, copy_in (put32 (put32 (put32 b prop FDT_PROP) (prop + 8) nameoff) (prop + 4) len) (prop + 12) val))"

text \<open>The walk of \<open>fdt_finish\<close> over the tags; it ends with the offset behind the last one or an error.\<close>

partial_function (option) finish_loop :: "blob \<Rightarrow> int \<Rightarrow> (int \<times> blob) option" where
  "finish_loop b offset =
     (if fst (fdt_next_tag b offset) = FDT_END then Some (snd (fdt_next_tag b offset), b)
      else finish_loop
        (if fst (fdt_next_tag b offset) = FDT_PROP
         then let prop = fdt_struct_ptr b offset;
                  nameoff = c_int (be32 b (prop + 8));
                  nameoff = c_int (nameoff + fdt_size_dt_strings b)
              in put32 b (prop + 8) nameoff
         else b)
        (snd (fdt_next_tag b offset)))"

definition fdt_finish :: "blob \<Rightarrow> (int \<times> blob) option" where
  "fdt_finish b =
     (if fdt_sw_check_header b \<noteq> 0 then Some (fdt_sw_check_header b, b)
      else case fdt_grab_space b 4 of
        (None, b) \<Rightarrow> Some (- FDT_ERR_NOSPACE, b)
      | (Some end, b) \<Rightarrow>
          let b = put32 b end FDT_END;
              oldstroffset = c_int (fdt_totalsize b - fdt_size_dt_strings b);
              newstroffset = c_int (fdt_off_dt_struct b + fdt_size_dt_struct b);
              b = memmove b newstroffset oldstroffset (fdt_size_dt_strings b);
              b = fdt_set_off_dt_strings b newstroffset
          in do {
            (nextoffset, b) \<leftarrow> finish_loop b 0;
            Some (if nextoffset < 0 then (nextoffset, b)
              else let b = fdt_set_totalsize b (newstroffset + fdt_size_dt_strings b)
                   in (0, fdt_set_magic b FDT_MAGIC)) })"

definition fdt_create_empty_tree :: "blob \<Rightarrow> int \<Rightarrow> (int \<times> blob) option" where
  "fdt_create_empty_tree buf bufsize =
     (case fdt_create buf bufsize of (err, buf) \<Rightarrow>
      if err \<noteq> 0 then Some (err, buf) else case fdt_finish_reservemap buf of (err, buf) \<Rightarrow>
      if err \<noteq> 0 then Some (err, buf) else case fdt_begin_node buf [] of (err, buf) \<Rightarrow>
      if err \<noteq> 0 then Some (err, buf) else case fdt_end_node buf of (err, buf) \<Rightarrow>
      if err \<noteq> 0 then Some (err, buf) else do {
        (err, buf) \<leftarrow> fdt_finish buf;
        if err \<noteq> 0 then Some (err, buf) else fdt_open_into buf 0 0 bufsize })"

section \<open>Messages\<close>

text \<open>The table has 13 entries; those of the codes that no initialiser names are null.\<close>

definition fdt_errtable :: "string option list" where
  "fdt_errtable = [None, Some ''FDT_ERR_NOTFOUND'', Some ''FDT_ERR_EXISTS'', Some ''FDT_ERR_NOSPACE'',
     Some ''FDT_ERR_BADOFFSET'', Some ''FDT_ERR_BADPATH'', None, Some ''FDT_ERR_BADSTATE'',
     Some ''FDT_ERR_TRUNCATED'', Some ''FDT_ERR_BADMAGIC'', Some ''FDT_ERR_BADVERSION'',
     Some ''FDT_ERR_BADSTRUCTURE'', Some ''FDT_ERR_BADLAYOUT'']"

definition fdt_strerror :: "int \<Rightarrow> string" where
  "fdt_strerror errval =
     (if errval > 0 then ''<valid offset/length>''
      else if errval = 0 then ''<no error>''
      else if c_unsigned errval > c_unsigned (- int (length fdt_errtable))
      then case fdt_errtable ! nat (- errval) of Some s \<Rightarrow> s | None \<Rightarrow> ''<unknown error>''
      else ''<unknown error>'')"

end
