(* ===== verification/FdtBuild.thy ===== *)
theory FdtBuild
  imports FdtSw FdtSpec
begin

unbundle bit_operations_syntax

text \<open>
  A blob that is being written sequentially holds the tokens written so far (\<open>sw_holds\<close>), each call appends
  one, and \<open>fdt_finish\<close> turns the blob into one that holds the tree in the sense of \<open>fdt_holds\<close>.
\<close>

section \<open>A blob under construction\<close>

text \<open>The strings end where the buffer ends; a property names its string by the offset from there.\<close>

definition sw_strtab :: "blob \<Rightarrow> octets" where
  "sw_strtab b = seg b (fdt_totalsize b - fdt_size_dt_strings b) (nat (fdt_size_dt_strings b))"

definition sw_name :: "octets \<Rightarrow> int \<Rightarrow> octets \<Rightarrow> bool" where
  "sw_name st off n \<longleftrightarrow> (\<exists>i. string_at st i n \<and> i < int (length st) \<and> off = c_unsigned (i - int (length st)))"

definition sw_slack :: "blob \<Rightarrow> int" where
  "sw_slack b = fdt_totalsize b - fdt_off_dt_struct b - fdt_size_dt_struct b - fdt_size_dt_strings b"

definition sw_holds :: "blob \<Rightarrow> token list \<Rightarrow> bool" where
  "sw_holds b ts \<longleftrightarrow> fdt_magic b = FDT_SW_MAGIC \<and> fdt_version b = 17 \<and> fdt_last_comp_version b = 16
     \<and> 40 \<le> fdt_off_mem_rsvmap b \<and> fdt_off_mem_rsvmap b + 16 \<le> fdt_off_dt_struct b
     \<and> 0 \<le> sw_slack b \<and> fdt_totalsize b < 2 ^ 31 \<and> fdt_size_dt_struct b = toks_size ts
     \<and> toks_as (sw_name (sw_strtab b)) b (fdt_off_dt_struct b) ts"

lemma sw_name_more: "sw_name st off n \<Longrightarrow> sw_name (x @ st) off n"
proof -
  assume "sw_name st off n"
  then obtain i where i: "string_at st i n" "i < int (length st)" "off = c_unsigned (i - int (length st))"
    by (auto simp: sw_name_def)
  then have "string_at (x @ st) (i + int (length x)) n"
    by (simp add: string_at_def nat_add_distrib)
  then show ?thesis
    using i by (auto simp: sw_name_def intro!: exI [of _ "i + int (length x)"])
qed

lemma sw_check [simp]: "sw_holds b ts \<Longrightarrow> fdt_sw_check_header b = 0"
  by (simp add: sw_holds_def fdt_sw_check_header_def)

text \<open>The fields of the header after a call that leaves it but for the sizes.\<close>

definition same_header :: "blob \<Rightarrow> blob \<Rightarrow> bool" where
  "same_header b b' \<longleftrightarrow> fdt_magic b' = fdt_magic b \<and> fdt_version b' = fdt_version b
     \<and> fdt_last_comp_version b' = fdt_last_comp_version b \<and> fdt_off_mem_rsvmap b' = fdt_off_mem_rsvmap b
     \<and> fdt_off_dt_struct b' = fdt_off_dt_struct b \<and> fdt_totalsize b' = fdt_totalsize b"

lemma same_header_agree:
  assumes "\<And>a. 0 \<le> a \<Longrightarrow> a < 32 \<Longrightarrow> b' a = b a"
  shows "same_header b b'"
proof -
  have "be32 b' q = be32 b q" if "0 \<le> q" "q \<le> 28" for q
    using that by (intro be32_cong assms) simp_all
  then show ?thesis
    by (simp add: same_header_def fdt_header)
qed

section \<open>Appending a token\<close>

lemma grab_space_ok:
  assumes h: "sw_holds b ts" and len: "0 \<le> len" "len \<le> sw_slack b"
  shows "fdt_grab_space b len =
    (Some (fdt_off_dt_struct b + toks_size ts), fdt_set_size_dt_struct b (toks_size ts + len))"
proof -
  note hb = fdt_header_bounds [of b] and ts = toks_size_nonneg [of ts]
  have l: "fdt_size_dt_struct b = toks_size ts" "fdt_totalsize b < 2 ^ 31" "0 \<le> sw_slack b"
    using h by (simp_all add: sw_holds_def)
  have left: "c_int (fdt_totalsize b - fdt_off_dt_struct b - fdt_size_dt_strings b) = sw_slack b + toks_size ts"
    using l ts hb by (simp add: sw_slack_def c_int_small)
  have "toks_size ts < 2 ^ 31" "sw_slack b + toks_size ts < 2 ^ 31"
    using l hb by (simp_all add: sw_slack_def)
  then show ?thesis
    using l(1) ts len left
    by (simp add: fdt_grab_space_def Let_def c_int_small c_unsigned_small fdt_struct_ptr_def fdt_setters fdt_off_dt_struct_def
      be32_put32_other)
qed

lemma grab_space_none:
  assumes h: "sw_holds b ts" and len: "sw_slack b < len" "len < 2 ^ 31"
  shows "fdt_grab_space b len = (None, b)"
proof -
  note hb = fdt_header_bounds [of b] and ts = toks_size_nonneg [of ts]
  have l: "fdt_size_dt_struct b = toks_size ts" "fdt_totalsize b < 2 ^ 31" "0 \<le> sw_slack b"
    using h by (simp_all add: sw_holds_def)
  have left: "c_int (fdt_totalsize b - fdt_off_dt_struct b - fdt_size_dt_strings b) = sw_slack b + toks_size ts"
    using l ts hb by (simp add: sw_slack_def c_int_small)
  have "toks_size ts < 2 ^ 31" "sw_slack b + toks_size ts < 2 ^ 31"
    using l hb by (simp_all add: sw_slack_def)
  then show ?thesis
    using l ts len left
    by (simp add: fdt_grab_space_def Let_def c_int_small c_unsigned_small)
qed

lemma sw_append:
  assumes h: "sw_holds b ts" and room: "tok_size t \<le> sw_slack b"
    and frame: "\<And>a. a < fdt_off_dt_struct b + toks_size ts \<or> fdt_off_dt_struct b + toks_size ts + tok_size t \<le> a \<Longrightarrow>
      b' a = fdt_set_size_dt_struct b (toks_size ts + tok_size t) a"
    and t: "tok_as (sw_name (sw_strtab b)) b' (fdt_off_dt_struct b + toks_size ts) t"
  shows "sw_holds b' (ts @ [t])" "sw_slack b' = sw_slack b - tok_size t" "same_header b b'"
proof -
  let ?os = "fdt_off_dt_struct b" and ?n = "toks_size ts + tok_size t"
  note hb = fdt_header_bounds [of b] and nn = toks_size_nonneg [of ts] tok_size_pos [of t]
  have l: "fdt_size_dt_struct b = toks_size ts" "fdt_totalsize b < 2 ^ 31" "40 \<le> ?os"
    using h by (simp_all add: sw_holds_def)
  have n: "0 \<le> ?n" "?n < 2 ^ 32"
    using nn room l hb by (simp_all add: sw_slack_def)
  have body: "b' a = b a" if "a < 36 \<or> 40 \<le> a" "a < ?os + toks_size ts \<or> ?os + ?n \<le> a" for a
    using that frame [of a] by (simp add: fdt_setters put32_outside add.assoc)
  show same: "same_header b b'"
    by (rule same_header_agree) (use body l nn in simp)
  have "be32 b' 36 = be32 (fdt_set_size_dt_struct b ?n) 36"
    by (rule be32_cong, rule frame) (use l nn in simp)
  then have sz: "fdt_size_dt_struct b' = ?n"
    using n by (simp add: fdt_setters fdt_header be32_put32)
  have "be32 b' 32 = be32 b 32"
    by (rule be32_cong, rule body) (use l nn in simp_all)
  then have str: "fdt_size_dt_strings b' = fdt_size_dt_strings b"
    by (simp add: fdt_header)
  show slack: "sw_slack b' = sw_slack b - tok_size t"
    using same l by (simp add: sw_slack_def same_header_def sz str)
  have st: "sw_strtab b' = sw_strtab b"
    unfolding sw_strtab_def str
    using same room l hb nn
    by (simp add: same_header_def sw_slack_def) (rule seg_cong, rule body; simp)
  have "toks_as (sw_name (sw_strtab b)) b' (?os + 0) ts"
    by (rule toks_as_frame [where d = 0, of "sw_name (sw_strtab b)" b, simplified])
      (use h body l nn in \<open>auto simp: sw_holds_def\<close>)
  then show "sw_holds b' (ts @ [t])"
    using h same slack sz room t st by (simp add: sw_holds_def same_header_def)
qed

lemma begin_node_ok:
  assumes h: "sw_holds b ts" and name: "0 \<notin> set name" and room: "tok_size (T_BEGIN name) \<le> sw_slack b"
  obtains b' where "fdt_begin_node b name = (0, b')" "sw_holds b' (ts @ [T_BEGIN name])"
    "sw_slack b' = sw_slack b - tok_size (T_BEGIN name)" "same_header b b'"
proof -
  let ?t = "T_BEGIN name" and ?p = "fdt_off_dt_struct b + toks_size ts"
  let ?b = "fdt_set_size_dt_struct b (toks_size ts + tok_size ?t)"
  let ?b' = "copy_in (put32 ?b ?p FDT_BEGIN_NODE) (?p + 4) (name @ [0])"
  note al = FDT_TAGALIGN_bounds(1) [of "int (length name) + 1"]
  have res: "fdt_begin_node b name = (0, ?b')"
    using grab_space_ok [OF h _ room] tok_size_pos [of ?t] h by (simp add: fdt_begin_node_def)
  have frame: "?b' a = ?b a" if "a < ?p \<or> ?p + tok_size ?t \<le> a" for a
    using that al by (auto simp: copy_in_outside put32_outside)
  have t: "tok_as (sw_name (sw_strtab b)) ?b' ?p ?t"
    using name by (auto simp: be32_copy_other be32_put32 fdt_tags seg_eq_iff copy_in_inside)
  show ?thesis
    by (rule that [OF res sw_append [OF h room frame t]])
qed

lemma end_node_ok:
  assumes h: "sw_holds b ts" and room: "tok_size T_END_NODE \<le> sw_slack b"
  obtains b' where "fdt_end_node b = (0, b')" "sw_holds b' (ts @ [T_END_NODE])"
    "sw_slack b' = sw_slack b - tok_size T_END_NODE" "same_header b b'"
proof -
  let ?t = T_END_NODE and ?p = "fdt_off_dt_struct b + toks_size ts"
  let ?b = "fdt_set_size_dt_struct b (toks_size ts + tok_size ?t)"
  have res: "fdt_end_node b = (0, put32 ?b ?p FDT_END_NODE)"
    using grab_space_ok [OF h _ room] h by (simp add: fdt_end_node_def)
  have frame: "put32 ?b ?p FDT_END_NODE a = ?b a" if "a < ?p \<or> ?p + tok_size ?t \<le> a" for a
    using that by (simp add: put32_outside)
  have t: "tok_as (sw_name (sw_strtab b)) (put32 ?b ?p FDT_END_NODE) ?p ?t"
    by (simp add: be32_put32 fdt_tags)
  show ?thesis
    by (rule that [OF res sw_append [OF h room frame t]])
qed

lemma sw_find_string_ok:
  assumes h: "sw_holds b ts" and s: "0 \<notin> set s"
    and f: "fdt_find_string b (fdt_totalsize b - fdt_size_dt_strings b) (fdt_size_dt_strings b) s = Some off"
  shows "string_at (sw_strtab b) off s" "0 \<le> off" "off < fdt_size_dt_strings b"
proof -
  note hb = fdt_header_bounds [of b]
  obtain i where i: "off = int i" "seg b (fdt_totalsize b - fdt_size_dt_strings b + int i) (length s + 1) = s @ [0]"
    "i < nat (fdt_size_dt_strings b - int (length s + 1) + 1)"
    using f by (auto simp: fdt_find_string_def Let_def dest!: find_Some)
  then have "i + (length s + 1) \<le> nat (fdt_size_dt_strings b)" by simp
  then have "take (length s + 1) (drop i (sw_strtab b)) = s @ [0]"
    using i(2) by (simp add: sw_strtab_def drop_seg take_seg del: length_append_singleton)
  then show "string_at (sw_strtab b) off s"
    using s by (simp add: string_at_def i(1))
  show "0 \<le> off" "off < fdt_size_dt_strings b"
    using i by simp_all
qed

lemma length_sw_strtab: "int (length (sw_strtab b)) = fdt_size_dt_strings b"
  using fdt_header_bounds [of b] by (simp add: sw_strtab_def)

lemma sw_find_add_string_ok:
  assumes h: "sw_holds b ts" and s: "0 \<notin> set s" and room: "int (length s) + 1 \<le> sw_slack b"
  obtains off b' where "sw_find_add_string b s = (off, b')" "off < 0" "- (2 ^ 31) < off" "sw_holds b' ts"
    "sw_name (sw_strtab b') (c_unsigned off) s" "sw_slack b - (int (length s) + 1) \<le> sw_slack b'"
    "sw_slack b' \<le> sw_slack b" "same_header b b'"
proof -
  note hb = fdt_header_bounds [of b] and nn = toks_size_nonneg [of ts]
  let ?sz = "fdt_size_dt_strings b" and ?tot = "fdt_totalsize b" and ?len = "int (length s) + 1" and ?os = "fdt_off_dt_struct b"
  have l: "fdt_size_dt_struct b = toks_size ts" "?tot < 2 ^ 31" "40 \<le> ?os"
    "?os + toks_size ts + sw_slack b + ?sz = ?tot" "0 \<le> sw_slack b"
    using h by (simp_all add: sw_holds_def) (simp add: sw_slack_def)
  have sz: "c_int ?sz = ?sz"
    using l hb nn by (simp add: c_int_small)
  show ?thesis
  proof (cases "fdt_find_string b (?tot - ?sz) ?sz s")
    case (Some p)
    note p = sw_find_string_ok [OF h s Some]
    have "sw_find_add_string b s = (p - ?sz, b)"
      by (simp add: sw_find_add_string_def sz Some)
    moreover have "sw_name (sw_strtab b) (c_unsigned (p - ?sz)) s"
      using p by (auto simp: sw_name_def length_sw_strtab)
    ultimately show ?thesis
      using p h l nn by (intro that [of "p - ?sz" b]) (auto simp: same_header_def)
  next
    case None
    let ?off = "- ?sz - ?len"
    let ?b = "copy_in b (?tot + ?off) (s @ [0])"
    let ?b' = "fdt_set_size_dt_strings ?b (?sz + ?len)"
    have "c_unsigned (?tot + ?off) = ?tot + ?off" "c_unsigned (c_int (?os + fdt_size_dt_struct b)) = ?os + toks_size ts"
      subgoal by (rule c_unsigned_small) (use l room nn hb in simp_all)
      subgoal using l room nn hb by (simp add: c_int_small c_unsigned_small)
      done
    then have res: "sw_find_add_string b s = (?off, ?b')"
      using l room by (simp add: sw_find_add_string_def sz None Let_def)
    have body: "?b' a = b a" if "a < 32 \<or> 36 \<le> a" "a < ?tot + ?off \<or> ?tot - ?sz \<le> a" for a
      using that by (auto simp: fdt_setters put32_outside copy_in_outside)
    have same: "same_header b ?b'"
      by (rule same_header_agree) (use body l nn room in simp)
    have "be32 ?b' 36 = be32 b 36"
      by (rule be32_cong, rule body) (use l nn room in simp_all)
    then have f: "fdt_size_dt_struct ?b' = toks_size ts"
      using l(1) by (simp add: fdt_header)
    have str: "fdt_size_dt_strings ?b' = ?sz + ?len"
      using l hb nn room by (simp add: fdt_header fdt_setters be32_put32)
    have slack: "sw_slack ?b' = sw_slack b - ?len"
      using same l(1) by (simp add: sw_slack_def same_header_def f str)
    have st: "sw_strtab ?b' = (s @ [0]) @ sw_strtab b"
    proof -
      have tot: "fdt_totalsize ?b' = ?tot" using same by (simp add: same_header_def)
      have n: "nat (?sz + ?len) = (length s + 1) + nat ?sz" using hb by simp
      have new: "seg ?b' (?tot + ?off) (length s + 1) = s @ [0]"
        using l room nn by (auto simp: seg_eq_iff fdt_setters put32_outside copy_in_inside)
      have old: "seg ?b' (?tot - ?sz) (nat ?sz) = sw_strtab b"
        unfolding sw_strtab_def by (rule seg_cong, rule body) (use l hb nn room in simp_all)
      have start: "?tot - (?sz + ?len) = ?tot + ?off" "?tot + ?off + int (length s + 1) = ?tot - ?sz" by simp_all
      show ?thesis
        unfolding sw_strtab_def [of ?b'] str tot n start(1) seg_append [of _ _ "length s + 1" "nat ?sz"] start(2) new old ..
    qed
    have "string_at (sw_strtab ?b') 0 s"
      using s by (simp add: st string_at_def)
    moreover have "0 < int (length (sw_strtab ?b'))" "?off = 0 - int (length (sw_strtab ?b'))"
      unfolding length_sw_strtab str using hb by simp_all
    ultimately have name: "sw_name (sw_strtab ?b') (c_unsigned ?off) s"
      unfolding sw_name_def by (intro exI [of _ 0] conjI arg_cong [where f = c_unsigned])
    have "toks_as (sw_name (sw_strtab ?b')) ?b' (?os + 0) ts"
      unfolding st
      by (rule toks_as_frame [where d = 0, of "sw_name (sw_strtab b)" b, simplified])
        (use h body l room nn sw_name_more [of _ _ _ "s @ [0]"] in \<open>auto simp: sw_holds_def\<close>)
    then have "sw_holds ?b' ts"
      using h same f slack room by (simp add: sw_holds_def same_header_def)
    then show ?thesis
      using res name slack same l hb nn room by (intro that [of ?off ?b']) auto
  qed
qed

text \<open>What a property takes at most: its token and its name, when the name is new.\<close>

lemma property_ok:
  assumes h: "sw_holds b ts" and name: "0 \<notin> set name" and room: "prop_cost name val \<le> sw_slack b"
  obtains b' where "fdt_property b name val = (0, b')" "sw_holds b' (ts @ [T_PROP name val])"
    "sw_slack b - prop_cost name val \<le> sw_slack b'" "same_header b b'"
proof -
  let ?t = "T_PROP name val"
  note al = FDT_TAGALIGN_bounds(1) [of "int (length val)"] FDT_TAGALIGN_nonneg [of "int (length val)"]
  have cost: "prop_cost name val = tok_size ?t + (int (length name) + 1)"
    by (simp add: prop_cost_def)
  have "int (length name) + 1 \<le> sw_slack b"
    using room al by (simp add: prop_cost_def)
  then obtain off c where c: "sw_find_add_string b name = (off, c)" "off < 0" "- (2 ^ 31) < off" "sw_holds c ts"
    "sw_name (sw_strtab c) (c_unsigned off) name" "sw_slack b - (int (length name) + 1) \<le> sw_slack c"
    "sw_slack c \<le> sw_slack b" "same_header b c"
    by (rule sw_find_add_string_ok [OF h name])
  have left: "tok_size ?t \<le> sw_slack c"
    using c(6) room cost by simp
  let ?p = "fdt_off_dt_struct c + toks_size ts" and ?c = "fdt_set_size_dt_struct c (toks_size ts + tok_size ?t)"
  let ?b' = "copy_in (put32 (put32 (put32 ?c ?p FDT_PROP) (?p + 8) off) (?p + 4) (int (length val))) (?p + 12) val"
  have res: "fdt_property b name val = (0, ?b')"
    using grab_space_ok [OF c(4) _ left] tok_size_pos [of ?t] h c(1,2) by (simp add: fdt_property_def Let_def)
  have frame: "?b' a = ?c a" if "a < ?p \<or> ?p + tok_size ?t \<le> a" for a
    using that al by (auto simp: copy_in_outside put32_outside)
  have len: "int (length val) < 2 ^ 32"
    using left al c(4) fdt_header_bounds [of c] by (simp add: sw_holds_def sw_slack_def)
  have t: "tok_as (sw_name (sw_strtab c)) ?b' ?p ?t"
    using c(5) len
    by (auto simp: be32_copy_other be32_put32 be32_put32_other fdt_tags seg_eq_iff copy_in_inside c_unsigned_def)
  note app = sw_append [OF c(4) left frame t]
  show ?thesis
    by (rule that [OF res app(1)]) (use app(2,3) c(6,8) cost in \<open>simp_all add: same_header_def\<close>)
qed

section \<open>Finishing\<close>

lemma c_int_c_unsigned: "c_int (c_unsigned x) = c_int x"
  by (simp add: c_int_def c_unsigned_def mod_simps)

lemma shape_agree:
  assumes "fdt_shape b" and "\<And>a. 0 \<le> a \<Longrightarrow> a < 40 \<Longrightarrow> b' a = b a"
  shows "fdt_shape b'" "fdt_off_dt_struct b' = fdt_off_dt_struct b" "fdt_size_dt_struct b' = fdt_size_dt_struct b"
    "fdt_size_dt_strings b' = fdt_size_dt_strings b"
proof -
  have "be32 b' q = be32 b q" if "0 \<le> q" "q \<le> 36" for q
    using that by (intro be32_cong assms(2)) simp_all
  then show "fdt_shape b'" "fdt_off_dt_struct b' = fdt_off_dt_struct b" "fdt_size_dt_struct b' = fdt_size_dt_struct b"
    "fdt_size_dt_strings b' = fdt_size_dt_strings b"
    using assms(1) by (simp_all add: fdt_shape_def fdt_header)
qed

lemma toks_as_same:
  assumes "toks_as N b p ts" and "\<And>a. p \<le> a \<Longrightarrow> a < p + toks_size ts \<Longrightarrow> b' a = b a"
  shows "toks_as N b' p ts"
  using toks_as_frame [OF assms(1), of N b' 0] assms(2) by simp

text \<open>The step of the walk at a property: the offset of its name, counted from the end of the strings, becomes one
  from their start.\<close>

definition fix_name :: "blob \<Rightarrow> int \<Rightarrow> blob" where
  "fix_name b p = put32 b (p + 8) (c_int (c_int (be32 b (p + 8)) + fdt_size_dt_strings b))"

lemma fix_name_ok:
  assumes t: "tok_as (sw_name st) b p (T_PROP n v)" and st: "fdt_size_dt_strings b = int (length st)" "int (length st) < 2 ^ 31"
  shows "tok_as (string_at st) (fix_name b p) p (T_PROP n v)"
proof -
  obtain i where i: "string_at st i n" "i < int (length st)" "be32 b (p + 8) = c_unsigned (i - int (length st))"
    using t by (auto simp: sw_name_def)
  then have "0 \<le> i" by (simp add: string_at_def)
  with i st have "c_int (c_int (be32 b (p + 8)) + fdt_size_dt_strings b) = i"
    by (simp add: c_int_c_unsigned c_int_small)
  then have put: "fix_name b p = put32 b (p + 8) i"
    by (simp add: fix_name_def)
  have "seg (put32 b (p + 8) i) (p + 12) (length v) = seg b (p + 12) (length v)"
    by (rule seg_cong) (simp add: put32_outside)
  then show ?thesis
    using t i \<open>0 \<le> i\<close> st(2) by (simp add: put be32_put32 be32_put32_other)
qed

lemma finish_loop_ok:
  assumes "fdt_shape b" and "fdt_size_dt_strings b = int (length st)" "int (length st) < 2 ^ 31"
    and "0 \<le> off" "off mod 4 = 0" and "T_END \<notin> set ts"
    and "toks_as (sw_name st) b (fdt_off_dt_struct b + off) (ts @ [T_END])"
    and "off + toks_size ts + 4 \<le> fdt_size_dt_struct b"
  obtains b' where "finish_loop b off = Some (off + toks_size ts + 4, b')"
    "toks_as (string_at st) b' (fdt_off_dt_struct b + off) (ts @ [T_END])"
    "\<And>a. a < fdt_off_dt_struct b + off \<or> fdt_off_dt_struct b + off + toks_size ts \<le> a \<Longrightarrow> b' a = b a"
  using assms
proof (induction ts arbitrary: b off thesis)
  case Nil
  have tag: "fdt_next_tag b off = (tag_of T_END, off + tok_size T_END)"
    by (rule next_tag_tok [where N = "sw_name st"]) (use Nil.prems(2-9) in simp_all)
  have "finish_loop b off = Some (off + toks_size [] + 4, b)"
    by (subst finish_loop.simps) (simp add: tag)
  then show ?case
    by (rule Nil.prems(1)) (use Nil.prems(8) in simp_all)
next
  case (Cons t ts)
  let ?p = "fdt_off_dt_struct b + off"
  note nn = tok_size_pos [of t] toks_size_nonneg [of ts]
  have os: "40 \<le> fdt_off_dt_struct b" using Cons.prems(2) by (simp add: fdt_shape_def)
  have t: "tok_as (sw_name st) b ?p t" "toks_as (sw_name st) b (?p + tok_size t) (ts @ [T_END])"
    using Cons.prems(8) by simp_all
  have tag: "fdt_next_tag b off = (tag_of t, off + tok_size t)"
    by (rule next_tag_tok [OF Cons.prems(2) t(1) Cons.prems(5,6)]) (use Cons.prems(9) nn in simp)
  define b1 where "b1 = (if tag_of t = FDT_PROP then fix_name b ?p else b)"
  have tag': "tag_of t \<noteq> FDT_END" using Cons.prems(7) by (cases t) (simp_all add: fdt_tags)
  have loop: "finish_loop b off = finish_loop b1 (off + tok_size t)"
    by (subst finish_loop.simps) (simp add: tag tag' b1_def fix_name_def fdt_struct_ptr_def Let_def)
  have size: "tag_of t = FDT_PROP \<Longrightarrow> 12 \<le> tok_size t"
    by (cases t) (simp_all add: fdt_tags FDT_TAGALIGN_nonneg)
  have frame: "b1 a = b a" if "a < ?p \<or> ?p + tok_size t \<le> a" for a
    using that size by (auto simp: b1_def fix_name_def put32_outside)
  have head: "b1 a = b a" if "0 \<le> a" "a < 40" for a
    using that os Cons.prems(5) by (intro frame) simp
  note same = shape_agree [OF Cons.prems(2) head]
  have t1: "tok_as (string_at st) b1 ?p t"
  proof (cases t)
    case (T_PROP n v)
    then show ?thesis
      using fix_name_ok [OF _ Cons.prems(3,4)] t(1) by (simp add: b1_def)
  qed (use t(1) in \<open>simp_all add: b1_def fdt_tags\<close>)
  have rest: "toks_as (sw_name st) b1 (fdt_off_dt_struct b1 + (off + tok_size t)) (ts @ [T_END])"
    using toks_as_same [OF t(2), of b1] frame by (simp add: same(2) add.assoc)
  obtain b' where b': "finish_loop b1 (off + tok_size t) = Some (off + tok_size t + toks_size ts + 4, b')"
    "toks_as (string_at st) b' (fdt_off_dt_struct b1 + (off + tok_size t)) (ts @ [T_END])"
    "\<And>a. a < fdt_off_dt_struct b1 + (off + tok_size t) \<or> fdt_off_dt_struct b1 + (off + tok_size t) + toks_size ts \<le> a
      \<Longrightarrow> b' a = b1 a"
  proof (rule Cons.IH [OF _ same(1) _ Cons.prems(4) _ _ _ rest])
    show "(off + tok_size t) mod 4 = 0"
      using Cons.prems(6) tok_size_mod [of t] by presburger
  qed (use Cons.prems(3,5,7,9) nn same(3,4) in simp_all)
  have "tok_as (string_at st) b' ?p t"
    using toks_as_same [of "string_at st" b1 ?p "[t]" b'] t1 b'(3) by (simp add: same(2))
  then show ?case
    by (intro Cons.prems(1) [of b']) (use b' loop frame nn in \<open>auto simp: same(2) add.assoc\<close>)
qed

text \<open>The strings moved up to the structure block.\<close>

definition joined :: "blob \<Rightarrow> int \<Rightarrow> blob" where
  "joined b edge = fdt_set_off_dt_strings
     (memmove b edge (fdt_totalsize b - fdt_size_dt_strings b) (fdt_size_dt_strings b)) edge"

lemma joined_ok:
  assumes h: "sw_holds b ts" and edge: "edge = fdt_off_dt_struct b + toks_size ts"
  shows "same_header b (joined b edge)" "fdt_size_dt_struct (joined b edge) = toks_size ts"
    "fdt_size_dt_strings (joined b edge) = fdt_size_dt_strings b" "fdt_off_dt_strings (joined b edge) = edge"
    "strtab (joined b edge) = sw_strtab b" "\<And>a. 40 \<le> a \<Longrightarrow> a < edge \<Longrightarrow> joined b edge a = b a"
proof -
  note hb = fdt_header_bounds [of b] and nn = toks_size_nonneg [of ts]
  let ?b = "joined b edge" and ?sz = "fdt_size_dt_strings b"
  have l: "40 \<le> fdt_off_dt_struct b" "fdt_size_dt_struct b = toks_size ts" "edge + ?sz \<le> fdt_totalsize b" "fdt_totalsize b < 2 ^ 31"
    using h edge by (simp_all add: sw_holds_def sw_slack_def)
  have body: "?b a = b a" if "a < 12 \<or> 16 \<le> a" "a < edge" for a
    using that by (auto simp: joined_def fdt_setters put32_outside memmove_def)
  show "joined b edge a = b a" if "40 \<le> a" "a < edge" for a
    using that by (intro body) simp_all
  have w: "be32 ?b q = be32 b q" if "0 \<le> q" "q + 4 \<le> 12 \<or> 16 \<le> q" "q \<le> 36" for q
    using that l nn edge by (intro be32_cong body) auto
  show "same_header b ?b" "fdt_size_dt_struct ?b = toks_size ts"
    using l(2) by (simp_all add: same_header_def fdt_header w)
  show str: "fdt_size_dt_strings ?b = ?sz" by (simp add: fdt_header w)
  show off: "fdt_off_dt_strings ?b = edge"
    using l hb nn edge by (simp add: joined_def fdt_header fdt_setters be32_put32)
  show "strtab ?b = sw_strtab b"
    unfolding strtab_def sw_strtab_def str off
    by (rule seg_cong) (use l nn edge in \<open>auto simp: joined_def fdt_setters put32_outside memmove_def\<close>)
qed

lemma finish_steps:
  assumes "fdt_sw_check_header b = 0" "fdt_grab_space b 4 = (Some p, b0)" "put32 b0 p FDT_END = b1"
    and "c_int (fdt_totalsize b1 - fdt_size_dt_strings b1) = fdt_totalsize b1 - fdt_size_dt_strings b1"
    and "c_int (fdt_off_dt_struct b1 + fdt_size_dt_struct b1) = edge"
    and "finish_loop (joined b1 edge) 0 = Some (n, b2)" "0 \<le> n"
  shows "fdt_finish b = Some (0, fdt_set_magic (fdt_set_totalsize b2 (edge + fdt_size_dt_strings b2)) FDT_MAGIC)"
  using assms by (simp add: fdt_finish_def Let_def joined_def)

text \<open>The header of a finished blob.\<close>

lemma sealed_ok:
  assumes "fdt_version b = 17" "fdt_last_comp_version b \<le> 17" "40 \<le> fdt_off_mem_rsvmap b"
    and "fdt_off_mem_rsvmap b + 16 \<le> fdt_off_dt_struct b" "fdt_off_dt_struct b + fdt_size_dt_struct b = fdt_off_dt_strings b"
    and "n = fdt_off_dt_strings b + fdt_size_dt_strings b" "n < 2 ^ 31"
    and "toks_at b (strtab b) (fdt_off_dt_struct b) ts" "fdt_size_dt_struct b = toks_size ts"
  shows "fdt_holds (fdt_set_magic (fdt_set_totalsize b n) FDT_MAGIC) ts"
    "fdt_totalsize (fdt_set_magic (fdt_set_totalsize b n) FDT_MAGIC) = n"
    "fdt_off_dt_struct (fdt_set_magic (fdt_set_totalsize b n) FDT_MAGIC) = fdt_off_dt_struct b"
proof -
  let ?b = "fdt_set_magic (fdt_set_totalsize b n) FDT_MAGIC"
  note hb = fdt_header_bounds [of b] and nn = toks_size_nonneg [of ts]
  have body: "?b a = b a" if "8 \<le> a" for a
    using that by (simp add: fdt_setters put32_outside)
  have w: "be32 ?b q = be32 b q" if "8 \<le> q" for q
    using that by (intro be32_cong body) simp
  have f: "fdt_magic ?b = FDT_MAGIC" "fdt_off_dt_struct ?b = fdt_off_dt_struct b"
    "fdt_size_dt_struct ?b = fdt_size_dt_struct b" "fdt_size_dt_strings ?b = fdt_size_dt_strings b"
    "fdt_off_dt_strings ?b = fdt_off_dt_strings b" "fdt_version ?b = fdt_version b"
    "fdt_last_comp_version ?b = fdt_last_comp_version b" "fdt_off_mem_rsvmap ?b = fdt_off_mem_rsvmap b"
    by (simp_all add: fdt_header w) (simp add: fdt_setters be32_put32 FDT_MAGIC_def)
  show tot: "fdt_totalsize ?b = n"
    using assms hb by (simp add: fdt_header fdt_setters be32_put32 be32_put32_other)
  show "fdt_off_dt_struct ?b = fdt_off_dt_struct b" by (rule f)
  have "strtab ?b = strtab b"
    unfolding strtab_def f by (rule seg_cong, rule body) (use assms hb in simp)
  moreover have "toks_at ?b (strtab b) (fdt_off_dt_struct b) ts"
    by (rule toks_as_same [OF assms(8)], rule body) (use assms in simp)
  moreover have "fdt_off_dt_strings b + fdt_size_dt_strings b \<le> n" by (simp add: assms(6))
  ultimately show "fdt_holds ?b ts"
    using assms(1-5,7-9) by (simp add: fdt_holds_def fdt_layout_def f tot)
qed

text \<open>The end token, and the blob joined.\<close>

lemma terminated_ok:
  assumes h: "sw_holds b ts" and room: "4 \<le> sw_slack b"
  obtains b0 b1 where "fdt_grab_space b 4 = (Some (fdt_off_dt_struct b + toks_size ts), b0)"
    "put32 b0 (fdt_off_dt_struct b + toks_size ts) FDT_END = b1" "sw_holds b1 (ts @ [T_END])"
    "sw_slack b1 = sw_slack b - 4" "same_header b b1"
proof -
  let ?p = "fdt_off_dt_struct b + toks_size ts" and ?b0 = "fdt_set_size_dt_struct b (toks_size ts + tok_size T_END)"
  have grab: "fdt_grab_space b 4 = (Some ?p, ?b0)"
    using grab_space_ok [OF h _ room] by simp
  have frame: "put32 ?b0 ?p FDT_END a = ?b0 a" if "a < ?p \<or> ?p + tok_size T_END \<le> a" for a
    using that by (simp add: put32_outside)
  have e: "tok_as (sw_name (sw_strtab b)) (put32 ?b0 ?p FDT_END) ?p T_END"
    by (simp add: be32_put32 fdt_tags)
  show ?thesis
    by (rule that [OF grab refl]) (use sw_append [OF h _ frame e] room in simp_all)
qed

lemma walked_ok:
  assumes h: "sw_holds b (ts @ [T_END])" and plain: "T_END \<notin> set ts" and edge: "edge = fdt_off_dt_struct b + toks_size (ts @ [T_END])"
  obtains b' where "finish_loop (joined b edge) 0 = Some (toks_size ts + 4, b')" "toks_at b' (strtab b') (fdt_off_dt_struct b') (ts @ [T_END])"
    "same_header b b'" "fdt_size_dt_struct b' = toks_size (ts @ [T_END])" "fdt_size_dt_strings b' = fdt_size_dt_strings b"
    "fdt_off_dt_strings b' = edge"
proof -
  note hb = fdt_header_bounds [of b] and nn = toks_size_nonneg [of ts] and j = joined_ok [OF h edge]
  let ?os = "fdt_off_dt_struct b" and ?b = "joined b edge" and ?st = "sw_strtab b"
  have l: "fdt_size_dt_struct b = toks_size ts + 4" "fdt_totalsize b < 2 ^ 31" "40 \<le> ?os"
    "edge + fdt_size_dt_strings b \<le> fdt_totalsize b" "?os + (toks_size ts + 4) \<le> edge"
    using h edge by (simp_all add: sw_holds_def sw_slack_def)
  have jl: "fdt_off_dt_struct ?b = ?os" "fdt_totalsize ?b = fdt_totalsize b" "fdt_version ?b = 17"
    using j(1) h by (simp_all add: same_header_def sw_holds_def)
  have shape: "fdt_shape ?b"
    using l j(2) jl hb by (simp add: fdt_shape_def)
  have toks: "toks_as (sw_name ?st) ?b (fdt_off_dt_struct ?b + 0) (ts @ [T_END])"
    unfolding jl(1) add_0_right
    by (rule toks_as_same [of _ b]) (use h j(6) l(3) edge in \<open>simp_all add: sw_holds_def\<close>)
  obtain b' where b': "finish_loop ?b 0 = Some (0 + toks_size ts + 4, b')"
    "toks_as (string_at ?st) b' (fdt_off_dt_struct ?b + 0) (ts @ [T_END])"
    "\<And>a. a < fdt_off_dt_struct ?b + 0 \<or> fdt_off_dt_struct ?b + 0 + toks_size ts \<le> a \<Longrightarrow> b' a = ?b a"
  proof (rule finish_loop_ok [OF shape _ _ _ _ plain toks])
    show "fdt_size_dt_strings ?b = int (length ?st)" "int (length ?st) < 2 ^ 31"
      using l nn by (simp_all add: j(3) length_sw_strtab)
  qed (simp_all add: j(2))
  have head: "b' a = ?b a" if "a < 40" for a
    by (rule b'(3)) (use that l(3) in \<open>simp add: jl\<close>)
  have w: "be32 b' q = be32 ?b q" if "q \<le> 36" for q
    using that by (intro be32_cong head) simp
  have f: "fdt_size_dt_strings b' = fdt_size_dt_strings b" "fdt_off_dt_strings b' = edge"
    using j(3,4) by (simp_all add: fdt_header w)
  have same: "same_header b b'"
    using j(1) by (simp add: same_header_def fdt_header w)
  have "strtab b' = strtab ?b"
    unfolding strtab_def f j(3,4) by (rule seg_cong, rule b'(3)) (use l in \<open>simp add: jl\<close>)
  moreover have "fdt_size_dt_struct b' = toks_size (ts @ [T_END])"
    using j(2) by (simp add: fdt_header w)
  ultimately show ?thesis
    using b'(1,2) same f by (intro that [of b']) (simp_all add: j(5) jl same_header_def)
qed

lemma finish_ok:
  assumes h: "sw_holds b ts" and plain: "T_END \<notin> set ts" and room: "4 \<le> sw_slack b"
  obtains b' where "fdt_finish b = Some (0, b')" "fdt_holds b' (ts @ [T_END])"
    "fdt_totalsize b' = fdt_totalsize b - (sw_slack b - 4)" "fdt_off_dt_struct b' = fdt_off_dt_struct b"
proof -
  obtain b0 b1 where s: "fdt_grab_space b 4 = (Some (fdt_off_dt_struct b + toks_size ts), b0)"
    "put32 b0 (fdt_off_dt_struct b + toks_size ts) FDT_END = b1" "sw_holds b1 (ts @ [T_END])"
    "sw_slack b1 = sw_slack b - 4" "same_header b b1"
    by (rule terminated_ok [OF h room])
  let ?edge = "fdt_off_dt_struct b1 + toks_size (ts @ [T_END])"
  obtain b2 where w: "finish_loop (joined b1 ?edge) 0 = Some (toks_size ts + 4, b2)"
    "toks_at b2 (strtab b2) (fdt_off_dt_struct b2) (ts @ [T_END])" "same_header b1 b2"
    "fdt_size_dt_struct b2 = toks_size (ts @ [T_END])" "fdt_size_dt_strings b2 = fdt_size_dt_strings b1"
    "fdt_off_dt_strings b2 = ?edge"
    by (rule walked_ok [OF s(3) plain refl])
  note hb = fdt_header_bounds [of b1] and nn = toks_size_nonneg [of ts]
  have l: "fdt_size_dt_struct b1 = toks_size (ts @ [T_END])" "fdt_totalsize b1 < 2 ^ 31"
    "?edge + sw_slack b1 + fdt_size_dt_strings b1 = fdt_totalsize b1" "0 \<le> sw_slack b1"
    "fdt_version b1 = 17" "fdt_last_comp_version b1 = 16" "40 \<le> fdt_off_mem_rsvmap b1"
    "fdt_off_mem_rsvmap b1 + 16 \<le> fdt_off_dt_struct b1"
    using s(3) by (simp_all add: sw_holds_def) (simp add: sw_slack_def)
  have "fdt_finish b = Some (0, fdt_set_magic (fdt_set_totalsize b2 (?edge + fdt_size_dt_strings b2)) FDT_MAGIC)"
    by (rule finish_steps [OF _ s(1,2) _ _ w(1)]) (use h l hb nn in \<open>simp_all add: c_int_small\<close>)
  then show ?thesis
    by (rule that) (use sealed_ok [of b2 "?edge + fdt_size_dt_strings b2" "ts @ [T_END]"] w l s in \<open>simp_all add: same_header_def\<close>)
qed

section \<open>Starting\<close>

lemma mod_c_unsigned: "c_unsigned x mod 2 ^ 32 = c_unsigned x"
  by (simp add: c_unsigned_def)

lemma create_ok:
  assumes "64 \<le> bufsize" "bufsize < 2 ^ 31"
  obtains b1 b2 where "fdt_create b bufsize = (0, b1)" "fdt_finish_reservemap b1 = (0, b2)" "sw_holds b2 []"
    "sw_slack b2 = bufsize - 64" "fdt_totalsize b2 = bufsize" "fdt_off_dt_struct b2 = 64"
proof -
  have n: "c_unsigned bufsize = bufsize" using assms by (simp add: c_unsigned_small)
  define b1 where "b1 = snd (fdt_create b bufsize)"
  have align: "FDT_ALIGN 40 16 = 48" by (simp add: FDT_ALIGN_def)
  have c: "fdt_create b bufsize = (0, b1)"
    using assms(1) by (simp add: fdt_create_def n b1_def Let_def)
  have zero: "be32 (memset b 0 0 bufsize) q = 0" if "q \<in> {28, 32, 36}" for q
    using that assms by (auto simp: be32_def memset_def)
  have f1: "fdt_magic b1 = FDT_SW_MAGIC" "fdt_version b1 = 17" "fdt_last_comp_version b1 = 16" "fdt_totalsize b1 = bufsize"
    "fdt_off_mem_rsvmap b1 = 48" "fdt_off_dt_struct b1 = 48" "fdt_size_dt_struct b1 = 0" "fdt_size_dt_strings b1 = 0"
    using assms by (simp_all add: b1_def fdt_create_def n Let_def fdt_header fdt_setters be32_put32 be32_put32_other align zero
      FDT_SW_MAGIC_def mod_c_unsigned [simplified] FDT_LAST_SUPPORTED_VERSION_def FDT_FIRST_SUPPORTED_VERSION_def)
  let ?r = "put64 (put64 b1 48 0) 56 0" and ?b2 = "fdt_set_off_dt_struct (put64 (put64 b1 48 0) 56 0) 64"
  have r: "fdt_finish_reservemap b1 = (0, ?b2)"
    using assms by (simp add: fdt_finish_reservemap_def fdt_add_reservemap_entry_def fdt_sw_check_header_def f1 Let_def
      c_int_small c_unsigned_small)
  have w: "be32 ?b2 q = be32 b1 q" if "q \<le> 4 \<or> 12 \<le> q" "q \<le> 36" for q
    using that by (auto simp: fdt_setters put64_def be32_put32_other)
  have f2: "fdt_magic ?b2 = FDT_SW_MAGIC" "fdt_version ?b2 = 17" "fdt_last_comp_version ?b2 = 16" "fdt_totalsize ?b2 = bufsize"
    "fdt_off_mem_rsvmap ?b2 = 48" "fdt_size_dt_struct ?b2 = 0" "fdt_size_dt_strings ?b2 = 0"
    using f1 by (simp_all add: fdt_header w)
  have os: "fdt_off_dt_struct ?b2 = 64" by (simp add: fdt_header fdt_setters be32_put32)
  have "sw_slack ?b2 = bufsize - 64" by (simp add: sw_slack_def f2 os)
  moreover from this have "sw_holds ?b2 []" using assms by (simp add: sw_holds_def f2 os)
  ultimately show ?thesis
    using c r by (intro that [of b1 ?b2]) (simp_all add: f2 os)
qed

section \<open>Writing a tree\<close>

text \<open>The call that writes a token, and a sequence of them that stops at the first error.\<close>

fun sw_call :: "token \<Rightarrow> blob \<Rightarrow> int \<times> blob" where
  "sw_call (T_BEGIN n) b = fdt_begin_node b n"
| "sw_call T_END_NODE b = fdt_end_node b"
| "sw_call (T_PROP n v) b = fdt_property b n v"
| "sw_call T_END b = (0, b)"

fun sw_calls :: "token list \<Rightarrow> blob \<Rightarrow> int \<times> blob" where
  "sw_calls [] b = (0, b)"
| "sw_calls (t # ts) b = (case sw_call t b of (err, b) \<Rightarrow> if err \<noteq> 0 then (err, b) else sw_calls ts b)"

fun tok_cost :: "token \<Rightarrow> int" where
  "tok_cost (T_PROP n v) = prop_cost n v"
| "tok_cost t = tok_size t"

fun tok_plain :: "token \<Rightarrow> bool" where
  "tok_plain (T_BEGIN n) \<longleftrightarrow> 0 \<notin> set n"
| "tok_plain (T_PROP n v) \<longleftrightarrow> 0 \<notin> set n"
| "tok_plain T_END_NODE \<longleftrightarrow> True"
| "tok_plain T_END \<longleftrightarrow> False"

definition toks_cost :: "token list \<Rightarrow> int" where
  "toks_cost ts = sum_list (map tok_cost ts)"

lemma tok_cost_pos: "0 \<le> tok_cost t"
  using tok_size_pos [of t] FDT_TAGALIGN_nonneg [of "int (length v)" for v]
  by (cases t) (simp_all add: prop_cost_def)

lemma toks_cost_nonneg: "0 \<le> toks_cost ts"
  by (induction ts) (simp_all add: toks_cost_def tok_cost_pos)

lemma sw_call_ok:
  assumes "sw_holds b ts" "tok_plain t" "tok_cost t \<le> sw_slack b"
  obtains b' where "sw_call t b = (0, b')" "sw_holds b' (ts @ [t])" "sw_slack b - tok_cost t \<le> sw_slack b'" "same_header b b'"
proof (cases t)
  case (T_BEGIN n)
  then show ?thesis
    using begin_node_ok [OF assms(1), of n] assms(2,3) that by (metis order_refl sw_call.simps(1) tok_cost.simps(2) tok_plain.simps(1))
next
  case T_END_NODE
  then show ?thesis
    using end_node_ok [OF assms(1)] assms(3) that by (metis order_refl sw_call.simps(2) tok_cost.simps(3))
next
  case (T_PROP n v)
  then show ?thesis
    using property_ok [OF assms(1), of n v] assms(2,3) that by (metis sw_call.simps(3) tok_cost.simps(1) tok_plain.simps(2))
qed (use assms(2) in simp)

lemma sw_calls_ok:
  assumes "sw_holds b ts" "list_all tok_plain us" "toks_cost us \<le> sw_slack b"
  obtains b' where "sw_calls us b = (0, b')" "sw_holds b' (ts @ us)" "sw_slack b - toks_cost us \<le> sw_slack b'" "same_header b b'"
  using assms
proof (induction us arbitrary: b ts thesis)
  case Nil
  then show ?case by (simp add: toks_cost_def same_header_def)
next
  case (Cons u us)
  have nn: "0 \<le> toks_cost us" by (rule toks_cost_nonneg)
  have cost: "toks_cost (u # us) = tok_cost u + toks_cost us" by (simp add: toks_cost_def)
  obtain b1 where b1: "sw_call u b = (0, b1)" "sw_holds b1 (ts @ [u])" "sw_slack b - tok_cost u \<le> sw_slack b1" "same_header b b1"
    by (rule sw_call_ok [OF Cons.prems(2), of u]) (use Cons.prems(3,4) nn cost in simp_all)
  obtain b2 where "sw_calls us b1 = (0, b2)" "sw_holds b2 ((ts @ [u]) @ us)" "sw_slack b1 - toks_cost us \<le> sw_slack b2" "same_header b1 b2"
    by (rule Cons.IH [OF _ b1(2)]) (use Cons.prems(3,4) b1(3) cost in simp_all)
  then show ?case
    using b1 cost by (intro Cons.prems(1) [of b2]) (simp_all add: same_header_def)
qed

text \<open>A program that writes a tree into a buffer.\<close>

definition write_tree :: "blob \<Rightarrow> int \<Rightarrow> fdt_tree \<Rightarrow> (int \<times> blob) option" where
  "write_tree b bufsize t =
     (case fdt_create b bufsize of (err, b) \<Rightarrow>
      if err \<noteq> 0 then Some (err, b) else case fdt_finish_reservemap b of (err, b) \<Rightarrow>
      if err \<noteq> 0 then Some (err, b) else case sw_calls (flat t) b of (err, b) \<Rightarrow>
      if err \<noteq> 0 then Some (err, b) else fdt_finish b)"

lemma write_tree_holds:
  assumes "list_all tok_plain (flat t)" "68 + toks_cost (flat t) \<le> bufsize" "bufsize < 2 ^ 31"
  obtains b' where "write_tree b bufsize t = Some (0, b')" "fdt_holds b' (flat t @ [T_END])" "fdt_totalsize b' \<le> bufsize"
proof -
  have nn: "0 \<le> toks_cost (flat t)" by (rule toks_cost_nonneg)
  have sz: "64 \<le> bufsize" using assms(2) nn by simp
  obtain b1 b2 where c: "fdt_create b bufsize = (0, b1)" "fdt_finish_reservemap b1 = (0, b2)" "sw_holds b2 []"
    "sw_slack b2 = bufsize - 64" "fdt_totalsize b2 = bufsize" "fdt_off_dt_struct b2 = 64"
    by (rule create_ok [OF sz assms(3)])
  obtain b3 where w: "sw_calls (flat t) b2 = (0, b3)" "sw_holds b3 ([] @ flat t)" "sw_slack b2 - toks_cost (flat t) \<le> sw_slack b3"
    "same_header b2 b3"
    by (rule sw_calls_ok [OF c(3) assms(1)]) (use assms(2) c(4) in simp)
  have "T_END \<notin> set (flat t)" using assms(1) by (auto simp: list_all_iff)
  moreover have "4 \<le> sw_slack b3" using w(3) c(4) assms(2) by simp
  ultimately obtain b' where "fdt_finish b3 = Some (0, b')" "fdt_holds b' (flat t @ [T_END])"
    "fdt_totalsize b' = fdt_totalsize b3 - (sw_slack b3 - 4)"
    using finish_ok [of b3 "flat t"] w(2) by (metis append_Nil)
  then show ?thesis
    using c w \<open>4 \<le> sw_slack b3\<close> by (intro that [of b']) (simp_all add: write_tree_def same_header_def)
qed

text \<open>C22: A tree written call by call reads back as the tree it was: with room for its tokens and its names in the
  buffer every call succeeds, the finished blob holds the tree, \<^verbatim>\<open>fdt_path_offset\<close> finds the node of each
  path and \<^verbatim>\<open>fdt_getprop\<close> returns each property as it was written.\<close>
theorem tree_write_read:
  assumes "list_all tok_plain (flat t)" and "68 + toks_cost (flat t) \<le> bufsize" and "bufsize < 2 ^ 31"
  shows "\<exists>b'. write_tree b bufsize t = Some (0, b') \<and> fdt_totalsize b' \<le> bufsize
    \<and> (\<forall>p. 0 \<notin> set p \<longrightarrow> fdt_path_offset b' (0x2f # p) =
         Some (case locate 0 (components (0x2f # p)) t of None \<Rightarrow> - FDT_ERR_NOTFOUND | Some off \<Rightarrow> off))
    \<and> (\<forall>path off n ps ks name. locate 0 path t = Some off \<and> subtree path t = Some (Node n ps ks) \<longrightarrow>
         prop_value b' off name = map_of ps name)"
proof -
  obtain b' where b': "write_tree b bufsize t = Some (0, b')" "fdt_holds b' (flat t @ [T_END])" "fdt_totalsize b' \<le> bufsize"
    by (rule write_tree_holds [OF assms])
  have "prop_value b' off name = map_of ps name"
    if "locate 0 path t = Some off" "subtree path t = Some (Node n ps ks)" for path off n ps ks name
  proof -
    from locate_flat [OF that(1)] that(2) obtain pre post where
      f: "flat t = pre @ flat (Node n ps ks) @ post" "off = toks_size pre" by auto
    have "fdt_holds b' (pre @ flat (Node n ps ks) @ (post @ [T_END]))"
      using b'(2) f by simp
    from prop_value_tree [OF this] show ?thesis by (simp add: f)
  qed
  then show ?thesis
    using b' path_offset_absolute [OF b'(2)] by auto
qed

theorem tree_write_read_witness:
  "\<exists>b'. write_tree (blob_of []) 512 sample_tree = Some (0, b')
    \<and> fdt_path_offset b' (ascii ''/system'') = Some 52 \<and> prop_value b' 8 (ascii ''ethernet0'') = Some [47, 101, 0]"
proof -
  have path: "(0 :: u8) \<notin> set (ascii ''system'')" "ascii ''/system'' = 0x2f # ascii ''system''" by code_simp+
  have loc: "locate 0 (components (0x2f # ascii ''system'')) sample_tree = Some 52"
    "locate 0 [ascii ''aliases''] sample_tree = Some 8" by code_simp+
  have sub: "subtree [ascii ''aliases''] sample_tree
      = Some (Node (ascii ''aliases'') [(ascii ''ethernet0'', [47, 101, 0])] [])" by code_simp
  have h: "list_all tok_plain (flat sample_tree)" "68 + toks_cost (flat sample_tree) \<le> 512"
    "(512 :: int) < 2 ^ 31" by code_simp+
  obtain b' where b': "write_tree (blob_of []) 512 sample_tree = Some (0, b')"
    "\<And>p. 0 \<notin> set p \<Longrightarrow> fdt_path_offset b' (0x2f # p) =
       Some (case locate 0 (components (0x2f # p)) sample_tree of None \<Rightarrow> - FDT_ERR_NOTFOUND | Some off \<Rightarrow> off)"
    "\<And>path off n ps ks name. locate 0 path sample_tree = Some off \<Longrightarrow> subtree path sample_tree = Some (Node n ps ks) \<Longrightarrow>
       prop_value b' off name = map_of ps name"
    using tree_write_read [OF h, of "blob_of []"] by blast
  show ?thesis
    using b'(1) b'(2) [OF path(1)] b'(3) [OF loc(2) sub, of "ascii ''ethernet0''"] by (auto simp: path(2) loc(1))
qed

section \<open>Moving a blob under construction\<close>

lemma resized_view:
  assumes "0 \<le> h" "0 \<le> n" "0 \<le> s" "h + s + n \<le> bufsize" "h + n \<le> tot" "buf + bufsize \<le> fdt \<or> fdt + tot \<le> buf"
    and "m' = (if buf \<le> fdt then memmove (memmove m buf fdt h) (buf + bufsize - n) (fdt + tot - n) n
               else memmove (memmove m (buf + bufsize - n) (fdt + tot - n) n) buf fdt h)"
  shows "0 \<le> a \<Longrightarrow> a < h \<Longrightarrow> view_at m' buf a = view_at m fdt a"
    "h \<le> a \<Longrightarrow> a < h + s \<Longrightarrow> view_at m' buf a = view_at m buf a"
  using assms by (auto simp: view_at_def memmove_def)

lemma fdt_resize_ok:
  assumes h: "sw_holds (view_at m fdt) ts" and big: "fdt_totalsize (view_at m fdt) \<le> bufsize" "bufsize < 2 ^ 31"
    and apart: "buf + bufsize \<le> fdt \<or> fdt + fdt_totalsize (view_at m fdt) \<le> buf"
  obtains m' where "fdt_resize m fdt buf bufsize = (0, m')" "fdt_shape (view_at m' buf)"
    "fdt_off_dt_struct (view_at m' buf) = fdt_off_dt_struct (view_at m fdt)" "fdt_size_dt_struct (view_at m' buf) = toks_size ts"
    "\<And>a. fdt_off_dt_struct (view_at m fdt) \<le> a \<Longrightarrow> a < fdt_off_dt_struct (view_at m fdt) + toks_size ts \<Longrightarrow>
      view_at m' buf a = view_at m buf a"
proof -
  let ?b = "view_at m fdt" and ?tail = "fdt_size_dt_strings (view_at m fdt)" and ?os = "fdt_off_dt_struct (view_at m fdt)"
    and ?tot = "fdt_totalsize (view_at m fdt)"
  note hb = fdt_header_bounds [of ?b] and nn = toks_size_nonneg [of ts]
  have l: "40 \<le> ?os" "fdt_size_dt_struct ?b = toks_size ts" "?os + toks_size ts + ?tail \<le> ?tot" "fdt_version ?b = 17"
    using h by (simp_all add: sw_holds_def sw_slack_def)
  define m1 where "m1 = (if buf \<le> fdt then memmove (memmove m buf fdt ?os) (buf + bufsize - ?tail) (fdt + ?tot - ?tail) ?tail
               else memmove (memmove m (buf + bufsize - ?tail) (fdt + ?tot - ?tail) ?tail) buf fdt ?os)"
  define m' where "m' = at_blob (at_blob m1 buf (\<lambda>b. fdt_set_off_dt_strings b bufsize)) buf (\<lambda>b. fdt_set_totalsize b bufsize)"
  have c: "c_unsigned (?os + ?tail) = ?os + ?tail" "c_unsigned bufsize = bufsize"
    using l hb nn big by (simp_all add: c_unsigned_small)
  have res: "fdt_resize m fdt buf bufsize = (0, m')"
    using l big nn h by (simp add: fdt_resize_def Let_def c m1_def m'_def)
  have fits: "?os + toks_size ts + ?tail \<le> bufsize" "?os + ?tail \<le> ?tot" using l big nn by simp_all
  note v = resized_view [OF hb(2) hb(4) nn fits apart m1_def]
  have view: "view_at m' buf = fdt_set_totalsize (fdt_set_off_dt_strings (view_at m1 buf) bufsize) bufsize"
    by (simp add: m'_def view_at_blob)
  have body: "view_at m' buf a = view_at m1 buf a" if "a < 4 \<or> 8 \<le> a" "a < 12 \<or> 16 \<le> a" for a
    using that by (auto simp: view fdt_setters put32_outside)
  have w: "be32 (view_at m' buf) q = be32 ?b q" if "q \<in> {8, 20, 36}" for q
  proof (rule be32_cong)
    fix i :: int assume "0 \<le> i" "i < 4"
    then show "view_at m' buf (q + i) = ?b (q + i)"
      using that l(1) body [of "q + i"] v(1) [of "q + i"] by auto
  qed
  have f: "fdt_off_dt_struct (view_at m' buf) = ?os" "fdt_size_dt_struct (view_at m' buf) = toks_size ts"
    "fdt_version (view_at m' buf) = 17"
    using l by (simp_all add: fdt_header w)
  have "fdt_totalsize (view_at m' buf) = bufsize"
    using hb big by (simp add: view fdt_header fdt_setters be32_put32)
  then have shape: "fdt_shape (view_at m' buf)"
    using l fits hb big by (simp add: fdt_shape_def f)
  show ?thesis
    by (rule that [OF res shape f(1,2)]) (use v(2) body l(1) in simp)
qed

text \<open>C36: \<open>fdt_resize\<close> to another buffer loses the structure block: it copies the header, the reservations and the
  strings, but not the nodes and properties written so far. In a buffer of zeros the structure block of the new
  blob, which the header announces with its old size, then starts with an invalid tag.\<close>
theorem resize_loses_structure:
  assumes "sw_holds (view_at m fdt) ts" "ts \<noteq> []" and "fdt_totalsize (view_at m fdt) \<le> bufsize" "bufsize < 2 ^ 31"
    and "buf + bufsize \<le> fdt \<or> fdt + fdt_totalsize (view_at m fdt) \<le> buf"
    and "\<And>a. 0 \<le> a \<Longrightarrow> a < bufsize \<Longrightarrow> m (buf + a) = 0"
  shows "\<exists>m'. fdt_resize m fdt buf bufsize = (0, m') \<and> fdt_size_dt_struct (view_at m' buf) = toks_size ts
    \<and> fdt_next_tag (view_at m' buf) 0 = (FDT_END, - FDT_ERR_BADSTRUCTURE)"
proof -
  let ?os = "fdt_off_dt_struct (view_at m fdt)"
  obtain m' where m': "fdt_resize m fdt buf bufsize = (0, m')" "fdt_shape (view_at m' buf)"
    "fdt_off_dt_struct (view_at m' buf) = ?os" "fdt_size_dt_struct (view_at m' buf) = toks_size ts"
    "\<And>a. ?os \<le> a \<Longrightarrow> a < ?os + toks_size ts \<Longrightarrow> view_at m' buf a = view_at m buf a"
    using fdt_resize_ok [OF assms(1,3,4,5)] by blast
  obtain t us where "ts = t # us" using assms(2) by (cases ts) simp_all
  then have ts: "4 \<le> toks_size ts" using tok_size_pos [of t] toks_size_nonneg [of us] by simp
  have room: "?os + toks_size ts \<le> bufsize" "0 \<le> ?os"
    using assms(1,3) fdt_header_bounds [of "view_at m fdt"] by (simp_all add: sw_holds_def sw_slack_def)
  have "view_at m' buf (?os + i) = 0" if "0 \<le> i" "i < 4" for i
    using that m'(5) [of "?os + i"] assms(6) [of "?os + i"] room ts by (simp add: view_at_def)
  from this [of 0] this [of 1] this [of 2] this [of 3] have "be32 (view_at m' buf) ?os = 0"
    by (simp add: be32_def)
  moreover have "fdt_offset_ptr (view_at m' buf) 0 4 = Some ?os"
    using fdt_offset_ptr_ok [OF m'(2), of 0 4] ts by (simp add: m'(3,4))
  ultimately show ?thesis
    using m'(1,4) by (simp add: fdt_next_tag_def Let_def fdt_tags)
qed

lemma sw_holds_cong:
  assumes h: "sw_holds b ts" and same: "\<And>a. 0 \<le> a \<Longrightarrow> a < fdt_totalsize b \<Longrightarrow> b' a = b a"
  shows "sw_holds b' ts" "same_header b b'"
proof -
  note hb = fdt_header_bounds [of b] and nn = toks_size_nonneg [of ts]
  have l: "40 \<le> fdt_off_dt_struct b" "fdt_size_dt_struct b = toks_size ts"
    "fdt_off_dt_struct b + toks_size ts + fdt_size_dt_strings b \<le> fdt_totalsize b"
    using h by (simp_all add: sw_holds_def sw_slack_def)
  have head: "b' a = b a" if "0 \<le> a" "a < 40" for a
    by (rule same) (use that l hb nn in simp_all)
  show sh: "same_header b b'"
    by (rule same_header_agree) (simp add: head)
  have f: "fdt_size_dt_struct b' = fdt_size_dt_struct b" "fdt_size_dt_strings b' = fdt_size_dt_strings b"
    unfolding fdt_header by (rule be32_cong, rule head; simp)+
  have slack: "sw_slack b' = sw_slack b"
    using sh by (simp add: sw_slack_def f same_header_def)
  have st: "sw_strtab b' = sw_strtab b"
    unfolding sw_strtab_def f using sh
    by (simp add: same_header_def) (rule seg_cong, rule same; use l hb nn in simp)
  have "toks_as (sw_name (sw_strtab b)) b' (fdt_off_dt_struct b) ts"
    by (rule toks_as_same [of _ b]) (use h l hb same in \<open>auto simp: sw_holds_def\<close>)
  then show "sw_holds b' ts"
    using h sh by (simp add: sw_holds_def f slack st same_header_def)
qed

theorem resize_loses_structure_witness:
  "\<exists>b1 b2 b3 m'. fdt_create (\<lambda>_. 0) 128 = (0, b1) \<and> fdt_finish_reservemap b1 = (0, b2) \<and> fdt_begin_node b2 [] = (0, b3)
    \<and> fdt_resize (\<lambda>a. if 0 \<le> a \<and> a < 128 then b3 a else 0) 0 4096 256 = (0, m') \<and> fdt_size_dt_struct (view_at m' 4096) = 8
    \<and> fdt_next_tag (view_at m' 4096) 0 = (FDT_END, - FDT_ERR_BADSTRUCTURE)"
proof -
  obtain b1 b2 where c: "fdt_create (\<lambda>_. 0) 128 = (0, b1)" "fdt_finish_reservemap b1 = (0, b2)" "sw_holds b2 []"
    "sw_slack b2 = 128 - 64" "fdt_totalsize b2 = 128" "fdt_off_dt_struct b2 = 64"
    by (rule create_ok [of 128 "\<lambda>_. 0"]) simp_all
  have room: "0 \<notin> set ([] :: octets)" "tok_size (T_BEGIN []) \<le> sw_slack b2"
    by (simp_all add: c(4) FDT_TAGALIGN_eq)
  obtain b3 where b3: "fdt_begin_node b2 [] = (0, b3)" "sw_holds b3 ([] @ [T_BEGIN []])" "same_header b2 b3"
    by (rule begin_node_ok [OF c(3) room])
  define m where "m = (\<lambda>a. if 0 \<le> a \<and> a < 128 then b3 a else 0)"
  have tot: "fdt_totalsize b3 = 128" using b3(3) c(5) by (simp add: same_header_def)
  have view: "view_at m 0 = m" by (simp add: view_at_def)
  have h: "sw_holds m [T_BEGIN []]" "same_header b3 m"
    by (rule sw_holds_cong [of b3]; use b3(2) in \<open>simp add: m_def tot\<close>)+
  have "\<exists>m'. fdt_resize m 0 4096 256 = (0, m') \<and> fdt_size_dt_struct (view_at m' 4096) = toks_size [T_BEGIN []]
      \<and> fdt_next_tag (view_at m' 4096) 0 = (FDT_END, - FDT_ERR_BADSTRUCTURE)"
    by (rule resize_loses_structure) (use h tot in \<open>simp_all add: view same_header_def\<close>, simp add: m_def)
  then show ?thesis
    using c(1,2) b3(1) by (auto simp: m_def FDT_TAGALIGN_eq)
qed

end
