(* ===== verification/Mmu.thy ===== *)
theory Mmu
  imports ArmControl
begin

unbundle bit_operations_syntax

text \<open>
  The first code on the ARM: page tables and cache descriptors, \<^verbatim>\<open>src/arm_chainloader/mmu.c\<close>,
  core set-up and the entry point, \<^verbatim>\<open>src/arm_chainloader/main.c\<close>, and the mailbox,
  \<^verbatim>\<open>src/arm_chainloader/drivers/mailbox.cc\<close>. The page table is a list of 4096 entries;
  coprocessor writes are values of a datatype, in the order the code makes them.
\<close>

section \<open>Page tables (mmu.c)\<close>

definition TEX :: "u32 \<Rightarrow> u32" where
  "TEX tex = push_bit 12 (tex AND 0x7)"

definition ram_entry :: "nat \<Rightarrow> u32" where
  "ram_entry i = push_bit 20 (of_nat i) OR push_bit 15 1 OR TEX 1 OR push_bit 10 3
     OR push_bit 3 1 OR push_bit 2 1 OR push_bit 1 1"

definition mmio_entry :: "nat \<Rightarrow> u32" where
  "mmio_entry i = push_bit 20 (of_nat i) OR push_bit 10 3 OR 2"

definition set_entries :: "(nat \<Rightarrow> u32) \<Rightarrow> nat list \<Rightarrow> u32 list \<Rightarrow> u32 list" where
  "set_entries f is t = foldl (\<lambda>t i. t[i := f i]) t is"

definition page_tables :: "nat \<Rightarrow> u32 list \<Rightarrow> u32 list" where
  "page_tables ram_size level1 =
     (let first = unat (drop_bit 20 ARM_PERIPH_BASE)
      in set_entries mmio_entry [first..<first + 16] (set_entries ram_entry [0..<ram_size] level1))"

text \<open>Coprocessor registers written when the MMU is turned on; \<open>sctlr\<close> is what was read.\<close>

datatype cp15 = TTBR0 u32 | TTBCR u32 | DACR u32 | SCTLR u32 | CNTFRQ u32 | NSACR u32
  | Enable_fpu | ACTLR u32 | Set_CPUECTLR | Drop_secure | Enable_icache | Disable_icache
  | Arm6_mmu_off | Arm7_dcache_off | Arm7_mmu_off

definition init_page_tables :: "u32 \<Rightarrow> nat \<Rightarrow> u32 \<Rightarrow> u32 list \<Rightarrow> u32 list \<times> cp15 list" where
  "init_page_tables level1_addr ram_size sctlr level1 =
     (page_tables ram_size level1,
      [TTBR0 (level1_addr OR push_bit 1 1), TTBCR (push_bit 5 1 OR push_bit 4 0), DACR (NOT 0),
       SCTLR (sctlr OR (push_bit 29 1 OR push_bit 2 1 OR 1))])"

definition mmu_off :: "u32 \<Rightarrow> cp15 list" where
  "mmu_off midr = (if midr = 0x410FB767 then [Arm6_mmu_off] else [Arm7_dcache_off, Arm7_mmu_off])"

section \<open>Cache descriptors\<close>

record cache_shape =
  wt :: bool
  wb :: bool
  ra :: bool
  wa :: bool
  sets :: nat
  associativity :: nat
  lines :: nat

definition shape_of :: "u32 \<Rightarrow> cache_shape" where
  "shape_of shape =
     \<lparr>wt = (shape AND push_bit 31 1 \<noteq> 0), wb = (shape AND push_bit 30 1 \<noteq> 0),
      ra = (shape AND push_bit 29 1 \<noteq> 0), wa = (shape AND push_bit 28 1 \<noteq> 0),
      sets = unat (drop_bit 13 shape AND 0x7fff), associativity = unat (drop_bit 3 shape AND 0x3ff),
      lines = unat (shape AND 7)\<rparr>"

definition line_size :: "cache_shape \<Rightarrow> nat" where
  "line_size c = 2 ^ (lines c + 2)"

definition cache_kb :: "cache_shape \<Rightarrow> nat" where
  "cache_kb c = ((sets c + 1) * (associativity c + 1) * (line_size c * 4)) div 1024"

definition armv6_shape :: "u16 \<Rightarrow> nat \<times> nat \<times> nat \<times> nat" where
  "armv6_shape shape =
     (unat (shape AND 0x3), unat (drop_bit 3 shape AND 0x7), unat (drop_bit 6 shape AND 0x7),
      unat (drop_bit 11 shape AND 0x1))"

section \<open>Core set-up and entry (main.c)\<close>

definition ramSizeInMb :: "u32 \<Rightarrow> nat option" where
  "ramSizeInMb sdram_size =
     (if sdram_size = 0 then Some 1024 else if sdram_size = 1 then Some 512
      else if sdram_size = 2 then Some 256 else if sdram_size = 3 then Some 128
      else if sdram_size = 4 then Some 2048 else if sdram_size = 5 then Some 4096 else None)"

definition get_execution_mode_name :: "u32 \<Rightarrow> string" where
  "get_execution_mode_name reg =
     (let cpsr = reg AND 0x1f
      in if cpsr = 0x10 then ''User'' else if cpsr = 0x11 then ''FIQ''
         else if cpsr = 0x12 then ''IRQ'' else if cpsr = 0x13 then ''Supervisor''
         else if cpsr = 0x16 then ''Secure Monitor'' else if cpsr = 0x17 then ''Abort''
         else if cpsr = 0x1b then ''Undefined Instruction'' else if cpsr = 0x1a then ''Hypervisor''
         else if cpsr = 0x1f then ''System'' else ''Unknown Mode'')"

definition arm_lowlevel_setup :: "u32 \<Rightarrow> u32 \<Rightarrow> u32 \<times> cp15 list" where
  "arm_lowlevel_setup midr mpidr =
     (let armv6 = (midr = 0x410FB767); a7 = (midr = 0x410FC075); a53 = (midr = 0x410FD034);
          corenr = (if armv6 then 0 else mpidr AND 0xf)
      in (corenr,
          (if a7 \<or> a53 then [CNTFRQ 19200000, NSACR 0x63ff] else []) @
          [Enable_fpu] @
          (if a7 then [ACTLR (push_bit 6 1)] else []) @
          (if a53 then [Set_CPUECTLR] else []) @
          (if \<not> armv6 then [Drop_secure] else []) @
          [Enable_icache]))"

text \<open>
  What core 0 does before \<^verbatim>\<open>main\<close>; the other cores return from the entry point. An unknown
  memory size is a function without a return value, so it has no page tables.
\<close>

definition c_entry ::
    "u32 \<Rightarrow> u32 \<Rightarrow> u32 \<Rightarrow> u32 \<Rightarrow> u32 \<Rightarrow> (u32 list \<times> cp15 list) option act" where
  "c_entry midr mpidr sdram_size level1_addr sctlr =
     bind (await ARM_ID (\<lambda>v. v = ARM_IDVAL)) (\<lambda>_.
     let (corenr, ops) = arm_lowlevel_setup midr mpidr
     in if corenr = 0 then bind (udelay 30000) (\<lambda>_. ret
          (map_option (\<lambda>mb.
             let (t, ops') = init_page_tables level1_addr mb sctlr (replicate 4096 0)
             in (t, ops @ ops')) (ramSizeInMb sdram_size)))
        else ret None)"

section \<open>The mailbox (mailbox.cc)\<close>

fun wait_for_mask :: "nat \<Rightarrow> u32 \<Rightarrow> u32 \<Rightarrow> bool \<Rightarrow> bool act" where
  "wait_for_mask 0 r m is_set =
     bind (rd r) (\<lambda>v. ret (v AND m \<noteq> (if is_set then 0 else m)))"
| "wait_for_mask (Suc timeout) r m is_set =
     bind (rd r) (\<lambda>v. if v AND m = (if is_set then 0 else m)
       then bind (udelay 1) (\<lambda>_. wait_for_mask timeout r m is_set)
       else ret True)"

definition write_word :: "u32 \<Rightarrow> nat \<Rightarrow> bool act" where
  "write_word data timeout =
     bind (wait_for_mask timeout ARM_0_MAIL1_STA ARM_MS_FULL False) (\<lambda>ok.
       if \<not> ok then bind (peek ARM_0_MAIL1_STA) (\<lambda>_. ret False)
       else bind (wr ARM_0_MAIL1_WRT data) (\<lambda>_. ret True))"

section \<open>What the page tables map\<close>

lemma length_set_entries [simp]: "length (set_entries f is t) = length t"
  by (induction "is" arbitrary: t) (simp_all add: set_entries_def)

lemma nth_set_entries:
  "i < length t \<Longrightarrow> set_entries f is t ! i = (if i \<in> set is then f i else t ! i)"
proof (induction "is" arbitrary: t)
  case Nil
  then show ?case by (simp add: set_entries_def)
next
  case (Cons j js)
  then show ?case
    using Cons.IH [of "t[j := f j]"] by (auto simp: set_entries_def nth_list_update)
qed

text \<open>
  The ARM's translation of a virtual address by a section entry, and whether the section is
  cached memory.
\<close>

definition virt_to_phys :: "u32 list \<Rightarrow> u32 \<Rightarrow> u32 option" where
  "virt_to_phys t v =
     (let e = t ! unat (drop_bit 20 v)
      in if e AND 3 = 2 then Some ((e AND 0xFFF00000) OR (v AND 0xFFFFF)) else None)"

definition cached :: "u32 list \<Rightarrow> u32 \<Rightarrow> bool" where
  "cached t v \<longleftrightarrow> t ! unat (drop_bit 20 v) AND 0xC = 0xC"

lemma section_index: "unat (drop_bit 20 v :: u32) = unat v div 2 ^ 20" "unat (v :: u32) div 2 ^ 20 < 4096"
proof -
  show "unat (drop_bit 20 v) = unat v div 2 ^ 20" by (rule unat_drop_bit_div)
  have "unat v < 2 ^ 32" using unsigned_less [of v] by simp
  then show "unat v div 2 ^ 20 < 4096" by (simp add: less_mult_imp_div_less)
qed

lemma unat_word_inverse: "of_nat (unat (w :: 'a::len word)) = w"
  by simp

lemma low_bits:
  fixes low :: u32
  assumes "bit low n" and "drop_bit 20 low = 0"
  shows "n < 20"
proof (rule ccontr)
  assume "\<not> n < 20"
  then have "bit (drop_bit 20 low) (n - 20)"
    using assms(1) by (simp add: bit_drop_bit_eq)
  with assms(2) show False by simp
qed

lemma and_below_section:
  fixes x c k :: u32
  assumes "drop_bit 20 k = 0"
  shows "(push_bit 20 x OR c) AND k = c AND k"
  by (rule bit_word_eqI)
    (auto simp: bit_and_iff bit_or_iff bit_push_bit_iff dest: low_bits [OF _ assms])

lemma section_base:
  fixes v e :: u32
  assumes "e = push_bit 20 (of_nat (unat v div 2 ^ 20)) OR low" and "drop_bit 20 low = 0"
  shows "(e AND 0xFFF00000) OR (v AND 0xFFFFF) = v"
proof -
  have "unat v div 2 ^ 20 = unat (drop_bit 20 v)"
    by (simp add: unat_drop_bit_div)
  then have "of_nat (unat v div 2 ^ 20) = (drop_bit 20 v :: u32)"
    by (simp only: unat_word_inverse)
  then have e: "e = push_bit 20 (drop_bit 20 v) OR low" using assms(1) by simp
  have masks: "(0xFFFFF :: u32) = mask 20" "(0xFFF00000 :: u32) = NOT (mask 20)"
    by (simp_all add: mask_eq_exp_minus_1)
  have low: "n < 20" if "bit low n" for n
    using that assms(2) by (rule low_bits)
  show ?thesis
    unfolding e masks
    by (rule bit_word_eqI)
      (auto simp: bit_or_iff bit_and_iff bit_not_iff bit_mask_iff bit_push_bit_iff bit_drop_bit_eq
        dest: low)
qed

lemma page_tables_nth:
  assumes "i < 4096" and "length t = 4096"
  shows "page_tables n t ! i =
    (if 0x3F0 \<le> i \<and> i < 0x400 then mmio_entry i else if i < n then ram_entry i else t ! i)"
proof -
  have first: "unat (drop_bit 20 ARM_PERIPH_BASE) = 0x3F0"
    by (simp add: reg_defs)
  show ?thesis
    unfolding page_tables_def Let_def first
    using assms by (simp add: nth_set_entries del: upt_rec_numeral)
qed

definition mmio_window :: "u32 \<Rightarrow> bool" where
  "mmio_window v \<longleftrightarrow> 0x3F000000 \<le> v \<and> v < 0x40000000"

lemma mmio_window_index: "mmio_window v \<longleftrightarrow> 0x3F0 \<le> unat v div 2 ^ 20 \<and> unat v div 2 ^ 20 < 0x400"
proof -
  have "mmio_window v \<longleftrightarrow> 0x3F000000 \<le> unat v \<and> unat v < 0x40000000"
    by (simp add: mmio_window_def word_le_nat_alt word_less_nat_alt)
  then show ?thesis by (simp add: less_eq_div_iff_mult_less_eq div_less_iff_less_mult)
qed

lemma entry_eq:
  "ram_entry i = push_bit 20 (of_nat i) OR 0x9C0E"
  "mmio_entry i = push_bit 20 (of_nat i) OR 0xC02"
  by (simp_all add: ram_entry_def mmio_entry_def TEX_def or.assoc)

lemma entry_low_bits:
  "ram_entry i AND 3 = 2" "mmio_entry i AND 3 = 2" "ram_entry i AND 0xC = 0xC"
  "mmio_entry i AND 0xC = 0"
  by (simp_all add: entry_eq and_below_section)

lemma page_tables_mapping:
  assumes "ram_size \<le> 4096"
  defines "t \<equiv> page_tables ram_size (replicate 4096 0)"
  shows "virt_to_phys t v =
      (if unat v < ram_size * 2 ^ 20 \<or> mmio_window v then Some v else None) \<and>
    cached t v = (unat v < ram_size * 2 ^ 20 \<and> \<not> mmio_window v)"
proof -
  define i where "i = unat v div 2 ^ 20"
  have i: "i < 4096" "unat (drop_bit 20 v) = i"
    using section_index [of v] by (simp_all add: i_def)
  have ram: "unat v < ram_size * 2 ^ 20 \<longleftrightarrow> i < ram_size"
    by (simp add: i_def div_less_iff_less_mult)
  have t: "t ! i = (if mmio_window v then mmio_entry i else if i < ram_size then ram_entry i else 0)"
    using i(1) by (simp add: t_def page_tables_nth mmio_window_index i_def)
  have "(ram_entry i AND 0xFFF00000) OR (v AND 0xFFFFF) = v"
    "(mmio_entry i AND 0xFFF00000) OR (v AND 0xFFFFF) = v"
    unfolding entry_eq i_def by (rule section_base [OF refl], simp)+
  then show ?thesis
    unfolding virt_to_phys_def cached_def i(2) t ram
    by (auto simp: entry_low_bits Let_def)
qed

section \<open>Properties\<close>

text \<open>C20: \<open>init_page_tables\<close> maps exactly the RAM of the given size and the 16 MB of
  peripherals, each address to itself; RAM is cached and the peripherals, also where they lie
  within the RAM size, are not.\<close>

theorem page_tables_identity:
  assumes "ram_size \<le> 4096"
  defines "t \<equiv> page_tables ram_size (replicate 4096 0)"
  shows "virt_to_phys t v =
      (if unat v < ram_size * 2 ^ 20 \<or> mmio_window v then Some v else None) \<and>
    cached t v = (unat v < ram_size * 2 ^ 20 \<and> \<not> mmio_window v)"
  unfolding t_def by (rule page_tables_mapping [OF assms(1)])

theorem page_tables_identity_witness:
  "virt_to_phys (page_tables 1024 (replicate 4096 0)) 0x3F201000 = Some 0x3F201000 \<and>
   \<not> cached (page_tables 1024 (replicate 4096 0)) 0x3F201000"
  using page_tables_identity [of 1024 "0x3F201000"] by (simp add: mmio_window_def)

text \<open>C21: both address translations together, for a 1 GB board: on a translation table that holds
  what is written, after the VPU's mapping and with the ARM's page tables, the first 992 MB of
  virtual addresses reach SDRAM at bus address 0xC0000000 as cached memory and the peripheral
  window reaches the VideoCore peripherals uncached; each of the 16 MB between them is mapped as cached
  memory by the ARM although the VPU never sets its translation entry, so that it reaches whatever bus
  address the entry selected before.\<close>

theorem arm_virtual_map:
  assumes "storage m b"
  defines "t \<equiv> page_tables 1024 (replicate 4096 0)"
  shows "\<exists>m' b'. steps map_all b = (Inr (), b') \<and> storage m' b' \<and>
    (\<forall>v. unat v < 992 * 2 ^ 20 \<longrightarrow>
      map_option (arm_to_bus m') (virt_to_phys t v) = Some (ARM_MEMORY_BASE + v) \<and> cached t v) \<and>
    (\<forall>v. mmio_window v \<longrightarrow> map_option (arm_to_bus m') (virt_to_phys t v) =
      Some (VC4_PERIPH_BASE + (v - ARM_PERIPH_BASE)) \<and> \<not> cached t v) \<and>
    m' (reg_at ARM_TRANSLATE 62) = m (reg_at ARM_TRANSLATE 62) \<and>
    (\<forall>v. 0x3E000000 \<le> v \<and> v < 0x3F000000 \<longrightarrow> cached t v \<and>
      map_option (arm_to_bus m') (virt_to_phys t v) = Some (arm_to_bus m v))"
proof -
  let ?m = "written map_writes m"
  obtain b' where b': "steps map_all b = (Inr (), b')" "storage ?m b'"
    using runs_map_all [OF assms(1)] by blast
  have id: "virt_to_phys t v = (if unat v < 1024 * 2 ^ 20 \<or> mmio_window v then Some v else None)"
    "cached t v = (unat v < 1024 * 2 ^ 20 \<and> \<not> mmio_window v)" for v
    using page_tables_mapping [of 1024 v] by (simp_all add: t_def)
  have low: "\<not> mmio_window v" if "unat v < 992 * 2 ^ 20" for v
    using that by (simp add: mmio_window_def word_le_nat_alt)
  have "map_of (rev map_writes) (reg_at ARM_TRANSLATE 62) = None"
    by (auto simp: map_of_eq_None_iff map_writes_def reg_at_inj)
  then have entry: "?m (reg_at ARM_TRANSLATE 62) = m (reg_at ARM_TRANSLATE 62)"
    by (simp add: written_def)
  moreover have "cached t v \<and> map_option (arm_to_bus ?m) (virt_to_phys t v) = Some (arm_to_bus m v)"
    if v: "0x3E000000 \<le> v \<and> v < 0x3F000000" for v
  proof -
    have n: "0x3E000000 \<le> unat v" "unat v < 0x3F000000"
      using v by (simp_all add: word_le_nat_alt word_less_nat_alt)
    then have "unat v div 2 ^ 24 = 62" by simp
    then have "unat (drop_bit 24 v) = 62" by (simp add: unat_drop_bit_div)
    then have "arm_to_bus ?m v = arm_to_bus m v" by (simp add: arm_to_bus_def entry)
    moreover have "\<not> mmio_window v" using v by (auto simp: mmio_window_def)
    ultimately show ?thesis using id [of v] n by simp
  qed
  moreover have "map_option (arm_to_bus ?m) (virt_to_phys t v) = Some (ARM_MEMORY_BASE + v) \<and> cached t v"
    if "unat v < 992 * 2 ^ 20" for v
    using that id low [OF that] arm_bus_ram [OF that] by simp
  moreover have "map_option (arm_to_bus ?m) (virt_to_phys t v) =
      Some (VC4_PERIPH_BASE + (v - ARM_PERIPH_BASE)) \<and> \<not> cached t v" if "mmio_window v" for v
    using that id arm_bus_io [of v] by (simp add: mmio_window_def reg_defs)
  ultimately show ?thesis using b' by blast
qed

theorem arm_virtual_map_witness:
  "\<exists>m' b'. steps map_all \<lparr>env = store_env (\<lambda>_. 0), hist = [], patience = 0\<rparr> = (Inr (), b') \<and>
    map_option (arm_to_bus m') (virt_to_phys (page_tables 1024 (replicate 4096 0)) 0x3F00B880) =
      Some 0x7E00B880 \<and>
    cached (page_tables 1024 (replicate 4096 0)) 0x3EFFFFFC"
proof -
  obtain m' b' where "steps map_all \<lparr>env = store_env (\<lambda>_. 0), hist = [], patience = 0\<rparr> = (Inr (), b')"
    and io: "\<forall>v. mmio_window v \<longrightarrow> map_option (arm_to_bus m')
        (virt_to_phys (page_tables 1024 (replicate 4096 0)) v) =
      Some (VC4_PERIPH_BASE + (v - ARM_PERIPH_BASE)) \<and>
      \<not> cached (page_tables 1024 (replicate 4096 0)) v"
    and gap: "\<forall>v. 0x3E000000 \<le> v \<and> v < 0x3F000000 \<longrightarrow> cached (page_tables 1024 (replicate 4096 0)) v \<and>
      map_option (arm_to_bus m') (virt_to_phys (page_tables 1024 (replicate 4096 0)) v) = Some (arm_to_bus (\<lambda>_. 0) v)"
    using arm_virtual_map [OF storage_start [of "\<lambda>_. 0" 0]] by blast
  moreover have "map_option (arm_to_bus m') (virt_to_phys (page_tables 1024 (replicate 4096 0))
      0x3F00B880) = Some 0x7E00B880"
    using io [rule_format, of "0x3F00B880"] by (simp add: mmio_window_def reg_defs)
  moreover have "cached (page_tables 1024 (replicate 4096 0)) 0x3EFFFFFC"
    using gap [rule_format, of "0x3EFFFFFC"] by simp
  ultimately show ?thesis by blast
qed

end
