(* ===== verification/Loader.thy ===== *)
theory Loader
  imports FatSample Mmu
begin

unbundle bit_operations_syntax

text \<open>
  The second stage boot loader, \<^verbatim>\<open>src/arm_chainloader/loader.cc\<close>: it mounts the boot
  partition, loads the kernel, the initial ramdisk, the command line and the device tree,
  edits the tree and jumps to Linux. Memory is a function from addresses to bytes; the device
  tree is the blob at \<open>DTB_LOAD_ADDRESS\<close>. Files are read through FatFs, the partition layer and
  the SD host driver, whose state the actions thread; \<open>loader_env\<close> holds what the loader finds
  in registers and in fresh memory.
\<close>

section \<open>Helpers\<close>

definition DTB_LOAD_ADDRESS :: int where "DTB_LOAD_ADDRESS = 0xF000000"
definition KERNEL_LOAD_ADDRESS :: int where "KERNEL_LOAD_ADDRESS = 0x2000000"
definition INITRD_LOAD_ADDRESS :: int where "INITRD_LOAD_ADDRESS = 0x4000000"

definition htonl :: "u32 \<Rightarrow> u32" where
  "htonl hostlong = push_bit 24 (hostlong AND 0x000000ff) OR push_bit 8 (hostlong AND 0x0000ff00)
     OR drop_bit 8 (hostlong AND 0x00ff0000) OR drop_bit 24 (hostlong AND 0xff000000)"

text \<open>The loop counts down from 7; \<open>acc\<close> is what is already written behind the position.\<close>

fun hex32_loop :: "nat \<Rightarrow> u32 \<Rightarrow> octets \<Rightarrow> octets" where
  "hex32_loop 0 input acc = acc"
| "hex32_loop (Suc i) input acc =
     (let nibble = input AND 0xf
      in hex32_loop i (drop_bit 4 input)
           ((if nibble \<le> 9 then 0x30 + ucast nibble else 0x57 + ucast nibble) # acc))"

definition hex32 :: "u32 \<Rightarrow> octets" where
  "hex32 input = hex32_loop 8 input [0]"

definition mac_address :: "u32 \<Rightarrow> octets" where
  "mac_address ser = [0xb8, 0x27, 0xeb, ucast (drop_bit 16 ser AND 0xff),
     ucast (drop_bit 8 ser AND 0xff), ucast (ser AND 0xff)]"

text \<open>An array of words in network order, as it lies in memory.\<close>

definition net_words :: "u32 list \<Rightarrow> octets" where
  "net_words ws = concat (map (\<lambda>w. le_bytes (htonl w)) ws)"

definition memmap :: "u32 list" where
  "memmap = [1024 * 128, (256 * 1024 * 1024) - (1024 * 128), (256 * 3) * 1024 * 1024, 16 * 1024 * 1024]"

definition soc_ranges :: "u32 list" where
  "soc_ranges = [VC4_PERIPH_BASE, ARM_PERIPH_BASE, 16 * 1024 * 1024, 0x40000000, 0x40000000, 0x1000]"

record loader_env =
  boot_fs :: nat  \<comment> \<open>the address of \<^verbatim>\<open>g_BootVolumeFs\<close>\<close>
  stack_fil :: FIL  \<comment> \<open>what the file object on the stack holds before it is opened\<close>
  heap_bytes :: "nat \<Rightarrow> octets"  \<comment> \<open>what a new buffer holds before it is filled\<close>
  arm_midr :: u32
  fw_serial :: u32
  fw_revision :: u32

text \<open>An action on the bus between calls of the file system.\<close>

definition flift :: "'a act \<Rightarrow> ('h, 'a) fat" where
  "flift m = (\<lambda>s. bind m (\<lambda>x. ret (x, s)))"

definition ROOT_VOLUME_PREFIX :: octets where
  "ROOT_VOLUME_PREFIX = ascii ''0:''"

definition detect_model_dtb :: "u32 \<Rightarrow> string" where
  "detect_model_dtb arm_cpuid =
     (if arm_cpuid = 0x410FB767 then ''rpi1.dtb''
      else if arm_cpuid = 0x410FC075 then ''rpi2.dtb''
      else if arm_cpuid = 0x410FD034 then ''rpi3.dtb''
      else ''unknown.dtb'')"

section \<open>Files\<close>

definition find_and_mount :: "loader_env \<Rightarrow> (sdhost, unit) fat" where
  "find_and_mount L = fbind (flift logf) (\<lambda>_. fbind (f_mount read_block (boot_fs L) ROOT_VOLUME_PREFIX 1) (\<lambda>r.
     flift (if r \<noteq> FR_OK then panic ''failed to mount boot partition, error: %d'' else logf)))"

definition file_exists :: "octets \<Rightarrow> (sdhost, bool) fat" where
  "file_exists path = fbind (f_stat read_block path None) (\<lambda>(r, _). fret (r = FR_OK))"

text \<open>
  \<^verbatim>\<open>read_file\<close> to a fixed address: the number of bytes read and the memory after it. The result
  of \<^verbatim>\<open>f_open\<close> is dropped, as in the source: when it fails, the size is the one that the object
  on the stack happens to hold.
\<close>

definition read_file_at :: "loader_env \<Rightarrow> octets \<Rightarrow> int \<Rightarrow> blob \<Rightarrow> (sdhost, nat \<times> blob) fat" where
  "read_file_at L path dest m =
     fbind (flift (rd ST_CLO)) (\<lambda>start. fbind (file_exists path) (\<lambda>ok.
     if \<not> ok then flift (panic ''attempted to read %s, but it does not exist'')
     else fbind (f_open read_block (stack_fil L) path FA_READ) (\<lambda>(_, fp).
       fbind (flift logf) (\<lambda>_. fbind (f_read read_block fp (f_size fp)) (\<lambda>(_, fp, len, data).
       fbind (f_close fp) (\<lambda>_. fbind (flift (rd ST_CLO)) (\<lambda>stop.
         fret (unat len, copy_in m dest data))))))))"

text \<open>
  \<^verbatim>\<open>read_file\<close> into a new buffer of one byte more than the file: the bytes read, behind a short
  read what the buffer held, and the terminating zero.
\<close>

definition read_file_alloc :: "loader_env \<Rightarrow> octets \<Rightarrow> (sdhost, octets) fat" where
  "read_file_alloc L path =
     fbind (flift (rd ST_CLO)) (\<lambda>start. fbind (file_exists path) (\<lambda>ok.
     if \<not> ok then flift (panic ''attempted to read %s, but it does not exist'')
     else fbind (f_open read_block (stack_fil L) path FA_READ) (\<lambda>(_, fp).
       fbind (flift logf) (\<lambda>_. fbind (f_read read_block fp (f_size fp)) (\<lambda>(_, fp', len, data).
       fbind (f_close fp') (\<lambda>_. fbind (flift (rd ST_CLO)) (\<lambda>stop.
         let n = unat (f_size fp)
         in fret (data @ drop (length data) (take n (heap_bytes L n)) @ [0]))))))))"

definition load_kernel :: "loader_env \<Rightarrow> blob \<Rightarrow> (sdhost, int \<times> blob) fat" where
  "load_kernel L m =
     fbind (read_file_at L (ascii ''zImage'') KERNEL_LOAD_ADDRESS m) (\<lambda>(ksize, m).
     fbind (flift logf) (\<lambda>_. fret (KERNEL_LOAD_ADDRESS, m)))"

definition load_initrd :: "loader_env \<Rightarrow> blob \<Rightarrow> (sdhost, int \<times> nat \<times> blob) fat" where
  "load_initrd L m =
     fbind (read_file_at L (ascii ''initrd'') INITRD_LOAD_ADDRESS m) (\<lambda>(sz, m).
     fret (INITRD_LOAD_ADDRESS, sz, m))"

section \<open>The device tree\<close>

definition setprop_dtb :: "int \<Rightarrow> octets \<Rightarrow> octets \<Rightarrow> blob \<Rightarrow> blob option" where
  "setprop_dtb node name val m = do {
     (res, b) \<leftarrow> fdt_setprop (view_at m DTB_LOAD_ADDRESS) node name val;
     Some (at_blob m DTB_LOAD_ADDRESS (\<lambda>_. b)) }"

definition with_node :: "octets \<Rightarrow> string \<Rightarrow> blob \<Rightarrow> (int \<Rightarrow> (string + blob) option) \<Rightarrow> (string + blob) option" where
  "with_node path msg m k = do {
     offset \<leftarrow> fdt_path_offset (view_at m DTB_LOAD_ADDRESS) path;
     if offset < 0 then Some (Inl msg) else k offset }"

definition set_initrd :: "int \<Rightarrow> int \<Rightarrow> nat \<Rightarrow> blob \<Rightarrow> blob option" where
  "set_initrd chosen initrd_start initrd_size m =
     (if initrd_size \<noteq> 0
      then do {
        m \<leftarrow> setprop_dtb chosen (ascii ''linux,initrd-start'') (net_words [word_of_int initrd_start]) m;
        setprop_dtb chosen (ascii ''linux,initrd-end'')
          (net_words [word_of_int (initrd_start + int initrd_size)]) m }
      else Some m)"

text \<open>
  The part of \<^verbatim>\<open>load_fdt\<close> behind reading the file. The results of \<^verbatim>\<open>fdt_open_into\<close> and
  \<^verbatim>\<open>fdt_setprop\<close> are stored and not looked at.
\<close>

definition patch_fdt :: "loader_env \<Rightarrow> nat \<Rightarrow> octets \<Rightarrow> int \<Rightarrow> nat \<Rightarrow> blob \<Rightarrow> (string + blob) option" where
  "patch_fdt L sz cmdline initrd_start initrd_size m =
     (if fdt_check_header (view_at m DTB_LOAD_ADDRESS) \<noteq> 0
      then Some (Inl ''fdt blob invalid, fdt_check_header returned %d'')
      else do {
        (res, m) \<leftarrow> fdt_open_into m DTB_LOAD_ADDRESS DTB_LOAD_ADDRESS (c_int (int sz + 4096));
        m \<leftarrow> setprop_dtb 0 (ascii ''serial-number'') (hex32 (fw_serial L)) m;
        with_node (ascii ''ethernet0'') ''cant find ethernet0'' m (\<lambda>ethernet0. do {
        m \<leftarrow> setprop_dtb ethernet0 (ascii ''local-mac-address'') (mac_address (fw_serial L)) m;
        with_node (ascii ''/system'') ''cant find /system'' m (\<lambda>system. do {
        m \<leftarrow> setprop_dtb system (ascii ''linux,revision'') (net_words [fw_revision L]) m;
        with_node (ascii ''/chosen'') ''no chosen node in fdt'' m (\<lambda>chosen. do {
        m \<leftarrow> setprop_dtb chosen (ascii ''bootargs'') (cmdline @ [0]) m;
        m \<leftarrow> set_initrd chosen initrd_start initrd_size m;
        with_node (ascii ''/memory'') ''no memory node in fdt'' m (\<lambda>memory. do {
        m \<leftarrow> setprop_dtb memory (ascii ''reg'') (net_words memmap) m;
        with_node (ascii ''/soc'') ''no /soc node in fdt'' m (\<lambda>soc. do {
        m \<leftarrow> setprop_dtb soc (ascii ''ranges'') (net_words soc_ranges) m;
        Some (Inr m) }) }) }) }) }) })"

text \<open>Not returning from the library is hanging, an error is a panic.\<close>

definition run_fdt :: "(string + 'a) option \<Rightarrow> 'a act" where
  "run_fdt res = (\<lambda>b. case res of None \<Rightarrow> (Inl Hang, b) | Some (Inl msg) \<Rightarrow> (Inl (Panic msg), b)
     | Some (Inr x) \<Rightarrow> (Inr x, b))"

definition load_fdt ::
    "loader_env \<Rightarrow> octets \<Rightarrow> octets \<Rightarrow> int \<Rightarrow> nat \<Rightarrow> blob \<Rightarrow> (sdhost, int \<times> blob) fat" where
  "load_fdt L filename cmdline initrd_start initrd_size m =
     fbind (read_file_at L filename DTB_LOAD_ADDRESS m) (\<lambda>(sz, m).
     fbind (flift logf) (\<lambda>_. fbind (flift (run_fdt (patch_fdt L sz cmdline initrd_start initrd_size m))) (\<lambda>m.
     fbind (flift logf) (\<lambda>_. fret (DTB_LOAD_ADDRESS, m)))))"

section \<open>Handing over\<close>

text \<open>The device that the disk reads from is the one that \<^verbatim>\<open>get_sdhost_device\<close> returns.\<close>

definition teardown_hardware :: "(sdhost, unit) fat" where
  "teardown_hardware = (\<lambda>s. bind (get_sdhost_device (Some (mmc (dsk s)))) (\<lambda>h. bind (stop_driver h) (\<lambda>h.
     ret ((), s\<lparr>dsk := (dsk s)\<lparr>mmc := h\<rparr>\<rparr>))))"

text \<open>What Linux is entered with: the address, the three registers and the memory.\<close>

record linux_entry =
  entry_pc :: int
  entry_r0 :: u32
  entry_r1 :: u32
  entry_r2 :: int
  entry_mem :: blob
  entry_cp15 :: "cp15 list"

definition run_linux :: "int \<Rightarrow> int \<Rightarrow> blob \<Rightarrow> cp15 list \<Rightarrow> linux_entry act" where
  "run_linux kernel_at fdt m cp = bind logf (\<lambda>_.
     ret \<lparr>entry_pc = kernel_at, entry_r0 = 0, entry_r1 = NOT 0, entry_r2 = fdt, entry_mem = m,
          entry_cp15 = cp\<rparr>)"

text \<open>
  The constructor of \<^verbatim>\<open>LoaderImpl\<close>. The pointer that \<^verbatim>\<open>load_initrd\<close> returns is dropped, as in
  the source: \<^verbatim>\<open>initrd\<close> stays null.
\<close>

definition LoaderImpl :: "loader_env \<Rightarrow> blob \<Rightarrow> (sdhost, linux_entry) fat" where
  "LoaderImpl L m =
     fbind (find_and_mount L) (\<lambda>_.
     fbind (load_kernel L m) (\<lambda>(kernel, m).
     let initrd = 0
     in fbind (load_initrd L m) (\<lambda>(_, initrd_size, m).
     fbind (read_file_alloc L (ascii ''cmdline.txt'')) (\<lambda>cmdline.
     fbind (flift logf) (\<lambda>_.
     let dtb_name = detect_model_dtb (arm_midr L)
     in fbind (flift (whenever (dtb_name = ''unknown.dtb'') logf)) (\<lambda>_.
     fbind (load_fdt L (ascii dtb_name) (takeWhile (\<lambda>c. c \<noteq> 0) cmdline) initrd initrd_size m) (\<lambda>(fdt, m).
     fbind teardown_hardware (\<lambda>_.
     flift (run_linux kernel fdt m (mmu_off (arm_midr L) @ [Disable_icache]))))))))))"

text \<open>The static initialisers of the chain loader in their order: the SD host, the disk, the loader.\<close>

definition start_loader ::
    "u32 list \<Rightarrow> sdhost \<Rightarrow> loader_env \<Rightarrow> blob \<Rightarrow> sdhost fat_sys \<Rightarrow> (linux_entry \<times> sdhost fat_sys) act" where
  "start_loader fresh h L m s =
     bind (sdhost_init h) (\<lambda>h. bind (read_mbr read_block fresh h) (\<lambda>d. LoaderImpl L m (s\<lparr>dsk := d\<rparr>)))"

section \<open>Looking up paths in edited trees\<close>

lemma find_kid_find: "map_option snd (find_kid s off ks) = List.find (\<lambda>k. name_matches (tree_name k) s) ks"
  by (induction s off ks rule: find_kid.induct) auto

lemma locate_subtree: "locate off q t = None \<longleftrightarrow> subtree q t = None"
proof (induction q arbitrary: off t)
  case (Cons c cs)
  obtain n ps ks where t: "t = Node n ps ks" by (cases t)
  show ?case
    using find_kid_find [of c "off + toks_size (T_BEGIN n # prop_toks ps)" ks, symmetric] Cons.IH
    by (cases "find_kid c (off + toks_size (T_BEGIN n # prop_toks ps)) ks") (auto simp: t)
qed simp

lemma tree_name_set_prop [simp]: "tree_name (set_prop name v t) = tree_name t"
  by (cases t) simp

lemma tree_name_edit [simp]: "tree_name (edit p (set_prop name v) t) = tree_name t"
  by (cases p; cases t) simp_all

lemma find_edit_kid:
  assumes "\<And>k. tree_name (g k) = tree_name k"
  shows "(List.find (\<lambda>k. name_matches (tree_name k) c) ks = None \<longleftrightarrow>
      List.find (\<lambda>k. name_matches (tree_name k) c) (edit_kid d g ks) = None)
    \<and> (\<forall>k. List.find (\<lambda>k. name_matches (tree_name k) c) ks = Some k \<longrightarrow>
        List.find (\<lambda>k. name_matches (tree_name k) c) (edit_kid d g ks) \<in> {Some k, Some (g k)})"
  by (induction ks) (auto simp: assms)

lemma subtree_edit: "subtree q (edit p (set_prop name v) t) = None \<longleftrightarrow> subtree q t = None"
proof (induction q arbitrary: p t)
  case (Cons c cs)
  obtain n ps ks where t: "t = Node n ps ks" by (cases t)
  show ?case
  proof (cases p)
    case Nil
    then show ?thesis by (simp add: t)
  next
    case (Cons d ds)
    let ?g = "edit ds (set_prop name v)" and ?f = "List.find (\<lambda>k. name_matches (tree_name k) c)"
    have fe: "(?f ks = None \<longleftrightarrow> ?f (edit_kid d ?g ks) = None)
        \<and> (\<forall>k. ?f ks = Some k \<longrightarrow> ?f (edit_kid d ?g ks) \<in> {Some k, Some (?g k)})"
      by (rule find_edit_kid) simp
    show ?thesis
    proof (cases "?f ks")
      case None
      then show ?thesis using fe by (simp add: t Cons)
    next
      case (Some k)
      then have "?f (edit_kid d ?g ks) = Some k \<or> ?f (edit_kid d ?g ks) = Some (?g k)"
        using fe by auto
      then show ?thesis
        using Some Cons.IH [of ds k] by (auto simp: t Cons)
    qed
  qed
qed simp

section \<open>Edits of the blob in memory\<close>

text \<open>
  The memory \<open>m\<close> came from \<open>m0\<close> by writes inside the \<open>n\<close> bytes of the blob, which holds \<open>t\<close>
  and has room for \<open>k\<close> more bytes.
\<close>

definition dtb_state :: "blob \<Rightarrow> blob \<Rightarrow> fdt_tree \<Rightarrow> int \<Rightarrow> int \<Rightarrow> bool" where
  "dtb_state m0 m t k n \<longleftrightarrow>
     fdt_holds (view_at m DTB_LOAD_ADDRESS) (flat t @ [T_END])
     \<and> k \<le> slack (view_at m DTB_LOAD_ADDRESS) \<and> fdt_totalsize (view_at m DTB_LOAD_ADDRESS) = n
     \<and> (\<forall>a. a < DTB_LOAD_ADDRESS \<or> DTB_LOAD_ADDRESS + n \<le> a \<longrightarrow> m a = m0 a)"

definition set_at :: "octets list \<Rightarrow> octets \<Rightarrow> octets \<Rightarrow> fdt_tree \<Rightarrow> fdt_tree" where
  "set_at p name v = edit p (set_prop name v)"

lemma subtree_set_at [simp]: "subtree q (set_at p name v t) = None \<longleftrightarrow> subtree q t = None"
  by (simp add: set_at_def subtree_edit)

lemma setprop_dtb_step:
  assumes d: "dtb_state m0 m t k n" and loc: "locate 0 p t = Some off"
    and name: "0 \<notin> set name" and cost: "prop_cost name v \<le> k"
  obtains m' where "setprop_dtb off name v m = Some m'"
    "dtb_state m0 m' (set_at p name v t) (k - prop_cost name v) n"
proof -
  let ?b = "view_at m DTB_LOAD_ADDRESS"
  obtain b' where b': "fdt_setprop ?b off name v = Some (0, b')"
    "fdt_holds b' (flat (edit p (set_prop name v) t) @ [T_END])"
    "slack ?b - prop_cost name v \<le> slack b'" "inside ?b b'"
    by (rule setprop_located [of ?b t "[T_END]" p off name v]) (use d loc name cost in \<open>simp_all add: dtb_state_def\<close>)
  let ?m = "at_blob m DTB_LOAD_ADDRESS (\<lambda>_. b')"
  have "?m a = m a" if "a < DTB_LOAD_ADDRESS \<or> DTB_LOAD_ADDRESS + n \<le> a" for a
  proof -
    have "a - DTB_LOAD_ADDRESS < 0 \<or> fdt_totalsize ?b \<le> a - DTB_LOAD_ADDRESS"
      using that d by (auto simp: dtb_state_def)
    then have "b' (a - DTB_LOAD_ADDRESS) = ?b (a - DTB_LOAD_ADDRESS)"
      using b'(4) unfolding inside_def by blast
    then show ?thesis by (simp add: at_blob_def view_at_def)
  qed
  then have "dtb_state m0 ?m (set_at p name v t) (k - prop_cost name v) n"
    using d b' by (simp add: dtb_state_def view_at_blob set_at_def inside_def)
  moreover have "setprop_dtb off name v m = Some ?m"
    by (simp add: setprop_dtb_def b'(1))
  ultimately show ?thesis by (rule that [rotated])
qed

lemma with_node_step:
  assumes d: "dtb_state m0 m t k n" and p: "0 \<notin> set path"
    and sub: "subtree (components (0x2f # path)) t \<noteq> None"
  obtains off where "locate 0 (components (0x2f # path)) t = Some off"
    "with_node (0x2f # path) msg m f = f off"
proof -
  obtain off where off: "locate 0 (components (0x2f # path)) t = Some off"
    using sub locate_subtree [of 0 "components (0x2f # path)" t] by auto
  have h: "fdt_holds (view_at m DTB_LOAD_ADDRESS) (flat t @ [T_END])"
    using d by (simp add: dtb_state_def)
  have "0 \<le> off"
    using locate_flat [OF off] toks_size_nonneg by auto
  then have "with_node (0x2f # path) msg m f = f off"
    using path_offset_absolute [OF h, of path] p off by (simp add: with_node_def)
  with off show ?thesis by (rule that)
qed

lemma with_alias_step:
  assumes d: "dtb_state m0 m t k n" and target: "0 \<notin> set target"
    and sub: "subtree (components (0x2f # target)) t \<noteq> None"
    and al: "subtree (components (ascii ''/aliases'')) t = Some (Node an ps ks)"
      "map_of ps name = Some ((0x2f # target) @ [0])" "name \<noteq> []" "0x2f \<notin> set name"
  obtains off where "locate 0 (components (0x2f # target)) t = Some off"
    "with_node name msg m f = f off"
proof -
  have h: "fdt_holds (view_at m DTB_LOAD_ADDRESS) (flat t @ [T_END])"
    using d by (simp add: dtb_state_def)
  have "locate 0 (components (ascii ''/aliases'')) t \<noteq> None"
    using al(1) by (simp add: locate_subtree)
  then have "fdt_path_offset (view_at m DTB_LOAD_ADDRESS) name
      = fdt_path_offset (view_at m DTB_LOAD_ADDRESS) (0x2f # target)"
    using path_offset_alias [OF h al(3,4,1) _ al(2) target] by blast
  then have same: "with_node name msg m f = with_node (0x2f # target) msg m f"
    by (simp add: with_node_def)
  obtain off where "locate 0 (components (0x2f # target)) t = Some off"
    "with_node (0x2f # target) msg m f = f off"
    by (rule with_node_step [OF d target sub])
  then show ?thesis using that same by simp
qed

section \<open>The edits that Linux sees\<close>

type_synonym fdt_edit = "octets list \<times> octets \<times> octets"

definition edited :: "fdt_edit list \<Rightarrow> fdt_tree \<Rightarrow> fdt_tree" where
  "edited es t = foldl (\<lambda>t (p, name, v). set_at p name v t) t es"

definition edits_cost :: "fdt_edit list \<Rightarrow> int" where
  "edits_cost es = sum_list (map (\<lambda>(p, name, v). prop_cost name v) es)"

definition initrd_edits :: "int \<Rightarrow> nat \<Rightarrow> fdt_edit list" where
  "initrd_edits start sz =
     (if sz \<noteq> 0
      then [(components (ascii ''/chosen''), ascii ''linux,initrd-start'', net_words [word_of_int start]),
            (components (ascii ''/chosen''), ascii ''linux,initrd-end'',
             net_words [word_of_int (start + int sz)])]
      else [])"

definition linux_edits :: "loader_env \<Rightarrow> octets list \<Rightarrow> octets \<Rightarrow> int \<Rightarrow> nat \<Rightarrow> fdt_edit list" where
  "linux_edits L eth cmdline start sz =
     [([], ascii ''serial-number'', hex32 (fw_serial L)),
      (eth, ascii ''local-mac-address'', mac_address (fw_serial L)),
      (components (ascii ''/system''), ascii ''linux,revision'', net_words [fw_revision L]),
      (components (ascii ''/chosen''), ascii ''bootargs'', cmdline @ [0])]
     @ initrd_edits start sz @
     [(components (ascii ''/memory''), ascii ''reg'', net_words memmap),
      (components (ascii ''/soc''), ascii ''ranges'', net_words soc_ranges)]"

lemma edited_simps [simp]:
  "edited [] t = t" "edited ((p, name, v) # es) t = edited es (set_at p name v t)"
  "edited (es @ fs) t = edited fs (edited es t)"
  by (simp_all add: edited_def)

lemma edits_cost_simps [simp]:
  "edits_cost [] = 0" "edits_cost ((p, name, v) # es) = prop_cost name v + edits_cost es"
  "edits_cost (es @ fs) = edits_cost es + edits_cost fs"
  by (simp_all add: edits_cost_def)

lemma prop_cost_pos: "0 \<le> prop_cost name v"
  using FDT_TAGALIGN_nonneg [of "int (length v)"] by (simp add: prop_cost_def)

lemma edits_cost_pos: "0 \<le> edits_cost es"
proof (induction es)
  case (Cons e es)
  then show ?case using prop_cost_pos by (cases e) (simp add: add_nonneg_nonneg)
qed simp

lemma find_kid_edit:
  assumes "\<And>k. tree_name (g k) = tree_name k"
  shows "find_kid c off (edit_kid c g ks) = map_option (\<lambda>(o', k). (o', g k)) (find_kid c off ks)"
  by (induction ks arbitrary: off) (simp_all add: assms)

text \<open>A node keeps its offset when one of its own properties is set.\<close>

lemma locate_set_at: "locate off p (set_at p name v t) = locate off p t"
  unfolding set_at_def
proof (induction p arbitrary: off t)
  case (Cons c cs)
  obtain n ps ks where t: "t = Node n ps ks" by (cases t)
  show ?case
    using Cons.IH by (simp add: t find_kid_edit split: option.splits)
qed simp

lemma system_paths:
  "ascii ''/system'' = 0x2f # ascii ''system''" "ascii ''/chosen'' = 0x2f # ascii ''chosen''"
  "ascii ''/memory'' = 0x2f # ascii ''memory''" "ascii ''/soc'' = 0x2f # ascii ''soc''"
  "ascii ''/aliases'' = 0x2f # ascii ''aliases''"
  by (simp_all add: ascii_def)

lemma no_zero_names:
  "0 \<notin> set (ascii ''serial-number'')" "0 \<notin> set (ascii ''local-mac-address'')"
  "0 \<notin> set (ascii ''linux,revision'')" "0 \<notin> set (ascii ''bootargs'')"
  "0 \<notin> set (ascii ''linux,initrd-start'')" "0 \<notin> set (ascii ''linux,initrd-end'')"
  "0 \<notin> set (ascii ''reg'')" "0 \<notin> set (ascii ''ranges'')" "0 \<notin> set (ascii ''system'')"
  "0 \<notin> set (ascii ''chosen'')" "0 \<notin> set (ascii ''memory'')" "0 \<notin> set (ascii ''soc'')"
  by (simp_all add: ascii_def)

lemma initrd_step:
  assumes d: "dtb_state m0 m t k n" and loc: "locate 0 (components (ascii ''/chosen'')) t = Some off"
    and cost: "edits_cost (initrd_edits start sz) \<le> k"
  obtains m' where
    "set_initrd off start sz m = Some m'"
    "dtb_state m0 m' (edited (initrd_edits start sz) t) (k - edits_cost (initrd_edits start sz)) n"
proof (cases "sz = 0")
  case True
  then show ?thesis
    using that [of m] d by (simp add: initrd_edits_def set_initrd_def)
next
  case False
  let ?c = "components (ascii ''/chosen'')"
  let ?v1 = "net_words [word_of_int start]" and ?v2 = "net_words [word_of_int (start + int sz)]"
  let ?n1 = "ascii ''linux,initrd-start''" and ?n2 = "ascii ''linux,initrd-end''"
  have costs: "prop_cost ?n1 ?v1 + prop_cost ?n2 ?v2 \<le> k"
    using cost False by (simp add: initrd_edits_def)
  have c1: "prop_cost ?n1 ?v1 \<le> k"
    using costs prop_cost_pos [of ?n2 ?v2] by simp
  obtain m1 where m1: "setprop_dtb off ?n1 ?v1 m = Some m1"
    "dtb_state m0 m1 (set_at ?c ?n1 ?v1 t) (k - prop_cost ?n1 ?v1) n"
    by (rule setprop_dtb_step [OF d loc no_zero_names(5) c1])
  have c2: "prop_cost ?n2 ?v2 \<le> k - prop_cost ?n1 ?v1"
    using costs by simp
  obtain m2 where m2: "setprop_dtb off ?n2 ?v2 m1 = Some m2"
    "dtb_state m0 m2 (set_at ?c ?n2 ?v2 (set_at ?c ?n1 ?v1 t)) (k - prop_cost ?n1 ?v1 - prop_cost ?n2 ?v2) n"
    by (rule setprop_dtb_step [OF m1(2) _ no_zero_names(6) c2, of ?c off]) (simp add: locate_set_at loc)
  show ?thesis
    using that [of m2] m1(1) m2 False by (simp add: initrd_edits_def set_initrd_def algebra_simps)
qed

lemma patch_steps:
  assumes d: "dtb_state m0 m1 t k n"
    and open_: "fdt_check_header (view_at m DTB_LOAD_ADDRESS) = 0"
      "fdt_open_into m DTB_LOAD_ADDRESS DTB_LOAD_ADDRESS (c_int (int sz + 4096)) = Some (0, m1)"
    and al: "subtree (components (ascii ''/aliases'')) t = Some (Node an aps aks)"
      "map_of aps (ascii ''ethernet0'') = Some ((0x2f # target) @ [0])" "0 \<notin> set target"
    and nodes: "subtree (components (0x2f # target)) t \<noteq> None"
      "subtree (components (ascii ''/system'')) t \<noteq> None"
      "subtree (components (ascii ''/chosen'')) t \<noteq> None"
      "subtree (components (ascii ''/memory'')) t \<noteq> None"
      "subtree (components (ascii ''/soc'')) t \<noteq> None"
    and cost: "edits_cost (linux_edits L (components (0x2f # target)) cmdline start isz) \<le> k"
  obtains m' k' where "patch_fdt L sz cmdline start isz m = Some (Inr m')"
    "dtb_state m0 m' (edited (linux_edits L (components (0x2f # target)) cmdline start isz) t) k' n"
proof -
  let ?eth = "components (0x2f # target)"
  define e1 where "e1 = (ascii ''serial-number'', hex32 (fw_serial L))"
  define e2 where "e2 = (ascii ''local-mac-address'', mac_address (fw_serial L))"
  define e3 where "e3 = (ascii ''linux,revision'', net_words [fw_revision L])"
  define e4 where "e4 = (ascii ''bootargs'', cmdline @ [0])"
  define e5 where "e5 = (ascii ''reg'', net_words memmap)"
  define e6 where "e6 = (ascii ''ranges'', net_words soc_ranges)"
  note e = e1_def e2_def e3_def e4_def e5_def e6_def
  let ?cost = "\<lambda>e. prop_cost (fst e) (snd e)" and ?set = "\<lambda>p e. set_at p (fst e) (snd e)"
  let ?ini = "initrd_edits start isz"
  have costs: "?cost e1 + ?cost e2 + ?cost e3 + ?cost e4 + edits_cost ?ini + ?cost e5 + ?cost e6 \<le> k"
    using cost by (simp add: linux_edits_def e)
  have pos: "0 \<le> ?cost e1" "0 \<le> ?cost e2" "0 \<le> ?cost e3" "0 \<le> ?cost e4" "0 \<le> edits_cost ?ini"
    "0 \<le> ?cost e5" "0 \<le> ?cost e6"
    by (simp_all add: prop_cost_pos edits_cost_pos)
  have kk: "?cost e1 \<le> k" "?cost e2 \<le> k - ?cost e1" "?cost e3 \<le> k - ?cost e1 - ?cost e2"
    "?cost e4 \<le> k - ?cost e1 - ?cost e2 - ?cost e3"
    "edits_cost ?ini \<le> k - ?cost e1 - ?cost e2 - ?cost e3 - ?cost e4"
    "?cost e5 \<le> k - ?cost e1 - ?cost e2 - ?cost e3 - ?cost e4 - edits_cost ?ini"
    "?cost e6 \<le> k - ?cost e1 - ?cost e2 - ?cost e3 - ?cost e4 - edits_cost ?ini - ?cost e5"
    using costs pos by linarith+
  have z: "0 \<notin> set (fst e1)" "0 \<notin> set (fst e2)" "0 \<notin> set (fst e3)" "0 \<notin> set (fst e4)"
    "0 \<notin> set (fst e5)" "0 \<notin> set (fst e6)"
    by (simp_all add: e no_zero_names)
  let ?t1 = "?set [] e1 t"
  obtain a1 where a1: "setprop_dtb 0 (fst e1) (snd e1) m1 = Some a1" "dtb_state m0 a1 ?t1 (k - ?cost e1) n"
    by (rule setprop_dtb_step [OF d _ z(1) kk(1), of "[]" 0]) simp
  have al1: "subtree (components (ascii ''/aliases'')) ?t1 = Some (Node an aps aks)"
  proof -
    have "components (ascii ''/aliases'') = [ascii ''aliases'']" by code_simp
    then show ?thesis
      using al(1) by (cases t) (simp add: set_at_def)
  qed
  obtain eth where eth: "locate 0 ?eth ?t1 = Some eth"
    "with_node (ascii ''ethernet0'') ''cant find ethernet0'' a1 f = f eth" for f
  proof -
    obtain off where off: "locate 0 ?eth ?t1 = Some off"
      using nodes(1) locate_subtree [of 0 ?eth ?t1] by auto
    have "with_node (ascii ''ethernet0'') ''cant find ethernet0'' a1 f = f off" for f
      by (rule with_alias_step [OF a1(2) al(3) _ al1 al(2), of "''cant find ethernet0''" f])
        (use nodes(1) off in \<open>simp_all add: ascii_def\<close>)
    with off show ?thesis by (rule that)
  qed
  let ?t2 = "?set ?eth e2 ?t1"
  obtain a2 where a2: "setprop_dtb eth (fst e2) (snd e2) a1 = Some a2" "dtb_state m0 a2 ?t2 (k - ?cost e1 - ?cost e2) n"
    by (rule setprop_dtb_step [OF a1(2) eth(1) z(2) kk(2)])
  have node: "\<exists>off. locate 0 (components (0x2f # path)) t' = Some off
      \<and> (\<forall>f. with_node (0x2f # path) msg m' f = f off)"
    if "dtb_state m0 m' t' k' n" "0 \<notin> set path" "subtree (components (0x2f # path)) t' \<noteq> None"
    for path t' m' k' msg
  proof -
    note prem = that
    obtain off where off: "locate 0 (components (0x2f # path)) t' = Some off"
      using prem(3) locate_subtree [of 0 "components (0x2f # path)" t'] by auto
    have "with_node (0x2f # path) msg m' f = f off" for f
      by (rule with_node_step [OF prem, of msg f]) (use off in simp)
    with off show ?thesis by blast
  qed
  let ?sys = "components (ascii ''/system'')" and ?ch = "components (ascii ''/chosen'')"
    and ?mem = "components (ascii ''/memory'')" and ?soc = "components (ascii ''/soc'')"
  obtain sys where sys: "locate 0 ?sys ?t2 = Some sys"
    "\<forall>f. with_node (ascii ''/system'') ''cant find /system'' a2 f = f sys"
    using node [OF a2(2) no_zero_names(9), where msg = "''cant find /system''"] nodes(2) unfolding system_paths by auto
  let ?t3 = "?set ?sys e3 ?t2"
  obtain a3 where a3: "setprop_dtb sys (fst e3) (snd e3) a2 = Some a3"
    "dtb_state m0 a3 ?t3 (k - ?cost e1 - ?cost e2 - ?cost e3) n"
    by (rule setprop_dtb_step [OF a2(2) sys(1) z(3) kk(3)])
  obtain ch where ch: "locate 0 ?ch ?t3 = Some ch"
    "\<forall>f. with_node (ascii ''/chosen'') ''no chosen node in fdt'' a3 f = f ch"
    using node [OF a3(2) no_zero_names(10), where msg = "''no chosen node in fdt''"] nodes(3) unfolding system_paths by auto
  let ?t4 = "?set ?ch e4 ?t3" and ?k4 = "k - ?cost e1 - ?cost e2 - ?cost e3 - ?cost e4"
  obtain a4 where a4: "setprop_dtb ch (fst e4) (snd e4) a3 = Some a4" "dtb_state m0 a4 ?t4 ?k4 n"
    by (rule setprop_dtb_step [OF a3(2) ch(1) z(4) kk(4)])
  let ?t5 = "edited ?ini ?t4" and ?k5 = "?k4 - edits_cost ?ini"
  obtain a5 where a5: "set_initrd ch start isz a4 = Some a5" "dtb_state m0 a5 ?t5 ?k5 n"
    by (rule initrd_step [OF a4(2) _ kk(5), of ch]) (simp add: locate_set_at ch(1))
  have keep5: "subtree q ?t5 = None \<longleftrightarrow> subtree q t = None" for q
    by (simp add: initrd_edits_def)
  obtain mo where mo: "locate 0 ?mem ?t5 = Some mo"
    "\<forall>f. with_node (ascii ''/memory'') ''no memory node in fdt'' a5 f = f mo"
    using node [OF a5(2) no_zero_names(11), where msg = "''no memory node in fdt''"] nodes(4) keep5 unfolding system_paths by auto
  let ?t6 = "?set ?mem e5 ?t5"
  obtain a6 where a6: "setprop_dtb mo (fst e5) (snd e5) a5 = Some a6" "dtb_state m0 a6 ?t6 (?k5 - ?cost e5) n"
    by (rule setprop_dtb_step [OF a5(2) mo(1) z(5) kk(6)])
  obtain so where so: "locate 0 ?soc ?t6 = Some so"
    "\<forall>f. with_node (ascii ''/soc'') ''no /soc node in fdt'' a6 f = f so"
    using node [OF a6(2) no_zero_names(12), where msg = "''no /soc node in fdt''"] nodes(5) keep5 unfolding system_paths by auto
  let ?t7 = "?set ?soc e6 ?t6"
  obtain a7 where a7: "setprop_dtb so (fst e6) (snd e6) a6 = Some a7" "dtb_state m0 a7 ?t7 (?k5 - ?cost e5 - ?cost e6) n"
    by (rule setprop_dtb_step [OF a6(2) so(1) z(6) kk(7)])
  have "patch_fdt L sz cmdline start isz m = Some (Inr a7)"
    using a1(1) a2(1) a3(1) a4(1) a6(1) a7(1)
    by (simp add: patch_fdt_def open_ eth(2) sys(2) ch(2) a5(1) mo(2) so(2) e)
  moreover have "?t7 = edited (linux_edits L ?eth cmdline start isz) t"
    by (simp add: linux_edits_def e)
  ultimately show ?thesis
    using that a7(2) by metis
qed

section \<open>Only the bytes of the blob matter\<close>

lemma fdt_holds_cong:
  assumes h: "fdt_holds b ts" and eq: "\<And>a. 0 \<le> a \<Longrightarrow> a < fdt_totalsize b \<Longrightarrow> b' a = b a"
  shows "fdt_holds b' ts" "fdt_totalsize b' = fdt_totalsize b" "slack b' = slack b"
    "fdt_off_mem_rsvmap b' = fdt_off_mem_rsvmap b" "fdt_off_dt_struct b' = fdt_off_dt_struct b"
proof -
  note hb = fdt_header_bounds [of b]
  have l: "40 \<le> fdt_off_dt_struct b" "fdt_off_dt_struct b + fdt_size_dt_struct b \<le> fdt_off_dt_strings b"
    "fdt_off_dt_strings b + fdt_size_dt_strings b \<le> fdt_totalsize b"
    using h by (simp_all add: fdt_holds_def fdt_layout_def)
  have w: "be32 b' q = be32 b q" if "0 \<le> q" "q \<le> 36" for q
    by (rule be32_agree, rule eq) (use that l hb in simp_all)
  have f: "fdt_off_dt_struct b' = fdt_off_dt_struct b" "fdt_size_dt_struct b' = fdt_size_dt_struct b"
    "fdt_off_dt_strings b' = fdt_off_dt_strings b" "fdt_size_dt_strings b' = fdt_size_dt_strings b"
    "fdt_totalsize b' = fdt_totalsize b" "fdt_off_mem_rsvmap b' = fdt_off_mem_rsvmap b"
    "fdt_magic b' = fdt_magic b" "fdt_version b' = fdt_version b"
    "fdt_last_comp_version b' = fdt_last_comp_version b"
    by (simp_all add: fdt_header w)
  have "strtab b' = strtab b"
    unfolding strtab_def f by (rule seg_cong, rule eq) (use l hb in simp_all)
  moreover have "toks_at b' (strtab b) (fdt_off_dt_struct b) ts"
    using toks_at_frame [of "strtab b" b "fdt_off_dt_struct b" ts b' 0 "[]"] h l hb eq
    by (simp add: fdt_holds_def)
  ultimately show "fdt_holds b' ts"
    using h by (simp add: fdt_holds_def fdt_layout_def f)
  show "fdt_totalsize b' = fdt_totalsize b" "slack b' = slack b"
    "fdt_off_mem_rsvmap b' = fdt_off_mem_rsvmap b" "fdt_off_dt_struct b' = fdt_off_dt_struct b"
    by (simp_all add: slack_def f)
qed

lemma num_mem_rsv_loop_steps:
  "num_mem_rsv_loop b i = Some n \<Longrightarrow> i \<le> n \<and> be64 b (fdt_mem_rsv b n + 8) = 0
     \<and> (\<forall>j. i \<le> j \<and> j < n \<longrightarrow> be64 b (fdt_mem_rsv b j + 8) \<noteq> 0)"
proof (induction rule: num_mem_rsv_loop.raw_induct [rotated, consumes 1, case_names step])
  case (step f b i n)
  show ?case
  proof (cases "be64 b (fdt_mem_rsv b i + 8) = 0")
    case True
    then show ?thesis using step(2) by simp
  next
    case False
    then have "f b (i + 1) = Some n" using step(2) by simp
    from step(1) [OF this] False show ?thesis
      by (metis add1_zle_eq linorder_le_less_linear nle_le order.strict_iff_order zle_add1_eq_le)
  qed
qed

lemma num_mem_rsv_loop_count:
  "be64 b (fdt_mem_rsv b (i + int k) + 8) = 0 \<Longrightarrow>
     (\<forall>j. i \<le> j \<and> j < i + int k \<longrightarrow> be64 b (fdt_mem_rsv b j + 8) \<noteq> 0) \<Longrightarrow>
     num_mem_rsv_loop b i = Some (i + int k)"
proof (induction k arbitrary: i)
  case 0
  then show ?case by (subst num_mem_rsv_loop.simps) simp
next
  case (Suc k)
  have "num_mem_rsv_loop b (i + 1) = Some (i + 1 + int k)"
    by (rule Suc.IH) (use Suc.prems in \<open>simp_all add: algebra_simps\<close>)
  then show ?case
    using Suc.prems by (subst num_mem_rsv_loop.simps) simp
qed

lemma num_mem_rsv_cong:
  assumes n: "fdt_num_mem_rsv b = Some n" and map: "fdt_off_mem_rsvmap b' = fdt_off_mem_rsvmap b"
    and eq: "\<And>a. fdt_off_mem_rsvmap b \<le> a \<Longrightarrow> a < fdt_off_mem_rsvmap b + (n + 1) * 16 \<Longrightarrow> b' a = b a"
  shows "fdt_num_mem_rsv b' = Some n" "0 \<le> n"
proof -
  note s = num_mem_rsv_loop_steps [OF n [unfolded fdt_num_mem_rsv_def]]
  then show "0 \<le> n" by simp
  have q: "be64 b' (fdt_mem_rsv b' j + 8) = be64 b (fdt_mem_rsv b j + 8)" if "0 \<le> j" "j \<le> n" for j
  proof -
    have "j * 16 + 16 \<le> (n + 1) * 16" "0 \<le> j * 16" using that by simp_all
    then have "be32 b' (fdt_mem_rsv b j + 8) = be32 b (fdt_mem_rsv b j + 8)"
      "be32 b' (fdt_mem_rsv b j + 8 + 4) = be32 b (fdt_mem_rsv b j + 8 + 4)"
      by (intro be32_agree eq; simp add: fdt_mem_rsv_def)+
    then show ?thesis by (simp add: be64_def fdt_mem_rsv_def map)
  qed
  have "num_mem_rsv_loop b' 0 = Some (0 + int (nat n))"
    by (rule num_mem_rsv_loop_count) (use s q in auto)
  then show "fdt_num_mem_rsv b' = Some n"
    using s by (simp add: fdt_num_mem_rsv_def)
qed

section \<open>The loader\<close>

text \<open>A FAT volume in the sectors of \<open>img\<close> with the files on it.\<close>

definition boot_volume :: "(u32 \<Rightarrow> octets) \<Rightarrow> nat \<Rightarrow> (octets \<times> octets) list \<Rightarrow> bool" where
  "boot_volume img n files \<longleftrightarrow> bpb_ok (img 0) n
     \<and> (\<forall>V. describes (img 0) V \<longrightarrow> (\<forall>(path, data) \<in> set files. file_at img V path data))"

text \<open>The volume at \<open>a\<close> is the one of the boot sector.\<close>

definition boot_mounted :: "sdcard \<Rightarrow> MbrPartition \<Rightarrow> nat \<Rightarrow> sdhost fat_sys \<Rightarrow> bool" where
  "boot_mounted d p a s \<longleftrightarrow> (\<exists>V. mounted (sd_size d p) (sd_img d p) V a s \<and> describes (sd_img d p 0) V)"

lemma flift_ok:
  "runs (up (dsk s)) m (\<lambda>x b. R x \<and> up (dsk s) b) \<Longrightarrow> returns up (flift m) s (\<lambda>x t. R x \<and> t = s)"
  unfolding returns_def flift_def by (erule runs_bind) (auto intro!: runs_conj runs_ret)

lemma returns_runs:
  assumes "returns up m s R" and "\<And>x t. R x t \<Longrightarrow> runs (up (dsk t)) (k x t) Q"
  shows "runs (up (dsk s)) (fbind m k s) Q"
  unfolding fbind_def
  apply (rule runs_bind [OF assms(1) [unfolded returns_def]])
  subgoal for x
    by (cases x) (auto intro!: runs_conj dest!: assms(2))
  done

lemma sd_up_quiet:
  assumes "runs (quiet d) m (\<lambda>_. quiet d)"
  shows "runs (sd_up d p D) m (\<lambda>_ b. True \<and> sd_up d p D b)"
  using assms by (auto simp: runs_def partition_up_def sd_ready_iff)

lemma sd_logf: "returns (sd_up d p) (flift logf) s (\<lambda>_ t. True \<and> t = s)"
  by (rule flift_ok [OF sd_up_quiet [OF quiet_logf]])

lemma sd_clock: "returns (sd_up d p) (flift (rd ST_CLO)) s (\<lambda>_ t. True \<and> t = s)"
  by (rule flift_ok [OF sd_up_quiet [OF quiet_rd]])

text \<open>A path without a colon has no drive prefix.\<close>

lemma get_ldnumber_plain: "0x3A \<notin> set path \<Longrightarrow> get_ldnumber path = (0, path)"
proof -
  assume "0x3A \<notin> set path"
  then have "0x3A \<notin> set (dropWhile P path)" for P
    by (meson set_dropWhileD)
  then have "\<not> (dropWhile (\<lambda>c. c \<ge> 0x21 \<and> c \<noteq> 0x3A) path \<noteq> [] \<and> hd (dropWhile (\<lambda>c. c \<ge> 0x21 \<and> c \<noteq> 0x3A) path) = 0x3A)"
    by (metis hd_in_set)
  then show ?thesis
    by (simp only: get_ldnumber_def Let_def if_False)
qed

lemma find_and_mount_ok:
  assumes w: "bpb_ok (sd_img d p 0) (sd_size d p)" and s: "length (FatFs s) = 1" "boot_fs L \<noteq> 0"
  shows "returns (sd_up d p) (find_and_mount L) s (\<lambda>_. boot_mounted d p (boot_fs L))"
proof -
  have path: "get_ldnumber ROOT_VOLUME_PREFIX = (0, [])" by code_simp
  show ?thesis
    unfolding find_and_mount_def
    apply (rule returns_bind [OF sd_logf])
    apply (rule returns_bind [OF sd.vol.f_mount_ok [OF w _ s(2) path]])
     apply (simp add: s)
    apply (clarsimp simp only: simp_thms if_False)
    apply (rule returns_weaken [OF sd_logf])
    by (auto simp: boot_mounted_def)
qed

text \<open>From the check that the file exists to reading it, with the volume mounted after it.\<close>

lemma file_reading:
  assumes m: "mounted (sd_size d p) (sd_img d p) V a s" and path: "0x3A \<notin> set path"
    and f: "file_at (sd_img d p) V path data"
    and k: "\<And>fp t. opened_on (sd_img d p) V a data fp \<Longrightarrow> mounted (sd_size d p) (sd_img d p) V a t
      \<Longrightarrow> returns (sd_up d p) (k fp) t Q"
  shows "returns (sd_up d p) (fbind (flift (rd ST_CLO)) (\<lambda>start. fbind (file_exists path) (\<lambda>ok.
     if \<not> ok then flift (panic msg)
     else fbind (f_open read_block fp0 path FA_READ) (\<lambda>(_, fp). fbind (flift logf) (\<lambda>_. k fp))))) s Q"
  unfolding file_exists_def
  apply (rule returns_bind [OF sd_clock], erule conjE, hypsubst)
  apply (rule returns_bind [where R = "\<lambda>ok t. ok = True \<and> mounted (sd_size d p) (sd_img d p) V a t"])
   apply (rule returns_bind [OF sd.vol.f_stat_file [OF m get_ldnumber_plain [OF path] f]])
   apply (auto intro!: returns_fret)[1]
  apply (simp only: not_True_eq_False if_False)
  apply (rule returns_bind2 [OF sd.vol.f_open_file [where a = a, OF _ get_ldnumber_plain [OF path] f]], erule conjunct2)
  apply (simp only: prod.case)
  apply (rule returns_bind [OF sd_logf])
  by (rule k) simp_all

lemma file_read_end:
  assumes fp: "opened_on (sd_img d p) V a data fp" and m: "mounted (sd_size d p) (sd_img d p) V a s"
    and k: "\<And>len t. unat len = length data \<Longrightarrow> mounted (sd_size d p) (sd_img d p) V a t \<Longrightarrow> Q (g len data) t"
  shows "returns (sd_up d p) (fbind (f_read read_block fp (f_size fp)) (\<lambda>(_, fp', len, data).
     fbind (f_close fp') (\<lambda>_. fbind (flift (rd ST_CLO)) (\<lambda>stop. fret (g len data))))) s Q"
  apply (rule returns_bind [OF sd.vol.f_read_all [OF m fp]])
  apply (clarsimp)
  apply (rule returns_bind [OF sd.vol.f_close_ok], assumption+)
  apply (rule returns_bind [OF sd_clock])
  by (auto intro!: returns_fret k)

lemma read_file_at_ok:
  assumes m: "mounted (sd_size d p) (sd_img d p) V a s" and path: "0x3A \<notin> set path"
    and f: "file_at (sd_img d p) V path data"
  shows "returns (sd_up d p) (read_file_at L path dest m0) s
    (\<lambda>res t. res = (length data, copy_in m0 dest data) \<and> mounted (sd_size d p) (sd_img d p) V a t)"
  unfolding read_file_at_def
  by (rule file_reading [OF m path f], rule file_read_end) simp_all

lemma read_file_alloc_ok:
  assumes m: "mounted (sd_size d p) (sd_img d p) V a s" and path: "0x3A \<notin> set path"
    and f: "file_at (sd_img d p) V path data"
  shows "returns (sd_up d p) (read_file_alloc L path) s
    (\<lambda>res t. takeWhile (\<lambda>c. c \<noteq> 0) res = takeWhile (\<lambda>c. c \<noteq> 0) data
       \<and> mounted (sd_size d p) (sd_img d p) V a t)"
proof -
  have tw: "takeWhile (\<lambda>c. c \<noteq> 0) (data @ drop (length data) (take (length data) xs) @ [0])
      = takeWhile (\<lambda>c. c \<noteq> 0) data" for xs
    by (subst drop_all) (simp_all, induction data, simp_all)
  show ?thesis
    unfolding read_file_alloc_def Let_def
    apply (rule file_reading [OF m path f])
    apply (rule file_read_end, assumption+)
    by (simp only: opened_on_size tw simp_thms)
qed

text \<open>A file with a device tree, and the nodes that the loader looks for in it.\<close>

definition dtb_file :: "octets \<Rightarrow> fdt_tree \<Rightarrow> bool" where
  "dtb_file dtb t \<longleftrightarrow> fdt_holds (blob_of dtb) (flat t @ [T_END])
     \<and> fdt_totalsize (blob_of dtb) \<le> int (length dtb)
     \<and> (case fdt_num_mem_rsv (blob_of dtb) of
          None \<Rightarrow> False
        | Some n \<Rightarrow> fdt_off_mem_rsvmap (blob_of dtb) + (n + 1) * 16 \<le> fdt_off_dt_struct (blob_of dtb))"

definition linux_nodes :: "fdt_tree \<Rightarrow> octets \<Rightarrow> bool" where
  "linux_nodes t target \<longleftrightarrow>
     (case subtree (components (ascii ''/aliases'')) t of
        None \<Rightarrow> False
      | Some (Node n ps ks) \<Rightarrow> map_of ps (ascii ''ethernet0'') = Some ((0x2f # target) @ [0]))
     \<and> 0 \<notin> set target
     \<and> list_all (\<lambda>p. subtree (components p) t \<noteq> None)
         [0x2f # target, ascii ''/system'', ascii ''/chosen'', ascii ''/memory'', ascii ''/soc'']"

lemma patch_file:
  assumes f: "dtb_file dtb t" and nodes: "linux_nodes t target"
    and sz: "int (length dtb) + 4096 < 2 ^ 31"
    and cost: "edits_cost (linux_edits L (components (0x2f # target)) cmdline start isz)
      \<le> slack (blob_of dtb) + (int (length dtb) + 4096 - fdt_totalsize (blob_of dtb))"
  obtains m' k where
    "patch_fdt L (length dtb) cmdline start isz (copy_in m DTB_LOAD_ADDRESS dtb) = Some (Inr m')"
    "dtb_state (copy_in m DTB_LOAD_ADDRESS dtb) m'
      (edited (linux_edits L (components (0x2f # target)) cmdline start isz) t) k (int (length dtb) + 4096)"
proof -
  let ?b = "blob_of dtb" and ?m = "copy_in m DTB_LOAD_ADDRESS dtb"
  let ?v = "view_at ?m DTB_LOAD_ADDRESS" and ?n = "int (length dtb) + 4096"
  obtain n where n: "fdt_num_mem_rsv ?b = Some n"
    "fdt_off_mem_rsvmap ?b + (n + 1) * 16 \<le> fdt_off_dt_struct ?b"
    using f by (auto simp: dtb_file_def split: option.splits)
  have h: "fdt_holds ?b (flat t @ [T_END])" and tot: "fdt_totalsize ?b \<le> int (length dtb)"
    using f by (simp_all add: dtb_file_def)
  have eq: "?v a = ?b a" if "0 \<le> a" "a < int (length dtb)" for a
    using that by (simp add: view_at_def copy_in_def blob_of_def)
  note c = fdt_holds_cong [OF h, of ?v]
  have v: "fdt_holds ?v (flat t @ [T_END])" "fdt_totalsize ?v = fdt_totalsize ?b" "slack ?v = slack ?b"
    "fdt_off_mem_rsvmap ?v = fdt_off_mem_rsvmap ?b" "fdt_off_dt_struct ?v = fdt_off_dt_struct ?b"
    by (rule c, rule eq; use tot in simp)+
  have st: "fdt_off_dt_struct ?b \<le> int (length dtb)" "40 \<le> fdt_off_mem_rsvmap ?b"
    using h tot fdt_header_bounds [of ?b] by (simp_all add: fdt_holds_def fdt_layout_def)
  have nv: "fdt_num_mem_rsv ?v = Some n" "0 \<le> n"
    by (rule num_mem_rsv_cong [OF n(1) v(4)], rule eq; use n(2) st in simp)+
  obtain m1 where m1: "fdt_open_into ?m DTB_LOAD_ADDRESS DTB_LOAD_ADDRESS ?n = Some (0, m1)"
    "fdt_holds (view_at m1 DTB_LOAD_ADDRESS) (flat t @ [T_END])"
    "fdt_totalsize (view_at m1 DTB_LOAD_ADDRESS) = ?n"
    "slack (view_at m1 DTB_LOAD_ADDRESS) = slack ?b + (?n - fdt_totalsize ?b)"
    "\<And>a. a < DTB_LOAD_ADDRESS \<or> DTB_LOAD_ADDRESS + 40 \<le> a \<Longrightarrow> m1 a = ?m a"
    by (rule open_into_in_place [OF v(1) nv(1,2), of ?n]) (use n(2) v tot sz in simp_all)
  have d: "dtb_state ?m m1 t (slack ?b + (?n - fdt_totalsize ?b)) ?n"
    using m1 by (auto simp: dtb_state_def)
  have cint: "c_int ?n = ?n"
    using sz by (simp add: c_int_small)
  obtain an aps aks where al: "subtree (components (ascii ''/aliases'')) t = Some (Node an aps aks)"
    "map_of aps (ascii ''ethernet0'') = Some ((0x2f # target) @ [0])"
    using nodes by (auto simp: linux_nodes_def split: option.splits fdt_tree.splits)
  show ?thesis
    by (rule patch_steps [OF d check_header_holds [OF v(1)] _ al, where sz = "length dtb" and L = L
          and cmdline = cmdline and start = start and isz = isz])
      (use m1(1) cint nodes cost that in \<open>simp_all add: linux_nodes_def\<close>)
qed

lemma seg_copy_in: "seg (copy_in m p xs) p (length xs) = xs"
  by (simp add: seg_eq_iff copy_in_inside)

lemma run_fdt_run: "runs P (run_fdt (Some (Inr x))) (\<lambda>y b. y = x \<and> P b)"
  by (simp add: runs_def run_fdt_def)

lemma plain_names: "0x3A \<notin> set (ascii ''zImage'')" "0x3A \<notin> set (ascii ''initrd'')"
  "0x3A \<notin> set (ascii ''cmdline.txt'')" "0x3A \<notin> set (ascii (detect_model_dtb c))"
  by (simp_all add: ascii_def detect_model_dtb_def)

text \<open>The files that the loader reads.\<close>

definition linux_files :: "loader_env \<Rightarrow> octets \<Rightarrow> octets \<Rightarrow> octets \<Rightarrow> octets \<Rightarrow> (octets \<times> octets) list" where
  "linux_files L zimage initrd cmdline dtb =
     [(ascii ''zImage'', zimage), (ascii ''initrd'', initrd), (ascii ''cmdline.txt'', cmdline),
      (ascii (detect_model_dtb (arm_midr L)), dtb)]"

text \<open>The memory after the edits still has what was loaded below the tree.\<close>

lemma loaded_images:
  assumes d: "dtb_state (copy_in m2 DTB_LOAD_ADDRESS dtb) m4 t k n"
    and m2: "m2 = copy_in (copy_in m KERNEL_LOAD_ADDRESS zimage) INITRD_LOAD_ADDRESS initrd"
    and zsz: "int (length zimage) \<le> INITRD_LOAD_ADDRESS - KERNEL_LOAD_ADDRESS"
    and isz: "int (length initrd) \<le> DTB_LOAD_ADDRESS - INITRD_LOAD_ADDRESS"
  shows "seg m4 0x2000000 (length zimage) = zimage" "seg m4 0x4000000 (length initrd) = initrd"
proof -
  let ?m1 = "copy_in m KERNEL_LOAD_ADDRESS zimage"
  have out: "m4 a = m2 a" if "a < DTB_LOAD_ADDRESS" for a
    using d that by (simp add: dtb_state_def copy_in_outside)
  have "seg m4 KERNEL_LOAD_ADDRESS (length zimage) = seg ?m1 KERNEL_LOAD_ADDRESS (length zimage)"
  proof (rule seg_cong)
    fix i assume "i < length zimage"
    then have "KERNEL_LOAD_ADDRESS + int i < INITRD_LOAD_ADDRESS" using zsz by simp
    then show "m4 (KERNEL_LOAD_ADDRESS + int i) = ?m1 (KERNEL_LOAD_ADDRESS + int i)"
      using out [of "KERNEL_LOAD_ADDRESS + int i"]
      by (simp add: m2 copy_in_outside INITRD_LOAD_ADDRESS_def DTB_LOAD_ADDRESS_def)
  qed
  then show "seg m4 0x2000000 (length zimage) = zimage"
    by (simp add: seg_copy_in) (simp add: KERNEL_LOAD_ADDRESS_def)
  have "seg m4 INITRD_LOAD_ADDRESS (length initrd) = seg m2 INITRD_LOAD_ADDRESS (length initrd)"
    by (rule seg_cong, rule out) (use isz in simp)
  then show "seg m4 0x4000000 (length initrd) = initrd"
    unfolding m2 by (simp add: seg_copy_in) (simp add: INITRD_LOAD_ADDRESS_def)
qed

text \<open>The end of the constructor: the card is stopped, and nothing is read any more.\<close>

lemma sd_up_stops: "runs (sd_up d p D) (stop_driver (mmc D)) (\<lambda>_ _. True)"
  by (rule runs_pre [OF sd_stops [of d]]) (simp add: partition_up_def)

lemma sd_whenever_logf: "returns (sd_up d p) (flift (whenever c logf)) s (\<lambda>_ t. True \<and> t = s)"
  by (rule flift_ok [OF sd_up_quiet]) (simp add: whenever_def quiet_logf runs_ret)

lemma enter_ok:
  assumes "Q \<lparr>entry_pc = pc, entry_r0 = 0, entry_r1 = NOT 0, entry_r2 = fdt, entry_mem = m, entry_cp15 = cp\<rparr>"
  shows "runs (sd_up d p (dsk s)) (fbind teardown_hardware (\<lambda>_. flift (run_linux pc fdt m cp)) s) (\<lambda>(e, t) _. Q e)"
proof -
  have stop: "runs (sd_up d p (dsk s)) (teardown_hardware s) (\<lambda>_ _. True)"
    unfolding teardown_hardware_def get_sdhost_device_def option.case bind_simps
    by (rule runs_bind [OF sd_up_stops]) (simp add: runs_ret)
  have "runs (\<lambda>_. True) (run_linux pc fdt m cp) (\<lambda>e _. Q e)"
    unfolding run_linux_def
    by (rule runs_bind [where R = "\<lambda>_ _. True"])
      (use assms in \<open>simp_all add: runs_def logf_def peek_def bind_def rd_run ret_run\<close>)
  then have "runs (\<lambda>_. True) (flift (run_linux pc fdt m cp) t) (\<lambda>(e, t) _. Q e)" for t
    unfolding flift_def by (rule runs_bind) (auto intro: runs_conj simp: runs_def ret_run)
  then show ?thesis
    unfolding fbind_def by (intro runs_bind [OF stop]) (simp add: split_def)
qed

lemma load_kernel_ok:
  assumes "mounted (sd_size d p) (sd_img d p) V a s" and "file_at (sd_img d p) V (ascii ''zImage'') data"
  shows "returns (sd_up d p) (load_kernel L m) s (\<lambda>res t. mounted (sd_size d p) (sd_img d p) V a t
    \<and> res = (KERNEL_LOAD_ADDRESS, copy_in m KERNEL_LOAD_ADDRESS data))"
  unfolding load_kernel_def
  apply (rule returns_bind [OF read_file_at_ok [OF assms(1) plain_names(1) assms(2)]], clarify)
  apply (rule returns_bind [OF sd_logf], clarify)
  by (auto intro!: returns_fret)

lemma load_initrd_ok:
  assumes "mounted (sd_size d p) (sd_img d p) V a s" and "file_at (sd_img d p) V (ascii ''initrd'') data"
  shows "returns (sd_up d p) (load_initrd L m) s (\<lambda>res t. mounted (sd_size d p) (sd_img d p) V a t
    \<and> res = (INITRD_LOAD_ADDRESS, length data, copy_in m INITRD_LOAD_ADDRESS data))"
  unfolding load_initrd_def
  apply (rule returns_bind [OF read_file_at_ok [OF assms(1) plain_names(2) assms(2)]], clarify)
  by (auto intro!: returns_fret)

lemma load_fdt_ok:
  assumes "mounted (sd_size d p) (sd_img d p) V a s" and "0x3A \<notin> set name" "file_at (sd_img d p) V name data"
    and patch: "patch_fdt L (length data) cmdline start sz (copy_in m DTB_LOAD_ADDRESS data) = Some (Inr m')"
  shows "returns (sd_up d p) (load_fdt L name cmdline start sz m) s
    (\<lambda>res t. mounted (sd_size d p) (sd_img d p) V a t \<and> res = (DTB_LOAD_ADDRESS, m'))"
proof -
  have run: "returns (sd_up d p) (flift (run_fdt (Some (Inr m')))) t (\<lambda>y u. y = m' \<and> u = t)" for t
    by (rule flift_ok) (rule run_fdt_run)
  show ?thesis
    unfolding load_fdt_def
    apply (rule returns_bind [OF read_file_at_ok [OF assms(1-3)]], clarify)
    apply (rule returns_bind [OF sd_logf], clarify)
    unfolding patch
    apply (rule returns_bind [OF run], clarify)
    apply (rule returns_bind [OF sd_logf], clarify)
    by (auto intro!: returns_fret)
qed

lemma loader_enters:
  assumes vol: "boot_volume (sd_img d p) (sd_size d p) (linux_files L zimage initrd cmdline dtb)"
    and s: "length (FatFs s) = 1" "boot_fs L \<noteq> 0"
    and patch: "patch_fdt L (length dtb) (takeWhile (\<lambda>c. c \<noteq> 0) cmdline) 0 (length initrd)
      (copy_in (copy_in (copy_in m KERNEL_LOAD_ADDRESS zimage) INITRD_LOAD_ADDRESS initrd) DTB_LOAD_ADDRESS dtb)
      = Some (Inr m')"
    and Q: "Q \<lparr>entry_pc = KERNEL_LOAD_ADDRESS, entry_r0 = 0, entry_r1 = NOT 0, entry_r2 = DTB_LOAD_ADDRESS,
      entry_mem = m', entry_cp15 = mmu_off (arm_midr L) @ [Disable_icache]\<rparr>"
  shows "runs (sd_up d p (dsk s)) (LoaderImpl L m s) (\<lambda>(e, t) _. Q e)"
proof -
  have w: "bpb_ok (sd_img d p 0) (sd_size d p)"
    using vol by (simp add: boot_volume_def)
  show ?thesis
    unfolding LoaderImpl_def Let_def
    apply (rule returns_runs [OF find_and_mount_ok [OF w s]])
    unfolding boot_mounted_def
    apply (elim exE conjE)
    subgoal premises v for x t V
    proof -
      have f: "file_at (sd_img d p) V (ascii ''zImage'') zimage" "file_at (sd_img d p) V (ascii ''initrd'') initrd"
        "file_at (sd_img d p) V (ascii ''cmdline.txt'') cmdline"
        "file_at (sd_img d p) V (ascii (detect_model_dtb (arm_midr L))) dtb"
        using vol v(2) by (auto simp: boot_volume_def linux_files_def)
      show ?thesis
        apply (rule returns_runs [OF load_kernel_ok [OF v(1) f(1)]], clarify)
        apply (rule returns_runs [OF load_initrd_ok [OF _ f(2)]], assumption, clarify)
        apply (rule returns_runs [OF read_file_alloc_ok [OF _ plain_names(3) f(3)]], assumption, elim conjE)
        apply (rule returns_runs [OF sd_logf], elim conjE, hypsubst)
        apply (rule returns_runs [OF sd_whenever_logf], elim conjE, hypsubst)
        subgoal premises u
          apply (simp only: u(3))
          apply (rule returns_runs [OF load_fdt_ok [OF u(4) plain_names(4) f(4) patch]], clarify)
          by (rule enter_ok [where Q = Q, OF Q])
        done
    qed
    done
qed

text \<open>A cold start: the working card, its boot record and the boot partition in it.\<close>

lemma start_loader_enters:
  assumes card: "well_formed d" "csd_capacity (card_csd d) = Some (bl, cap)" "fault d AND SDHSTS_ERROR_MASK = 0"
    and rec: "validate_signature (mbr_view (sd_content d 0))" "length fresh = 128"
      "p = mbr_part (mbr_view (sd_content d 0)) ! 0" "unat (part_start p) \<le> sd_sectors d"
      "part_typ p \<in> {MBR_FAT32_INT13, MBR_FAT16_INT13, MBR_FAT32, MBR_FAT16}"
    and run: "\<And>D. runs (sd_up d p (dsk (s\<lparr>dsk := D\<rparr>))) (LoaderImpl L m (s\<lparr>dsk := D\<rparr>)) Q"
  shows "runs (plugged d) (start_loader fresh h L m s) Q"
proof -
  have nonempty: "0 < sd_sectors d"
    by (simp add: sd_sectors_def)
  have init: "runs (plugged d) (sdhost_init h) (sd_ready d)"
    by (rule runs_post [OF sdhost_started [OF card]]) simp
  show ?thesis
    unfolding start_loader_def
    apply (rule runs_bind [OF init], rule runs_bind [OF sd.read_mbr_ok [OF nonempty rec(1,2)]])
    subgoal for _ dsk
      by (rule runs_pre [OF run [of dsk]]) (use rec in \<open>auto simp: partition_up_def\<close>)
    done
qed

text \<open>C1: From a cold start with a working SD card whose first partition is a FAT volume with the
  four files, the drivers, the partition layer, FatFs, the device tree library and the loader
  together enter Linux: the loader jumps to the kernel at 32 MB with 0 and the bitwise complement
  of 0 in the first registers and the device tree's address in the third, kernel and ramdisk are
  in memory as the files hold them, and the device tree holds the tree of the file with the eight
  properties set. The ramdisk's address in it is 0, although it was loaded at 64 MB.\<close>
theorem loader_enters_linux:
  assumes "well_formed d" "csd_capacity (card_csd d) = Some (bl, cap)" "fault d AND SDHSTS_ERROR_MASK = 0"
    and "validate_signature (mbr_view (sd_content d 0))" "length fresh = 128"
    and "p = mbr_part (mbr_view (sd_content d 0)) ! 0" "unat (part_start p) \<le> sd_sectors d"
    and "part_typ p \<in> {MBR_FAT32_INT13, MBR_FAT16_INT13, MBR_FAT32, MBR_FAT16}"
    and "boot_volume (sd_img d p) (sd_size d p) (linux_files L zimage initrd cmdline dtb)"
    and "length (FatFs s) = 1" "boot_fs L \<noteq> 0"
    and "int (length zimage) \<le> INITRD_LOAD_ADDRESS - KERNEL_LOAD_ADDRESS"
    and "int (length initrd) \<le> DTB_LOAD_ADDRESS - INITRD_LOAD_ADDRESS"
    and "int (length dtb) + 4096 < 2 ^ 31" "dtb_file dtb t" "linux_nodes t target"
    and "edits_cost (linux_edits L (components (0x2f # target)) (takeWhile (\<lambda>c. c \<noteq> 0) cmdline) 0 (length initrd))
      \<le> slack (blob_of dtb) + (int (length dtb) + 4096 - fdt_totalsize (blob_of dtb))"
  shows "runs (plugged d) (start_loader fresh h L m s) (\<lambda>(e, _) _.
      entry_pc e = 0x2000000 \<and> entry_r0 e = 0 \<and> entry_r1 e = 0xFFFFFFFF \<and> entry_r2 e = DTB_LOAD_ADDRESS
    \<and> seg (entry_mem e) 0x2000000 (length zimage) = zimage
    \<and> seg (entry_mem e) 0x4000000 (length initrd) = initrd
    \<and> fdt_holds (view_at (entry_mem e) DTB_LOAD_ADDRESS)
        (flat (edited (linux_edits L (components (0x2f # target)) (takeWhile (\<lambda>c. c \<noteq> 0) cmdline) 0 (length initrd)) t)
          @ [T_END]))"
proof -
  let ?cmd = "takeWhile (\<lambda>c. c \<noteq> 0) cmdline"
  let ?m2 = "copy_in (copy_in m KERNEL_LOAD_ADDRESS zimage) INITRD_LOAD_ADDRESS initrd"
  let ?es = "linux_edits L (components (0x2f # target)) ?cmd 0 (length initrd)"
  obtain m4 k where m4: "patch_fdt L (length dtb) ?cmd 0 (length initrd) (copy_in ?m2 DTB_LOAD_ADDRESS dtb) = Some (Inr m4)"
    "dtb_state (copy_in ?m2 DTB_LOAD_ADDRESS dtb) m4 (edited ?es t) k (int (length dtb) + 4096)"
    by (rule patch_file [OF assms(15,16,14,17), of ?m2])
  note images = loaded_images [OF m4(2) refl assms(12,13)]
  have "NOT 0 = (0xFFFFFFFF :: u32)" by simp
  then show ?thesis
    using images m4(2) assms(10,11)
    by (intro start_loader_enters [OF assms(1-8)] loader_enters [OF assms(9) _ _ m4(1)])
      (simp_all add: dtb_state_def KERNEL_LOAD_ADDRESS_def)
qed

section \<open>An example run\<close>

definition sample_env :: loader_env where
  "sample_env = \<lparr>boot_fs = 0x8000,
     stack_fil = \<lparr>fil_obj = \<lparr>obj_fs = 0, obj_id = 0, obj_attr = 0, sclust = 0, objsize = 0\<rparr>, fil_flag = 0,
       fil_err = FR_OK, fptr = 0, fil_clust = 0, fil_sect = 0, fil_buf = []\<rparr>,
     heap_bytes = \<lambda>n. replicate n 0, arm_midr = 0x410FC075, fw_serial = 0x12345678, fw_revision = 0xA21041\<rparr>"

lemma sample_boot_volume:
  "boot_volume (sd_img sample_card example_partition) (sd_size sample_card example_partition)
     (linux_files sample_env [1, 2, 3, 4] [5, 6] (ascii ''rw'') sample_bytes)"
proof -
  have dtb: "detect_model_dtb (arm_midr sample_env) = ''rpi2.dtb''"
    by (simp add: sample_env_def detect_model_dtb_def)
  show ?thesis
    unfolding boot_volume_def linux_files_def dtb
    using sample_card_bpb sample_files by (auto simp: sample_card_img sample_img_simps(1))
qed

theorem loader_enters_linux_witness:
  "runs (plugged sample_card) (start_loader (replicate 128 0) example_host sample_env (\<lambda>_. 0) sample_sys) (\<lambda>(e, _) _.
      entry_pc e = 0x2000000 \<and> entry_r0 e = 0 \<and> entry_r1 e = 0xFFFFFFFF \<and> entry_r2 e = DTB_LOAD_ADDRESS
    \<and> seg (entry_mem e) 0x2000000 (length ([1, 2, 3, 4] :: octets)) = [1, 2, 3, 4]
    \<and> seg (entry_mem e) 0x4000000 (length ([5, 6] :: octets)) = [5, 6]
    \<and> fdt_holds (view_at (entry_mem e) DTB_LOAD_ADDRESS)
        (flat (edited (linux_edits sample_env (components (0x2f # ascii ''e''))
            (takeWhile (\<lambda>c. c \<noteq> 0) (ascii ''rw'')) 0 (length ([5, 6] :: octets))) sample_tree)
          @ [T_END]))"
proof (rule loader_enters_linux [where p = example_partition])
  show "well_formed sample_card" "csd_capacity (card_csd sample_card) = Some (512, 524288)"
    "fault sample_card AND SDHSTS_ERROR_MASK = 0" "validate_signature (mbr_view (sd_content sample_card 0))"
    "example_partition = mbr_part (mbr_view (sd_content sample_card 0)) ! 0"
    "unat (part_start example_partition) \<le> sd_sectors sample_card"
    "part_typ example_partition \<in> {MBR_FAT32_INT13, MBR_FAT16_INT13, MBR_FAT32, MBR_FAT16}"
    by (rule sample_card_ok)+
  show "boot_volume (sd_img sample_card example_partition) (sd_size sample_card example_partition)
     (linux_files sample_env [1, 2, 3, 4] [5, 6] (ascii ''rw'') sample_bytes)"
    by (rule sample_boot_volume)
  show "length (FatFs sample_sys) = 1" "boot_fs sample_env \<noteq> 0"
    by (simp_all add: sample_sys_def sample_env_def)
  show "dtb_file sample_bytes sample_tree"
    unfolding dtb_file_def fdt_num_mem_rsv_def
    by (subst num_mem_rsv_loop.simps) code_simp
  show "linux_nodes sample_tree (ascii ''e'')"
    by code_simp
  show "edits_cost (linux_edits sample_env (components (0x2f # ascii ''e''))
      (takeWhile (\<lambda>c. c \<noteq> 0) (ascii ''rw'')) 0 (length ([5, 6] :: octets)))
    \<le> slack (blob_of sample_bytes) + (int (length sample_bytes) + 4096 - fdt_totalsize (blob_of sample_bytes))"
    unfolding linux_edits_def sample_env_def loader_env.select_convs by code_simp
qed (simp, code_simp+)

section \<open>Words in network order\<close>

lemma byte_masks: "0x000000ff = (mask 8 :: u32)" "0x0000ff00 = (push_bit 8 (mask 8) :: u32)"
    "0x00ff0000 = (push_bit 16 (mask 8) :: u32)" "0xff000000 = (push_bit 24 (mask 8) :: u32)"
    by code_simp+

lemma bit_htonl: "n < 8 \<Longrightarrow> bit (htonl w) n = bit w (24 + n)" 
  "n < 8 \<Longrightarrow> bit (htonl w) (8 + n) = bit w (16 + n)"
  "n < 8 \<Longrightarrow> bit (htonl w) (16 + n) = bit w (8 + n)"
  "n < 8 \<Longrightarrow> bit (htonl w) (24 + n) = bit w n"
  unfolding htonl_def byte_masks
  by (simp_all add: bit_simps)

lemma le_bytes_htonl: "le_bytes (htonl w) = be_bytes (uint w)"
proof -
  have d: "uint w div 2 ^ n = uint (drop_bit n w)" for n
    by (simp only: uint_nat unat_drop_bit_div of_nat_div of_nat_power of_nat_numeral)
  have "ucast (htonl w) = (ucast (drop_bit 24 w) :: u8)"
    "ucast (drop_bit 8 (htonl w)) = (ucast (drop_bit 16 w) :: u8)"
    "ucast (drop_bit 16 (htonl w)) = (ucast (drop_bit 8 w) :: u8)"
    "ucast (drop_bit 24 (htonl w)) = (ucast w :: u8)"
    by (rule bit_word_eqI; simp add: bit_simps bit_htonl)+
  moreover have "word_of_int (uint (x :: u32)) = (ucast x :: u8)" for x
    by (simp only: ucast_eq)
  ultimately show ?thesis
    by (simp only: le_bytes_def be_bytes_def d)
qed
lemma be32_copy_in_cong:
  "0 \<le> i \<Longrightarrow> i + 4 \<le> int (length xs) \<Longrightarrow> be32 (copy_in b p xs) (p + i) = be32 (\<lambda>a. xs ! nat a) i"
  by (rule be32_cong) (simp add: copy_in_def)

lemma nth_net_words:
  "i < length ws \<Longrightarrow> j < 4 \<Longrightarrow> net_words ws ! (4 * i + j) = be_bytes (uint (ws ! i)) ! j"
proof (induction ws arbitrary: i)
  case (Cons w ws)
  then show ?case
    by (cases i) (simp_all add: net_words_def le_bytes_htonl nth_append)
qed simp

lemma length_net_words: "length (net_words ws) = 4 * length ws"
  by (induction ws) (simp_all add: net_words_def le_bytes_htonl)

text \<open>The words that the loader stores through \<^verbatim>\<open>htonl\<close> on the little-endian ARM, the
  revision, the ramdisk's bounds, the memory map and the ranges, read back as cells of the device
  tree in order.\<close>
theorem net_words_read:
  assumes "i < length ws"
  shows "be32 (copy_in b p (net_words ws)) (p + 4 * int i) = uint (ws ! i)"
proof -
  have "be32 (copy_in b p (net_words ws)) (p + 4 * int i) = be32 (\<lambda>a. net_words ws ! nat a) (4 * int i)"
    by (rule be32_copy_in_cong) (use assms in \<open>simp_all add: length_net_words\<close>)
  also have "\<dots> = be32 (put32 b 0 (uint (ws ! i))) 0"
  proof (rule be32_cong)
    fix k :: int
    assume k: "0 \<le> k" "k < 4"
    then have "nat (4 * int i + k) = 4 * i + nat k" by simp
    then show "net_words ws ! nat (4 * int i + k) = put32 b 0 (uint (ws ! i)) (0 + k)"
      using nth_net_words [OF assms, of "nat k"] k by (simp add: put32_def copy_in_def)
  qed
  also have "\<dots> = uint (ws ! i)"
    unfolding be32_put32 using uint_bounded [of "ws ! i"] by simp
  finally show ?thesis .
qed

theorem net_words_read_witness:
  "be32 (copy_in (\<lambda>_. 0) 100 (net_words memmap)) (100 + 4 * int 3) = uint (memmap ! 3)"
  by (rule net_words_read) code_simp

end
