(* ===== verification/Tlsf.thy ===== *)
theory Tlsf
  imports Prelude "HOL-Library.Monad_Syntax"
begin

text \<open>
  The heap of the chainloader, \<^verbatim>\<open>src/tlsf/tlsf.c\<close>, as its Makefile compiles it: 32-bit
  pointers, no locks, no statistics, no growing by \<^verbatim>\<open>mmap\<close> or \<^verbatim>\<open>sbrk\<close>, no \<^verbatim>\<open>realloc\<close>.
  Addresses are natural numbers, the null pointer is 0. The memory of the pool is one map for each
  field of the structures laid over it; the control structure at the front of the pool is the
  record itself. An operation is \<open>None\<close> when the code indexes the arrays of the control structure
  out of bounds, which C leaves undefined, or does not return.
\<close>

section \<open>Parameters\<close>

definition BLOCK_ALIGN :: u32 where "BLOCK_ALIGN = 4 * 2"
definition MEM_ALIGN :: u32 where "MEM_ALIGN = BLOCK_ALIGN - 1"
definition MAX_LOG2_SLI :: int where "MAX_LOG2_SLI = 5"
definition MAX_SLI :: int where "MAX_SLI = 2 ^ 5"
definition FLI_OFFSET :: int where "FLI_OFFSET = 6"
definition REAL_FLI :: int where "REAL_FLI = 30 - 6"
definition SMALL_BLOCK :: u32 where "SMALL_BLOCK = 128"
definition MIN_BLOCK_SIZE :: u32 where "MIN_BLOCK_SIZE = 8"
definition BHDR_OVERHEAD :: nat where "BHDR_OVERHEAD = 16 - 8"
definition TLSF_SIGNATURE :: u32 where "TLSF_SIGNATURE = 0x2A59FA59"
definition PTR_MASK :: u32 where "PTR_MASK = 4 - 1"
definition BLOCK_SIZE :: u32 where "BLOCK_SIZE = 0xFFFFFFFF - PTR_MASK"
definition FREE_BLOCK :: u32 where "FREE_BLOCK = 1"
definition PREV_FREE :: u32 where "PREV_FREE = 2"
definition PREV_STATE :: u32 where "PREV_STATE = 2"
definition sizeof_bhdr :: u32 where "sizeof_bhdr = 16"
definition sizeof_tlsf :: u32 where "sizeof_tlsf = 4 + 4 + 4 + 24 * 4 + 24 * 32 * 4"

definition ROUNDUP_SIZE :: "u32 \<Rightarrow> u32" where
  "ROUNDUP_SIZE r = (r + MEM_ALIGN) AND NOT MEM_ALIGN"

definition ROUNDDOWN_SIZE :: "u32 \<Rightarrow> u32" where
  "ROUNDDOWN_SIZE r = r AND NOT MEM_ALIGN"

section \<open>State\<close>

text \<open>
  The fields of \<^verbatim>\<open>tlsf_t\<close>, then those of \<^verbatim>\<open>bhdr_t\<close> by the address of the block and those of
  \<^verbatim>\<open>area_info_t\<close> by the address of the structure, and the bytes that callers see. The last is the
  static pointer \<^verbatim>\<open>mp\<close>.
\<close>

record pool =
  tlsf_signature :: u32
  area_head :: nat
  fl_bitmap :: u32
  sl_bitmap :: "int \<Rightarrow> u32"
  matrix :: "int \<Rightarrow> int \<Rightarrow> nat"
  prev_hdr :: "nat \<Rightarrow> nat"
  bsize :: "nat \<Rightarrow> u32"
  free_prev :: "nat \<Rightarrow> nat"
  free_next :: "nat \<Rightarrow> nat"
  ai_end :: "nat \<Rightarrow> nat"
  ai_next :: "nat \<Rightarrow> nat"
  bytes :: "nat \<Rightarrow> u8"
  mp :: nat

definition set_size :: "nat \<Rightarrow> u32 \<Rightarrow> pool \<Rightarrow> pool" where
  "set_size b v s = s\<lparr>bsize := (bsize s)(b := v)\<rparr>"

definition set_prev_hdr :: "nat \<Rightarrow> nat \<Rightarrow> pool \<Rightarrow> pool" where
  "set_prev_hdr b v s = s\<lparr>prev_hdr := (prev_hdr s)(b := v)\<rparr>"

definition set_free_prev :: "nat \<Rightarrow> nat \<Rightarrow> pool \<Rightarrow> pool" where
  "set_free_prev b v s = s\<lparr>free_prev := (free_prev s)(b := v)\<rparr>"

definition set_free_next :: "nat \<Rightarrow> nat \<Rightarrow> pool \<Rightarrow> pool" where
  "set_free_next b v s = s\<lparr>free_next := (free_next s)(b := v)\<rparr>"

definition set_head :: "int \<Rightarrow> int \<Rightarrow> nat \<Rightarrow> pool \<Rightarrow> pool" where
  "set_head fl sl v s = s\<lparr>matrix := (matrix s)(fl := (matrix s fl)(sl := v))\<rparr>"

definition buffer :: "nat \<Rightarrow> nat" where "buffer b = b + BHDR_OVERHEAD"

definition size_of :: "pool \<Rightarrow> nat \<Rightarrow> u32" where "size_of s b = bsize s b AND BLOCK_SIZE"

definition GET_NEXT_BLOCK :: "nat \<Rightarrow> u32 \<Rightarrow> nat" where "GET_NEXT_BLOCK addr r = addr + unat r"

definition next_block :: "pool \<Rightarrow> nat \<Rightarrow> nat" where
  "next_block s b = GET_NEXT_BLOCK (buffer b) (size_of s b)"

definition in_matrix :: "int \<Rightarrow> int \<Rightarrow> bool" where
  "in_matrix fl sl \<longleftrightarrow> 0 \<le> fl \<and> fl < REAL_FLI \<and> 0 \<le> sl \<and> sl < MAX_SLI"

section \<open>Bit search\<close>

definition table :: "int list" where
  "table = [-1, 0] @ replicate 2 1 @ replicate 4 2 @ replicate 8 3 @ replicate 16 4 @ replicate 32 5
     @ replicate 64 6 @ replicate 128 7"

definition ms_bit :: "u32 \<Rightarrow> int" where
  "ms_bit x =
     (let a = (if x \<le> 0xffff then (if x \<le> 0xff then 0 else 8) else (if x \<le> 0xffffff then 16 else 24))
      in table ! unat (drop_bit a x) + int a)"

definition ls_bit :: "u32 \<Rightarrow> int" where
  "ls_bit i =
     (let x = i AND - i;
          a = (if x \<le> 0xffff then (if x \<le> 0xff then 0 else 8) else (if x \<le> 0xffffff then 16 else 24))
      in table ! unat (drop_bit a x) + int a)"

definition tlsf_set_bit :: "int \<Rightarrow> u32 \<Rightarrow> u32" where
  "tlsf_set_bit nr w = w OR push_bit (nat nr) 1"

definition tlsf_clear_bit :: "int \<Rightarrow> u32 \<Rightarrow> u32" where
  "tlsf_clear_bit nr w = w AND NOT (push_bit (nat nr) 1)"

section \<open>Size classes\<close>

definition MAPPING_SEARCH :: "u32 \<Rightarrow> u32 \<times> int \<times> int" where
  "MAPPING_SEARCH r =
     (if r < SMALL_BLOCK then (r, 0, uint (r div 4))
      else let t = push_bit (nat (ms_bit r - MAX_LOG2_SLI)) 1 - 1;
               r = r + t;
               fl = ms_bit r;
               sl = uint (drop_bit (nat (fl - MAX_LOG2_SLI)) r) - MAX_SLI
           in (r AND NOT t, fl - FLI_OFFSET, sl))"

definition MAPPING_INSERT :: "u32 \<Rightarrow> int \<times> int" where
  "MAPPING_INSERT r =
     (if r < SMALL_BLOCK then (0, uint (r div 4))
      else let fl = ms_bit r;
               sl = uint (drop_bit (nat (fl - MAX_LOG2_SLI)) r) - MAX_SLI
           in (fl - FLI_OFFSET, sl))"

text \<open>The result is the block, null when there is none, and its class.\<close>

definition FIND_SUITABLE_BLOCK :: "pool \<Rightarrow> int \<Rightarrow> int \<Rightarrow> (nat \<times> int \<times> int) option" where
  "FIND_SUITABLE_BLOCK s fl sl =
     (if \<not> in_matrix fl sl then None
      else let tmp = sl_bitmap s fl AND push_bit (nat sl) (- 1)
           in if tmp \<noteq> 0
              then let sl = ls_bit tmp in Some (matrix s fl sl, fl, sl)
              else let fl = ls_bit (fl_bitmap s AND push_bit (nat (fl + 1)) (- 1))
                   in if fl > 0
                      then let sl = ls_bit (sl_bitmap s fl)
                           in if in_matrix fl sl then Some (matrix s fl sl, fl, sl) else None
                      else Some (0, fl, sl))"

section \<open>The free lists\<close>

definition clear_bits :: "int \<Rightarrow> int \<Rightarrow> pool \<Rightarrow> pool" where
  "clear_bits fl sl s =
     (let s = s\<lparr>sl_bitmap := (sl_bitmap s)(fl := tlsf_clear_bit sl (sl_bitmap s fl))\<rparr>
      in if sl_bitmap s fl = 0 then s\<lparr>fl_bitmap := tlsf_clear_bit fl (fl_bitmap s)\<rparr> else s)"

definition EXTRACT_BLOCK_HDR :: "nat \<Rightarrow> int \<Rightarrow> int \<Rightarrow> pool \<Rightarrow> pool option" where
  "EXTRACT_BLOCK_HDR b fl sl s =
     (if \<not> in_matrix fl sl then None
      else let s = set_head fl sl (free_next s b) s;
               s = (if matrix s fl sl \<noteq> 0 then set_free_prev (matrix s fl sl) 0 s
                    else clear_bits fl sl s)
           in Some (set_free_next b 0 (set_free_prev b 0 s)))"

definition EXTRACT_BLOCK :: "nat \<Rightarrow> int \<Rightarrow> int \<Rightarrow> pool \<Rightarrow> pool option" where
  "EXTRACT_BLOCK b fl sl s =
     (if \<not> in_matrix fl sl then None
      else let s = (if free_next s b \<noteq> 0 then set_free_prev (free_next s b) (free_prev s b) s else s);
               s = (if free_prev s b \<noteq> 0 then set_free_next (free_prev s b) (free_next s b) s else s);
               s = (if matrix s fl sl = b
                    then let s = set_head fl sl (free_next s b) s
                         in if matrix s fl sl = 0 then clear_bits fl sl s else s
                    else s)
           in Some (set_free_next b 0 (set_free_prev b 0 s)))"

definition INSERT_BLOCK :: "nat \<Rightarrow> int \<Rightarrow> int \<Rightarrow> pool \<Rightarrow> pool option" where
  "INSERT_BLOCK b fl sl s =
     (if \<not> in_matrix fl sl then None
      else let s = set_free_next b (matrix s fl sl) (set_free_prev b 0 s);
               s = (if matrix s fl sl \<noteq> 0 then set_free_prev (matrix s fl sl) b s else s);
               s = set_head fl sl b s;
               s = s\<lparr>sl_bitmap := (sl_bitmap s)(fl := tlsf_set_bit sl (sl_bitmap s fl))\<rparr>
           in Some (s\<lparr>fl_bitmap := tlsf_set_bit fl (fl_bitmap s)\<rparr>))"

section \<open>Allocation and release\<close>

text \<open>What \<^verbatim>\<open>malloc_ex\<close> does with the block found: a remainder that can hold a header is split off.\<close>

definition take_block :: "nat \<Rightarrow> u32 \<Rightarrow> pool \<Rightarrow> pool option" where
  "take_block b sz s = do {
     let next_b = next_block s b;
     let tmp_size = size_of s b - sz;
     if tmp_size \<ge> sizeof_bhdr
     then do {
       let tmp_size = tmp_size - of_nat BHDR_OVERHEAD;
       let b2 = GET_NEXT_BLOCK (buffer b) sz;
       let s = set_size b2 (tmp_size OR FREE_BLOCK) s;
       let s = set_prev_hdr next_b b2 s;
       let (fl, sl) = MAPPING_INSERT tmp_size;
       s \<leftarrow> INSERT_BLOCK b2 fl sl s;
       Some (set_size b (sz OR (bsize s b AND PREV_STATE)) s) }
     else do {
       let s = set_size next_b (bsize s next_b AND NOT PREV_FREE) s;
       Some (set_size b (bsize s b AND NOT FREE_BLOCK) s) } }"

definition malloc_ex :: "u32 \<Rightarrow> pool \<Rightarrow> (nat \<times> pool) option" where
  "malloc_ex size0 s =
     (let size1 = (if size0 < MIN_BLOCK_SIZE then MIN_BLOCK_SIZE else ROUNDUP_SIZE size0);
          (sz, fl, sl) = MAPPING_SEARCH size1
      in do {
        (b, fl, sl) \<leftarrow> FIND_SUITABLE_BLOCK s fl sl;
        if b = 0 then Some (0, s)
        else do {
          s \<leftarrow> EXTRACT_BLOCK_HDR b fl sl s;
          s \<leftarrow> take_block b sz s;
          Some (buffer b, s) } })"

text \<open>The three parts of \<^verbatim>\<open>free_ex\<close>: join the next block, join the previous one, enter the result.\<close>

definition merge_next :: "nat \<Rightarrow> pool \<Rightarrow> pool option" where
  "merge_next b s =
     (let tmp_b = next_block s b
      in if bsize s tmp_b AND FREE_BLOCK \<noteq> 0
         then do {
           let (fl, sl) = MAPPING_INSERT (size_of s tmp_b);
           s \<leftarrow> EXTRACT_BLOCK tmp_b fl sl s;
           Some (set_size b (bsize s b + (size_of s tmp_b + of_nat BHDR_OVERHEAD)) s) }
         else Some s)"

definition merge_prev :: "nat \<Rightarrow> pool \<Rightarrow> (nat \<times> pool) option" where
  "merge_prev b s =
     (if bsize s b AND PREV_FREE \<noteq> 0
      then do {
        let tmp_b = prev_hdr s b;
        let (fl, sl) = MAPPING_INSERT (size_of s tmp_b);
        s \<leftarrow> EXTRACT_BLOCK tmp_b fl sl s;
        Some (tmp_b, set_size tmp_b (bsize s tmp_b + (size_of s b + of_nat BHDR_OVERHEAD)) s) }
      else Some (b, s))"

definition enter_block :: "nat \<Rightarrow> pool \<Rightarrow> pool option" where
  "enter_block b s = do {
     let (fl, sl) = MAPPING_INSERT (size_of s b);
     s \<leftarrow> INSERT_BLOCK b fl sl s;
     let tmp_b = next_block s b;
     let s = set_size tmp_b (bsize s tmp_b OR PREV_FREE) s;
     Some (set_prev_hdr tmp_b b s) }"

definition free_ex :: "nat \<Rightarrow> pool \<Rightarrow> pool option" where
  "free_ex ptr s =
     (if ptr = 0 then Some s
      else do {
        let b = ptr - BHDR_OVERHEAD;
        let s = set_size b (bsize s b OR FREE_BLOCK) s;
        let s = set_free_next b 0 (set_free_prev b 0 s);
        s \<leftarrow> merge_next b s;
        (b, s) \<leftarrow> merge_prev b s;
        enter_block b s })"

definition memset_zero :: "nat \<Rightarrow> nat \<Rightarrow> (nat \<Rightarrow> 'a::zero) \<Rightarrow> nat \<Rightarrow> 'a" where
  "memset_zero p n m a = (if p \<le> a \<and> a < p + n then 0 else m a)"

definition calloc_ex :: "u32 \<Rightarrow> u32 \<Rightarrow> pool \<Rightarrow> (nat \<times> pool) option" where
  "calloc_ex nelem elem_size s =
     (if nelem \<le> 0 \<or> elem_size \<le> 0 then Some (0, s)
      else do {
        (ptr, s) \<leftarrow> malloc_ex (nelem * elem_size) s;
        if ptr = 0 then Some (0, s)
        else Some (ptr, s\<lparr>bytes := memset_zero ptr (unat (nelem * elem_size)) (bytes s)\<rparr>) })"

definition tlsf_malloc :: "u32 \<Rightarrow> pool \<Rightarrow> (nat \<times> pool) option" where
  "tlsf_malloc size0 s = malloc_ex size0 s"

definition tlsf_free :: "nat \<Rightarrow> pool \<Rightarrow> pool option" where
  "tlsf_free ptr s = free_ex ptr s"

definition tlsf_calloc :: "u32 \<Rightarrow> u32 \<Rightarrow> pool \<Rightarrow> (nat \<times> pool) option" where
  "tlsf_calloc nelem elem_size s = calloc_ex nelem elem_size s"

section \<open>Pools and areas\<close>

text \<open>
  \<^verbatim>\<open>process_area\<close> lays three blocks over an area: one that holds the area's information, one
  for the space and the sentinel.
\<close>

definition process_area :: "nat \<Rightarrow> u32 \<Rightarrow> pool \<Rightarrow> nat \<times> pool" where
  "process_area area sz s =
     (let ib = area;
          s = set_size ib (ROUNDUP_SIZE 8) s;
          b = next_block s ib;
          s = set_size b (ROUNDDOWN_SIZE (sz - 3 * of_nat BHDR_OVERHEAD - size_of s ib)) s;
          s = set_free_next b 0 (set_free_prev b 0 s);
          lb = next_block s b;
          s = set_prev_hdr lb b s;
          s = set_size lb (0 OR PREV_FREE) s;
          ai = buffer ib;
          s = s\<lparr>ai_next := (ai_next s)(ai := 0)\<rparr>
      in (ib, s\<lparr>ai_end := (ai_end s)(ai := lb)\<rparr>))"

definition init_memory_pool :: "u32 \<Rightarrow> nat \<Rightarrow> pool \<Rightarrow> (u32 \<times> pool) option" where
  "init_memory_pool mem_pool_size mem_pool s =
     (if mem_pool = 0 \<or> mem_pool_size = 0 \<or> mem_pool_size < sizeof_tlsf + of_nat BHDR_OVERHEAD * 8
      then Some (- 1, s)
      else if (of_nat mem_pool :: u32) AND PTR_MASK \<noteq> 0 then Some (- 1, s)
      else if tlsf_signature s = TLSF_SIGNATURE
      then let s = s\<lparr>mp := mem_pool\<rparr>; b = GET_NEXT_BLOCK (mp s) (ROUNDUP_SIZE sizeof_tlsf)
           in Some (size_of s b, s)
      else do {
        let s = s\<lparr>mp := mem_pool\<rparr>;
        let s = s\<lparr>area_head := 0, fl_bitmap := 0, sl_bitmap := \<lambda>_. 0, matrix := \<lambda>_ _. 0\<rparr>;
        let s = s\<lparr>tlsf_signature := TLSF_SIGNATURE\<rparr>;
        let (ib, s) = process_area (GET_NEXT_BLOCK mem_pool (ROUNDUP_SIZE sizeof_tlsf))
                        (ROUNDDOWN_SIZE (mem_pool_size - sizeof_tlsf)) s;
        let b = next_block s ib;
        s \<leftarrow> free_ex (buffer b) s;
        let s = s\<lparr>area_head := buffer ib\<rparr>;
        Some (size_of s b, s) })"

definition unlink_area :: "nat \<Rightarrow> nat \<Rightarrow> pool \<Rightarrow> pool" where
  "unlink_area ptr ptr_prev s =
     (if area_head s = ptr then s\<lparr>area_head := ai_next s ptr\<rparr>
      else s\<lparr>ai_next := (ai_next s)(ptr_prev := ai_next s ptr)\<rparr>)"

text \<open>The loop of \<^verbatim>\<open>add_new_area\<close> over the areas there are; the list may be circular.\<close>

partial_function (option) merge_areas ::
  "nat \<Rightarrow> nat \<Rightarrow> nat \<Rightarrow> nat \<Rightarrow> nat \<Rightarrow> pool \<Rightarrow> (nat \<times> nat \<times> nat \<times> pool) option" where
  "merge_areas ptr ptr_prev ib0 b0 lb0 s =
     (if ptr = 0 then Some (ib0, b0, lb0, s)
      else let ib1 = ptr - BHDR_OVERHEAD;
               b1 = next_block s ib1;
               lb1 = ai_end s ptr;
               rest = ai_next s ptr
           in if ib1 = lb0 + BHDR_OVERHEAD
              then let s = unlink_area ptr ptr_prev s;
                       s = set_size b0 (ROUNDDOWN_SIZE (size_of s b0 + size_of s ib1 + 2 * of_nat BHDR_OVERHEAD)) s;
                       s = set_prev_hdr b1 b0 s
                   in merge_areas rest ptr_prev ib0 b0 lb1 s
              else if buffer lb1 = ib0
              then let s = unlink_area ptr ptr_prev s;
                       s = set_size lb1 (ROUNDDOWN_SIZE (size_of s b0 + size_of s ib0 + 2 * of_nat BHDR_OVERHEAD)
                             OR (bsize s lb1 AND PREV_STATE)) s;
                       s = set_prev_hdr (next_block s lb1) lb1 s
                   in merge_areas rest ptr_prev ib1 lb1 lb0 s
              else merge_areas rest ptr ib0 b0 lb0 s)"

definition add_new_area :: "nat \<Rightarrow> u32 \<Rightarrow> pool \<Rightarrow> (u32 \<times> pool) option" where
  "add_new_area area area_size s = do {
     let n = unat area_size;
     let s = s\<lparr>prev_hdr := memset_zero area n (prev_hdr s), bsize := memset_zero area n (bsize s),
               free_prev := memset_zero area n (free_prev s), free_next := memset_zero area n (free_next s),
               ai_end := memset_zero area n (ai_end s), ai_next := memset_zero area n (ai_next s),
               bytes := memset_zero area n (bytes s)\<rparr>;
     let ptr = area_head s;
     let (ib0, s) = process_area area area_size s;
     let b0 = next_block s ib0;
     let lb0 = next_block s b0;
     (ib0, b0, lb0, s) \<leftarrow> merge_areas ptr 0 ib0 b0 lb0 s;
     let ai = buffer ib0;
     let s = s\<lparr>ai_next := (ai_next s)(ai := area_head s)\<rparr>;
     let s = s\<lparr>ai_end := (ai_end s)(ai := lb0)\<rparr>;
     let s = s\<lparr>area_head := ai\<rparr>;
     s \<leftarrow> free_ex (buffer b0) s;
     Some (size_of s b0, s) }"

definition get_used_size :: "pool \<Rightarrow> u32" where "get_used_size s = 0"

definition get_max_size :: "pool \<Rightarrow> u32" where "get_max_size s = 0"

definition destroy_memory_pool :: "pool \<Rightarrow> pool" where
  "destroy_memory_pool s = s\<lparr>tlsf_signature := 0\<rparr>"

end
