(* ===== verification/TlsfBits.thy ===== *)
theory TlsfBits
  imports Tlsf
begin

text \<open>
  The arithmetic under the allocator: what the table-driven bit searches return, the flags in the
  low bits of a size word, and the order of the size classes. \<open>key n\<close> numbers the classes
  \<open>(fl, sl)\<close> as \<open>32 * fl + sl\<close>; it grows with the size, so the first class that
  \<^verbatim>\<open>MAPPING_SEARCH\<close> looks in holds no block smaller than the size it returns.
\<close>

section \<open>Bit searches\<close>

lemma power_interval_unique:
  fixes n :: nat
  assumes "2 ^ j \<le> n" "n < 2 ^ Suc j" "2 ^ k \<le> n" "n < 2 ^ Suc k"
  shows "j = k"
proof -
  have "(2::nat) ^ j < 2 ^ Suc k" "(2::nat) ^ k < 2 ^ Suc j"
    using assms by linarith+
  then have "j < Suc k" "k < Suc j" by (auto intro: power_less_imp_less_exp [of "2::nat"] simp del: power_Suc)
  then show ?thesis by simp
qed

lemma table_bounds_all:
  "list_all (\<lambda>i. 0 \<le> table ! i \<and> 2 ^ nat (table ! i) \<le> i \<and> i < 2 ^ Suc (nat (table ! i))) [1..<256]"
  by code_simp

lemma table_bounds:
  assumes "0 < i" "i < 256"
  shows "0 \<le> table ! i" "2 ^ nat (table ! i) \<le> i" "i < 2 ^ Suc (nat (table ! i))"
  using table_bounds_all assms by (auto simp: list_all_iff simp del: power_Suc)

lemma table_shifted:
  assumes "unat x div 2 ^ a = i" "0 < i" "i < 256"
  shows "table ! unat (drop_bit a (x :: u32)) + int a \<ge> 0"
    and "2 ^ nat (table ! unat (drop_bit a x) + int a) \<le> unat x"
    and "unat x < 2 ^ Suc (nat (table ! unat (drop_bit a x) + int a))"
proof -
  define t where "t = nat (table ! i)"
  have d: "unat (drop_bit a x) = i" using assms by (simp add: unat_drop_bit_div)
  have t: "table ! i = int t" "2 ^ t \<le> i" "i < 2 ^ Suc t"
    using table_bounds [OF assms(2,3)] by (simp_all add: t_def)
  have n: "nat (table ! unat (drop_bit a x) + int a) = t + a" by (simp add: d t)
  show "table ! unat (drop_bit a x) + int a \<ge> 0" by (simp add: d t)
  have "2 ^ t * 2 ^ a \<le> i * 2 ^ a" using t(2) by simp
  also have "\<dots> \<le> unat x" using assms(1) by auto
  finally show "2 ^ nat (table ! unat (drop_bit a x) + int a) \<le> unat x" by (simp only: n power_add)
  have "unat x < (i + 1) * 2 ^ a"
    using assms(1) dividend_less_div_times [of "2 ^ a" "unat x"] by auto
  also have "\<dots> \<le> 2 ^ Suc t * 2 ^ a" using t(3) by (intro mult_right_mono) auto
  finally show "unat x < 2 ^ Suc (nat (table ! unat (drop_bit a x) + int a))"
    by (simp only: n power_add flip: add_Suc)
qed

lemma ms_bit_bounds:
  assumes "x \<noteq> 0"
  shows "0 \<le> ms_bit x" "2 ^ nat (ms_bit x) \<le> unat x" "unat x < 2 ^ Suc (nat (ms_bit x))"
proof -
  have pos: "0 < unat x" and lt: "unat x < 2 ^ 32"
    using assms unsigned_less [of x] by (simp_all add: unat_gt_0)
  define a where "a = (if x \<le> 0xffff then (if x \<le> 0xff then 0 else 8) else (if x \<le> 0xffffff then 16 else (24::nat)))"
  have m: "ms_bit x = table ! unat (drop_bit a x) + int a"
    unfolding ms_bit_def a_def Let_def by simp
  have cmp: "x \<le> 0xffff \<longleftrightarrow> unat x \<le> 0xffff" "x \<le> 0xff \<longleftrightarrow> unat x \<le> 0xff" "x \<le> 0xffffff \<longleftrightarrow> unat x \<le> 0xffffff"
    by (simp_all add: word_le_nat_alt)
  have "0 < unat x div 2 ^ a" "unat x div 2 ^ a < 256"
    using pos lt unfolding a_def cmp by (auto simp: div_greater_zero_iff)
  from table_shifted [OF refl this]
  show "0 \<le> ms_bit x" "2 ^ nat (ms_bit x) \<le> unat x" "unat x < 2 ^ Suc (nat (ms_bit x))"
    unfolding m by simp_all
qed

lemma ms_bit_eqI:
  assumes "2 ^ k \<le> unat x" "unat x < 2 ^ Suc k"
  shows "ms_bit x = int k"
proof -
  have "x \<noteq> 0" using assms(1) by (cases "x = 0") auto
  from ms_bit_bounds [OF this] show ?thesis
    using power_interval_unique [OF assms] by (metis nat_0_le)
qed

lemma ls_bit_ms_bit: "ls_bit i = ms_bit (i AND - i)"
  by (simp add: ls_bit_def ms_bit_def Let_def)

lemma and_minus_lowest:
  fixes w :: "'a::len word"
  assumes "bit w k" "\<And>j. j < k \<Longrightarrow> \<not> bit w j"
  shows "w AND - w = push_bit k 1"
proof -
  define u where "u = drop_bit (Suc k) w"
  have kl: "k < LENGTH('a)" using assms(1) by (rule bit_imp_le_length)
  have "w = push_bit k (drop_bit k w)"
  proof (rule bit_word_eqI)
    fix n
    show "bit w n = bit (push_bit k (drop_bit k w)) n" if "n < LENGTH('a)"
      using assms(2) [of n] that by (cases "n < k") (auto simp: bit_simps)
  qed
  moreover have "drop_bit k w = 1 + 2 * u"
  proof -
    have "odd (drop_bit k w)" using assms(1) by (simp add: bit_iff_odd_drop_bit)
    then have "2 * (drop_bit k w div 2) + 1 = drop_bit k w"
      by (metis mult_div_mod_eq odd_iff_mod_2_eq_one)
    moreover have "drop_bit k w div 2 = u" by (simp add: u_def drop_bit_Suc drop_bit_half)
    ultimately show ?thesis by (metis add.commute)
  qed
  ultimately have w: "w = push_bit k (1 + 2 * u)" by simp
  have "- w = push_bit k (- (1 + 2 * u))" by (subst w) (simp only: push_bit_minus)
  also have "- (1 + 2 * u) = 1 + 2 * NOT u" by (simp add: not_eq_complement algebra_simps)
  finally have "w AND - w = push_bit k ((1 + 2 * u) AND (1 + 2 * NOT u))"
    using w by (metis push_bit_and)
  also have "(1 + 2 * u) AND (1 + 2 * NOT u) = 1"
  proof (rule bit_word_eqI)
    fix i assume "i < LENGTH('a)"
    have "bit (1 + 2 * v) i \<longleftrightarrow> (if i = 0 then True else bit v (i - 1))" if "i < LENGTH('a)" for v :: "'a word"
    proof -
      have "1 + 2 * v = 1 OR push_bit 1 v"
        by (subst disjunctive_add) (auto simp: bit_simps bit_0 mult.commute)
      then show ?thesis
        unfolding \<open>1 + 2 * v = 1 OR push_bit 1 v\<close> bit_or_iff bit_push_bit_iff bit_1_iff
        using that by auto
    qed
    then show "bit ((1 + 2 * u) AND (1 + 2 * NOT u)) i = bit (1 :: 'a word) i"
      using \<open>i < LENGTH('a)\<close> by (auto simp: bit_simps)
  qed
  finally show ?thesis .
qed

lemma ls_bit_eqI:
  assumes "bit w k" "\<And>j. j < k \<Longrightarrow> \<not> bit w j"
  shows "ls_bit w = int k"
proof -
  have k: "k < 32" using bit_imp_le_length [OF assms(1)] by simp
  have "unat (push_bit k 1 :: u32) = 2 ^ k"
    using k power_strict_increasing [of k 32 "2::nat"] by (subst unat_push_bit_small) auto
  moreover have "w AND - w = push_bit k 1" by (rule and_minus_lowest) (use assms in auto)
  ultimately show ?thesis
    by (simp add: ls_bit_ms_bit ms_bit_eqI)
qed

lemma ls_bit_least:
  assumes "w \<noteq> (0 :: u32)"
  obtains k where "ls_bit w = int k" "k < 32" "bit w k" "\<And>j. j < k \<Longrightarrow> \<not> bit w j"
proof -
  obtain j where "bit w j" using assms by (metis bit_eq_iff bit_0_eq bot_fun_def bot_bool_def)
  define k where "k = (LEAST k. bit w k)"
  have k: "bit w k" unfolding k_def by (rule LeastI) fact
  have "\<not> bit w j" if "j < k" for j using that not_less_Least unfolding k_def by auto
  with k show thesis
    by (intro that [of k] ls_bit_eqI) (use bit_imp_le_length [OF k] in auto)
qed

lemma ls_bit_zero [simp]: "ls_bit 0 = -1"
  by code_simp

section \<open>Flags in a size word\<close>

text \<open>The word in \<^verbatim>\<open>size\<close> of a block of \<open>n\<close> bytes that is free or not, behind a free block or not.\<close>

definition tag :: "nat \<Rightarrow> bool \<Rightarrow> bool \<Rightarrow> u32" where
  "tag n f p = of_nat (n + (if f then 1 else 0) + (if p then 2 else 0))"

lemma tag_bits:
  assumes "8 dvd n"
  shows "tag n f p = push_bit 3 (of_nat (n div 8)) OR ((if f then 1 else 0) OR (if p then 2 else 0))"
proof -
  from assms obtain m where n: "n = 8 * m" ..
  have "push_bit 3 (of_nat m :: u32) + c = push_bit 3 (of_nat m) OR c"
    if "\<And>i. bit c i \<Longrightarrow> i < 2" for c :: u32
    by (rule disjunctive_add) (use that in \<open>force simp: bit_simps\<close>)
  moreover have "bit ((if f then 1 else 0) OR (if p then push_bit 1 1 else 0) :: u32) i \<Longrightarrow> i < 2" for i
    by (auto simp: bit_simps split: if_splits)
  ultimately have "push_bit 3 (of_nat m :: u32) + ((if f then 1 else 0) OR (if p then push_bit 1 1 else 0)) =
      push_bit 3 (of_nat m) OR ((if f then 1 else 0) OR (if p then push_bit 1 1 else 0))"
    by blast
  then show ?thesis by (simp add: tag_def n push_bit_eq_mult ac_simps split: if_splits)
qed

lemma bit_two: "bit (2 :: u32) i \<longleftrightarrow> i = 1"
proof -
  have two: "(2 :: u32) = push_bit 1 1" by simp
  show ?thesis unfolding two bit_push_bit_iff bit_1_iff by auto
qed

lemma bit_two_int: "bit (2 :: int) i \<longleftrightarrow> i = 1"
proof -
  have two: "(2 :: int) = push_bit 1 1" by simp
  show ?thesis unfolding two bit_push_bit_iff bit_1_iff by auto
qed

lemma tag_bit:
  assumes "8 dvd n" "i < 32"
  shows "bit (tag n f p) i \<longleftrightarrow>
    (if i = 0 then f else if i = 1 then p else 3 \<le> i \<and> bit (of_nat (n div 8) :: u32) (i - 3))"
  unfolding tag_bits [OF assms(1)] bit_or_iff bit_push_bit_iff
  using assms(2) by (auto simp: bit_1_iff bit_two bit_two_int)

lemma bit_flags:
  assumes "i < 32"
  shows "bit FREE_BLOCK i \<longleftrightarrow> i = 0" "bit PREV_FREE i \<longleftrightarrow> i = 1" "bit PREV_STATE i \<longleftrightarrow> i = 1"
    "bit BLOCK_SIZE i \<longleftrightarrow> 2 \<le> i"
proof -
  have m: "BLOCK_SIZE = NOT (mask 2)" by code_simp
  show "bit BLOCK_SIZE i \<longleftrightarrow> 2 \<le> i" unfolding m bit_not_iff bit_mask_iff using assms by auto
  show "bit FREE_BLOCK i \<longleftrightarrow> i = 0" by (simp add: FREE_BLOCK_def bit_1_iff)
  show "bit PREV_FREE i \<longleftrightarrow> i = 1" "bit PREV_STATE i \<longleftrightarrow> i = 1"
    by (simp_all add: PREV_FREE_def PREV_STATE_def bit_two bit_two_int) (use assms in auto)
qed

lemma tag_plain: "tag n False False = of_nat n"
  by (simp add: tag_def)

text \<open>What the code does to size words, on tags.\<close>

lemma tag_simps:
  assumes "8 dvd n"
  shows "tag n f p AND BLOCK_SIZE = of_nat n"
    and "tag n f p OR FREE_BLOCK = tag n True p"
    and "tag n f p AND NOT FREE_BLOCK = tag n False p"
    and "tag n f p OR PREV_FREE = tag n f True"
    and "tag n f p AND NOT PREV_FREE = tag n f False"
    and "tag n f p AND PREV_STATE = tag 0 False p"
    and "of_nat n OR tag 0 False p = tag n False p"
    and "of_nat n OR FREE_BLOCK = tag n True False"
    and "tag n f p AND FREE_BLOCK = 0 \<longleftrightarrow> \<not> f"
    and "tag n f p AND PREV_FREE = 0 \<longleftrightarrow> \<not> p"
proof -
  note b = tag_bit [OF assms] bit_flags tag_bit [of 0, simplified]
  have two: "2 \<le> i \<longleftrightarrow> i \<noteq> 0 \<and> i \<noteq> 1" for i :: nat by auto
  show "tag n f p AND BLOCK_SIZE = of_nat n" "of_nat n OR tag 0 False p = tag n False p"
    "of_nat n OR FREE_BLOCK = tag n True False"
    unfolding tag_plain [symmetric]
    by (rule bit_word_eqI; auto simp: bit_and_iff bit_or_iff b)+
  show "tag n f p OR FREE_BLOCK = tag n True p" "tag n f p AND NOT FREE_BLOCK = tag n False p"
    "tag n f p OR PREV_FREE = tag n f True" "tag n f p AND NOT PREV_FREE = tag n f False"
    "tag n f p AND PREV_STATE = tag 0 False p"
    by (rule bit_word_eqI; auto simp: bit_and_iff bit_or_iff bit_not_iff b)+
  have e: "w = 0 \<longleftrightarrow> (\<forall>i<32. \<not> bit w i)" for w :: u32 by (auto intro: bit_word_eqI)
  show "tag n f p AND FREE_BLOCK = 0 \<longleftrightarrow> \<not> f" "tag n f p AND PREV_FREE = 0 \<longleftrightarrow> \<not> p"
    unfolding e bit_and_iff by (force simp: b)+
qed

lemma tag_add: "tag n f p + (of_nat m + of_nat BHDR_OVERHEAD) = tag (n + (m + 8)) f p"
  by (simp add: tag_def BHDR_OVERHEAD_def)

section \<open>The order of the size classes\<close>

definition lg :: "nat \<Rightarrow> nat" where "lg n = nat (ms_bit (of_nat n))"

definition key :: "nat \<Rightarrow> nat" where
  "key n = (if n < 128 then n div 4 else 32 * (lg n - 6) + (n div 2 ^ (lg n - 5) - 32))"

lemma lg_bounds:
  assumes "0 < n" "n < 2 ^ 32"
  shows "2 ^ lg n \<le> n" "n < 2 ^ Suc (lg n)" "ms_bit (of_nat n) = int (lg n)"
proof -
  have u: "unat (of_nat n :: u32) = n" using assms(2) by (intro unat_of_nat_small) simp
  then have "of_nat n \<noteq> (0 :: u32)" using assms(1) by auto
  from ms_bit_bounds [OF this]
  show "2 ^ lg n \<le> n" "n < 2 ^ Suc (lg n)" "ms_bit (of_nat n) = int (lg n)"
    unfolding u lg_def by simp_all
qed

lemma lg_eqI: "2 ^ k \<le> n \<Longrightarrow> n < 2 ^ Suc k \<Longrightarrow> n < 2 ^ 32 \<Longrightarrow> lg n = k"
  using lg_bounds [of n] power_interval_unique [of "lg n" n k] by (cases "n = 0") auto

lemma lg_mono:
  assumes "0 < n" "n \<le> m" "m < 2 ^ 32"
  shows "lg n \<le> lg m"
proof -
  have "2 ^ lg n < (2::nat) ^ Suc (lg m)"
    using assms lg_bounds [of n] lg_bounds [of m] by linarith
  then show ?thesis by (metis less_Suc_eq_le one_less_numeral_iff power_strict_increasing_iff semiring_norm(76))
qed

lemma lg_ge: "2 ^ k \<le> n \<Longrightarrow> n < 2 ^ 32 \<Longrightarrow> k \<le> lg n"
  using lg_mono [of "2 ^ k" n] lg_eqI [of k "2 ^ k"] by simp

lemma lg_less: "0 < n \<Longrightarrow> n < 2 ^ k \<Longrightarrow> n < 2 ^ 32 \<Longrightarrow> lg n < k"
proof -
  assume "0 < n" "n < 2 ^ k" "n < 2 ^ 32"
  then have "2 ^ lg n < (2::nat) ^ k" using lg_bounds [of n] by linarith
  then show "lg n < k" by (metis one_less_numeral_iff power_strict_increasing_iff semiring_norm(76))
qed

lemma sl_range:
  assumes "128 \<le> n" "n < 2 ^ 32"
  shows "32 \<le> n div 2 ^ (lg n - 5)" "n div 2 ^ (lg n - 5) < 64" "7 \<le> lg n"
proof -
  show l: "7 \<le> lg n" using lg_ge [of 7 n] assms by simp
  have p: "(2::nat) ^ lg n = 32 * 2 ^ (lg n - 5)" "(2::nat) ^ Suc (lg n) = 64 * 2 ^ (lg n - 5)"
    using l power_add [of "2::nat" 5 "lg n - 5"] by simp_all
  then show "32 \<le> n div 2 ^ (lg n - 5)" "n div 2 ^ (lg n - 5) < 64"
    using lg_bounds [of n] assms by (simp_all add: less_eq_div_iff_mult_less_eq div_less_iff_less_mult)
qed

lemma key_large:
  assumes "128 \<le> n" "n < 2 ^ 32"
  obtains q where "key n = 32 * (lg n - 6) + q" "n div 2 ^ (lg n - 5) = 32 + q" "q < 32" "7 \<le> lg n"
proof (rule that [of "n div 2 ^ (lg n - 5) - 32"])
  show "key n = 32 * (lg n - 6) + (n div 2 ^ (lg n - 5) - 32)" using assms by (simp add: key_def)
qed (use sl_range [OF assms] in auto)

lemma key_small: "n < 128 \<Longrightarrow> key n = n div 4"
  by (simp add: key_def)

lemma key_div_mod:
  assumes "n < 2 ^ 32"
  shows "key n div 32 = (if n < 128 then 0 else lg n - 6)"
    and "key n mod 32 = (if n < 128 then n div 4 else n div 2 ^ (lg n - 5) - 32)"
proof -
  have "n < 128 \<Longrightarrow> n div 4 < 32" by simp
  then show "key n div 32 = (if n < 128 then 0 else lg n - 6)"
    and "key n mod 32 = (if n < 128 then n div 4 else n div 2 ^ (lg n - 5) - 32)"
    by (cases "n < 128"; use assms in \<open>auto simp: key_small not_less elim: key_large\<close>)+
qed

lemma MAPPING_INSERT_key:
  assumes "n < 2 ^ 32"
  shows "MAPPING_INSERT (of_nat n) = (int (key n div 32), int (key n mod 32))"
proof -
  have u: "unat (of_nat n :: u32) = n" using assms by (intro unat_of_nat_small) simp
  have small: "(of_nat n :: u32) < SMALL_BLOCK \<longleftrightarrow> n < 128"
    by (simp add: SMALL_BLOCK_def word_less_nat_alt u)
  show ?thesis
  proof (cases "n < 128")
    case True
    have f: "unat (4 :: u32) = 4" by simp
    have "uint (of_nat n div 4 :: u32) = int (n div 4)" by (simp only: uint_nat unat_div u f)
    then show ?thesis
      unfolding MAPPING_INSERT_def small key_div_mod [OF assms] if_P [OF True] by simp
  next
    case False
    note r = sl_range [of n]
    have m: "ms_bit (of_nat n) = int (lg n)" using lg_bounds [of n] False assms by simp
    have a: "nat (int (lg n) - 5) = lg n - 5" using r(3) False assms by simp
    have b: "uint (drop_bit (lg n - 5) (of_nat n :: u32)) = int (n div 2 ^ (lg n - 5))"
      by (simp only: uint_nat unat_drop_bit_div u)
    have "MAPPING_INSERT (of_nat n) = (int (lg n) - 6, int (n div 2 ^ (lg n - 5)) - 2 ^ 5)"
      by (simp only: MAPPING_INSERT_def small if_not_P [OF False] m Let_def MAX_LOG2_SLI_def
          MAX_SLI_def FLI_OFFSET_def a b)
    moreover have "int (key n div 32) = int (lg n) - 6"
      using False r(3) assms by (simp add: key_div_mod(1) [OF assms] of_nat_diff)
    moreover have "int (key n mod 32) = int (n div 2 ^ (lg n - 5)) - 2 ^ 5"
      using False r(1) assms unfolding key_div_mod(2) [OF assms] by (simp only: if_not_P [OF False] of_nat_diff) simp
    ultimately show ?thesis by (simp only:)
  qed
qed

lemma key_mono:
  assumes "n \<le> m" "m < 2 ^ 32"
  shows "key n \<le> key m"
proof (cases "128 \<le> n")
  case False
  show ?thesis
  proof (cases "128 \<le> m")
    case True
    from True assms obtain q where "key m = 32 * (lg m - 6) + q" "7 \<le> lg m" by (auto elim: key_large)
    with False show ?thesis by (simp add: key_small)
  qed (use assms False in \<open>simp add: key_small div_le_mono\<close>)
next
  case True
  with assms have n: "n < 2 ^ 32" "0 < n" "128 \<le> m" by auto
  from key_large [OF True n(1)] obtain q where
    q: "key n = 32 * (lg n - 6) + q" "n div 2 ^ (lg n - 5) = 32 + q" "q < 32" "7 \<le> lg n" .
  from key_large [OF n(3) assms(2)] obtain q' where
    q': "key m = 32 * (lg m - 6) + q'" "m div 2 ^ (lg m - 5) = 32 + q'" "q' < 32" "7 \<le> lg m" .
  have "lg n \<le> lg m" using lg_mono [OF n(2) assms] .
  then consider "lg n = lg m" | "lg n < lg m" by linarith
  then show ?thesis
  proof cases
    case 1
    then have "32 + q \<le> 32 + q'"
      unfolding q(2) [symmetric] q'(2) [symmetric] by (simp add: div_le_mono assms(1))
    with 1 show ?thesis by (simp add: q q')
  next
    case 2
    then have "32 * (lg n - 6) + 32 \<le> 32 * (lg m - 6)" using q(4) by simp
    with q(3) show ?thesis unfolding q(1) q'(1) by linarith
  qed
qed

lemma key_less_matrix: "n < 2 ^ 30 \<Longrightarrow> key n < 24 * 32"
  using lg_less [of n 30] by (cases "128 \<le> n") (auto simp: key_small elim!: key_large)

section \<open>The class searched\<close>

lemma and_not_mask_nat:
  assumes "m < 2 ^ 32" "j < 32"
  shows "(of_nat m :: u32) AND NOT (push_bit j 1 - 1) = of_nat (m div 2 ^ j * 2 ^ j)"
proof -
  have "push_bit j 1 - 1 = (mask j :: u32)" by (simp add: mask_eq_exp_minus_1)
  moreover have "w AND NOT (mask j) = push_bit j (drop_bit j w)" for w :: u32
    by (rule bit_word_eqI) (auto simp: bit_simps)
  ultimately have "(of_nat m :: u32) AND NOT (push_bit j 1 - 1) = push_bit j (drop_bit j (of_nat m))"
    by (simp only:)
  moreover have "unat (push_bit j (drop_bit j (of_nat m :: u32))) = m div 2 ^ j * 2 ^ j"
    using assms by (subst unat_push_bit_small)
      (auto simp: unat_drop_bit_div unat_of_nat_small intro: le_less_trans [OF div_times_less_eq_dividend])
  moreover have "unat (of_nat (m div 2 ^ j * 2 ^ j) :: u32) = m div 2 ^ j * 2 ^ j"
    using assms by (intro unat_of_nat_small) (auto intro: le_less_trans [OF div_times_less_eq_dividend])
  ultimately show ?thesis by (simp only: word_unat_eq_iff)
qed

lemma key_round_down:
  assumes "128 \<le> m" "m < 2 ^ 32" "j \<le> lg m - 5"
  shows "key (m div 2 ^ j * 2 ^ j) = key m" "lg (m div 2 ^ j * 2 ^ j) = lg m" "128 \<le> m div 2 ^ j * 2 ^ j"
proof -
  let ?p = "2 ^ j :: nat" and ?x = "m div 2 ^ j * 2 ^ j"
  note l = sl_range(3) [OF assms(1,2)] and b = lg_bounds [of m]
  have le: "?x \<le> m" by simp
  have pow: "(2::nat) ^ i * ?p = 2 ^ (i + j)" for i by (simp add: power_add)
  have low: "2 ^ i \<le> ?x" if "2 ^ i \<le> m" "j \<le> i" for i
  proof -
    have "(2::nat) ^ i = 2 ^ (i - j) * ?p" using that(2) by (simp add: pow)
    moreover have "2 ^ (i - j) \<le> m div ?p"
      using that calculation by (simp add: less_eq_div_iff_mult_less_eq)
    ultimately show ?thesis by simp
  qed
  show lx: "lg ?x = lg m"
    using low [of "lg m"] b assms le_less_trans [OF le] by (intro lg_eqI) auto
  show big: "128 \<le> ?x"
  proof (cases "j \<le> 7")
    case True with low [of 7] assms show ?thesis by simp
  next
    case False
    with low [of "lg m"] b assms l have "2 ^ lg m \<le> ?x" by simp
    moreover have "(2::nat) ^ 7 \<le> 2 ^ lg m" using l by (intro power_increasing) auto
    ultimately show ?thesis by simp
  qed
  have "(2::nat) ^ (lg m - 5) = ?p * 2 ^ (lg m - 5 - j)"
    using assms(3) by (simp flip: power_add)
  then have "?x div 2 ^ (lg m - 5) = m div 2 ^ (lg m - 5)"
    by (simp add: div_mult2_eq)
  then show "key ?x = key m" using big assms(1) by (simp add: key_def lx)
qed

text \<open>The smallest size of the class that \<^verbatim>\<open>MAPPING_SEARCH\<close> looks in.\<close>

definition fit :: "nat \<Rightarrow> nat" where
  "fit r = (if r < 128 then r else (r + (2 ^ (lg r - 5) - 1)) div 2 ^ (lg r - 5) * 2 ^ (lg r - 5))"

lemma fit_bounds:
  assumes "r < 2 ^ 32"
  shows "r \<le> fit r" "32 * (fit r - r) \<le> r" "128 \<le> r \<Longrightarrow> fit r \<le> r + (2 ^ (lg r - 5) - 1)"
proof -
  have "r \<le> fit r \<and> 32 * (fit r - r) \<le> r \<and> (128 \<le> r \<longrightarrow> fit r \<le> r + (2 ^ (lg r - 5) - 1))"
  proof (cases "r < 128")
    case False
    let ?p = "2 ^ (lg r - 5) :: nat"
    have pos: "0 < ?p" by simp
    have "(r + (?p - 1)) mod ?p \<le> ?p - 1" using pos by (metis Suc_pred' less_Suc_eq_le mod_less_divisor)
    then have lo: "r \<le> fit r"
      using div_mult_mod_eq [of "r + (?p - 1)" ?p] unfolding fit_def if_not_P [OF False] by linarith
    have hi: "fit r \<le> r + (?p - 1)" using False by (simp add: fit_def)
    have "32 * ?p = 2 ^ lg r"
      using sl_range(3) [of r] False assms power_add [of "2::nat" 5 "lg r - 5"] by simp
    also have "\<dots> \<le> r" using lg_bounds [of r] False assms by simp
    finally have "32 * (fit r - r) \<le> r" using hi pos by linarith
    with lo hi show ?thesis by simp
  qed (simp add: fit_def)
  then show "r \<le> fit r" "32 * (fit r - r) \<le> r" "128 \<le> r \<Longrightarrow> fit r \<le> r + (2 ^ (lg r - 5) - 1)"
    by auto
qed

lemma fit_dvd:
  assumes "8 dvd r" "r < 2 ^ 32"
  shows "8 dvd fit r"
proof (cases "r < 256")
  case True
  have "fit r = r"
  proof (cases "r < 128")
    case False
    then have "lg r = 7" using True by (intro lg_eqI) auto
    moreover from assms(1) obtain m where "r = 8 * m" ..
    ultimately show ?thesis using False by (simp add: fit_def)
  qed (simp add: fit_def)
  with assms show ?thesis by simp
next
  case False
  then have "8 \<le> lg r" using lg_ge [of 8 r] assms by simp
  then have "(2::nat) ^ 3 dvd 2 ^ (lg r - 5)" by (intro le_imp_power_dvd) simp
  with False show ?thesis by (simp add: fit_def)
qed

lemma MAPPING_SEARCH_fit:
  assumes "r < 2 ^ 31"
  shows "MAPPING_SEARCH (of_nat r) = (of_nat (fit r), int (key (fit r) div 32), int (key (fit r) mod 32))"
proof (cases "r < 128")
  case True
  have u: "unat (of_nat r :: u32) = r" using assms by (intro unat_of_nat_small) simp
  have "(of_nat r :: u32) < SMALL_BLOCK" using True by (simp add: SMALL_BLOCK_def word_less_nat_alt u)
  moreover have f: "unat (4 :: u32) = 4" by simp
  have "uint (of_nat r div 4 :: u32) = int (r div 4)" by (simp only: uint_nat unat_div u f)
  ultimately show ?thesis using True by (simp add: MAPPING_SEARCH_def fit_def key_small)
next
  case False
  let ?j = "lg r - 5"
  define m where "m = r + (2 ^ ?j - 1)"
  have big: "128 \<le> r" "r < 2 ^ 32" using False assms by auto
  have lr: "lg r < 31" using lg_less [of r 31] assms False by simp
  then have "(2::nat) ^ ?j \<le> 2 ^ 25" by (intro power_increasing) auto
  then have m1: "m < 2 ^ 32" using assms unfolding m_def by simp
  have m2: "128 \<le> m" using big unfolding m_def by linarith
  note m = m1 m2
  have u: "unat (of_nat r :: u32) = r" using big by (intro unat_of_nat_small) simp
  have small: "\<not> (of_nat r :: u32) < SMALL_BLOCK" using False by (simp add: SMALL_BLOCK_def word_less_nat_alt u)
  have msr: "ms_bit (of_nat r) = int (lg r)" and msm: "ms_bit (of_nat m) = int (lg m)"
    using lg_bounds [of r] lg_bounds [of m] big m by auto
  have "r \<le> m" unfolding m_def by linarith
  then have ge: "lg r \<le> lg m" using lg_mono [of r m] big m by simp
  have fm: "fit r = m div 2 ^ ?j * 2 ^ ?j" using False by (simp add: fit_def m_def)
  have k: "key (fit r) = key m"
    unfolding fm using m ge by (intro key_round_down) auto
  have t: "(of_nat r :: u32) + (push_bit ?j 1 - 1) = of_nat m"
  proof -
    have "(1::nat) \<le> 2 ^ ?j" by simp
    from of_nat_diff [OF this, where ?'a = u32] show ?thesis
      unfolding m_def of_nat_add by (simp add: push_bit_eq_mult)
  qed
  have j: "nat (int (lg r) - MAX_LOG2_SLI) = ?j" by (simp add: MAX_LOG2_SLI_def nat_diff_distrib)
  have a: "(of_nat m :: u32) AND NOT (push_bit ?j 1 - 1) = of_nat (fit r)"
    unfolding fm using m lr by (intro and_not_mask_nat) auto
  have ins: "MAPPING_INSERT (of_nat m) = (ms_bit (of_nat m) - FLI_OFFSET,
      uint (drop_bit (nat (ms_bit (of_nat m) - MAX_LOG2_SLI)) (of_nat m :: u32)) - MAX_SLI)"
    using m by (simp add: MAPPING_INSERT_def SMALL_BLOCK_def word_less_nat_alt unat_of_nat_small Let_def)
  show ?thesis
    using MAPPING_INSERT_key [OF m(1)] k
    unfolding MAPPING_SEARCH_def if_not_P [OF small] Let_def msr j t a ins by simp
qed

lemma fit_multiple:
  assumes "128 \<le> r" "r < 2 ^ 31"
  shows "2 ^ (lg (fit r) - 5) dvd fit r"
proof -
  let ?p = "2 ^ (lg r - 5) :: nat" and ?x = "fit r"
  have p: "?p dvd ?x" using assms by (simp add: fit_def)
  have l: "7 \<le> lg r" "32 * ?p = 2 ^ lg r"
    using sl_range(3) [of r] assms power_add [of "2::nat" 5 "lg r - 5"] by simp_all
  have b: "2 ^ lg r \<le> r" "r < 2 * 2 ^ lg r" "r \<le> ?x" "?x \<le> r + (?p - 1)"
    using lg_bounds [of r] fit_bounds [of r] assms by simp_all
  have x32: "?x < 2 ^ 32" using fit_bounds(2) [of r] assms by simp
  show ?thesis
  proof (cases "?x < 2 * 2 ^ lg r")
    case True
    then have "lg ?x = lg r" using b x32 by (intro lg_eqI) auto
    with p show ?thesis by simp
  next
    case False
    from p obtain c where c: "?x = ?p * c" ..
    have "?p * c < ?p * 65" using b l(2) unfolding c [symmetric] by linarith
    moreover have "?p * 64 \<le> ?p * c" using False l(2) unfolding c [symmetric] by linarith
    ultimately have "c = 64" by simp
    then have x: "?x = 2 ^ Suc (lg r)" using c l(2) by simp
    then have "lg ?x = Suc (lg r)" using x32 by (intro lg_eqI) auto
    then show ?thesis unfolding x by (intro le_imp_power_dvd) simp
  qed
qed

lemma fit_least:
  assumes r: "8 dvd r" "r < 2 ^ 31" and n: "8 dvd n" "n < 2 ^ 32" and le: "key (fit r) \<le> key n"
  shows "fit r \<le> n"
proof (cases "r < 128")
  case True
  then have f: "fit r = r" by (simp add: fit_def)
  show ?thesis
  proof (cases "n < 128")
    case True
    with \<open>r < 128\<close> le have "r div 4 \<le> n div 4" by (simp add: f key_small)
    then have "4 * (r div 4) \<le> 4 * (n div 4)" by simp
    with r n show ?thesis unfolding f by (auto simp: dvd_def)
  qed (use True f in auto)
next
  case False
  show ?thesis
  proof (rule ccontr)
    assume "\<not> fit r \<le> n"
    then have lt: "n < fit r" by simp
    define x where "x = fit r"
    have x32: "x < 2 ^ 32" and rx: "r \<le> x" using fit_bounds [of r] r unfolding x_def by auto
    have big: "128 \<le> x" using rx False by simp
    from key_large [OF big x32] obtain q where
      q: "key x = 32 * (lg x - 6) + q" "x div 2 ^ (lg x - 5) = 32 + q" "q < 32" "7 \<le> lg x" .
    have n128: "128 \<le> n"
    proof (rule ccontr)
      assume "\<not> 128 \<le> n"
      then have "key n < 32" by (simp add: key_small)
      with le q show False unfolding x_def [symmetric] by simp
    qed
    from key_large [OF n128 n(2)] obtain q' where
      q': "key n = 32 * (lg n - 6) + q'" "n div 2 ^ (lg n - 5) = 32 + q'" "q' < 32" "7 \<le> lg n" .
    have "lg n \<le> lg x" using lg_mono [of n x] n128 lt x32 unfolding x_def by simp
    moreover have "\<not> lg n < lg x"
    proof
      assume "lg n < lg x"
      then have "32 * (lg n - 6) + 32 \<le> 32 * (lg x - 6)" using q'(4) by simp
      with le q' q show False unfolding x_def [symmetric] by linarith
    qed
    ultimately have l: "lg n = lg x" by simp
    have "32 + q \<le> 32 + q'" using le q(1) q'(1) l unfolding x_def [symmetric] by simp
    then have "x div 2 ^ (lg x - 5) * 2 ^ (lg x - 5) \<le> n div 2 ^ (lg x - 5) * 2 ^ (lg x - 5)"
      unfolding q(2) q'(2) [unfolded l] by (intro mult_right_mono) auto
    also have "\<dots> \<le> n" by simp
    finally have "\<not> 2 ^ (lg x - 5) dvd x" using lt unfolding x_def [symmetric] by auto
    moreover have "2 ^ (lg x - 5) dvd x" unfolding x_def by (rule fit_multiple) (use r False in auto)
    ultimately show False by simp
  qed
qed

end
