(* ===== verification/TlsfIndex.thy ===== *)
theory TlsfIndex
  imports TlsfBits
begin

text \<open>
  The index of the free blocks: the matrix of doubly linked lists with its two levels of bitmaps
  represents a map from the addresses of the free blocks to their sizes. The macros that enter and
  remove a block and the search refine the update and the look-up of that map.
\<close>

section \<open>Lists in the heap\<close>

text \<open>The neighbours of an element of a list, with \<open>p\<close> in front and null behind.\<close>

fun after :: "nat list \<Rightarrow> nat \<Rightarrow> nat" where
  "after [] x = 0"
| "after (y # ys) x = (if y = x then hd (ys @ [0]) else after ys x)"

fun before :: "nat \<Rightarrow> nat list \<Rightarrow> nat \<Rightarrow> nat" where
  "before p [] x = 0"
| "before p (y # ys) x = (if y = x then p else before y ys x)"

definition chain :: "pool \<Rightarrow> nat \<Rightarrow> nat list \<Rightarrow> bool" where
  "chain s h xs \<longleftrightarrow> h = hd (xs @ [0]) \<and> 0 \<notin> set xs \<and> distinct xs \<and>
     (\<forall>x\<in>set xs. free_prev s x = before 0 xs x \<and> free_next s x = after xs x)"

lemma chain_cong:
  assumes "\<And>x. x \<in> set xs \<Longrightarrow> free_prev s' x = free_prev s x \<and> free_next s' x = free_next s x"
  shows "chain s' h xs = chain s h xs"
  using assms by (simp add: chain_def)

lemma chain_head_in: "chain s h xs \<Longrightarrow> h \<noteq> 0 \<Longrightarrow> h \<in> set xs"
  by (cases xs) (auto simp: chain_def)

lemma chain_null: "chain s h xs \<Longrightarrow> h = 0 \<longleftrightarrow> xs = []"
  by (cases xs) (auto simp: chain_def)

lemma after_in: "x \<in> set xs \<Longrightarrow> after xs x \<noteq> 0 \<Longrightarrow> after xs x \<in> set xs"
proof (induction xs)
  case (Cons y ys)
  then show ?case by (cases ys) auto
qed simp

lemma before_in: "before p xs x = p \<or> before p xs x = 0 \<or> before p xs x \<in> set xs"
proof (induction xs arbitrary: p)
  case (Cons y ys)
  from Cons [of y] show ?case by auto
qed simp

lemma after_not_self: "distinct xs \<Longrightarrow> 0 \<notin> set xs \<Longrightarrow> x \<in> set xs \<Longrightarrow> after xs x \<noteq> x"
proof (induction xs)
  case (Cons y ys)
  then show ?case by (cases ys) auto
qed simp

lemma before_not_self: "p \<noteq> b \<Longrightarrow> b \<noteq> 0 \<Longrightarrow> before p xs b \<noteq> b"
  by (induction xs arbitrary: p) auto

lemma after_remove1:
  assumes "distinct xs" "0 \<notin> set xs" "b \<in> set xs" "x \<in> set xs" "x \<noteq> b" "p \<notin> set xs"
  shows "after (remove1 b xs) x = (if x = before p xs b then after xs b else after xs x)"
  using assms
proof (induction xs arbitrary: p)
  case (Cons y ys)
  show ?case
  proof (cases "y = b")
    case True
    then show ?thesis using Cons.prems by auto
  next
    case False
    with Cons.prems have b: "b \<in> set ys" by simp
    show ?thesis
    proof (cases "y = x")
      case True
      with b False Cons.prems show ?thesis
      proof (cases ys)
        case (Cons z zs)
        have "before z zs b \<noteq> x" if "z \<noteq> b"
          using before_in [of z zs b] True Cons \<open>distinct (y # ys)\<close> \<open>0 \<notin> set (y # ys)\<close> by auto
        then show ?thesis using True False Cons \<open>distinct (y # ys)\<close> by (auto split: if_splits)
      qed simp
    next
      case ne: False
      with Cons.prems have "x \<in> set ys" "y \<notin> set ys" by auto
      then show ?thesis using Cons.IH [of y] Cons.prems b False ne by auto
    qed
  qed
qed simp

lemma before_remove1:
  assumes "distinct xs" "0 \<notin> set xs" "b \<in> set xs" "x \<in> set xs" "x \<noteq> b"
  shows "before p (remove1 b xs) x = (if x = after xs b then before p xs b else before p xs x)"
  using assms
proof (induction xs arbitrary: p)
  case (Cons y ys)
  show ?case
  proof (cases "y = b")
    case True
    then show ?thesis using Cons.prems by (cases ys) auto
  next
    case False
    with Cons.prems have b: "b \<in> set ys" by simp
    have "after ys b \<noteq> y" using after_in [OF b] Cons.prems by auto
    then show ?thesis using Cons b False by auto
  qed
qed simp

lemma hd_remove1:
  "distinct xs \<Longrightarrow> b \<in> set xs \<Longrightarrow> hd (remove1 b xs @ [0]) = (if hd (xs @ [0]) = b then after xs b else hd (xs @ [0]))"
  by (cases xs) auto

lemma before_hd: "distinct xs \<Longrightarrow> 0 \<notin> set xs \<Longrightarrow> b \<in> set xs \<Longrightarrow> before 0 xs b = 0 \<longleftrightarrow> hd (xs @ [0]) = b"
proof (cases xs)
  case (Cons y ys)
  assume a: "distinct xs" "0 \<notin> set xs" "b \<in> set xs"
  have "before y ys b \<noteq> 0" if "b \<in> set ys" "y \<noteq> 0" "0 \<notin> set ys" for y ys
    using that by (induction ys arbitrary: y) auto
  with a Cons show ?thesis by auto
qed simp

lemma before_Cons_hd:
  assumes "x \<in> set xs" "distinct xs"
  shows "before b xs x = (if x = hd (xs @ [0]) then b else before 0 xs x)"
  using assms by (cases xs) auto

section \<open>The index\<close>

text \<open>The list and the second-level bit of the \<open>k\<close>-th class.\<close>

definition head :: "pool \<Rightarrow> nat \<Rightarrow> nat" where
  "head s k = matrix s (int (k div 32)) (int (k mod 32))"

definition marked :: "pool \<Rightarrow> nat \<Rightarrow> bool" where
  "marked s k \<longleftrightarrow> bit (sl_bitmap s (int (k div 32))) (k mod 32)"

definition members :: "(nat \<rightharpoonup> nat) \<Rightarrow> nat \<Rightarrow> nat set" where
  "members F k = {a. \<exists>n. F a = Some n \<and> key n = k}"

definition bitmaps_agree :: "pool \<Rightarrow> bool" where
  "bitmaps_agree s \<longleftrightarrow> (\<forall>k<768. marked s k \<longleftrightarrow> head s k \<noteq> 0) \<and>
     (\<forall>i. bit (fl_bitmap s) i \<longleftrightarrow> i < 24 \<and> sl_bitmap s (int i) \<noteq> 0)"

definition index :: "pool \<Rightarrow> (nat \<rightharpoonup> nat) \<Rightarrow> bool" where
  "index s F \<longleftrightarrow> (\<forall>a n. F a = Some n \<longrightarrow> a \<noteq> 0 \<and> 8 dvd n \<and> n < 2 ^ 30) \<and>
     (\<forall>k<768. \<exists>xs. chain s (head s k) xs \<and> set xs = members F k) \<and> bitmaps_agree s"

lemma in_matrix_class: "k < 768 \<Longrightarrow> in_matrix (int (k div 32)) (int (k mod 32))"
  by (auto simp: in_matrix_def REAL_FLI_def MAX_SLI_def)

lemma class_eq_iff: "(int (k div 32) = int (k' div 32) \<and> int (k mod 32) = int (k' mod 32)) \<longleftrightarrow> k = k'"
  by (metis div_mod_decomp of_nat_eq_iff)

lemma head_set_head:
  "head (set_head (int (k0 div 32)) (int (k0 mod 32)) v s) k = (if k = k0 then v else head s k)"
  using class_eq_iff [of k k0] by (auto simp: head_def set_head_def)

lemma nonzero_bit: "(w :: u32) \<noteq> 0 \<longleftrightarrow> (\<exists>i<32. bit w i)"
  by (auto intro: bit_word_eqI)

lemma bit_set_bit: "j < 32 \<Longrightarrow> bit (tlsf_set_bit (int j) w) i \<longleftrightarrow> i = j \<or> bit w i"
  unfolding tlsf_set_bit_def nat_int bit_or_iff bit_push_bit_iff bit_1_iff by auto

lemma bit_clear_bit: "j < 32 \<Longrightarrow> bit (tlsf_clear_bit (int j) w) i \<longleftrightarrow> i \<noteq> j \<and> bit w i"
  using bit_imp_le_length [of w i]
  unfolding tlsf_clear_bit_def nat_int bit_and_iff bit_not_iff bit_push_bit_iff bit_1_iff by auto

lemma bitmaps_agree_cong:
  assumes "bitmaps_agree s" "sl_bitmap s' = sl_bitmap s" "fl_bitmap s' = fl_bitmap s"
    "\<And>k. head s' k \<noteq> 0 \<longleftrightarrow> head s k \<noteq> 0"
  shows "bitmaps_agree s'"
  using assms by (simp add: bitmaps_agree_def marked_def)

lemma set_bits_agree:
  assumes "bitmaps_agree s" "k0 < 768" "v \<noteq> 0"
    and s': "\<And>k. head s' k = (if k = k0 then v else head s k)"
      "sl_bitmap s' = (sl_bitmap s)(int (k0 div 32) := tlsf_set_bit (int (k0 mod 32)) (sl_bitmap s (int (k0 div 32))))"
      "fl_bitmap s' = tlsf_set_bit (int (k0 div 32)) (fl_bitmap s)"
  shows "bitmaps_agree s'"
proof -
  have "marked s' k \<longleftrightarrow> head s' k \<noteq> 0" if "k < 768" for k
  proof -
    have "marked s k \<longleftrightarrow> head s k \<noteq> 0" using assms(1) that by (simp add: bitmaps_agree_def)
    then show ?thesis
      using class_eq_iff [of k k0] assms(3) by (auto simp: marked_def s' bit_set_bit)
  qed
  moreover have "bit (fl_bitmap s') i \<longleftrightarrow> i < 24 \<and> sl_bitmap s' (int i) \<noteq> 0" for i
  proof -
    have "bit (fl_bitmap s) i \<longleftrightarrow> i < 24 \<and> sl_bitmap s (int i) \<noteq> 0"
      using assms(1) by (simp add: bitmaps_agree_def)
    moreover have "tlsf_set_bit (int (k0 mod 32)) u \<noteq> 0" for u
      unfolding nonzero_bit by (intro exI [of _ "k0 mod 32"]) (simp add: bit_set_bit)
    ultimately show ?thesis using assms(2) by (auto simp: s' bit_set_bit)
  qed
  ultimately show ?thesis by (simp add: bitmaps_agree_def)
qed

lemma clear_bits_agree:
  assumes agree: "bitmaps_agree s" and k0: "k0 < 768" and h: "\<And>k. head s1 k = (if k = k0 then 0 else head s k)"
    and s1: "sl_bitmap s1 = sl_bitmap s" "fl_bitmap s1 = fl_bitmap s"
  shows "bitmaps_agree (clear_bits (int (k0 div 32)) (int (k0 mod 32)) s1)"
proof -
  let ?s = "clear_bits (int (k0 div 32)) (int (k0 mod 32)) s1"
  let ?w = "tlsf_clear_bit (int (k0 mod 32)) (sl_bitmap s (int (k0 div 32)))"
  have f: "head ?s = head s1" "sl_bitmap ?s = (sl_bitmap s)(int (k0 div 32) := ?w)"
    "fl_bitmap ?s = (if ?w = 0 then tlsf_clear_bit (int (k0 div 32)) (fl_bitmap s) else fl_bitmap s)"
    by (auto simp: clear_bits_def Let_def head_def s1)
  have "marked ?s k \<longleftrightarrow> head ?s k \<noteq> 0" if "k < 768" for k
  proof -
    have "marked s k \<longleftrightarrow> head s k \<noteq> 0" using agree that by (simp add: bitmaps_agree_def)
    then show ?thesis
      using class_eq_iff [of k k0] by (auto simp: marked_def f h bit_clear_bit)
  qed
  moreover have "bit (fl_bitmap ?s) i \<longleftrightarrow> i < 24 \<and> sl_bitmap ?s (int i) \<noteq> 0" for i
  proof -
    have old: "bit (fl_bitmap s) i \<longleftrightarrow> i < 24 \<and> sl_bitmap s (int i) \<noteq> 0"
      using agree by (simp add: bitmaps_agree_def)
    show ?thesis
    proof (cases "i = k0 div 32")
      case True
      have "?w \<noteq> 0 \<Longrightarrow> sl_bitmap s (int (k0 div 32)) \<noteq> 0"
        by (auto simp: tlsf_clear_bit_def)
      with True old k0 show ?thesis by (auto simp: f bit_clear_bit)
    qed (use old k0 in \<open>auto simp: f bit_clear_bit\<close>)
  qed
  ultimately show ?thesis by (simp add: bitmaps_agree_def)
qed

text \<open>A step on the lists of one class leaves the rest of the index as it was.\<close>

lemma index_step:
  assumes "index s F" "k0 < 768" "bitmaps_agree s'"
    and head: "\<And>k. k \<noteq> k0 \<Longrightarrow> head s' k = head s k"
    and same: "\<And>a n. F' a = Some n \<Longrightarrow> key n \<noteq> k0 \<Longrightarrow>
        F a = Some n \<and> free_prev s' a = free_prev s a \<and> free_next s' a = free_next s a"
    and stay: "\<And>a n. F a = Some n \<Longrightarrow> key n \<noteq> k0 \<Longrightarrow> F' a = Some n"
    and chain: "chain s' (head s' k0) xs" "set xs = members F' k0"
    and sizes: "\<And>a n. F' a = Some n \<Longrightarrow> a \<noteq> 0 \<and> 8 dvd n \<and> n < 2 ^ 30"
  shows "index s' F'"
proof -
  have "\<exists>xs. chain s' (head s' k) xs \<and> set xs = members F' k" if k: "k < 768" for k
  proof (cases "k = k0")
    case False
    obtain ys where ys: "chain s (head s k) ys" "set ys = members F k"
      using assms(1) k by (auto simp: index_def)
    have m: "members F' k = members F k"
      unfolding members_def using same stay False by (intro Collect_cong) blast
    have "chain s' (head s' k) ys = chain s (head s k) ys"
      unfolding head [OF False]
    proof (rule chain_cong)
      fix x
      assume "x \<in> set ys"
      then obtain n where "F' x = Some n" "key n = k"
        unfolding ys(2) m [symmetric] by (auto simp: members_def)
      then show "free_prev s' x = free_prev s x \<and> free_next s' x = free_next s x"
        using same False by blast
    qed
    with ys m show ?thesis by auto
  qed (use chain in auto)
  with assms(3) sizes show ?thesis unfolding index_def by blast
qed

section \<open>Entering and removing blocks\<close>

text \<open>What the index operations leave alone.\<close>

definition others :: "pool \<Rightarrow> u32 \<times> nat \<times> (nat \<Rightarrow> nat) \<times> (nat \<Rightarrow> u32) \<times> (nat \<Rightarrow> nat) \<times> (nat \<Rightarrow> nat) \<times> (nat \<Rightarrow> u8) \<times> nat" where
  "others s = (tlsf_signature s, area_head s, prev_hdr s, bsize s, ai_end s, ai_next s, bytes s, mp s)"

lemmas setters = set_free_prev_def set_free_next_def set_head_def clear_bits_def

lemma others_simps [simp]:
  "others (set_free_prev b v s) = others s" "others (set_free_next b v s) = others s"
  "others (set_head fl sl v s) = others s" "others (clear_bits fl sl s) = others s"
  by (simp_all add: others_def setters Let_def)

lemma chain_Cons:
  assumes "chain s h xs" "b \<notin> set xs" "b \<noteq> 0"
    and "free_next s' = (free_next s)(b := h)"
    and "free_prev s' = (let fp = (free_prev s)(b := 0) in if h \<noteq> 0 then fp(h := b) else fp)"
  shows "chain s' b (b # xs)"
proof -
  have h: "h = hd (xs @ [0])" "0 \<notin> set xs" "distinct xs"
    and l: "\<And>x. x \<in> set xs \<Longrightarrow> free_prev s x = before 0 xs x \<and> free_next s x = after xs x"
    using assms(1) by (auto simp: chain_def)
  have hb: "h \<noteq> b" using h assms(2,3) by (cases xs) auto
  have "free_prev s' x = before 0 (b # xs) x \<and> free_next s' x = after (b # xs) x" if "x \<in> set (b # xs)" for x
  proof (cases "x = b")
    case True
    then show ?thesis using hb h(1) by (auto simp: assms(4,5) Let_def)
  next
    case False
    with that have x: "x \<in> set xs" by simp
    with h(2) have "x \<noteq> 0" by metis
    with x show ?thesis
      using False l [OF x(1)] before_Cons_hd [OF x(1) h(3), of b]
      by (auto simp: assms(4,5) Let_def h(1))
  qed
  with h assms(2,3) show ?thesis by (simp add: chain_def)
qed

theorem INSERT_BLOCK_index:
  assumes "index s F" "F b = None" "b \<noteq> 0" "8 dvd n" "n < 2 ^ 30"
  obtains s' where "INSERT_BLOCK b (int (key n div 32)) (int (key n mod 32)) s = Some s'"
    "index s' (F(b \<mapsto> n))" "others s' = others s"
proof -
  let ?k = "key n" and ?F = "F(b \<mapsto> n)"
  have k: "?k < 768" using key_less_matrix [OF assms(5)] by simp
  note im = in_matrix_class [OF k]
  let ?fl = "int (?k div 32)" and ?sl = "int (?k mod 32)"
  define s1 where "s1 = set_free_next b (head s ?k) (set_free_prev b 0 s)"
  define s2 where "s2 = (if head s ?k \<noteq> 0 then set_free_prev (head s ?k) b s1 else s1)"
  define s3 where "s3 = set_head ?fl ?sl b s2"
  define s' where "s' = s3\<lparr>sl_bitmap := (sl_bitmap s3)(?fl := tlsf_set_bit ?sl (sl_bitmap s3 ?fl)),
    fl_bitmap := tlsf_set_bit ?fl (fl_bitmap s3)\<rparr>"
  have heads: "head s2 k = head s k" for k by (simp add: s2_def s1_def head_def setters)
  have head': "head s' k = (if k = ?k then b else head s k)" for k
    using head_set_head [of ?k b s2 k] by (simp add: s'_def s3_def head_def heads [unfolded head_def])
  have fields: "free_next s' = (free_next s)(b := head s ?k)"
    "free_prev s' = (let fp = (free_prev s)(b := 0) in if head s ?k \<noteq> 0 then fp(head s ?k := b) else fp)"
    "sl_bitmap s' = (sl_bitmap s)(?fl := tlsf_set_bit ?sl (sl_bitmap s ?fl))"
    "fl_bitmap s' = tlsf_set_bit ?fl (fl_bitmap s)" "others s' = others s"
    by (auto simp: s'_def s3_def s2_def s1_def setters others_def)
  have "INSERT_BLOCK b ?fl ?sl s = Some s'"
    using im unfolding INSERT_BLOCK_def s'_def s3_def s2_def s1_def head_def Let_def
    by (simp add: set_free_next_def set_free_prev_def)
  moreover have "others s' = others s" by (rule fields)
  moreover have "index s' ?F"
  proof -
    obtain xs where xs: "chain s (head s ?k) xs" "set xs = members F ?k"
      using assms(1) k by (auto simp: index_def)
    have b: "b \<notin> set xs" using assms(2) by (simp add: xs members_def)
    have hk: "head s ?k \<noteq> 0 \<Longrightarrow> \<exists>m. F (head s ?k) = Some m \<and> key m = ?k"
      using chain_head_in [OF xs(1)] xs(2) by (auto simp: members_def)
    show ?thesis
    proof (rule index_step [OF assms(1) k])
      show "bitmaps_agree s'"
        using assms(1,3) k head' fields by (intro set_bits_agree [of s ?k b s']) (auto simp: index_def)
      show "chain s' (head s' ?k) (b # xs)"
        using chain_Cons [OF xs(1) b assms(3) fields(1,2)] by (simp add: head')
      show "set (b # xs) = members ?F ?k" using assms(2) by (auto simp: members_def xs)
      show "F a = Some m \<and> free_prev s' a = free_prev s a \<and> free_next s' a = free_next s a"
        if "?F a = Some m" "key m \<noteq> ?k" for a m
        using that hk by (auto simp: fields Let_def split: if_splits)
      show "a \<noteq> 0 \<and> 8 dvd m \<and> m < 2 ^ 30" if "?F a = Some m" for a m
        using that assms by (auto simp: index_def split: if_splits)
    qed (use assms(2) in \<open>auto simp: head' split: if_splits\<close>)
  qed
  ultimately show thesis using that by blast
qed

lemma chain_remove1:
  assumes c: "chain s h xs" and b: "b \<in> set xs"
    and n: "\<And>x. x \<noteq> b \<Longrightarrow> x \<noteq> 0 \<Longrightarrow> free_next s' x = (if x = free_prev s b then free_next s b else free_next s x)"
    and p: "\<And>x. x \<noteq> b \<Longrightarrow> x \<noteq> 0 \<Longrightarrow> free_prev s' x = (if x = free_next s b then free_prev s b else free_prev s x)"
  shows "chain s' (if h = b then free_next s b else h) (remove1 b xs)"
proof -
  have h: "h = hd (xs @ [0])" "0 \<notin> set xs" "distinct xs"
    and l: "\<And>x. x \<in> set xs \<Longrightarrow> free_prev s x = before 0 xs x \<and> free_next s x = after xs x"
    using c by (auto simp: chain_def)
  have "(if h = b then free_next s b else h) = hd (remove1 b xs @ [0])"
    using hd_remove1 [OF h(3) b] l [OF b] h(1) by simp
  moreover have "free_prev s' x = before 0 (remove1 b xs) x \<and> free_next s' x = after (remove1 b xs) x"
    if "x \<in> set (remove1 b xs)" for x
  proof -
    have x: "x \<in> set xs" "x \<noteq> b" using that h by (simp_all add: set_remove1_eq)
    with h(2) have "x \<noteq> 0" by metis
    note x = x this
    have "free_prev s' x = before 0 (remove1 b xs) x"
      by (simp only: p [OF x(2,3)] l [OF x(1)] l [OF b] before_remove1 [OF h(3,2) b x(1,2)])
    moreover have "free_next s' x = after (remove1 b xs) x"
      by (simp only: n [OF x(2,3)] l [OF x(1)] l [OF b] after_remove1 [OF h(3,2) b x(1,2) h(2)])
    ultimately show ?thesis ..
  qed
  ultimately show ?thesis using h by (auto simp: chain_def distinct_remove1 dest: notin_set_remove1)
qed

lemma index_chain:
  assumes "index s F" "F b = Some n"
  obtains xs where "key n < 768" "chain s (head s (key n)) xs" "set xs = members F (key n)" "b \<in> set xs" "b \<noteq> 0"
proof -
  have n: "b \<noteq> 0" "n < 2 ^ 30" using assms by (auto simp: index_def)
  then have k: "key n < 768" using key_less_matrix [of n] by simp
  obtain xs where xs: "chain s (head s (key n)) xs" "set xs = members F (key n)"
    using assms(1) k by (auto simp: index_def)
  moreover have "b \<in> set xs" using assms(2) by (auto simp: xs members_def)
  ultimately show thesis using that k n by blast
qed

text \<open>\<^verbatim>\<open>EXTRACT_BLOCK\<close> in two steps: the neighbours in the list pass over the block, then the class drops it when
  it was the head, clearing the bits of a class left empty.\<close>

definition unlinked :: "nat \<Rightarrow> pool \<Rightarrow> pool" where
  "unlinked b s =
     (let s = (if free_next s b \<noteq> 0 then set_free_prev (free_next s b) (free_prev s b) s else s)
      in if free_prev s b \<noteq> 0 then set_free_next (free_prev s b) (free_next s b) s else s)"

definition unheaded :: "nat \<Rightarrow> nat \<Rightarrow> pool \<Rightarrow> pool" where
  "unheaded b k s =
     (if head s k = b
      then let s = set_head (int (k div 32)) (int (k mod 32)) (free_next s b) s
           in if head s k = 0 then clear_bits (int (k div 32)) (int (k mod 32)) s else s
      else s)"

lemma EXTRACT_BLOCK_steps:
  "k < 768 \<Longrightarrow> EXTRACT_BLOCK b (int (k div 32)) (int (k mod 32)) s =
    Some (set_free_next b 0 (set_free_prev b 0 (unheaded b k (unlinked b s))))"
  unfolding EXTRACT_BLOCK_def unlinked_def unheaded_def head_def Let_def
  by (simp only: in_matrix_class not_True_eq_False if_False)

lemma unlinked_simps:
  assumes "free_next s b \<noteq> b" "free_prev s b \<noteq> b"
  shows "free_next (unlinked b s) = (if free_prev s b \<noteq> 0 then (free_next s)(free_prev s b := free_next s b) else free_next s)"
    "free_prev (unlinked b s) = (if free_next s b \<noteq> 0 then (free_prev s)(free_next s b := free_prev s b) else free_prev s)"
    "free_next (unlinked b s) b = free_next s b"
    "head (unlinked b s) = head s" "sl_bitmap (unlinked b s) = sl_bitmap s" "fl_bitmap (unlinked b s) = fl_bitmap s"
    "others (unlinked b s) = others s"
  using assms by (auto simp: unlinked_def head_def set_free_prev_def set_free_next_def others_def)

lemma unheaded_simps:
  "free_next (unheaded b k s) = free_next s" "free_prev (unheaded b k s) = free_prev s"
  "head (unheaded b k s) j = (if j = k \<and> head s k = b then free_next s b else head s j)"
  "others (unheaded b k s) = others s"
proof -
  have "head (clear_bits fl sl t) = head t" for fl sl t
    by (auto simp: clear_bits_def Let_def head_def)
  then show "head (unheaded b k s) j = (if j = k \<and> head s k = b then free_next s b else head s j)"
    by (simp add: unheaded_def Let_def head_set_head)
  show "free_next (unheaded b k s) = free_next s" "free_prev (unheaded b k s) = free_prev s"
    by (simp_all add: unheaded_def Let_def set_head_def clear_bits_def)
  show "others (unheaded b k s) = others s" by (simp add: unheaded_def Let_def)
qed

lemma unheaded_agree:
  assumes agree: "bitmaps_agree s" and k: "k < 768" and b: "b \<noteq> 0"
  shows "bitmaps_agree (unheaded b k s)"
proof (cases "head s k = b \<and> free_next s b = 0")
  case True
  let ?t = "set_head (int (k div 32)) (int (k mod 32)) 0 s"
  have "bitmaps_agree (clear_bits (int (k div 32)) (int (k mod 32)) ?t)"
    by (rule clear_bits_agree [OF agree k head_set_head]) (simp_all add: set_head_def)
  then show ?thesis using True by (simp add: unheaded_def head_set_head)
next
  case False
  then have "unheaded b k s = s \<or> unheaded b k s = set_head (int (k div 32)) (int (k mod 32)) (free_next s b) s"
    by (auto simp: unheaded_def head_set_head)
  then have "sl_bitmap (unheaded b k s) = sl_bitmap s" "fl_bitmap (unheaded b k s) = fl_bitmap s"
    by (auto simp: set_head_def)
  then show ?thesis
    by (rule bitmaps_agree_cong [OF agree]) (use False b in \<open>auto simp: unheaded_simps\<close>)
qed

theorem EXTRACT_BLOCK_index:
  assumes "index s F" "F b = Some n"
  obtains s' where "EXTRACT_BLOCK b (int (key n div 32)) (int (key n mod 32)) s = Some s'"
    "index s' (F(b := None))" "others s' = others s"
proof -
  let ?k = "key n" and ?F = "F(b := None)"
  obtain xs where k: "?k < 768" and xs: "chain s (head s ?k) xs" "set xs = members F ?k"
    and b: "b \<in> set xs" "b \<noteq> 0" using index_chain [OF assms] .
  have links: "free_prev s b = before 0 xs b" "free_next s b = after xs b" "0 \<notin> set xs" "distinct xs"
    using xs(1) b by (auto simp: chain_def)
  have nb: "free_next s b \<noteq> b" using after_not_self [OF links(4,3) b(1)] links by simp
  have pb: "free_prev s b \<noteq> b" using before_not_self [of 0 b xs] b(2) by (simp add: links)
  define s1 where "s1 = unheaded b ?k (unlinked b s)"
  define s' where "s' = set_free_next b 0 (set_free_prev b 0 s1)"
  note u = unlinked_simps [OF nb pb]
  have s1: "free_next s1 = free_next (unlinked b s)" "free_prev s1 = free_prev (unlinked b s)"
    "head s1 j = (if j = ?k \<and> head s ?k = b then free_next s b else head s j)" for j
    by (simp_all add: s1_def unheaded_simps u)
  have "head s' = head s1" by (auto simp: s'_def head_def setters)
  then have f: "free_next s' = (free_next (unlinked b s))(b := 0)" "free_prev s' = (free_prev (unlinked b s))(b := 0)"
    "head s' j = (if j = ?k \<and> head s ?k = b then free_next s b else head s j)" for j
    by (simp_all add: s'_def set_free_next_def set_free_prev_def s1)
  have next': "free_next s' x = (if x = free_prev s b then free_next s b else free_next s x)"
    and prev': "free_prev s' x = (if x = free_next s b then free_prev s b else free_prev s x)"
    if "x \<noteq> b" "x \<noteq> 0" for x using that by (simp_all add: f u)
  have "EXTRACT_BLOCK b (int (?k div 32)) (int (?k mod 32)) s = Some s'"
    unfolding s'_def s1_def by (rule EXTRACT_BLOCK_steps [OF k])
  moreover have "others s' = others s" by (simp add: s'_def s1_def unheaded_simps u)
  moreover have "index s' ?F"
  proof (rule index_step [OF assms(1) k])
    have "bitmaps_agree (unlinked b s)"
      by (rule bitmaps_agree_cong [of s]) (use assms(1) u in \<open>simp_all add: index_def\<close>)
    then have "bitmaps_agree s1" unfolding s1_def by (rule unheaded_agree [OF _ k b(2)])
    then show "bitmaps_agree s'" by (rule bitmaps_agree_cong) (simp_all add: s'_def head_def setters)
    show "head s' j = head s j" if "j \<noteq> ?k" for j using that by (simp add: f)
    have "chain s' (if head s ?k = b then free_next s b else head s ?k) (remove1 b xs)"
      using chain_remove1 [OF xs(1) b(1) next' prev'] .
    then show "chain s' (head s' ?k) (remove1 b xs)" by (simp add: f)
    show "set (remove1 b xs) = members ?F ?k"
      using links(4) xs(2) by (auto simp: members_def set_remove1_eq)
    show "F a = Some m \<and> free_prev s' a = free_prev s a \<and> free_next s' a = free_next s a"
      if "?F a = Some m" "key m \<noteq> ?k" for a m
    proof -
      have a: "a \<noteq> b" "F a = Some m" using that by (auto split: if_splits)
      then have nz: "a \<noteq> 0" using assms(1) by (auto simp: index_def)
      have "a \<notin> set xs" using a(2) that(2) by (simp add: xs members_def)
      then have "a \<noteq> free_prev s b" "a \<noteq> free_next s b"
        using nz before_in [of 0 xs b] after_in [OF b(1)] unfolding links(1,2) by metis+
      with a nz show ?thesis by (simp add: next' prev')
    qed
    show "a \<noteq> 0 \<and> 8 dvd m \<and> m < 2 ^ 30" if "?F a = Some m" for a m
      using that assms by (auto simp: index_def split: if_splits)
    show "?F a = Some m" if "F a = Some m" "key m \<noteq> ?k" for a m using that assms(2) by auto
  qed
  ultimately show thesis using that by blast
qed

lemma set_bits_neq: "b \<noteq> x \<Longrightarrow> set_free_prev b u (set_free_next x v s) = set_free_next x v (set_free_prev b u s)"
  by (simp add: setters)

text \<open>At the head of its list a block is removed the same way by the shorter macro.\<close>

lemma EXTRACT_BLOCK_HDR_eq:
  assumes "index s F" "F b = Some n" "head s (key n) = b"
  shows "EXTRACT_BLOCK_HDR b (int (key n div 32)) (int (key n mod 32)) s =
    EXTRACT_BLOCK b (int (key n div 32)) (int (key n mod 32)) s"
proof -
  obtain xs where k: "key n < 768" and xs: "chain s (head s (key n)) xs" and b: "b \<in> set xs" "b \<noteq> 0"
    using index_chain [OF assms(1,2)] .
  have "free_prev s b = 0"
    using xs b assms(3) before_hd [of xs b] by (auto simp: chain_def)
  moreover have "free_next s b \<noteq> b" using xs b after_not_self [of xs b] by (auto simp: chain_def)
  moreover have "matrix s (int (key n div 32)) (int (key n mod 32)) = b" using assms(3) by (simp add: head_def)
  ultimately show ?thesis
    by (auto simp: EXTRACT_BLOCK_HDR_def EXTRACT_BLOCK_def in_matrix_class [OF k] setters Let_def)
qed

section \<open>Searching\<close>

lemma between_classes:
  fixes a m k :: nat
  assumes "a \<le> m" "m < k" "a div 32 = k div 32"
  shows "m div 32 = k div 32 \<and> a mod 32 \<le> m mod 32 \<and> m mod 32 < k mod 32"
proof -
  have d: "m div 32 = k div 32"
    using div_le_mono [OF assms(1), of 32] div_le_mono [of m k 32] assms(2,3) by simp
  then show ?thesis
    using assms div_mult_mod_eq [of a 32] div_mult_mod_eq [of m 32] div_mult_mod_eq [of k 32] by linarith
qed

lemma bit_from: "bit (w AND push_bit j (- 1)) i \<longleftrightarrow> j \<le> i \<and> bit w i" for w :: u32 and i j
  using bit_imp_le_length [of w i] unfolding bit_and_iff bit_push_bit_iff by auto

lemma index_marked:
  assumes "index s F"
  shows "k < 768 \<Longrightarrow> marked s k \<longleftrightarrow> head s k \<noteq> 0"
    "bit (fl_bitmap s) i \<longleftrightarrow> i < 24 \<and> sl_bitmap s (int i) \<noteq> 0"
    "F a = Some n \<Longrightarrow> key n < 768 \<and> marked s (key n)"
proof -
  show agree: "marked s k \<longleftrightarrow> head s k \<noteq> 0" if "k < 768" for k
    using assms that by (auto simp: index_def bitmaps_agree_def)
  show "bit (fl_bitmap s) i \<longleftrightarrow> i < 24 \<and> sl_bitmap s (int i) \<noteq> 0"
    using assms by (auto simp: index_def bitmaps_agree_def)
  show "key n < 768 \<and> marked s (key n)" if F: "F a = Some n"
  proof -
    obtain xs where "key n < 768" "chain s (head s (key n)) xs" "a \<in> set xs"
      using index_chain [OF assms F] by metis
    then show ?thesis using chain_null agree by fastforce
  qed
qed

text \<open>The two words the search scans: the classes of the requested first level, from the requested second level on, and
  the first levels above it.\<close>

definition row_from :: "pool \<Rightarrow> nat \<Rightarrow> u32" where
  "row_from s k0 = sl_bitmap s (int (k0 div 32)) AND push_bit (k0 mod 32) (- 1)"

definition rows_above :: "pool \<Rightarrow> nat \<Rightarrow> u32" where
  "rows_above s k0 = fl_bitmap s AND push_bit (k0 div 32 + 1) (- 1)"

lemma FIND_SUITABLE_BLOCK_words:
  assumes "k0 < 768"
  shows "FIND_SUITABLE_BLOCK s (int (k0 div 32)) (int (k0 mod 32)) =
    (if row_from s k0 \<noteq> 0
     then Some (matrix s (int (k0 div 32)) (ls_bit (row_from s k0)), int (k0 div 32), ls_bit (row_from s k0))
     else let f = ls_bit (rows_above s k0); i = ls_bit (sl_bitmap s f) in
       if f > 0 then if in_matrix f i then Some (matrix s f i, f, i) else None
       else Some (0, f, int (k0 mod 32)))"
proof -
  have next_fl: "nat (int (k0 div 32) + 1) = k0 div 32 + 1" by simp
  show ?thesis
    unfolding FIND_SUITABLE_BLOCK_def row_from_def rows_above_def Let_def next_fl nat_int
    by (simp only: in_matrix_class [OF assms] not_True_eq_False if_False)
qed

lemma find_in_row:
  assumes ix: "index s F" and k0: "k0 < 768" and row: "row_from s k0 \<noteq> 0"
  obtains k where "FIND_SUITABLE_BLOCK s (int (k0 div 32)) (int (k0 mod 32)) = Some (head s k, int (k div 32), int (k mod 32))"
    "k0 \<le> k" "k < 768" "head s k \<noteq> 0" "\<And>a n. F a = Some n \<Longrightarrow> k0 \<le> key n \<Longrightarrow> k \<le> key n"
proof -
  let ?fl = "k0 div 32" and ?sl = "k0 mod 32"
  obtain i where i: "ls_bit (row_from s k0) = int i" "i < 32" "bit (row_from s k0) i"
      "\<And>j. j < i \<Longrightarrow> \<not> bit (row_from s k0) j"
    using ls_bit_least [OF row] by metis
  define k where "k = 32 * ?fl + i"
  have kd: "k div 32 = ?fl" "k mod 32 = i" using i(2) by (auto simp: k_def)
  have ti: "?sl \<le> i" "bit (sl_bitmap s (int ?fl)) i" using i(3) unfolding row_from_def bit_from by blast+
  have "32 * ?fl + ?sl = k0" "?fl < 24" using k0 by simp_all
  then have k: "k0 \<le> k" "k < 768" using ti(1) i(2) unfolding k_def by linarith+
  show thesis
  proof (rule that [of k])
    show "FIND_SUITABLE_BLOCK s (int ?fl) (int ?sl) = Some (head s k, int (k div 32), int (k mod 32))"
      using row by (simp add: FIND_SUITABLE_BLOCK_words [OF k0] head_def kd i(1))
    show "head s k \<noteq> 0" using index_marked(1) [OF ix k(2)] ti(2) by (simp add: marked_def kd)
    show "k \<le> key n" if "F a = Some n" "k0 \<le> key n" for a n
    proof (rule ccontr)
      assume "\<not> k \<le> key n"
      then have "key n div 32 = ?fl \<and> ?sl \<le> key n mod 32 \<and> key n mod 32 < i"
        using that(2) i(2) k0 kd(1) between_classes [of k0 "key n" k] kd(2) by simp
      then show False
        using index_marked(3) [OF ix that(1)] i(4) [of "key n mod 32"] unfolding marked_def row_from_def bit_from by auto
    qed
  qed (use k in auto)
qed

lemma row_above:
  assumes ix: "index s F" and row: "row_from s k0 = 0"
  shows "bit (rows_above s k0) i \<longleftrightarrow> k0 div 32 < i \<and> i < 24 \<and> sl_bitmap s (int i) \<noteq> 0"
    "F a = Some n \<Longrightarrow> k0 \<le> key n \<Longrightarrow> bit (rows_above s k0) (key n div 32)"
proof -
  show above: "bit (rows_above s k0) i \<longleftrightarrow> k0 div 32 < i \<and> i < 24 \<and> sl_bitmap s (int i) \<noteq> 0" for i
    unfolding rows_above_def bit_from index_marked(2) [OF ix] by auto
  show "bit (rows_above s k0) (key n div 32)" if F: "F a = Some n" and le: "k0 \<le> key n"
  proof -
    have "k0 div 32 < key n div 32"
    proof (rule ccontr)
      assume "\<not> k0 div 32 < key n div 32"
      then have "key n div 32 = k0 div 32" "k0 mod 32 \<le> key n mod 32"
        using le between_classes [of k0 "key n" "key n + 1"] div_le_mono [OF le, of 32]
        by (auto simp: not_less) (metis (no_types) le_antisym mod_less_eq_dividend mult_div_mod_eq nat_add_left_cancel_le)
      then have "bit (row_from s k0) (key n mod 32)"
        using index_marked(3) [OF ix F] unfolding row_from_def bit_from marked_def by auto
      with row show False by simp
    qed
    moreover have "sl_bitmap s (int (key n div 32)) \<noteq> 0"
      using index_marked(3) [OF ix F] by (auto simp: marked_def)
    ultimately show ?thesis using index_marked(3) [OF ix F] by (auto simp: above)
  qed
qed

lemma find_above:
  assumes ix: "index s F" and k0: "k0 < 768" and row: "row_from s k0 = 0" and rows: "rows_above s k0 \<noteq> 0"
  obtains k where "FIND_SUITABLE_BLOCK s (int (k0 div 32)) (int (k0 mod 32)) = Some (head s k, int (k div 32), int (k mod 32))"
    "k0 \<le> k" "k < 768" "head s k \<noteq> 0" "\<And>a n. F a = Some n \<Longrightarrow> k0 \<le> key n \<Longrightarrow> k \<le> key n"
proof -
  obtain f where f: "ls_bit (rows_above s k0) = int f" "bit (rows_above s k0) f"
      "\<And>j. j < f \<Longrightarrow> \<not> bit (rows_above s k0) j"
    using ls_bit_least [OF rows] by metis
  then have f': "k0 div 32 < f" "f < 24" "sl_bitmap s (int f) \<noteq> 0" by (auto simp: row_above(1) [OF ix row])
  obtain i where i: "ls_bit (sl_bitmap s (int f)) = int i" "i < 32" "bit (sl_bitmap s (int f)) i"
      "\<And>j. j < i \<Longrightarrow> \<not> bit (sl_bitmap s (int f)) j"
    using ls_bit_least [OF f'(3)] by metis
  define k where "k = 32 * f + i"
  have kd: "k div 32 = f" "k mod 32 = i" using i(2) by (auto simp: k_def)
  have "32 * (k0 div 32) + k0 mod 32 = k0" "k0 mod 32 < 32" by simp_all
  then have k: "k0 \<le> k" "k < 768" using f' i(2) unfolding k_def by linarith+
  show thesis
  proof (rule that [of k])
    show "FIND_SUITABLE_BLOCK s (int (k0 div 32)) (int (k0 mod 32)) = Some (head s k, int (k div 32), int (k mod 32))"
      using row f' in_matrix_class [OF k(2)]
      by (simp add: FIND_SUITABLE_BLOCK_words [OF k0] head_def kd i(1) f(1) Let_def)
    show "head s k \<noteq> 0" using index_marked(1) [OF ix k(2)] i(3) by (simp add: marked_def kd)
    show "k \<le> key n" if "F a = Some n" "k0 \<le> key n" for a n
    proof (rule ccontr)
      assume lt: "\<not> k \<le> key n"
      have "\<not> key n div 32 < f" using row_above(2) [OF ix row that] f(3) by blast
      then have "key n div 32 = f" "key n mod 32 < i"
        using lt i(2) between_classes [of "32 * f" "key n" k] kd by (auto simp: not_le not_less)
      then show False using index_marked(3) [OF ix that(1)] i(4) by (simp add: marked_def)
    qed
  qed (use k in auto)
qed

lemma FIND_SUITABLE_BLOCK_index:
  assumes "index s F" "k0 < 768"
  obtains (none) fl sl where "FIND_SUITABLE_BLOCK s (int (k0 div 32)) (int (k0 mod 32)) = Some (0, fl, sl)"
      "\<And>a n. F a = Some n \<Longrightarrow> key n < k0"
  | (found) k where "FIND_SUITABLE_BLOCK s (int (k0 div 32)) (int (k0 mod 32)) = Some (head s k, int (k div 32), int (k mod 32))"
      "k0 \<le> k" "k < 768" "head s k \<noteq> 0" "\<And>a n. F a = Some n \<Longrightarrow> k0 \<le> key n \<Longrightarrow> k \<le> key n"
proof -
  consider "row_from s k0 \<noteq> 0" | "row_from s k0 = 0" "rows_above s k0 \<noteq> 0" | "row_from s k0 = 0" "rows_above s k0 = 0"
    by blast
  then show thesis
  proof cases
    case 1
    show thesis by (rule find_in_row [OF assms 1]) (rule found)
  next
    case 2
    show thesis by (rule find_above [OF assms 2]) (rule found)
  next
    case 3
    show thesis
    proof (rule none)
      show "FIND_SUITABLE_BLOCK s (int (k0 div 32)) (int (k0 mod 32)) = Some (0, -1, int (k0 mod 32))"
        using 3 by (simp add: FIND_SUITABLE_BLOCK_words [OF assms(2)])
      show "key n < k0" if "F a = Some n" for a n
        using row_above(2) [OF assms(1) 3(1) that] 3(2) by fastforce
    qed
  qed
qed

end
