(* ===== verification/TlsfPool.thy ===== *)
theory TlsfPool
  imports TlsfIndex
begin

text \<open>
  The layout of a pool: its space is tiled by blocks, each used or free, no two neighbours free,
  with headers that say so and a sentinel behind the last. Allocation cuts a free tile and release
  joins a tile with its free neighbours; the operations of the code refine these two on the list
  of tiles and keep the invariant of layout and index.
\<close>

section \<open>Tiles\<close>

type_synonym tile = "nat \<times> bool"

fun adv :: "nat \<Rightarrow> tile list \<Rightarrow> nat" where
  "adv a [] = a"
| "adv a ((n, f) # ts) = adv (a + (8 + n)) ts"

text \<open>\<open>pv\<close> is the block in front when that is free.\<close>

fun carry :: "nat \<Rightarrow> nat option \<Rightarrow> tile list \<Rightarrow> nat option" where
  "carry a pv [] = pv"
| "carry a pv ((n, f) # ts) = carry (a + (8 + n)) (if f then Some a else None) ts"

definition hdr :: "pool \<Rightarrow> nat \<Rightarrow> nat option \<Rightarrow> tile \<Rightarrow> bool" where
  "hdr s a pv t \<longleftrightarrow> bsize s a = tag (fst t) (snd t) (pv \<noteq> None) \<and> (\<forall>p. pv = Some p \<longrightarrow> prev_hdr s a = p)"

fun laid :: "pool \<Rightarrow> nat \<Rightarrow> nat option \<Rightarrow> tile list \<Rightarrow> bool" where
  "laid s a pv [] \<longleftrightarrow> True"
| "laid s a pv ((n, f) # ts) \<longleftrightarrow>
     hdr s a pv (n, f) \<and> laid s (a + (8 + n)) (if f then Some a else None) ts"

fun frees :: "nat \<Rightarrow> tile list \<Rightarrow> (nat \<rightharpoonup> nat)" where
  "frees a [] = Map.empty"
| "frees a ((n, f) # ts) = (frees (a + (8 + n)) ts)(a := if f then Some n else None)"

text \<open>The blocks handed out, by the address the caller has.\<close>

fun lives :: "nat \<Rightarrow> tile list \<Rightarrow> (nat \<rightharpoonup> nat)" where
  "lives a [] = Map.empty"
| "lives a ((n, f) # ts) = (lives (a + (8 + n)) ts)(a + 8 := if f then None else Some n)"

lemma adv_append [simp]: "adv a (xs @ ys) = adv (adv a xs) ys"
  by (induction a xs rule: adv.induct) simp_all

lemma adv_ge: "a \<le> adv a ts"
  by (induction a ts rule: adv.induct) auto

lemma carry_append [simp]: "carry a pv (xs @ ys) = carry (adv a xs) (carry a pv xs) ys"
  by (induction a pv xs rule: carry.induct) simp_all

lemma laid_append [simp]: "laid s a pv (xs @ ys) \<longleftrightarrow> laid s a pv xs \<and> laid s (adv a xs) (carry a pv xs) ys"
  by (induction s a pv xs rule: laid.induct) simp_all

lemma laid_cong:
  assumes "\<And>x. a \<le> x \<Longrightarrow> x < adv a ts \<Longrightarrow> bsize s' x = bsize s x \<and> prev_hdr s' x = prev_hdr s x"
  shows "laid s' a pv ts = laid s a pv ts"
  using assms
proof (induction s a pv ts rule: laid.induct)
  case (2 s a pv n f ts)
  have "bsize s' a = bsize s a \<and> prev_hdr s' a = prev_hdr s a"
    using 2(2) [of a] adv_ge [of "a + (8 + n)" ts] by simp
  then show ?case using 2 by (simp add: hdr_def)
qed simp

lemma frees_range: "frees a ts x = Some n \<Longrightarrow> a \<le> x \<and> x + 8 + n \<le> adv a ts"
proof (induction a ts rule: frees.induct)
  case (2 a n' f ts)
  then show ?case using adv_ge [of "a + (8 + n')" ts] by (fastforce split: if_splits)
qed simp

lemma frees_take: "frees a (us @ (n, False) # vs) = (frees a (us @ (n, True) # vs))(adv a us := None)"
  and frees_give: "frees a (us @ (n, True) # vs) = (frees a (us @ (n, False) # vs))(adv a us \<mapsto> n)"
  and frees_join: "frees a (us @ (n, False) # (m, False) # vs) = frees a (us @ (n + (m + 8), False) # vs)"
proof -
  have ne: "adv (a + (8 + n)) us \<noteq> a" "a \<noteq> adv (a + (8 + n)) us" for a n us
    using adv_ge [of "a + (8 + n)" us] by auto
  show "frees a (us @ (n, False) # vs) = (frees a (us @ (n, True) # vs))(adv a us := None)"
    by (induction us arbitrary: a) (auto simp: fun_eq_iff ne)
  show "frees a (us @ (n, True) # vs) = (frees a (us @ (n, False) # vs))(adv a us \<mapsto> n)"
    by (induction us arbitrary: a) (auto simp: fun_eq_iff ne)
  show "frees a (us @ (n, False) # (m, False) # vs) = frees a (us @ (n + (m + 8), False) # vs)"
  proof (induction us arbitrary: a)
    case Nil
    have "frees (a + (8 + n) + (8 + m)) vs (a + (8 + n)) = None"
      using frees_range [of "a + (8 + n) + (8 + m)" vs "a + (8 + n)"] by (cases "frees (a + (8 + n) + (8 + m)) vs (a + (8 + n))") auto
    then show ?case by (auto simp: fun_eq_iff add.assoc add.commute add.left_commute)
  qed auto
qed

lemma frees_used: "frees a (us @ (n, False) # vs) (adv a us) = None"
  by (simp add: frees_take)

lemma frees_free: "frees a (us @ (n, True) # vs) (adv a us) = Some n"
  by (simp add: frees_give)

lemma frees_split:
  assumes "frees a ts b = Some n"
  obtains us vs where "ts = us @ (n, True) # vs" "b = adv a us"
  using assms
proof (induction a ts arbitrary: thesis rule: frees.induct)
  case (2 a m f ts)
  show ?case
  proof (cases "b = a")
    case True
    with 2(3) have "f" "m = n" by (auto split: if_splits)
    with True show ?thesis using 2(2) [of "[]" ts] by simp
  next
    case False
    with 2(3) have "frees (a + (8 + m)) ts b = Some n" by simp
    from 2(1) [OF _ this] obtain us vs where "ts = us @ (n, True) # vs" "b = adv (a + (8 + m)) us" by blast
    then show ?thesis using 2(2) [of "(m, f) # us" vs] by simp
  qed
qed simp

section \<open>The invariant\<close>

definition wf_tiles :: "nat \<Rightarrow> tile list \<Rightarrow> bool" where
  "wf_tiles a ts \<longleftrightarrow> a \<noteq> 0 \<and> adv a ts < a + 2 ^ 30 \<and> (\<forall>(n, f)\<in>set ts. 8 dvd n \<and> 8 \<le> n)"

definition spaced :: "tile list \<Rightarrow> bool" where
  "spaced ts \<longleftrightarrow> successively (\<lambda>t u. \<not> (snd t \<and> snd u)) ts"

abbreviation sentinel :: tile where "sentinel \<equiv> (0, False)"

definition pool_ok :: "pool \<Rightarrow> nat \<Rightarrow> tile list \<Rightarrow> bool" where
  "pool_ok s a ts \<longleftrightarrow> wf_tiles a ts \<and> spaced ts \<and> laid s a None (ts @ [sentinel]) \<and> index s (frees a ts)"

lemma wf_tiles_mem:
  assumes "wf_tiles a (us @ (n, f) # vs)"
  shows "8 dvd n" "8 \<le> n" "n < 2 ^ 30" "adv a us + n + 8 < a + 2 ^ 30"
  using assms adv_ge [of a us] adv_ge [of "adv a us + (8 + n)" vs] by (auto simp: wf_tiles_def)

lemma spaced_append: "spaced (us @ vs) \<longleftrightarrow> spaced us \<and> spaced vs \<and>
    (us = [] \<or> vs = [] \<or> \<not> (snd (last us) \<and> snd (hd vs)))"
  by (auto simp: spaced_def successively_append_iff)

lemma spaced_Cons: "spaced (t # ts) \<longleftrightarrow> spaced ts \<and> (ts = [] \<or> \<not> (snd t \<and> snd (hd ts)))"
  using spaced_append [of "[t]" ts] by (simp add: spaced_def)

lemma carry_last: "carry a None us = (if us \<noteq> [] \<and> snd (last us) then Some (adv a (butlast us)) else None)"
proof (cases us rule: rev_cases)
  case (snoc xs t)
  then show ?thesis by (cases t) simp
qed simp

lemma hdr_size:
  assumes "bsize s b = tag n f p" "8 dvd n"
  shows "size_of s b = of_nat n"
  using assms by (simp add: size_of_def tag_simps)

lemma next_block_tag:
  assumes "bsize s b = tag n f p" "8 dvd n" "n < 2 ^ 30"
  shows "next_block s b = b + (8 + n)"
  using assms unat_of_nat_small [of n, where ?'a = 32]
  by (simp add: next_block_def hdr_size buffer_def BHDR_OVERHEAD_def GET_NEXT_BLOCK_def)

text \<open>The index does not depend on sizes, headers and the links of blocks that are not free.\<close>

lemma index_frame:
  assumes "index s F"
    and "\<And>x. F x \<noteq> None \<Longrightarrow> free_prev s' x = free_prev s x \<and> free_next s' x = free_next s x"
    and m: "matrix s' = matrix s" and b: "sl_bitmap s' = sl_bitmap s" "fl_bitmap s' = fl_bitmap s"
  shows "index s' F"
proof -
  have h: "head s' = head s" by (simp add: head_def m fun_eq_iff)
  have "\<exists>xs. chain s' (head s' k) xs \<and> set xs = members F k" if "k < 768" for k
  proof -
    from assms(1) that obtain xs where xs: "chain s (head s k) xs" "set xs = members F k"
      by (auto simp: index_def)
    have "chain s' (head s k) xs = chain s (head s k) xs"
      by (rule chain_cong, rule assms(2)) (auto simp: xs(2) members_def)
    with xs show ?thesis by (auto simp: h)
  qed
  moreover have "bitmaps_agree s'"
    using assms(1) bitmaps_agree_cong [of s s'] by (simp add: index_def h b)
  ultimately show ?thesis using assms(1) by (simp add: index_def)
qed

lemma index_set [simp]:
  "index s F \<Longrightarrow> index (set_size b v s) F" "index s F \<Longrightarrow> index (set_prev_hdr b u s) F"
  by (erule index_frame; simp add: set_size_def set_prev_hdr_def)+

lemma index_set_links: "index s F \<Longrightarrow> F b = None \<Longrightarrow> index (set_free_next b u (set_free_prev b v s)) F"
  by (erule index_frame) (auto simp: setters)

definition frame :: "pool \<Rightarrow> u32 \<times> nat \<times> (nat \<Rightarrow> nat) \<times> (nat \<Rightarrow> nat) \<times> (nat \<Rightarrow> u8) \<times> nat" where
  "frame s = (tlsf_signature s, area_head s, ai_end s, ai_next s, bytes s, mp s)"

lemma others_eqD:
  assumes "others s' = others s"
  shows "bsize s' = bsize s" "prev_hdr s' = prev_hdr s" "frame s' = frame s"
  using assms by (auto simp: others_def frame_def)

lemma laid_head:
  assumes "laid s x pv (t # ts)" "bsize s' x = tag (fst t) (snd t) (pv' \<noteq> None)"
    "\<And>p. pv' = Some p \<Longrightarrow> prev_hdr s' x = p"
    "\<And>y. x < y \<Longrightarrow> bsize s' y = bsize s y \<and> prev_hdr s' y = prev_hdr s y"
  shows "laid s' x pv' (t # ts)"
proof (cases t)
  case (Pair n f)
  have "laid s' (x + (8 + n)) q ts = laid s (x + (8 + n)) q ts" for q
    by (rule laid_cong) (use assms(4) in auto)
  with Pair assms show ?thesis by (auto simp: hdr_def)
qed

lemma laid_before:
  assumes "laid s a pv us" "\<And>y. y < adv a us \<Longrightarrow> bsize s' y = bsize s y \<and> prev_hdr s' y = prev_hdr s y"
  shows "laid s' a pv us"
  using assms laid_cong [of a us s' s pv] by auto

text \<open>What is allocated from a free tile of \<open>n\<close> bytes for a request of \<open>r\<close>.\<close>

definition cut :: "nat \<Rightarrow> nat \<Rightarrow> tile list" where
  "cut r n = (if r + 16 \<le> n then [(r, False), (n - r - 8, True)] else [(n, False)])"

lemma setter_fields [simp]:
  "bsize (set_size b v s) = (bsize s)(b := v)" "prev_hdr (set_size b v s) = prev_hdr s"
  "bsize (set_prev_hdr b u s) = bsize s" "prev_hdr (set_prev_hdr b u s) = (prev_hdr s)(b := u)"
  "frame (set_size b v s) = frame s" "frame (set_prev_hdr b u s) = frame s"
  "size_of (set_prev_hdr b u s) = size_of s"
  by (simp_all add: set_size_def set_prev_hdr_def size_of_def frame_def fun_eq_iff)

lemma tiles_at:
  assumes wf: "wf_tiles a (us @ (n, True) # vs)" and sp: "spaced (us @ (n, True) # vs)"
    and laid: "laid s a None (us @ (n, True) # vs @ [sentinel])"
  obtains m ts where "vs @ [sentinel] = (m, False) # ts" "8 dvd m" "laid s a None us"
    "hdr s (adv a us) (carry a None us) (n, True)"
    "laid s (adv a us + (8 + n)) (Some (adv a us)) ((m, False) # ts)"
    "next_block s (adv a us) = adv a us + (8 + n)" "size_of s (adv a us) = of_nat n"
proof -
  obtain m g ts where tail: "vs @ [sentinel] = (m, g) # ts" by (cases "vs @ [sentinel]") auto
  have g: "g = False" using tail sp by (cases vs) (auto simp: spaced_append spaced_Cons)
  have L: "laid s a None us" "hdr s (adv a us) (carry a None us) (n, True)"
    "laid s (adv a us + (8 + n)) (Some (adv a us)) ((m, False) # ts)"
    using laid by (simp_all add: tail [unfolded g, symmetric])
  note n = wf_tiles_mem [OF wf]
  have hb: "bsize s (adv a us) = tag n True (carry a None us \<noteq> None)" using L(2) by (simp add: hdr_def)
  show thesis
  proof (rule that [OF tail [unfolded g] _ L])
    show "8 dvd m" using tail wf by (cases vs) (auto simp: wf_tiles_def)
    show "next_block s (adv a us) = adv a us + (8 + n)" by (rule next_block_tag [OF hb n(1,3)])
    show "size_of s (adv a us) = of_nat n" by (rule hdr_size [OF hb n(1)])
  qed
qed

lemma split_room:
  assumes "n < 2 ^ 30" "r \<le> n"
  shows "(of_nat n - of_nat r :: u32) = of_nat (n - r)"
    "(of_nat (n - r) :: u32) \<ge> sizeof_bhdr \<longleftrightarrow> r + 16 \<le> n"
    "r + 16 \<le> n \<Longrightarrow> (of_nat (n - r) :: u32) - of_nat BHDR_OVERHEAD = of_nat (n - r - 8)"
    "GET_NEXT_BLOCK (buffer b) (of_nat r) = b + (8 + r)"
proof -
  show "(of_nat n - of_nat r :: u32) = of_nat (n - r)" using assms(2) by (simp add: of_nat_diff)
  have "unat (of_nat (n - r) :: u32) = n - r" using assms by (intro unat_of_nat_small) simp
  then show "(of_nat (n - r) :: u32) \<ge> sizeof_bhdr \<longleftrightarrow> r + 16 \<le> n"
    using assms(2) by (auto simp: word_le_nat_alt sizeof_bhdr_def)
  show "(of_nat (n - r) :: u32) - of_nat BHDR_OVERHEAD = of_nat (n - r - 8)" if "r + 16 \<le> n"
    using that by (simp add: BHDR_OVERHEAD_def of_nat_diff)
  show "GET_NEXT_BLOCK (buffer b) (of_nat r) = b + (8 + r)"
    using assms unat_of_nat_small [of r, where ?'a = 32]
    by (simp add: GET_NEXT_BLOCK_def buffer_def BHDR_OVERHEAD_def)
qed

text \<open>The remainder holds a header: it becomes a free block of its own.\<close>

lemma take_block_split:
  assumes wf: "wf_tiles a (us @ (n, True) # vs)" and sp: "spaced (us @ (n, True) # vs)"
    and laid: "laid s a None (us @ (n, True) # vs @ [sentinel])"
    and ix: "index s (frees a (us @ (n, False) # vs))"
    and r: "8 dvd r" "8 \<le> r" "r + 16 \<le> n"
  obtains s' where "take_block (adv a us) (of_nat r) s = Some s'"
    "pool_ok s' a (us @ (r, False) # (n - r - 8, True) # vs)" "frame s' = frame s"
proof -
  obtain m ts where tail: "vs @ [sentinel] = (m, False) # ts" and L: "laid s a None us"
    "hdr s (adv a us) (carry a None us) (n, True)" "laid s (adv a us + (8 + n)) (Some (adv a us)) ((m, False) # ts)"
    and at: "next_block s (adv a us) = adv a us + (8 + n)" "size_of s (adv a us) = of_nat n"
    using tiles_at [OF wf sp laid] by metis
  define b pv k where "b = adv a us" and "pv = carry a None us" and "k = n - r - 8"
  define b2 where "b2 = b + (8 + r)"
  let ?nb = "b + (8 + n)" and ?F = "frees a (us @ (n, False) # vs)" and ?t = "us @ (r, False) # (k, True) # vs"
  note n = wf_tiles_mem [OF wf] and L = L [folded b_def pv_def] and at = at [folded b_def]
  have hb: "bsize s b = tag n True (pv \<noteq> None)" and hp: "\<And>p. pv = Some p \<Longrightarrow> prev_hdr s b = p"
    using L(2) by (auto simp: hdr_def)
  have hn: "bsize s ?nb = tag m False True" using L(3) by (simp add: hdr_def)
  have k: "8 dvd k" "8 \<le> k" "k < 2 ^ 30" "n = r + (k + 8)" using n r by (auto simp: k_def)
  have bb: "b \<noteq> b2" "b \<noteq> ?nb" "b2 \<noteq> ?nb" "b < b2" "b2 < ?nb" "?nb = b2 + (8 + k)"
    using k(4) by (auto simp: b2_def)
  have rn: "r \<le> n" using r(3) by simp
  note room = split_room [OF n(3) rn]
  define s1 where "s1 = set_prev_hdr ?nb b2 (set_size b2 (tag k True False) s)"
  have F2: "?F = frees a ((us @ [(r, False)]) @ (k, False) # vs)" by (simp add: frees_join k(4))
  have b2': "adv a (us @ [(r, False)]) = b2" by (simp add: b_def b2_def)
  have "?F b2 = None" using frees_used [of a "us @ [(r, False)]" k vs] unfolding b2' F2 by simp
  then obtain s2 where s2: "INSERT_BLOCK b2 (int (key k div 32)) (int (key k mod 32)) s1 = Some s2"
    "index s2 (?F(b2 \<mapsto> k))" "others s2 = others s1"
    using INSERT_BLOCK_index [of s1 ?F b2 k] k ix by (auto simp: s1_def b2_def)
  note o = others_eqD [OF s2(3)]
  define s' where "s' = set_size b (tag r False (pv \<noteq> None)) s2"
  have tags: "of_nat r OR (bsize s2 b AND PREV_STATE) = tag r False (pv \<noteq> None)" "of_nat k OR FREE_BLOCK = tag k True False"
    using bb by (simp_all add: o s1_def hb tag_simps n(1) r(1) k)
  have key: "MAPPING_INSERT (of_nat k) = (int (key k div 32), int (key k mod 32))" using k by (intro MAPPING_INSERT_key) simp
  have "take_block b (of_nat r) s = Some s'"
    using r(3) tags s2(1) [unfolded s1_def]
    unfolding take_block_def Let_def at room(1,2,4) room(3) [OF r(3)] k_def [symmetric] b2_def [symmetric]
    by (simp add: key s'_def)
  moreover have "pool_ok s' a ?t"
  proof -
    have "frees a ?t = ?F(b2 \<mapsto> k)"
      using frees_give [of a "us @ [(r, False)]" k vs] unfolding b2' F2 by simp
    then have "index s' (frees a ?t)" using s2(2) by (simp add: s'_def)
    moreover have "laid s' a None us"
      by (rule laid_before [OF L(1)]) (use bb in \<open>auto simp: s'_def o s1_def b_def\<close>)
    moreover have "hdr s' b pv (r, False)" using bb hp by (auto simp: hdr_def s'_def o s1_def)
    moreover have "hdr s' b2 None (k, True)" using bb by (auto simp: hdr_def s'_def o s1_def)
    moreover have "laid s' ?nb (Some b2) ((m, False) # ts)"
      by (rule laid_head [OF L(3)]) (use bb hn in \<open>auto simp: s'_def o s1_def\<close>)
    moreover have "wf_tiles a ?t" "spaced ?t"
      using wf sp k r by (auto simp: wf_tiles_def add.assoc spaced_append spaced_Cons)
    ultimately show ?thesis by (simp add: pool_ok_def tail bb(6) b2_def flip: b_def pv_def)
  qed
  moreover have "frame s' = frame s" by (simp add: s'_def o s1_def)
  ultimately show thesis using that by (simp add: b_def k_def)
qed

text \<open>The remainder is too small: the block is taken whole.\<close>

lemma take_block_whole:
  assumes wf: "wf_tiles a (us @ (n, True) # vs)" and sp: "spaced (us @ (n, True) # vs)"
    and laid: "laid s a None (us @ (n, True) # vs @ [sentinel])"
    and ix: "index s (frees a (us @ (n, False) # vs))"
    and r: "r \<le> n" "n < r + 16"
  obtains s' where "take_block (adv a us) (of_nat r) s = Some s'"
    "pool_ok s' a (us @ (n, False) # vs)" "frame s' = frame s"
proof -
  obtain m ts where tail: "vs @ [sentinel] = (m, False) # ts" and m8: "8 dvd m" and L: "laid s a None us"
    "hdr s (adv a us) (carry a None us) (n, True)" "laid s (adv a us + (8 + n)) (Some (adv a us)) ((m, False) # ts)"
    and at: "next_block s (adv a us) = adv a us + (8 + n)" "size_of s (adv a us) = of_nat n"
    using tiles_at [OF wf sp laid] by metis
  define b pv where "b = adv a us" and "pv = carry a None us"
  let ?nb = "b + (8 + n)"
  note n = wf_tiles_mem [OF wf] and L = L [folded b_def pv_def] and at = at [folded b_def]
  have hb: "bsize s b = tag n True (pv \<noteq> None)" and hp: "\<And>p. pv = Some p \<Longrightarrow> prev_hdr s b = p"
    using L(2) by (auto simp: hdr_def)
  have hn: "bsize s ?nb = tag m False True" using L(3) by (simp add: hdr_def)
  note room = split_room [OF n(3) r(1)]
  define s' where "s' = set_size b (tag n False (pv \<noteq> None)) (set_size ?nb (tag m False False) s)"
  have "take_block b (of_nat r) s = Some s'"
    using r(2) unfolding take_block_def Let_def at room(1,2)
    by (simp add: s'_def hn tag_simps m8 hb n(1))
  moreover have "pool_ok s' a (us @ (n, False) # vs)"
  proof -
    have "laid s' a None us" by (rule laid_before [OF L(1)]) (auto simp: s'_def b_def)
    moreover have "hdr s' b pv (n, False)" using hp by (auto simp: hdr_def s'_def)
    moreover have "laid s' ?nb None ((m, False) # ts)" by (rule laid_head [OF L(3)]) (auto simp: s'_def)
    ultimately have "laid s' a None ((us @ (n, False) # vs) @ [sentinel])"
      by (simp add: tail flip: b_def pv_def)
    then show ?thesis
      using ix wf sp by (auto simp: pool_ok_def s'_def wf_tiles_def spaced_append spaced_Cons)
  qed
  moreover have "frame s' = frame s" by (simp add: s'_def)
  ultimately show thesis using that by (simp add: b_def)
qed

lemma take_block_ok:
  assumes wf: "wf_tiles a (us @ (n, True) # vs)" and sp: "spaced (us @ (n, True) # vs)"
    and laid: "laid s a None (us @ (n, True) # vs @ [sentinel])"
    and ix: "index s (frees a (us @ (n, False) # vs))"
    and r: "8 dvd r" "8 \<le> r" "r \<le> n"
  obtains s' where "take_block (adv a us) (of_nat r) s = Some s'" "pool_ok s' a (us @ cut r n @ vs)" "frame s' = frame s"
proof (cases "r + 16 \<le> n")
  case True
  then show thesis
    using take_block_split [OF wf sp laid ix r(1,2) True] that by (auto simp: cut_def)
next
  case False
  then show thesis
    using take_block_whole [OF wf sp laid ix r(3)] that by (auto simp: cut_def)
qed

section \<open>Allocation\<close>

text \<open>The size that a request is rounded to.\<close>

definition need :: "nat \<Rightarrow> nat" where
  "need n = (if n < 8 then 8 else (n + 7) div 8 * 8)"

lemma need_bounds: "n \<le> need n" "8 \<le> need n" "8 dvd need n" "need n \<le> n + 8"
  by (auto simp: need_def)

lemma ROUNDUP_SIZE_nat:
  assumes "n + 7 < 2 ^ 32"
  shows "ROUNDUP_SIZE (of_nat n) = of_nat ((n + 7) div 8 * 8)"
proof -
  have "MEM_ALIGN = push_bit 3 1 - 1" "(of_nat n :: u32) + MEM_ALIGN = of_nat (n + 7)"
    by (simp_all add: MEM_ALIGN_def BLOCK_ALIGN_def)
  then have "ROUNDUP_SIZE (of_nat n) = of_nat (n + 7) AND NOT (push_bit 3 1 - 1)"
    unfolding ROUNDUP_SIZE_def by (simp only:)
  then show ?thesis using and_not_mask_nat [of "n + 7" 3] assms by simp
qed

lemma need_word:
  assumes "unat sz + 7 < 2 ^ 32"
  shows "(if sz < MIN_BLOCK_SIZE then MIN_BLOCK_SIZE else ROUNDUP_SIZE sz) = of_nat (need (unat sz))"
  using ROUNDUP_SIZE_nat [OF assms]
  by (simp add: need_def MIN_BLOCK_SIZE_def word_less_nat_alt)

lemma malloc_ex_search:
  assumes "unat sz + 7 < 2 ^ 31"
  defines "r \<equiv> fit (need (unat sz))"
  shows "malloc_ex sz s = do {
    (b, fl, sl) \<leftarrow> FIND_SUITABLE_BLOCK s (int (key r div 32)) (int (key r mod 32));
    if b = 0 then Some (0, s)
    else do {
      s \<leftarrow> EXTRACT_BLOCK_HDR b fl sl s;
      s \<leftarrow> take_block b (of_nat r) s;
      Some (buffer b, s) } }"
proof -
  have n: "need (unat sz) < 2 ^ 31" using assms(1) by (auto simp: need_def)
  have w: "unat sz + 7 < 2 ^ 32" using assms(1) by simp
  show ?thesis
    unfolding malloc_ex_def Let_def need_word [OF w] MAPPING_SEARCH_fit [OF n] r_def
    by simp
qed

lemma malloc_ex_ok:
  assumes ok: "pool_ok s a ts" and sz: "unat sz + 7 < 2 ^ 31" and r: "fit (need (unat sz)) < 2 ^ 30"
  obtains (null) "malloc_ex sz s = Some (0, s)" "\<And>n. (n, True) \<in> set ts \<Longrightarrow> n < fit (need (unat sz))"
  | (block) us n vs s' where "malloc_ex sz s = Some (adv a us + 8, s')" "ts = us @ (n, True) # vs"
      "fit (need (unat sz)) \<le> n" "pool_ok s' a (us @ cut (fit (need (unat sz))) n @ vs)" "frame s' = frame s"
      "\<And>m. (m, True) \<in> set ts \<Longrightarrow> fit (need (unat sz)) \<le> m \<Longrightarrow> key n \<le> key m"
proof -
  define R where "R = fit (need (unat sz))"
  have n31: "need (unat sz) < 2 ^ 31" using sz by (auto simp: need_def)
  have R8: "8 dvd R" "8 \<le> R" "R < 2 ^ 30"
    using fit_dvd [of "need (unat sz)"] fit_bounds(1) [of "need (unat sz)"] need_bounds [of "unat sz"] n31 r
    by (auto simp: R_def)
  have k: "key R < 768" using key_less_matrix [OF R8(3)] by simp
  have wf: "wf_tiles a ts" and sp: "spaced ts" and laid: "laid s a None (ts @ [sentinel])" and ix: "index s (frees a ts)"
    using ok by (auto simp: pool_ok_def)
  have sizes: "8 dvd n \<and> n < 2 ^ 30" if "frees a ts b = Some n" for b n
    using ix that by (auto simp: index_def)
  have in_frees: "\<exists>b. frees a ts b = Some m" if "(m, True) \<in> set ts" for m
    using split_list [OF that] frees_free by metis
  have fits: "R \<le> n" if "frees a ts b = Some n" "key R \<le> key n" for b n
    using fit_least [of "need (unat sz)" n] need_bounds(3) n31 sizes [OF that(1)] that(2) by (simp add: R_def)
  note M = malloc_ex_search [OF sz, of s, folded R_def]
  show thesis
  proof (rule FIND_SUITABLE_BLOCK_index [OF ix k], goal_cases none found)
    case (none fl sl)
    show thesis
    proof (rule null)
      show "malloc_ex sz s = Some (0, s)" unfolding M none(1) by simp
      show "n < fit (need (unat sz))" if "(n, True) \<in> set ts" for n
      proof (rule ccontr)
        assume "\<not> n < fit (need (unat sz))"
        then have "R \<le> n" by (simp add: R_def)
        from in_frees [OF that] obtain b where b: "frees a ts b = Some n" ..
        have "key R \<le> key n" using key_mono [OF \<open>R \<le> n\<close>] sizes [OF b] by simp
        with none(2) [OF b] show False by simp
      qed
    qed
  next
    case (found c)
    from ix found(3) obtain xs where xs: "chain s (head s c) xs" "set xs = members (frees a ts) c"
      by (auto simp: index_def)
    from chain_head_in [OF xs(1) found(4)] xs(2) obtain n where n: "frees a ts (head s c) = Some n" "key n = c"
      by (auto simp: members_def)
    obtain us vs where ts: "ts = us @ (n, True) # vs" "head s c = adv a us" using frees_split [OF n(1)] .
    obtain s1 where s1: "EXTRACT_BLOCK (adv a us) (int (c div 32)) (int (c mod 32)) s = Some s1"
      "index s1 ((frees a ts)(adv a us := None))" "others s1 = others s"
      using EXTRACT_BLOCK_index [OF ix n(1)] by (metis n(2) ts(2))
    have hdr: "EXTRACT_BLOCK_HDR (adv a us) (int (c div 32)) (int (c mod 32)) s = Some s1"
      using EXTRACT_BLOCK_HDR_eq [OF ix n(1)] s1(1) by (simp add: n(2) ts(2))
    note o = others_eqD [OF s1(3)]
    have "laid s1 a None (us @ (n, True) # vs @ [sentinel])"
      using laid laid_cong [of a "ts @ [sentinel]" s1 s None] by (simp add: o ts(1))
    moreover have "index s1 (frees a (us @ (n, False) # vs))" using s1(2) by (simp add: frees_take ts(1))
    moreover have "R \<le> n" using fits [OF n(1)] found(2) n(2) by simp
    ultimately obtain s' where s': "take_block (adv a us) (of_nat R) s1 = Some s'"
      "pool_ok s' a (us @ cut R n @ vs)" "frame s' = frame s1"
      using take_block_ok [of a us n vs s1 R] wf sp R8 unfolding ts(1) by blast
    show thesis
    proof (rule block)
      show "malloc_ex sz s = Some (adv a us + 8, s')"
        unfolding M found(1) using found(4) by (simp add: ts(2) hdr s'(1) buffer_def BHDR_OVERHEAD_def)
      show "key n \<le> key m" if "(m, True) \<in> set ts" "fit (need (unat sz)) \<le> m" for m
      proof -
        from in_frees [OF that(1)] obtain b where b: "frees a ts b = Some m" ..
        have "key R \<le> key m" using key_mono [of R m] sizes [OF b] that(2) by (simp add: R_def)
        from found(5) [OF b this] show ?thesis by (simp add: n(2))
      qed
    qed (use ts s' \<open>R \<le> n\<close> o in \<open>simp_all add: R_def\<close>)
  qed
qed

section \<open>Release\<close>

text \<open>A tile swallows a free neighbour; a released one its neighbours on both sides.\<close>

fun absorb :: "nat \<Rightarrow> tile list \<Rightarrow> nat \<times> tile list" where
  "absorb n ((m, True) # ts) = (n + (m + 8), ts)"
| "absorb n ts = (n, ts)"

definition release :: "tile list \<Rightarrow> nat \<Rightarrow> tile list \<Rightarrow> tile list" where
  "release us n vs =
     (let (n, vs) = absorb n vs; (n, rus) = absorb n (rev us) in rev rus @ (n, True) # vs)"

text \<open>The state of the pool while a block is released: its header says free, the index not yet.\<close>

definition freeing :: "pool \<Rightarrow> nat \<Rightarrow> tile list \<Rightarrow> nat \<Rightarrow> tile list \<Rightarrow> bool" where
  "freeing s a us n vs \<longleftrightarrow> wf_tiles a (us @ (n, False) # vs) \<and> spaced us \<and> spaced vs \<and>
     index s (frees a (us @ (n, False) # vs)) \<and> laid s a None us \<and> hdr s (adv a us) (carry a None us) (n, True) \<and>
     (\<exists>pv. laid s (adv a us + (8 + n)) pv (vs @ [sentinel]))"

lemma freeing_header:
  assumes "freeing s a us n vs"
  shows "bsize s (adv a us) = tag n True (carry a None us \<noteq> None)" "size_of s (adv a us) = of_nat n"
    "next_block s (adv a us) = adv a us + (8 + n)"
proof -
  note n = wf_tiles_mem [of a us n False vs]
  show h: "bsize s (adv a us) = tag n True (carry a None us \<noteq> None)"
    using assms by (simp add: freeing_def hdr_def)
  show "size_of s (adv a us) = of_nat n" "next_block s (adv a us) = adv a us + (8 + n)"
    using n assms next_block_tag [OF h] hdr_size [OF h] by (auto simp: freeing_def)
qed

lemma EXTRACT_free:
  assumes "index s F" "F b = Some n" "size_of s b = of_nat n"
  obtains s' where "(case MAPPING_INSERT (size_of s b) of (fl, sl) \<Rightarrow> EXTRACT_BLOCK b fl sl s \<bind> k) = k s'"
    "index s' (F(b := None))" "others s' = others s"
proof -
  have n: "n < 2 ^ 32" using assms(1,2) by (fastforce simp: index_def)
  obtain s' where "EXTRACT_BLOCK b (int (key n div 32)) (int (key n mod 32)) s = Some s'"
    "index s' (F(b := None))" "others s' = others s" using EXTRACT_BLOCK_index [OF assms(1,2)] .
  then show thesis using that by (simp add: assms(3) MAPPING_INSERT_key [OF n])
qed

lemma merge_next_ok:
  assumes fr: "freeing s a us n vs"
  obtains s' where "merge_next (adv a us) s = Some s'" "frame s' = frame s"
    "freeing s' a us (fst (absorb n vs)) (snd (absorb n vs))"
    "snd (absorb n vs) = [] \<or> \<not> snd (hd (snd (absorb n vs)))"
proof -
  let ?b = "adv a us" and ?nb = "adv a us + (8 + n)"
  note h = freeing_header [OF fr]
  obtain m g ts where tail: "vs @ [sentinel] = (m, g) # ts" by (cases "vs @ [sentinel]") auto
  obtain pv where L: "laid s ?nb pv ((m, g) # ts)" using fr tail by (auto simp: freeing_def)
  have hn: "bsize s ?nb = tag m g (pv \<noteq> None)" using L by (simp add: hdr_def)
  have m8: "8 dvd m" using tail fr by (cases vs) (auto simp: freeing_def wf_tiles_def)
  show thesis
  proof (cases g)
    case False
    have "absorb n vs = (n, vs)" using tail False by (cases vs) auto
    moreover have "merge_next ?b s = Some s"
      using False by (simp add: merge_next_def Let_def h hn tag_simps(9) [OF m8])
    moreover have "vs = [] \<or> \<not> snd (hd vs)" using tail False by (cases vs) auto
    ultimately show thesis using that fr by simp
  next
    case True
    then obtain vs' where vs: "vs = (m, True) # vs'" "ts = vs' @ [sentinel]" using tail by (cases vs) auto
    let ?F = "frees a (us @ (n, False) # vs)"
    have wf: "wf_tiles a (us @ (n, False) # (m, True) # vs')" and ix: "index s ?F" and sp: "spaced us" "spaced vs"
      and lus: "laid s a None us" and hb: "hdr s ?b (carry a None us) (n, True)"
      using fr by (auto simp: freeing_def vs)
    have F: "?F ?nb = Some m" using frees_free [of a "us @ [(n, False)]" m vs'] by (simp add: vs(1))
    have size: "size_of s ?nb = of_nat m" by (rule hdr_size [OF hn m8])
    define k where "k s = Some (set_size ?b (bsize s ?b + (size_of s ?nb + of_nat BHDR_OVERHEAD)) s)" for s
    obtain s1 where s1: "(case MAPPING_INSERT (size_of s ?nb) of (fl, sl) \<Rightarrow> EXTRACT_BLOCK ?nb fl sl s \<bind> k) = k s1"
      "index s1 (?F(?nb := None))" "others s1 = others s" by (rule EXTRACT_free [OF ix F size])
    note o = others_eqD [OF s1(3)]
    define s' where "s' = set_size ?b (tag (n + (m + 8)) True (carry a None us \<noteq> None)) s1"
    have "merge_next ?b s = k s1"
      using s1(1) True unfolding merge_next_def Let_def h(3) k_def [abs_def]
      by (simp add: hn tag_simps(9) [OF m8])
    also have "k s1 = Some s'"
      using size by (simp add: k_def s'_def o h tag_add size_of_def)
    finally have "merge_next ?b s = Some s'" .
    moreover have "freeing s' a us (n + (m + 8)) vs'"
    proof -
      have "?F(?nb := None) = frees a (us @ (n + (m + 8), False) # vs')"
        using frees_take [of a "us @ [(n, False)]" m vs'] by (simp add: vs(1) frees_join)
      then have "index s' (frees a (us @ (n + (m + 8), False) # vs'))" using s1(2) by (simp add: s'_def)
      moreover have "laid s' a None us" by (rule laid_before [OF lus]) (simp add: s'_def o)
      moreover have "hdr s' ?b (carry a None us) (n + (m + 8), True)"
        using hb by (simp add: hdr_def s'_def o)
      moreover have "laid s (?nb + (8 + m)) (Some ?nb) (vs' @ [sentinel])" using L True by (simp add: vs)
      then have "laid s' (?nb + (8 + m)) (Some ?nb) (vs' @ [sentinel])"
        using laid_cong [of "?nb + (8 + m)" "vs' @ [sentinel]" s' s] by (simp add: s'_def o)
      moreover have "wf_tiles a (us @ (n + (m + 8), False) # vs')"
        using wf by (auto simp: wf_tiles_def add_ac)
      ultimately show ?thesis using sp by (auto simp: freeing_def spaced_Cons vs(1) add_ac)
    qed
    moreover have "vs' = [] \<or> \<not> snd (hd vs')" using sp(2) by (simp add: vs(1) spaced_Cons)
    moreover have "frame s' = frame s" by (simp add: s'_def o)
    ultimately show thesis using that by (simp add: vs(1))
  qed
qed

lemma merge_prev_ok:
  assumes fr: "freeing s a us n vs"
  defines "rus \<equiv> snd (absorb n (rev us))" and "N \<equiv> fst (absorb n (rev us))"
  obtains s' where "merge_prev (adv a us) s = Some (adv a (rev rus), s')" "frame s' = frame s"
    "freeing s' a (rev rus) N vs" "rus = [] \<or> \<not> snd (hd rus)"
proof (cases "us \<noteq> [] \<and> snd (last us)")
  case False
  have "absorb n (rev us) = (n, rev us)"
  proof (cases us rule: rev_cases)
    case (snoc xs t)
    with False show ?thesis by (cases t) auto
  qed simp
  then have e: "rus = rev us" "N = n" by (simp_all add: rus_def N_def)
  moreover have "carry a None us = None" using False by (auto simp: carry_last)
  moreover have "8 dvd n" using fr wf_tiles_mem [of a us n False vs] by (simp add: freeing_def)
  ultimately have "merge_prev (adv a us) s = Some (adv a (rev rus), s)"
    by (simp add: merge_prev_def freeing_header(1) [OF fr] tag_simps)
  then show thesis using that fr False e by (auto simp: hd_rev)
next
  case True
  then obtain xs l where us: "us = xs @ [(l, True)]"
    by (cases us rule: rev_cases) (auto intro: prod.expand)
  let ?b = "adv a us" and ?p = "adv a xs" and ?F = "frees a (us @ (n, False) # vs)"
  have e: "rus = rev xs" "N = n + (l + 8)" by (simp_all add: rus_def N_def us)
  note h = freeing_header [OF fr]
  have wf: "wf_tiles a (xs @ (l, True) # (n, False) # vs)" and ix: "index s ?F" and sp: "spaced us" "spaced vs"
    and lus: "laid s a None xs" and hp: "hdr s ?p (carry a None xs) (l, True)" and hb: "hdr s ?b (Some ?p) (n, True)"
    using fr by (auto simp: freeing_def us)
  obtain pv where L: "laid s (?b + (8 + n)) pv (vs @ [sentinel])" using fr by (auto simp: freeing_def)
  note l = wf_tiles_mem [OF wf]
  have bp: "?b = ?p + (8 + l)" by (simp add: us)
  have n8: "8 dvd n" using wf by (simp add: wf_tiles_def)
  have sp_xs: "xs = [] \<or> \<not> snd (last xs)" using sp(1) by (auto simp: us spaced_append)
  then have cx: "carry a None xs = None" by (auto simp: carry_last)
  have F: "?F ?p = Some l" using frees_free [of a xs l "(n, False) # vs"] by (simp add: us)
  have size: "size_of s ?p = of_nat l" using hp l(1) by (auto simp: hdr_def intro: hdr_size)
  define k where "k s = Some (?p, set_size ?p (bsize s ?p + (size_of s ?b + of_nat BHDR_OVERHEAD)) s)" for s
  obtain s1 where s1: "(case MAPPING_INSERT (size_of s ?p) of (fl, sl) \<Rightarrow> EXTRACT_BLOCK ?p fl sl s \<bind> k) = k s1"
    "index s1 (?F(?p := None))" "others s1 = others s" by (rule EXTRACT_free [OF ix F size])
  note o = others_eqD [OF s1(3)]
  define s' where "s' = set_size ?p (tag N True False) s1"
  have "prev_hdr s ?b = ?p" using hb by (simp add: hdr_def)
  then have "merge_prev ?b s = k s1"
    using s1(1) hb unfolding merge_prev_def Let_def k_def [abs_def]
    by (simp add: hdr_def tag_simps(10) [OF n8])
  also have "k s1 = Some (?p, s')"
    using hp h(2) cx tag_add [of l True False n]
    by (simp add: k_def s'_def o hdr_def size_of_def e add.commute add.left_commute [of _ l])
  finally have "merge_prev ?b s = Some (?p, s')" .
  moreover have "freeing s' a xs N vs"
  proof -
    have "?F(?p := None) = frees a (xs @ (N, False) # vs)"
      using frees_take [of a xs l "(n, False) # vs"] by (simp add: us frees_join e add_ac)
    then have "index s' (frees a (xs @ (N, False) # vs))" using s1(2) by (simp add: s'_def)
    moreover have "laid s' a None xs" by (rule laid_before [OF lus]) (simp add: s'_def o)
    moreover have "hdr s' ?p (carry a None xs) (N, True)" by (simp add: hdr_def s'_def cx)
    moreover have b': "?b + (8 + n) = ?p + (8 + N)" by (simp add: bp e)
    have "laid s' (?b + (8 + n)) pv (vs @ [sentinel])"
      using L laid_cong [of "?b + (8 + n)" "vs @ [sentinel]" s' s] by (simp add: s'_def o bp)
    then have "laid s' (?p + (8 + N)) pv (vs @ [sentinel])" by (simp only: b')
    moreover have "wf_tiles a (xs @ (N, False) # vs)"
      using wf by (auto simp: wf_tiles_def e add_ac)
    moreover have "spaced xs" using sp(1) by (simp add: us spaced_append)
    ultimately show ?thesis using sp(2) unfolding freeing_def by blast
  qed
  moreover have "frame s' = frame s" by (simp add: s'_def o)
  ultimately show thesis using that sp_xs by (simp add: e hd_rev)
qed

lemma enter_block_ok:
  assumes fr: "freeing s a us n vs" and us: "us = [] \<or> \<not> snd (last us)" and vs: "vs = [] \<or> \<not> snd (hd vs)"
  obtains s' where "enter_block (adv a us) s = Some s'" "frame s' = frame s" "pool_ok s' a (us @ (n, True) # vs)"
proof -
  let ?b = "adv a us" and ?nb = "adv a us + (8 + n)" and ?F = "frees a (us @ (n, False) # vs)"
  note h = freeing_header [OF fr]
  have wf: "wf_tiles a (us @ (n, False) # vs)" and ix: "index s ?F" and sp: "spaced us" "spaced vs"
    and lus: "laid s a None us" and hb: "hdr s ?b None (n, True)"
    using fr us by (auto simp: freeing_def carry_last)
  note n = wf_tiles_mem [OF wf]
  have b0: "?b \<noteq> 0" using wf adv_ge [of a us] by (simp add: wf_tiles_def)
  obtain m g ts where tail: "vs @ [sentinel] = (m, g) # ts" by (cases "vs @ [sentinel]") auto
  then obtain pv where L: "laid s ?nb pv ((m, g) # ts)" using fr by (auto simp: freeing_def)
  have g: "\<not> g" using tail vs by (cases vs) auto
  have m8: "8 dvd m" using tail wf by (cases vs) (auto simp: wf_tiles_def)
  obtain s1 where s1: "INSERT_BLOCK ?b (int (key n div 32)) (int (key n mod 32)) s = Some s1"
    "index s1 (?F(?b \<mapsto> n))" "others s1 = others s"
    using INSERT_BLOCK_index [OF ix frees_used b0 n(1,3)] .
  note o = others_eqD [OF s1(3)]
  define s' where "s' = set_prev_hdr ?nb ?b (set_size ?nb (tag m g True) s1)"
  have "next_block s1 ?b = ?nb" using h(3) by (simp add: next_block_def size_of_def o)
  then have "enter_block ?b s = Some s'"
    using L n s1(1) by (simp add: enter_block_def Let_def h MAPPING_INSERT_key s'_def o hdr_def tag_simps m8)
  moreover have "pool_ok s' a (us @ (n, True) # vs)"
  proof -
    have "index s' (frees a (us @ (n, True) # vs))" using s1(2) by (simp add: s'_def flip: frees_give)
    moreover have "laid s' a None us" by (rule laid_before [OF lus]) (simp add: s'_def o)
    moreover have "hdr s' ?b None (n, True)" using hb by (simp add: hdr_def s'_def o)
    moreover have "laid s' ?nb (Some ?b) ((m, g) # ts)"
      by (rule laid_head [OF L]) (auto simp: s'_def o)
    moreover have "carry a None us = None" using us by (auto simp: carry_last)
    ultimately show ?thesis
      using wf sp us vs by (auto simp: pool_ok_def wf_tiles_def spaced_append spaced_Cons tail [symmetric])
  qed
  moreover have "frame s' = frame s" by (simp add: s'_def o)
  ultimately show thesis using that by simp
qed

text \<open>The whole of \<^verbatim>\<open>free_ex\<close>, also for the block that \<^verbatim>\<open>init_memory_pool\<close> has just laid.\<close>

lemma free_ex_lemma:
  assumes wf: "wf_tiles a (us @ (n, False) # vs)" and sp: "spaced us" "spaced vs"
    and ix: "index s (frees a (us @ (n, False) # vs))" and lus: "laid s a None us"
    and hb: "hdr s (adv a us) (carry a None us) (n, False)" and L: "laid s (adv a us + (8 + n)) pv (vs @ [sentinel])"
  obtains s' where "free_ex (adv a us + 8) s = Some s'" "frame s' = frame s" "pool_ok s' a (release us n vs)"
proof -
  let ?b = "adv a us" and ?F = "frees a (us @ (n, False) # vs)"
  define s0 where "s0 = set_free_next ?b 0 (set_free_prev ?b 0 (set_size ?b (bsize s ?b OR FREE_BLOCK) s))"
  have f0: "bsize s0 = (bsize s)(?b := bsize s ?b OR FREE_BLOCK)" "prev_hdr s0 = prev_hdr s" "frame s0 = frame s"
    by (simp_all add: s0_def setters frame_def set_size_def)
  have "index s0 ?F" unfolding s0_def by (intro index_set_links index_set ix frees_used)
  moreover have "laid s0 a None us" by (rule laid_before [OF lus]) (simp add: f0)
  moreover have "hdr s0 ?b (carry a None us) (n, True)"
    using hb wf_tiles_mem(1) [OF wf] by (simp add: hdr_def f0 tag_simps)
  moreover have "laid s0 (?b + (8 + n)) pv (vs @ [sentinel])"
    using L laid_cong [of "?b + (8 + n)" "vs @ [sentinel]" s0 s] by (simp add: f0)
  ultimately have "freeing s0 a us n vs" using wf sp by (auto simp: freeing_def)
  from merge_next_ok [OF this] obtain s1 where s1: "merge_next ?b s0 = Some s1" "frame s1 = frame s0"
    "freeing s1 a us (fst (absorb n vs)) (snd (absorb n vs))"
    "snd (absorb n vs) = [] \<or> \<not> snd (hd (snd (absorb n vs)))" .
  let ?n = "fst (absorb n vs)" and ?vs = "snd (absorb n vs)"
  let ?us = "rev (snd (absorb ?n (rev us)))"
  from merge_prev_ok [OF s1(3)] obtain s2 where s2: "merge_prev ?b s1 = Some (adv a ?us, s2)" "frame s2 = frame s1"
    "freeing s2 a ?us (fst (absorb ?n (rev us))) ?vs" "rev ?us = [] \<or> \<not> snd (hd (rev ?us))"
    by (metis rev_rev_ident)
  then have "?us = [] \<or> \<not> snd (last ?us)" by (auto simp: last_rev)
  from enter_block_ok [OF s2(3) this s1(4)] obtain s' where s': "enter_block (adv a ?us) s2 = Some s'"
    "frame s' = frame s2" "pool_ok s' a (?us @ (fst (absorb ?n (rev us)), True) # ?vs)" .
  have "free_ex (?b + 8) s = Some s'"
    using s1(1) s2(1) s'(1) by (simp add: free_ex_def Let_def BHDR_OVERHEAD_def s0_def)
  with s' s2 s1 f0 show thesis using that by (simp add: release_def case_prod_beta)
qed

lemma free_ex_ok:
  assumes "pool_ok s a (us @ (n, False) # vs)"
  obtains s' where "free_ex (adv a us + 8) s = Some s'" "frame s' = frame s" "pool_ok s' a (release us n vs)"
  using assms free_ex_lemma [of a us n vs s None]
  by (auto simp: pool_ok_def spaced_append spaced_Cons)

end
