(* ===== verification/Allocator.thy ===== *)
theory Allocator
  imports Main
begin

text \<open>
  The interface of a heap as its callers use it: the loader and the C++ run-time ask for blocks and
  hand them back. \<open>holds s B\<close> says that the state is sound and has handed out the blocks \<open>B\<close>, by
  address. A client is a sequence of steps that only hands back what it holds.
\<close>

text \<open>\<open>L\<close> is the book a client keeps: the addresses it holds and the sizes it asked for.\<close>

inductive client_step ::
  "('r \<Rightarrow> nat) \<Rightarrow> ('r \<Rightarrow> bool) \<Rightarrow> ('r \<Rightarrow> 's \<Rightarrow> (nat \<times> 's) option) \<Rightarrow> (nat \<Rightarrow> 's \<Rightarrow> 's option) \<Rightarrow>
    's \<times> (nat \<rightharpoonup> nat) \<Rightarrow> 's \<times> (nat \<rightharpoonup> nat) \<Rightarrow> bool"
  for size_of_request :: "'r \<Rightarrow> nat" and valid alloc release
where
  Get: "valid r \<Longrightarrow> alloc r s = Some (p, s') \<Longrightarrow> p \<noteq> 0 \<Longrightarrow>
    client_step size_of_request valid alloc release (s, L) (s', L(p \<mapsto> size_of_request r))"
| Refused: "valid r \<Longrightarrow> alloc r s = Some (0, s') \<Longrightarrow>
    client_step size_of_request valid alloc release (s, L) (s', L)"
| Put: "L p = Some n \<Longrightarrow> release p s = Some s' \<Longrightarrow>
    client_step size_of_request valid alloc release (s, L) (s', L(p := None))"
| Put_null: "release 0 s = Some s' \<Longrightarrow>
    client_step size_of_request valid alloc release (s, L) (s', L)"

inductive_cases client_stepE [elim]: "client_step sz valid alloc release (s, L) (s', L')"

lemmas client_step_induct = client_step.induct [split_format(complete)]

locale allocator =
  fixes holds :: "'s \<Rightarrow> (nat \<rightharpoonup> nat) \<Rightarrow> bool"
    and size_of_request :: "'r \<Rightarrow> nat"
    and valid :: "'r \<Rightarrow> bool"
    and alloc :: "'r \<Rightarrow> 's \<Rightarrow> (nat \<times> 's) option"
    and release :: "nat \<Rightarrow> 's \<Rightarrow> 's option"
  assumes separate: "holds s B \<Longrightarrow> B p = Some n \<Longrightarrow> B q = Some m \<Longrightarrow> p \<noteq> q \<Longrightarrow> p + n \<le> q \<or> q + m \<le> p"
    and alloc_ok: "holds s B \<Longrightarrow> valid r \<Longrightarrow>
      alloc r s = Some (0, s) \<or>
      (\<exists>p s' n. alloc r s = Some (p, s') \<and> p \<noteq> 0 \<and> B p = None \<and> size_of_request r \<le> n \<and> holds s' (B(p \<mapsto> n)))"
    and release_ok: "holds s B \<Longrightarrow> B p = Some n \<Longrightarrow> \<exists>s'. release p s = Some s' \<and> holds s' (B(p := None))"
    and release_null: "release 0 s = Some s"
begin

text \<open>The book of a client agrees with the blocks, which are at least as large as was asked for.\<close>

definition books :: "'s \<Rightarrow> (nat \<rightharpoonup> nat) \<Rightarrow> bool" where
  "books s L \<longleftrightarrow> (\<exists>B. holds s B \<and> dom L = dom B \<and> (\<forall>p n m. L p = Some n \<longrightarrow> B p = Some m \<longrightarrow> n \<le> m))"

abbreviation step :: "'s \<times> (nat \<rightharpoonup> nat) \<Rightarrow> 's \<times> (nat \<rightharpoonup> nat) \<Rightarrow> bool" where
  "step \<equiv> client_step size_of_request valid alloc release"

lemma books_step:
  assumes "step (s, L) (s', L')" "books s L"
  shows "books s' L'"
proof -
  from assms(2) obtain B where B: "holds s B" "dom L = dom B" "\<And>p n m. L p = Some n \<Longrightarrow> B p = Some m \<Longrightarrow> n \<le> m"
    by (auto simp: books_def)
  from assms(1) show ?thesis
  proof cases
    case (Get r p)
    with alloc_ok [OF B(1), of r] obtain n where n: "size_of_request r \<le> n" "holds s' (B(p \<mapsto> n))" by auto
    moreover have "dom (L(p \<mapsto> size_of_request r)) = dom (B(p \<mapsto> n))" using B(2) by simp
    ultimately show ?thesis using B(3) Get(1) unfolding books_def by (intro exI [of _ "B(p \<mapsto> n)"]) auto
  next
    case (Refused r)
    with alloc_ok [OF B(1), of r] have "s' = s" by auto
    with assms(2) Refused show ?thesis by simp
  next
    case (Put p n)
    then have "p \<in> dom B" using B(2) by auto
    then obtain m where m: "B p = Some m" by auto
    have "holds s' (B(p := None))" using release_ok [OF B(1) m] Put(3) by auto
    moreover have "dom (L(p := None)) = dom (B(p := None))" using B(2) by simp
    ultimately show ?thesis using B(3) Put(1) unfolding books_def by (intro exI [of _ "B(p := None)"]) auto
  next
    case Put_null
    with release_null [of s] assms(2) show ?thesis by simp
  qed
qed

lemma books_steps:
  assumes "step\<^sup>*\<^sup>* x y" "books (fst x) (snd x)"
  shows "books (fst y) (snd y)"
  using assms by (induction rule: rtranclp_induct) (auto dest: books_step)

lemma books_separate:
  assumes "books s L" "L p = Some n" "L q = Some m" "p \<noteq> q"
  shows "p + n \<le> q \<or> q + m \<le> p"
proof -
  from assms(1) obtain B where B: "holds s B" "dom L = dom B" "\<And>p n m. L p = Some n \<Longrightarrow> B p = Some m \<Longrightarrow> n \<le> m"
    by (auto simp: books_def)
  from assms(2,3) B(2) obtain n' m' where "B p = Some n'" "B q = Some m'" by blast
  with separate [OF B(1) this assms(4)] B(3) assms(2,3) show ?thesis by fastforce
qed

text \<open>A client never gets stuck: a valid request is answered and what it holds can be handed back.\<close>

lemma books_progress:
  assumes "books s L"
  shows "valid r \<Longrightarrow> alloc r s \<noteq> None" "L p = Some n \<Longrightarrow> release p s \<noteq> None"
proof -
  from assms obtain B where B: "holds s B" "dom L = dom B" by (auto simp: books_def)
  show "valid r \<Longrightarrow> alloc r s \<noteq> None" using alloc_ok [OF B(1), of r] by auto
  show "L p = Some n \<Longrightarrow> release p s \<noteq> None" using release_ok [OF B(1), of p] B(2) by blast
qed

end

end
