(* ===== verification/TlsfSpec.thy ===== *)
theory TlsfSpec
  imports TlsfPool Allocator
begin

text \<open>
  What the heap promises: the pool after initialisation, allocation and release as refinements of
  cutting and joining tiles, and, as an \<open>allocator\<close>, that blocks handed out never overlap. With the
  requests for which it does not keep the promise.
\<close>

section \<open>The blocks handed out\<close>

lemma lives_range: "lives a ts p = Some n \<Longrightarrow> a + 8 \<le> p \<and> p + n \<le> adv a ts"
proof (induction a ts rule: lives.induct)
  case (2 a n' f ts)
  then show ?case using adv_ge [of "a + (8 + n')" ts] by (fastforce split: if_splits)
qed simp

lemma lives_above: "a \<le> p \<Longrightarrow> lives (p + 1) ts p = None"
  using lives_range [of "p + 1" ts p] by (cases "lives (p + 1) ts p") auto

lemma lives_upd:
  "lives a (us @ (n, False) # vs) = (lives a (us @ (n, True) # vs))(adv a us + 8 \<mapsto> n)"
  "lives a (us @ (n, True) # vs) (adv a us + 8) = None"
proof -
  have ne: "adv (a + (8 + n)) us \<noteq> a" "a \<noteq> adv (a + (8 + n)) us" for a n us
    using adv_ge [of "a + (8 + n)" us] by auto
  show "lives a (us @ (n, False) # vs) = (lives a (us @ (n, True) # vs))(adv a us + 8 \<mapsto> n)"
    by (induction us arbitrary: a) (auto simp: fun_eq_iff ne)
  show "lives a (us @ (n, True) # vs) (adv a us + 8) = None"
    by (induction us arbitrary: a) (auto simp: ne)
qed

lemma lives_join:
  assumes "8 \<le> n"
  shows "lives a (us @ (n, True) # (m, True) # vs) = lives a (us @ (n + (m + 8), True) # vs)"
proof (induction us arbitrary: a)
  case Nil
  have "lives (a + (8 + n) + (8 + m)) vs p = None" if "p \<le> a + (8 + n) + 8" for p
    using lives_range [of "a + (8 + n) + (8 + m)" vs p] that
    by (cases "lives (a + (8 + n) + (8 + m)) vs p") auto
  then show ?case using assms by (auto simp: fun_eq_iff add.assoc add.commute add.left_commute)
qed auto

lemma lives_cut:
  assumes "8 \<le> r" "r \<le> n"
  shows "lives a (us @ cut r n @ vs) =
    (lives a (us @ (n, True) # vs))(adv a us + 8 \<mapsto> (if r + 16 \<le> n then r else n))"
proof (cases "r + 16 \<le> n")
  case True
  then have "n = r + ((n - r - 8) + 8)" by simp
  then show ?thesis
    using True lives_upd(1) [of a us r "(n - r - 8, True) # vs"] lives_join [OF assms(1), of a us "n - r - 8" vs]
    by (simp add: cut_def)
qed (simp add: cut_def lives_upd)

lemma lives_separate:
  assumes "lives a ts p = Some n" "lives a ts q = Some m" "p \<noteq> q"
  shows "p + n \<le> q \<or> q + m \<le> p"
  using assms
proof (induction a ts rule: lives.induct)
  case (2 a k f ts)
  have "lives (a + (8 + k)) ts x = Some j \<Longrightarrow> a + (8 + k) + 8 \<le> x" for x j
    using lives_range by blast
  with 2 show ?case by (fastforce split: if_splits)
qed simp

lemma lives_split:
  assumes "lives a ts p = Some n"
  obtains us vs where "ts = us @ (n, False) # vs" "p = adv a us + 8"
  using assms
proof (induction a ts arbitrary: thesis rule: lives.induct)
  case (2 a m f ts)
  show ?case
  proof (cases "p = a + 8")
    case True
    with 2(3) have "\<not> f" "m = n" by (auto split: if_splits)
    with True show ?thesis using 2(2) [of "[]" ts] by simp
  next
    case False
    with 2(3) have "lives (a + (8 + m)) ts p = Some n" by simp
    from 2(1) [OF _ this] obtain us vs where "ts = us @ (n, False) # vs" "p = adv (a + (8 + m)) us + 8" by blast
    then show ?thesis using 2(2) [of "(m, f) # us" vs] by simp
  qed
qed simp

lemma lives_release:
  assumes "wf_tiles a (us @ (n, False) # vs)"
  shows "lives a (release us n vs) = (lives a (us @ (n, False) # vs))(adv a us + 8 := None)"
proof -
  have base: "(lives a (us @ (n, False) # vs))(adv a us + 8 := None) = lives a (us @ (n, True) # vs)"
    using lives_upd [of a us n vs] by (simp add: fun_eq_iff)
  define n1 vs1 where "n1 = fst (absorb n vs)" and "vs1 = snd (absorb n vs)"
  have n8: "8 \<le> n" using assms by (simp add: wf_tiles_def)
  have 1: "lives a (us @ (n, True) # vs) = lives a (us @ (n1, True) # vs1)"
    using lives_join [OF n8] by (cases "(n, vs)" rule: absorb.cases) (auto simp: n1_def vs1_def)
  have 2: "lives a (rev (snd (absorb n1 (rev us))) @ (fst (absorb n1 (rev us)), True) # vs1) = lives a (us @ (n1, True) # vs1)"
  proof (cases us rule: rev_cases)
    case (snoc xs t)
    obtain l f where t: "t = (l, f)" by (cases t)
    have "8 \<le> l" using assms by (auto simp: wf_tiles_def snoc t)
    then show ?thesis using lives_join [of l a xs n1 vs1] by (cases f) (auto simp: snoc t add_ac)
  qed simp
  from 1 2 show ?thesis by (simp add: base release_def n1_def vs1_def case_prod_beta)
qed

section \<open>Initialisation\<close>

lemma ROUNDDOWN_SIZE_nat:
  assumes "n < 2 ^ 32"
  shows "ROUNDDOWN_SIZE (of_nat n) = of_nat (n div 8 * 8)"
proof -
  have "MEM_ALIGN = push_bit 3 1 - 1" by (simp add: MEM_ALIGN_def BLOCK_ALIGN_def)
  then show ?thesis using and_not_mask_nat [of n 3] assms unfolding ROUNDDOWN_SIZE_def by simp
qed

lemma index_empty:
  assumes "matrix s = (\<lambda>_ _. 0)" "sl_bitmap s = (\<lambda>_. 0)" "fl_bitmap s = 0"
  shows "index s Map.empty"
proof -
  have "chain s 0 []" by (simp add: chain_def)
  moreover have "members Map.empty k = {}" for k by (simp add: members_def)
  ultimately show ?thesis using assms
    by (auto simp: index_def bitmaps_agree_def marked_def head_def)
qed

lemma process_area_laid:
  assumes "n < 2 ^ 30" "32 \<le> n" "8 dvd n"
  obtains s' where "process_area area (of_nat n) s = (area, s')" "next_block s' area = area + 16"
    "hdr s' (area + 16) None (n - 32, False)" "laid s' (area + 16 + (8 + (n - 32))) (Some (area + 16)) [sentinel]"
    "matrix s' = matrix s" "sl_bitmap s' = sl_bitmap s" "fl_bitmap s' = fl_bitmap s" "mp s' = mp s"
proof -
  let ?b = "area + 16" and ?lb = "area + 16 + (8 + (n - 32))"
  define s1 where "s1 = set_size area 8 s"
  define s2 where "s2 = set_free_next ?b 0 (set_free_prev ?b 0 (set_size ?b (tag (n - 32) False False) s1))"
  define s3 where "s3 = set_size ?lb PREV_FREE (set_prev_hdr ?lb ?b s2)"
  have r8: "ROUNDUP_SIZE 8 = 8" by code_simp
  have e8: "(8 :: u32) AND BLOCK_SIZE = 8" by code_simp
  have nb1: "next_block s1 area = ?b" "size_of s1 area = 8"
    by (simp_all add: next_block_def size_of_def s1_def e8 GET_NEXT_BLOCK_def buffer_def BHDR_OVERHEAD_def)
  have "of_nat n - 3 * of_nat BHDR_OVERHEAD - (8 :: u32) = of_nat (n - 32)"
    using assms(2) by (simp add: BHDR_OVERHEAD_def of_nat_diff)
  moreover have "ROUNDDOWN_SIZE (of_nat (n - 32)) = of_nat (n - 32)"
    using ROUNDDOWN_SIZE_nat [of "n - 32"] assms by (simp add: dvd_div_mult_self)
  ultimately have sz: "ROUNDDOWN_SIZE (of_nat n - 3 * of_nat BHDR_OVERHEAD - 8) = tag (n - 32) False False"
    by (simp add: tag_plain)
  have b2: "bsize s2 = (bsize s1)(?b := tag (n - 32) False False)" by (simp add: s2_def setters)
  then have nb2: "next_block s2 ?b = ?lb" using next_block_tag [of s2 ?b "n - 32" False False] assms by simp
  have pf: "0 OR PREV_FREE = PREV_FREE" "PREV_FREE = tag 0 False True" by code_simp+
  let ?s = "s3\<lparr>ai_next := (ai_next s3)(buffer area := 0), ai_end := (ai_end s3)(buffer area := ?lb)\<rparr>"
  show thesis
  proof (rule that [of ?s])
    show "process_area area (of_nat n) s = (area, ?s)"
      unfolding process_area_def r8 Let_def s1_def [symmetric] nb1 sz
      unfolding s2_def [symmetric] nb2 by (simp add: s3_def set_size_def set_prev_hdr_def)
    have f: "bsize ?s = (bsize s1)(?b := tag (n - 32) False False, ?lb := PREV_FREE)" "prev_hdr ?s ?lb = ?b"
      by (simp_all add: s3_def b2 set_size_def set_prev_hdr_def)
    show "next_block ?s area = area + 16"
    proof -
      have "bsize ?s area = bsize s1 area" unfolding f(1) by simp
      then show ?thesis using nb1(1) unfolding next_block_def size_of_def by (simp only:)
    qed
    show "hdr ?s ?b None (n - 32, False)" "laid ?s ?lb (Some ?b) [sentinel]"
      unfolding hdr_def laid.simps f(1) using f(2) by (auto simp: pf(2))
  qed (simp_all add: s3_def s2_def s1_def setters set_size_def set_prev_hdr_def)
qed

lemma pool_ok_area_head: "pool_ok s a ts \<Longrightarrow> pool_ok (s\<lparr>area_head := v\<rparr>) a ts"
proof -
  assume ok: "pool_ok s a ts"
  have "laid (s\<lparr>area_head := v\<rparr>) a None (ts @ [sentinel]) = laid s a None (ts @ [sentinel])"
    by (rule laid_cong) simp
  moreover have "index (s\<lparr>area_head := v\<rparr>) (frees a ts)"
    by (rule index_frame [of s]) (use ok in \<open>simp_all add: pool_ok_def\<close>)
  ultimately show ?thesis using ok by (simp add: pool_ok_def)
qed

definition pool_space :: "nat \<Rightarrow> nat" where
  "pool_space n = (n - 3180) div 8 * 8 - 32"

lemma init_memory_pool_ok:
  assumes "p \<noteq> 0" "(of_nat p :: u32) AND PTR_MASK = 0" "tlsf_signature s \<noteq> TLSF_SIGNATURE"
    "3244 \<le> unat n" "unat n < 2 ^ 30"
  shows "\<exists>s'. init_memory_pool n p s = Some (of_nat (pool_space (unat n)), s') \<and> mp s' = p \<and>
     pool_ok s' (p + 3200) [(pool_space (unat n), True)] \<and>
     adv (p + 3200) [(pool_space (unat n), True)] + 8 = p + (unat n + 4) div 8 * 8"
proof -
  define j N where "j = (unat n - 3180) div 8" and "N = pool_space (unat n)"
  have j: "8 \<le> j" "8 * j \<le> unat n - 3180" using assms(4) by (simp_all add: j_def)
  have N: "N = 8 * j - 32" "8 dvd N" "8 \<le> N" "N + 3212 < 2 ^ 30"
    using j assms(4,5) by (auto simp: N_def pool_space_def j_def dvd_diff_nat)
  have sub: "ROUNDDOWN_SIZE (n - sizeof_tlsf) = of_nat (8 * j)"
  proof -
    have "n - sizeof_tlsf = of_nat (unat n - 3180)"
      using assms(4) by (simp add: sizeof_tlsf_def of_nat_diff)
    then show ?thesis using ROUNDDOWN_SIZE_nat [of "unat n - 3180"] assms(5) by (simp add: j_def mult.commute)
  qed
  have start: "GET_NEXT_BLOCK p (ROUNDUP_SIZE sizeof_tlsf) = p + 3184"
  proof -
    have "unat (ROUNDUP_SIZE sizeof_tlsf) = 3184" by code_simp
    then show ?thesis by (simp add: GET_NEXT_BLOCK_def)
  qed
  define s0 where "s0 = s\<lparr>mp := p, area_head := 0, fl_bitmap := 0, sl_bitmap := \<lambda>_. 0, matrix := \<lambda>_ _. 0,
    tlsf_signature := TLSF_SIGNATURE\<rparr>"
  have bounds: "8 * j < 2 ^ 30" "32 \<le> 8 * j" "8 dvd 8 * j" using j assms(5) by auto
  obtain s1 where s1: "process_area (p + 3184) (of_nat (8 * j)) s0 = (p + 3184, s1)" "next_block s1 (p + 3184) = p + 3200"
    "hdr s1 (p + 3200) None (N, False)" "laid s1 (p + 3200 + (8 + N)) (Some (p + 3200)) [sentinel]"
    "index s1 Map.empty" "mp s1 = p"
  proof (rule process_area_laid [OF bounds, of "p + 3184" s0])
    fix t
    assume t: "process_area (p + 3184) (of_nat (8 * j)) s0 = (p + 3184, t)" "next_block t (p + 3184) = p + 3184 + 16"
      "hdr t (p + 3184 + 16) None (8 * j - 32, False)"
      "laid t (p + 3184 + 16 + (8 + (8 * j - 32))) (Some (p + 3184 + 16)) [sentinel]"
      "matrix t = matrix s0" "sl_bitmap t = sl_bitmap s0" "fl_bitmap t = fl_bitmap s0" "mp t = mp s0"
    have "p + 3184 + 16 = p + 3200" by simp
    note t = t [unfolded this]
    show thesis
      by (rule that [OF t(1)]) (use t index_empty [of t] in \<open>simp_all add: N(1) s0_def\<close>)
  qed
  have wf: "wf_tiles (p + 3200) ([] @ (N, False) # [])" using N by (auto simp: wf_tiles_def)
  obtain s2 where s2: "free_ex (p + 3200 + 8) s1 = Some s2" "pool_ok s2 (p + 3200) [(N, True)]" "frame s2 = frame s1"
  proof -
    have "index s1 (frees (p + 3200) ([] @ (N, False) # []))" using s1(5) by (simp add: fun_upd_idem)
    with free_ex_lemma [OF wf, of s1 "Some (p + 3200)"] s1(3,4) that show thesis
      by (auto simp: spaced_def release_def)
  qed
  define s' where "s' = s2\<lparr>area_head := buffer (p + 3184)\<rparr>"
  have same: "pool_ok s' (p + 3200) [(N, True)]" "bsize s' = bsize s2"
    using s2(2) pool_ok_area_head by (simp_all add: s'_def)
  have "bsize s2 (p + 3200) = tag N True False" using s2(2) by (simp add: pool_ok_def hdr_def)
  then have "size_of s' (p + 3200) = of_nat N" using same(2) N(2) by (simp add: size_of_def tag_simps)
  moreover have "n \<noteq> 0" using assms(4) by auto
  ultimately have "init_memory_pool n p s = Some (of_nat N, s')"
    using assms start sub s1(1,2) s2(1)
    unfolding init_memory_pool_def Let_def
    by (simp add: s0_def s'_def sizeof_tlsf_def BHDR_OVERHEAD_def buffer_def word_less_nat_alt)
  moreover have "mp s' = p" using s2(3) s1(6) by (simp add: s'_def frame_def)
  moreover have "adv (p + 3200) [(N, True)] + 8 = p + (unat n + 4) div 8 * 8"
  proof -
    have "unat n + 4 = (unat n - 3180) + 398 * 8" using assms(4) by simp
    then have "(unat n + 4) div 8 = j + 398" unfolding j_def by simp
    then show ?thesis using j unfolding N by simp
  qed
  ultimately show ?thesis using same(1) by (auto simp: N_def [symmetric])
qed

text \<open>C39: \<^verbatim>\<open>init_memory_pool\<close> leaves one free block over the pool and an index that knows it, and
  returns its size. The sentinel ends at the size of the pool plus four rounded down to a multiple
  of eight: behind the pool when the size is 4 to 7 modulo 8.\<close>

theorem init_memory_pool_ready:
  assumes "p \<noteq> 0" "(of_nat p :: u32) AND PTR_MASK = 0" "tlsf_signature s \<noteq> TLSF_SIGNATURE"
    "3244 \<le> unat n" "unat n < 2 ^ 30"
  shows "\<exists>s'. init_memory_pool n p s = Some (of_nat (pool_space (unat n)), s') \<and> mp s' = p \<and>
     pool_ok s' (p + 3200) [(pool_space (unat n), True)] \<and>
     adv (p + 3200) [(pool_space (unat n), True)] + 8 = p + (unat n + 4) div 8 * 8"
  by (rule init_memory_pool_ok [OF assms])

text \<open>The chainloader's heap: 1 MB at \<open>0x30000\<close>.\<close>

definition blank_pool :: pool where
  "blank_pool = \<lparr>tlsf_signature = 0, area_head = 0, fl_bitmap = 0, sl_bitmap = \<lambda>_. 0, matrix = \<lambda>_ _. 0,
     prev_hdr = \<lambda>_. 0, bsize = \<lambda>_. 0, free_prev = \<lambda>_. 0, free_next = \<lambda>_. 0, ai_end = \<lambda>_. 0,
     ai_next = \<lambda>_. 0, bytes = \<lambda>_. 0, mp = 0\<rparr>"

theorem init_memory_pool_ready_witness:
  "\<exists>s'. init_memory_pool 0x100000 0x30000 blank_pool = Some (1045360, s') \<and> mp s' = 0x30000 \<and>
     pool_ok s' (0x30000 + 3200) [(1045360, True)] \<and> adv (0x30000 + 3200) [(1045360, True)] + 8 = 0x30000 + 0x100000"
proof -
  have a: "(of_nat 0x30000 :: u32) AND PTR_MASK = 0" "unat (0x100000 :: u32) = 1048576"
    by (simp_all add: PTR_MASK_def)
  then show ?thesis
    using init_memory_pool_ready [where p = "0x30000" and s = blank_pool and n = "0x100000"]
    by (simp add: blank_pool_def TLSF_SIGNATURE_def pool_space_def)
qed

lemma ready_pool:
  obtains s where "pool_ok s (0x30000 + 3200) [(1045360, True)]"
proof -
  have a: "(of_nat 0x30000 :: u32) AND PTR_MASK = 0" "unat (0x100000 :: u32) = 1048576"
    by (simp_all add: PTR_MASK_def)
  then show thesis
    using init_memory_pool_ok [where p = "0x30000" and s = blank_pool and n = "0x100000"] that
    by (auto simp: blank_pool_def TLSF_SIGNATURE_def pool_space_def)
qed

section \<open>Allocation and release\<close>

lemma valid_request:
  assumes "unat sz \<le> 2 ^ 29"
  shows "unat sz + 7 < 2 ^ 31" "fit (need (unat sz)) < 2 ^ 30" "unat sz \<le> fit (need (unat sz))"
    "32 * (fit (need (unat sz)) - need (unat sz)) \<le> need (unat sz)" "8 \<le> fit (need (unat sz))"
proof -
  have n: "need (unat sz) \<le> 2 ^ 29 + 8" "need (unat sz) < 2 ^ 32"
    using need_bounds(4) [of "unat sz"] assms by auto
  show "unat sz + 7 < 2 ^ 31" using assms by simp
  show "unat sz \<le> fit (need (unat sz))" "32 * (fit (need (unat sz)) - need (unat sz)) \<le> need (unat sz)"
    "8 \<le> fit (need (unat sz))"
    using fit_bounds [OF n(2)] need_bounds [of "unat sz"] by linarith+
  obtain d where "fit (need (unat sz)) = need (unat sz) + d"
    using fit_bounds(1) [OF n(2)] le_iff_add by blast
  then show "fit (need (unat sz)) < 2 ^ 30" using fit_bounds(2) [OF n(2)] n(1) by simp
qed

lemma fit_104: "fit (need (unat (100 :: u32))) = 104"
  by (simp add: need_def fit_def)

lemma malloc_100:
  assumes "pool_ok s a [(1045360, True)]"
  obtains s' where "malloc_ex 100 s = Some (a + 8, s')" "pool_ok s' a [(104, False), (1045248, True)]"
proof -
  have v: "unat (100 :: u32) + 7 < 2 ^ 31" "fit (need (unat (100 :: u32))) < 2 ^ 30"
    unfolding fit_104 by simp_all
  show thesis
  proof (rule malloc_ex_ok [OF assms v], goal_cases null block)
    case null
    have "(1045360 :: nat) < 104" using null(2) [of 1045360] unfolding fit_104 by simp
    then show ?case by simp
  next
    case (block us n vs s')
    then have "us = []" "n = 1045360" "vs = []" by (auto simp: Cons_eq_append_conv)
    with block(1,4) that show ?case unfolding fit_104 by (simp add: cut_def)
  qed
qed

lemma used_pool:
  obtains s where "pool_ok s (0x30000 + 3200) [(104, False), (1045248, True)]"
  using ready_pool malloc_100 by metis

text \<open>C9: \<^verbatim>\<open>malloc_ex\<close> refines cutting a tile: a request of up to half a gigabyte is rounded to at
  most 33/32 of its aligned size and served from a free block of the smallest class that surely
  fits, or refused, without a change, when no free block has the rounded size.\<close>

theorem malloc_refines_cut:
  assumes "pool_ok s a ts" "unat sz \<le> 2 ^ 29"
  shows "unat sz \<le> fit (need (unat sz)) \<and> 32 * (fit (need (unat sz)) - need (unat sz)) \<le> need (unat sz) \<and>
    (malloc_ex sz s = Some (0, s) \<and> (\<forall>n. (n, True) \<in> set ts \<longrightarrow> n < fit (need (unat sz))) \<or>
     (\<exists>us n vs s'. malloc_ex sz s = Some (adv a us + 8, s') \<and> ts = us @ (n, True) # vs \<and>
        fit (need (unat sz)) \<le> n \<and> (\<forall>m. (m, True) \<in> set ts \<and> fit (need (unat sz)) \<le> m \<longrightarrow> key n \<le> key m) \<and>
        pool_ok s' a (us @ cut (fit (need (unat sz))) n @ vs) \<and> frame s' = frame s))"
proof -
  note v = valid_request [OF assms(2)]
  from malloc_ex_ok [OF assms(1) v(1,2)] show ?thesis using v(3,4) by (cases) (blast, blast)
qed

theorem malloc_refines_cut_witness:
  "\<exists>s s'. pool_ok s (0x30000 + 3200) [(1045360, True)] \<and> malloc_ex 100 s = Some (0x30000 + 3208, s') \<and>
     pool_ok s' (0x30000 + 3200) [(104, False), (1045248, True)]"
proof -
  obtain s where s: "pool_ok s (0x30000 + 3200) [(1045360, True)]" by (rule ready_pool)
  have "unat (100 :: u32) \<le> 2 ^ 29" by simp
  from malloc_refines_cut [OF s this] s show ?thesis
    unfolding fit_104 by (fastforce simp: Cons_eq_append_conv cut_def)
qed

text \<open>C10: \<^verbatim>\<open>free_ex\<close> refines joining tiles: a block that is handed back is joined with its free
  neighbours, so that again no two free blocks lie next to each other.\<close>

theorem free_refines_release:
  assumes "pool_ok s a (us @ (n, False) # vs)"
  shows "\<exists>s'. free_ex (adv a us + 8) s = Some s' \<and> pool_ok s' a (release us n vs) \<and> frame s' = frame s"
  using free_ex_ok [OF assms] by metis

theorem free_refines_release_witness:
  "\<exists>s s'. pool_ok s (0x30000 + 3200) [(104, False), (1045248, True)] \<and> free_ex (0x30000 + 3208) s = Some s' \<and>
     pool_ok s' (0x30000 + 3200) [(1045360, True)]"
proof -
  obtain s where s: "pool_ok s (0x30000 + 3200) ([] @ (104, False) # [(1045248, True)])" using used_pool by auto
  from free_refines_release [OF this] s show ?thesis by (auto simp: release_def)
qed

section \<open>Clients\<close>

lemma adv_cut: "r \<le> n \<Longrightarrow> adv a (us @ cut r n @ vs) = adv a (us @ (n, True) # vs)"
  by (auto simp: cut_def intro!: arg_cong2 [of _ _ _ _ adv])

lemma adv_release: "adv a (release us n vs) = adv a (us @ (n, False) # vs)"
proof -
  define n1 vs1 where "n1 = fst (absorb n vs)" and "vs1 = snd (absorb n vs)"
  have 1: "adv x ((n, False) # vs) = adv x ((n1, True) # vs1)" for x
    by (cases "(n, vs)" rule: absorb.cases) (auto simp: n1_def vs1_def add_ac)
  have 2: "adv a (rev (snd (absorb n1 (rev us))) @ (fst (absorb n1 (rev us)), True) # vs1) = adv a (us @ (n1, True) # vs1)"
  proof (cases us rule: rev_cases)
    case (snoc xs t)
    then show ?thesis by (cases t; cases "snd t") (auto simp: add_ac)
  qed simp
  from 1 [of "adv a us"] 2 show ?thesis by (simp add: release_def n1_def vs1_def case_prod_beta)
qed

text \<open>The state of a heap between \<open>a\<close> and \<open>e\<close> that has handed out \<open>B\<close>.\<close>

definition heap_holds :: "nat \<Rightarrow> nat \<Rightarrow> pool \<Rightarrow> (nat \<rightharpoonup> nat) \<Rightarrow> bool" where
  "heap_holds a e s B \<longleftrightarrow> (\<exists>ts. pool_ok s a ts \<and> adv a ts = e \<and> B = lives a ts)"

definition valid_size :: "u32 \<Rightarrow> bool" where "valid_size sz \<longleftrightarrow> unat sz \<le> 2 ^ 29"

interpretation tlsf: allocator "heap_holds a e" unat valid_size malloc_ex free_ex for a e
proof
  show "p + n \<le> q \<or> q + m \<le> p" if "heap_holds a e s B" "B p = Some n" "B q = Some m" "p \<noteq> q" for s B p q n m
    using that lives_separate unfolding heap_holds_def by blast
  show "free_ex 0 s = Some s" for s by (simp add: free_ex_def)
  show "\<exists>s'. free_ex p s = Some s' \<and> heap_holds a e s' (B(p := None))"
    if h: "heap_holds a e s B" and p: "B p = Some n" for s B p n
  proof -
    from h obtain ts where ts: "pool_ok s a ts" "adv a ts = e" "B = lives a ts" by (auto simp: heap_holds_def)
    obtain us vs where us: "ts = us @ (n, False) # vs" "p = adv a us + 8"
      using lives_split [OF p [unfolded ts(3)]] .
    obtain s' where "free_ex p s = Some s'" "pool_ok s' a (release us n vs)"
      using free_ex_ok [OF ts(1) [unfolded us(1)]] us(2) by metis
    moreover have "lives a (release us n vs) = B(p := None)"
      using lives_release [of a us n vs] ts us by (simp add: pool_ok_def)
    ultimately show ?thesis using ts(2) us(1) adv_release [of a us n vs] by (metis heap_holds_def)
  qed
  show "malloc_ex r s = Some (0, s) \<or>
      (\<exists>p s' n. malloc_ex r s = Some (p, s') \<and> p \<noteq> 0 \<and> B p = None \<and> unat r \<le> n \<and> heap_holds a e s' (B(p \<mapsto> n)))"
    if h: "heap_holds a e s B" and r: "valid_size r" for s B r
  proof -
    from h obtain ts where ts: "pool_ok s a ts" "adv a ts = e" "B = lives a ts" by (auto simp: heap_holds_def)
    let ?R = "fit (need (unat r))"
    note v = valid_request [OF r [unfolded valid_size_def]]
    show ?thesis
    proof (rule malloc_ex_ok [OF ts(1) v(1,2)], goal_cases null block)
      case null
      then show ?case by simp
    next
      case (block us n vs s')
      have "lives a (us @ cut ?R n @ vs) = B(adv a us + 8 \<mapsto> (if ?R + 16 \<le> n then ?R else n))"
        using lives_cut [OF v(5) block(3)] ts(3) block(2) by simp
      moreover have "adv a (us @ cut ?R n @ vs) = e" using adv_cut [OF block(3)] ts(2) block(2) by simp
      moreover have "B (adv a us + 8) = None" using lives_upd(2) ts(3) block(2) by simp
      moreover have "unat r \<le> (if ?R + 16 \<le> n then ?R else n)" using v(3) block(3) by auto
      ultimately show ?case using block(1,4) unfolding heap_holds_def by fastforce
    qed
  qed
qed

definition heap_step :: "pool \<times> (nat \<rightharpoonup> nat) \<Rightarrow> pool \<times> (nat \<rightharpoonup> nat) \<Rightarrow> bool" where
  "heap_step = client_step unat valid_size malloc_ex free_ex"

lemma heap_trace_lemma:
  assumes "heap_step\<^sup>*\<^sup>* (s, Map.empty) (s', L)" "pool_ok s a [(N, True)]"
  shows "\<exists>ts. pool_ok s' a ts \<and> adv a ts = a + (8 + N) \<and> dom L = dom (lives a ts) \<and>
     (\<forall>p n m. L p = Some n \<longrightarrow> lives a ts p = Some m \<longrightarrow> n \<le> m)"
    and "L q = Some k \<Longrightarrow> L r = Some j \<Longrightarrow> q \<noteq> r \<Longrightarrow> q + k \<le> r \<or> r + j \<le> q"
    and "L q = Some k \<Longrightarrow> free_ex q s' \<noteq> None"
    and "unat sz \<le> 2 ^ 29 \<Longrightarrow> malloc_ex sz s' \<noteq> None"
    and "L q = Some k \<Longrightarrow> a + 8 \<le> q \<and> q + k \<le> a + (8 + N)"
proof -
  let ?e = "a + (8 + N)"
  have "heap_holds a ?e s Map.empty" using assms(2) by (auto simp: heap_holds_def intro!: exI [of _ "[(N, True)]"])
  then have "tlsf.books a ?e s Map.empty" by (auto simp: tlsf.books_def)
  with tlsf.books_steps [OF assms(1) [unfolded heap_step_def]] have b: "tlsf.books a ?e s' L" by simp
  then show ts: "\<exists>ts. pool_ok s' a ts \<and> adv a ts = a + (8 + N) \<and> dom L = dom (lives a ts) \<and>
     (\<forall>p n m. L p = Some n \<longrightarrow> lives a ts p = Some m \<longrightarrow> n \<le> m)"
    by (auto simp: tlsf.books_def heap_holds_def)
  show "L q = Some k \<Longrightarrow> L r = Some j \<Longrightarrow> q \<noteq> r \<Longrightarrow> q + k \<le> r \<or> r + j \<le> q"
    using tlsf.books_separate [OF b] .
  show "L q = Some k \<Longrightarrow> free_ex q s' \<noteq> None" using tlsf.books_progress(2) [OF b] .
  show "unat sz \<le> 2 ^ 29 \<Longrightarrow> malloc_ex sz s' \<noteq> None"
    using tlsf.books_progress(1) [OF b] by (simp add: valid_size_def)
  show "a + 8 \<le> q \<and> q + k \<le> a + (8 + N)" if q: "L q = Some k"
  proof -
    from ts obtain ts where t: "adv a ts = ?e" "dom L = dom (lives a ts)"
      "\<And>p n m. L p = Some n \<Longrightarrow> lives a ts p = Some m \<Longrightarrow> n \<le> m" by blast
    from q t(2) obtain m where m: "lives a ts q = Some m" by blast
    from lives_range [OF m] t(3) [OF q m] show ?thesis by (simp add: t(1))
  qed
qed

text \<open>C4: After \<^verbatim>\<open>init_memory_pool\<close>, in any sequence of \<^verbatim>\<open>malloc_ex\<close> and \<^verbatim>\<open>free_ex\<close> in which the
  callers ask for at most half a gigabyte and hand back only what they hold, the blocks they hold
  lie in the pool and never overlap, and every further request and release is answered.\<close>

theorem heap_clients_separate:
  assumes "p \<noteq> 0" "(of_nat p :: u32) AND PTR_MASK = 0" "tlsf_signature s0 \<noteq> TLSF_SIGNATURE"
    "3244 \<le> unat n" "unat n < 2 ^ 30" "init_memory_pool n p s0 = Some (m, s)"
    "heap_step\<^sup>*\<^sup>* (s, Map.empty) (s', L)"
  shows "(\<forall>q k. L q = Some k \<longrightarrow> p + 3208 \<le> q \<and> q + k \<le> p + unat n \<and> free_ex q s' \<noteq> None) \<and>
     (\<forall>q k r j. L q = Some k \<and> L r = Some j \<and> q \<noteq> r \<longrightarrow> q + k \<le> r \<or> r + j \<le> q) \<and>
     (\<forall>sz. unat sz \<le> 2 ^ 29 \<longrightarrow> malloc_ex sz s' \<noteq> None)"
proof -
  from init_memory_pool_ok [OF assms(1-5)] assms(6) obtain N where
    N: "pool_ok s (p + 3200) [(N, True)]" "p + 3200 + (8 + N) + 8 = p + (unat n + 4) div 8 * 8" by auto
  have "p + 3200 + (8 + N) \<le> p + unat n" using N(2) div_times_less_eq_dividend [of "unat n + 4" 8] by linarith
  with heap_trace_lemma [OF assms(7) N(1)] show ?thesis by fastforce
qed

theorem heap_clients_separate_witness:
  "\<exists>m s s'. init_memory_pool 0x100000 0x30000 blank_pool = Some (m, s) \<and>
     heap_step\<^sup>*\<^sup>* (s, Map.empty) (s', [0x30000 + 3208 \<mapsto> 100]) \<and> free_ex (0x30000 + 3208) s' \<noteq> None"
proof -
  have a: "(of_nat 0x30000 :: u32) AND PTR_MASK = 0" "3244 \<le> unat (0x100000 :: u32)" "unat (0x100000 :: u32) < 2 ^ 30"
    "tlsf_signature blank_pool \<noteq> TLSF_SIGNATURE"
    by (simp_all add: PTR_MASK_def blank_pool_def TLSF_SIGNATURE_def)
  from init_memory_pool_ok [OF _ a(1,4,2,3)] obtain m s where
    s: "init_memory_pool 0x100000 0x30000 blank_pool = Some (m, s)" "pool_ok s (0x30000 + 3200) [(1045360, True)]"
    by (auto simp: pool_space_def)
  obtain s' where "malloc_ex 100 s = Some (0x30000 + 3208, s')"
    by (rule malloc_100 [OF s(2)]) simp
  then have "heap_step (s, Map.empty) (s', [0x30000 + 3208 \<mapsto> unat (100 :: u32)])"
    unfolding heap_step_def by (rule client_step.Get [rotated]) (simp_all add: valid_size_def)
  then have "heap_step\<^sup>*\<^sup>* (s, Map.empty) (s', [0x30000 + 3208 \<mapsto> 100])" by simp
  from heap_clients_separate [OF _ a(1,4,2,3) s(1) this] this s(1) show ?thesis by auto
qed

text \<open>C38: Handing a block straight back restores the layout of the pool before the request.\<close>

theorem free_malloc_restores:
  assumes "pool_ok s a ts" "unat sz \<le> 2 ^ 29" "malloc_ex sz s = Some (p, s')" "p \<noteq> 0"
  shows "\<exists>s''. free_ex p s' = Some s'' \<and> pool_ok s'' a ts \<and> frame s'' = frame s"
proof -
  note v = valid_request [OF assms(2)]
  show ?thesis
  proof (rule malloc_ex_ok [OF assms(1) v(1,2)], goal_cases null block)
    case null
    with assms(3,4) show ?case by simp
  next
    case (block us n vs s1)
    let ?R = "fit (need (unat sz))"
    have s1: "s1 = s'" "p = adv a us + 8" using block(1) assms(3) by simp_all
    have sp: "spaced (us @ (n, True) # vs)" using assms(1) block(2) by (simp add: pool_ok_def)
    then have us: "us = [] \<or> \<not> snd (last us)" and vs: "vs = [] \<or> \<not> snd (hd vs)"
      by (auto simp: spaced_append spaced_Cons)
    obtain m ws where c: "cut ?R n @ vs = (m, False) # ws" "absorb m ws = (n, vs)"
    proof (cases "?R + 16 \<le> n")
      case True
      then show thesis using that [of ?R "(n - ?R - 8, True) # vs"] by (simp add: cut_def)
    next
      case False
      have "absorb n vs = (n, vs)" using vs by (cases "(n, vs)" rule: absorb.cases) auto
      with False show thesis using that [of n vs] by (simp add: cut_def)
    qed
    have "absorb n (rev us) = (n, rev us)"
      using us by (cases "(n, rev us)" rule: absorb.cases) (auto simp: last_rev [of "rev us", simplified])
    then have "release us m ws = ts" by (simp add: release_def c(2) block(2))
    then show ?case using free_ex_ok [of s' a us m ws] block(4,5) c(1) s1 by fastforce
  qed
qed

theorem free_malloc_restores_witness:
  "\<exists>s s' s''. pool_ok s (0x30000 + 3200) [(1045360, True)] \<and> malloc_ex 100 s = Some (0x30000 + 3208, s') \<and>
     free_ex (0x30000 + 3208) s' = Some s'' \<and> pool_ok s'' (0x30000 + 3200) [(1045360, True)]"
proof -
  obtain s where s: "pool_ok s (0x30000 + 3200) [(1045360, True)]" by (rule ready_pool)
  obtain s' where m: "malloc_ex 100 s = Some (0x30000 + 3208, s')"
    by (rule malloc_100 [OF s]) simp
  from free_malloc_restores [OF s _ m] s m show ?thesis by auto
qed

section \<open>Requests that are too large\<close>

lemma malloc_ex_outside:
  assumes "2 ^ 30 \<le> unat sz" "unat sz + 7 < 2 ^ 31"
  shows "malloc_ex sz s = None"
proof -
  define r where "r = fit (need (unat sz))"
  have "need (unat sz) < 2 ^ 32" using assms(2) by (auto simp: need_def)
  then have r: "2 ^ 30 \<le> r" "r < 2 ^ 32"
    using fit_bounds(1,2) [of "need (unat sz)"] need_bounds(1) [of "unat sz"] assms
    by (auto simp: r_def need_def)
  then have "30 \<le> lg r" by (rule lg_ge)
  then have "\<not> in_matrix (int (key r div 32)) (int (key r mod 32))"
    using r by (simp add: in_matrix_def REAL_FLI_def key_div_mod)
  then show ?thesis
    unfolding malloc_ex_search [OF assms(2)] r_def [symmetric] by (simp add: FIND_SUITABLE_BLOCK_def)
qed

lemma ROUNDUP_SIZE_wraps:
  assumes "0xFFFFFFF9 \<le> sz"
  shows "ROUNDUP_SIZE sz = 0"
proof -
  have "4294967289 \<le> unat sz" using assms by (simp add: word_le_nat_alt)
  then obtain k where k: "unat sz = 4294967289 + k" using le_iff_add by blast
  then have "k < 7" using unsigned_less [of sz, where ?'a = nat] by simp
  then have u: "unat (sz + 7) < 8" by (simp add: unat_word_ariths k)
  have "sz + MEM_ALIGN = of_nat (unat (sz + 7))" "MEM_ALIGN = push_bit 3 1 - 1"
    by (simp_all add: MEM_ALIGN_def BLOCK_ALIGN_def)
  then show ?thesis
    using u and_not_mask_nat [of "unat (sz + 7)" 3] unfolding ROUNDUP_SIZE_def by simp
qed

lemma malloc_ex_wraps:
  assumes ok: "pool_ok s a ts" and sz: "0xFFFFFFF9 \<le> sz"
    and free: "(n0, True) \<in> set ts" "\<And>n. (n, True) \<in> set ts \<Longrightarrow> 16 \<le> n"
  shows "\<exists>p s'. malloc_ex sz s = Some (p, s') \<and> p \<noteq> 0 \<and> size_of s' (p - 8) = 0"
proof -
  have wf: "wf_tiles a ts" and laid: "laid s a None (ts @ [sentinel])" and ix: "index s (frees a ts)"
    using ok by (auto simp: pool_ok_def)
  have "\<not> sz < MIN_BLOCK_SIZE" using sz by (simp add: MIN_BLOCK_SIZE_def word_less_nat_alt word_le_nat_alt)
  moreover have "MAPPING_SEARCH 0 = (0, 0, 0)" by code_simp
  ultimately have M: "malloc_ex sz s = do {
      (b, fl, sl) \<leftarrow> FIND_SUITABLE_BLOCK s (int (0 div 32)) (int (0 mod 32));
      if b = 0 then Some (0, s)
      else do { s \<leftarrow> EXTRACT_BLOCK_HDR b fl sl s; s \<leftarrow> take_block b 0 s; Some (buffer b, s) } }"
    by (simp add: malloc_ex_def ROUNDUP_SIZE_wraps [OF sz])
  show ?thesis
  proof (rule FIND_SUITABLE_BLOCK_index [OF ix, of 0], goal_cases small none found)
    case (none fl sl)
    from split_list [OF free(1)] obtain us vs where "ts = us @ (n0, True) # vs" by blast
    with none(2) [of "adv a us" n0] show ?case by (simp add: frees_free)
  next
    case (found c)
    from ix found(3) obtain xs where xs: "chain s (head s c) xs" "set xs = members (frees a ts) c"
      by (auto simp: index_def)
    from chain_head_in [OF xs(1) found(4)] xs(2) obtain n where n: "frees a ts (head s c) = Some n" "key n = c"
      by (auto simp: members_def)
    obtain us vs where ts: "ts = us @ (n, True) # vs" "head s c = adv a us" using frees_split [OF n(1)] .
    let ?b = "adv a us" and ?F = "frees a (us @ (n, False) # vs)"
    note w = wf_tiles_mem [OF wf [unfolded ts(1)]]
    have n16: "16 \<le> n" using free(2) ts(1) by simp
    obtain s1 where s1: "EXTRACT_BLOCK ?b (int (c div 32)) (int (c mod 32)) s = Some s1"
      "index s1 ((frees a ts)(?b := None))" "others s1 = others s"
      using EXTRACT_BLOCK_index [OF ix n(1)] by (metis n(2) ts(2))
    have hdr1: "EXTRACT_BLOCK_HDR ?b (int (c div 32)) (int (c mod 32)) s = Some s1"
      using EXTRACT_BLOCK_HDR_eq [OF ix n(1)] s1(1) by (simp add: n(2) ts(2))
    note o1 = others_eqD [OF s1(3)]
    define p where "p \<longleftrightarrow> carry a None us \<noteq> None"
    have hb: "bsize s1 ?b = tag n True p" using laid by (simp add: ts(1) o1 hdr_def p_def)
    have nb: "next_block s1 ?b = ?b + (8 + n)" by (rule next_block_tag [OF hb w(1,3)])
    have size: "size_of s1 ?b = of_nat n" by (rule hdr_size [OF hb w(1)])
    have k8: "8 dvd n - 8" "n - 8 < 2 ^ 30" using w by (auto intro: dvd_diff_nat)
    have sub: "(of_nat n - 0 :: u32) - of_nat BHDR_OVERHEAD = of_nat (n - 8)"
      using n16 by (simp add: BHDR_OVERHEAD_def of_nat_diff)
    have cmp: "(of_nat n - 0 :: u32) \<ge> sizeof_bhdr"
      using n16 w(3) by (simp add: word_le_nat_alt sizeof_bhdr_def unat_of_nat_small)
    have b2: "GET_NEXT_BLOCK (buffer ?b) 0 = ?b + 8" by (simp add: GET_NEXT_BLOCK_def buffer_def BHDR_OVERHEAD_def)
    define s2 where "s2 = set_prev_hdr (?b + (8 + n)) (?b + 8) (set_size (?b + 8) (of_nat (n - 8) OR FREE_BLOCK) s1)"
    have "?F = frees a ((us @ [(0, False)]) @ (n - 8, False) # vs)" using n16 by (simp add: frees_join)
    then have "?F (?b + 8) = None" using frees_used [of a "us @ [(0, False)]" "n - 8" vs] by simp
    moreover have "index s2 ?F" using s1(2) by (simp add: s2_def ts(1) frees_take)
    ultimately obtain s3 where s3: "INSERT_BLOCK (?b + 8) (int (key (n - 8) div 32)) (int (key (n - 8) mod 32)) s2 = Some s3"
      "others s3 = others s2"
      using INSERT_BLOCK_index [of s2 ?F "?b + 8" "n - 8"] k8 by (metis add_is_0 zero_neq_numeral)
    have t: "take_block ?b 0 s1 = Some (set_size ?b (0 OR (bsize s3 ?b AND PREV_STATE)) s3)"
      using cmp k8 unfolding take_block_def Let_def nb size sub b2 s2_def [symmetric]
      by (simp add: MAPPING_INSERT_key s3(1))
    have "bsize s3 ?b = tag n True p"
      using others_eqD(1) [OF s3(2)] hb n16 by (simp add: s2_def)
    then have "(0 OR (bsize s3 ?b AND PREV_STATE)) AND BLOCK_SIZE = 0"
      using tag_simps(1) [of 0 False p] by (simp add: tag_simps w(1))
    then show ?case
      using M found(1,4) by (auto simp: ts(2) hdr1 t buffer_def BHDR_OVERHEAD_def size_of_def)
  qed simp
qed

text \<open>C40: Requests from one to two gigabytes make \<^verbatim>\<open>malloc_ex\<close> read behind its bitmaps. A request of the
  last seven sizes wraps to zero when it is aligned, and gets a block with no space at all: the
  pointer returned is the header of the next free block.\<close>

theorem malloc_huge_requests:
  assumes "pool_ok s a ts" "(n0, True) \<in> set ts" "\<forall>n. (n, True) \<in> set ts \<longrightarrow> 16 \<le> n"
  shows "(\<forall>sz. 2 ^ 30 \<le> unat sz \<and> unat sz + 7 < 2 ^ 31 \<longrightarrow> malloc_ex sz s = None) \<and>
    (\<forall>sz. 0xFFFFFFF9 \<le> sz \<longrightarrow> (\<exists>p s'. malloc_ex sz s = Some (p, s') \<and> p \<noteq> 0 \<and> size_of s' (p - 8) = 0))"
  using malloc_ex_outside malloc_ex_wraps [OF assms(1) _ assms(2)] assms(3) by blast

theorem malloc_huge_requests_witness:
  "\<exists>s p s'. pool_ok s (0x30000 + 3200) [(1045360, True)] \<and> malloc_ex 0x40000000 s = None \<and>
     malloc_ex 0xFFFFFFFF s = Some (p, s') \<and> p \<noteq> 0 \<and> size_of s' (p - 8) = 0"
proof -
  obtain s where s: "pool_ok s (0x30000 + 3200) [(1045360, True)]" by (rule ready_pool)
  have "unat (0x40000000 :: u32) = 2 ^ 30" "(0xFFFFFFF9 :: u32) \<le> 0xFFFFFFFF" by simp_all
  with malloc_huge_requests [OF s, of 1045360] s show ?thesis by fastforce
qed

end
