(* ===== verification/Spec2Isabelle.thy ===== *)
theory Spec2Isabelle
  imports Boot Crc32 Interrupts FatSpec FdtBuild Loader TlsfSpec
begin

text \<open>
  A verification development of rpi-open-firmware: a replacement for the closed boot firmware of
  the Raspberry Pi.

  \<^bold>\<open>The program.\<close> The VPU runs a first stage (\<^verbatim>\<open>src/firmware\<close>): it sets up clocks, console and
  SDRAM, powers the ARM and the USB PHY up, maps the ARM's addresses to the bus, copies the
  chainloader to memory, and then answers the ARM's mailbox. The chainloader
  (\<^verbatim>\<open>src/arm_chainloader\<close>) switches its MMU on, brings the SD card up, mounts the file system of
  its first partition, loads kernel, ramdisk and device tree, edits the device tree and enters Linux.
  \<^verbatim>\<open>src/common\<close> and \<^verbatim>\<open>src/notc\<close> hold what both use, \<^verbatim>\<open>src/tlsf\<close> the heap of the chainloader.

  \<^bold>\<open>How hardware is modelled.\<close> \<open>Bus\<close>: the state is a bus, that is an environment answering each
  read from the history of accesses, and the history. Code that touches registers is an action:
  a function from the bus to a result (\<open>Inr\<close>), a panic or a hang (\<open>Inl\<close>), and the bus after it.
  The environment is arbitrary, so what is proved without an assumption on it holds for every
  device and every interleaving with it; assumptions are named (\<open>storage\<close>: registers that hold what
  is written, where the clock manager takes only writes with the password; \<open>answers\<close>;
  \<open>device\<close>: a state machine behind the bus). A polling loop is bounded by \<open>patience\<close>, the number of
  reads the model waits; the bound is a parameter of the bus, and not ending within it is \<open>Hang\<close>.
  Properties either hold for every bound, or name the bound they need. \<open>keeps\<close>, \<open>runs\<close>, \<open>gives\<close> and
  \<open>yields\<close> are the program logics: invariants of all writes, total correctness, partial
  correctness, and both.

  \<^bold>\<open>The theories and the code they model.\<close>
    \<^item> \<open>Prelude\<close>: machine integers and shared facts. \<open>Regs\<close>: the registers and bits of the
      generated headers under \<^verbatim>\<open>src/common/broadcom\<close> that the code uses. \<open>Bus\<close>: above, with
      \<^verbatim>\<open>panic.c\<close>, \<^verbatim>\<open>udelay.c\<close> and the log line of the drivers. \<open>Device\<close>: devices as state machines.
    \<^item> VPU stage. \<open>Gpio\<close>: \<^verbatim>\<open>common/BCM2708Gpio.cc\<close>. \<open>Clocks\<close>: \<^verbatim>\<open>pll_read.c\<close>,
      \<^verbatim>\<open>BCM2708ClockDomains.cc\<close>, the PLL switch of \<^verbatim>\<open>romstage.c\<close>. \<open>Otp\<close>: \<^verbatim>\<open>otp.c\<close>,
      \<^verbatim>\<open>otp_asm.S\<close>. \<open>Interrupts\<close>: \<^verbatim>\<open>interrupt.c\<close>. \<open>Monitor\<close>: \<^verbatim>\<open>arm_monitor.c\<close>,
      \<^verbatim>\<open>trap.c\<close>. \<open>Sdram\<close>: \<^verbatim>\<open>sdram.c\<close>. \<open>PowerDomains\<close>: \<^verbatim>\<open>IODevice.cc\<close>,
      \<^verbatim>\<open>BCM2708PowerManagement.cc\<close>. \<open>ArmControl\<close>: \<^verbatim>\<open>BCM2708ArmControl.cc\<close>, the USB PHY and
      \<^verbatim>\<open>BCM2708PlatformStartup.cc\<close>. \<open>Console\<close>: \<^verbatim>\<open>xprintf.c\<close>, \<^verbatim>\<open>pl011.c\<close>, \<^verbatim>\<open>aux.c\<close>, the
      dumps. \<open>Crc32\<close>: \<^verbatim>\<open>crc32.c\<close>. \<open>Boot\<close>: \<^verbatim>\<open>utils.cc\<close> and \<^verbatim>\<open>_main\<close> of \<^verbatim>\<open>romstage.c\<close>.
    \<^item> ARM stage. \<open>Mmu\<close>: \<^verbatim>\<open>mmu.c\<close>, \<^verbatim>\<open>main.c\<close>, \<^verbatim>\<open>mailbox.cc\<close>. \<open>SdProto\<close>: \<^verbatim>\<open>sd_proto.hpp\<close>.
      \<open>SdHost\<close>, \<open>SdCard\<close>: \<^verbatim>\<open>sdhost_impl.cc\<close>, and the driver against a model of controller and card.
      \<open>BlockDevice\<close>: the interface \<^verbatim>\<open>block_device.hpp\<close> as a locale, interpreted on the SD driver.
      \<open>MbrDisk\<close>: \<^verbatim>\<open>mbr_disk.cc\<close>. \<open>Loader\<close>: \<^verbatim>\<open>loader.cc\<close>.
    \<^item> File system, \<^verbatim>\<open>drivers/fatfs/ff.c\<close> as \<^verbatim>\<open>ffconf.h\<close> configures it. \<open>FatFs\<close>, \<open>FatFsApi\<close>: the
      functions, with the volume objects in a memory of their own and the disk below; loops over
      clusters, records and path segments carry a fuel that the theorems show to be enough.
      \<open>FatDisk\<close>: what the module asks of the disk, as the locale \<open>volume_disk\<close>, with every partition of
      a block device as a sublocale. \<open>FatVolume\<close>: the invariant \<open>mounted\<close> and the allocation table.
      \<open>FatMount\<close>: boot sectors. \<open>FatFile\<close>, \<open>FatSeek\<close>: reading and seeking. \<open>FatDir\<close>, \<open>FatPath\<close>,
      \<open>FatNames\<close>: directories, paths and names. \<open>FatOpen\<close>: files by their path. \<open>FatList\<close>:
      listing a directory. \<open>FatSample\<close>: a small volume for the examples. \<open>FatSpec\<close>: the properties, on the partition of an SD card.
    \<^item> Device trees, \<^verbatim>\<open>drivers/libfdt\<close>. \<open>Fdt\<close>, \<open>FdtRead\<close>, \<open>FdtWrite\<close>: the functions on bytes, with C
      integers as integers and their wrap-around written out. \<open>FdtTokens\<close>, \<open>FdtTree\<close>: what a blob
      means, as a list of tokens and as a tree. \<open>FdtEdit\<close>, \<open>FdtSpec\<close>: looking up and setting
      properties against that meaning. \<open>FdtSw\<close>, \<open>FdtBuild\<close>: \<^verbatim>\<open>fdt_sw.c\<close>, writing a tree call by
      call, down to the tree that the finished blob holds. Loops over a blob are partial functions: \<open>None\<close> is not
      returning.
    \<^item> Heap, \<^verbatim>\<open>src/tlsf/tlsf.c\<close>. \<open>Tlsf\<close>: the functions, on one map per field of the headers laid over
      the pool; \<open>None\<close> is an access outside the arrays of the control structure. \<open>TlsfBits\<close>: bit
      searches, size words, the order of the size classes. \<open>TlsfIndex\<close>: matrix, lists and bitmaps
      represent a map from free blocks to sizes. \<open>TlsfPool\<close>: the tiling of the pool by blocks and
      its refinement by allocation and release. \<open>Allocator\<close>: the interface and its clients, as a
      step relation and a locale, interpreted in \<open>TlsfSpec\<close>, which holds the properties.

  \<^bold>\<open>What is shown.\<close> Each component has its functional behaviour on every branch as equations, and
  its properties as theorems with a text that names them; the important compositions are
    \<^item> \<open>boot_password_discipline\<close>: on every path of the boot sequence, with any hardware, every write
      to a protected register carries the password; \<open>sdram_restarts_locked\<close>, \<open>powerOn_handshake\<close>:
      the orderings the hardware asks for.
    \<^item> \<open>arm_address_map\<close>, \<open>page_tables_identity\<close>, \<open>arm_virtual_map\<close>: what an ARM address reaches
      through page tables and the VPU's mapping together.
    \<^item> \<open>sdhost_init_identifies\<close>, \<open>read_block_delivers\<close>, \<open>disk_stack_reads_partition\<close>: from a cold
      controller to the sectors of a partition, through driver, interface and partition layer.
    \<^item> \<open>path_offset_finds\<close>, \<open>setprop_refines_tree\<close>, \<open>getprop_setprop\<close>: the device tree library
      refines look-up and update of trees.
    \<^item> \<open>f_mount_establishes_volume\<close>, \<open>seek_then_read\<close>, \<open>open_then_read\<close>, \<open>f_stat_returns\<close>: the file
      system reads what the sectors of the partition hold, and returns whatever they hold.
    \<^item> \<open>loader_enters_linux\<close>: drivers, partition layer, file system, device tree library and loader
      together, from a cold controller to the entry of the kernel.
    \<^item> \<open>malloc_refines_cut\<close>, \<open>free_refines_release\<close>, \<open>heap_clients_separate\<close>: the heap.
  Theorems about errors state what the code does where it deviates from what it means to do, for
  instance \<open>monitor_hangs_on_bad_size\<close>, \<open>resize_loses_structure\<close>, \<open>malloc_huge_requests\<close>.

  \<^bold>\<open>Idealisations.\<close>
    \<^item> Memory keeps what is written to it, so the verification loop of \<open>loadInitialCode\<close> always succeeds; in
      the heap the headers of the blocks are maps of their own, apart from the bytes of the clients.
    \<^item> The card of \<open>SdCard\<close> answers at once: it is never busy and does not tell single from multiple block
      commands. What depends on such timing is shown against the arbitrary environment only.
    \<^item> \<open>read_file_alloc\<close> takes its buffer from \<open>operator new\<close>, which is taken to succeed.
    \<^item> \<open>fill_loop\<close> has \<open>count div 4 + 2\<close> rounds: a loop that ends needs no more
      (\<open>fill_range_numbered_ends\<close>), one whose index wraps around never ends (\<open>fill_loop_endless\<close>).

  \<^bold>\<open>Not modelled.\<close>
    \<^item> Assembly (start-up, exception entry, \<^verbatim>\<open>lib_armv6\<close>), but for the fuse reader: what C code
      calls of it is a constructor (\<open>cp15\<close>) or the memory function it implements.
    \<^item> Of FatFs what the configuration leaves out: writing, long names, exFAT, several volumes; the
      sample driver \<^verbatim>\<open>diskio.c\<close> and the code page tables.
    \<^item> \<^verbatim>\<open>realloc_ex.c\<close>: no Makefile compiles it.
    \<^item> Code that only prints, the test routines that run vector code or raise exceptions
      (\<^verbatim>\<open>startelf.c\<close>, \<^verbatim>\<open>utils4.cc\<close>), the C++ run-time glue and newlib's streams.
    \<^item> Host tools (\<^verbatim>\<open>uart-manager\<close>, \<^verbatim>\<open>utils\<close>, \<^verbatim>\<open>hs-gpio\<close>), \<^verbatim>\<open>arm64\<close>, build files.
\<close>

end
